(* ===== verification/Hash_Map.thy ===== *)
theory Hash_Map
  imports Prelude
begin

text \<open>
  Rust's \<open>HashMap\<close> (and \<open>HashSet\<close> where its size or iteration matters): an association list
  with distinct keys. The order of the list stands for the unspecified iteration order, so a
  theorem about every well-formed list is a theorem about every order. The locale
  \<open>map_contract\<close> states what the components rely on; \<open>hm\<close> discharges it for the model.
\<close>

section \<open>The operations\<close>

type_synonym ('k, 'v) hm = "('k \<times> 'v) list"

definition hm_wf :: "('k, 'v) hm \<Rightarrow> bool" where
  "hm_wf m = distinct (map fst m)"

definition hm_get :: "('k, 'v) hm \<Rightarrow> 'k \<Rightarrow> 'v option" where
  "hm_get m k = map_of m k"

definition hm_contains :: "('k, 'v) hm \<Rightarrow> 'k \<Rightarrow> bool" where
  "hm_contains m k = (k \<in> fst ` set m)"

primrec hm_insert :: "'k \<Rightarrow> 'v \<Rightarrow> ('k, 'v) hm \<Rightarrow> ('k, 'v) hm" where
  "hm_insert k v [] = [(k, v)]"
| "hm_insert k v (e # m) = (if fst e = k then (k, v) # m else e # hm_insert k v m)"

definition hm_retain :: "('k \<Rightarrow> 'v \<Rightarrow> bool) \<Rightarrow> ('k, 'v) hm \<Rightarrow> ('k, 'v) hm" where
  "hm_retain p m = filter (\<lambda>(k, v). p k v) m"

definition hm_remove :: "'k \<Rightarrow> ('k, 'v) hm \<Rightarrow> ('k, 'v) hm" where
  "hm_remove k m = hm_retain (\<lambda>k' _. k' \<noteq> k) m"

definition hm_keys :: "('k, 'v) hm \<Rightarrow> 'k list" where
  "hm_keys m = map fst m"

definition hm_values :: "('k, 'v) hm \<Rightarrow> 'v list" where
  "hm_values m = map snd m"

text \<open>\<open>iter().collect::<HashMap<_, _>>()\<close>: later entries overwrite earlier ones.\<close>

definition hm_collect :: "('k \<times> 'v) list \<Rightarrow> ('k, 'v) hm" where
  "hm_collect xs = fold (\<lambda>(k, v) m. hm_insert k v m) xs []"

definition hm_insert_all :: "'k list \<Rightarrow> 'v \<Rightarrow> ('k, 'v) hm \<Rightarrow> ('k, 'v) hm" where
  "hm_insert_all ks v m = fold (\<lambda>k m. hm_insert k v m) ks m"

definition hm_remove_all :: "'k list \<Rightarrow> ('k, 'v) hm \<Rightarrow> ('k, 'v) hm" where
  "hm_remove_all ks m = fold hm_remove ks m"

section \<open>The contract of a map\<close>

locale map_contract =
  fixes empty :: 'm
    and get :: "'m \<Rightarrow> 'k \<Rightarrow> 'v option"
    and insert :: "'k \<Rightarrow> 'v \<Rightarrow> 'm \<Rightarrow> 'm"
    and remove :: "'k \<Rightarrow> 'm \<Rightarrow> 'm"
    and size :: "'m \<Rightarrow> nat"
    and invar :: "'m \<Rightarrow> bool"
  assumes get_empty: "get empty k = None"
    and get_insert: "get (insert k v m) k' = (if k' = k then Some v else get m k')"
    and get_remove: "get (remove k m) k' = (if k' = k then None else get m k')"
    and invar_empty: "invar empty"
    and invar_insert: "invar m \<Longrightarrow> invar (insert k v m)"
    and invar_remove: "invar m \<Longrightarrow> invar (remove k m)"
    and size_dom: "invar m \<Longrightarrow> size m = card (dom (get m))"
    and finite_dom: "finite (dom (get m))"
begin

lemma dom_insert: "dom (get (insert k v m)) = Set.insert k (dom (get m))"
  by (auto simp: dom_def get_insert)

lemma dom_remove: "dom (get (remove k m)) = dom (get m) - {k}"
  by (auto simp: dom_def get_remove)

lemma size_insert:
  "invar m \<Longrightarrow> size (insert k v m) = (if get m k = None then Suc (size m) else size m)"
  by (simp add: size_dom invar_insert dom_insert finite_dom card_insert_if domIff)

lemma size_remove:
  "invar m \<Longrightarrow> size (remove k m) = (if get m k = None then size m else size m - 1)"
  by (simp add: size_dom invar_remove dom_remove finite_dom card_Diff_singleton_if domIff)

lemma get_fold_insert:
  "get (fold (\<lambda>(k, v) m. insert k v m) xs m) k =
     (case map_of (rev xs) k of None \<Rightarrow> get m k | Some v \<Rightarrow> Some v)"
  by (induction xs arbitrary: m) (auto simp: get_insert map_add_def split: option.splits)

lemma invar_fold_insert: "invar m \<Longrightarrow> invar (fold (\<lambda>(k, v) m. insert k v m) xs m)"
  by (induction xs arbitrary: m) (auto simp: invar_insert)

lemma get_fold_insert_same:
  "get (fold (\<lambda>k m. insert k v m) ks m) k = (if k \<in> set ks then Some v else get m k)"
  by (induction ks arbitrary: m) (auto simp: get_insert)

lemma invar_fold_insert_same: "invar m \<Longrightarrow> invar (fold (\<lambda>k m. insert k v m) ks m)"
  by (induction ks arbitrary: m) (auto simp: invar_insert)

lemma get_fold_remove:
  "get (fold remove ks m) k = (if k \<in> set ks then None else get m k)"
  by (induction ks arbitrary: m) (auto simp: get_remove)

lemma invar_fold_remove: "invar m \<Longrightarrow> invar (fold remove ks m)"
  by (induction ks arbitrary: m) (auto simp: invar_remove)

end

section \<open>The hash map meets the contract\<close>

lemma set_hm_insert_keys: "fst ` set (hm_insert k v m) = insert k (fst ` set m)"
  by (induction m) auto

lemma hm_get_insert: "hm_get (hm_insert k v m) k' = (if k' = k then Some v else hm_get m k')"
  by (induction m) (auto simp: hm_get_def)

lemma hm_wf_insert: "hm_wf m \<Longrightarrow> hm_wf (hm_insert k v m)"
  by (induction m) (auto simp: hm_wf_def set_hm_insert_keys simp flip: image_set)

lemma hm_wf_retain: "hm_wf m \<Longrightarrow> hm_wf (hm_retain p m)"
  by (induction m) (auto simp: hm_wf_def hm_retain_def)

lemma hm_get_None_iff: "hm_get m k = None \<longleftrightarrow> k \<notin> fst ` set m"
  by (simp add: hm_get_def map_of_eq_None_iff)

lemma hm_get_retain:
  "hm_wf m \<Longrightarrow> hm_get (hm_retain p m) k =
     (case hm_get m k of None \<Rightarrow> None | Some v \<Rightarrow> if p k v then Some v else None)"
proof (induction m)
  case (Cons e m)
  obtain a b where e: "e = (a, b)" by (cases e)
  from Cons.prems have wf: "hm_wf m" and a: "a \<notin> fst ` set m"
    by (auto simp: hm_wf_def e)
  have "hm_get (hm_retain p m) k = None" if "k = a"
    using a that Cons.IH[OF wf] by (simp add: hm_get_None_iff flip: hm_get_None_iff split: option.split)
  with Cons.IH[OF wf] show ?case
    by (auto simp: hm_retain_def hm_get_def e split: option.splits)
qed (simp add: hm_retain_def hm_get_def)

lemma hm_get_remove: "hm_get (hm_remove k m) k' = (if k' = k then None else hm_get m k')"
  by (induction m) (auto simp: hm_remove_def hm_retain_def hm_get_def)

lemma hm_wf_remove: "hm_wf m \<Longrightarrow> hm_wf (hm_remove k m)"
  by (simp add: hm_remove_def hm_wf_retain)

lemma dom_hm_get: "dom (hm_get m) = fst ` set m"
  by (simp add: hm_get_def[abs_def] dom_map_of_conv_image_fst)

interpretation hm: map_contract "[]" hm_get hm_insert hm_remove length hm_wf
proof unfold_locales
  fix m :: "('a, 'b) hm"
  assume "hm_wf m"
  then have "card (set (map fst m)) = length (map fst m)"
    unfolding hm_wf_def by (rule distinct_card)
  then show "length m = card (dom (hm_get m))" by (simp add: dom_hm_get)
qed (simp_all add: hm_get_insert hm_get_remove hm_wf_insert hm_wf_remove dom_hm_get,
     simp_all add: hm_get_def hm_wf_def)

section \<open>Rules for the components\<close>

lemma hm_get_Nil [simp, hm_simps]: "hm_get [] k = None"
  by (rule hm.get_empty)

lemma hm_wf_Nil [simp]: "hm_wf []"
  by (rule hm.invar_empty)

lemma hm_contains_iff [hm_simps]: "hm_contains m k \<longleftrightarrow> hm_get m k \<noteq> None"
  by (simp add: hm_contains_def hm_get_None_iff)

lemma hm_get_in_set: "hm_get m k = Some v \<Longrightarrow> (k, v) \<in> set m"
  by (simp add: hm_get_def map_of_SomeD)

lemma hm_in_set_iff: "hm_wf m \<Longrightarrow> (k, v) \<in> set m \<longleftrightarrow> hm_get m k = Some v"
  by (simp add: hm_get_def hm_wf_def)

lemma hm_get_collect: "hm_get (hm_collect xs) k = map_of (rev xs) k"
  unfolding hm_collect_def by (subst hm.get_fold_insert) (simp split: option.split)

lemma hm_wf_collect [simp]: "hm_wf (hm_collect xs)"
  unfolding hm_collect_def by (rule hm.invar_fold_insert) simp

lemma map_of_rev_distinct:
  assumes "distinct (map fst xs)"
  shows "map_of (rev xs) = map_of xs"
proof (rule map_of_eqI)
  show "set (map fst (rev xs)) = set (map fst xs)" by simp
  show "\<forall>k \<in> set (map fst (rev xs)). map_of (rev xs) k = map_of xs k"
  proof
    fix k
    assume "k \<in> set (map fst (rev xs))"
    then obtain v where kv: "(k, v) \<in> set xs" by auto
    have "distinct (map fst (rev xs))" using assms by (simp flip: rev_map)
    with kv assms show "map_of (rev xs) k = map_of xs k" by simp
  qed
qed

lemma hm_get_collect_distinct:
  "distinct (map fst xs) \<Longrightarrow> hm_get (hm_collect xs) k = map_of xs k"
  by (simp add: hm_get_collect map_of_rev_distinct)

lemma hm_get_insert_all [hm_simps]:
  "hm_get (hm_insert_all ks v m) k = (if k \<in> set ks then Some v else hm_get m k)"
  unfolding hm_insert_all_def by (rule hm.get_fold_insert_same)

lemma hm_wf_insert_all: "hm_wf m \<Longrightarrow> hm_wf (hm_insert_all ks v m)"
  unfolding hm_insert_all_def by (rule hm.invar_fold_insert_same)

lemma hm_get_remove_all [hm_simps]:
  "hm_get (hm_remove_all ks m) k = (if k \<in> set ks then None else hm_get m k)"
  unfolding hm_remove_all_def by (rule hm.get_fold_remove)

lemma hm_wf_remove_all: "hm_wf m \<Longrightarrow> hm_wf (hm_remove_all ks m)"
  unfolding hm_remove_all_def by (rule hm.invar_fold_remove)

lemma hm_length_remove_le: "length (hm_remove k m) \<le> length m"
  by (simp add: hm_remove_def hm_retain_def)

lemma hm_length_retain_le: "length (hm_retain p m) \<le> length m"
  by (simp add: hm_retain_def)

lemmas hm_wf_intros [intro] =
  hm_wf_insert hm_wf_remove hm_wf_retain hm_wf_insert_all hm_wf_remove_all

declare hm_get_insert [hm_simps] hm_get_remove [hm_simps]

section \<open>Sums over a map\<close>

definition hm_sum :: "('v \<Rightarrow> nat) \<Rightarrow> ('k, 'v) hm \<Rightarrow> nat" where
  "hm_sum f m = sum_list (map (\<lambda>(_, v). f v) m)"

lemma hm_sum_simps [simp]: "hm_sum f [] = 0" "hm_sum f ((k, v) # m) = f v + hm_sum f m"
  by (simp_all add: hm_sum_def)

lemma hm_sum_insert:
  "hm_wf m \<Longrightarrow> hm_sum f (hm_insert k v m) + (case hm_get m k of None \<Rightarrow> 0 | Some w \<Rightarrow> f w) = hm_sum f m + f v"
  by (induction m) (auto simp: hm_get_def hm_wf_def hm_sum_def split: option.splits)

lemma hm_sum_remove:
  "hm_wf m \<Longrightarrow> hm_sum f (hm_remove k m) + (case hm_get m k of None \<Rightarrow> 0 | Some w \<Rightarrow> f w) = hm_sum f m"
proof (induction m)
  case (Cons e m)
  obtain k' v where e: "e = (k', v)" by (cases e)
  show ?case
  proof (cases "k' = k")
    case True
    then have "k \<notin> fst ` set m" using Cons.prems e by (auto simp: hm_wf_def)
    then have "hm_remove k m = m" by (force simp: hm_remove_def hm_retain_def intro!: filter_True)
    with True e show ?thesis by (simp add: hm_get_def hm_remove_def hm_retain_def)
  qed (use Cons e in \<open>auto simp: hm_wf_def hm_get_def hm_remove_def hm_retain_def\<close>)
qed (simp add: hm_get_def hm_remove_def hm_retain_def)

end
