(* ===== verification/Std_Lib.thy ===== *)
theory Std_Lib
  imports Prelude
begin

text \<open>
  The parts of the Rust standard library that the configuration code relies on: socket
  addresses, \<open>str::parse::<IpAddr>()\<close> and \<open>Ipv4Addr\<close>'s \<open>Display\<close>, and paths on a Unix system
  (a root flag and the components, which is what \<open>PathBuf\<close>'s equality compares), the kinds of
  I/O errors and \<open>str::trim\<close>.
\<close>

section \<open>Addresses\<close>

datatype IpAddr = V4 u32 | V6 "128 word"

datatype SocketAddr = SocketAddrV4 u32 u16 | SocketAddrV6 "128 word" u16 u32 u32

primrec sock_ip :: "SocketAddr \<Rightarrow> IpAddr" where
  "sock_ip (SocketAddrV4 ip _) = V4 ip"
| "sock_ip (SocketAddrV6 ip _ _ _) = V6 ip"

primrec sock_port :: "SocketAddr \<Rightarrow> u16" where
  "sock_port (SocketAddrV4 _ p) = p"
| "sock_port (SocketAddrV6 _ p _ _) = p"

primrec is_loopback :: "IpAddr \<Rightarrow> bool" where
  "is_loopback (V4 a) = (unat a div 2 ^ 24 = 127)"
| "is_loopback (V6 a) = (a = 1)"

section \<open>Parsing addresses\<close>

definition hex_digit :: "char \<Rightarrow> nat option" where
  "hex_digit c =
     (if is_ascii_digit c then Some (of_char c - 48)
      else if 97 \<le> (of_char c :: nat) \<and> (of_char c :: nat) \<le> 102 then Some (of_char c - 87)
      else if 65 \<le> (of_char c :: nat) \<and> (of_char c :: nat) \<le> 70 then Some (of_char c - 55)
      else None)"

definition radix_digit :: "nat \<Rightarrow> char \<Rightarrow> nat option" where
  "radix_digit r c = (case hex_digit c of Some d \<Rightarrow> if d < r then Some d else None | None \<Rightarrow> None)"

definition digits_value :: "nat \<Rightarrow> string \<Rightarrow> nat" where
  "digits_value r ds = foldl (\<lambda>n c. n * r + the (radix_digit r c)) 0 ds"

text \<open>\<open>Parser::read_number\<close>: radix, maximal digit count, whether a leading zero is allowed, and the exclusive bound of the result type.\<close>

definition read_number :: "nat \<Rightarrow> nat \<Rightarrow> bool \<Rightarrow> nat \<Rightarrow> string \<Rightarrow> (nat \<times> string) option" where
  "read_number r maxd zero_ok bound s =
     (let ds = takeWhile (\<lambda>c. radix_digit r c \<noteq> None) s; n = digits_value r ds
      in if ds = [] \<or> length ds > maxd then None
         else if \<not> zero_ok \<and> hd ds = CHR ''0'' \<and> length ds > 1 then None
         else if n < bound then Some (n, drop (length ds) s) else None)"

definition read_char :: "char \<Rightarrow> string \<Rightarrow> string option" where
  "read_char c s = (case s of x # t \<Rightarrow> if x = c then Some t else None | [] \<Rightarrow> None)"

definition read_sep :: "char \<Rightarrow> nat \<Rightarrow> (string \<Rightarrow> ('a \<times> string) option) \<Rightarrow> string \<Rightarrow> ('a \<times> string) option" where
  "read_sep c i p s = (if i = 0 then p s else Option.bind (read_char c s) p)"

fun read_octets :: "nat \<Rightarrow> nat \<Rightarrow> string \<Rightarrow> (nat list \<times> string) option" where
  "read_octets i 0 s = Some ([], s)"
| "read_octets i (Suc n) s =
     (case read_sep CHR ''.'' i (read_number 10 3 False 256) s of
        None \<Rightarrow> None
      | Some (o1, t) \<Rightarrow> map_option (\<lambda>(os, u). (o1 # os, u)) (read_octets (Suc i) n t))"

definition read_ipv4 :: "string \<Rightarrow> (nat list \<times> string) option" where
  "read_ipv4 s = read_octets 0 4 s"

text \<open>\<open>read_groups\<close>: at most \<open>n\<close> more groups, the first one at index \<open>i\<close>; the flag reports a trailing IPv4 address.\<close>

fun read_groups :: "nat \<Rightarrow> nat \<Rightarrow> string \<Rightarrow> nat list \<times> bool \<times> string" where
  "read_groups i 0 s = ([], False, s)"
| "read_groups i (Suc n) s =
     (case (if n = 0 then None else read_sep CHR '':'' i read_ipv4 s) of
        Some ([a, b, c, d], t) \<Rightarrow> ([a * 256 + b, c * 256 + d], True, t)
      | _ \<Rightarrow>
        (case read_sep CHR '':'' i (read_number 16 4 True 65536) s of
           None \<Rightarrow> ([], False, s)
         | Some (g, t) \<Rightarrow> (case read_groups (Suc i) n t of (gs, v4, u) \<Rightarrow> (g # gs, v4, u))))"

definition read_ipv6 :: "string \<Rightarrow> (nat list \<times> string) option" where
  "read_ipv6 s =
     (case read_groups 0 8 s of
        (headg, v4, t) \<Rightarrow>
          if length headg = 8 then Some (headg, t)
          else if v4 then None
          else Option.bind (Option.bind (read_char CHR '':'' t) (read_char CHR '':''))
            (\<lambda>u. case read_groups 0 (8 - (length headg + 1)) u of
                   (tailg, _, w) \<Rightarrow>
                     Some (headg @ replicate (8 - length headg - length tailg) 0 @ tailg, w)))"

definition parse_ip :: "string \<Rightarrow> IpAddr option" where
  "parse_ip s =
     (case read_ipv4 s of
        Some (os, t) \<Rightarrow> if t = [] then Some (V4 (of_nat (foldl (\<lambda>n g. n * 256 + g) 0 os))) else None
      | None \<Rightarrow>
        (case read_ipv6 s of
           Some (gs, t) \<Rightarrow> if t = [] then Some (V6 (of_nat (foldl (\<lambda>n g. n * 65536 + g) 0 gs))) else None
         | None \<Rightarrow> None))"

definition parse_ipv6 :: "string \<Rightarrow> (128 word) option" where
  "parse_ipv6 s =
     (case read_ipv6 s of
        Some (gs, t) \<Rightarrow> if t = [] then Some (of_nat (foldl (\<lambda>n g. n * 65536 + g) 0 gs)) else None
      | None \<Rightarrow> None)"

section \<open>Formatting numbers and addresses\<close>

definition digit_char :: "nat \<Rightarrow> char" where
  "digit_char d = char_of (if d < 10 then d + 48 else d + 87)"

fun show_radix :: "nat \<Rightarrow> nat \<Rightarrow> string" where
  "show_radix r n =
     (if n < r \<or> r < 2 then [digit_char n] else show_radix r (n div r) @ [digit_char (n mod r)])"

declare show_radix.simps [simp del]

abbreviation show_nat :: "nat \<Rightarrow> string" where
  "show_nat \<equiv> show_radix 10"

primrec join_sep :: "string \<Rightarrow> string list \<Rightarrow> string" where
  "join_sep sep [] = []"
| "join_sep sep (x # xs) = (if xs = [] then x else x @ sep @ join_sep sep xs)"

definition octets :: "u32 \<Rightarrow> nat list" where
  "octets a = [unat a div 2 ^ 24, unat a div 2 ^ 16 mod 256, unat a div 2 ^ 8 mod 256, unat a mod 256]"

definition show_ipv4 :: "u32 \<Rightarrow> string" where
  "show_ipv4 a = join_sep ''.'' (map show_nat (octets a))"

definition segments :: "128 word \<Rightarrow> nat list" where
  "segments a = map (\<lambda>i. unat a div 2 ^ (16 * (7 - i)) mod 65536) [0..<8]"

text \<open>The first longest run of zero segments, as start and length: the loop of \<open>Ipv6Addr\<close>'s \<open>Display\<close>.\<close>

fun zero_run :: "nat \<Rightarrow> nat list \<Rightarrow> nat \<times> nat \<Rightarrow> nat \<times> nat \<Rightarrow> nat \<times> nat" where
  "zero_run i [] current longest = longest"
| "zero_run i (s # ss) current longest =
     (if s = 0 then
        (let current = (if snd current = 0 then i else fst current, snd current + 1)
         in zero_run (i + 1) ss current (if snd current > snd longest then current else longest))
      else zero_run (i + 1) ss (0, 0) longest)"

definition show_ipv6 :: "128 word \<Rightarrow> string" where
  "show_ipv6 a =
     (let ss = segments a; hex = (\<lambda>xs. join_sep '':'' (map (show_radix 16) xs))
      in if take 6 ss = [0, 0, 0, 0, 0, 65535] then ''::ffff:'' @ show_ipv4 (of_nat (unat a mod 2 ^ 32))
         else case zero_run 0 ss (0, 0) (0, 0) of
           (start, n) \<Rightarrow> if n > 1 then hex (take start ss) @ ''::'' @ hex (drop (start + n) ss) else hex ss)"

primrec show_ip :: "IpAddr \<Rightarrow> string" where
  "show_ip (V4 a) = show_ipv4 a"
| "show_ip (V6 a) = show_ipv6 a"

section \<open>Paths\<close>

datatype path = Path (has_root: bool) (components: "string list")

definition is_relative :: "path \<Rightarrow> bool" where
  "is_relative p = (\<not> has_root p)"

definition path_join :: "path \<Rightarrow> path \<Rightarrow> path" where
  "path_join p q = (if has_root q then q else Path (has_root p) (components p @ components q))"

definition path_parent :: "path \<Rightarrow> path option" where
  "path_parent p =
     (if components p = [] then None else Some (Path (has_root p) (butlast (components p))))"

definition path_file_name :: "path \<Rightarrow> string option" where
  "path_file_name p =
     (if components p = [] \<or> last (components p) \<in> {''.'', ''..''} then None
      else Some (last (components p)))"

definition path_with_file_name :: "path \<Rightarrow> string \<Rightarrow> path" where
  "path_with_file_name p n =
     Path (has_root p)
       ((if path_file_name p = None then components p else butlast (components p)) @ [n])"

text \<open>\<open>Path::with_extension\<close>: the part after the last dot of the file name is replaced, unless that dot starts the name.\<close>

definition file_stem :: "string \<Rightarrow> string" where
  "file_stem n = (case rsplit_once CHR ''.'' n of None \<Rightarrow> n | Some (a, _) \<Rightarrow> if a = [] then n else a)"

definition path_with_extension :: "path \<Rightarrow> string \<Rightarrow> path" where
  "path_with_extension p ext =
     (case path_file_name p of
        None \<Rightarrow> p
      | Some n \<Rightarrow> path_with_file_name p (if ext = [] then file_stem n else file_stem n @ ''.'' @ ext))"

definition current_dir :: path where
  "current_dir = Path False [''.'']"

section \<open>Kinds of I/O errors\<close>

datatype io_error = NotFound | AlreadyExists | UnexpectedEof | OtherIo string

section \<open>Trimming\<close>

text \<open>The UTF-8 encodings of the characters with the Unicode property \<open>White_Space\<close>, which \<open>str::trim\<close> removes.\<close>

definition white_space :: "string list" where
  "white_space =
     map (\<lambda>n. [char_of n]) [9 :: nat, 10, 11, 12, 13, 32]
     @ map (map char_of) [[0xC2 :: nat, 0x85], [0xC2, 0xA0], [0xE1, 0x9A, 0x80]]
     @ map (\<lambda>n. map char_of [0xE2 :: nat, 0x80, n]) [0x80 ..< 0x8B]
     @ map (map char_of) [[0xE2 :: nat, 0x80, 0xA8], [0xE2, 0x80, 0xA9], [0xE2, 0x80, 0xAF], [0xE2, 0x81, 0x9F], [0xE3, 0x80, 0x80]]"

text \<open>Removing prefixes from a list; the bound on the number of removals is the length of the string.\<close>

primrec strip_any :: "nat \<Rightarrow> string list \<Rightarrow> string \<Rightarrow> string" where
  "strip_any 0 ws s = s"
| "strip_any (Suc n) ws s =
     (case List.find (\<lambda>w. take (length w) s = w) ws of
        None \<Rightarrow> s
      | Some w \<Rightarrow> strip_any n ws (drop (length w) s))"

definition trim_start :: "string \<Rightarrow> string" where
  "trim_start s = strip_any (length s) white_space s"

definition trim_end :: "string \<Rightarrow> string" where
  "trim_end s = rev (strip_any (length s) (map rev white_space) (rev s))"

definition trim :: "string \<Rightarrow> string" where
  "trim s = trim_end (trim_start s)"

section \<open>Lemmas\<close>

lemma show_radix_nonempty [simp]: "show_radix r n \<noteq> []"
  by (subst show_radix.simps) simp

lemma path_join_relative_iff: "has_root (path_join p q) \<longleftrightarrow> has_root p \<or> has_root q"
  by (simp add: path_join_def)

lemma of_char_char_of_small: "n < 256 \<Longrightarrow> (of_char (char_of n) :: nat) = n"
  by simp

lemma radix_digit_digit_char:
  assumes "d < r" "r \<le> 16"
  shows "radix_digit r (digit_char d) = Some d"
  using assms by (auto simp: radix_digit_def hex_digit_def digit_char_def is_ascii_digit_def)

lemma digits_value_snoc:
  "digits_value r (ds @ [c]) = digits_value r ds * r + the (radix_digit r c)"
  by (simp add: digits_value_def)

text \<open>Printing a number and reading it back in the same radix.\<close>

lemma show_radix_digits:
  assumes "2 \<le> r" "r \<le> 16"
  shows "(\<forall>c \<in> set (show_radix r n). radix_digit r c \<noteq> None) \<and> digits_value r (show_radix r n) = n"
proof (induction n rule: less_induct)
  case (less n)
  show ?case
  proof (cases "n < r")
    case True
    with assms have "radix_digit r (digit_char n) = Some n" by (intro radix_digit_digit_char)
    with True show ?thesis by (subst (1 2) show_radix.simps) (simp add: digits_value_def)
  next
    case False
    then have eq: "show_radix r n = show_radix r (n div r) @ [digit_char (n mod r)]"
      using assms by (subst show_radix.simps) simp
    have "n div r < n" using False assms by simp
    note IH = less.IH[OF this]
    have "radix_digit r (digit_char (n mod r)) = Some (n mod r)"
      using assms by (intro radix_digit_digit_char) simp_all
    with IH show ?thesis by (simp add: eq digits_value_snoc)
  qed
qed

text \<open>The characters a reader consumes: an accepted address holds only digits, dots and colons.\<close>

definition consumes :: "char set \<Rightarrow> (string \<Rightarrow> ('a \<times> string) option) \<Rightarrow> bool" where
  "consumes A p = (\<forall>s x t. p s = Some (x, t) \<longrightarrow> (\<exists>u. s = u @ t \<and> set u \<subseteq> A))"

definition hex_chars :: "char set" where
  "hex_chars = {c. hex_digit c \<noteq> None}"

lemma consumesI: "(\<And>s x t. p s = Some (x, t) \<Longrightarrow> \<exists>u. s = u @ t \<and> set u \<subseteq> A) \<Longrightarrow> consumes A p"
  by (simp add: consumes_def)

lemma consumesE:
  assumes "consumes A p" "p s = Some (x, t)"
  obtains u where "s = u @ t" "set u \<subseteq> A"
  using assms unfolding consumes_def by blast

lemma consumes_read_number:
  assumes "\<And>c. radix_digit r c \<noteq> None \<Longrightarrow> c \<in> A"
  shows "consumes A (read_number r m z b)"
proof (rule consumesI)
  fix s n t
  assume "read_number r m z b s = Some (n, t)"
  then have "t = drop (length (takeWhile (\<lambda>c. radix_digit r c \<noteq> None) s)) s"
    by (auto simp: read_number_def Let_def split: if_splits)
  then have "s = takeWhile (\<lambda>c. radix_digit r c \<noteq> None) s @ t"
    by (simp add: dropWhile_eq_drop[symmetric])
  moreover have "set (takeWhile (\<lambda>c. radix_digit r c \<noteq> None) s) \<subseteq> A"
    using assms by (auto dest: set_takeWhileD)
  ultimately show "\<exists>u. s = u @ t \<and> set u \<subseteq> A" by blast
qed

lemma read_char_Some: "read_char c s = Some t \<longleftrightarrow> s = c # t"
  by (auto simp: read_char_def split: list.splits)

lemma consumes_read_sep:
  assumes "consumes A p" "c \<in> A"
  shows "consumes A (read_sep c i p)"
proof (rule consumesI)
  fix s x t
  assume r: "read_sep c i p s = Some (x, t)"
  show "\<exists>u. s = u @ t \<and> set u \<subseteq> A"
  proof (cases "i = 0")
    case True
    with r assms(1) show ?thesis by (auto simp: read_sep_def consumes_def)
  next
    case False
    with r obtain s' where s': "s = c # s'" "p s' = Some (x, t)"
      by (auto simp: read_sep_def read_char_Some bind_eq_Some_conv)
    from assms(1) s'(2) obtain u where "s' = u @ t" "set u \<subseteq> A" by (rule consumesE)
    with s'(1) assms(2) show ?thesis by (intro exI[of _ "c # u"]) simp
  qed
qed

lemma consumes_read_octets:
  assumes "\<And>c. radix_digit 10 c \<noteq> None \<Longrightarrow> c \<in> A" "CHR ''.'' \<in> A"
  shows "consumes A (read_octets i n)"
proof (rule consumesI)
  fix s os t
  have num: "consumes A (read_sep CHR ''.'' i (read_number 10 3 False 256))" for i
    by (rule consumes_read_sep[OF consumes_read_number]) (use assms in auto)
  show "read_octets i n s = Some (os, t) \<Longrightarrow> \<exists>u. s = u @ t \<and> set u \<subseteq> A"
  proof (induction i n s arbitrary: os t rule: read_octets.induct)
    case (2 i n s)
    from "2.prems" obtain o1 s1 os' where p: "read_sep CHR ''.'' i (read_number 10 3 False 256) s = Some (o1, s1)"
      "read_octets (Suc i) n s1 = Some (os', t)"
      by (auto split: option.splits prod.splits)
    from num p(1) obtain u where u: "s = u @ s1" "set u \<subseteq> A" by (rule consumesE)
    from "2.IH"[OF p(1) refl p(2)] obtain v where "s1 = v @ t" "set v \<subseteq> A" by blast
    with u show ?case by (intro exI[of _ "u @ v"]) simp
  qed simp
qed

definition ip_chars :: "char set" where
  "ip_chars = hex_chars \<union> {CHR ''.'', CHR '':''}"

lemma read_groups_consumes:
  "read_groups i n s = (gs, v4, t) \<Longrightarrow> \<exists>u. s = u @ t \<and> set u \<subseteq> ip_chars"
proof (induction n arbitrary: i s gs v4 t)
  case (Suc n)
  have digits: "c \<in> ip_chars" if "radix_digit r c \<noteq> None" for r c
    using that by (auto simp: radix_digit_def ip_chars_def hex_chars_def split: option.splits)
  have v4: "consumes ip_chars (read_sep CHR '':'' i read_ipv4)"
    unfolding read_ipv4_def
    by (rule consumes_read_sep[OF consumes_read_octets]) (use digits in \<open>auto simp: ip_chars_def\<close>)
  have num: "consumes ip_chars (read_sep CHR '':'' i (read_number 16 4 True 65536))"
    by (rule consumes_read_sep[OF consumes_read_number]) (use digits in \<open>auto simp: ip_chars_def\<close>)
  let ?v = "if n = 0 then None else read_sep CHR '':'' i read_ipv4 s"
  consider (v4) os where "?v = Some (os, t)" | (stop) "t = s"
    | (group) g s1 gs' v4' where "read_sep CHR '':'' i (read_number 16 4 True 65536) s = Some (g, s1)"
        "read_groups (Suc i) n s1 = (gs', v4', t)"
    using Suc.prems
    by (auto split: option.splits prod.splits list.splits if_splits)
  then show ?case
  proof cases
    case v4: v4
    then have "read_sep CHR '':'' i read_ipv4 s = Some (os, t)" by (simp split: if_splits)
    with \<open>consumes ip_chars (read_sep CHR '':'' i read_ipv4)\<close> show ?thesis by (auto elim: consumesE)
  next
    case stop
    then show ?thesis by simp
  next
    case group
    from num group(1) obtain u where u: "s = u @ s1" "set u \<subseteq> ip_chars" by (rule consumesE)
    from Suc.IH[OF group(2)] obtain v where "s1 = v @ t" "set v \<subseteq> ip_chars" by blast
    with u show ?thesis by (intro exI[of _ "u @ v"]) simp
  qed
qed simp

lemma consumes_read_ipv6: "consumes ip_chars read_ipv6"
proof (rule consumesI)
  fix s gs t
  assume r: "read_ipv6 s = Some (gs, t)"
  obtain headg v4 s1 where h: "read_groups 0 8 s = (headg, v4, s1)" by (cases "read_groups 0 8 s")
  from read_groups_consumes[OF h] obtain u where u: "s = u @ s1" "set u \<subseteq> ip_chars" by blast
  show "\<exists>u. s = u @ t \<and> set u \<subseteq> ip_chars"
  proof (cases "length headg = 8")
    case True
    with r h u show ?thesis by (auto simp: read_ipv6_def)
  next
    case False
    with r h obtain s2 where s1: "s1 = CHR '':'' # CHR '':'' # s2"
      and t: "t = snd (snd (read_groups 0 (8 - (length headg + 1)) s2))"
      by (auto simp: read_ipv6_def read_char_Some bind_eq_Some_conv case_prod_unfold split: if_splits)
    obtain tailg w v where s2: "s1 = CHR '':'' # CHR '':'' # s2"
      "read_groups 0 (8 - (length headg + 1)) s2 = (tailg, w, v)" "t = v"
      using s1 t by (cases "read_groups 0 (8 - (length headg + 1)) s2") simp
    from read_groups_consumes[OF s2(2)] obtain u2 where "s2 = u2 @ v" "set u2 \<subseteq> ip_chars" by blast
    with u s2 show ?thesis
      by (intro exI[of _ "u @ CHR '':'' # CHR '':'' # u2"]) (simp add: ip_chars_def)
  qed
qed

lemma parse_ipv6_chars: "parse_ipv6 s \<noteq> None \<Longrightarrow> set s \<subseteq> ip_chars"
  using consumes_read_ipv6 by (force simp: parse_ipv6_def consumes_def split: option.splits if_splits)

lemma parse_ip_not_v6:
  assumes "parse_ip s \<noteq> None" "parse_ipv6 s = None"
  shows "set s \<subseteq> Collect is_ascii_digit \<union> {CHR ''.''}" and "s \<noteq> []"
proof -
  have digit: "c \<in> Collect is_ascii_digit \<union> {CHR ''.''}" if "radix_digit 10 c \<noteq> None" for c
    using that by (auto simp: radix_digit_def hex_digit_def is_ascii_digit_def split: option.splits if_splits)
  obtain os where r: "read_ipv4 s = Some (os, [])"
    using assms by (auto simp: parse_ip_def parse_ipv6_def split: option.splits if_splits)
  have "consumes (Collect is_ascii_digit \<union> {CHR ''.''}) (read_octets 0 4)"
    by (rule consumes_read_octets) (use digit in auto)
  then show "set s \<subseteq> Collect is_ascii_digit \<union> {CHR ''.''}"
    by (rule consumesE[of _ _ s os "[]"]) (use r in \<open>simp_all add: read_ipv4_def\<close>)
  have "read_octets 0 (Suc 3) [] = None"
    by (simp only: read_octets.simps) (simp add: read_sep_def read_number_def)
  then have "read_ipv4 [] = None" by (simp add: read_ipv4_def)
  with r show "s \<noteq> []" by auto
qed

lemma bracket_not_ip_char: "CHR '']'' \<notin> ip_chars" "CHR ''['' \<notin> ip_chars"
  by (auto simp: ip_chars_def hex_chars_def hex_digit_def is_ascii_digit_def)

lemma show_nat_no_colon: "CHR '':'' \<notin> set (show_nat n)"
proof
  assume "CHR '':'' \<in> set (show_nat n)"
  moreover have "radix_digit 10 CHR '':'' = None"
    by (simp add: radix_digit_def hex_digit_def is_ascii_digit_def)
  ultimately show False using show_radix_digits[of 10 n] by auto
qed

section \<open>Trimming leaves strings without white space alone\<close>

definition ws_bytes :: "char set" where
  "ws_bytes = set (concat white_space)"

lemma white_space_nonempty: "w \<in> set white_space \<Longrightarrow> w \<noteq> []"
  by (auto simp: white_space_def)

lemma strip_any_id:
  assumes "\<And>w. w \<in> set ws \<Longrightarrow> w \<noteq> [] \<and> set w \<subseteq> A" "set s \<inter> A = {}"
  shows "strip_any n ws s = s"
proof (cases n)
  case (Suc m)
  have "take (length w) s \<noteq> w" if "w \<in> set ws" for w
  proof
    assume eq: "take (length w) s = w"
    from assms(1)[OF that] have "hd w \<in> A" by (auto simp: hd_in_set subset_iff)
    moreover have "hd w \<in> set s"
      using assms(1)[OF that] eq by (metis hd_in_set in_set_takeD)
    ultimately show False using assms(2) by auto
  qed
  then have "List.find (\<lambda>w. take (length w) s = w) ws = None" by (simp add: find_None_iff)
  with Suc show ?thesis by simp
qed simp

lemma trim_id: "set s \<inter> ws_bytes = {} \<Longrightarrow> trim s = s"
  unfolding trim_def trim_end_def trim_start_def
  by (subst strip_any_id[where A = ws_bytes], use white_space_nonempty in \<open>auto simp: ws_bytes_def\<close>)+

end
