(* ===== verification/Tunnel_Base.thy ===== *)
theory Tunnel_Base
  imports Std_Lib
begin

text \<open>
  \<open>gaterust-tunnel/src/error.rs\<close> and \<open>close.rs\<close>: the error type of the tunnel crate and the
  QUIC application close codes. The messages of the sources are Chinese; the model keeps an
  ASCII rendering, since no code branches on a message. Of the wrapped library errors the
  model keeps what the code inspects: the kind of an I/O error and the close code of a
  connection.
\<close>

section \<open>Errors\<close>

text \<open>\<open>quinn::ConnectionError\<close>, with the code of an application close.\<close>

datatype ConnectionError =
    VersionMismatch
  | TransportError
  | ConnectionClosed
  | ApplicationClosed nat
  | Reset
  | TimedOut
  | LocallyClosed
  | CidsExhausted

datatype TunnelError =
    ReadConfig path io_error
  | ParseConfig path
  | SerializeConfig path
  | ConfigFingerprint
  | WriteConfig path io_error
  | InvalidConfig string
  | InvalidAddress
  | Io io_error
  | QuinnConnection ConnectionError
  | QuinnConnect
  | QuinnWrite
  | QuinnRead
  | Tls string
  | ServerCertificateIsCa
  | Protocol string
  | Authentication string
  | Timeout string
  | Notify

section \<open>Close codes\<close>

datatype ApplicationCloseCode =
    ServerShutdown
  | AuthenticationFailed
  | CertificateBootstrapComplete
  | ServerConnectionError
  | ClientReconfigure
  | ClientShutdown
  | AdministratorDisconnect
  | CredentialCheckComplete
  | ClientConnectionError
  | CredentialsRevoked

primrec close_value :: "ApplicationCloseCode \<Rightarrow> nat" where
  "close_value ServerShutdown = 2"
| "close_value AuthenticationFailed = 3"
| "close_value CertificateBootstrapComplete = 4"
| "close_value ServerConnectionError = 5"
| "close_value ClientReconfigure = 10"
| "close_value ClientShutdown = 11"
| "close_value AdministratorDisconnect = 12"
| "close_value CredentialCheckComplete = 13"
| "close_value ClientConnectionError = 14"
| "close_value CredentialsRevoked = 15"

definition matches_error :: "ApplicationCloseCode \<Rightarrow> ConnectionError \<Rightarrow> bool" where
  "matches_error c e = (case e of ApplicationClosed k \<Rightarrow> k = close_value c | _ \<Rightarrow> False)"

text \<open>\<open>connection_error_or\<close>: the close reason of the connection wins over the stream's error.\<close>

definition connection_error_or :: "ConnectionError option \<Rightarrow> TunnelError \<Rightarrow> TunnelError" where
  "connection_error_or close_reason fallback =
     (case close_reason of None \<Rightarrow> fallback | Some e \<Rightarrow> QuinnConnection e)"

text \<open>\<open>server/mod.rs\<close>: which ends of a control session are a normal client exit, and \<open>client.rs\<close>: the end that stops the client.\<close>

definition is_expected_client_close :: "ConnectionError \<Rightarrow> bool" where
  "is_expected_client_close e =
     (e = LocallyClosed
      \<or> matches_error ClientReconfigure e
      \<or> matches_error ClientShutdown e
      \<or> matches_error CredentialCheckComplete e)"

definition is_administrator_disconnect :: "ConnectionError \<Rightarrow> bool" where
  "is_administrator_disconnect e = matches_error AdministratorDisconnect e"

section \<open>Lemmas\<close>

lemma close_value_inject [simp]: "close_value a = close_value b \<longleftrightarrow> a = b"
  by (cases a; cases b) simp_all

lemma matches_error_closed [simp]: "matches_error c (ApplicationClosed k) \<longleftrightarrow> k = close_value c"
  by (simp add: matches_error_def)

lemma matches_error_iff: "matches_error c e \<longleftrightarrow> e = ApplicationClosed (close_value c)"
  by (cases e) (auto simp: matches_error_def)

text \<open>
  The two ends agree on every code: an application close sent with one code is recognised as
  that code and as no other.
\<close>

lemma close_codes_exclusive:
  "matches_error c (ApplicationClosed (close_value d)) \<longleftrightarrow> c = d"
  by auto

end
