(* ===== verification/Admission.thy ===== *)
theory Admission
  imports Hash_Map Std_Lib
begin

text \<open>
  Permits: \<open>gaterust-tunnel/src/resource.rs\<close> (the server-wide \<open>ResourceBudget\<close>) and the admission
  control of \<open>server/mod.rs\<close> (\<open>PeerAdmission\<close>, \<open>AuthenticationAdmission\<close> and the accept loop that
  takes the permits). A tokio semaphore is its number of available permits; dropping a permit
  gives it back.

  The locale \<open>permit_pool\<close> is the contract of such a resource: a request takes some amount of
  each class, it is granted exactly when every class stays within its cap, and dropping a
  grant returns what it took. Its lemmas follow any interleaving of requests and drops.
\<close>

section \<open>Semaphores\<close>

definition sem_try_acquire :: "nat \<Rightarrow> nat \<Rightarrow> nat option" where
  "sem_try_acquire n available = (if n \<le> available then Some (available - n) else None)"

definition sem_release :: "nat \<Rightarrow> nat \<Rightarrow> nat" where
  "sem_release n available = available + n"

section \<open>The resource budget\<close>

definition MAX_DATA_STREAMS :: nat where "MAX_DATA_STREAMS = 512"
definition MAX_UDP_SESSIONS :: nat where "MAX_UDP_SESSIONS = 128"
definition MAX_QUEUED_UDP_BYTES :: nat where "MAX_QUEUED_UDP_BYTES = 16 * 1024 * 1024"

record ResourceBudget =
  data_streams :: nat
  udp_sessions :: nat
  queued_udp_bytes :: nat

definition budget_new :: ResourceBudget where
  "budget_new =
     \<lparr>data_streams = MAX_DATA_STREAMS, udp_sessions = MAX_UDP_SESSIONS,
      queued_udp_bytes = MAX_QUEUED_UDP_BYTES\<rparr>"

definition try_data_stream :: "ResourceBudget \<Rightarrow> ResourceBudget option" where
  "try_data_stream b = map_option (\<lambda>n. b\<lparr>data_streams := n\<rparr>) (sem_try_acquire 1 (data_streams b))"

definition try_udp_session :: "ResourceBudget \<Rightarrow> ResourceBudget option" where
  "try_udp_session b = map_option (\<lambda>n. b\<lparr>udp_sessions := n\<rparr>) (sem_try_acquire 1 (udp_sessions b))"

text \<open>\<open>u32::try_from(bytes).ok()?\<close> rejects a length of \<open>2 ^ 32\<close> or more.\<close>

definition try_queue_udp_bytes :: "nat \<Rightarrow> ResourceBudget \<Rightarrow> ResourceBudget option" where
  "try_queue_udp_bytes n b =
     (if n < 2 ^ 32
      then map_option (\<lambda>a. b\<lparr>queued_udp_bytes := a\<rparr>) (sem_try_acquire n (queued_udp_bytes b))
      else None)"

datatype budget_class = DataStreams | UdpSessions | QueuedUdpBytes

datatype budget_request = StreamPermit | SessionPermit | BytesPermit nat

primrec budget_acquire :: "budget_request \<Rightarrow> ResourceBudget \<Rightarrow> ResourceBudget option" where
  "budget_acquire StreamPermit b = try_data_stream b"
| "budget_acquire SessionPermit b = try_udp_session b"
| "budget_acquire (BytesPermit n) b = try_queue_udp_bytes n b"

text \<open>Dropping an \<open>OwnedSemaphorePermit\<close>.\<close>

primrec budget_drop :: "budget_request \<Rightarrow> ResourceBudget \<Rightarrow> ResourceBudget" where
  "budget_drop StreamPermit b = b\<lparr>data_streams := sem_release 1 (data_streams b)\<rparr>"
| "budget_drop SessionPermit b = b\<lparr>udp_sessions := sem_release 1 (udp_sessions b)\<rparr>"
| "budget_drop (BytesPermit n) b = b\<lparr>queued_udp_bytes := sem_release n (queued_udp_bytes b)\<rparr>"

primrec budget_cap :: "budget_class \<Rightarrow> nat" where
  "budget_cap DataStreams = MAX_DATA_STREAMS"
| "budget_cap UdpSessions = MAX_UDP_SESSIONS"
| "budget_cap QueuedUdpBytes = MAX_QUEUED_UDP_BYTES"

primrec budget_weight :: "budget_request \<Rightarrow> budget_class \<Rightarrow> nat" where
  "budget_weight StreamPermit k = (if k = DataStreams then 1 else 0)"
| "budget_weight SessionPermit k = (if k = UdpSessions then 1 else 0)"
| "budget_weight (BytesPermit n) k = (if k = QueuedUdpBytes then n else 0)"

primrec budget_used :: "ResourceBudget \<Rightarrow> budget_class \<Rightarrow> nat" where
  "budget_used b DataStreams = MAX_DATA_STREAMS - data_streams b"
| "budget_used b UdpSessions = MAX_UDP_SESSIONS - udp_sessions b"
| "budget_used b QueuedUdpBytes = MAX_QUEUED_UDP_BYTES - queued_udp_bytes b"

definition budget_inv :: "ResourceBudget \<Rightarrow> bool" where
  "budget_inv b = (data_streams b \<le> MAX_DATA_STREAMS \<and> udp_sessions b \<le> MAX_UDP_SESSIONS
     \<and> queued_udp_bytes b \<le> MAX_QUEUED_UDP_BYTES)"

section \<open>Admission of unauthenticated clients\<close>

definition MAX_PENDING_AUTHENTICATIONS :: nat where "MAX_PENDING_AUTHENTICATIONS = 32"
definition MAX_PENDING_AUTHENTICATIONS_PER_IP :: nat where "MAX_PENDING_AUTHENTICATIONS_PER_IP = 4"

type_synonym PeerAdmission = "(IpAddr, nat) hm"

text \<open>\<open>PeerAdmission::try_acquire\<close>: whether a permit is handed out, and the map afterwards.\<close>

definition peer_try_acquire :: "PeerAdmission \<Rightarrow> IpAddr \<Rightarrow> bool \<times> PeerAdmission" where
  "peer_try_acquire active address =
     (let active = (if hm_contains active address then active else hm_insert address 0 active);
          cnt = (case hm_get active address of Some n \<Rightarrow> n | None \<Rightarrow> 0)
      in if cnt \<ge> MAX_PENDING_AUTHENTICATIONS_PER_IP then (False, active)
         else (True, hm_insert address (cnt + 1) active))"

text \<open>\<open>impl Drop for PeerAdmissionPermit\<close>; \<open>None\<close> is the underflow of \<open>*count -= 1\<close>.\<close>

definition peer_drop :: "IpAddr \<Rightarrow> PeerAdmission \<Rightarrow> PeerAdmission option" where
  "peer_drop address active =
     (case hm_get active address of
        None \<Rightarrow> Some active
      | Some cnt \<Rightarrow>
          if cnt = 0 then None
          else if cnt - 1 = 0 then Some (hm_remove address active)
          else Some (hm_insert address (cnt - 1) active))"

record admission_state =
  peer_admission :: PeerAdmission
  authentication_permits :: nat

definition admission_new :: admission_state where
  "admission_new = \<lparr>peer_admission = [], authentication_permits = MAX_PENDING_AUTHENTICATIONS\<rparr>"

text \<open>
  The permits of one incoming connection in \<open>accept_connections\<close>: first the peer's, then the
  global one; when the global one is refused the peer's permit is dropped again.
\<close>

definition admission_drop_peer :: "IpAddr \<Rightarrow> admission_state \<Rightarrow> admission_state" where
  "admission_drop_peer ip s =
     s\<lparr>peer_admission := (case peer_drop ip (peer_admission s) of Some m \<Rightarrow> m | None \<Rightarrow> peer_admission s)\<rparr>"

datatype admission_outcome = Admitted | PeerLimitReached | PendingLimitReached

definition admission_try :: "IpAddr \<Rightarrow> admission_state \<Rightarrow> admission_outcome \<times> admission_state" where
  "admission_try ip s =
     (case peer_try_acquire (peer_admission s) ip of
        (False, m) \<Rightarrow> (PeerLimitReached, s\<lparr>peer_admission := m\<rparr>)
      | (True, m) \<Rightarrow>
          (let s1 = s\<lparr>peer_admission := m\<rparr>
           in case sem_try_acquire 1 (authentication_permits s1) of
                None \<Rightarrow> (PendingLimitReached, admission_drop_peer ip s1)
              | Some n \<Rightarrow> (Admitted, s1\<lparr>authentication_permits := n\<rparr>)))"

definition admission_acquire :: "IpAddr \<Rightarrow> admission_state \<Rightarrow> admission_state option" where
  "admission_acquire ip s = (case admission_try ip s of (Admitted, s') \<Rightarrow> Some s' | _ \<Rightarrow> None)"

text \<open>Dropping an \<open>AuthenticationAdmission\<close>: the fields are dropped in declaration order.\<close>

definition admission_drop :: "IpAddr \<Rightarrow> admission_state \<Rightarrow> admission_state" where
  "admission_drop ip s =
     admission_drop_peer ip (s\<lparr>authentication_permits := sem_release 1 (authentication_permits s)\<rparr>)"

datatype admission_class = Global | Peer IpAddr

primrec admission_cap :: "admission_class \<Rightarrow> nat" where
  "admission_cap Global = MAX_PENDING_AUTHENTICATIONS"
| "admission_cap (Peer _) = MAX_PENDING_AUTHENTICATIONS_PER_IP"

definition admission_weight :: "IpAddr \<Rightarrow> admission_class \<Rightarrow> nat" where
  "admission_weight ip k = (if k = Global \<or> k = Peer ip then 1 else 0)"

definition peer_count :: "PeerAdmission \<Rightarrow> IpAddr \<Rightarrow> nat" where
  "peer_count m ip = (case hm_get m ip of None \<Rightarrow> 0 | Some n \<Rightarrow> n)"

primrec admission_used :: "admission_state \<Rightarrow> admission_class \<Rightarrow> nat" where
  "admission_used s Global = MAX_PENDING_AUTHENTICATIONS - authentication_permits s"
| "admission_used s (Peer ip) = peer_count (peer_admission s) ip"

definition peer_inv :: "PeerAdmission \<Rightarrow> bool" where
  "peer_inv m = (hm_wf m \<and> (\<forall>(ip, n) \<in> set m. 1 \<le> n \<and> n \<le> MAX_PENDING_AUTHENTICATIONS_PER_IP))"

definition admission_inv :: "admission_state \<Rightarrow> bool" where
  "admission_inv s = (peer_inv (peer_admission s) \<and> authentication_permits s \<le> MAX_PENDING_AUTHENTICATIONS)"

text \<open>
  One round of \<open>accept_connections\<close> on an incoming connection: an unvalidated address is
  answered with a Retry, a refused permit drops the connection, a failed
  \<open>accept_with\<close> drops both permits, otherwise the next session id is taken and the
  authentication task owns the permits.
\<close>

datatype accept_outcome = SentRetry | PeerLimited | PendingLimited | AcceptFailed | Spawned u64

record accept_state =
  admission :: admission_state
  ids :: u64

definition accept_incoming ::
  "IpAddr \<Rightarrow> bool \<Rightarrow> bool \<Rightarrow> accept_state \<Rightarrow> accept_outcome \<times> accept_state" where
  "accept_incoming ip validated accept_ok s =
     (if \<not> validated then (SentRetry, s)
      else (case admission_try ip (admission s) of
              (PeerLimitReached, a) \<Rightarrow> (PeerLimited, s\<lparr>admission := a\<rparr>)
            | (PendingLimitReached, a) \<Rightarrow> (PendingLimited, s\<lparr>admission := a\<rparr>)
            | (Admitted, a) \<Rightarrow>
                if \<not> accept_ok then (AcceptFailed, s\<lparr>admission := admission_drop ip a\<rparr>)
                else (Spawned (ids s), s\<lparr>admission := a, ids := ids s + 1\<rparr>)))"

section \<open>Interleavings of requests and drops\<close>

datatype 'a pool_event = Acquire 'a | Drop nat

fun pool_step ::
  "('a \<Rightarrow> 's \<Rightarrow> 's option) \<Rightarrow> ('a \<Rightarrow> 's \<Rightarrow> 's) \<Rightarrow> 's \<times> 'a list \<Rightarrow> 'a pool_event \<Rightarrow> 's \<times> 'a list" where
  "pool_step try_acquire release (s, held) (Acquire a) =
     (case try_acquire a s of None \<Rightarrow> (s, held) | Some s' \<Rightarrow> (s', a # held))"
| "pool_step try_acquire release (s, held) (Drop i) =
     (if i < length held then (release (held ! i) s, take i held @ drop (Suc i) held) else (s, held))"

definition pool_run ::
  "('a \<Rightarrow> 's \<Rightarrow> 's option) \<Rightarrow> ('a \<Rightarrow> 's \<Rightarrow> 's) \<Rightarrow> 's \<Rightarrow> 'a pool_event list \<Rightarrow> 's \<times> 'a list" where
  "pool_run try_acquire release s es = foldl (pool_step try_acquire release) (s, []) es"

lemma sum_list_remove_nth:
  fixes f :: "'a \<Rightarrow> nat"
  assumes "i < length xs"
  shows "f (xs ! i) + (\<Sum>x \<leftarrow> take i xs @ drop (Suc i) xs. f x) = (\<Sum>x \<leftarrow> xs. f x)"
proof -
  have "xs = take i xs @ xs ! i # drop (Suc i) xs" by (rule id_take_nth_drop[OF assms])
  then have "(\<Sum>x \<leftarrow> xs. f x) = (\<Sum>x \<leftarrow> take i xs @ xs ! i # drop (Suc i) xs. f x)" by simp
  then show ?thesis by simp
qed

locale permit_pool =
  fixes try_acquire :: "'a \<Rightarrow> 's \<Rightarrow> 's option"
    and release :: "'a \<Rightarrow> 's \<Rightarrow> 's"
    and used :: "'s \<Rightarrow> 'k \<Rightarrow> nat"
    and weight :: "'a \<Rightarrow> 'k \<Rightarrow> nat"
    and cap :: "'k \<Rightarrow> nat"
    and invar :: "'s \<Rightarrow> bool"
  assumes granted_iff:
      "invar s \<Longrightarrow> try_acquire a s \<noteq> None \<longleftrightarrow> (\<forall>k. used s k + weight a k \<le> cap k)"
    and granted_used: "invar s \<Longrightarrow> try_acquire a s = Some s' \<Longrightarrow> used s' k = used s k + weight a k"
    and granted_invar: "invar s \<Longrightarrow> try_acquire a s = Some s' \<Longrightarrow> invar s'"
    and dropped_used:
      "invar s \<Longrightarrow> (\<And>k. weight a k \<le> used s k) \<Longrightarrow> used (release a s) k = used s k - weight a k"
    and dropped_invar: "invar s \<Longrightarrow> (\<And>k. weight a k \<le> used s k) \<Longrightarrow> invar (release a s)"
begin

lemma step_accounting:
  assumes "invar s" "\<And>k. used s k = (\<Sum>a \<leftarrow> held. weight a k)" "\<And>k. used s k \<le> cap k"
    and "pool_step try_acquire release (s, held) e = (s', held')"
  shows "invar s'" "used s' k = (\<Sum>a \<leftarrow> held'. weight a k)" "used s' k \<le> cap k"
proof -
  have "invar s' \<and> used s' k = (\<Sum>a \<leftarrow> held'. weight a k) \<and> used s' k \<le> cap k"
  proof (cases e)
    case (Acquire a)
    show ?thesis
    proof (cases "try_acquire a s")
      case None
      with assms Acquire show ?thesis by simp
    next
      case (Some t)
      with assms(1) have "used s k + weight a k \<le> cap k" using granted_iff[of s a] by auto
      with Some assms Acquire show ?thesis
        using granted_used[OF assms(1) Some] granted_invar[OF assms(1) Some] by auto
    qed
  next
    case (Drop i)
    show ?thesis
    proof (cases "i < length held")
      case True
      have w: "weight (held ! i) k' \<le> used s k'" for k'
        unfolding assms(2)[of k'] using sum_list_remove_nth[OF True, of "\<lambda>a. weight a k'"] by linarith
      have s': "s' = release (held ! i) s" "held' = take i held @ drop (Suc i) held"
        using True Drop assms(4) by auto
      have "used s' k = used s k - weight (held ! i) k"
        unfolding s' by (rule dropped_used[OF assms(1) w])
      moreover have "invar s'" unfolding s' by (rule dropped_invar[OF assms(1) w])
      ultimately show ?thesis
        using assms(2)[of k] assms(3)[of k] sum_list_remove_nth[OF True, of "\<lambda>a. weight a k"] s'
        by simp linarith
    next
      case False
      with assms Drop show ?thesis by simp
    qed
  qed
  then show "invar s'" "used s' k = (\<Sum>a \<leftarrow> held'. weight a k)" "used s' k \<le> cap k" by simp_all
qed

lemma fold_accounting:
  assumes "invar s" "\<And>k. used s k = (\<Sum>a \<leftarrow> held. weight a k)" "\<And>k. used s k \<le> cap k"
    and "foldl (pool_step try_acquire release) (s, held) es = (s', held')"
  shows "invar s' \<and> (\<forall>k. used s' k = (\<Sum>a \<leftarrow> held'. weight a k)) \<and> (\<forall>k. used s' k \<le> cap k)"
  using assms
proof (induction es arbitrary: s held)
  case (Cons e es)
  obtain t h where t: "pool_step try_acquire release (s, held) e = (t, h)" by fastforce
  note step = step_accounting[OF Cons.prems(1-3) t]
  show ?case
    by (rule Cons.IH[OF step]) (use Cons.prems(4) t in simp)
qed simp

text \<open>Whatever the interleaving, what is in use is what the live permits took, within the caps.\<close>

lemma run_accounting:
  assumes "invar s0" "\<And>k. used s0 k = 0" "pool_run try_acquire release s0 es = (s, held)"
  shows "invar s" "used s k = (\<Sum>a \<leftarrow> held. weight a k)" "(\<Sum>a \<leftarrow> held. weight a k) \<le> cap k"
proof -
  have "invar s \<and> (\<forall>k. used s k = (\<Sum>a \<leftarrow> held. weight a k)) \<and> (\<forall>k. used s k \<le> cap k)"
    by (rule fold_accounting[of s0 "[]" es])
      (use assms in \<open>simp_all add: pool_run_def\<close>)
  then show "invar s" "used s k = (\<Sum>a \<leftarrow> held. weight a k)" "(\<Sum>a \<leftarrow> held. weight a k) \<le> cap k"
    by auto
qed

text \<open>No permit is lost: a request is refused only when the live permits leave no room for it.\<close>

lemma run_refusal:
  assumes "invar s0" "\<And>k. used s0 k = 0" "pool_run try_acquire release s0 es = (s, held)"
  shows "try_acquire a s = None \<longleftrightarrow> (\<exists>k. cap k < (\<Sum>b \<leftarrow> held. weight b k) + weight a k)"
proof -
  have "used s = (\<lambda>k. \<Sum>b \<leftarrow> held. weight b k)"
    using run_accounting(2)[OF assms] by (rule ext)
  then have "try_acquire a s \<noteq> None \<longleftrightarrow> (\<forall>k. (\<Sum>b \<leftarrow> held. weight b k) + weight a k \<le> cap k)"
    using granted_iff[OF run_accounting(1)[OF assms], of a] by simp
  then show ?thesis by (meson linorder_not_less)
qed

end

section \<open>The budget is a permit pool\<close>

lemmas budget_defs = try_data_stream_def try_udp_session_def try_queue_udp_bytes_def
  sem_try_acquire_def sem_release_def budget_inv_def

lemma all_budget_class: "(\<forall>k. P k) \<longleftrightarrow> P DataStreams \<and> P UdpSessions \<and> P QueuedUdpBytes"
  by (metis budget_class.exhaust)

lemma ex_budget_class: "(\<exists>k. P k) \<longleftrightarrow> P DataStreams \<or> P UdpSessions \<or> P QueuedUdpBytes"
  by (metis budget_class.exhaust)

lemma queue_cap_fits_u32: "MAX_QUEUED_UDP_BYTES < 2 ^ 32"
  by (simp add: MAX_QUEUED_UDP_BYTES_def)

interpretation budget: permit_pool budget_acquire budget_drop budget_used budget_weight budget_cap budget_inv
proof unfold_locales
  fix s a
  assume inv: "budget_inv s"
  show "budget_acquire a s \<noteq> None \<longleftrightarrow> (\<forall>k. budget_used s k + budget_weight a k \<le> budget_cap k)"
    using inv queue_cap_fits_u32
    by (cases a) (auto simp: all_budget_class budget_defs)
next
  fix s a s' k
  assume inv: "budget_inv s" and g: "budget_acquire a s = Some s'"
  show "budget_used s' k = budget_used s k + budget_weight a k"
    using inv g by (cases a; cases k) (auto simp: budget_defs split: if_splits)
  show "budget_inv s'"
    using inv g by (cases a) (auto simp: budget_defs split: if_splits)
next
  fix s a k
  assume inv: "budget_inv s" and w: "\<And>k. budget_weight a k \<le> budget_used s k"
  show "budget_used (budget_drop a s) k = budget_used s k - budget_weight a k"
    using inv by (cases a; cases k) (auto simp: budget_defs)
  show "budget_inv (budget_drop a s)"
    using inv w[of DataStreams] w[of UdpSessions] w[of QueuedUdpBytes]
    by (cases a) (auto simp: budget_defs)
qed

lemma budget_new_inv [simp]: "budget_inv budget_new" "budget_used budget_new k = 0"
  by (simp add: budget_inv_def budget_new_def) (cases k; simp add: budget_new_def)

section \<open>Peer admission\<close>

lemma peer_inv_get:
  "peer_inv m \<Longrightarrow> hm_get m ip = Some n \<Longrightarrow> 1 \<le> n \<and> n \<le> MAX_PENDING_AUTHENTICATIONS_PER_IP"
  unfolding peer_inv_def by (auto dest: hm_get_in_set)

lemma peer_invI:
  assumes "hm_wf m" "\<And>ip n. hm_get m ip = Some n \<Longrightarrow> 1 \<le> n \<and> n \<le> MAX_PENDING_AUTHENTICATIONS_PER_IP"
  shows "peer_inv m"
  using assms by (auto simp: peer_inv_def hm_in_set_iff)

lemma peer_inv_wf: "peer_inv m \<Longrightarrow> hm_wf m"
  by (simp add: peer_inv_def)

lemma peer_count_bound: "peer_inv m \<Longrightarrow> peer_count m ip \<le> MAX_PENDING_AUTHENTICATIONS_PER_IP"
  by (auto simp: peer_count_def dest: peer_inv_get split: option.split)

lemma hm_insert_twice: "hm_insert k v (hm_insert k w m) = hm_insert k v m"
  by (induction m) auto

text \<open>The acquisition in terms of the count: the placeholder zero never survives.\<close>

lemma peer_try_acquire_eq:
  assumes "peer_inv m"
  shows "peer_try_acquire m ip =
    (if peer_count m ip \<ge> MAX_PENDING_AUTHENTICATIONS_PER_IP then (False, m)
     else (True, hm_insert ip (peer_count m ip + 1) m))"
  by (cases "hm_get m ip")
    (auto simp: peer_try_acquire_def hm_contains_iff peer_count_def Let_def hm_get_insert hm_insert_twice
      MAX_PENDING_AUTHENTICATIONS_PER_IP_def)

lemma peer_inv_grant:
  assumes "peer_inv m" "peer_count m ip < MAX_PENDING_AUTHENTICATIONS_PER_IP"
  shows "peer_inv (hm_insert ip (peer_count m ip + 1) m)"
  by (rule peer_invI) (use assms in \<open>auto simp: hm_get_insert peer_inv_wf dest: peer_inv_get split: if_splits\<close>)

lemma peer_count_insert: "peer_count (hm_insert ip n m) ip' = (if ip' = ip then n else peer_count m ip')"
  by (simp add: peer_count_def hm_get_insert)

text \<open>Dropping a live permit never underflows and decrements exactly the peer's count.\<close>

lemma peer_drop_Some:
  assumes "peer_inv m" "peer_count m ip \<ge> 1"
  obtains m' where "peer_drop ip m = Some m'" "peer_inv m'"
    "\<And>ip'. peer_count m' ip' = (if ip' = ip then peer_count m ip - 1 else peer_count m ip')"
proof -
  obtain n where n: "hm_get m ip = Some n" "1 \<le> n" "n \<le> MAX_PENDING_AUTHENTICATIONS_PER_IP"
    using assms peer_inv_get[OF assms(1)] by (auto simp: peer_count_def split: option.splits)
  let ?m = "if n - 1 = 0 then hm_remove ip m else hm_insert ip (n - 1) m"
  have "peer_drop ip m = Some ?m" using n by (auto simp: peer_drop_def)
  moreover have "peer_inv ?m"
    by (rule peer_invI)
      (use assms n in \<open>auto simp: hm_get_insert hm_get_remove peer_inv_wf dest: peer_inv_get split: if_splits\<close>)
  moreover have "peer_count ?m ip' = (if ip' = ip then peer_count m ip - 1 else peer_count m ip')" for ip'
    using n by (auto simp: peer_count_def hm_get_insert hm_get_remove)
  ultimately show ?thesis by (rule that)
qed

lemma admission_drop_peer_effect:
  assumes "peer_inv (peer_admission s)" "peer_count (peer_admission s) ip \<ge> 1"
  shows "peer_inv (peer_admission (admission_drop_peer ip s))"
    "peer_count (peer_admission (admission_drop_peer ip s)) ip' =
       (if ip' = ip then peer_count (peer_admission s) ip - 1 else peer_count (peer_admission s) ip')"
    "authentication_permits (admission_drop_peer ip s) = authentication_permits s"
  by (rule peer_drop_Some[OF assms], simp add: admission_drop_peer_def)+

lemma admission_try_cases:
  assumes "admission_inv s"
  shows "admission_try ip s =
    (if peer_count (peer_admission s) ip \<ge> MAX_PENDING_AUTHENTICATIONS_PER_IP then (PeerLimitReached, s)
     else let s1 = s\<lparr>peer_admission := hm_insert ip (peer_count (peer_admission s) ip + 1) (peer_admission s)\<rparr>
          in if authentication_permits s = 0 then (PendingLimitReached, admission_drop_peer ip s1)
             else (Admitted, s1\<lparr>authentication_permits := authentication_permits s - 1\<rparr>))"
proof -
  have "peer_inv (peer_admission s)" using assms by (simp add: admission_inv_def)
  then show ?thesis
    by (auto simp: admission_try_def peer_try_acquire_eq sem_try_acquire_def Let_def)
qed

lemma all_admission_class: "(\<forall>k. P k) \<longleftrightarrow> P Global \<and> (\<forall>ip. P (Peer ip))"
  by (metis admission_class.exhaust)

interpretation admission: permit_pool
  admission_acquire admission_drop admission_used admission_weight admission_cap admission_inv
proof unfold_locales
  fix s ip
  assume inv: "admission_inv s"
  then have pc: "peer_count (peer_admission s) j \<le> MAX_PENDING_AUTHENTICATIONS_PER_IP" for j
    by (simp add: admission_inv_def peer_count_bound)
  show "admission_acquire ip s \<noteq> None
      \<longleftrightarrow> (\<forall>k. admission_used s k + admission_weight ip k \<le> admission_cap k)"
    using inv pc
    by (auto simp: admission_acquire_def admission_try_cases Let_def all_admission_class admission_weight_def
        admission_inv_def MAX_PENDING_AUTHENTICATIONS_def split: if_splits)
next
  fix s ip s' k
  assume inv: "admission_inv s" and g: "admission_acquire ip s = Some s'"
  then have *: "peer_count (peer_admission s) ip < MAX_PENDING_AUTHENTICATIONS_PER_IP"
      "authentication_permits s \<noteq> 0"
      "s' = s\<lparr>peer_admission := hm_insert ip (peer_count (peer_admission s) ip + 1) (peer_admission s),
             authentication_permits := authentication_permits s - 1\<rparr>"
    by (auto simp: admission_acquire_def admission_try_cases Let_def not_le split: if_splits)
  show "admission_used s' k = admission_used s k + admission_weight ip k"
    using inv * by (cases k) (auto simp: admission_weight_def admission_inv_def peer_count_insert)
  show "admission_inv s'"
    using inv * peer_inv_grant[of "peer_admission s" ip] by (auto simp: admission_inv_def)
next
  fix s ip k
  assume inv: "admission_inv s" and w: "\<And>k. admission_weight ip k \<le> admission_used s k"
  let ?t = "s\<lparr>authentication_permits := sem_release 1 (authentication_permits s)\<rparr>"
  have p: "peer_inv (peer_admission ?t)" "1 \<le> peer_count (peer_admission ?t) ip"
    using inv w[of "Peer ip"] by (simp_all add: admission_inv_def admission_weight_def)
  have g: "1 \<le> MAX_PENDING_AUTHENTICATIONS - authentication_permits s"
    using w[of Global] by (simp add: admission_weight_def)
  show "admission_used (admission_drop ip s) k = admission_used s k - admission_weight ip k"
    using admission_drop_peer_effect[OF p] g
    by (cases k) (auto simp: admission_drop_def admission_weight_def sem_release_def)
  show "admission_inv (admission_drop ip s)"
    using admission_drop_peer_effect[OF p] g inv
    by (auto simp: admission_drop_def admission_inv_def sem_release_def)
qed

lemma admission_new_inv [simp]: "admission_inv admission_new" "admission_used admission_new k = 0"
  by (simp_all add: admission_inv_def admission_new_def peer_inv_def)
    (cases k; simp add: peer_count_def)

text \<open>A map in which no peer has a pending handshake is empty: the accept loop leaks no entries.\<close>

lemma peer_inv_zero_empty:
  assumes "peer_inv m" "\<And>ip. peer_count m ip = 0"
  shows "m = []"
proof (rule ccontr)
  assume "m \<noteq> []"
  then obtain ip n where "(ip, n) \<in> set m" by (metis list.set_intros(1) neq_Nil_conv surj_pair)
  with assms(1) have "hm_get m ip = Some n" by (simp add: hm_in_set_iff peer_inv_wf)
  with peer_inv_get[OF assms(1) this] assms(2)[of ip] show False by (simp add: peer_count_def)
qed

section \<open>Properties\<close>

lemma sum_list_admission_weight:
  "(\<Sum>a \<leftarrow> held. admission_weight a Global) = length held"
  "(\<Sum>a \<leftarrow> held. admission_weight a (Peer ip)) = count_list held ip"
  by (induction held) (auto simp: admission_weight_def)

lemma ex_admission_class: "(\<exists>k. P k) \<longleftrightarrow> P Global \<or> (\<exists>ip. P (Peer ip))"
  by (metis admission_class.exhaust)

lemma admission_overflow_iff:
  assumes "\<And>j. count_list held j \<le> 4"
  shows "(\<exists>k. admission_cap k < (\<Sum>b \<leftarrow> held. admission_weight b k) + admission_weight ip k)
    \<longleftrightarrow> 32 \<le> length held \<or> 4 \<le> count_list held ip"
proof -
  have "admission_cap (Peer j) < (\<Sum>b \<leftarrow> held. admission_weight b (Peer j)) + admission_weight ip (Peer j)
      \<longleftrightarrow> j = ip \<and> 4 \<le> count_list held ip" for j
    unfolding sum_list_admission_weight using assms[of j]
    by (auto simp: admission_weight_def MAX_PENDING_AUTHENTICATIONS_PER_IP_def)
  moreover have "admission_cap Global < (\<Sum>b \<leftarrow> held. admission_weight b Global) + admission_weight ip Global
      \<longleftrightarrow> 32 \<le> length held"
    unfolding sum_list_admission_weight
    by (auto simp: admission_weight_def MAX_PENDING_AUTHENTICATIONS_def)
  ultimately show ?thesis unfolding ex_admission_class by simp
qed

text \<open>
  Admission of unauthenticated clients. After any interleaving of granted and refused
  connections and of finished handshakes, at most 32 handshakes are pending, at most 4 of them
  from one address; the next connection is refused exactly when it would exceed one of the two
  limits; and when no handshake is pending the state is the initial one, so no entry of the
  peer table is leaked.
\<close>

theorem admission_limits:
  assumes "pool_run admission_acquire admission_drop admission_new es = (s, held)"
  shows "length held \<le> 32 \<and> (\<forall>ip. count_list held ip \<le> 4)
    \<and> (\<forall>ip. admission_acquire ip s = None \<longleftrightarrow> length held = 32 \<or> count_list held ip = 4)
    \<and> (held = [] \<longrightarrow> s = admission_new)"
proof -
  note acc = admission.run_accounting[OF admission_new_inv(1) admission_new_inv(2) assms]
  note ref = admission.run_refusal[OF admission_new_inv(1) admission_new_inv(2) assms]
  have global: "length held \<le> 32"
    using acc(3)[of Global] by (simp add: sum_list_admission_weight MAX_PENDING_AUTHENTICATIONS_def)
  have peer: "count_list held ip \<le> 4" for ip
    using acc(3)[of "Peer ip"] by (simp add: sum_list_admission_weight MAX_PENDING_AUTHENTICATIONS_PER_IP_def)
  have refusal: "admission_acquire ip s = None \<longleftrightarrow> length held = 32 \<or> count_list held ip = 4" for ip
    using ref[of ip] admission_overflow_iff[OF peer, of ip] global peer[of ip] by auto
  have "s = admission_new" if "held = []"
  proof -
    have "peer_admission s = []"
      by (rule peer_inv_zero_empty) (use acc(1) acc(2)[of "Peer _"] that in \<open>simp_all add: admission_inv_def\<close>)
    moreover have "authentication_permits s = MAX_PENDING_AUTHENTICATIONS"
      using acc(1) acc(2)[of Global] that by (simp add: admission_inv_def)
    ultimately show ?thesis by (simp add: admission_new_def)
  qed
  with global peer refusal show ?thesis by blast
qed

theorem admission_limits_witness:
  "snd (pool_run admission_acquire admission_drop admission_new
      [Acquire (V4 1), Acquire (V4 1), Acquire (V4 1), Acquire (V4 1), Acquire (V4 1), Drop 0, Acquire (V4 2)])
    = [V4 2, V4 1, V4 1, V4 1]
   \<and> length [V4 2, V4 1, V4 1, V4 1] \<le> 32"
proof -
  obtain s where run: "pool_run admission_acquire admission_drop admission_new
      [Acquire (V4 1), Acquire (V4 1), Acquire (V4 1), Acquire (V4 1), Acquire (V4 1), Drop 0, Acquire (V4 2)]
    = (s, [V4 2, V4 1, V4 1, V4 1])"
    by (simp add: pool_run_def admission_acquire_def admission_try_def admission_new_def peer_try_acquire_def
        sem_try_acquire_def hm_contains_def hm_get_def MAX_PENDING_AUTHENTICATIONS_def
        MAX_PENDING_AUTHENTICATIONS_PER_IP_def admission_drop_def admission_drop_peer_def peer_drop_def
        sem_release_def)
  with admission_limits[OF run] show ?thesis by simp
qed



text \<open>
  The server-wide budget. After any interleaving of acquired and dropped permits the live
  permits stay within 512 data streams, 128 UDP sessions and 16 MiB of queued datagrams, and a
  data stream is refused only when 512 of them are alive.
\<close>

theorem budget_limits:
  assumes "pool_run budget_acquire budget_drop budget_new es = (b, held)"
  shows "(\<Sum>a \<leftarrow> held. budget_weight a DataStreams) \<le> 512
    \<and> (\<Sum>a \<leftarrow> held. budget_weight a UdpSessions) \<le> 128
    \<and> (\<Sum>a \<leftarrow> held. budget_weight a QueuedUdpBytes) \<le> 16777216
    \<and> (try_data_stream b = None \<longleftrightarrow> (\<Sum>a \<leftarrow> held. budget_weight a DataStreams) = 512)"
proof -
  note acc = budget.run_accounting[OF budget_new_inv assms]
  note ref = budget.run_refusal[OF budget_new_inv assms, of StreamPermit]
  have caps: "(\<Sum>a \<leftarrow> held. budget_weight a DataStreams) \<le> 512"
    "(\<Sum>a \<leftarrow> held. budget_weight a UdpSessions) \<le> 128"
    "(\<Sum>a \<leftarrow> held. budget_weight a QueuedUdpBytes) \<le> 16777216"
    using acc(3)[of DataStreams] acc(3)[of UdpSessions] acc(3)[of QueuedUdpBytes]
    by (simp_all add: MAX_DATA_STREAMS_def MAX_UDP_SESSIONS_def MAX_QUEUED_UDP_BYTES_def)
  have "(\<exists>k. budget_cap k < (\<Sum>a \<leftarrow> held. budget_weight a k) + budget_weight StreamPermit k)
      \<longleftrightarrow> 512 < (\<Sum>a \<leftarrow> held. budget_weight a DataStreams) + 1"
    unfolding ex_budget_class using caps
    by (auto simp: MAX_DATA_STREAMS_def MAX_UDP_SESSIONS_def MAX_QUEUED_UDP_BYTES_def)
  also have "\<dots> \<longleftrightarrow> (\<Sum>a \<leftarrow> held. budget_weight a DataStreams) = 512"
    using caps(1) by linarith
  finally show ?thesis using ref caps by simp
qed

theorem budget_limits_witness:
  "snd (pool_run budget_acquire budget_drop budget_new
      [Acquire StreamPermit, Acquire (BytesPermit 16777217), Acquire (BytesPermit 1500), Drop 1])
    = [BytesPermit 1500]
   \<and> (\<Sum>a \<leftarrow> [BytesPermit 1500]. budget_weight a QueuedUdpBytes) \<le> 16777216"
proof -
  obtain b where run: "pool_run budget_acquire budget_drop budget_new
      [Acquire StreamPermit, Acquire (BytesPermit 16777217), Acquire (BytesPermit 1500), Drop 1]
    = (b, [BytesPermit 1500])"
    by (simp add: pool_run_def budget_defs budget_new_def MAX_DATA_STREAMS_def MAX_QUEUED_UDP_BYTES_def)
  with budget_limits[OF run] show ?thesis by simp
qed

end
