(* ===== verification/Tunnel_Config.thy ===== *)
theory Tunnel_Config
  imports Hash_Map Tunnel_Base Admission
begin

text \<open>
  \<open>gaterust-tunnel/src/config.rs\<close>: the server and client configuration, their validation, and
  loading and saving them. TOML (the \<open>toml\<close> crate), the file system and the random source are
  parameters. \<open>NonZero\<close> integers are words; that they are not zero is stated where it matters.
  The declarative predicates at the end say what an accepted configuration looks like.
\<close>

section \<open>Data\<close>

definition DEFAULT_MAX_CONNECTIONS :: nat where "DEFAULT_MAX_CONNECTIONS = 128"
definition DEFAULT_MAX_UDP_SESSIONS :: nat where "DEFAULT_MAX_UDP_SESSIONS = 128"
definition DEFAULT_UDP_IDLE_SECONDS :: nat where "DEFAULT_UDP_IDLE_SECONDS = 60"
definition DEFAULT_LOCAL_IP :: string where "DEFAULT_LOCAL_IP = ''127.0.0.1''"
definition MAX_UDP_IDLE_SECONDS :: nat where "MAX_UDP_IDLE_SECONDS = 3600"
definition MIN_GROUP_KEY_LENGTH :: nat where "MIN_GROUP_KEY_LENGTH = 32"
definition MAX_GROUP_KEY_LENGTH :: nat where "MAX_GROUP_KEY_LENGTH = 124"
definition MAX_CLIENT_SERVICES :: nat where "MAX_CLIENT_SERVICES = 256"

datatype TunnelKind = Tcp | Udp | Socks5

record ServerQuicConfig =
  q_bind :: SocketAddr
  q_certificate :: path
  q_private_key :: path

record GroupConfig =
  g_name :: string
  g_key :: string

record ServerTunnelConfig =
  t_name :: string
  t_group :: string
  t_kind :: TunnelKind
  t_bind :: SocketAddr
  t_local_ip :: string
  t_local_port :: "u16 option"
  t_limit_bps :: "u64 option"
  t_max_connections :: nat
  t_max_udp_sessions :: nat
  t_udp_idle_seconds :: nat

record ServerConfig =
  sc_quic :: ServerQuicConfig
  sc_groups :: "GroupConfig list"
  sc_tunnels :: "ServerTunnelConfig list"

record ClientServerConfig =
  cs_address :: string
  cs_name :: "string option"
  cs_ca_certificate :: "path option"

record ClientServiceConfig =
  s_name :: string
  s_kind :: TunnelKind
  s_target :: "string option"

record ClientConfig =
  cc_key :: string
  cc_server :: ClientServerConfig
  cc_services :: "ClientServiceConfig list"

definition client_local_port :: "ServerTunnelConfig \<Rightarrow> u16 option" where
  "client_local_port t =
     (case t_kind t of
        Socks5 \<Rightarrow> None
      | _ \<Rightarrow> Some (case t_local_port t of None \<Rightarrow> sock_port (t_bind t) | Some p \<Rightarrow> p))"

definition client_local_ip :: "ServerTunnelConfig \<Rightarrow> string option" where
  "client_local_ip t = (if t_kind t \<noteq> Socks5 then Some (t_local_ip t) else None)"

text \<open>\<open>ServerConfig::credentials\<close>, with \<open>GroupSecret\<close> as the bytes of the key.\<close>

definition credentials :: "ServerConfig \<Rightarrow> (string \<times> bytes) list" where
  "credentials c = map (\<lambda>g. (g_name g, str_bytes (g_key g))) (sc_groups c)"

section \<open>Field validation\<close>

definition validate_group_key :: "string \<Rightarrow> (TunnelError, unit) res" where
  "validate_group_key v =
     (let n = min (chars_count v) (MAX_GROUP_KEY_LENGTH + 1)
      in reject_if (\<not> (MIN_GROUP_KEY_LENGTH \<le> n \<and> n \<le> MAX_GROUP_KEY_LENGTH))
           (InvalidConfig ''group key length must be 32..=124''))"

definition validate_name :: "string \<Rightarrow> string \<Rightarrow> (TunnelError, unit) res" where
  "validate_name kind name =
     res_bind (reject_if (name = [] \<or> length name > 64)
                 (InvalidConfig (kind @ '' name length must be 1..=64'')))
       (\<lambda>_. reject_if (\<not> list_all name_byte name)
              (InvalidConfig (kind @ '' name may only hold ASCII letters, digits, - and _'')))"

definition address_host :: "string \<Rightarrow> string option" where
  "address_host address =
     (case strip_prefix ''['' address of
        Some bracketed \<Rightarrow> map_option fst (split_once CHR '']'' bracketed)
      | None \<Rightarrow>
          (case rsplit_once CHR '':'' address of
             None \<Rightarrow> None
           | Some (host, port) \<Rightarrow>
               if host \<noteq> [] \<and> port \<noteq> [] \<and> CHR '':'' \<notin> set host then Some host else None))"

section \<open>Server configuration\<close>

definition validate_group ::
  "GroupConfig \<Rightarrow> string set \<times> string set \<Rightarrow> (TunnelError, string set \<times> string set) res" where
  "validate_group g gk =
     (case gk of (groups, keys) \<Rightarrow>
        res_bind (validate_name ''group'' (g_name g)) (\<lambda>_.
        res_bind (reject_if (g_name g \<in> groups) (InvalidConfig (''duplicate group name: '' @ g_name g))) (\<lambda>_.
        res_bind (validate_group_key (g_key g)) (\<lambda>_.
        res_bind (reject_if (g_key g \<in> keys) (InvalidConfig ''groups must not share a key'')) (\<lambda>_.
        Inr (insert (g_name g) groups, insert (g_key g) keys))))))"

record tunnel_scan =
  ts_names :: "string set"
  ts_per_group :: "(string, nat) hm"
  ts_stream_binds :: "SocketAddr set"
  ts_udp_binds :: "SocketAddr set"

definition in_range :: "nat \<Rightarrow> nat \<Rightarrow> bool" where
  "in_range hi n = (1 \<le> n \<and> n \<le> hi)"

text \<open>The checks of one tunnel that do not depend on the other tunnels, in the order of the source.\<close>

definition validate_tunnel_fields :: "ServerTunnelConfig \<Rightarrow> (TunnelError, unit) res" where
  "validate_tunnel_fields t =
     res_bind (reject_if (sock_port (t_bind t) = 0) (InvalidConfig (t_name t @ '': port must not be 0''))) (\<lambda>_.
     res_bind (reject_if (t_kind t = Socks5 \<and> t_local_port t \<noteq> None)
                 (InvalidConfig (t_name t @ '': a SOCKS5 tunnel has no local_port''))) (\<lambda>_.
     res_bind (reject_if (t_kind t \<noteq> Socks5 \<and> t_local_ip t \<noteq> ''localhost'' \<and> parse_ip (t_local_ip t) = None)
                 (InvalidConfig (t_name t @ '': local_ip must be localhost or an IP address''))) (\<lambda>_.
     res_bind (reject_if (t_kind t = Socks5 \<and> \<not> is_loopback (sock_ip (t_bind t)))
                 (InvalidConfig (t_name t @ '': a SOCKS5 tunnel must listen on a loopback address''))) (\<lambda>_.
     res_bind (reject_if (\<not> in_range MAX_DATA_STREAMS (t_max_connections t))
                 (InvalidConfig (t_name t @ '': max_connections out of range''))) (\<lambda>_.
     res_bind (reject_if (\<not> in_range MAX_UDP_SESSIONS (t_max_udp_sessions t))
                 (InvalidConfig (t_name t @ '': max_udp_sessions out of range''))) (\<lambda>_.
     reject_if (\<not> in_range MAX_UDP_IDLE_SECONDS (t_udp_idle_seconds t))
                 (InvalidConfig (t_name t @ '': udp_idle_seconds out of range''))))))))"

text \<open>The four collections after the tunnel is accepted as the \<open>n\<close>-th of its group.\<close>

definition scan_add :: "ServerTunnelConfig \<Rightarrow> nat \<Rightarrow> tunnel_scan \<Rightarrow> tunnel_scan" where
  "scan_add t n s =
     s\<lparr>ts_names := insert (t_name t) (ts_names s),
       ts_per_group := hm_insert (t_group t) n (ts_per_group s),
       ts_stream_binds := (if t_kind t = Udp then ts_stream_binds s else insert (t_bind t) (ts_stream_binds s)),
       ts_udp_binds := (if t_kind t = Udp then insert (t_bind t) (ts_udp_binds s) else ts_udp_binds s)\<rparr>"

definition validate_tunnel ::
  "string set \<Rightarrow> ServerTunnelConfig \<Rightarrow> tunnel_scan \<Rightarrow> (TunnelError, tunnel_scan) res" where
  "validate_tunnel groups t s =
     res_bind (validate_name ''tunnel'' (t_name t)) (\<lambda>_.
     res_bind (reject_if (t_name t \<in> ts_names s) (InvalidConfig (''duplicate tunnel name: '' @ t_name t))) (\<lambda>_.
     res_bind (reject_if (t_group t \<notin> groups) (InvalidConfig (t_name t @ '' refers to no group: '' @ t_group t))) (\<lambda>_.
     (let n = (case hm_get (ts_per_group s) (t_group t) of None \<Rightarrow> 0 | Some k \<Rightarrow> k) + 1
      in res_bind (reject_if (n > MAX_CLIENT_SERVICES) (InvalidConfig (t_group t @ '': more than 256 tunnels''))) (\<lambda>_.
         res_bind (validate_tunnel_fields t) (\<lambda>_.
         res_bind (reject_if (case t_kind t of
                                Udp \<Rightarrow> t_bind t \<in> ts_udp_binds s
                              | _ \<Rightarrow> t_bind t \<in> ts_stream_binds s)
                     (InvalidConfig ''duplicate bind address'')) (\<lambda>_.
         Inr (scan_add t n s))))))))"

definition server_validate :: "ServerConfig \<Rightarrow> (TunnelError, unit) res" where
  "server_validate c =
     res_bind (reject_if (length (sc_groups c) > 256 \<or> length (sc_tunnels c) > 1024)
                 (InvalidConfig ''at most 256 groups and 1024 tunnels'')) (\<lambda>_.
     res_bind (res_fold validate_group (sc_groups c) ({}, {})) (\<lambda>(groups, keys).
     res_bind (res_fold (validate_tunnel groups) (sc_tunnels c)
                 \<lparr>ts_names = {}, ts_per_group = [], ts_stream_binds = {}, ts_udp_binds = {}\<rparr>) (\<lambda>_.
     Inr ())))"

section \<open>Client configuration\<close>

definition server_name :: "ClientConfig \<Rightarrow> (TunnelError, string) res" where
  "server_name c =
     (case cs_name (cc_server c) of
        Some name \<Rightarrow>
          if name = [] then Inl (InvalidConfig ''TLS server name must not be empty'') else Inr name
      | None \<Rightarrow>
          (case address_host (cs_address (cc_server c)) of
             None \<Rightarrow> Inl (InvalidConfig ''no TLS server name in the server address'')
           | Some h \<Rightarrow> Inr h))"

definition validate_client_service ::
  "ClientServiceConfig \<Rightarrow> string set \<Rightarrow> (TunnelError, string set) res" where
  "validate_client_service s names =
     res_bind (validate_name ''service'' (s_name s)) (\<lambda>_.
     res_bind (reject_if (s_name s \<in> names) (InvalidConfig (''duplicate service name: '' @ s_name s))) (\<lambda>_.
     (case (s_kind s, s_target s) of
        (Socks5, None) \<Rightarrow> Inr (insert (s_name s) names)
      | (Socks5, Some _) \<Rightarrow> Inl (InvalidConfig (s_name s @ '': a SOCKS5 service has no target''))
      | (_, Some target) \<Rightarrow>
          if target \<noteq> [] then Inr (insert (s_name s) names)
          else Inl (InvalidConfig (s_name s @ '': a TCP/UDP service needs a target''))
      | (_, None) \<Rightarrow> Inl (InvalidConfig (s_name s @ '': a TCP/UDP service needs a target'')))))"

definition validate_client_services :: "ClientServiceConfig list \<Rightarrow> (TunnelError, unit) res" where
  "validate_client_services ss =
     res_bind (reject_if (length ss > MAX_CLIENT_SERVICES) (InvalidConfig ''at most 256 services'')) (\<lambda>_.
     res_bind (res_fold validate_client_service ss {}) (\<lambda>_. Inr ()))"

definition client_validate :: "ClientConfig \<Rightarrow> (TunnelError, unit) res" where
  "client_validate c =
     res_bind (validate_group_key (cc_key c)) (\<lambda>_.
     res_bind (reject_if (cs_address (cc_server c) = []) (InvalidConfig ''the QUIC server address must not be empty'')) (\<lambda>_.
     res_bind (server_name c) (\<lambda>_.
     validate_client_services (cc_services c))))"

text \<open>\<open>ClientConfig::initial\<close>; the key comes from \<open>generate_group_key\<close>, a random alphanumeric string.\<close>

definition client_initial :: "string \<Rightarrow> ClientConfig" where
  "client_initial key =
     \<lparr>cc_key = key, cc_server = \<lparr>cs_address = [], cs_name = None, cs_ca_certificate = None\<rparr>, cc_services = []\<rparr>"

definition is_generated_key :: "string \<Rightarrow> bool" where
  "is_generated_key k = (length k = MIN_GROUP_KEY_LENGTH \<and> list_all is_ascii_alphanumeric k)"

section \<open>Loading and saving\<close>

text \<open>
  \<open>fs\<close> is what reading a file returns. \<open>from_str\<close> and \<open>to_str\<close> are the TOML reader and writer,
  \<open>write\<close> is \<open>create_dir_all\<close> followed by the atomic write of the \<open>atomic_write_file\<close> crate: its
  result and the file system afterwards.
\<close>

type_synonym fs = "path \<Rightarrow> (io_error, string) res"

definition parse_config :: "(string \<Rightarrow> 'c option) \<Rightarrow> fs \<Rightarrow> path \<Rightarrow> (TunnelError, 'c) res" where
  "parse_config from_str fs p =
     (case fs p of
        Inl e \<Rightarrow> Inl (ReadConfig p e)
      | Inr content \<Rightarrow> (case from_str content of None \<Rightarrow> Inl (ParseConfig p) | Some c \<Rightarrow> Inr c))"

definition resolve_path :: "path \<Rightarrow> path \<Rightarrow> path" where
  "resolve_path config_path v =
     (if is_relative v
      then path_join (case path_parent config_path of None \<Rightarrow> current_dir | Some p \<Rightarrow> p) v
      else v)"

definition server_read :: "(string \<Rightarrow> ServerConfig option) \<Rightarrow> fs \<Rightarrow> path \<Rightarrow> (TunnelError, ServerConfig) res" where
  "server_read from_str fs p =
     res_bind (parse_config from_str fs p) (\<lambda>c. res_bind (server_validate c) (\<lambda>_. Inr c))"

definition server_load :: "(string \<Rightarrow> ServerConfig option) \<Rightarrow> fs \<Rightarrow> path \<Rightarrow> (TunnelError, ServerConfig) res" where
  "server_load from_str fs p =
     res_bind (server_read from_str fs p) (\<lambda>c.
       Inr (c\<lparr>sc_quic := (sc_quic c)\<lparr>q_certificate := resolve_path p (q_certificate (sc_quic c)),
                                      q_private_key := resolve_path p (q_private_key (sc_quic c))\<rparr>\<rparr>))"

definition client_resolved :: "ClientConfig \<Rightarrow> path \<Rightarrow> (TunnelError, ClientConfig) res" where
  "client_resolved c p =
     res_bind (client_validate c) (\<lambda>_.
       Inr (c\<lparr>cc_server := (cc_server c)\<lparr>cs_ca_certificate :=
                 map_option (resolve_path p) (cs_ca_certificate (cc_server c))\<rparr>\<rparr>))"

definition client_load :: "(string \<Rightarrow> ClientConfig option) \<Rightarrow> fs \<Rightarrow> path \<Rightarrow> (TunnelError, ClientConfig) res" where
  "client_load from_str fs p = res_bind (parse_config from_str fs p) (\<lambda>c. client_resolved c p)"

definition write_client_config ::
  "(path \<Rightarrow> string \<Rightarrow> 's \<Rightarrow> (io_error, unit) res \<times> 's) \<Rightarrow> path \<Rightarrow> string \<Rightarrow> 's \<Rightarrow> (TunnelError, unit) res \<times> 's" where
  "write_client_config write p content fs =
     (case write p content fs of
        (Inl e, fs') \<Rightarrow> (Inl (WriteConfig p e), fs')
      | (Inr u, fs') \<Rightarrow> (Inr u, fs'))"

definition client_save ::
  "(ClientConfig \<Rightarrow> string option) \<Rightarrow> (path \<Rightarrow> string \<Rightarrow> 's \<Rightarrow> (io_error, unit) res \<times> 's)
   \<Rightarrow> ClientConfig \<Rightarrow> path \<Rightarrow> 's \<Rightarrow> (TunnelError, unit) res \<times> 's" where
  "client_save to_str write c p fs =
     (case client_validate c of
        Inl e \<Rightarrow> (Inl e, fs)
      | Inr _ \<Rightarrow>
          (case to_str c of
             None \<Rightarrow> (Inl (SerializeConfig p), fs)
           | Some content \<Rightarrow> write_client_config write p content fs))"

definition client_reset ::
  "(ClientConfig \<Rightarrow> string option) \<Rightarrow> (path \<Rightarrow> string \<Rightarrow> 's \<Rightarrow> (io_error, unit) res \<times> 's)
   \<Rightarrow> string \<Rightarrow> path \<Rightarrow> 's \<Rightarrow> (TunnelError, ClientConfig) res \<times> 's" where
  "client_reset to_str write key p fs =
     (let c = client_initial key
      in case to_str c of
           None \<Rightarrow> (Inl (SerializeConfig p), fs)
         | Some content \<Rightarrow>
             (case write_client_config write p content fs of
                (Inl e, fs') \<Rightarrow> (Inl e, fs')
              | (Inr _, fs') \<Rightarrow> (Inr c, fs')))"

section \<open>What validation accepts\<close>

definition valid_name :: "string \<Rightarrow> bool" where
  "valid_name n = (1 \<le> length n \<and> length n \<le> 64 \<and> list_all name_byte n)"

definition valid_group_key :: "string \<Rightarrow> bool" where
  "valid_group_key k = (32 \<le> chars_count k \<and> chars_count k \<le> 124)"

definition valid_tunnel :: "ServerTunnelConfig \<Rightarrow> bool" where
  "valid_tunnel t =
     (valid_name (t_name t)
      \<and> sock_port (t_bind t) \<noteq> 0
      \<and> (t_kind t = Socks5 \<longrightarrow> t_local_port t = None \<and> is_loopback (sock_ip (t_bind t)))
      \<and> (t_kind t \<noteq> Socks5 \<longrightarrow> t_local_ip t = ''localhost'' \<or> parse_ip (t_local_ip t) \<noteq> None)
      \<and> in_range 512 (t_max_connections t)
      \<and> in_range 128 (t_max_udp_sessions t)
      \<and> in_range 3600 (t_udp_idle_seconds t))"

definition valid_server_config :: "ServerConfig \<Rightarrow> bool" where
  "valid_server_config c =
     (length (sc_groups c) \<le> 256 \<and> length (sc_tunnels c) \<le> 1024
      \<and> (\<forall>g \<in> set (sc_groups c). valid_name (g_name g) \<and> valid_group_key (g_key g))
      \<and> distinct (map g_name (sc_groups c)) \<and> distinct (map g_key (sc_groups c))
      \<and> (\<forall>t \<in> set (sc_tunnels c). valid_tunnel t \<and> t_group t \<in> g_name ` set (sc_groups c)
            \<and> length (filter (\<lambda>u. t_group u = t_group t) (sc_tunnels c)) \<le> 256)
      \<and> distinct (map t_name (sc_tunnels c))
      \<and> distinct (map t_bind (filter (\<lambda>t. t_kind t = Udp) (sc_tunnels c)))
      \<and> distinct (map t_bind (filter (\<lambda>t. t_kind t \<noteq> Udp) (sc_tunnels c))))"

definition valid_client_service :: "ClientServiceConfig \<Rightarrow> bool" where
  "valid_client_service s =
     (valid_name (s_name s)
      \<and> (if s_kind s = Socks5 then s_target s = None else (\<exists>x. s_target s = Some x \<and> x \<noteq> [])))"

section \<open>Lemmas\<close>

lemma validate_name_ok [res_simps]: "validate_name kind n = Inr u \<longleftrightarrow> valid_name n"
  by (cases n) (auto simp: validate_name_def valid_name_def res_simps not_less)

lemma validate_group_key_ok [res_simps]: "validate_group_key k = Inr u \<longleftrightarrow> valid_group_key k"
  by (auto simp: validate_group_key_def valid_group_key_def res_simps Let_def
      MAX_GROUP_KEY_LENGTH_def MIN_GROUP_KEY_LENGTH_def)

lemma groups_scan_iff:
  "res_fold validate_group gs (N, K) = Inr (N', K') \<longleftrightarrow>
     (\<forall>g \<in> set gs. valid_name (g_name g) \<and> valid_group_key (g_key g))
     \<and> distinct (map g_name gs) \<and> distinct (map g_key gs)
     \<and> g_name ` set gs \<inter> N = {} \<and> g_key ` set gs \<inter> K = {}
     \<and> N' = N \<union> g_name ` set gs \<and> K' = K \<union> g_key ` set gs"
proof (induction gs arbitrary: N K)
  case (Cons g gs)
  have "res_fold validate_group (g # gs) (N, K) = Inr (N', K') \<longleftrightarrow>
      valid_name (g_name g) \<and> g_name g \<notin> N \<and> valid_group_key (g_key g) \<and> g_key g \<notin> K
      \<and> res_fold validate_group gs (insert (g_name g) N, insert (g_key g) K) = Inr (N', K')"
    by (auto simp: validate_group_def res_simps)
  then show ?case unfolding Cons.IH by auto
qed auto

definition tunnel_count :: "string \<Rightarrow> ServerTunnelConfig list \<Rightarrow> nat" where
  "tunnel_count g ts = length (filter (\<lambda>u. t_group u = g) ts)"

lemma tunnel_count_simps [simp]:
  "tunnel_count g [] = 0"
  "tunnel_count g (t # ts) = (if t_group t = g then Suc (tunnel_count g ts) else tunnel_count g ts)"
  by (simp_all add: tunnel_count_def)

lemma validate_tunnel_fields_ok [res_simps]:
  "valid_name (t_name t) \<Longrightarrow> validate_tunnel_fields t = Inr u \<longleftrightarrow> valid_tunnel t"
  by (auto simp: validate_tunnel_fields_def valid_tunnel_def res_simps MAX_DATA_STREAMS_def
      MAX_UDP_SESSIONS_def MAX_UDP_IDLE_SECONDS_def)

definition scan_count :: "tunnel_scan \<Rightarrow> string \<Rightarrow> nat" where
  "scan_count s g = (case hm_get (ts_per_group s) g of None \<Rightarrow> 0 | Some k \<Rightarrow> k)"

lemma scan_add_sel [simp]:
  "ts_names (scan_add t n s) = insert (t_name t) (ts_names s)"
  "ts_stream_binds (scan_add t n s)
     = (if t_kind t = Udp then ts_stream_binds s else insert (t_bind t) (ts_stream_binds s))"
  "ts_udp_binds (scan_add t n s)
     = (if t_kind t = Udp then insert (t_bind t) (ts_udp_binds s) else ts_udp_binds s)"
  "scan_count (scan_add t n s) g = (if g = t_group t then n else scan_count s g)"
  by (simp_all add: scan_add_def scan_count_def hm_get_insert)

text \<open>One tunnel: accepted iff it is valid, new, in a known group with room, on a free address.\<close>

lemma validate_tunnel_ok:
  "validate_tunnel G t s = Inr s' \<longleftrightarrow>
     valid_tunnel t \<and> t_name t \<notin> ts_names s \<and> t_group t \<in> G \<and> scan_count s (t_group t) < 256
     \<and> t_bind t \<notin> (if t_kind t = Udp then ts_udp_binds s else ts_stream_binds s)
     \<and> s' = scan_add t (scan_count s (t_group t) + 1) s"
proof -
  have "valid_tunnel t \<Longrightarrow> valid_name (t_name t)" by (simp add: valid_tunnel_def)
  then show ?thesis
    by (cases "t_kind t")
      (auto simp: validate_tunnel_def scan_count_def Let_def res_simps MAX_CLIENT_SERVICES_def not_less)
qed

lemma scan_room_Cons:
  "(\<forall>u \<in> set (t # ts). scan_count s (t_group u) + tunnel_count (t_group u) (t # ts) \<le> 256) \<longleftrightarrow>
     scan_count s (t_group t) < 256
     \<and> (\<forall>u \<in> set ts. scan_count (scan_add t (scan_count s (t_group t) + 1) s) (t_group u)
                         + tunnel_count (t_group u) ts \<le> 256)"
  (is "?all \<longleftrightarrow> ?room \<and> (\<forall>u \<in> set ts. ?tail u)")
proof
  assume ?all
  then have "scan_count s (t_group t) + tunnel_count (t_group t) (t # ts) \<le> 256" by simp
  moreover have "?tail u" if "u \<in> set ts" for u
    using \<open>?all\<close>[THEN bspec, of u] that by (simp split: if_splits)
  ultimately show "?room \<and> (\<forall>u \<in> set ts. ?tail u)" by auto
next
  assume *: "?room \<and> (\<forall>u \<in> set ts. ?tail u)"
  have "scan_count s (t_group t) + tunnel_count (t_group t) (t # ts) \<le> 256"
  proof (cases "\<exists>u \<in> set ts. t_group u = t_group t")
    case True
    with * show ?thesis by auto
  next
    case False
    then have "tunnel_count (t_group t) ts = 0" by (auto simp: tunnel_count_def filter_empty_conv)
    with * show ?thesis by simp
  qed
  moreover have "scan_count s (t_group u) + tunnel_count (t_group u) (t # ts) \<le> 256" if "u \<in> set ts" for u
    using *[THEN conjunct2, THEN bspec, OF that] by (simp split: if_splits)
  ultimately have "scan_count s (t_group u) + tunnel_count (t_group u) (t # ts) \<le> 256"
    if "u = t \<or> u \<in> set ts" for u
    using that by blast
  then show ?all unfolding set_simps insert_iff Ball_def by blast
qed

lemma tunnels_scan_iff:
  "(\<exists>s'. res_fold (validate_tunnel G) ts s = Inr s') \<longleftrightarrow>
     (\<forall>t \<in> set ts. valid_tunnel t \<and> t_group t \<in> G)
     \<and> (\<forall>t \<in> set ts. scan_count s (t_group t) + tunnel_count (t_group t) ts \<le> 256)
     \<and> distinct (map t_name ts) \<and> t_name ` set ts \<inter> ts_names s = {}
     \<and> distinct (map t_bind (filter (\<lambda>t. t_kind t = Udp) ts))
     \<and> (\<forall>t \<in> set ts. t_kind t = Udp \<longrightarrow> t_bind t \<notin> ts_udp_binds s)
     \<and> distinct (map t_bind (filter (\<lambda>t. t_kind t \<noteq> Udp) ts))
     \<and> (\<forall>t \<in> set ts. t_kind t \<noteq> Udp \<longrightarrow> t_bind t \<notin> ts_stream_binds s)"
proof (induction ts arbitrary: s)
  case (Cons t ts)
  let ?s = "scan_add t (scan_count s (t_group t) + 1) s"
  have step: "(\<exists>s'. res_fold (validate_tunnel G) (t # ts) s = Inr s') \<longleftrightarrow>
      valid_tunnel t \<and> t_name t \<notin> ts_names s \<and> t_group t \<in> G \<and> scan_count s (t_group t) < 256
      \<and> t_bind t \<notin> (if t_kind t = Udp then ts_udp_binds s else ts_stream_binds s)
      \<and> (\<exists>s'. res_fold (validate_tunnel G) ts ?s = Inr s')"
    by (auto simp: res_simps validate_tunnel_ok)
  show ?case
    unfolding step Cons.IH[of ?s] scan_room_Cons
    by (cases "t_kind t = Udp") (auto simp: image_iff)
qed simp

section \<open>Properties\<close>

lemma server_validate_exact: "server_validate c = Inr () \<longleftrightarrow> valid_server_config c"
proof -
  let ?s0 = "\<lparr>ts_names = {}, ts_per_group = [], ts_stream_binds = {}, ts_udp_binds = {}\<rparr>"
  have count: "scan_count ?s0 g = 0" for g by (simp add: scan_count_def)
  have "server_validate c = Inr () \<longleftrightarrow>
      length (sc_groups c) \<le> 256 \<and> length (sc_tunnels c) \<le> 1024
      \<and> (\<exists>N K s. res_fold validate_group (sc_groups c) ({}, {}) = Inr (N, K)
            \<and> res_fold (validate_tunnel N) (sc_tunnels c) ?s0 = Inr s)"
    by (auto simp: server_validate_def res_simps not_less)
  also have "\<dots> \<longleftrightarrow> valid_server_config c"
    using tunnels_scan_iff[of "g_name ` set (sc_groups c)" "sc_tunnels c" ?s0]
    by (auto simp: groups_scan_iff count valid_server_config_def tunnel_count_def)
  finally show ?thesis .
qed

text \<open>
  C6: \<open>ServerConfig::validate\<close> accepts exactly the configurations that satisfy the declarative
  specification: bounded numbers of groups and tunnels, unique names and keys, tunnels that
  refer to existing groups with at most 256 tunnels each, per-tunnel limits in range, SOCKS5
  only on loopback addresses, and no two stream (or two UDP) tunnels on one address.
\<close>

theorem server_validate_iff: "server_validate c = Inr () \<longleftrightarrow> valid_server_config c"
  by (rule server_validate_exact)

text \<open>The same for the services of a client.\<close>

lemma client_services_scan_iff:
  "(\<exists>N'. res_fold validate_client_service ss N = Inr N') \<longleftrightarrow>
     (\<forall>s \<in> set ss. valid_client_service s) \<and> distinct (map s_name ss) \<and> s_name ` set ss \<inter> N = {}"
proof (induction ss arbitrary: N)
  case (Cons s ss)
  have one: "validate_client_service s N = Inr N' \<longleftrightarrow>
      valid_client_service s \<and> s_name s \<notin> N \<and> N' = insert (s_name s) N" for N'
    by (auto simp: validate_client_service_def valid_client_service_def res_simps
        split: TunnelKind.splits option.splits)
  have "(\<exists>N'. res_fold validate_client_service (s # ss) N = Inr N') \<longleftrightarrow>
      valid_client_service s \<and> s_name s \<notin> N
      \<and> (\<exists>N'. res_fold validate_client_service ss (insert (s_name s) N) = Inr N')"
    by (auto simp: res_simps one)
  then show ?case unfolding Cons.IH by auto
qed simp

lemma validate_client_services_iff:
  "validate_client_services ss = Inr u \<longleftrightarrow>
     length ss \<le> 256 \<and> (\<forall>s \<in> set ss. valid_client_service s) \<and> distinct (map s_name ss)"
  using client_services_scan_iff[of ss "{}"]
  by (auto simp: validate_client_services_def res_simps MAX_CLIENT_SERVICES_def not_less)

text \<open>
  Saving a client configuration. An invalid configuration is rejected with the file system
  untouched; a valid one that TOML can write and the file system stores is read back by
  \<open>ClientConfig::load\<close> as the same configuration with its certificate path resolved. The
  hypotheses are the round trip of the TOML crate and what a successful atomic write leaves
  behind.
\<close>

theorem client_save_load:
  assumes toml: "to_str c = Some content" "from_str content = Some c"
    and stored: "write p content fs = (Inr (), fs')" "fs' p = Inr content"
  shows "case client_validate c of
           Inl e \<Rightarrow> client_save to_str write c p fs = (Inl e, fs)
         | Inr _ \<Rightarrow> client_save to_str write c p fs = (Inr (), fs')
                    \<and> client_load from_str fs' p = client_resolved c p
                    \<and> (\<exists>d. client_resolved c p = Inr d \<and> cc_key d = cc_key c \<and> cc_services d = cc_services c)"
  using assms
  by (auto simp: client_save_def write_client_config_def client_load_def parse_config_def
      client_resolved_def split: sum.splits)

definition sample_client :: ClientConfig where
  "sample_client =
     \<lparr>cc_key = ''AAAAAAAAAAAAAAAAAAAAAAAAAAAAAAAA'',
      cc_server = \<lparr>cs_address = ''tunnel.example.com:2333'', cs_name = None,
                   cs_ca_certificate = Some (Path False [''certs'', ''ca.pem''])\<rparr>,
      cc_services = [\<lparr>s_name = ''ssh'', s_kind = Tcp, s_target = Some ''127.0.0.1:22''\<rparr>]\<rparr>"

lemma sample_client_valid: "client_validate sample_client = Inr ()"
  by code_simp

theorem client_save_load_witness:
  "client_save (\<lambda>_. Some ''toml'') (\<lambda>p x fs. (Inr (), fs(p := Inr x))) sample_client
      (Path True [''etc'', ''client.toml'']) (\<lambda>_. Inl NotFound)
    = (Inr (), (\<lambda>_. Inl NotFound)(Path True [''etc'', ''client.toml''] := Inr ''toml''))
   \<and> client_load (\<lambda>_. Some sample_client)
       ((\<lambda>_. Inl NotFound)(Path True [''etc'', ''client.toml''] := Inr ''toml'')) (Path True [''etc'', ''client.toml''])
     = client_resolved sample_client (Path True [''etc'', ''client.toml''])"
  using client_save_load[of "\<lambda>_. Some ''toml''" sample_client "''toml''" "\<lambda>_. Some sample_client"
      "\<lambda>p x fs. (Inr (), fs(p := Inr x))" "Path True [''etc'', ''client.toml'']" "\<lambda>_. Inl NotFound"
      "(\<lambda>_. Inl NotFound)(Path True [''etc'', ''client.toml''] := Inr ''toml'')"]
  by (simp add: sample_client_valid)

end
