(* ===== verification/Protocol.thy ===== *)
theory Protocol
  imports Tunnel_Config
begin

text \<open>
  \<open>gaterust-tunnel/src/protocol.rs\<close> and the tunnel description of \<open>client.rs\<close>: the messages of
  the control connection, the check of declared services and the two length-prefixed codecs
  (control frames with a 32-bit length, UDP datagrams with a 16-bit length).

  A run of an \<open>AsyncRead\<close> is given by the bytes it delivers and the error it reports once they
  are used up; a run of an \<open>AsyncWrite\<close> by the number of bytes it accepts and the error that
  follows. \<open>serde_json\<close> is a parameter. The locale \<open>framed_channel\<close> is the contract both codecs
  meet: what was written is read back in order, whatever follows it in the stream.
\<close>

section \<open>Messages\<close>

definition PROTOCOL_VERSION :: u16 where "PROTOCOL_VERSION = 5"
definition MAX_CONTROL_FRAME :: nat where "MAX_CONTROL_FRAME = 256 * 1024"
definition MAX_DATAGRAM :: nat where "MAX_DATAGRAM = 65535"

datatype ClientTunnelState = Idle | Enabled | Occupied

record ClientTunnel =
  ct_name :: string
  ct_kind :: TunnelKind
  ct_server_port :: u16
  ct_local_ip :: "string option"
  ct_local_port :: "u16 option"
  ct_state :: ClientTunnelState

record ServiceDeclaration =
  sd_name :: string
  sd_kind :: TunnelKind

record ClientHello =
  ch_version :: u16
  ch_device_id :: string
  ch_key :: bytes
  ch_services :: "ServiceDeclaration list"

record CertificateBootstrapRequest =
  cbr_version :: u16
  cbr_client_nonce :: bytes
  cbr_proof :: bytes

datatype ClientHandshake =
    AuthenticateRequest ClientHello
  | BootstrapRequest CertificateBootstrapRequest

datatype AuthenticationStatus = Accepted | Rejected | DeviceIdConflict | ServerBusy

record ServerHello =
  sh_status :: AuthenticationStatus
  sh_message :: string
  sh_tunnels :: "ClientTunnel list"

datatype CertificateBootstrapResponse =
    BootstrapAccepted (ba_server_nonce: bytes) (ba_proof: bytes)
  | BootstrapRejected string

datatype ServerHandshake =
    AuthenticateResponse ServerHello
  | BootstrapResponse CertificateBootstrapResponse

datatype ControlMessage = UpdateServices u64 "ServiceDeclaration list"

datatype ServerControlMessage =
    TunnelSnapshot "ClientTunnel list"
  | ServicesApplied u64 "ClientTunnel list"

record OpenRequest =
  or_service :: string
  or_destination :: "string option"

record OpenResponse =
  os_accepted :: bool
  os_message :: string

text \<open>\<open>ClientTunnel::local_target\<close>\<close>

definition local_target :: "ClientTunnel \<Rightarrow> string option" where
  "local_target t =
     (if ct_kind t = Socks5 then None
      else case ct_local_port t of
        None \<Rightarrow> None
      | Some p \<Rightarrow>
          (let host = (case ct_local_ip t of None \<Rightarrow> DEFAULT_LOCAL_IP | Some h \<Rightarrow> h); port = show_nat (unat p)
           in if parse_ipv6 host \<noteq> None then Some (''['' @ host @ '']:'' @ port)
              else Some (host @ '':'' @ port)))"

section \<open>Declared services\<close>

definition validate_declaration ::
  "ServiceDeclaration \<Rightarrow> string set \<Rightarrow> (TunnelError, string set) res" where
  "validate_declaration s names =
     (if sd_name s = [] \<or> length (sd_name s) > 64 \<or> \<not> list_all name_byte (sd_name s) \<or> sd_name s \<in> names
      then Inl (Protocol ''invalid or duplicate service declaration'')
      else Inr (insert (sd_name s) names))"

definition validate_declarations :: "ServiceDeclaration list \<Rightarrow> (TunnelError, unit) res" where
  "validate_declarations ss =
     res_bind (reject_if (length ss > MAX_CLIENT_SERVICES) (Protocol ''at most 256 services per client'')) (\<lambda>_.
     res_bind (res_fold validate_declaration ss {}) (\<lambda>_. Inr ()))"

section \<open>Byte streams\<close>

record source =
  src_bytes :: bytes
  src_end :: io_error

record sink =
  snk_sent :: bytes
  snk_room :: nat
  snk_error :: io_error

text \<open>\<open>read_exact\<close>, and what it leaves in the buffer when the stream ends early.\<close>

definition read_exact :: "nat \<Rightarrow> source \<Rightarrow> (io_error, bytes \<times> source) res" where
  "read_exact n s =
     (if n \<le> length (src_bytes s)
      then Inr (take n (src_bytes s), s\<lparr>src_bytes := drop n (src_bytes s)\<rparr>)
      else Inl (src_end s))"

definition write_all :: "bytes \<Rightarrow> sink \<Rightarrow> (io_error, unit) res \<times> sink" where
  "write_all bs k =
     (if length bs \<le> snk_room k
      then (Inr (), k\<lparr>snk_sent := snk_sent k @ bs, snk_room := snk_room k - length bs\<rparr>)
      else (Inl (snk_error k), k\<lparr>snk_sent := snk_sent k @ take (snk_room k) bs, snk_room := 0\<rparr>))"

text \<open>\<open>to_be_bytes\<close> of an \<open>n\<close>-byte integer and its inverse, \<open>read_u32\<close> and \<open>read_u16\<close>.\<close>

primrec be_bytes :: "nat \<Rightarrow> nat \<Rightarrow> bytes" where
  "be_bytes 0 v = []"
| "be_bytes (Suc n) v = of_nat (v div 256 ^ n) # be_bytes n (v mod 256 ^ n)"

definition be_value :: "bytes \<Rightarrow> nat" where
  "be_value bs = foldl (\<lambda>n b. n * 256 + unat b) 0 bs"

definition read_be :: "nat \<Rightarrow> source \<Rightarrow> (io_error, nat \<times> source) res" where
  "read_be n s = res_bind (read_exact n s) (\<lambda>(bs, s'). Inr (be_value bs, s'))"

definition io_res :: "(io_error, 'a) res \<Rightarrow> (TunnelError, 'a) res" where
  "io_res r = (case r of Inl e \<Rightarrow> Inl (Io e) | Inr x \<Rightarrow> Inr x)"

text \<open>\<open>u32::try_from(len)\<close> and \<open>u16::try_from(len)\<close> for an integer of \<open>n\<close> bytes.\<close>

definition try_from_len :: "nat \<Rightarrow> nat \<Rightarrow> nat option" where
  "try_from_len n len = (if len < 256 ^ n then Some len else None)"

text \<open>The two writes of a frame: the length, then the payload.\<close>

definition write_parts :: "nat \<Rightarrow> bytes \<Rightarrow> sink \<Rightarrow> (TunnelError, unit) res \<times> sink" where
  "write_parts n payload k =
     (case write_all (be_bytes n (length payload)) k of
        (Inl e, k') \<Rightarrow> (Inl (Io e), k')
      | (Inr _, k') \<Rightarrow> (case write_all payload k' of (r, k'') \<Rightarrow> (io_res r, k'')))"

section \<open>Control frames\<close>

definition write_frame ::
  "('a \<Rightarrow> bytes option) \<Rightarrow> 'a \<Rightarrow> sink \<Rightarrow> (TunnelError, unit) res \<times> sink" where
  "write_frame to_vec v k =
     (case to_vec v of
        None \<Rightarrow> (Inl (Protocol ''cannot serialise control frame''), k)
      | Some payload \<Rightarrow>
          if length payload > MAX_CONTROL_FRAME
          then (Inl (Protocol ''control frame exceeds 256 KiB''), k)
          else (case try_from_len 4 (length payload) of
                  None \<Rightarrow> (Inl (Protocol ''control frame length overflow''), k)
                | Some _ \<Rightarrow> write_parts 4 payload k))"

definition read_frame :: "(bytes \<Rightarrow> 'a option) \<Rightarrow> source \<Rightarrow> (TunnelError, 'a \<times> source) res" where
  "read_frame from_slice s =
     res_bind (io_res (read_be 4 s)) (\<lambda>(len, s1).
     res_bind (reject_if (len > MAX_CONTROL_FRAME) (Protocol ''control frame exceeds 256 KiB'')) (\<lambda>_.
     res_bind (io_res (read_exact len s1)) (\<lambda>(payload, s2).
     (case from_slice payload of
        None \<Rightarrow> Inl (Protocol ''cannot parse control frame'')
      | Some v \<Rightarrow> Inr (v, s2)))))"

section \<open>Datagrams\<close>

definition write_datagram :: "bytes \<Rightarrow> sink \<Rightarrow> (TunnelError, unit) res \<times> sink" where
  "write_datagram payload k =
     (case try_from_len 2 (length payload) of
        None \<Rightarrow> (Inl (Protocol ''UDP datagram exceeds 65535 bytes''), k)
      | Some _ \<Rightarrow> write_parts 2 payload k)"

text \<open>\<open>Vec::resize(n, 0)\<close>\<close>

definition vec_resize :: "nat \<Rightarrow> bytes \<Rightarrow> bytes" where
  "vec_resize n b = take n b @ replicate (n - length b) 0"

text \<open>
  The buffer is the caller's: it is resized before the payload arrives, and a stream that ends
  early leaves the bytes that did arrive in front of the old contents.
\<close>

definition read_datagram :: "source \<Rightarrow> bytes \<Rightarrow> (TunnelError, nat \<times> source) res \<times> bytes" where
  "read_datagram s buffer =
     (case read_be 2 s of
        Inl e \<Rightarrow> (Inl (Io e), buffer)
      | Inr (len, s1) \<Rightarrow>
          if len > MAX_DATAGRAM then (Inl (Protocol ''invalid UDP datagram length''), buffer)
          else (let resized = vec_resize len buffer in
                case read_exact len s1 of
                  Inl e \<Rightarrow> (Inl (Io e), src_bytes s1 @ drop (length (src_bytes s1)) resized)
                | Inr (payload, s2) \<Rightarrow> (Inr (len, s2), payload)))"

section \<open>The contract of a framed channel\<close>

primrec put_all :: "('a \<Rightarrow> sink \<Rightarrow> ('e, unit) res \<times> sink) \<Rightarrow> 'a list \<Rightarrow> sink \<Rightarrow> ('e, unit) res \<times> sink" where
  "put_all put [] k = (Inr (), k)"
| "put_all put (x # xs) k =
     (case put x k of (Inl e, k') \<Rightarrow> (Inl e, k') | (Inr _, k') \<Rightarrow> put_all put xs k')"

primrec get_many :: "(source \<Rightarrow> ('e, 'a \<times> source) res) \<Rightarrow> nat \<Rightarrow> source \<Rightarrow> ('e, 'a list \<times> source) res" where
  "get_many get 0 s = Inr ([], s)"
| "get_many get (Suc n) s =
     res_bind (get s) (\<lambda>(x, s'). res_bind (get_many get n s') (\<lambda>(xs, s''). Inr (x # xs, s'')))"

locale framed_channel =
  fixes put :: "'a \<Rightarrow> sink \<Rightarrow> ('e, unit) res \<times> sink"
    and get :: "source \<Rightarrow> ('e, 'a \<times> source) res"
    and enc :: "'a \<Rightarrow> bytes"
    and good :: "'a \<Rightarrow> bool"
  assumes put_ok: "put x k = (Inr (), k') \<Longrightarrow> snk_sent k' = snk_sent k @ enc x"
    and put_prefix: "put x k = (Inl e, k') \<Longrightarrow> \<exists>n \<le> length (enc x). snk_sent k' = snk_sent k @ take n (enc x)"
    and get_enc: "good x \<Longrightarrow> put x k = (Inr (), k') \<Longrightarrow>
      get (s\<lparr>src_bytes := enc x @ rest\<rparr>) = Inr (x, s\<lparr>src_bytes := rest\<rparr>)"
begin

lemma put_all_sent:
  "put_all put xs k = (Inr (), k') \<Longrightarrow> snk_sent k' = snk_sent k @ concat (map enc xs)"
proof (induction xs arbitrary: k)
  case (Cons x xs)
  then show ?case by (auto split: prod.splits sum.splits dest!: put_ok)
qed simp

lemma get_put_all:
  assumes "put_all put xs k = (Inr (), k')" "\<forall>x \<in> set xs. good x"
  shows "get_many get (length xs) (s\<lparr>src_bytes := concat (map enc xs) @ rest\<rparr>) = Inr (xs, s\<lparr>src_bytes := rest\<rparr>)"
  using assms
proof (induction xs arbitrary: k)
  case (Cons x xs)
  from Cons.prems obtain k1 where "put x k = (Inr (), k1)" "put_all put xs k1 = (Inr (), k')"
    by (auto split: prod.splits sum.splits)
  with Cons.IH Cons.prems(2) get_enc[of x k k1 "concat (map enc xs) @ rest" s]
  show ?case by simp
qed simp

text \<open>Everything written to a fresh sink is read back in order, with the rest of the stream untouched.\<close>

lemma channel_roundtrip:
  assumes "put_all put xs k = (Inr (), k')" "snk_sent k = []" "\<forall>x \<in> set xs. good x"
  shows "get_many get (length xs) (s\<lparr>src_bytes := snk_sent k' @ rest\<rparr>) = Inr (xs, s\<lparr>src_bytes := rest\<rparr>)"
  using get_put_all[OF assms(1,3)] put_all_sent[OF assms(1)] assms(2) by simp

text \<open>A writer that fails has sent the complete encodings of a prefix of the messages and part of the next.\<close>

lemma put_all_partial:
  assumes "put_all put xs k = (Inl e, k')"
  shows "\<exists>m n. m < length xs \<and> n \<le> length (enc (xs ! m))
    \<and> snk_sent k' = snk_sent k @ concat (map enc (take m xs)) @ take n (enc (xs ! m))"
  using assms
proof (induction xs arbitrary: k)
  case (Cons x xs)
  show ?case
  proof (cases "put x k")
    case (Pair r k1)
    show ?thesis
    proof (cases r)
      case (Inl e1)
      with Pair Cons.prems obtain n where "n \<le> length (enc x)" "snk_sent k' = snk_sent k @ take n (enc x)"
        using put_prefix[of x k e1 k1] by auto
      then show ?thesis by (intro exI[of _ 0] exI[of _ n]) simp
    next
      case (Inr u)
      with Pair Cons.prems have "put_all put xs k1 = (Inl e, k')" by simp
      from Cons.IH[OF this] obtain m n where mn: "m < length xs" "n \<le> length (enc (xs ! m))"
        "snk_sent k' = snk_sent k1 @ concat (map enc (take m xs)) @ take n (enc (xs ! m))"
        by blast
      have "snk_sent k1 = snk_sent k @ enc x" using put_ok Pair Inr by (cases u) auto
      with mn show ?thesis by (intro exI[of _ "Suc m"] exI[of _ n]) simp
    qed
  qed
qed simp

end

section \<open>Both codecs are framed channels\<close>

lemma length_be_bytes [simp]: "length (be_bytes n v) = n"
  by (induction n arbitrary: v) simp_all

lemma foldl_be: "foldl (\<lambda>n b. n * 256 + unat (b :: u8)) a bs = a * 256 ^ length bs + be_value bs"
proof (induction bs arbitrary: a)
  case (Cons b bs)
  show ?case
    using Cons.IH[of "a * 256 + unat b"] Cons.IH[of "unat b"]
    by (simp add: be_value_def algebra_simps)
qed (simp add: be_value_def)

lemma be_value_bytes: "v < 256 ^ n \<Longrightarrow> be_value (be_bytes n v) = v"
proof (induction n arbitrary: v)
  case (Suc n)
  have "v div 256 ^ n < 256" using Suc.prems by (simp add: less_mult_imp_div_less)
  then have "unat (of_nat (v div 256 ^ n) :: u8) = v div 256 ^ n"
    by (simp add: unat_of_nat)
  moreover have "be_value (be_bytes n (v mod 256 ^ n)) = v mod 256 ^ n"
    by (rule Suc.IH) simp
  moreover have "be_value (b # bs) = unat b * 256 ^ length bs + be_value bs" for b and bs :: bytes
    using foldl_be[of "unat b" bs] by (simp add: be_value_def)
  ultimately show ?case by (simp add: div_mult_mod_eq)
qed (simp add: be_value_def)

lemma be_value_less: "be_value bs < 256 ^ length bs"
proof (induction bs rule: rev_induct)
  case (snoc b bs)
  have "unat b < 256" using unsigned_less[of b, where ?'a = nat] by simp
  with snoc show ?case by (simp add: be_value_def)
qed (simp add: be_value_def)

lemma read_exact_append [simp]:
  "length bs = n \<Longrightarrow> read_exact n (s\<lparr>src_bytes := bs @ rest\<rparr>) = Inr (bs, s\<lparr>src_bytes := rest\<rparr>)"
  by (simp add: read_exact_def)

lemma read_be_bytes [simp]:
  "v < 256 ^ n \<Longrightarrow> read_be n (s\<lparr>src_bytes := be_bytes n v @ rest\<rparr>) = Inr (v, s\<lparr>src_bytes := rest\<rparr>)"
  by (simp add: read_be_def be_value_bytes)

lemma io_res_simps [simp]: "io_res (Inr x) = Inr x" "io_res (Inl e) = Inl (Io e)"
  by (simp_all add: io_res_def)

lemma write_parts_ok:
  "write_parts n p k = (Inr (), k') \<Longrightarrow> snk_sent k' = snk_sent k @ be_bytes n (length p) @ p"
  by (auto simp: write_parts_def write_all_def split: if_splits)

lemma write_parts_prefix:
  "write_parts n p k = (Inl e, k') \<Longrightarrow>
     \<exists>m \<le> n + length p. snk_sent k' = snk_sent k @ take m (be_bytes n (length p) @ p)"
  by (auto simp: write_parts_def write_all_def split: if_splits
      intro!: exI[of _ "snk_room k"])

definition frame_enc :: "('a \<Rightarrow> bytes option) \<Rightarrow> 'a \<Rightarrow> bytes" where
  "frame_enc to_vec x = (case to_vec x of None \<Rightarrow> [] | Some p \<Rightarrow> be_bytes 4 (length p) @ p)"

definition frame_good :: "('a \<Rightarrow> bytes option) \<Rightarrow> (bytes \<Rightarrow> 'a option) \<Rightarrow> 'a \<Rightarrow> bool" where
  "frame_good to_vec from_slice x = (Option.bind (to_vec x) from_slice = Some x)"

lemma write_frame_cases:
  assumes "write_frame to_vec x k = (r, k')" "to_vec x = Some p" "length p \<le> MAX_CONTROL_FRAME"
  shows "write_parts 4 p k = (r, k')"
  using assms by (simp add: write_frame_def try_from_len_def MAX_CONTROL_FRAME_def)

lemma write_frame_ok:
  assumes "write_frame to_vec x k = (Inr (), k')"
  shows "\<exists>p. to_vec x = Some p \<and> length p \<le> MAX_CONTROL_FRAME \<and> write_parts 4 p k = (Inr (), k')"
  using assms by (auto simp: write_frame_def split: option.splits if_splits)

lemma read_frame_bytes:
  assumes "length p \<le> MAX_CONTROL_FRAME" "from_slice p = Some x"
  shows "read_frame from_slice (s\<lparr>src_bytes := be_bytes 4 (length p) @ p @ rest\<rparr>) = Inr (x, s\<lparr>src_bytes := rest\<rparr>)"
proof -
  have "length p < 256 ^ 4" using assms(1) by (simp add: MAX_CONTROL_FRAME_def)
  with assms show ?thesis by (simp add: read_frame_def)
qed

interpretation frames: framed_channel "write_frame to_vec" "read_frame from_slice"
  "frame_enc to_vec" "frame_good to_vec from_slice" for to_vec from_slice
proof unfold_locales
  fix x k k'
  assume "write_frame to_vec x k = (Inr (), k')"
  from write_frame_ok[OF this] show "snk_sent k' = snk_sent k @ frame_enc to_vec x"
    by (auto simp: frame_enc_def dest!: write_parts_ok)
next
  fix x k e k'
  assume w: "write_frame to_vec x k = (Inl e, k')"
  then consider (none) "k' = k" | (some) p where "to_vec x = Some p" "write_parts 4 p k = (Inl e, k')"
    unfolding write_frame_def by (simp split: option.splits if_splits; metis)
  then show "\<exists>n \<le> length (frame_enc to_vec x). snk_sent k' = snk_sent k @ take n (frame_enc to_vec x)"
  proof cases
    case none
    then show ?thesis by (intro exI[of _ 0]) simp
  next
    case some
    with write_parts_prefix[OF some(2)] show ?thesis by (simp add: frame_enc_def)
  qed
next
  fix x k k' s rest
  assume g: "frame_good to_vec from_slice x" and "write_frame to_vec x k = (Inr (), k')"
  from write_frame_ok[OF this(2)] obtain p where "to_vec x = Some p" "length p \<le> MAX_CONTROL_FRAME"
    by (elim exE conjE)
  with g show "read_frame from_slice (s\<lparr>src_bytes := frame_enc to_vec x @ rest\<rparr>) = Inr (x, s\<lparr>src_bytes := rest\<rparr>)"
    by (simp add: frame_good_def frame_enc_def read_frame_bytes)
qed

text \<open>The datagram reader as a message reader: the payload is the buffer it leaves behind.\<close>

definition get_datagram :: "bytes \<Rightarrow> source \<Rightarrow> (TunnelError, bytes \<times> source) res" where
  "get_datagram buffer s =
     (case read_datagram s buffer of (Inl e, _) \<Rightarrow> Inl e | (Inr (len, s'), b) \<Rightarrow> Inr (b, s'))"

interpretation datagrams: framed_channel write_datagram "get_datagram buffer"
  "\<lambda>p. be_bytes 2 (length p) @ p" "\<lambda>_. True" for buffer
proof unfold_locales
  fix x k k'
  assume "write_datagram x k = (Inr (), k')"
  then show "snk_sent k' = snk_sent k @ be_bytes 2 (length x) @ x"
    by (auto simp: write_datagram_def dest!: write_parts_ok split: option.splits)
next
  fix x k e k'
  assume "write_datagram x k = (Inl e, k')"
  then consider "k' = k" | "write_parts 2 x k = (Inl e, k')"
    by (auto simp: write_datagram_def split: option.splits)
  then show "\<exists>n \<le> length (be_bytes 2 (length x) @ x). snk_sent k' = snk_sent k @ take n (be_bytes 2 (length x) @ x)"
  proof cases
    case 1
    then show ?thesis by (intro exI[of _ 0]) simp
  next
    case 2
    from write_parts_prefix[OF 2] show ?thesis by simp
  qed
next
  fix x k k' s rest
  assume "write_datagram x k = (Inr (), k')"
  then have "length x < 256 ^ 2"
    by (auto simp: write_datagram_def try_from_len_def split: option.splits if_splits)
  then show "get_datagram buffer (s\<lparr>src_bytes := (be_bytes 2 (length x) @ x) @ rest\<rparr>) = Inr (x, s\<lparr>src_bytes := rest\<rparr>)"
    by (simp add: get_datagram_def read_datagram_def MAX_DATAGRAM_def)
qed

section \<open>Writing succeeds when the stream accepts the bytes\<close>

lemma write_parts_room:
  "n + length p \<le> snk_room k \<Longrightarrow>
     \<exists>k'. write_parts n p k = (Inr (), k') \<and> snk_room k' = snk_room k - (n + length p)"
  by (simp add: write_parts_def write_all_def)

lemma put_all_room:
  assumes "\<And>x k. x \<in> set xs \<Longrightarrow> cost x \<le> snk_room k \<Longrightarrow>
      \<exists>k'. put x k = (Inr (), k') \<and> snk_room k' = snk_room k - cost x"
    and "sum_list (map cost xs) \<le> snk_room k"
  shows "\<exists>k'. put_all put xs k = (Inr (), k')"
  using assms
proof (induction xs arbitrary: k)
  case (Cons x xs)
  obtain k1 where k1: "put x k = (Inr (), k1)" "snk_room k1 = snk_room k - cost x"
    using Cons.prems(1)[of x k] Cons.prems(2) by auto
  have "\<exists>k'. put_all put xs k1 = (Inr (), k')"
    by (rule Cons.IH) (use Cons.prems k1 in auto)
  with k1 show ?case by simp
qed simp

definition frame_fits :: "('a \<Rightarrow> bytes option) \<Rightarrow> 'a \<Rightarrow> bool" where
  "frame_fits to_vec x = (case to_vec x of None \<Rightarrow> False | Some p \<Rightarrow> length p \<le> MAX_CONTROL_FRAME)"

lemma write_frame_room:
  assumes "frame_fits to_vec x" "length (frame_enc to_vec x) \<le> snk_room k"
  shows "\<exists>k'. write_frame to_vec x k = (Inr (), k') \<and> snk_room k' = snk_room k - length (frame_enc to_vec x)"
proof -
  obtain p where p: "to_vec x = Some p" "length p \<le> MAX_CONTROL_FRAME"
    using assms(1) by (auto simp: frame_fits_def split: option.splits)
  then have "write_frame to_vec x k = write_parts 4 p k"
    by (simp add: write_frame_def try_from_len_def MAX_CONTROL_FRAME_def)
  with write_parts_room[of 4 p k] p assms(2) show ?thesis by (simp add: frame_enc_def)
qed

lemma write_datagram_room:
  assumes "length p \<le> MAX_DATAGRAM" "2 + length p \<le> snk_room k"
  shows "\<exists>k'. write_datagram p k = (Inr (), k') \<and> snk_room k' = snk_room k - (2 + length p)"
  using write_parts_room[of 2 p k] assms by (simp add: write_datagram_def try_from_len_def MAX_DATAGRAM_def)

section \<open>Properties\<close>

text \<open>
  C8: The control connection delivers its messages. Messages that serialise to at most 256 KiB
  each are all written when the stream accepts their bytes, and the reader then obtains the
  same messages in the same order and stops exactly where they end.
\<close>

theorem control_channel_roundtrip:
  assumes serde: "\<And>m p. to_vec m = Some p \<Longrightarrow> from_slice p = Some m"
    and fits: "\<forall>m \<in> set ms. frame_fits to_vec m"
    and room: "(\<Sum>m \<leftarrow> ms. length (frame_enc to_vec m)) \<le> snk_room k"
    and fresh: "snk_sent k = []"
  shows "\<exists>k'. put_all (write_frame to_vec) ms k = (Inr (), k')
    \<and> get_many (read_frame from_slice) (length ms) \<lparr>src_bytes = snk_sent k' @ rest, src_end = e\<rparr>
        = Inr (ms, \<lparr>src_bytes = rest, src_end = e\<rparr>)"
proof -
  have "\<exists>k'. put_all (write_frame to_vec) ms k = (Inr (), k')"
    by (rule put_all_room[OF write_frame_room room]) (use fits in blast)+
  then obtain k' where k': "put_all (write_frame to_vec) ms k = (Inr (), k')" ..
  have "frame_good to_vec from_slice m" if "m \<in> set ms" for m
    using fits that serde by (auto simp: frame_fits_def frame_good_def split: option.splits)
  with frames.channel_roundtrip[OF k' fresh, where s = "\<lparr>src_bytes = [], src_end = e\<rparr>" and rest = rest]
  show ?thesis using k' by auto
qed

theorem control_channel_roundtrip_witness:
  "\<exists>k'. put_all (write_frame Some) [[1, 2], [3]] \<lparr>snk_sent = [], snk_room = 20, snk_error = UnexpectedEof\<rparr> = (Inr (), k')
    \<and> get_many (read_frame Some) 2 \<lparr>src_bytes = snk_sent k' @ [9], src_end = UnexpectedEof\<rparr>
        = Inr ([[1, 2], [3]], \<lparr>src_bytes = [9], src_end = UnexpectedEof\<rparr>)"
  using control_channel_roundtrip[of Some Some "[[1, 2], [3]]"
      "\<lparr>snk_sent = [], snk_room = 20, snk_error = UnexpectedEof\<rparr>" "[9]" UnexpectedEof]
  by (simp add: frame_fits_def frame_enc_def MAX_CONTROL_FRAME_def numeral_2_eq_2 del: get_many.simps put_all.simps)

text \<open>
  C9: Datagram boundaries survive the tunnel. Payloads of at most 65535 bytes are all written
  when the stream accepts them, each is read back with its own boundary whatever the reused
  buffer held before, a longer payload is refused before a byte is sent, and the reader's
  length check is never the reason of a failure: a 16-bit length cannot exceed the limit.
\<close>

theorem datagram_roundtrip:
  assumes "\<forall>p \<in> set ps. length p \<le> 65535"
    and "(\<Sum>p \<leftarrow> ps. 2 + length p) \<le> snk_room k" and "snk_sent k = []"
  shows "(\<exists>k'. put_all write_datagram ps k = (Inr (), k')
      \<and> get_many (get_datagram buffer) (length ps) \<lparr>src_bytes = snk_sent k' @ rest, src_end = e\<rparr>
          = Inr (ps, \<lparr>src_bytes = rest, src_end = e\<rparr>))
    \<and> (\<forall>p. 65535 < length p \<longrightarrow> (\<exists>msg. write_datagram p k = (Inl (Protocol msg), k)))
    \<and> (\<forall>s msg. fst (read_datagram s buffer) \<noteq> Inl (Protocol msg))"
proof (intro conjI)
  have "\<exists>k'. put_all write_datagram ps k = (Inr (), k')"
    by (rule put_all_room[OF write_datagram_room assms(2)]) (use assms(1) in \<open>simp_all add: MAX_DATAGRAM_def\<close>)
  then obtain k' where k': "put_all write_datagram ps k = (Inr (), k')" ..
  from datagrams.channel_roundtrip[OF k' assms(3), where s = "\<lparr>src_bytes = [], src_end = e\<rparr>" and rest = rest] k'
  show "\<exists>k'. put_all write_datagram ps k = (Inr (), k')
      \<and> get_many (get_datagram buffer) (length ps) \<lparr>src_bytes = snk_sent k' @ rest, src_end = e\<rparr>
          = Inr (ps, \<lparr>src_bytes = rest, src_end = e\<rparr>)"
    by auto
  show "\<forall>p. 65535 < length p \<longrightarrow> (\<exists>msg. write_datagram p k = (Inl (Protocol msg), k))"
    by (simp add: write_datagram_def try_from_len_def)
  have "len \<le> MAX_DATAGRAM" if "read_be 2 s = Inr (len, s')" for s s' :: source and len
    using that be_value_less[of "take 2 (src_bytes s)"]
    by (auto simp: read_be_def read_exact_def MAX_DATAGRAM_def min_def split: if_splits)
  then show "\<forall>s msg. fst (read_datagram s buffer) \<noteq> Inl (Protocol msg)"
    by (fastforce simp: read_datagram_def Let_def split: sum.splits if_splits)
qed

theorem datagram_roundtrip_witness:
  "(\<exists>k'. put_all write_datagram [[7, 8], []] \<lparr>snk_sent = [], snk_room = 9, snk_error = UnexpectedEof\<rparr> = (Inr (), k')
      \<and> get_many (get_datagram [1, 1, 1]) 2 \<lparr>src_bytes = snk_sent k' @ [5], src_end = UnexpectedEof\<rparr>
          = Inr ([[7, 8], []], \<lparr>src_bytes = [5], src_end = UnexpectedEof\<rparr>))"
  using datagram_roundtrip[of "[[7, 8], []]" "\<lparr>snk_sent = [], snk_room = 9, snk_error = UnexpectedEof\<rparr>"
      "[1, 1, 1]" "[5]" UnexpectedEof]
  by (simp add: numeral_2_eq_2 del: get_many.simps put_all.simps)

section \<open>Declarations and local targets\<close>

lemma fold_declarations:
  "is_ok (res_fold validate_declaration ss names) \<longleftrightarrow>
     (\<forall>s \<in> set ss. valid_name (sd_name s) \<and> sd_name s \<notin> names) \<and> distinct (map sd_name ss)"
proof (induction ss arbitrary: names)
  case (Cons s ss)
  show ?case
  proof (cases "valid_name (sd_name s) \<and> sd_name s \<notin> names")
    case True
    then have "validate_declaration s names = Inr (insert (sd_name s) names)"
      by (auto simp: validate_declaration_def valid_name_def)
    with True Cons.IH[of "insert (sd_name s) names"] show ?thesis by (auto 4 3 simp: image_iff)
  next
    case False
    then have "\<not> is_ok (validate_declaration s names)"
      by (auto simp: validate_declaration_def valid_name_def not_less_eq_eq Suc_le_eq)
    with False show ?thesis by (auto simp: is_ok_iff res_simps)
  qed
qed simp

lemma validate_declarations_ok:
  "validate_declarations ss = Inr () \<longleftrightarrow>
     length ss \<le> 256 \<and> list_all (\<lambda>s. valid_name (sd_name s)) ss \<and> distinct (map sd_name ss)"
  using fold_declarations[of ss "{}"]
  by (auto simp: validate_declarations_def res_simps is_ok_iff MAX_CLIENT_SERVICES_def not_less list_all_iff)

text \<open>
  The server accepts a list of declared services exactly when it has at most 256 entries
  with pairwise distinct valid names; a rejection is a protocol error.
\<close>

theorem validate_declarations_iff:
  "(validate_declarations ss = Inr () \<longleftrightarrow>
      length ss \<le> 256 \<and> list_all (\<lambda>s. valid_name (sd_name s)) ss \<and> distinct (map sd_name ss))
   \<and> (validate_declarations ss = Inr () \<or> (\<exists>msg. validate_declarations ss = Inl (Protocol msg)))"
proof
  show "validate_declarations ss = Inr () \<longleftrightarrow>
      length ss \<le> 256 \<and> list_all (\<lambda>s. valid_name (sd_name s)) ss \<and> distinct (map sd_name ss)"
    by (rule validate_declarations_ok)
  have "r = Inr () \<or> (\<exists>msg. r = Inl (Protocol msg))"
    if "r = res_bind (res_fold validate_declaration ss names) (\<lambda>_. Inr ())" for names r
    using that
  proof (induction ss arbitrary: names)
    case (Cons s ss)
    then show ?case by (auto simp: validate_declaration_def split: if_splits)
  qed simp
  then show "validate_declarations ss = Inr () \<or> (\<exists>msg. validate_declarations ss = Inl (Protocol msg))"
    by (auto simp: validate_declarations_def reject_if_def)
qed

lemma address_host_bracketed:
  assumes "CHR '']'' \<notin> set h"
  shows "address_host (''['' @ h @ '']'' @ r) = Some h"
proof -
  have "split_once CHR '']'' (h @ '']'' @ r) = Some (h, r)"
    using assms by (simp add: split_once_Some_iff)
  then show ?thesis by (simp add: address_host_def strip_prefix_def)
qed

lemma address_host_plain:
  assumes "h \<noteq> []" "CHR ''['' \<notin> set h" "CHR '':'' \<notin> set h" "p \<noteq> []" "CHR '':'' \<notin> set p"
  shows "address_host (h @ '':'' @ p) = Some h"
proof -
  have "rsplit_once CHR '':'' (h @ '':'' @ p) = Some (h, p)"
    using assms by (simp add: rsplit_once_Some_iff)
  moreover have "strip_prefix ''['' (h @ '':'' @ p) = None"
    using assms(1,2) by (cases h) (auto simp: strip_prefix_def)
  ultimately show ?thesis using assms by (simp add: address_host_def)
qed

text \<open>
  The target a client connects to for an accepted TCP or UDP tunnel names the configured
  local address and port: the host part of the target is the tunnel's \<open>local_ip\<close> (with the
  brackets of an IPv6 address taken off) and the text after it is the decimal port. A SOCKS5
  tunnel has no target.
\<close>

theorem local_target_host:
  assumes "valid_tunnel t"
    and ct: "ct = \<lparr>ct_name = t_name t, ct_kind = t_kind t, ct_server_port = sock_port (t_bind t),
                   ct_local_ip = client_local_ip t, ct_local_port = client_local_port t, ct_state = st\<rparr>"
    and port: "port = (case t_local_port t of None \<Rightarrow> sock_port (t_bind t) | Some p \<Rightarrow> p)"
  shows "if t_kind t = Socks5 then local_target ct = None
    else \<exists>target h. local_target ct = Some target \<and> address_host target = Some (t_local_ip t)
       \<and> target = h @ '':'' @ show_nat (unat port) \<and> (h = t_local_ip t \<or> h = ''['' @ t_local_ip t @ '']'')"
proof (cases "t_kind t = Socks5")
  case False
  let ?ip = "t_local_ip t" and ?p = "show_nat (unat port)"
  have ip: "?ip = ''localhost'' \<or> parse_ip ?ip \<noteq> None" using assms(1) False by (simp add: valid_tunnel_def)
  have fields: "ct_local_ip ct = Some ?ip" "ct_local_port ct = Some port" "ct_kind ct = t_kind t"
    using False by (cases "t_kind t"; simp add: ct port client_local_ip_def client_local_port_def)+
  have "\<exists>target h. local_target ct = Some target \<and> address_host target = Some ?ip
       \<and> target = h @ '':'' @ ?p \<and> (h = ?ip \<or> h = ''['' @ ?ip @ '']'')"
  proof (cases "parse_ipv6 ?ip")
    case None
    have "?ip \<noteq> [] \<and> CHR ''['' \<notin> set ?ip \<and> CHR '':'' \<notin> set ?ip"
    proof (cases "?ip = ''localhost''")
      case False
      with ip None parse_ip_not_v6[of ?ip] show ?thesis by (auto simp: is_ascii_digit_def)
    qed simp
    then have "address_host (?ip @ '':'' @ ?p) = Some ?ip"
      by (intro address_host_plain) (simp_all add: show_nat_no_colon)
    with None fields False show ?thesis by (simp add: local_target_def)
  next
    case (Some a)
    then have "CHR '']'' \<notin> set ?ip" using parse_ipv6_chars[of ?ip] bracket_not_ip_char by auto
    then have "address_host (''['' @ ?ip @ '']'' @ '':'' @ ?p) = Some ?ip" by (rule address_host_bracketed)
    with Some fields False show ?thesis
      by (intro exI[of _ "''['' @ ?ip @ '']'' @ '':'' @ ?p"] exI[of _ "''['' @ ?ip @ '']''"])
        (simp add: local_target_def)
  qed
  with False show ?thesis by simp
qed (simp add: ct local_target_def)

definition sample_tunnel :: ServerTunnelConfig where
  "sample_tunnel =
     \<lparr>t_name = ''web'', t_group = ''team'', t_kind = Tcp, t_bind = SocketAddrV4 0 8080,
      t_local_ip = ''localhost'', t_local_port = None, t_limit_bps = None, t_max_connections = 128,
      t_max_udp_sessions = 128, t_udp_idle_seconds = 60\<rparr>"

lemma sample_tunnel_valid: "valid_tunnel sample_tunnel"
  by (simp add: sample_tunnel_def valid_tunnel_def valid_name_def name_byte_def is_ascii_alphanumeric_def
      is_ascii_digit_def is_ascii_upper_def is_ascii_lower_def in_range_def)

theorem local_target_host_witness:
  "\<exists>target h. local_target \<lparr>ct_name = ''web'', ct_kind = Tcp, ct_server_port = 8080,
        ct_local_ip = Some ''localhost'', ct_local_port = Some 8080, ct_state = Idle\<rparr> = Some target
     \<and> address_host target = Some ''localhost'' \<and> target = h @ '':'' @ show_nat 8080"
  using local_target_host[OF sample_tunnel_valid refl refl, of Idle]
  by (simp add: sample_tunnel_def client_local_ip_def client_local_port_def) blast

section \<open>Abandoned reads\<close>

text \<open>
  The control loops of the server and of the client create a new \<open>read_frame\<close> future in every
  turn of their \<open>select!\<close> and drop it when another branch is taken. \<open>read_exact\<close> keeps the bytes
  it has taken in the future, so a future that is dropped after \<open>n\<close> bytes leaves the stream at
  \<open>abandon_read n\<close>.
\<close>

definition abandon_read :: "nat \<Rightarrow> source \<Rightarrow> source" where
  "abandon_read n s = s\<lparr>src_bytes := drop n (src_bytes s)\<rparr>"

text \<open>
  When the length of a frame has been taken and the read is then abandoned, the next read takes
  the payload for a length and fails: the first byte of a JSON text is not zero, so the length it
  reads is over the limit.
\<close>

lemma abandoned_read_fails:
  assumes "4 \<le> length p" "hd p \<noteq> 0"
  shows "\<exists>msg. read_frame from_slice (abandon_read 4 \<lparr>src_bytes = be_bytes 4 (length p) @ p @ rest, src_end = e\<rparr>)
    = Inl (Protocol msg)"
proof -
  obtain b q where p: "p = b # q" "b \<noteq> 0" "3 \<le> length q" using assms by (cases p) auto
  have take4: "take 4 (p @ rest) = b # take 3 q" using p by (simp add: numeral_eq_Suc)
  have "be_value (b # take 3 q) = unat b * 256 ^ 3 + be_value (take 3 q)"
    using foldl_be[of "unat b" "take 3 q"] p(3) by (simp add: be_value_def min_def)
  moreover have "1 \<le> unat b" using p(2) by (simp add: Suc_le_eq unat_gt_0)
  ultimately have "MAX_CONTROL_FRAME < be_value (b # take 3 q)" by (simp add: MAX_CONTROL_FRAME_def)
  then show ?thesis
    using assms(1) take4 by (simp add: read_frame_def abandon_read_def read_be_def read_exact_def)
qed

end
