(* ===== verification/Tunnel_Runtime.thy ===== *)
theory Tunnel_Runtime
  imports Protocol
begin

text \<open>
  \<open>gaterust-tunnel/src/runtime.rs\<close>: the registry of online clients, tunnels and tunnel owners
  shared by the listeners, the control sessions and the administration API. Every operation
  takes the state's write lock, so one operation is one step of the transition system
  \<open>rt_step\<close> and an execution is a sequence of steps. SHA-256, TOML and the clock are
  parameters. Effects on objects outside the state are recorded in the state: connections
  that were closed, with the close code, and cancellation tokens that were cancelled. A token is
  a number; \<open>CancellationToken::new()\<close> takes the next one.
\<close>

section \<open>State\<close>

definition MAX_ONLINE_CLIENTS :: nat where "MAX_ONLINE_CLIENTS = 128"

record Connection =
  cn_id :: nat
  cn_remote_address :: SocketAddr

record TunnelOwner =
  ow_session_id :: u64
  ow_shutdown :: nat

record SessionEntry =
  se_connection :: Connection
  se_device_id :: string
  se_group :: string
  se_credential_digest :: bytes
  se_remote_address :: SocketAddr
  se_connected_at :: u64
  se_services :: "(string, TunnelKind) hm"

record TunnelSpec =
  sp_group :: string
  sp_kind :: TunnelKind
  sp_bind :: SocketAddr
  sp_local_ip :: "string option"
  sp_local_port :: "u16 option"

record RuntimeState =
  credentials_of :: "(string, bytes) hm"
  sessions :: "(u64, SessionEntry) hm"
  tunnels :: "(string, TunnelSpec) hm"
  owners :: "(string, TunnelOwner) hm"

record ConfigApplyState =
  ca_fingerprint :: "bytes option"
  ca_revision :: u64
  ca_last_apply_error :: "string option"

record TunnelRuntime =
  rt_state :: RuntimeState
  rt_revision :: u64
  rt_config_status :: ConfigApplyState
  rt_tokens :: nat
  rt_cancelled :: "nat list"
  rt_closed :: "(Connection \<times> ApplicationCloseCode) list"

record ClientSession =
  cl_connection :: Connection
  cl_tunnel_shutdown :: nat

datatype TunnelDisconnectError = SessionNotFound | TunnelNotFound | NotOwnedBySession

datatype RegisterError = RegDeviceIdConflict | Capacity | CredentialsChanged

record ServiceUpdate =
  su_declared_services :: nat
  su_active_tunnels :: nat
  su_claimed_tunnels :: nat
  su_released_tunnels :: nat
  su_changed :: bool

record RuntimeClient =
  rc_session_id :: u64
  rc_device_id :: string
  rc_group :: string
  rc_remote_address :: SocketAddr
  rc_connected_at :: u64

record RuntimeTunnel =
  rtn_name :: string
  rtn_owner_session_id :: "u64 option"

record TunnelRuntimeSnapshot =
  sn_clients :: "RuntimeClient list"
  sn_tunnels :: "RuntimeTunnel list"
  sn_config_status :: ConfigApplyState

definition runtime_default :: TunnelRuntime where
  "runtime_default =
     \<lparr>rt_state = \<lparr>credentials_of = [], sessions = [], tunnels = [], owners = []\<rparr>,
      rt_revision = 0,
      rt_config_status = \<lparr>ca_fingerprint = None, ca_revision = 0, ca_last_apply_error = None\<rparr>,
      rt_tokens = 0, rt_cancelled = [], rt_closed = []\<rparr>"

section \<open>Helpers on the state\<close>

definition notify :: "TunnelRuntime \<Rightarrow> TunnelRuntime" where
  "notify rt = rt\<lparr>rt_revision := rt_revision rt + 1\<rparr>"

definition service_map :: "ServiceDeclaration list \<Rightarrow> (string, TunnelKind) hm" where
  "service_map ss = hm_collect (map (\<lambda>s. (sd_name s, sd_kind s)) ss)"

definition eligible :: "SessionEntry \<Rightarrow> string \<Rightarrow> TunnelSpec \<Rightarrow> bool" where
  "eligible se tunnel spec =
     (se_group se = sp_group spec \<and> hm_get (se_services se) tunnel = Some (sp_kind spec))"

definition retain_valid_owners :: "RuntimeState \<Rightarrow> RuntimeState" where
  "retain_valid_owners st =
     st\<lparr>owners := hm_retain (\<lambda>name owner.
          (case hm_get (tunnels st) name of
             None \<Rightarrow> False
           | Some spec \<Rightarrow>
               (case hm_get (sessions st) (ow_session_id owner) of
                  None \<Rightarrow> False
                | Some se \<Rightarrow> eligible se name spec))) (owners st)\<rparr>"

definition release_session :: "u64 \<Rightarrow> RuntimeState \<Rightarrow> RuntimeState" where
  "release_session sid st = st\<lparr>owners := hm_retain (\<lambda>_ owner. ow_session_id owner \<noteq> sid) (owners st)\<rparr>"

definition owned_tunnels :: "RuntimeState \<Rightarrow> u64 \<Rightarrow> string list" where
  "owned_tunnels st sid = map fst (filter (\<lambda>(_, owner). ow_session_id owner = sid) (owners st))"

definition available_for :: "RuntimeState \<Rightarrow> SessionEntry \<Rightarrow> string list" where
  "available_for st se =
     map fst (filter (\<lambda>(name, spec). \<not> hm_contains (owners st) name \<and> eligible se name spec) (tunnels st))"

text \<open>\<open>claim_available\<close>; the second component is the next unused cancellation token.\<close>

definition claim_one :: "u64 \<Rightarrow> string \<Rightarrow> RuntimeState \<times> nat \<Rightarrow> RuntimeState \<times> nat" where
  "claim_one sid name st_tk =
     (case st_tk of (st, tk) \<Rightarrow>
        (st\<lparr>owners := hm_insert name \<lparr>ow_session_id = sid, ow_shutdown = tk\<rparr> (owners st)\<rparr>, Suc tk))"

definition claim_available :: "u64 \<Rightarrow> RuntimeState \<times> nat \<Rightarrow> RuntimeState \<times> nat" where
  "claim_available sid st_tk =
     (case hm_get (sessions (fst st_tk)) sid of
        None \<Rightarrow> st_tk
      | Some se \<Rightarrow> fold (claim_one sid) (available_for (fst st_tk) se) st_tk)"

text \<open>\<open>HashMap\<close>'s \<open>PartialEq\<close> on service maps.\<close>

definition hm_eq :: "('k, 'v) hm \<Rightarrow> ('k, 'v) hm \<Rightarrow> bool" where
  "hm_eq m n = (length m = length n \<and> list_all (\<lambda>(k, v). hm_get n k = Some v) m)"

section \<open>Operations\<close>

definition snapshot :: "TunnelRuntime \<Rightarrow> TunnelRuntimeSnapshot" where
  "snapshot rt =
     (let st = rt_state rt in
      \<lparr>sn_clients = sort_key rc_session_id
         (map (\<lambda>(sid, se). \<lparr>rc_session_id = sid, rc_device_id = se_device_id se, rc_group = se_group se,
                             rc_remote_address = se_remote_address se, rc_connected_at = se_connected_at se\<rparr>)
           (sessions st)),
       sn_tunnels = sort_key rtn_name
         (map (\<lambda>name. \<lparr>rtn_name = name,
                        rtn_owner_session_id = map_option ow_session_id (hm_get (owners st) name)\<rparr>)
           (hm_keys (tunnels st))),
       sn_config_status = rt_config_status rt\<rparr>)"

definition disconnect :: "u64 \<Rightarrow> TunnelRuntime \<Rightarrow> bool \<times> TunnelRuntime" where
  "disconnect sid rt =
     (let st = rt_state rt in
      case hm_get (sessions st) sid of
        None \<Rightarrow> (False, rt)
      | Some se \<Rightarrow>
          (let st1 = release_session sid (st\<lparr>sessions := hm_remove sid (sessions st)\<rparr>);
               rt1 = notify (rt\<lparr>rt_state := st1\<rparr>)
           in (True, rt1\<lparr>rt_closed := rt_closed rt1 @ [(se_connection se, AdministratorDisconnect)]\<rparr>)))"

definition disconnect_tunnel ::
  "u64 \<Rightarrow> string \<Rightarrow> TunnelRuntime \<Rightarrow> (TunnelDisconnectError, unit) res \<times> TunnelRuntime" where
  "disconnect_tunnel sid tunnel rt =
     (let st = rt_state rt in
      if \<not> hm_contains (sessions st) sid then (Inl SessionNotFound, rt)
      else if \<not> hm_contains (tunnels st) tunnel then (Inl TunnelNotFound, rt)
      else if (case hm_get (owners st) tunnel of None \<Rightarrow> True | Some owner \<Rightarrow> ow_session_id owner \<noteq> sid)
      then (Inl NotOwnedBySession, rt)
      else case hm_get (sessions st) sid of
        None \<Rightarrow> (Inl SessionNotFound, rt)
      | Some se \<Rightarrow>
          (let st1 = st\<lparr>sessions := hm_insert sid (se\<lparr>se_services := hm_remove tunnel (se_services se)\<rparr>) (sessions st)\<rparr>
           in case hm_get (owners st1) tunnel of
                None \<Rightarrow> (Inl NotOwnedBySession, rt\<lparr>rt_state := st1\<rparr>)
              | Some owner \<Rightarrow>
                  (let rt1 = rt\<lparr>rt_state := st1\<lparr>owners := hm_remove tunnel (owners st1)\<rparr>\<rparr>
                   in (Inr (), notify (rt1\<lparr>rt_cancelled := rt_cancelled rt1 @ [ow_shutdown owner]\<rparr>)))))"

definition tunnel_spec :: "ServerTunnelConfig \<Rightarrow> TunnelSpec" where
  "tunnel_spec t =
     \<lparr>sp_group = t_group t, sp_kind = t_kind t, sp_bind = t_bind t,
      sp_local_ip = client_local_ip t, sp_local_port = client_local_port t\<rparr>"

definition apply_tunnels :: "ServerTunnelConfig list \<Rightarrow> TunnelRuntime \<Rightarrow> TunnelRuntime" where
  "apply_tunnels configs rt =
     notify (rt\<lparr>rt_state := retain_valid_owners
       ((rt_state rt)\<lparr>tunnels := hm_collect (map (\<lambda>t. (t_name t, tunnel_spec t)) configs)\<rparr>)\<rparr>)"

text \<open>The loop over the revoked sessions: the remaining state and the connections to close.\<close>

definition revoke_one :: "u64 \<Rightarrow> RuntimeState \<times> Connection list \<Rightarrow> RuntimeState \<times> Connection list" where
  "revoke_one sid st_cs =
     (case st_cs of (st, cs) \<Rightarrow>
        (case hm_get (sessions st) sid of
           None \<Rightarrow> (st, cs)
         | Some se \<Rightarrow>
             (release_session sid (st\<lparr>sessions := hm_remove sid (sessions st)\<rparr>), cs @ [se_connection se])))"

definition revoked_ids :: "RuntimeState \<Rightarrow> u64 list" where
  "revoked_ids st =
     map fst (filter (\<lambda>(_, se). hm_get (credentials_of st) (se_group se) \<noteq> Some (se_credential_digest se))
               (sessions st))"

definition apply_credentials ::
  "(bytes \<Rightarrow> bytes) \<Rightarrow> (string \<times> bytes) list \<Rightarrow> TunnelRuntime \<Rightarrow> TunnelRuntime" where
  "apply_credentials sha256 creds rt =
     (let st = (rt_state rt)\<lparr>credentials_of := hm_collect (map (\<lambda>(name, secret). (name, sha256 secret)) creds)\<rparr>;
          (st1, connections) = fold revoke_one (revoked_ids st) (st, []);
          rt1 = rt\<lparr>rt_state := st1\<rparr>
      in if connections = [] then rt1
         else (let rt2 = notify rt1
               in rt2\<lparr>rt_closed := rt_closed rt2 @ map (\<lambda>c. (c, CredentialsRevoked)) connections\<rparr>))"

definition register ::
  "u64 \<Rightarrow> string \<Rightarrow> string \<Rightarrow> bytes \<Rightarrow> Connection \<Rightarrow> u64 \<Rightarrow> ServiceDeclaration list \<Rightarrow> TunnelRuntime
   \<Rightarrow> (RegisterError, unit) res \<times> TunnelRuntime" where
  "register sid device_id grp digest connection now services rt =
     (let st = rt_state rt in
      if length (sessions st) \<ge> MAX_ONLINE_CLIENTS then (Inl Capacity, rt)
      else if hm_get (credentials_of st) grp \<noteq> Some digest then (Inl CredentialsChanged, rt)
      else if list_ex (\<lambda>se. se_device_id se = device_id) (hm_values (sessions st))
      then (Inl RegDeviceIdConflict, rt)
      else (let se = \<lparr>se_connection = connection, se_device_id = device_id, se_group = grp,
                      se_credential_digest = digest, se_remote_address = cn_remote_address connection,
                      se_connected_at = now, se_services = service_map services\<rparr>;
                (st1, tk) = claim_available sid (st\<lparr>sessions := hm_insert sid se (sessions st)\<rparr>, rt_tokens rt)
            in (Inr (), notify (rt\<lparr>rt_state := st1, rt_tokens := tk\<rparr>))))"

definition update_services ::
  "u64 \<Rightarrow> ServiceDeclaration list \<Rightarrow> TunnelRuntime \<Rightarrow> ServiceUpdate option \<times> TunnelRuntime" where
  "update_services sid services rt =
     (let st = rt_state rt in
      case hm_get (sessions st) sid of
        None \<Rightarrow> (None, rt)
      | Some se \<Rightarrow>
          (let previously_owned = owned_tunnels st sid;
               new = service_map services;
               declarations_changed = (\<not> hm_eq (se_services se) new);
               st1 = st\<lparr>sessions := hm_insert sid (se\<lparr>se_services := new\<rparr>) (sessions st)\<rparr>;
               (st2, tk) = claim_available sid (retain_valid_owners st1, rt_tokens rt);
               currently_owned = owned_tunnels st2 sid;
               claimed = length (filter (\<lambda>n. n \<notin> set previously_owned) currently_owned);
               released = length (filter (\<lambda>n. n \<notin> set currently_owned) previously_owned);
               changed = (declarations_changed \<or> claimed \<noteq> 0 \<or> released \<noteq> 0);
               rt1 = rt\<lparr>rt_state := st2, rt_tokens := tk\<rparr>
           in (Some \<lparr>su_declared_services = length new, su_active_tunnels = length currently_owned,
                     su_claimed_tunnels = claimed, su_released_tunnels = released, su_changed = changed\<rparr>,
               if changed then notify rt1 else rt1)))"

definition unregister :: "u64 \<Rightarrow> TunnelRuntime \<Rightarrow> TunnelRuntime" where
  "unregister sid rt =
     (let st = rt_state rt in
      if \<not> hm_contains (sessions st) sid then rt
      else notify (rt\<lparr>rt_state := release_session sid (st\<lparr>sessions := hm_remove sid (sessions st)\<rparr>)\<rparr>))"

definition find_tunnel :: "TunnelRuntime \<Rightarrow> string \<Rightarrow> ClientSession option" where
  "find_tunnel rt tunnel =
     (case hm_get (owners (rt_state rt)) tunnel of
        None \<Rightarrow> None
      | Some owner \<Rightarrow>
          map_option (\<lambda>se. \<lparr>cl_connection = se_connection se, cl_tunnel_shutdown = ow_shutdown owner\<rparr>)
            (hm_get (sessions (rt_state rt)) (ow_session_id owner)))"

definition catalog_entry :: "RuntimeState \<Rightarrow> u64 \<Rightarrow> string \<times> TunnelSpec \<Rightarrow> ClientTunnel" where
  "catalog_entry st sid e =
     (case e of (name, spec) \<Rightarrow>
       \<lparr>ct_name = name, ct_kind = sp_kind spec, ct_server_port = sock_port (sp_bind spec),
        ct_local_ip = sp_local_ip spec, ct_local_port = sp_local_port spec,
        ct_state = (case hm_get (owners st) name of
                      None \<Rightarrow> Idle
                    | Some owner \<Rightarrow> if ow_session_id owner = sid then Enabled else Occupied)\<rparr>)"

definition catalog :: "TunnelRuntime \<Rightarrow> u64 \<Rightarrow> ClientTunnel list" where
  "catalog rt sid =
     (let st = rt_state rt in
      case hm_get (sessions st) sid of
        None \<Rightarrow> []
      | Some se \<Rightarrow>
          sort_key ct_name
            (map (catalog_entry st sid) (filter (\<lambda>(_, spec). sp_group spec = se_group se) (tunnels st))))"

section \<open>Configuration status\<close>

definition config_fingerprint ::
  "(bytes \<Rightarrow> bytes) \<Rightarrow> (ServerConfig \<Rightarrow> string option) \<Rightarrow> ServerConfig \<Rightarrow> (TunnelError, bytes) res" where
  "config_fingerprint sha256 to_toml c =
     (case to_toml c of None \<Rightarrow> Inl ConfigFingerprint | Some s \<Rightarrow> Inr (sha256 (str_bytes s)))"

definition publish_config_status :: "bytes \<Rightarrow> string option \<Rightarrow> TunnelRuntime \<Rightarrow> TunnelRuntime" where
  "publish_config_status fingerprint err rt =
     rt\<lparr>rt_config_status := \<lparr>ca_fingerprint = Some fingerprint,
          ca_revision = ca_revision (rt_config_status rt) + 1, ca_last_apply_error = err\<rparr>\<rparr>"

definition report_config_applied ::
  "(bytes \<Rightarrow> bytes) \<Rightarrow> (ServerConfig \<Rightarrow> string option) \<Rightarrow> ServerConfig \<Rightarrow> TunnelRuntime
   \<Rightarrow> (TunnelError, unit) res \<times> TunnelRuntime" where
  "report_config_applied sha256 to_toml c rt =
     (case config_fingerprint sha256 to_toml c of
        Inl e \<Rightarrow> (Inl e, rt) | Inr f \<Rightarrow> (Inr (), publish_config_status f None rt))"

definition report_config_failed ::
  "(bytes \<Rightarrow> bytes) \<Rightarrow> (ServerConfig \<Rightarrow> string option) \<Rightarrow> ServerConfig \<Rightarrow> string \<Rightarrow> TunnelRuntime
   \<Rightarrow> (TunnelError, unit) res \<times> TunnelRuntime" where
  "report_config_failed sha256 to_toml c err rt =
     (case config_fingerprint sha256 to_toml c of
        Inl e \<Rightarrow> (Inl e, rt) | Inr f \<Rightarrow> (Inr (), publish_config_status f (Some err) rt))"

definition report_config_load_error :: "string \<Rightarrow> TunnelRuntime \<Rightarrow> TunnelRuntime" where
  "report_config_load_error err rt =
     rt\<lparr>rt_config_status := \<lparr>ca_fingerprint = None,
          ca_revision = ca_revision (rt_config_status rt) + 1, ca_last_apply_error = Some err\<rparr>\<rparr>"

definition config_revision :: "TunnelRuntime \<Rightarrow> u64" where
  "config_revision rt = ca_revision (rt_config_status rt)"

text \<open>
  The loop of \<open>wait_for_config\<close> over the values it observes on the watch channel, the current
  one first; the end of the list is the timeout or the end of the channel.
\<close>

primrec wait_loop :: "bytes \<Rightarrow> u64 \<Rightarrow> ConfigApplyState list \<Rightarrow> ConfigApplyState option" where
  "wait_loop fingerprint after_rev [] = None"
| "wait_loop fingerprint after_rev (s # ss) =
     (if ca_revision s \<noteq> after_rev \<and> ca_fingerprint s = Some fingerprint then Some s
      else wait_loop fingerprint after_rev ss)"

definition wait_for_config ::
  "(bytes \<Rightarrow> bytes) \<Rightarrow> (ServerConfig \<Rightarrow> string option) \<Rightarrow> ServerConfig \<Rightarrow> u64 \<Rightarrow> ConfigApplyState list
   \<Rightarrow> (TunnelError, ConfigApplyState option) res" where
  "wait_for_config sha256 to_toml c after_rev observed =
     res_bind (config_fingerprint sha256 to_toml c) (\<lambda>f. Inr (wait_loop f after_rev observed))"

section \<open>Invariant\<close>

definition owner_valid :: "RuntimeState \<Rightarrow> string \<Rightarrow> TunnelOwner \<Rightarrow> bool" where
  "owner_valid st n ow =
     (\<exists>spec se. hm_get (tunnels st) n = Some spec \<and> hm_get (sessions st) (ow_session_id ow) = Some se
        \<and> eligible se n spec)"

definition maps_wf :: "RuntimeState \<Rightarrow> bool" where
  "maps_wf st = (hm_wf (sessions st) \<and> hm_wf (tunnels st) \<and> hm_wf (owners st))"

definition owners_ok :: "RuntimeState \<Rightarrow> bool" where
  "owners_ok st = (\<forall>n ow. hm_get (owners st) n = Some ow \<longrightarrow> owner_valid st n ow)"

definition devices_unique :: "RuntimeState \<Rightarrow> bool" where
  "devices_unique st =
     (\<forall>i j si sj. hm_get (sessions st) i = Some si \<and> hm_get (sessions st) j = Some sj
        \<and> se_device_id si = se_device_id sj \<longrightarrow> i = j)"

definition digests_current :: "RuntimeState \<Rightarrow> bool" where
  "digests_current st =
     (\<forall>i se. hm_get (sessions st) i = Some se \<longrightarrow>
        hm_get (credentials_of st) (se_group se) = Some (se_credential_digest se))"

definition state_inv :: "RuntimeState \<Rightarrow> bool" where
  "state_inv st = (maps_wf st \<and> owners_ok st \<and> devices_unique st \<and> digests_current st
     \<and> length (sessions st) \<le> MAX_ONLINE_CLIENTS)"

text \<open>Live tokens are fresh: created by the runtime, not cancelled, and one per owned tunnel.\<close>

definition tokens_ok :: "(string, TunnelOwner) hm \<Rightarrow> nat \<Rightarrow> nat list \<Rightarrow> bool" where
  "tokens_ok os tk cs =
     ((\<forall>n ow. hm_get os n = Some ow \<longrightarrow> ow_shutdown ow < tk \<and> ow_shutdown ow \<notin> set cs)
      \<and> (\<forall>n m ow om. hm_get os n = Some ow \<and> hm_get os m = Some om \<and> ow_shutdown ow = ow_shutdown om \<longrightarrow> n = m)
      \<and> (\<forall>t \<in> set cs. t < tk))"

definition rt_inv :: "TunnelRuntime \<Rightarrow> bool" where
  "rt_inv rt = (state_inv (rt_state rt) \<and> tokens_ok (owners (rt_state rt)) (rt_tokens rt) (rt_cancelled rt))"

lemmas rt_inv_defs = rt_inv_def state_inv_def maps_wf_def

section \<open>Lookups after the helpers\<close>

lemma notify_simps [simp]:
  "rt_state (notify rt) = rt_state rt" "rt_tokens (notify rt) = rt_tokens rt"
  "rt_cancelled (notify rt) = rt_cancelled rt" "rt_closed (notify rt) = rt_closed rt"
  "rt_config_status (notify rt) = rt_config_status rt"
  by (simp_all add: notify_def)

lemma retain_valid_owners_simps [simp]:
  "sessions (retain_valid_owners st) = sessions st" "tunnels (retain_valid_owners st) = tunnels st"
  "credentials_of (retain_valid_owners st) = credentials_of st"
  by (simp_all add: retain_valid_owners_def)

lemma release_session_simps [simp]:
  "sessions (release_session sid st) = sessions st" "tunnels (release_session sid st) = tunnels st"
  "credentials_of (release_session sid st) = credentials_of st"
  by (simp_all add: release_session_def)

lemma get_owners_retain_valid:
  assumes "hm_wf (owners st)"
  shows "hm_get (owners (retain_valid_owners st)) n = Some ow \<longleftrightarrow>
    hm_get (owners st) n = Some ow \<and> owner_valid st n ow"
  using assms
  by (auto simp: retain_valid_owners_def hm_get_retain owner_valid_def split: option.splits if_splits)

lemma get_owners_release:
  assumes "hm_wf (owners st)"
  shows "hm_get (owners (release_session sid st)) n = Some ow \<longleftrightarrow>
    hm_get (owners st) n = Some ow \<and> ow_session_id ow \<noteq> sid"
  using assms by (auto simp: release_session_def hm_get_retain split: option.splits if_splits)

lemma wf_owners_helpers [intro]:
  "hm_wf (owners st) \<Longrightarrow> hm_wf (owners (retain_valid_owners st))"
  "hm_wf (owners st) \<Longrightarrow> hm_wf (owners (release_session sid st))"
  by (auto simp: retain_valid_owners_def release_session_def)

lemma fold_claim:
  assumes "distinct names" "fold (claim_one sid) names (st, tk) = (st', tk')"
  shows "tk' = tk + length names \<and> sessions st' = sessions st \<and> tunnels st' = tunnels st
    \<and> credentials_of st' = credentials_of st \<and> (hm_wf (owners st) \<longrightarrow> hm_wf (owners st'))
    \<and> (\<forall>n. n \<notin> set names \<longrightarrow> hm_get (owners st') n = hm_get (owners st) n)
    \<and> (\<forall>i < length names. hm_get (owners st') (names ! i) = Some \<lparr>ow_session_id = sid, ow_shutdown = tk + i\<rparr>)"
  using assms
proof (induction names arbitrary: st tk)
  case (Cons n names)
  let ?st = "st\<lparr>owners := hm_insert n \<lparr>ow_session_id = sid, ow_shutdown = tk\<rparr> (owners st)\<rparr>"
  have "claim_one sid n (st, tk) = (?st, Suc tk)" by (simp add: claim_one_def)
  with Cons.prems have "distinct names" "fold (claim_one sid) names (?st, Suc tk) = (st', tk')"
    by simp_all
  note IH = Cons.IH[OF this]
  have "hm_get (owners st') ((n # names) ! i) = Some \<lparr>ow_session_id = sid, ow_shutdown = tk + i\<rparr>"
    if "i < length (n # names)" for i
    using IH Cons.prems(1) that by (cases i) (simp_all add: hm_simps)
  with IH show ?case by (auto simp: hm_simps)
qed simp

lemma available_for_iff:
  assumes "hm_wf (tunnels st)"
  shows "n \<in> set (available_for st se) \<longleftrightarrow>
    hm_get (owners st) n = None \<and> (\<exists>spec. hm_get (tunnels st) n = Some spec \<and> eligible se n spec)"
  using assms by (force simp: available_for_def hm_contains_iff hm_in_set_iff[symmetric])

lemma distinct_available: "hm_wf (tunnels st) \<Longrightarrow> distinct (available_for st se)"
  unfolding available_for_def hm_wf_def by (simp add: distinct_map_filter)

text \<open>What \<open>claim_available\<close> changes: unowned tunnels the session is eligible for, and nothing else.\<close>

definition claim_effect :: "u64 \<Rightarrow> RuntimeState \<Rightarrow> nat \<Rightarrow> RuntimeState \<Rightarrow> nat \<Rightarrow> bool" where
  "claim_effect sid st tk st' tk' =
     (sessions st' = sessions st \<and> tunnels st' = tunnels st \<and> credentials_of st' = credentials_of st
      \<and> tk \<le> tk' \<and> (hm_wf (owners st) \<longrightarrow> hm_wf (owners st'))
      \<and> (\<forall>n ow. hm_get (owners st) n = Some ow \<longrightarrow> hm_get (owners st') n = Some ow)
      \<and> (\<forall>n ow. hm_get (owners st') n = Some ow \<and> hm_get (owners st) n = None \<longrightarrow>
           ow_session_id ow = sid \<and> tk \<le> ow_shutdown ow \<and> ow_shutdown ow < tk' \<and> owner_valid st n ow)
      \<and> (\<forall>n m ow om. hm_get (owners st') n = Some ow \<and> hm_get (owners st') m = Some om
           \<and> hm_get (owners st) n = None \<and> hm_get (owners st) m = None \<and> ow_shutdown ow = ow_shutdown om \<longrightarrow> n = m)
      \<and> (\<forall>n se spec. hm_get (sessions st) sid = Some se \<and> hm_get (tunnels st) n = Some spec \<and> eligible se n spec \<longrightarrow>
           hm_get (owners st') n \<noteq> None))"

lemma claim_available_effect:
  assumes "hm_wf (tunnels st)" "claim_available sid (st, tk) = (st', tk')"
  shows "claim_effect sid st tk st' tk'"
proof (cases "hm_get (sessions st) sid")
  case None
  then have "st' = st" "tk' = tk" using assms(2) by (simp_all add: claim_available_def)
  with None show ?thesis by (auto simp: claim_effect_def)
next
  case (Some se)
  let ?ns = "available_for st se"
  have f: "fold (claim_one sid) ?ns (st, tk) = (st', tk')"
    using Some assms(2) by (simp add: claim_available_def)
  note F = fold_claim[OF distinct_available[OF assms(1)] f]
  have mem: "n \<in> set ?ns \<longleftrightarrow>
      hm_get (owners st) n = None \<and> (\<exists>spec. hm_get (tunnels st) n = Some spec \<and> eligible se n spec)" for n
    by (rule available_for_iff[OF assms(1)])
  have new: "\<exists>i < length ?ns. n = ?ns ! i \<and> hm_get (owners st') n = Some \<lparr>ow_session_id = sid, ow_shutdown = tk + i\<rparr>"
    if "n \<in> set ?ns" for n
    using that F by (auto simp: in_set_conv_nth)
  have old: "hm_get (owners st') n = hm_get (owners st) n" if "n \<notin> set ?ns" for n using that F by blast
  have fresh: "n \<in> set ?ns" if "hm_get (owners st') n = Some ow" "hm_get (owners st) n = None" for n ow
    using old[of n] that by (cases "n \<in> set ?ns") simp_all
  show ?thesis
    unfolding claim_effect_def
  proof (intro conjI allI impI; (elim conjE)?)
    show "sessions st' = sessions st" "tunnels st' = tunnels st" "credentials_of st' = credentials_of st"
      "tk \<le> tk'" using F by auto
    show "hm_wf (owners st')" if "hm_wf (owners st)" using F that by blast
    show "hm_get (owners st') n = Some ow" if "hm_get (owners st) n = Some ow" for n ow
      using that old mem by simp
    show "ow_session_id ow = sid" "tk \<le> ow_shutdown ow" "ow_shutdown ow < tk'" "owner_valid st n ow"
      if "hm_get (owners st') n = Some ow" "hm_get (owners st) n = None" for n ow
      using new[OF fresh[OF that]] mem[of n] fresh[OF that] Some F that(1) by (auto simp: owner_valid_def)
    show "n = m" if "hm_get (owners st') n = Some ow" "hm_get (owners st') m = Some om"
        "hm_get (owners st) n = None" "hm_get (owners st) m = None" "ow_shutdown ow = ow_shutdown om" for n m ow om
      using new[OF fresh[OF that(1,3)]] new[OF fresh[OF that(2,4)]] that by auto
    show "hm_get (owners st') n \<noteq> None"
      if "hm_get (sessions st) sid = Some se'" "hm_get (tunnels st) n = Some spec" "eligible se' n spec" for n se' spec
      using that Some mem[of n] new[of n] old[of n] by (cases "hm_get (owners st) n") auto
  qed
qed

section \<open>Preservation\<close>

lemma tokens_ok_subset:
  assumes "tokens_ok os tk cs" "\<And>n ow. hm_get os' n = Some ow \<Longrightarrow> hm_get os n = Some ow"
  shows "tokens_ok os' tk cs"
  using assms unfolding tokens_ok_def by blast

lemma tokens_ok_claim:
  assumes t: "tokens_ok (owners st) tk cs" and c: "claim_effect sid st tk st' tk'"
  shows "tokens_ok (owners st') tk' cs"
proof -
  have le: "tk \<le> tk'" and cs: "\<And>x. x \<in> set cs \<Longrightarrow> x < tk" using t c by (auto simp: claim_effect_def tokens_ok_def)
  have kept: "hm_get (owners st') n = Some ow" if "hm_get (owners st) n = Some ow" for n ow
    using c that by (simp add: claim_effect_def)
  have new: "tk \<le> ow_shutdown ow \<and> ow_shutdown ow < tk'"
    if "hm_get (owners st') n = Some ow" "hm_get (owners st) n = None" for n ow
    using c that by (simp add: claim_effect_def)
  have old: "ow_shutdown ow < tk \<and> ow_shutdown ow \<notin> set cs" if "hm_get (owners st) n = Some ow" for n ow
    using t that by (auto simp: tokens_ok_def)
  have range: "ow_shutdown ow < tk' \<and> ow_shutdown ow \<notin> set cs" if "hm_get (owners st') n = Some ow" for n ow
  proof (cases "hm_get (owners st) n")
    case None
    with new[OF that None] cs[of "ow_shutdown ow"] show ?thesis by auto
  next
    case (Some ow')
    with kept[OF Some] that old[OF Some] le show ?thesis by auto
  qed
  have "n = m" if h: "hm_get (owners st') n = Some ow" "hm_get (owners st') m = Some om" "ow_shutdown ow = ow_shutdown om" for n m ow om
  proof (cases "hm_get (owners st) n"; cases "hm_get (owners st) m")
    assume "hm_get (owners st) n = None" "hm_get (owners st) m = None"
    then show ?thesis using c h unfolding claim_effect_def by blast
  next
    fix om' assume *: "hm_get (owners st) n = None" "hm_get (owners st) m = Some om'"
    with kept[OF *(2)] new[OF h(1) *(1)] old[OF *(2)] h show ?thesis by auto
  next
    fix ow' assume *: "hm_get (owners st) n = Some ow'" "hm_get (owners st) m = None"
    with kept[OF *(1)] new[OF h(2) *(2)] old[OF *(1)] h show ?thesis by auto
  next
    fix ow' om' assume *: "hm_get (owners st) n = Some ow'" "hm_get (owners st) m = Some om'"
    with kept[OF *(1)] kept[OF *(2)] h have "ow' = ow" "om' = om" by simp_all
    with * h t show ?thesis unfolding tokens_ok_def by blast
  qed
  with range cs le show ?thesis unfolding tokens_ok_def by (meson less_le_trans)
qed

lemma owner_valid_cong:
  "sessions st' = sessions st \<Longrightarrow> tunnels st' = tunnels st \<Longrightarrow> owner_valid st' n ow = owner_valid st n ow"
  by (simp add: owner_valid_def)

lemma owner_valid_retain [simp]: "owner_valid (retain_valid_owners st) = owner_valid st"
  by (intro ext) (simp add: owner_valid_def)

lemma owners_ok_claim:
  assumes "owners_ok st" "claim_effect sid st tk st' tk'"
  shows "owners_ok st'"
  unfolding owners_ok_def
proof (intro allI impI)
  fix n ow
  assume g: "hm_get (owners st') n = Some ow"
  have "owner_valid st n ow"
  proof (cases "hm_get (owners st) n")
    case None
    with g assms(2) show ?thesis by (simp add: claim_effect_def)
  next
    case (Some ow')
    with g assms show ?thesis by (auto simp: claim_effect_def owners_ok_def)
  qed
  with assms(2) show "owner_valid st' n ow" by (simp add: claim_effect_def owner_valid_def)
qed

lemma state_inv_claim:
  assumes "state_inv st" "claim_effect sid st tk st' tk'"
  shows "state_inv st'"
  using assms owners_ok_claim[of st]
  by (auto simp: state_inv_def maps_wf_def devices_unique_def digests_current_def claim_effect_def)

lemma retain_valid_owners_ok: "hm_wf (owners st) \<Longrightarrow> owners_ok (retain_valid_owners st)"
  by (simp add: owners_ok_def get_owners_retain_valid owner_valid_def)

abbreviation drop_session :: "u64 \<Rightarrow> RuntimeState \<Rightarrow> RuntimeState" where
  "drop_session sid st \<equiv> release_session sid (st\<lparr>sessions := hm_remove sid (sessions st)\<rparr>)"

lemma get_owners_drop:
  "hm_wf (owners st) \<Longrightarrow> hm_get (owners (drop_session sid st)) n = Some ow \<longleftrightarrow>
     hm_get (owners st) n = Some ow \<and> ow_session_id ow \<noteq> sid"
  by (simp add: get_owners_release)

lemma maps_wf_drop: "maps_wf st \<Longrightarrow> maps_wf (drop_session sid st)"
  by (auto simp: maps_wf_def)

lemma owners_ok_drop: "maps_wf st \<Longrightarrow> owners_ok st \<Longrightarrow> owners_ok (drop_session sid st)"
  by (auto simp: owners_ok_def maps_wf_def get_owners_drop owner_valid_def hm_simps)

lemma state_inv_drop [inv_intros]:
  assumes "state_inv st"
  shows "state_inv (drop_session sid st)"
proof -
  have "length (hm_remove sid (sessions st)) \<le> length (sessions st)" by (rule hm_length_remove_le)
  moreover have "devices_unique (drop_session sid st)" "digests_current (drop_session sid st)"
    using assms by (auto simp: state_inv_def devices_unique_def digests_current_def hm_simps split: if_splits)
  ultimately show ?thesis using assms maps_wf_drop[of st sid] owners_ok_drop[of st sid]
    by (simp add: state_inv_def)
qed

lemma tokens_ok_drop:
  "hm_wf (owners st) \<Longrightarrow> tokens_ok (owners st) tk cs \<Longrightarrow> tokens_ok (owners (drop_session sid st)) tk cs"
  by (erule tokens_ok_subset) (simp add: get_owners_drop)

text \<open>The revocation loop: the listed sessions and their tunnels are gone, everything else is kept.\<close>

lemma fold_revoke:
  assumes "fold revoke_one gone (st, cs) = (st', cs')" "maps_wf st" "distinct gone"
    "\<forall>i \<in> set gone. hm_get (sessions st) i \<noteq> None"
  shows "tunnels st' = tunnels st \<and> credentials_of st' = credentials_of st \<and> maps_wf st'
    \<and> cs' = cs @ map (\<lambda>i. se_connection (the (hm_get (sessions st) i))) gone
    \<and> length (sessions st') \<le> length (sessions st)
    \<and> (\<forall>i. hm_get (sessions st') i = (if i \<in> set gone then None else hm_get (sessions st) i))
    \<and> (\<forall>n ow. hm_get (owners st') n = Some ow \<longleftrightarrow> hm_get (owners st) n = Some ow \<and> ow_session_id ow \<notin> set gone)"
  using assms
proof (induction gone arbitrary: st cs)
  case (Cons i gone)
  from Cons.prems(4) obtain se where se: "hm_get (sessions st) i = Some se" by auto
  let ?st = "drop_session i st"
  have f: "fold revoke_one gone (?st, cs @ [se_connection se]) = (st', cs')"
    using Cons.prems(1) se by (simp add: revoke_one_def[abs_def])
  have wf: "maps_wf ?st" using Cons.prems(2) by (rule maps_wf_drop)
  have "\<forall>j \<in> set gone. hm_get (sessions ?st) j \<noteq> None"
    using Cons.prems(3,4) by (auto simp: hm_simps)
  note IH = Cons.IH[OF f wf _ this]
  have "length (sessions ?st) \<le> length (sessions st)" by (simp add: hm_length_remove_le)
  moreover have "map (\<lambda>j. se_connection (the (hm_get (sessions ?st) j))) gone
      = map (\<lambda>j. se_connection (the (hm_get (sessions st) j))) gone"
    using Cons.prems(3) by (auto simp: hm_simps)
  moreover have "hm_get (owners ?st) n = Some ow \<longleftrightarrow> hm_get (owners st) n = Some ow \<and> ow_session_id ow \<noteq> i" for n ow
    using Cons.prems(2) by (simp add: maps_wf_def get_owners_drop)
  ultimately show ?case
    using IH Cons.prems(3) se by (auto simp: hm_simps)
qed simp

lemma distinct_revoked_ids: "hm_wf (sessions st) \<Longrightarrow> distinct (revoked_ids st)"
  by (simp add: revoked_ids_def hm_wf_def distinct_map_filter)

lemma revoked_ids_iff:
  "hm_wf (sessions st) \<Longrightarrow> i \<in> set (revoked_ids st) \<longleftrightarrow>
     (\<exists>se. hm_get (sessions st) i = Some se
        \<and> hm_get (credentials_of st) (se_group se) \<noteq> Some (se_credential_digest se))"
  by (force simp: revoked_ids_def hm_in_set_iff[symmetric])

lemma apply_credentials_effect:
  assumes "maps_wf (rt_state rt)"
    and creds: "creds' = hm_collect (map (\<lambda>(name, secret). (name, sha256 secret)) creds)"
    and rt': "rt' = apply_credentials sha256 creds rt"
    and gone: "gone = revoked_ids ((rt_state rt)\<lparr>credentials_of := creds'\<rparr>)"
  shows "tunnels (rt_state rt') = tunnels (rt_state rt)" "credentials_of (rt_state rt') = creds'"
    "maps_wf (rt_state rt')" "length (sessions (rt_state rt')) \<le> length (sessions (rt_state rt))"
    "rt_tokens rt' = rt_tokens rt" "rt_cancelled rt' = rt_cancelled rt"
    "rt_closed rt' = rt_closed rt @
       map (\<lambda>i. (se_connection (the (hm_get (sessions (rt_state rt)) i)), CredentialsRevoked)) gone"
    "hm_get (sessions (rt_state rt')) i = (if i \<in> set gone then None else hm_get (sessions (rt_state rt)) i)"
    "hm_get (owners (rt_state rt')) n = Some ow \<longleftrightarrow>
       hm_get (owners (rt_state rt)) n = Some ow \<and> ow_session_id ow \<notin> set gone"
    "rt_revision rt' = (if gone = [] then rt_revision rt else rt_revision rt + 1)"
proof -
  let ?st = "(rt_state rt)\<lparr>credentials_of := creds'\<rparr>"
  obtain st' cs' where f: "fold revoke_one (revoked_ids ?st) (?st, []) = (st', cs')"
    by (cases "fold revoke_one (revoked_ids ?st) (?st, [])")
  have wf: "maps_wf ?st" using assms(1) by (simp add: maps_wf_def)
  then have "\<forall>i \<in> set (revoked_ids ?st). hm_get (sessions ?st) i \<noteq> None"
    using revoked_ids_iff[of ?st] by (auto simp: maps_wf_def)
  note F = fold_revoke[OF f wf distinct_revoked_ids this]
  have eq: "rt' = (if cs' = [] then rt\<lparr>rt_state := st'\<rparr>
      else (notify (rt\<lparr>rt_state := st'\<rparr>))\<lparr>rt_closed := rt_closed rt @ map (\<lambda>c. (c, CredentialsRevoked)) cs'\<rparr>)"
    using f unfolding rt' apply_credentials_def Let_def by (simp add: creds)
  have S: "rt_state rt' = st'" by (simp add: eq)
  have F': "tunnels st' = tunnels (rt_state rt)" "credentials_of st' = creds'" "maps_wf st'"
    "cs' = map (\<lambda>i. se_connection (the (hm_get (sessions (rt_state rt)) i))) gone"
    "length (sessions st') \<le> length (sessions (rt_state rt))"
    "hm_get (sessions st') i = (if i \<in> set gone then None else hm_get (sessions (rt_state rt)) i)"
    "hm_get (owners st') n = Some ow \<longleftrightarrow> hm_get (owners (rt_state rt)) n = Some ow \<and> ow_session_id ow \<notin> set gone"
    using F wf by (simp_all add: gone maps_wf_def)
  show "tunnels (rt_state rt') = tunnels (rt_state rt)" "credentials_of (rt_state rt') = creds'"
    "maps_wf (rt_state rt')" "length (sessions (rt_state rt')) \<le> length (sessions (rt_state rt))"
    "hm_get (sessions (rt_state rt')) i = (if i \<in> set gone then None else hm_get (sessions (rt_state rt)) i)"
    "hm_get (owners (rt_state rt')) n = Some ow \<longleftrightarrow>
       hm_get (owners (rt_state rt)) n = Some ow \<and> ow_session_id ow \<notin> set gone"
    unfolding S by (rule F')+
  show "rt_tokens rt' = rt_tokens rt" "rt_cancelled rt' = rt_cancelled rt" by (simp_all add: eq)
  show "rt_closed rt' = rt_closed rt @
       map (\<lambda>i. (se_connection (the (hm_get (sessions (rt_state rt)) i)), CredentialsRevoked)) gone"
    "rt_revision rt' = (if gone = [] then rt_revision rt else rt_revision rt + 1)"
    using F'(4) by (simp_all add: eq notify_def)
qed

lemma apply_credentials_inv [inv_intros]:
  assumes inv: "rt_inv rt"
  shows "rt_inv (apply_credentials sha256 creds rt)" (is "rt_inv ?rt")
proof -
  let ?cr = "hm_collect (map (\<lambda>(name, secret). (name, sha256 secret)) creds)"
  let ?gone = "revoked_ids ((rt_state rt)\<lparr>credentials_of := ?cr\<rparr>)"
  have wf: "maps_wf (rt_state rt)" using inv by (simp add: rt_inv_def state_inv_def)
  note E = apply_credentials_effect[OF wf refl refl refl, of sha256 creds]
  have sub: "hm_get (sessions (rt_state ?rt)) i = Some se \<Longrightarrow>
      hm_get (sessions (rt_state rt)) i = Some se \<and> i \<notin> set ?gone" for i se
    by (simp add: E(8) split: if_splits)
  have "owners_ok (rt_state ?rt)"
    using inv by (auto simp: rt_inv_def state_inv_def owners_ok_def owner_valid_def E(1,8,9))
  moreover have "devices_unique (rt_state ?rt)"
    using inv sub unfolding rt_inv_def state_inv_def devices_unique_def by blast
  moreover have "digests_current (rt_state ?rt)"
    using sub wf revoked_ids_iff[of "(rt_state rt)\<lparr>credentials_of := ?cr\<rparr>"]
    by (fastforce simp: digests_current_def E(2) maps_wf_def)
  moreover have "tokens_ok (owners (rt_state ?rt)) (rt_tokens ?rt) (rt_cancelled ?rt)"
    unfolding E(5,6) by (rule tokens_ok_subset[of "owners (rt_state rt)"]) (use inv in \<open>simp_all add: rt_inv_def E(9)\<close>)
  ultimately show ?thesis using E(3,4) inv by (simp add: rt_inv_def state_inv_def)
qed

lemma rt_inv_update [inv_intros]:
  assumes "rt_inv rt" "rt_state rt' = retain_valid_owners st1" "rt_tokens rt' = rt_tokens rt"
    "rt_cancelled rt' = rt_cancelled rt" "owners st1 = owners (rt_state rt)" "maps_wf st1"
    "devices_unique st1" "digests_current st1" "length (sessions st1) \<le> MAX_ONLINE_CLIENTS"
  shows "rt_inv rt'"
proof -
  have wf: "hm_wf (owners st1)" using assms(6) by (simp add: maps_wf_def)
  have "tokens_ok (owners (rt_state rt')) (rt_tokens rt') (rt_cancelled rt')"
    unfolding assms(2-4)
    by (rule tokens_ok_subset[of "owners (rt_state rt)"])
       (use assms wf in \<open>simp_all add: rt_inv_def get_owners_retain_valid\<close>)
  moreover have "state_inv (retain_valid_owners st1)"
    using assms(6-9) retain_valid_owners_ok[OF wf] wf_owners_helpers(1)[OF wf]
    by (simp add: state_inv_def maps_wf_def devices_unique_def digests_current_def)
  ultimately show ?thesis by (simp add: rt_inv_def assms(2))
qed

lemma apply_tunnels_inv [inv_intros]:
  assumes "rt_inv rt"
  shows "rt_inv (apply_tunnels cs rt)"
  by (rule rt_inv_update[OF assms, of _
        "(rt_state rt)\<lparr>tunnels := hm_collect (map (\<lambda>t. (t_name t, tunnel_spec t)) cs)\<rparr>"])
     (use assms in \<open>simp_all add: apply_tunnels_def rt_inv_defs devices_unique_def digests_current_def\<close>)

lemma drop_session_inv [inv_intros]:
  assumes "rt_inv rt" "rt_state rt' = drop_session sid (rt_state rt)" "rt_tokens rt' = rt_tokens rt"
    "rt_cancelled rt' = rt_cancelled rt"
  shows "rt_inv rt'"
  using assms state_inv_drop[of "rt_state rt" sid] tokens_ok_drop[of "rt_state rt"]
  by (simp add: rt_inv_def) (simp add: state_inv_def maps_wf_def)

lemma unregister_inv [inv_intros]: "rt_inv rt \<Longrightarrow> rt_inv (unregister sid rt)"
  by (cases "hm_contains (sessions (rt_state rt)) sid")
     (auto simp: unregister_def Let_def intro: drop_session_inv[of rt _ sid])

lemma disconnect_inv [inv_intros]: "rt_inv rt \<Longrightarrow> rt_inv (snd (disconnect sid rt))"
  by (cases "hm_get (sessions (rt_state rt)) sid")
     (auto simp: disconnect_def Let_def intro: drop_session_inv[of rt _ sid])

definition new_session ::
  "string \<Rightarrow> string \<Rightarrow> bytes \<Rightarrow> Connection \<Rightarrow> u64 \<Rightarrow> ServiceDeclaration list \<Rightarrow> SessionEntry" where
  "new_session device_id grp digest connection now services =
     \<lparr>se_connection = connection, se_device_id = device_id, se_group = grp,
      se_credential_digest = digest, se_remote_address = cn_remote_address connection,
      se_connected_at = now, se_services = service_map services\<rparr>"

lemma register_accepts:
  assumes "register sid dev grp digest conn now svcs rt = (Inr (), rt')"
  shows "length (sessions (rt_state rt)) < MAX_ONLINE_CLIENTS
    \<and> hm_get (credentials_of (rt_state rt)) grp = Some digest
    \<and> (\<forall>i se. hm_get (sessions (rt_state rt)) i = Some se \<longrightarrow> se_device_id se \<noteq> dev)
    \<and> (\<exists>st' tk'. claim_available sid
          ((rt_state rt)\<lparr>sessions := hm_insert sid (new_session dev grp digest conn now svcs) (sessions (rt_state rt))\<rparr>,
           rt_tokens rt) = (st', tk')
        \<and> rt' = notify (rt\<lparr>rt_state := st', rt_tokens := tk'\<rparr>))"
proof -
  have dev: "se_device_id se \<noteq> dev"
    if "\<not> list_ex (\<lambda>se. se_device_id se = dev) (hm_values (sessions (rt_state rt)))"
      "hm_get (sessions (rt_state rt)) i = Some se" for i se
    using that hm_get_in_set[OF that(2)] by (force simp: list_ex_iff hm_values_def)
  from assms show ?thesis
    using dev by (auto simp: register_def Let_def new_session_def not_le split: if_splits prod.splits)
qed

lemma state_inv_insert_session:
  assumes "state_inv st" "hm_get (sessions st) sid = None" "length (sessions st) < MAX_ONLINE_CLIENTS"
    "hm_get (credentials_of st) (se_group se) = Some (se_credential_digest se)"
    "\<forall>i s. hm_get (sessions st) i = Some s \<longrightarrow> se_device_id s \<noteq> se_device_id se"
  shows "state_inv (st\<lparr>sessions := hm_insert sid se (sessions st)\<rparr>)" (is "state_inv ?st")
proof -
  have wf: "hm_wf (sessions st)" using assms(1) by (simp add: rt_inv_defs)
  have "owners_ok ?st"
    using assms(1,2) unfolding owners_ok_def owner_valid_def state_inv_def
    by (fastforce simp: hm_simps)
  moreover have "devices_unique ?st"
    using assms(1,5) unfolding devices_unique_def state_inv_def
    by (simp add: hm_simps) metis
  moreover have "digests_current ?st"
    using assms(1,4) by (auto simp: digests_current_def state_inv_def hm_simps)
  moreover have "length (sessions ?st) \<le> MAX_ONLINE_CLIENTS"
    using assms(2,3) hm.size_insert[OF wf, of sid se] by simp
  ultimately show ?thesis using assms(1) by (auto simp: state_inv_def maps_wf_def)
qed

lemma register_inv [inv_intros]:
  assumes inv: "rt_inv rt" and fresh: "hm_get (sessions (rt_state rt)) sid = None"
  shows "rt_inv (snd (register sid dev grp digest conn now svcs rt))"
proof (cases "register sid dev grp digest conn now svcs rt")
  case (Pair r rt')
  show ?thesis
  proof (cases r)
    case (Inl e)
    then have "rt' = rt" using Pair by (auto simp: register_def Let_def split: if_splits prod.splits)
    with Pair inv show ?thesis by simp
  next
    case (Inr u)
    let ?se = "new_session dev grp digest conn now svcs"
    let ?st = "(rt_state rt)\<lparr>sessions := hm_insert sid ?se (sessions (rt_state rt))\<rparr>"
    from Inr Pair have r: "register sid dev grp digest conn now svcs rt = (Inr (), rt')" by (cases u) simp
    note A = register_accepts[OF r]
    then obtain st' tk' where c: "claim_available sid (?st, rt_tokens rt) = (st', tk')"
      and rt': "rt' = notify (rt\<lparr>rt_state := st', rt_tokens := tk'\<rparr>)" by blast
    have st: "state_inv ?st"
      by (rule state_inv_insert_session) (use A inv fresh in \<open>simp_all add: rt_inv_def new_session_def\<close>)
    then have ce: "claim_effect sid ?st (rt_tokens rt) st' tk'"
      by (intro claim_available_effect[OF _ c]) (simp add: rt_inv_defs)
    have "tokens_ok (owners ?st) (rt_tokens rt) (rt_cancelled rt)" using inv by (simp add: rt_inv_def)
    from tokens_ok_claim[OF this ce] state_inv_claim[OF st ce] Pair show ?thesis
      by (simp add: rt_inv_def rt')
  qed
qed

text \<open>Changing the declared services of one session: the pieces of \<open>update_services\<close>.\<close>

lemma set_services_state:
  assumes "state_inv st" "hm_get (sessions st) sid = Some se"
    and st1: "st1 = st\<lparr>sessions := hm_insert sid (se\<lparr>se_services := new\<rparr>) (sessions st)\<rparr>"
  shows "maps_wf st1" "devices_unique st1" "digests_current st1" "length (sessions st1) \<le> MAX_ONLINE_CLIENTS"
proof -
  have wf: "hm_wf (sessions st)" using assms(1) by (simp add: rt_inv_defs)
  show "maps_wf st1" using assms(1) by (auto simp: st1 rt_inv_defs)
  show "devices_unique st1" "digests_current st1"
    using assms(1,2) unfolding state_inv_def devices_unique_def digests_current_def st1
    by (auto simp: hm_simps)
  show "length (sessions st1) \<le> MAX_ONLINE_CLIENTS"
    using assms(1,2) hm.size_insert[OF wf, of sid] by (simp add: st1 state_inv_def)
qed

lemma update_services_unfold:
  assumes "hm_get (sessions (rt_state rt)) sid = Some se"
    and "st1 = (rt_state rt)\<lparr>sessions := hm_insert sid (se\<lparr>se_services := service_map svcs\<rparr>) (sessions (rt_state rt))\<rparr>"
    and "claim_available sid (retain_valid_owners st1, rt_tokens rt) = (st2, tk)"
    and "prev = owned_tunnels (rt_state rt) sid" and "cur = owned_tunnels st2 sid"
    and "u = \<lparr>su_declared_services = length (service_map svcs), su_active_tunnels = length cur,
              su_claimed_tunnels = length (filter (\<lambda>n. n \<notin> set prev) cur),
              su_released_tunnels = length (filter (\<lambda>n. n \<notin> set cur) prev),
              su_changed = (\<not> hm_eq (se_services se) (service_map svcs)
                 \<or> length (filter (\<lambda>n. n \<notin> set prev) cur) \<noteq> 0 \<or> length (filter (\<lambda>n. n \<notin> set cur) prev) \<noteq> 0)\<rparr>"
  shows "update_services sid svcs rt =
    (Some u, if su_changed u then notify (rt\<lparr>rt_state := st2, rt_tokens := tk\<rparr>) else rt\<lparr>rt_state := st2, rt_tokens := tk\<rparr>)"
  using assms by (simp add: update_services_def Let_def)

lemma update_services_inv [inv_intros]:
  assumes inv: "rt_inv rt"
  shows "rt_inv (snd (update_services sid svcs rt))"
proof (cases "hm_get (sessions (rt_state rt)) sid")
  case None
  then show ?thesis using inv by (simp add: update_services_def Let_def)
next
  case (Some se)
  define st1 where "st1 = (rt_state rt)\<lparr>sessions := hm_insert sid (se\<lparr>se_services := service_map svcs\<rparr>) (sessions (rt_state rt))\<rparr>"
  obtain st2 tk where c: "claim_available sid (retain_valid_owners st1, rt_tokens rt) = (st2, tk)"
    by (cases "claim_available sid (retain_valid_owners st1, rt_tokens rt)")
  have st: "state_inv (rt_state rt)" using inv by (simp add: rt_inv_def)
  note S = set_services_state[OF st Some st1_def]
  have mid: "rt_inv (rt\<lparr>rt_state := retain_valid_owners st1\<rparr>)"
    by (rule rt_inv_update[OF inv, of _ st1]) (simp_all add: S, simp add: st1_def)
  then have ce: "claim_effect sid (retain_valid_owners st1) (rt_tokens rt) st2 tk"
    by (intro claim_available_effect[OF _ c]) (simp add: rt_inv_defs)
  have "tokens_ok (owners st2) tk (rt_cancelled rt)" "state_inv st2"
    using tokens_ok_claim[OF _ ce] state_inv_claim[OF _ ce] mid by (simp_all add: rt_inv_def)
  then show ?thesis
    by (simp add: update_services_unfold[OF Some st1_def c refl refl refl] rt_inv_def)
qed

text \<open>The successful branch of \<open>disconnect_tunnel\<close>: the session loses the declaration, the tunnel its owner.\<close>

lemma disconnect_tunnel_ok:
  assumes "hm_get (sessions (rt_state rt)) sid = Some se" "hm_get (tunnels (rt_state rt)) tunnel = Some spec"
    "hm_get (owners (rt_state rt)) tunnel = Some ow" "ow_session_id ow = sid"
  shows "disconnect_tunnel sid tunnel rt =
    (Inr (), notify (rt\<lparr>rt_state := (rt_state rt)\<lparr>
         sessions := hm_insert sid (se\<lparr>se_services := hm_remove tunnel (se_services se)\<rparr>) (sessions (rt_state rt)),
         owners := hm_remove tunnel (owners (rt_state rt))\<rparr>,
       rt_cancelled := rt_cancelled rt @ [ow_shutdown ow]\<rparr>))"
  using assms by (simp add: disconnect_tunnel_def hm_contains_iff Let_def)

lemma disconnect_tunnel_cases:
  obtains (error) e where "disconnect_tunnel sid tunnel rt = (Inl e, rt)"
  | (ok) se spec ow where "hm_get (sessions (rt_state rt)) sid = Some se"
      "hm_get (tunnels (rt_state rt)) tunnel = Some spec"
      "hm_get (owners (rt_state rt)) tunnel = Some ow" "ow_session_id ow = sid"
proof (cases "hm_get (sessions (rt_state rt)) sid = None \<or> hm_get (tunnels (rt_state rt)) tunnel = None
    \<or> (case hm_get (owners (rt_state rt)) tunnel of None \<Rightarrow> True | Some ow \<Rightarrow> ow_session_id ow \<noteq> sid)")
  case True
  then show ?thesis by (intro error[of "if hm_get (sessions (rt_state rt)) sid = None then SessionNotFound
        else if hm_get (tunnels (rt_state rt)) tunnel = None then TunnelNotFound else NotOwnedBySession"])
      (auto simp: disconnect_tunnel_def hm_contains_iff Let_def split: option.splits)
next
  case False
  then show ?thesis by (auto split: option.splits intro: ok)
qed

lemma disconnect_tunnel_inv [inv_intros]:
  assumes inv: "rt_inv rt"
  shows "rt_inv (snd (disconnect_tunnel sid tunnel rt))"
proof (cases rule: disconnect_tunnel_cases[of sid tunnel rt])
  case (error e)
  then show ?thesis using inv by simp
next
  case (ok se spec ow)
  let ?se = "se\<lparr>se_services := hm_remove tunnel (se_services se)\<rparr>"
  let ?st1 = "(rt_state rt)\<lparr>sessions := hm_insert sid ?se (sessions (rt_state rt))\<rparr>"
  let ?st = "?st1\<lparr>owners := hm_remove tunnel (owners (rt_state rt))\<rparr>"
  have st: "state_inv (rt_state rt)" using inv by (simp add: rt_inv_def)
  note S = set_services_state[OF st ok(1) refl, of "hm_remove tunnel (se_services se)"]
  have "owner_valid ?st n o'" if "hm_get (owners ?st) n = Some o'" for n o'
  proof -
    from that have n: "n \<noteq> tunnel" "hm_get (owners (rt_state rt)) n = Some o'" by (auto simp: hm_simps split: if_splits)
    then have "owner_valid (rt_state rt) n o'" using st by (simp add: state_inv_def owners_ok_def)
    with n(1) ok(1) show ?thesis by (auto simp: owner_valid_def eligible_def hm_simps)
  qed
  then have "state_inv ?st" using S by (auto simp: state_inv_def owners_ok_def maps_wf_def devices_unique_def digests_current_def)
  moreover have "tokens_ok (owners ?st) (rt_tokens rt) (rt_cancelled rt @ [ow_shutdown ow])"
    using inv ok(3) unfolding rt_inv_def tokens_ok_def by (simp add: hm_simps) blast
  ultimately show ?thesis by (simp add: disconnect_tunnel_ok[OF ok] rt_inv_def)
qed

section \<open>Executions\<close>

text \<open>
  One operation under the write lock. A session id comes from the server's counter, so a
  registration uses an id that no online session has.
\<close>

inductive rt_step :: "(bytes \<Rightarrow> bytes) \<Rightarrow> TunnelRuntime \<Rightarrow> TunnelRuntime \<Rightarrow> bool" for sha256 where
  tunnels_applied: "rt_step sha256 rt (apply_tunnels cs rt)"
| credentials_applied: "rt_step sha256 rt (apply_credentials sha256 creds rt)"
| registered: "hm_get (sessions (rt_state rt)) sid = None \<Longrightarrow>
    rt_step sha256 rt (snd (register sid dev grp digest conn now svcs rt))"
| services_updated: "rt_step sha256 rt (snd (update_services sid svcs rt))"
| unregistered: "rt_step sha256 rt (unregister sid rt)"
| disconnected: "rt_step sha256 rt (snd (disconnect sid rt))"
| tunnel_disconnected: "rt_step sha256 rt (snd (disconnect_tunnel sid tunnel rt))"
| config_applied: "rt_step sha256 rt (snd (report_config_applied sha256 to_toml c rt))"
| config_failed: "rt_step sha256 rt (snd (report_config_failed sha256 to_toml c err rt))"
| config_load_error: "rt_step sha256 rt (report_config_load_error err rt)"

inductive rt_reachable :: "(bytes \<Rightarrow> bytes) \<Rightarrow> TunnelRuntime \<Rightarrow> bool" for sha256 where
  initial: "rt_reachable sha256 runtime_default"
| step: "rt_reachable sha256 rt \<Longrightarrow> rt_step sha256 rt rt' \<Longrightarrow> rt_reachable sha256 rt'"

lemma config_status_inv [inv_intros]:
  "rt_inv rt \<Longrightarrow> rt_inv (publish_config_status f err rt)"
  "rt_inv rt \<Longrightarrow> rt_inv (report_config_load_error err' rt)"
  "rt_inv rt \<Longrightarrow> rt_inv (snd (report_config_applied sha256 to_toml c rt))"
  "rt_inv rt \<Longrightarrow> rt_inv (snd (report_config_failed sha256 to_toml c err' rt))"
  by (simp_all add: publish_config_status_def report_config_load_error_def report_config_applied_def
      report_config_failed_def rt_inv_def split: sum.splits)

lemma rt_step_inv: "rt_step sha256 rt rt' \<Longrightarrow> rt_inv rt \<Longrightarrow> rt_inv rt'"
  by (induction rule: rt_step.induct)
     (auto intro: apply_tunnels_inv apply_credentials_inv register_inv update_services_inv unregister_inv
       disconnect_inv disconnect_tunnel_inv config_status_inv)

lemma runtime_default_inv: "rt_inv runtime_default"
  by (simp add: runtime_default_def rt_inv_defs owners_ok_def devices_unique_def digests_current_def tokens_ok_def
      MAX_ONLINE_CLIENTS_def)

lemma rt_reachable_inv: "rt_reachable sha256 rt \<Longrightarrow> rt_inv rt"
  by (induction rule: rt_reachable.induct) (auto simp: runtime_default_inv intro: rt_step_inv)

section \<open>Properties\<close>

text \<open>
  C1: Routing safety. In every reachable state, a public connection to a tunnel is handed only
  to a client that is online, in the tunnel's group, authenticated with the credential that is
  current for that group, and that has declared the tunnel with the configured kind; the
  cancellation token it gets has not been cancelled and belongs to this tunnel alone.
\<close>

theorem find_tunnel_safe:
  assumes "rt_reachable sha256 rt" and "find_tunnel rt n = Some cs"
  shows "\<exists>sid se spec. hm_get (sessions (rt_state rt)) sid = Some se
    \<and> hm_get (tunnels (rt_state rt)) n = Some spec
    \<and> cl_connection cs = se_connection se
    \<and> se_group se = sp_group spec \<and> hm_get (se_services se) n = Some (sp_kind spec)
    \<and> hm_get (credentials_of (rt_state rt)) (se_group se) = Some (se_credential_digest se)
    \<and> cl_tunnel_shutdown cs \<notin> set (rt_cancelled rt)
    \<and> (\<forall>m cm. find_tunnel rt m = Some cm \<and> cl_tunnel_shutdown cm = cl_tunnel_shutdown cs \<longrightarrow> m = n)"
proof -
  have inv: "rt_inv rt" using assms(1) by (rule rt_reachable_inv)
  have find: "\<exists>ow se. hm_get (owners (rt_state rt)) m = Some ow \<and> hm_get (sessions (rt_state rt)) (ow_session_id ow) = Some se
      \<and> cm = \<lparr>cl_connection = se_connection se, cl_tunnel_shutdown = ow_shutdown ow\<rparr>"
    if "find_tunnel rt m = Some cm" for m cm
    using that by (auto simp: find_tunnel_def split: option.splits)
  from find[OF assms(2)] obtain ow se where o: "hm_get (owners (rt_state rt)) n = Some ow"
    and se: "hm_get (sessions (rt_state rt)) (ow_session_id ow) = Some se"
    and cs: "cs = \<lparr>cl_connection = se_connection se, cl_tunnel_shutdown = ow_shutdown ow\<rparr>" by blast
  obtain spec where spec: "hm_get (tunnels (rt_state rt)) n = Some spec" "eligible se n spec"
    using inv o se by (fastforce simp: rt_inv_def state_inv_def owners_ok_def owner_valid_def)
  have cur: "hm_get (credentials_of (rt_state rt)) (se_group se) = Some (se_credential_digest se)"
    using inv se by (simp add: rt_inv_def state_inv_def digests_current_def)
  have tok: "ow_shutdown ow \<notin> set (rt_cancelled rt)"
    using inv o by (simp add: rt_inv_def tokens_ok_def)
  have "m = n" if "find_tunnel rt m = Some cm" "cl_tunnel_shutdown cm = cl_tunnel_shutdown cs" for m cm
    using find[OF that(1)] that(2) o cs inv by (auto simp: rt_inv_def tokens_ok_def)
  with se spec cur tok cs show ?thesis
    by (intro exI[of _ "ow_session_id ow"] exI[of _ se] exI[of _ spec]) (auto simp: eligible_def)
qed

definition sample_connection :: Connection where
  "sample_connection = \<lparr>cn_id = 7, cn_remote_address = SocketAddrV4 1 4000\<rparr>"

definition sample_runtime :: TunnelRuntime where
  "sample_runtime =
     snd (register 1 ''dev'' ''team'' [1] sample_connection 0 [\<lparr>sd_name = ''web'', sd_kind = Tcp\<rparr>]
       (apply_tunnels [sample_tunnel] (apply_credentials (\<lambda>b. b) [(''team'', [1])] runtime_default)))"

lemmas runtime_eval =
  runtime_default_def apply_tunnels_def apply_credentials_def register_def claim_available_def claim_one_def
  available_for_def revoked_ids_def retain_valid_owners_def hm_retain_def hm_collect_def hm_get_def hm_contains_def
  hm_values_def tunnel_spec_def sample_tunnel_def service_map_def eligible_def notify_def
  client_local_ip_def client_local_port_def MAX_ONLINE_CLIENTS_def

lemma sample_runtime_eval:
  "hm_get (sessions (rt_state sample_runtime)) 1 =
     Some (new_session ''dev'' ''team'' [1] sample_connection 0 [\<lparr>sd_name = ''web'', sd_kind = Tcp\<rparr>])"
  "hm_get (sessions (rt_state sample_runtime)) 2 = None"
  "hm_get (tunnels (rt_state sample_runtime)) ''web'' = Some (tunnel_spec sample_tunnel)"
  "hm_get (owners (rt_state sample_runtime)) ''web'' = Some \<lparr>ow_session_id = 1, ow_shutdown = 0\<rparr>"
  "hm_get (credentials_of (rt_state sample_runtime)) ''team'' = Some [1]"
  "rt_closed sample_runtime = []" "rt_cancelled sample_runtime = []"
  by (simp_all add: sample_runtime_def new_session_def runtime_eval)

lemma sample_runtime_reachable: "rt_reachable (\<lambda>b. b) sample_runtime"
proof -
  let ?r0 = runtime_default
  let ?r1 = "apply_credentials (\<lambda>b. b) [(''team'', [1])] ?r0"
  let ?r2 = "apply_tunnels [sample_tunnel] ?r1"
  have "rt_reachable (\<lambda>b. b) ?r2"
    by (intro rt_reachable.step[OF _ tunnels_applied] rt_reachable.step[OF _ credentials_applied] rt_reachable.initial)
  moreover have "hm_get (sessions (rt_state ?r2)) 1 = None" by (simp add: runtime_eval)
  ultimately show ?thesis unfolding sample_runtime_def by (intro rt_reachable.step[OF _ registered])
qed

theorem find_tunnel_safe_witness:
  "\<exists>(se :: SessionEntry) spec cs. find_tunnel sample_runtime ''web'' = Some cs
    \<and> hm_get (tunnels (rt_state sample_runtime)) ''web'' = Some spec
    \<and> cl_connection cs = se_connection se \<and> se_group se = sp_group spec
    \<and> hm_get (credentials_of (rt_state sample_runtime)) (se_group se) = Some (se_credential_digest se)"
proof -
  obtain cs where cs: "find_tunnel sample_runtime ''web'' = Some cs"
    by (simp add: find_tunnel_def sample_runtime_eval)
  from find_tunnel_safe[OF sample_runtime_reachable cs] cs show ?thesis by blast
qed

text \<open>
  C2: Revoking credentials. Applying a new credential table keeps exactly the sessions whose
  credential is still current, closes the connection of every other session once with the
  revocation code, and takes the tunnels of those sessions out of routing while every other
  tunnel keeps its owner. The change is announced exactly when a session was revoked.
\<close>

theorem apply_credentials_revokes:
  assumes reach: "rt_reachable sha256 rt"
    and rt': "rt' = apply_credentials sha256 creds rt"
    and current: "\<And>se. current se \<longleftrightarrow>
      hm_get (hm_collect (map (\<lambda>(name, secret). (name, sha256 secret)) creds)) (se_group se) = Some (se_credential_digest se)"
  shows "(\<forall>i se. hm_get (sessions (rt_state rt')) i = Some se \<longleftrightarrow>
            hm_get (sessions (rt_state rt)) i = Some se \<and> current se)
    \<and> (\<exists>closed. rt_closed rt' = rt_closed rt @ closed
         \<and> set closed = {(se_connection se, CredentialsRevoked) | i se.
              hm_get (sessions (rt_state rt)) i = Some se \<and> \<not> current se}
         \<and> length closed = card {i. \<exists>se. hm_get (sessions (rt_state rt)) i = Some se \<and> \<not> current se}
         \<and> rt_revision rt' = (if closed = [] then rt_revision rt else rt_revision rt + 1))
    \<and> (\<forall>n ow. hm_get (owners (rt_state rt')) n = Some ow \<longleftrightarrow>
         hm_get (owners (rt_state rt)) n = Some ow
         \<and> (\<exists>se. hm_get (sessions (rt_state rt)) (ow_session_id ow) = Some se \<and> current se))"
proof -
  let ?cr = "hm_collect (map (\<lambda>(name, secret). (name, sha256 secret)) creds)"
  let ?st = "(rt_state rt)\<lparr>credentials_of := ?cr\<rparr>"
  have inv: "rt_inv rt" using reach by (rule rt_reachable_inv)
  then have wf: "maps_wf (rt_state rt)" and own: "owners_ok (rt_state rt)" by (simp_all add: rt_inv_def state_inv_def)
  note E = apply_credentials_effect[OF wf refl rt' refl]
  have gone: "i \<in> set (revoked_ids ?st) \<longleftrightarrow> (\<exists>se. hm_get (sessions (rt_state rt)) i = Some se \<and> \<not> current se)" for i
    using wf revoked_ids_iff[of ?st i] by (auto simp: maps_wf_def current)
  have dist: "distinct (revoked_ids ?st)" using wf by (intro distinct_revoked_ids) (simp add: maps_wf_def)
  let ?closed = "map (\<lambda>i. (se_connection (the (hm_get (sessions (rt_state rt)) i)), CredentialsRevoked)) (revoked_ids ?st)"
  have "set ?closed = {(se_connection se, CredentialsRevoked) | i se.
      hm_get (sessions (rt_state rt)) i = Some se \<and> \<not> current se}"
    unfolding set_map using gone by (auto intro!: image_eqI) blast
  moreover have "length ?closed = card {i. \<exists>se. hm_get (sessions (rt_state rt)) i = Some se \<and> \<not> current se}"
    using distinct_card[OF dist] by (simp flip: gone)
  moreover have "hm_get (owners (rt_state rt')) n = Some ow \<longleftrightarrow>
      hm_get (owners (rt_state rt)) n = Some ow
      \<and> (\<exists>se. hm_get (sessions (rt_state rt)) (ow_session_id ow) = Some se \<and> current se)" for n ow
    using own by (fastforce simp: E(9) gone owners_ok_def owner_valid_def)
  moreover have "hm_get (sessions (rt_state rt')) i = Some se \<longleftrightarrow>
      hm_get (sessions (rt_state rt)) i = Some se \<and> current se" for i se
    by (auto simp: E(8) gone)
  moreover have "rt_revision rt' = (if ?closed = [] then rt_revision rt else rt_revision rt + 1)"
    by (simp add: E(10))
  ultimately show ?thesis using E(7) by blast
qed

theorem apply_credentials_revokes_witness:
  "hm_get (sessions (rt_state (apply_credentials (\<lambda>b. b) [(''team'', [2])] sample_runtime))) 1 = None
   \<and> hm_get (owners (rt_state (apply_credentials (\<lambda>b. b) [(''team'', [2])] sample_runtime))) ''web'' = None"
proof -
  note P = apply_credentials_revokes[OF sample_runtime_reachable refl refl, of "[(''team'', [2])]"]
  have n: "\<not> hm_get (hm_collect (map (\<lambda>(name, secret). (name, secret)) [(''team'', [2])])) (se_group se) = Some (se_credential_digest se)"
    if "hm_get (sessions (rt_state sample_runtime)) 1 = Some se" for se
    using that by (auto simp: sample_runtime_eval new_session_def hm_get_collect)
  have "hm_get (sessions (rt_state (apply_credentials (\<lambda>b. b) [(''team'', [2])] sample_runtime))) 1 \<noteq> Some se" for se
    using P[THEN conjunct1, rule_format, of 1 se] n[of se] by blast
  moreover have "hm_get (owners (rt_state (apply_credentials (\<lambda>b. b) [(''team'', [2])] sample_runtime))) ''web'' \<noteq> Some ow" for ow
    using P[THEN conjunct2, THEN conjunct2, rule_format, of "''web''" ow] n sample_runtime_eval(4) by auto
  ultimately show ?thesis by (meson not_None_eq)
qed

text \<open>
  C3: Registration decides in the order capacity, credential, device id, and a refusal changes
  nothing. An accepted session is stored under its id, owns afterwards every tunnel it is
  eligible for that had no owner, and takes no tunnel from another session.
\<close>

theorem register_outcome:
  assumes reach: "rt_reachable sha256 rt" and fresh: "hm_get (sessions (rt_state rt)) sid = None"
    and call: "register sid dev grp digest conn now svcs rt = (r, rt')"
  shows "(r = Inl Capacity \<longleftrightarrow> length (sessions (rt_state rt)) = 128)
    \<and> (r = Inl CredentialsChanged \<longleftrightarrow> length (sessions (rt_state rt)) < 128
         \<and> hm_get (credentials_of (rt_state rt)) grp \<noteq> Some digest)
    \<and> (r = Inl RegDeviceIdConflict \<longleftrightarrow> length (sessions (rt_state rt)) < 128
         \<and> hm_get (credentials_of (rt_state rt)) grp = Some digest
         \<and> (\<exists>i se. hm_get (sessions (rt_state rt)) i = Some se \<and> se_device_id se = dev))
    \<and> (r \<noteq> Inr () \<longrightarrow> rt' = rt)
    \<and> (r = Inr () \<longrightarrow>
         (\<forall>i. hm_get (sessions (rt_state rt')) i =
            (if i = sid then Some (new_session dev grp digest conn now svcs) else hm_get (sessions (rt_state rt)) i))
         \<and> (\<forall>n ow. hm_get (owners (rt_state rt)) n = Some ow \<longrightarrow> hm_get (owners (rt_state rt')) n = Some ow)
         \<and> (\<forall>n. hm_get (owners (rt_state rt)) n = None \<longrightarrow>
              (map_option ow_session_id (hm_get (owners (rt_state rt')) n) =
                (case hm_get (tunnels (rt_state rt)) n of
                   None \<Rightarrow> None
                 | Some spec \<Rightarrow>
                     if eligible (new_session dev grp digest conn now svcs) n spec then Some sid else None))))"
proof -
  have inv: "state_inv (rt_state rt)" using rt_reachable_inv[OF reach] by (simp add: rt_inv_def)
  then have wf: "hm_wf (sessions (rt_state rt))" and le: "length (sessions (rt_state rt)) \<le> 128"
    by (simp_all add: rt_inv_defs MAX_ONLINE_CLIENTS_def)
  have dev: "list_ex (\<lambda>se. se_device_id se = dev) (hm_values (sessions (rt_state rt))) \<longleftrightarrow>
      (\<exists>i se. hm_get (sessions (rt_state rt)) i = Some se \<and> se_device_id se = dev)"
    by (force simp: list_ex_iff hm_values_def hm_in_set_iff[OF wf, symmetric])
  have refusals: "(r = Inl Capacity \<longleftrightarrow> length (sessions (rt_state rt)) = 128)
    \<and> (r = Inl CredentialsChanged \<longleftrightarrow> length (sessions (rt_state rt)) < 128
         \<and> hm_get (credentials_of (rt_state rt)) grp \<noteq> Some digest)
    \<and> (r = Inl RegDeviceIdConflict \<longleftrightarrow> length (sessions (rt_state rt)) < 128
         \<and> hm_get (credentials_of (rt_state rt)) grp = Some digest
         \<and> (\<exists>i se. hm_get (sessions (rt_state rt)) i = Some se \<and> se_device_id se = dev))
    \<and> (r \<noteq> Inr () \<longrightarrow> rt' = rt)"
    using call le unfolding register_def Let_def dev MAX_ONLINE_CLIENTS_def
    by (auto split: if_splits prod.splits)
  let ?se = "new_session dev grp digest conn now svcs"
  let ?st = "(rt_state rt)\<lparr>sessions := hm_insert sid ?se (sessions (rt_state rt))\<rparr>"
  have acc: "(\<forall>i. hm_get (sessions (rt_state rt')) i = (if i = sid then Some ?se else hm_get (sessions (rt_state rt)) i))
      \<and> (\<forall>n ow. hm_get (owners (rt_state rt)) n = Some ow \<longrightarrow> hm_get (owners (rt_state rt')) n = Some ow)
      \<and> (\<forall>n. hm_get (owners (rt_state rt)) n = None \<longrightarrow>
           map_option ow_session_id (hm_get (owners (rt_state rt')) n) =
             (case hm_get (tunnels (rt_state rt)) n of None \<Rightarrow> None | Some spec \<Rightarrow> if eligible ?se n spec then Some sid else None))"
    if ok: "r = Inr ()"
  proof -
    obtain st' tk' where c: "claim_available sid (?st, rt_tokens rt) = (st', tk')" and st': "rt_state rt' = st'"
      using register_accepts[OF call[unfolded ok]] by auto
    have ce: "claim_effect sid ?st (rt_tokens rt) st' tk'"
      by (rule claim_available_effect[OF _ c]) (use inv in \<open>simp add: rt_inv_defs\<close>)
    then have sess: "sessions st' = hm_insert sid ?se (sessions (rt_state rt))"
      and kept: "hm_get (owners (rt_state rt)) n = Some ow \<Longrightarrow> hm_get (owners st') n = Some ow"
      and new: "hm_get (owners st') n = Some ow \<Longrightarrow> hm_get (owners (rt_state rt)) n = None \<Longrightarrow>
        ow_session_id ow = sid \<and> owner_valid ?st n ow"
      and complete: "hm_get (tunnels (rt_state rt)) n = Some spec \<Longrightarrow> eligible ?se n spec \<Longrightarrow>
        hm_get (owners st') n \<noteq> None" for n ow spec
      by (simp_all add: claim_effect_def hm_simps)
    have claim: "map_option ow_session_id (hm_get (owners st') n) =
        (case hm_get (tunnels (rt_state rt)) n of None \<Rightarrow> None | Some spec \<Rightarrow> if eligible ?se n spec then Some sid else None)"
      if "hm_get (owners (rt_state rt)) n = None" for n
    proof (cases "hm_get (owners st') n")
      case None
      with complete[of n] show ?thesis by (auto split: option.splits)
    next
      case (Some ow)
      with new[OF Some that] show ?thesis by (auto simp: owner_valid_def hm_simps)
    qed
    show ?thesis unfolding st' using sess kept claim by (simp add: hm_simps)
  qed
  show ?thesis using refusals acc by blast
qed

theorem register_outcome_witness:
  "fst (register 2 ''dev'' ''team'' [1] sample_connection 0 [] sample_runtime) = Inl RegDeviceIdConflict
   \<and> snd (register 2 ''dev'' ''team'' [1] sample_connection 0 [] sample_runtime) = sample_runtime"
proof -
  obtain r rt' where call: "register 2 ''dev'' ''team'' [1] sample_connection 0 [] sample_runtime = (r, rt')"
    by (cases "register 2 ''dev'' ''team'' [1] sample_connection 0 [] sample_runtime")
  note P = register_outcome[OF sample_runtime_reachable sample_runtime_eval(2) call]
  have "length (sessions (rt_state sample_runtime)) < 128"
    by (simp add: sample_runtime_def runtime_eval)
  moreover have "\<exists>i se. hm_get (sessions (rt_state sample_runtime)) i = Some se \<and> se_device_id se = ''dev''"
    by (rule exI[of _ 1], rule exI, rule conjI, rule sample_runtime_eval(1)) (simp add: new_session_def)
  ultimately have "r = Inl RegDeviceIdConflict" using P sample_runtime_eval(5) by blast
  with P call show ?thesis by simp
qed

definition owns :: "RuntimeState \<Rightarrow> u64 \<Rightarrow> string set" where
  "owns st sid = {n. \<exists>ow. hm_get (owners st) n = Some ow \<and> ow_session_id ow = sid}"

lemma owned_tunnels_set: "hm_wf (owners st) \<Longrightarrow> set (owned_tunnels st sid) = owns st sid"
  by (force simp: owned_tunnels_def owns_def hm_in_set_iff[symmetric])

lemma owned_tunnels_distinct: "hm_wf (owners st) \<Longrightarrow> distinct (owned_tunnels st sid)"
  by (simp add: owned_tunnels_def hm_wf_def distinct_map_filter)

lemma length_filter_notin: "distinct xs \<Longrightarrow> length (filter (\<lambda>x. x \<notin> A) xs) = card (set xs - A)"
  by (subst distinct_card[symmetric]) (auto intro: arg_cong[where f = card])

lemma update_services_state:
  assumes inv: "rt_inv rt" and se: "hm_get (sessions (rt_state rt)) sid = Some se"
    and call: "update_services sid svcs rt = (ou, rt')"
    and new: "new = se\<lparr>se_services := service_map svcs\<rparr>"
  shows "hm_get (sessions (rt_state rt')) i = (if i = sid then Some new else hm_get (sessions (rt_state rt)) i)"
    and "tunnels (rt_state rt') = tunnels (rt_state rt)"
    and "hm_get (owners (rt_state rt)) n = Some ow \<Longrightarrow> ow_session_id ow \<noteq> sid \<Longrightarrow> hm_get (owners (rt_state rt')) n = Some ow"
    and "n \<in> owns (rt_state rt') sid \<longleftrightarrow>
      (\<exists>spec. hm_get (tunnels (rt_state rt)) n = Some spec \<and> eligible new n spec)
      \<and> (\<forall>ow. hm_get (owners (rt_state rt)) n = Some ow \<longrightarrow> ow_session_id ow = sid)"
    and "n \<in> owns (rt_state rt) sid \<Longrightarrow> n \<in> owns (rt_state rt') sid \<Longrightarrow>
      hm_get (owners (rt_state rt')) n = hm_get (owners (rt_state rt)) n"
    and "hm_wf (owners (rt_state rt'))"
proof -
  define st1 where "st1 = (rt_state rt)\<lparr>sessions := hm_insert sid new (sessions (rt_state rt))\<rparr>"
  obtain st2 tk where c: "claim_available sid (retain_valid_owners st1, rt_tokens rt) = (st2, tk)"
    by (cases "claim_available sid (retain_valid_owners st1, rt_tokens rt)")
  have st2: "rt_state rt' = st2"
    using call update_services_unfold[OF se st1_def[unfolded new] c refl refl refl] by (auto split: if_splits)
  have st: "state_inv (rt_state rt)" using inv by (simp add: rt_inv_def)
  note S = set_services_state[OF st se st1_def[unfolded new]]
  then have wf1: "hm_wf (owners st1)" and wt: "hm_wf (tunnels (retain_valid_owners st1))" by (simp_all add: maps_wf_def)
  have ce: "claim_effect sid (retain_valid_owners st1) (rt_tokens rt) st2 tk" by (rule claim_available_effect[OF wt c])
  have get1: "hm_get (sessions st1) i = (if i = sid then Some new else hm_get (sessions (rt_state rt)) i)" for i
    by (simp add: st1_def hm_simps)
  have own1: "hm_get (owners (retain_valid_owners st1)) n = Some ow \<longleftrightarrow>
      hm_get (owners (rt_state rt)) n = Some ow \<and> owner_valid st1 n ow" for n ow
    using get_owners_retain_valid[OF wf1] by (simp add: st1_def)
  have kept: "hm_get (owners st2) n = Some ow" if "hm_get (owners (retain_valid_owners st1)) n = Some ow" for n ow
    using ce that by (simp add: claim_effect_def)
  have fresh: "ow_session_id ow = sid \<and> owner_valid st1 n ow"
    if "hm_get (owners st2) n = Some ow" "hm_get (owners (retain_valid_owners st1)) n = None" for n ow
    using ce that by (simp add: claim_effect_def)
  have complete: "hm_get (owners st2) n \<noteq> None" if "hm_get (tunnels (rt_state rt)) n = Some spec" "eligible new n spec" for n spec
    using ce that unfolding claim_effect_def by (simp add: get1 st1_def hm_simps)
  have other: "owner_valid st1 n ow" if "hm_get (owners (rt_state rt)) n = Some ow" "ow_session_id ow \<noteq> sid" for n ow
    using st that by (auto simp: state_inv_def owners_ok_def owner_valid_def get1) (auto simp: st1_def)
  show "hm_get (sessions (rt_state rt')) i = (if i = sid then Some new else hm_get (sessions (rt_state rt)) i)"
    "tunnels (rt_state rt') = tunnels (rt_state rt)"
    using ce get1 by (simp_all add: st2 claim_effect_def st1_def)
  show o3: "hm_get (owners (rt_state rt')) n = Some ow"
    if "hm_get (owners (rt_state rt)) n = Some ow" "ow_session_id ow \<noteq> sid" for n ow
    using kept own1 other that by (simp add: st2)
  have valid_sid: "owner_valid st1 n ow \<longleftrightarrow> (\<exists>spec. hm_get (tunnels (rt_state rt)) n = Some spec \<and> eligible new n spec)"
    if "ow_session_id ow = sid" for n ow
    using that by (simp add: owner_valid_def get1 st1_def hm_simps)
  show "n \<in> owns (rt_state rt') sid \<longleftrightarrow>
      (\<exists>spec. hm_get (tunnels (rt_state rt)) n = Some spec \<and> eligible new n spec)
      \<and> (\<forall>ow. hm_get (owners (rt_state rt)) n = Some ow \<longrightarrow> ow_session_id ow = sid)" (is "?l \<longleftrightarrow> ?r")
  proof
    assume ?l
    then obtain ow where ow: "hm_get (owners st2) n = Some ow" "ow_session_id ow = sid" by (auto simp: owns_def st2)
    have "owner_valid st1 n ow"
      using fresh[OF ow(1)] kept[of n] own1[of n] ow by (cases "hm_get (owners (retain_valid_owners st1)) n") auto
    with valid_sid[OF ow(2)] o3[of n] ow show ?r by (auto simp: st2)
  next
    assume r: ?r
    then obtain ow where ow: "hm_get (owners st2) n = Some ow" using complete by blast
    have "ow_session_id ow = sid"
      using fresh[OF ow] kept[of n] own1[of n] ow r by (cases "hm_get (owners (retain_valid_owners st1)) n") auto
    with ow show ?l by (simp add: owns_def st2)
  qed
  note owns_iff = this
  show "hm_get (owners (rt_state rt')) n = hm_get (owners (rt_state rt)) n"
    if before: "n \<in> owns (rt_state rt) sid" and after: "n \<in> owns (rt_state rt') sid"
  proof -
    from before obtain ow where ow: "hm_get (owners (rt_state rt)) n = Some ow" "ow_session_id ow = sid"
      by (auto simp: owns_def)
    with owns_iff after valid_sid[OF ow(2)] have "owner_valid st1 n ow" by blast
    with ow kept[of n ow] own1[of n ow] show ?thesis by (simp add: st2)
  qed
  show "hm_wf (owners (rt_state rt'))" using ce wf1 by (auto simp: claim_effect_def st2)
qed

text \<open>
  C4: Updating the declared services of an online session. Afterwards the session owns exactly
  the tunnels it is eligible for that no other session owns, other sessions keep theirs, a tunnel
  owned before and after keeps its owner record, and the reported counts are the sizes of the
  owned, newly claimed and released sets. Watchers are notified exactly when the update reports
  a change, and a report of no change means the ownership of the session did not change.
\<close>

theorem update_services_outcome:
  assumes reach: "rt_reachable sha256 rt" and se: "hm_get (sessions (rt_state rt)) sid = Some se"
    and call: "update_services sid svcs rt = (ou, rt')"
    and new: "new = se\<lparr>se_services := service_map svcs\<rparr>"
  shows "\<exists>u. ou = Some u
    \<and> (\<forall>i. hm_get (sessions (rt_state rt')) i = (if i = sid then Some new else hm_get (sessions (rt_state rt)) i))
    \<and> owns (rt_state rt') sid = {n. (\<exists>spec. hm_get (tunnels (rt_state rt)) n = Some spec \<and> eligible new n spec)
         \<and> (\<forall>ow. hm_get (owners (rt_state rt)) n = Some ow \<longrightarrow> ow_session_id ow = sid)}
    \<and> (\<forall>n ow. hm_get (owners (rt_state rt)) n = Some ow \<and> ow_session_id ow \<noteq> sid \<longrightarrow> hm_get (owners (rt_state rt')) n = Some ow)
    \<and> (\<forall>n \<in> owns (rt_state rt) sid \<inter> owns (rt_state rt') sid.
         hm_get (owners (rt_state rt')) n = hm_get (owners (rt_state rt)) n)
    \<and> su_active_tunnels u = card (owns (rt_state rt') sid)
    \<and> su_claimed_tunnels u = card (owns (rt_state rt') sid - owns (rt_state rt) sid)
    \<and> su_released_tunnels u = card (owns (rt_state rt) sid - owns (rt_state rt') sid)
    \<and> rt_revision rt' = (if su_changed u then rt_revision rt + 1 else rt_revision rt)
    \<and> (\<not> su_changed u \<longrightarrow> owns (rt_state rt') sid = owns (rt_state rt) sid)"
proof -
  have inv: "rt_inv rt" using reach by (rule rt_reachable_inv)
  note S = update_services_state[OF inv se call new]
  have wf: "hm_wf (owners (rt_state rt))" using inv by (simp add: rt_inv_defs)
  obtain u where u: "ou = Some u" and
    counts: "su_active_tunnels u = length (owned_tunnels (rt_state rt') sid)"
      "su_claimed_tunnels u = length (filter (\<lambda>n. n \<notin> set (owned_tunnels (rt_state rt) sid)) (owned_tunnels (rt_state rt') sid))"
      "su_released_tunnels u = length (filter (\<lambda>n. n \<notin> set (owned_tunnels (rt_state rt') sid)) (owned_tunnels (rt_state rt) sid))"
      "rt_revision rt' = (if su_changed u then rt_revision rt + 1 else rt_revision rt)"
      "\<not> su_changed u \<longrightarrow> su_claimed_tunnels u = 0 \<and> su_released_tunnels u = 0"
    using call se by (auto simp: update_services_def Let_def notify_def split: prod.splits if_splits)
  note W = owned_tunnels_set[OF wf, of sid] owned_tunnels_set[OF S(6), of sid]
  note D = owned_tunnels_distinct[OF wf, of sid] owned_tunnels_distinct[OF S(6), of sid]
  have cards: "su_active_tunnels u = card (owns (rt_state rt') sid)"
    "su_claimed_tunnels u = card (owns (rt_state rt') sid - owns (rt_state rt) sid)"
    "su_released_tunnels u = card (owns (rt_state rt) sid - owns (rt_state rt') sid)"
    using counts D W distinct_card[OF D(2)] by (simp_all add: length_filter_notin)
  have fin: "finite (owns (rt_state rt) sid)" "finite (owns (rt_state rt') sid)"
    using W[symmetric] by (simp_all only: finite_set)
  have "owns (rt_state rt') sid = owns (rt_state rt) sid" if "\<not> su_changed u"
    using counts(5) cards(2,3) fin that by auto
  moreover have "owns (rt_state rt') sid = {n. (\<exists>spec. hm_get (tunnels (rt_state rt)) n = Some spec \<and> eligible new n spec)
      \<and> (\<forall>ow. hm_get (owners (rt_state rt)) n = Some ow \<longrightarrow> ow_session_id ow = sid)}"
    using S(4) by blast
  ultimately show ?thesis using u S(1,3,5) cards counts(4) by blast
qed

theorem update_services_outcome_witness:
  "\<exists>u. fst (update_services 1 [] sample_runtime) = Some u \<and> su_released_tunnels u = 1
    \<and> owns (rt_state (snd (update_services 1 [] sample_runtime))) 1 = {}"
proof -
  let ?rt = "snd (update_services 1 [] sample_runtime)"
  obtain ou rt' where call: "update_services 1 [] sample_runtime = (ou, rt')"
    by (cases "update_services 1 [] sample_runtime")
  note P = update_services_outcome[OF sample_runtime_reachable sample_runtime_eval(1) call refl]
  have none: "\<not> eligible (se\<lparr>se_services := service_map []\<rparr>) n spec" for se :: SessionEntry and n spec
    by (simp add: eligible_def service_map_def hm_collect_def)
  have owned: "owns (rt_state sample_runtime) 1 = {''web''}"
    by (auto simp: owns_def sample_runtime_def runtime_eval split: if_splits)
  from P none have "owns (rt_state rt') 1 = {}" by auto
  with P owned call show ?thesis by auto
qed

text \<open>
  C7: The catalogue sent to a client is sorted by tunnel name without duplicates, lists exactly
  the tunnels of the client's group, and marks a tunnel enabled exactly when a public connection
  to it would be handed to this client's session, occupied when another session owns it.
\<close>

theorem catalog_correct:
  assumes reach: "rt_reachable sha256 rt" and se: "hm_get (sessions (rt_state rt)) sid = Some se"
  shows "sorted (map ct_name (catalog rt sid)) \<and> distinct (map ct_name (catalog rt sid))
    \<and> set (map ct_name (catalog rt sid)) =
        {n. \<exists>spec. hm_get (tunnels (rt_state rt)) n = Some spec \<and> sp_group spec = se_group se}
    \<and> (\<forall>ct \<in> set (catalog rt sid).
         (ct_state ct = Enabled \<longleftrightarrow> ct_name ct \<in> owns (rt_state rt) sid)
         \<and> (ct_state ct = Enabled \<longrightarrow> map_option cl_connection (find_tunnel rt (ct_name ct)) = Some (se_connection se))
         \<and> (ct_state ct = Idle \<longleftrightarrow> find_tunnel rt (ct_name ct) = None))"
proof -
  let ?st = "rt_state rt"
  have inv: "state_inv ?st" using rt_reachable_inv[OF reach] by (simp add: rt_inv_def)
  then have wf: "hm_wf (tunnels ?st)" and own: "owners_ok ?st" by (simp_all add: rt_inv_defs)
  let ?es = "filter (\<lambda>(_, spec). sp_group spec = se_group se) (tunnels ?st)"
  have cat: "catalog rt sid = sort_key ct_name (map (catalog_entry ?st sid) ?es)"
    using se by (simp add: catalog_def Let_def)
  have name: "ct_name (catalog_entry ?st sid e) = fst e" for e by (cases e) (simp add: catalog_entry_def)
  have names: "map ct_name (map (catalog_entry ?st sid) ?es) = map fst ?es" by (simp add: name)
  have "distinct (map fst ?es)" using wf by (simp add: hm_wf_def distinct_map_filter)
  then have dist: "distinct (map ct_name (catalog rt sid))"
    unfolding cat distinct_map_sort_key names .
  have "set (map ct_name (catalog rt sid)) = fst ` set ?es" by (simp add: cat image_image name)
  also have "\<dots> = {n. \<exists>spec. hm_get (tunnels ?st) n = Some spec \<and> sp_group spec = se_group se}"
    using wf by (force simp: hm_in_set_iff[symmetric])
  finally have ns: "set (map ct_name (catalog rt sid)) = \<dots>" .
  have state: "(ct_state ct = Enabled \<longleftrightarrow> ct_name ct \<in> owns ?st sid)
      \<and> (ct_state ct = Enabled \<longrightarrow> map_option cl_connection (find_tunnel rt (ct_name ct)) = Some (se_connection se))
      \<and> (ct_state ct = Idle \<longleftrightarrow> find_tunnel rt (ct_name ct) = None)" if "ct \<in> set (catalog rt sid)" for ct
  proof -
    from that obtain n spec where ct: "ct = catalog_entry ?st sid (n, spec)" by (auto simp: cat)
    show ?thesis
    proof (cases "hm_get (owners ?st) n")
      case None
      then show ?thesis by (simp add: ct catalog_entry_def owns_def find_tunnel_def)
    next
      case (Some ow)
      then obtain se' where "hm_get (sessions ?st) (ow_session_id ow) = Some se'"
        using own by (auto simp: owners_ok_def owner_valid_def)
      with Some se show ?thesis by (auto simp: ct catalog_entry_def owns_def find_tunnel_def)
    qed
  qed
  show ?thesis using dist ns state by (simp add: cat)
qed

theorem catalog_correct_witness:
  "map ct_name (catalog sample_runtime 1) = [''web''] \<and> sorted (map ct_name (catalog sample_runtime 1))"
proof -
  note P = catalog_correct[OF sample_runtime_reachable sample_runtime_eval(1)]
  have "catalog sample_runtime 1 = [catalog_entry (rt_state sample_runtime) 1 (''web'', tunnel_spec sample_tunnel)]"
    by (simp add: catalog_def sample_runtime_eval, simp add: sample_runtime_def new_session_def runtime_eval)
  with P show ?thesis by (simp add: catalog_entry_def)
qed

text \<open>
  Taking one tunnel from a client. The errors are reported in the order session, tunnel,
  ownership and change nothing; a success cancels the token of this tunnel, and no other, stops
  routing to it and leaves every other tunnel and every session online, with only the
  declaration of this tunnel removed.
\<close>

theorem disconnect_tunnel_outcome:
  assumes reach: "rt_reachable sha256 rt" and call: "disconnect_tunnel sid tunnel rt = (r, rt')"
  shows "(r = Inl SessionNotFound \<longleftrightarrow> hm_get (sessions (rt_state rt)) sid = None)
    \<and> (r = Inl TunnelNotFound \<longleftrightarrow> hm_get (sessions (rt_state rt)) sid \<noteq> None \<and> hm_get (tunnels (rt_state rt)) tunnel = None)
    \<and> (r \<noteq> Inr () \<longrightarrow> rt' = rt)
    \<and> (r = Inr () \<longleftrightarrow> tunnel \<in> owns (rt_state rt) sid)
    \<and> (r = Inr () \<longrightarrow>
         find_tunnel rt' tunnel = None
         \<and> (\<forall>cs. find_tunnel rt tunnel = Some cs \<longrightarrow> rt_cancelled rt' = rt_cancelled rt @ [cl_tunnel_shutdown cs])
         \<and> (\<forall>n. n \<noteq> tunnel \<longrightarrow> find_tunnel rt' n = find_tunnel rt n)
         \<and> (\<forall>i. map_option se_connection (hm_get (sessions (rt_state rt')) i) = map_option se_connection (hm_get (sessions (rt_state rt)) i))
         \<and> rt_closed rt' = rt_closed rt)"
proof -
  have own: "owners_ok (rt_state rt)" using rt_reachable_inv[OF reach] by (simp add: rt_inv_def state_inv_def)
  show ?thesis
  proof (cases "tunnel \<in> owns (rt_state rt) sid")
    case False
    with call own show ?thesis
      by (auto simp: disconnect_tunnel_def hm_contains_iff Let_def owns_def split: if_splits option.splits)
  next
    case True
    then obtain ow where ow: "hm_get (owners (rt_state rt)) tunnel = Some ow" "ow_session_id ow = sid"
      by (auto simp: owns_def)
    with own obtain se spec where se: "hm_get (sessions (rt_state rt)) sid = Some se"
      and spec: "hm_get (tunnels (rt_state rt)) tunnel = Some spec"
      unfolding owners_ok_def owner_valid_def by blast
    let ?rt = "notify (rt\<lparr>rt_state := (rt_state rt)\<lparr>
         sessions := hm_insert sid (se\<lparr>se_services := hm_remove tunnel (se_services se)\<rparr>) (sessions (rt_state rt)),
         owners := hm_remove tunnel (owners (rt_state rt))\<rparr>,
       rt_cancelled := rt_cancelled rt @ [ow_shutdown ow]\<rparr>)"
    have r: "r = Inr ()" and rt': "rt' = ?rt" using call disconnect_tunnel_ok[OF se spec ow] by simp_all
    have same: "find_tunnel rt' n = find_tunnel rt n" if "n \<noteq> tunnel" for n
      using that se by (auto simp: rt' find_tunnel_def hm_simps split: option.splits)
    have "find_tunnel rt' tunnel = None" by (simp add: rt' find_tunnel_def hm_simps)
    moreover have "rt_cancelled rt' = rt_cancelled rt @ [cl_tunnel_shutdown cs]" if "find_tunnel rt tunnel = Some cs" for cs
      using that ow se by (auto simp: rt' find_tunnel_def)
    moreover have "map_option se_connection (hm_get (sessions (rt_state rt')) i)
        = map_option se_connection (hm_get (sessions (rt_state rt)) i)" for i
      using se by (simp add: rt' hm_simps)
    moreover have "rt_closed rt' = rt_closed rt" by (simp add: rt')
    ultimately show ?thesis using r True se spec same by simp
  qed
qed

theorem disconnect_tunnel_outcome_witness:
  "fst (disconnect_tunnel 1 ''web'' sample_runtime) = Inr ()
   \<and> find_tunnel (snd (disconnect_tunnel 1 ''web'' sample_runtime)) ''web'' = None"
proof -
  obtain r rt' where call: "disconnect_tunnel 1 ''web'' sample_runtime = (r, rt')"
    by (cases "disconnect_tunnel 1 ''web'' sample_runtime")
  have "''web'' \<in> owns (rt_state sample_runtime) 1" by (simp add: owns_def sample_runtime_eval)
  with disconnect_tunnel_outcome[OF sample_runtime_reachable call] call show ?thesis by simp
qed

text \<open>
  C11: Waiting for a configuration. A caller that reads the revision, and whose configuration is
  then applied or fails, obtains the status of that attempt as soon as it observes it, with the
  error exactly when the attempt failed; whatever it observes before or after, a returned status
  belongs to the configuration it asked for and to a later revision. Without such an observation
  the result is \<open>None\<close>.
\<close>

theorem wait_for_config_correct:
  assumes fp: "config_fingerprint sha256 to_toml c = Inr f"
    and report: "(err = None \<and> report_config_applied sha256 to_toml c rt = (r, rt'))
      \<or> (\<exists>e. err = Some e \<and> report_config_failed sha256 to_toml c e rt = (r, rt'))"
    and earlier: "\<forall>s \<in> set earlier. ca_revision s = config_revision rt \<or> ca_fingerprint s \<noteq> Some f"
  shows "r = Inr () \<and> config_revision rt' = config_revision rt + 1
    \<and> (\<exists>s. wait_for_config sha256 to_toml c (config_revision rt) (earlier @ rt_config_status rt' # later) = Inr (Some s)
         \<and> s = rt_config_status rt' \<and> ca_last_apply_error s = err)
    \<and> wait_for_config sha256 to_toml c (config_revision rt) earlier = Inr None
    \<and> (\<forall>observed s. wait_for_config sha256 to_toml c (config_revision rt) observed = Inr (Some s) \<longrightarrow>
         s \<in> set observed \<and> ca_fingerprint s = Some f \<and> ca_revision s \<noteq> config_revision rt)"
proof -
  have rt': "r = Inr ()" "rt' = publish_config_status f err rt"
    using report fp by (auto simp: report_config_applied_def report_config_failed_def)
  have skip: "wait_loop f (config_revision rt) (earlier @ ss) = wait_loop f (config_revision rt) ss" for ss
    using earlier by (induction earlier) auto
  have sound: "s \<in> set obs \<and> ca_fingerprint s = Some f \<and> ca_revision s \<noteq> rev"
    if "wait_loop f rev obs = Some s" for obs s rev
    using that by (induction obs) (auto split: if_splits)
  have new: "ca_revision (rt_config_status rt) + 1 \<noteq> ca_revision (rt_config_status rt)" by simp
  show ?thesis
    using rt' skip[of "rt_config_status rt' # later"] skip[of "[]"] sound new
    by (auto simp: wait_for_config_def fp publish_config_status_def config_revision_def)
qed

definition sample_server :: ServerConfig where
  "sample_server =
     \<lparr>sc_quic = \<lparr>q_bind = SocketAddrV4 0 4433, q_certificate = Path True [''cert''], q_private_key = Path True [''key'']\<rparr>,
      sc_groups = [], sc_tunnels = [sample_tunnel]\<rparr>"

theorem wait_for_config_correct_witness:
  "\<exists>s. wait_for_config (\<lambda>b. b) (\<lambda>_. Some ''x'') sample_server 0 [rt_config_status (snd (report_config_applied (\<lambda>b. b) (\<lambda>_. Some ''x'') sample_server runtime_default))]
      = Inr (Some s) \<and> ca_last_apply_error s = None"
proof -
  have fp: "config_fingerprint (\<lambda>b. b) (\<lambda>_. Some ''x'') sample_server = Inr (str_bytes ''x'')" by (simp add: config_fingerprint_def)
  have zero: "config_revision runtime_default = 0" by (simp add: config_revision_def runtime_default_def)
  obtain r rt' where call: "report_config_applied (\<lambda>b. b) (\<lambda>_. Some ''x'') sample_server runtime_default = (r, rt')"
    by (cases "report_config_applied (\<lambda>b. b) (\<lambda>_. Some ''x'') sample_server runtime_default")
  from wait_for_config_correct[OF fp, of None runtime_default r rt' "[]" "[]"] call show ?thesis
    by (simp add: zero)
qed

end
