(* ===== verification/Listener_Manager.thy ===== *)
theory Listener_Manager
  imports Tunnel_Runtime
begin

text \<open>
  \<open>gaterust-tunnel/src/server/mod.rs\<close> (\<open>ListenerManager\<close>, \<open>same_listener\<close>) and
  \<open>server/endpoint.rs\<close>: the public listeners of the tunnels, the QUIC endpoint, and
  \<open>reload_server\<close>, which applies a changed configuration to both with rollback.

  What the operating system answers to a bind is a parameter that may depend on the number of
  listeners started before, so any history of successes and failures is covered. A listener is
  identified by the number of its start; a rate limiter (shared through an \<open>Arc\<close>) by the
  number of its creation.
\<close>

section \<open>Listeners\<close>

record ListenerHandle =
  lh_config :: ServerTunnelConfig
  lh_task :: nat
  lh_limiter :: nat

record LimiterEntry =
  le_limit :: "u64 option"
  le_limiter :: nat

record ListenerManager =
  lm_limiters :: "(string, LimiterEntry) hm"
  lm_active :: "(string, ListenerHandle) hm"
  lm_retired :: "nat list"
  lm_cancelled :: "nat list"
  lm_starts :: nat
  lm_next_limiter :: nat

definition manager_new :: ListenerManager where
  "manager_new =
     \<lparr>lm_limiters = [], lm_active = [], lm_retired = [], lm_cancelled = [], lm_starts = 0, lm_next_limiter = 0\<rparr>"

definition manager_configs :: "ListenerManager \<Rightarrow> ServerTunnelConfig list" where
  "manager_configs lm = map lh_config (hm_values (lm_active lm))"

definition same_listener :: "ServerTunnelConfig \<Rightarrow> ServerTunnelConfig \<Rightarrow> bool" where
  "same_listener current updated =
     (t_name current = t_name updated \<and> t_kind current = t_kind updated \<and> t_bind current = t_bind updated
      \<and> t_limit_bps current = t_limit_bps updated
      \<and> (case t_kind current of
           Udp \<Rightarrow> t_max_udp_sessions current = t_max_udp_sessions updated
                  \<and> t_udp_idle_seconds current = t_udp_idle_seconds updated
         | _ \<Rightarrow> t_max_connections current = t_max_connections updated))"

text \<open>\<open>start_listener\<close>: binds and spawns the task; nothing is kept when the bind fails.\<close>

type_synonym bind_env = "nat \<Rightarrow> ServerTunnelConfig \<Rightarrow> (TunnelError, unit) res"

definition start_listener ::
  "bind_env \<Rightarrow> ServerTunnelConfig \<Rightarrow> nat \<Rightarrow> ListenerManager \<Rightarrow> (TunnelError, ListenerHandle) res \<times> ListenerManager" where
  "start_listener env config limiter lm =
     (let n = lm_starts lm; lm1 = lm\<lparr>lm_starts := Suc n\<rparr>
      in case env n config of
           Inl e \<Rightarrow> (Inl e, lm1)
         | Inr _ \<Rightarrow> (Inr \<lparr>lh_config = config, lh_task = n, lh_limiter = limiter\<rparr>, lm1))"

definition stop :: "string \<Rightarrow> ListenerManager \<Rightarrow> ListenerManager" where
  "stop name lm =
     (case hm_get (lm_active lm) name of
        None \<Rightarrow> lm
      | Some handle \<Rightarrow>
          lm\<lparr>lm_active := hm_remove name (lm_active lm),
             lm_cancelled := lm_cancelled lm @ [lh_task handle],
             lm_retired := lm_retired lm @ [lh_task handle]\<rparr>)"

text \<open>The limiter of a listener that is started: the stored one when its limit is unchanged.\<close>

definition limiter_for :: "ServerTunnelConfig \<Rightarrow> ListenerManager \<Rightarrow> nat \<times> ListenerManager" where
  "limiter_for config lm =
     (let create = (lm_next_limiter lm,
            lm\<lparr>lm_limiters := hm_insert (t_name config)
                  \<lparr>le_limit = t_limit_bps config, le_limiter = lm_next_limiter lm\<rparr> (lm_limiters lm),
               lm_next_limiter := Suc (lm_next_limiter lm)\<rparr>)
      in case hm_get (lm_limiters lm) (t_name config) of
           Some entry \<Rightarrow> if le_limit entry = t_limit_bps config then (le_limiter entry, lm) else create
         | None \<Rightarrow> create)"

definition start_missing ::
  "bind_env \<Rightarrow> ServerTunnelConfig \<Rightarrow> ListenerManager \<Rightarrow> (TunnelError, unit) res \<times> ListenerManager" where
  "start_missing env config lm =
     (if hm_contains (lm_active lm) (t_name config) then (Inr (), lm)
      else (case limiter_for config lm of
              (limiter, lm1) \<Rightarrow>
                (case start_listener env config limiter lm1 of
                   (Inl e, lm2) \<Rightarrow> (Inl e, lm2)
                 | (Inr handle, lm2) \<Rightarrow>
                     (Inr (), lm2\<lparr>lm_active := hm_insert (t_name config) handle (lm_active lm2)\<rparr>))))"

primrec start_all ::
  "bind_env \<Rightarrow> ServerTunnelConfig list \<Rightarrow> ListenerManager \<Rightarrow> (TunnelError, unit) res \<times> ListenerManager" where
  "start_all env [] lm = (Inr (), lm)"
| "start_all env (config # configs) lm =
     (case start_missing env config lm of
        (Inl e, lm1) \<Rightarrow> (Inl e, lm1)
      | (Inr _, lm1) \<Rightarrow> start_all env configs lm1)"

definition refresh_config :: "ServerTunnelConfig \<Rightarrow> ListenerManager \<Rightarrow> ListenerManager" where
  "refresh_config config lm =
     (case hm_get (lm_active lm) (t_name config) of
        None \<Rightarrow> lm
      | Some handle \<Rightarrow> lm\<lparr>lm_active := hm_insert (t_name config) (handle\<lparr>lh_config := config\<rparr>) (lm_active lm)\<rparr>)"

definition desired_map :: "ServerTunnelConfig list \<Rightarrow> (string, ServerTunnelConfig) hm" where
  "desired_map configs = hm_collect (map (\<lambda>c. (t_name c, c)) configs)"

definition removed_names :: "ServerTunnelConfig list \<Rightarrow> ListenerManager \<Rightarrow> string list" where
  "removed_names configs lm =
     map fst (filter (\<lambda>(name, handle).
         (case hm_get (desired_map configs) name of
            None \<Rightarrow> True
          | Some config \<Rightarrow> \<not> same_listener (lh_config handle) config)) (lm_active lm))"

definition apply_once ::
  "bind_env \<Rightarrow> ServerTunnelConfig list \<Rightarrow> ListenerManager \<Rightarrow> (TunnelError, unit) res \<times> ListenerManager" where
  "apply_once env configs lm =
     (let lm1 = fold stop (removed_names configs lm) lm
      in case start_all env configs lm1 of
           (Inl e, lm2) \<Rightarrow> (Inl e, lm2)
         | (Inr _, lm2) \<Rightarrow>
             (let lm3 = fold refresh_config configs lm2
              in (Inr (), lm3\<lparr>lm_limiters := hm_retain (\<lambda>name _. hm_contains (desired_map configs) name) (lm_limiters lm3)\<rparr>)))"

text \<open>\<open>Vec::swap_remove\<close> and the loop of \<open>reap_retired\<close>; \<open>finished\<close> tells which tasks have ended.\<close>

definition swap_remove :: "nat \<Rightarrow> 'a list \<Rightarrow> 'a list" where
  "swap_remove i xs = butlast (xs[i := last xs])"

function reap_from :: "(nat \<Rightarrow> bool) \<Rightarrow> nat \<Rightarrow> nat list \<Rightarrow> nat list" where
  "reap_from finished index xs =
     (if index < length xs
      then if finished (xs ! index) then reap_from finished index (swap_remove index xs)
           else reap_from finished (Suc index) xs
      else xs)"
  by pat_completeness auto
termination
  by (relation "measure (\<lambda>(_, index, xs). length xs - index)") (auto simp: swap_remove_def)

declare reap_from.simps [simp del]

definition reap_retired :: "(nat \<Rightarrow> bool) \<Rightarrow> ListenerManager \<Rightarrow> ListenerManager" where
  "reap_retired finished lm = lm\<lparr>lm_retired := reap_from finished 0 (lm_retired lm)\<rparr>"

definition manager_apply ::
  "bind_env \<Rightarrow> (nat \<Rightarrow> bool) \<Rightarrow> ServerTunnelConfig list \<Rightarrow> ListenerManager \<times> TunnelRuntime
   \<Rightarrow> (TunnelError, unit) res \<times> ListenerManager \<times> TunnelRuntime" where
  "manager_apply env finished configs s =
     (case s of (lm0, rt) \<Rightarrow>
        (let lm = reap_retired finished lm0;
             previous = manager_configs lm;
             previous_limiters = lm_limiters lm
         in case apply_once env configs lm of
              (Inr _, lm1) \<Rightarrow> (Inr (), lm1, apply_tunnels configs rt)
            | (Inl e, lm1) \<Rightarrow>
                (case apply_once env previous (lm1\<lparr>lm_limiters := previous_limiters\<rparr>) of
                   (Inl e', lm2) \<Rightarrow> (Inl (InvalidConfig ''applying the listeners failed and so did the rollback''), lm2, rt)
                 | (Inr _, lm2) \<Rightarrow> (Inl e, lm2, rt))))"

definition manager_shutdown :: "ListenerManager \<Rightarrow> ListenerManager" where
  "manager_shutdown lm = (fold stop (hm_keys (lm_active lm)) lm)\<lparr>lm_retired := []\<rparr>"

section \<open>The QUIC endpoint\<close>

text \<open>
  \<open>'c\<close> is the type of \<open>tls::ServerCredentials\<close>. Loading them, binding the new socket and
  rebinding the endpoint are parameters.
\<close>

record 'c QuicEndpoint =
  qe_config :: ServerQuicConfig
  qe_credentials :: 'c
  qe_socket :: SocketAddr

record 'c QuicUpdate =
  qu_config :: ServerQuicConfig
  qu_credentials :: 'c
  qu_socket :: "SocketAddr option"

record 'c quic_env =
  env_server_credentials :: "ServerQuicConfig \<Rightarrow> (TunnelError, 'c) res"
  env_udp_bind :: "SocketAddr \<Rightarrow> (io_error, unit) res"
  env_rebind :: "SocketAddr \<Rightarrow> (io_error, unit) res"

definition quic_prepare ::
  "'c quic_env \<Rightarrow> ServerQuicConfig \<Rightarrow> 'c QuicEndpoint \<Rightarrow> (TunnelError, 'c QuicUpdate option) res" where
  "quic_prepare env config q =
     (if config = qe_config q then Inr None
      else res_bind (env_server_credentials env config) (\<lambda>cr.
           if q_bind config \<noteq> q_bind (qe_config q)
           then res_bind (io_res (env_udp_bind env (q_bind config))) (\<lambda>_.
                Inr (Some \<lparr>qu_config = config, qu_credentials = cr, qu_socket = Some (q_bind config)\<rparr>))
           else Inr (Some \<lparr>qu_config = config, qu_credentials = cr, qu_socket = None\<rparr>)))"

definition quic_apply ::
  "'c quic_env \<Rightarrow> 'c QuicUpdate \<Rightarrow> 'c QuicEndpoint \<Rightarrow> (TunnelError, unit) res \<times> 'c QuicEndpoint" where
  "quic_apply env u q =
     (let commit = (\<lambda>q'. q'\<lparr>qe_credentials := qu_credentials u, qe_config := qu_config u\<rparr>)
      in case qu_socket u of
           None \<Rightarrow> (Inr (), commit q)
         | Some sock \<Rightarrow>
             (case env_rebind env sock of
                Inl e \<Rightarrow> (Inl (Io e), q)
              | Inr _ \<Rightarrow> (Inr (), commit (q\<lparr>qe_socket := sock\<rparr>))))"

section \<open>Reloading the configuration\<close>

record 'c server_state =
  ss_runtime :: TunnelRuntime
  ss_groups :: "(string \<times> bytes) list"
  ss_quic :: "'c QuicEndpoint"
  ss_listeners :: ListenerManager

record 'c server_env =
  se_quic :: "'c quic_env"
  se_bind :: bind_env
  se_finished :: "nat \<Rightarrow> bool"
  se_sha256 :: "bytes \<Rightarrow> bytes"
  se_to_toml :: "ServerConfig \<Rightarrow> string option"
  se_show :: "TunnelError \<Rightarrow> string"

text \<open>\<open>report_config_failed\<close>: a failure to record the status is only logged.\<close>

definition record_failure :: "'c server_env \<Rightarrow> ServerConfig \<Rightarrow> string \<Rightarrow> 'c server_state \<Rightarrow> 'c server_state" where
  "record_failure env config err s =
     s\<lparr>ss_runtime := snd (report_config_failed (se_sha256 env) (se_to_toml env) config err (ss_runtime s))\<rparr>"

definition apply_listeners ::
  "'c server_env \<Rightarrow> ServerTunnelConfig list \<Rightarrow> 'c server_state \<Rightarrow> (TunnelError, unit) res \<times> 'c server_state" where
  "apply_listeners env configs s =
     (case manager_apply (se_bind env) (se_finished env) configs (ss_listeners s, ss_runtime s) of
        (r, lm, rt) \<Rightarrow> (r, s\<lparr>ss_listeners := lm, ss_runtime := rt\<rparr>))"

text \<open>\<open>reload_server\<close>, with the result of \<open>ServerConfig::load\<close> as an argument.\<close>

definition reload_server ::
  "'c server_env \<Rightarrow> (TunnelError, ServerConfig) res \<Rightarrow> 'c server_state \<Rightarrow> 'c server_state" where
  "reload_server env loaded s =
     (case loaded of
        Inl e \<Rightarrow> s\<lparr>ss_runtime := report_config_load_error (se_show env e) (ss_runtime s)\<rparr>
      | Inr config \<Rightarrow>
          (case quic_prepare (se_quic env) (sc_quic config) (ss_quic s) of
             Inl e \<Rightarrow> record_failure env config (se_show env e) s
           | Inr quic_update \<Rightarrow>
               (let previous_tunnels = manager_configs (ss_listeners s)
                in case apply_listeners env (sc_tunnels config) s of
                     (Inl e, s1) \<Rightarrow> record_failure env config (se_show env e) s1
                   | (Inr _, s1) \<Rightarrow>
                       (case (case quic_update of
                                None \<Rightarrow> (Inr (), ss_quic s1)
                              | Some u \<Rightarrow> quic_apply (se_quic env) u (ss_quic s1)) of
                          (Inl e, _) \<Rightarrow>
                            (case apply_listeners env previous_tunnels s1 of
                               (Inr _, s2) \<Rightarrow> record_failure env config (se_show env e) s2
                             | (Inl e', s2) \<Rightarrow>
                                 record_failure env config
                                   (''switching the QUIC endpoint failed: '' @ se_show env e @ ''; so did the rollback: '' @ se_show env e') s2)
                        | (Inr _, q) \<Rightarrow>
                            (let creds = credentials config;
                                 rt1 = apply_credentials (se_sha256 env) creds (ss_runtime s1);
                                 rt2 = snd (report_config_applied (se_sha256 env) (se_to_toml env) config rt1)
                             in s1\<lparr>ss_quic := q, ss_groups := creds, ss_runtime := rt2\<rparr>)))))"

section \<open>Specification of one application\<close>

text \<open>A running listener that the new configuration wants unchanged is kept.\<close>

definition kept :: "ServerTunnelConfig list \<Rightarrow> ListenerManager \<Rightarrow> string \<Rightarrow> ListenerHandle \<Rightarrow> bool" where
  "kept configs lm n h =
     (hm_get (lm_active lm) n = Some h \<and>
      (\<exists>c \<in> set configs. t_name c = n \<and> same_listener (lh_config h) c))"

definition handle_ok :: "(string, LimiterEntry) hm \<Rightarrow> string \<Rightarrow> ListenerHandle \<Rightarrow> bool" where
  "handle_ok ls n h =
     (t_name (lh_config h) = n
      \<and> hm_get ls n = Some \<lparr>le_limit = t_limit_bps (lh_config h), le_limiter = lh_limiter h\<rparr>)"

definition lm_inv :: "ListenerManager \<Rightarrow> bool" where
  "lm_inv lm =
     (hm_wf (lm_active lm) \<and> hm_wf (lm_limiters lm)
      \<and> (\<forall>n h. hm_get (lm_active lm) n = Some h \<longrightarrow> handle_ok (lm_limiters lm) n h))"

definition config_of :: "ServerTunnelConfig list \<Rightarrow> string \<Rightarrow> ServerTunnelConfig option" where
  "config_of configs = map_of (map (\<lambda>c. (t_name c, c)) configs)"

lemma config_of_Some:
  "distinct (map t_name configs) \<Longrightarrow> config_of configs n = Some c \<longleftrightarrow> c \<in> set configs \<and> t_name c = n"
proof -
  assume d: "distinct (map t_name configs)"
  have "map fst (map (\<lambda>c. (t_name c, c)) configs) = map t_name configs" by (simp add: comp_def)
  with d have "distinct (map fst (map (\<lambda>c. (t_name c, c)) configs))" by (simp only:)
  from map_of_eq_Some_iff[OF this] show ?thesis by (auto simp: config_of_def)
qed

lemma config_of_None: "config_of configs n = None \<longleftrightarrow> (\<forall>c \<in> set configs. t_name c \<noteq> n)"
  by (auto simp: config_of_def map_of_eq_None_iff image_image)

lemma desired_map_get:
  "distinct (map t_name configs) \<Longrightarrow> hm_get (desired_map configs) n = config_of configs n"
  unfolding desired_map_def config_of_def by (rule hm_get_collect_distinct) (simp add: comp_def)

lemma same_listener_sym: "same_listener c d \<longleftrightarrow> same_listener d c"
  by (auto simp: same_listener_def split: TunnelKind.splits)

lemma same_listener_trans: "same_listener c d \<Longrightarrow> same_listener d e \<Longrightarrow> same_listener c e"
  by (auto simp: same_listener_def split: TunnelKind.splits)

lemma same_listener_refl [simp]: "same_listener c c"
  by (simp add: same_listener_def split: TunnelKind.splits)

section \<open>Effect of the phases\<close>

lemma stop_simps [simp]:
  "lm_limiters (stop n lm) = lm_limiters lm" "lm_starts (stop n lm) = lm_starts lm"
  "hm_get (lm_active (stop n lm)) k = (if k = n then None else hm_get (lm_active lm) k)"
  "hm_wf (lm_active lm) \<Longrightarrow> hm_wf (lm_active (stop n lm))"
  by (auto simp: stop_def hm_simps split: option.splits)

lemma fold_stop:
  "lm_limiters (fold stop ns lm) = lm_limiters lm \<and> lm_starts (fold stop ns lm) = lm_starts lm
   \<and> (\<forall>k. hm_get (lm_active (fold stop ns lm)) k = (if k \<in> set ns then None else hm_get (lm_active lm) k))
   \<and> (hm_wf (lm_active lm) \<longrightarrow> hm_wf (lm_active (fold stop ns lm)))"
  by (induction ns arbitrary: lm) auto

lemma fold_stop_cancelled:
  assumes "distinct ns"
  shows "lm_cancelled (fold stop ns lm) = lm_cancelled lm @
    map (\<lambda>n. lh_task (the (hm_get (lm_active lm) n))) (filter (\<lambda>n. hm_get (lm_active lm) n \<noteq> None) ns)"
  using assms
proof (induction ns arbitrary: lm)
  case (Cons n ns)
  have "filter (\<lambda>k. hm_get (lm_active (stop n lm)) k \<noteq> None) ns = filter (\<lambda>k. hm_get (lm_active lm) k \<noteq> None) ns"
    using Cons.prems by (intro filter_cong) auto
  moreover have "map (\<lambda>k. lh_task (the (hm_get (lm_active (stop n lm)) k))) (filter (\<lambda>k. hm_get (lm_active lm) k \<noteq> None) ns)
      = map (\<lambda>k. lh_task (the (hm_get (lm_active lm) k))) (filter (\<lambda>k. hm_get (lm_active lm) k \<noteq> None) ns)"
    using Cons.prems by auto
  moreover have "lm_cancelled (stop n lm) = lm_cancelled lm @
      (case hm_get (lm_active lm) n of None \<Rightarrow> [] | Some h \<Rightarrow> [lh_task h])"
    by (simp add: stop_def split: option.splits)
  ultimately show ?case using Cons by (auto split: option.splits)
qed simp

lemma removed_names_iff:
  assumes "hm_wf (lm_active lm)" "distinct (map t_name configs)"
  shows "n \<in> set (removed_names configs lm) \<longleftrightarrow>
    (\<exists>h. hm_get (lm_active lm) n = Some h \<and> \<not> kept configs lm n h)"
proof -
  have "n \<in> set (removed_names configs lm) \<longleftrightarrow> (\<exists>h. hm_get (lm_active lm) n = Some h \<and>
      (case config_of configs n of None \<Rightarrow> True | Some c \<Rightarrow> \<not> same_listener (lh_config h) c))"
    unfolding removed_names_def desired_map_get[OF assms(2)]
    by (force simp: hm_in_set_iff[OF assms(1), symmetric])
  also have "\<dots> \<longleftrightarrow> (\<exists>h. hm_get (lm_active lm) n = Some h \<and> \<not> kept configs lm n h)"
    using config_of_Some[OF assms(2), of n] config_of_None[of configs n]
    by (auto simp: kept_def split: option.splits)
  finally show ?thesis .
qed

text \<open>After the stops, exactly the kept listeners are running.\<close>

lemma after_stops:
  assumes "hm_wf (lm_active lm)" "distinct (map t_name configs)"
  shows "hm_get (lm_active (fold stop (removed_names configs lm) lm)) n = Some h \<longleftrightarrow> kept configs lm n h"
  using fold_stop[of "removed_names configs lm" lm] removed_names_iff[OF assms, of n]
  by (auto simp: kept_def)

text \<open>
  A limiter is replaced only for a listener that is being started and whose configured limit
  differs from the limit of the stored one.
\<close>

definition limiters_grow :: "ServerTunnelConfig list \<Rightarrow> ListenerManager \<Rightarrow> ListenerManager \<Rightarrow> bool" where
  "limiters_grow configs lm lm' =
     ((hm_wf (lm_limiters lm) \<longrightarrow> hm_wf (lm_limiters lm'))
      \<and> (\<forall>n. hm_get (lm_limiters lm') n = hm_get (lm_limiters lm) n
           \<or> hm_get (lm_active lm) n = None
             \<and> (\<exists>c \<in> set configs. t_name c = n
                  \<and> (\<forall>e. hm_get (lm_limiters lm) n = Some e \<longrightarrow> t_limit_bps c \<noteq> le_limit e))))"

text \<open>What starting the missing listeners guarantees, whether or not a bind fails on the way.\<close>

definition started ::
  "bind_env \<Rightarrow> ServerTunnelConfig list \<Rightarrow> ListenerManager \<Rightarrow> (TunnelError, unit) res \<Rightarrow> ListenerManager \<Rightarrow> bool" where
  "started env configs lm r lm' =
     ((hm_wf (lm_active lm) \<longrightarrow> hm_wf (lm_active lm'))
      \<and> lm_starts lm \<le> lm_starts lm' \<and> lm_cancelled lm' = lm_cancelled lm
      \<and> (\<forall>n h. hm_get (lm_active lm) n = Some h \<longrightarrow> hm_get (lm_active lm') n = Some h)
      \<and> (\<forall>n h. hm_get (lm_active lm') n = Some h \<and> hm_get (lm_active lm) n = None \<longrightarrow>
           lh_config h \<in> set configs \<and> lm_starts lm \<le> lh_task h \<and> handle_ok (lm_limiters lm') n h)
      \<and> (r = Inr () \<longrightarrow> (\<forall>c \<in> set configs. hm_get (lm_active lm') (t_name c) \<noteq> None))
      \<and> (\<forall>e. r = Inl e \<longrightarrow> (\<exists>c \<in> set configs. \<exists>k. env k c = Inl e \<and> hm_get (lm_active lm') (t_name c) = None)))"

lemma limiter_for_cases:
  assumes "limiter_for c lm = (l, lm1)"
  shows "lm_active lm1 = lm_active lm \<and> lm_starts lm1 = lm_starts lm \<and> lm_cancelled lm1 = lm_cancelled lm
    \<and> lm_retired lm1 = lm_retired lm
    \<and> hm_get (lm_limiters lm1) (t_name c) = Some \<lparr>le_limit = t_limit_bps c, le_limiter = l\<rparr>
    \<and> (\<forall>n. n \<noteq> t_name c \<longrightarrow> hm_get (lm_limiters lm1) n = hm_get (lm_limiters lm) n)
    \<and> (\<forall>e. hm_get (lm_limiters lm) (t_name c) = Some e \<and> le_limit e = t_limit_bps c \<longrightarrow>
         hm_get (lm_limiters lm1) (t_name c) = Some e)
    \<and> (hm_wf (lm_limiters lm) \<longrightarrow> hm_wf (lm_limiters lm1))"
  using assms by (auto simp: limiter_for_def Let_def hm_simps split: option.splits if_splits)

lemma limiter_for_grow:
  assumes "limiter_for c lm = (l, lm1)" "hm_get (lm_active lm) (t_name c) = None"
    "lm_limiters lm' = lm_limiters lm1"
  shows "limiters_grow [c] lm lm'"
  unfolding limiters_grow_def assms(3)
proof (intro conjI allI)
  fix n
  show "hm_get (lm_limiters lm1) n = hm_get (lm_limiters lm) n
    \<or> hm_get (lm_active lm) n = None \<and> (\<exists>c \<in> set [c]. t_name c = n \<and>
        (\<forall>e. hm_get (lm_limiters lm) n = Some e \<longrightarrow> t_limit_bps c \<noteq> le_limit e))"
    using limiter_for_cases[OF assms(1)] assms(2)
    by (cases "n = t_name c"; cases "hm_get (lm_limiters lm) n") (simp_all, metis)
qed (use limiter_for_cases[OF assms(1)] in blast)

lemma start_missing_started:
  assumes "start_missing env c lm = (r, lm')"
  shows "started env [c] lm r lm' \<and> limiters_grow [c] lm lm'"
proof (cases "hm_get (lm_active lm) (t_name c)")
  case (Some h)
  then have "r = Inr ()" "lm' = lm" using assms by (simp_all add: start_missing_def hm_contains_iff)
  with Some show ?thesis by (auto simp: started_def limiters_grow_def)
next
  case None
  obtain l lm1 where lim: "limiter_for c lm = (l, lm1)" by (cases "limiter_for c lm")
  note L = limiter_for_cases[OF lim]
  show ?thesis
  proof (cases "env (lm_starts lm) c")
    case (Inl e)
    then have eq: "r = Inl e" "lm' = lm1\<lparr>lm_starts := Suc (lm_starts lm)\<rparr>"
      using assms None lim L by (simp_all add: start_missing_def hm_contains_iff start_listener_def Let_def)
    then have "limiters_grow [c] lm lm'" using lim None by (intro limiter_for_grow) simp_all
    moreover have "started env [c] lm r lm'" using Inl None L by (auto simp: started_def eq)
    ultimately show ?thesis by simp
  next
    case (Inr u)
    let ?h = "\<lparr>lh_config = c, lh_task = lm_starts lm, lh_limiter = l\<rparr>"
    have eq: "r = Inr ()" "lm' = lm1\<lparr>lm_starts := Suc (lm_starts lm), lm_active := hm_insert (t_name c) ?h (lm_active lm)\<rparr>"
      using Inr assms None lim L by (simp_all add: start_missing_def hm_contains_iff start_listener_def Let_def)
    then have "limiters_grow [c] lm lm'" using lim None by (intro limiter_for_grow) simp_all
    moreover have "started env [c] lm r lm'" using None L by (auto simp: started_def eq handle_ok_def hm_simps)
    ultimately show ?thesis by simp
  qed
qed

lemma started_trans:
  assumes "started env [c] lm (Inr ()) lm1 \<and> limiters_grow [c] lm lm1"
    "started env cs lm1 r lm' \<and> limiters_grow cs lm1 lm'"
    "t_name c \<notin> t_name ` set cs"
  shows "started env (c # cs) lm r lm' \<and> limiters_grow (c # cs) lm lm'"
proof -
  have S1: "hm_get (lm_active lm) n = Some h \<Longrightarrow> hm_get (lm_active lm1) n = Some h"
    "hm_get (lm_active lm1) n = Some h \<Longrightarrow> hm_get (lm_active lm) n = None \<Longrightarrow>
      lh_config h = c \<and> lm_starts lm \<le> lh_task h \<and> handle_ok (lm_limiters lm1) n h"
    "hm_get (lm_active lm1) (t_name c) \<noteq> None" "lm_starts lm \<le> lm_starts lm1" for n h
    using assms(1) by (simp_all add: started_def)
  have S2: "hm_get (lm_active lm1) n = Some h \<Longrightarrow> hm_get (lm_active lm') n = Some h"
    "hm_get (lm_active lm') n = Some h \<Longrightarrow> hm_get (lm_active lm1) n = None \<Longrightarrow>
      lh_config h \<in> set cs \<and> lm_starts lm1 \<le> lh_task h \<and> handle_ok (lm_limiters lm') n h" for n h
    using assms(2) by (simp_all add: started_def)
  have G1: "hm_get (lm_limiters lm1) n = hm_get (lm_limiters lm) n
      \<or> hm_get (lm_active lm) n = None \<and> t_name c = n \<and> (\<forall>e. hm_get (lm_limiters lm) n = Some e \<longrightarrow> t_limit_bps c \<noteq> le_limit e)" for n
    using assms(1) by (simp add: limiters_grow_def)
  have G2: "hm_get (lm_limiters lm') n = hm_get (lm_limiters lm1) n
      \<or> hm_get (lm_active lm1) n = None \<and> (\<exists>c \<in> set cs. t_name c = n \<and> (\<forall>e. hm_get (lm_limiters lm1) n = Some e \<longrightarrow> t_limit_bps c \<noteq> le_limit e))" for n
    using assms(2) by (simp add: limiters_grow_def)
  have none: "hm_get (lm_active lm) n = None" if "hm_get (lm_active lm1) n = None" for n
    using S1(1)[of n] that by (cases "hm_get (lm_active lm) n") auto
  have "hm_get (lm_limiters lm') n = hm_get (lm_limiters lm) n
      \<or> hm_get (lm_active lm) n = None \<and> (\<exists>c \<in> set (c # cs). t_name c = n \<and> (\<forall>e. hm_get (lm_limiters lm) n = Some e \<longrightarrow> t_limit_bps c \<noteq> le_limit e))" for n
    using G1[of n] G2[of n] none[of n] assms(3) by (cases "t_name c = n") auto
  moreover have "lh_config h \<in> set (c # cs) \<and> lm_starts lm \<le> lh_task h \<and> handle_ok (lm_limiters lm') n h"
    if new: "hm_get (lm_active lm') n = Some h" "hm_get (lm_active lm) n = None" for n h
  proof (cases "hm_get (lm_active lm1) n")
    case None
    with S2(2)[OF new(1) None] S1(4) show ?thesis by auto
  next
    case (Some h')
    then have "h' = h" using S2(1)[OF Some] new(1) by simp
    with S1(2)[OF Some new(2)] G2[of n] Some show ?thesis by (auto simp: handle_ok_def)
  qed
  moreover have "hm_get (lm_active lm') (t_name c) \<noteq> None" using S1(3) S2(1) by fastforce
  moreover have "hm_wf (lm_limiters lm) \<longrightarrow> hm_wf (lm_limiters lm')" "hm_wf (lm_active lm) \<longrightarrow> hm_wf (lm_active lm')"
    "lm_starts lm \<le> lm_starts lm'" "lm_cancelled lm' = lm_cancelled lm"
    "r = Inr () \<longrightarrow> (\<forall>c \<in> set cs. hm_get (lm_active lm') (t_name c) \<noteq> None)"
    "\<forall>e. r = Inl e \<longrightarrow> (\<exists>c \<in> set cs. \<exists>k. env k c = Inl e \<and> hm_get (lm_active lm') (t_name c) = None)"
    using assms(1,2) by (auto simp: started_def limiters_grow_def)
  moreover have "hm_get (lm_active lm) n = Some h \<longrightarrow> hm_get (lm_active lm') n = Some h" for n h
    using S1(1) S2(1) by blast
  ultimately show ?thesis unfolding started_def limiters_grow_def by auto
qed

lemma start_all_started:
  assumes "start_all env configs lm = (r, lm')" "distinct (map t_name configs)"
  shows "started env configs lm r lm' \<and> limiters_grow configs lm lm'"
  using assms
proof (induction configs arbitrary: lm)
  case Nil
  then show ?case by (auto simp: started_def limiters_grow_def)
next
  case (Cons c cs)
  obtain r1 lm1 where sm: "start_missing env c lm = (r1, lm1)" by (cases "start_missing env c lm")
  note S = start_missing_started[OF sm]
  show ?case
  proof (cases r1)
    case (Inl e)
    then have "r = Inl e" "lm' = lm1" using Cons.prems(1) sm by simp_all
    have "started env (c # cs) lm (Inl e) lm1" if "started env [c] lm (Inl e) lm1"
      using that unfolding started_def by simp
    moreover have "limiters_grow (c # cs) lm lm1" if "limiters_grow [c] lm lm1"
      using that unfolding limiters_grow_def by simp blast
    ultimately show ?thesis using S Inl \<open>r = Inl e\<close> \<open>lm' = lm1\<close> by blast
  next
    case (Inr u)
    then have sa: "start_all env cs lm1 = (r, lm')" using Cons.prems(1) sm by simp
    have c: "t_name c \<notin> t_name ` set cs" and cs: "distinct (map t_name cs)" using Cons.prems(2) by simp_all
    have "started env [c] lm (Inr ()) lm1 \<and> limiters_grow [c] lm lm1" using S Inr by (cases u) simp
    from started_trans[OF this Cons.IH[OF sa cs] c] show ?thesis .
  qed
qed

lemma refresh_get:
  "hm_get (lm_active (refresh_config c lm)) n =
     (if n = t_name c then map_option (\<lambda>h. h\<lparr>lh_config := c\<rparr>) (hm_get (lm_active lm) n) else hm_get (lm_active lm) n)"
  by (auto simp: refresh_config_def hm_simps split: option.splits)

lemma refresh_simps [simp]:
  "lm_limiters (refresh_config c lm) = lm_limiters lm" "lm_cancelled (refresh_config c lm) = lm_cancelled lm"
  "lm_starts (refresh_config c lm) = lm_starts lm"
  "hm_wf (lm_active lm) \<Longrightarrow> hm_wf (lm_active (refresh_config c lm))"
  by (auto simp: refresh_config_def split: option.splits)

lemma fold_refresh:
  assumes "distinct (map t_name configs)"
  shows "lm_limiters (fold refresh_config configs lm) = lm_limiters lm
    \<and> lm_cancelled (fold refresh_config configs lm) = lm_cancelled lm
    \<and> (hm_wf (lm_active lm) \<longrightarrow> hm_wf (lm_active (fold refresh_config configs lm)))
    \<and> (\<forall>n. hm_get (lm_active (fold refresh_config configs lm)) n =
         (case config_of configs n of
            None \<Rightarrow> hm_get (lm_active lm) n
          | Some c \<Rightarrow> map_option (\<lambda>h. h\<lparr>lh_config := c\<rparr>) (hm_get (lm_active lm) n)))"
  using assms
proof (induction configs arbitrary: lm)
  case (Cons c cs)
  have "config_of cs (t_name c) = None" unfolding config_of_None using Cons.prems by (metis distinct.simps(2) image_eqI list.simps(9) set_map)
  with Cons.IH[of "refresh_config c lm"] Cons.prems show ?case
    by (auto simp: refresh_get config_of_def split: option.splits)
qed (simp add: config_of_def)

section \<open>One application of a configuration\<close>

text \<open>The kept listeners have the limiter their configuration asks for.\<close>

definition kept_ok :: "ServerTunnelConfig list \<Rightarrow> ListenerManager \<Rightarrow> bool" where
  "kept_ok configs lm = (\<forall>n h. kept configs lm n h \<longrightarrow> handle_ok (lm_limiters lm) n h)"

lemma kept_limit: "kept configs lm n h \<Longrightarrow> c \<in> set configs \<Longrightarrow> t_name c = n \<Longrightarrow> distinct (map t_name configs) \<Longrightarrow>
    same_listener (lh_config h) c"
  unfolding kept_def by (metis distinct_map inj_onD)

lemma apply_once_phases:
  assumes wf: "hm_wf (lm_active lm)" and dist: "distinct (map t_name configs)"
    and call: "apply_once env configs lm = (r, lm')"
  obtains lm1 lm2 where "lm1 = fold stop (removed_names configs lm) lm"
    "\<And>n h. hm_get (lm_active lm1) n = Some h \<longleftrightarrow> kept configs lm n h"
    "hm_wf (lm_active lm1)" "lm_limiters lm1 = lm_limiters lm" "lm_starts lm1 = lm_starts lm"
    "started env configs lm1 r lm2" "limiters_grow configs lm1 lm2"
    "\<And>e. r = Inl e \<Longrightarrow> lm' = lm2"
    "r = Inr () \<Longrightarrow> lm' = (fold refresh_config configs lm2)\<lparr>lm_limiters :=
        hm_retain (\<lambda>name _. hm_contains (desired_map configs) name) (lm_limiters lm2)\<rparr>"
proof -
  let ?lm1 = "fold stop (removed_names configs lm) lm"
  obtain r2 lm2 where sa: "start_all env configs ?lm1 = (r2, lm2)" by (cases "start_all env configs ?lm1")
  note S = start_all_started[OF sa dist]
  have r: "r2 = r" using call sa by (cases r2) (auto simp: apply_once_def Let_def)
  have "lm' = lm2" if "r = Inl e" for e using that call sa r by (auto simp: apply_once_def Let_def)
  moreover have "lm' = (fold refresh_config configs lm2)\<lparr>lm_limiters :=
        hm_retain (\<lambda>name _. hm_contains (desired_map configs) name) (lm_limiters lm2)\<rparr>" if "r = Inr ()"
    using that call sa r fold_refresh[OF dist, of lm2] by (auto simp: apply_once_def Let_def)
  ultimately show ?thesis
    using that[of ?lm1 lm2] S r after_stops[OF wf dist] fold_stop[of "removed_names configs lm" lm] wf by blast
qed

text \<open>A successful application: the requested listeners run, the kept ones without a restart.\<close>

lemma apply_once_ok:
  assumes wf: "hm_wf (lm_active lm)" "hm_wf (lm_limiters lm)" and dist: "distinct (map t_name configs)"
    and ok: "kept_ok configs lm" and call: "apply_once env configs lm = (Inr (), lm')"
  shows "map_option lh_config (hm_get (lm_active lm') n) = config_of configs n"
    and "kept configs lm n h \<Longrightarrow> \<exists>c. hm_get (lm_active lm') n = Some (h\<lparr>lh_config := c\<rparr>)"
    and "hm_get (lm_active lm') n = Some h' \<Longrightarrow> \<nexists>h. kept configs lm n h \<Longrightarrow> lm_starts lm \<le> lh_task h'"
    and "lm_inv lm'"
    and "hm_get (lm_limiters lm) n = Some e \<Longrightarrow> config_of configs n = Some c \<Longrightarrow> t_limit_bps c = le_limit e \<Longrightarrow>
      hm_get (lm_limiters lm') n = Some e"
proof -
  obtain lm1 lm2 where P: "\<And>n h. hm_get (lm_active lm1) n = Some h \<longleftrightarrow> kept configs lm n h"
    "hm_wf (lm_active lm1)" "lm_limiters lm1 = lm_limiters lm" "lm_starts lm1 = lm_starts lm"
    and S: "started env configs lm1 (Inr ()) lm2" and G: "limiters_grow configs lm1 lm2"
    and lm': "lm' = (fold refresh_config configs lm2)\<lparr>lm_limiters :=
        hm_retain (\<lambda>name _. hm_contains (desired_map configs) name) (lm_limiters lm2)\<rparr>"
    by (rule apply_once_phases[OF wf(1) dist call]) (rule that, simp_all)
  note F = fold_refresh[OF dist, of lm2]
  have wf2: "hm_wf (lm_active lm2)" "hm_wf (lm_limiters lm2)" using S G P wf by (simp_all add: started_def limiters_grow_def)
  have act: "hm_get (lm_active lm') n = (case config_of configs n of None \<Rightarrow> hm_get (lm_active lm2) n
      | Some c \<Rightarrow> map_option (\<lambda>h. h\<lparr>lh_config := c\<rparr>) (hm_get (lm_active lm2) n))" for n
    using F by (simp add: lm')
  have keep: "hm_get (lm_active lm2) n = Some h" if "kept configs lm n h" for n h
    using S P(1) that by (simp add: started_def)
  have new: "lh_config h \<in> set configs \<and> lm_starts lm \<le> lh_task h \<and> handle_ok (lm_limiters lm2) n h"
    if "hm_get (lm_active lm2) n = Some h" "\<nexists>h. kept configs lm n h" for n h
  proof -
    have "hm_get (lm_active lm1) n = None" using that(2) P(1) by (cases "hm_get (lm_active lm1) n") auto
    with S that(1) P(4) show ?thesis by (simp add: started_def)
  qed
  have in_names: "\<exists>c \<in> set configs. t_name c = n" if "hm_get (lm_active lm2) n = Some h" for n h
  proof (cases "\<exists>h. kept configs lm n h")
    case True
    then show ?thesis by (auto simp: kept_def)
  next
    case False
    with new[OF that] show ?thesis by (auto simp: handle_ok_def)
  qed
  have total: "hm_get (lm_active lm2) n \<noteq> None \<longleftrightarrow> config_of configs n \<noteq> None" for n
  proof
    assume "hm_get (lm_active lm2) n \<noteq> None"
    then obtain h where "hm_get (lm_active lm2) n = Some h" by auto
    from in_names[OF this] show "config_of configs n \<noteq> None" by (auto simp: config_of_None)
  next
    assume "config_of configs n \<noteq> None"
    then obtain c where "c \<in> set configs" "t_name c = n" by (auto simp: config_of_None)
    with S show "hm_get (lm_active lm2) n \<noteq> None" by (auto simp: started_def)
  qed
  show "map_option lh_config (hm_get (lm_active lm') n) = config_of configs n" for n
    using act[of n] total[of n] by (auto split: option.splits)
  show "\<exists>c. hm_get (lm_active lm') n = Some (h\<lparr>lh_config := c\<rparr>)" if "kept configs lm n h" for n h
    using act[of n] keep[OF that] total[of n] by (auto split: option.splits)
  show "lm_starts lm \<le> lh_task h'" if "hm_get (lm_active lm') n = Some h'" "\<nexists>h. kept configs lm n h" for n h'
    using act[of n] that total[of n] new[of n] by (auto split: option.splits)
  have lim2: "hm_get (lm_limiters lm2) n = hm_get (lm_limiters lm) n" if "kept configs lm n h" for n h
  proof -
    have "hm_get (lm_active lm1) n \<noteq> None" using that P(1) by auto
    with G P(3) show ?thesis unfolding limiters_grow_def by metis
  qed
  have lim': "hm_get (lm_limiters lm') n = (if config_of configs n = None then None else hm_get (lm_limiters lm2) n)" for n
    using wf2(2) by (simp add: lm' hm_get_retain hm_contains_iff desired_map_get[OF dist] split: option.splits)
  have ok2: "handle_ok (lm_limiters lm2) n (h\<lparr>lh_config := c\<rparr>)"
    if h: "hm_get (lm_active lm2) n = Some h" and c: "config_of configs n = Some c" for n h c
  proof (cases "\<exists>h. kept configs lm n h")
    case True
    then have k: "kept configs lm n h" using keep h by auto
    have "same_listener (lh_config h) c" using kept_limit[OF k] c config_of_Some[OF dist] dist by blast
    with ok k lim2[OF k] show ?thesis by (auto simp: kept_ok_def handle_ok_def same_listener_def)
  next
    case False
    then have "lh_config h = c" using new[OF h] c config_of_Some[OF dist]
      by (metis distinct_map dist inj_onD handle_ok_def)
    with new[OF h False] show ?thesis by (simp add: handle_ok_def)
  qed
  show "lm_inv lm'"
    unfolding lm_inv_def
  proof (intro conjI allI impI)
    show "hm_wf (lm_active lm')" using F wf2 by (simp add: lm')
    show "hm_wf (lm_limiters lm')" using wf2 by (auto simp: lm')
    show "handle_ok (lm_limiters lm') n h" if run: "hm_get (lm_active lm') n = Some h" for n h
    proof -
      have "config_of configs n \<noteq> None" using run act[of n] total[of n] by (cases "config_of configs n") auto
      then obtain c where c: "config_of configs n = Some c" by auto
      with act[of n] run obtain h2 where "hm_get (lm_active lm2) n = Some h2" "h = h2\<lparr>lh_config := c\<rparr>"
        by (cases "hm_get (lm_active lm2) n") auto
      with ok2[OF _ c] lim'[of n] c show ?thesis by (simp add: handle_ok_def)
    qed
  qed
  show "hm_get (lm_limiters lm') n = Some e"
    if "hm_get (lm_limiters lm) n = Some e" "config_of configs n = Some c" "t_limit_bps c = le_limit e" for n e c
  proof -
    have "hm_get (lm_limiters lm2) n = hm_get (lm_limiters lm1) n"
      using G that P(3) config_of_Some[OF dist, of n] dist
      unfolding limiters_grow_def by (metis distinct_map inj_onD)
    with lim'[of n] that P(3) show ?thesis by simp
  qed
qed

text \<open>
  A failed application leaves only kept listeners and freshly started ones running, and a
  listener that runs under a name the old configuration wanted unchanged is the old listener.
\<close>

lemma apply_once_failed:
  assumes wf: "hm_wf (lm_active lm)" "hm_wf (lm_limiters lm)" and dist: "distinct (map t_name configs)"
    and call: "apply_once env configs lm = (Inl e, lm')"
  shows "hm_wf (lm_active lm')" "hm_wf (lm_limiters lm')" "lm_starts lm \<le> lm_starts lm'"
    and "kept configs lm n h \<Longrightarrow> hm_get (lm_active lm') n = Some h"
    and "hm_get (lm_active lm') n = Some h \<Longrightarrow> kept configs lm n h \<or>
      ((\<nexists>h. kept configs lm n h) \<and> lh_config h \<in> set configs \<and> t_name (lh_config h) = n \<and> lm_starts lm \<le> lh_task h)"
    and "\<exists>c \<in> set configs. \<exists>k. env k c = Inl e \<and> hm_get (lm_active lm') (t_name c) = None"
proof -
  obtain lm1 lm2 where P: "\<And>n h. hm_get (lm_active lm1) n = Some h \<longleftrightarrow> kept configs lm n h"
    "hm_wf (lm_active lm1)" "lm_limiters lm1 = lm_limiters lm" "lm_starts lm1 = lm_starts lm"
    and S: "started env configs lm1 (Inl e) lm2" and G: "limiters_grow configs lm1 lm2" and lm': "lm' = lm2"
    by (rule apply_once_phases[OF wf(1) dist call]) (rule that, simp_all)
  show "hm_wf (lm_active lm')" "hm_wf (lm_limiters lm')" "lm_starts lm \<le> lm_starts lm'"
    using S G P wf by (simp_all add: started_def limiters_grow_def lm')
  show "hm_get (lm_active lm') n = Some h" if "kept configs lm n h"
    using S P(1) that by (simp add: started_def lm')
  show "kept configs lm n h \<or>
      ((\<nexists>h. kept configs lm n h) \<and> lh_config h \<in> set configs \<and> t_name (lh_config h) = n \<and> lm_starts lm \<le> lh_task h)"
    if "hm_get (lm_active lm') n = Some h"
  proof (cases "hm_get (lm_active lm1) n")
    case None
    with S that P(4) have "lh_config h \<in> set configs \<and> lm_starts lm \<le> lh_task h \<and> handle_ok (lm_limiters lm2) n h"
      by (simp add: started_def lm')
    moreover have "\<nexists>h. kept configs lm n h" using None by (simp flip: P(1))
    ultimately show ?thesis by (simp add: handle_ok_def)
  next
    case (Some h')
    with S that have "h' = h" by (auto simp: started_def lm')
    with Some P(1) show ?thesis by simp
  qed
  show "\<exists>c \<in> set configs. \<exists>k. env k c = Inl e \<and> hm_get (lm_active lm') (t_name c) = None"
    using S by (simp add: started_def lm')
qed

lemma apply_once_failed_inv:
  assumes wf: "hm_wf (lm_active lm)" "hm_wf (lm_limiters lm)" and dist: "distinct (map t_name configs)"
    and ok: "kept_ok configs lm" and call: "apply_once env configs lm = (Inl e, lm')"
  shows "lm_inv lm'"
proof -
  obtain lm1 lm2 where P: "\<And>n h. hm_get (lm_active lm1) n = Some h \<longleftrightarrow> kept configs lm n h"
    "lm_limiters lm1 = lm_limiters lm"
    and S: "started env configs lm1 (Inl e) lm2" and G: "limiters_grow configs lm1 lm2" and lm': "lm' = lm2"
    by (rule apply_once_phases[OF wf(1) dist call]) (rule that, simp_all)
  have "handle_ok (lm_limiters lm2) n h" if h: "hm_get (lm_active lm2) n = Some h" for n h
  proof (cases "hm_get (lm_active lm1) n")
    case None
    with S h show ?thesis by (simp add: started_def)
  next
    case (Some h')
    with S h have "h' = h" by (auto simp: started_def)
    with Some P ok have "handle_ok (lm_limiters lm1) n h" by (simp add: kept_ok_def)
    moreover have "hm_get (lm_limiters lm2) n = hm_get (lm_limiters lm1) n"
      using G Some unfolding limiters_grow_def by (metis option.distinct(1))
    ultimately show ?thesis by (simp add: handle_ok_def)
  qed
  with apply_once_failed(1,2)[OF wf dist call] show ?thesis by (simp add: lm_inv_def lm')
qed

section \<open>Sockets\<close>

text \<open>Two listeners that cannot be bound at the same time.\<close>

definition clash :: "ServerTunnelConfig \<Rightarrow> ServerTunnelConfig \<Rightarrow> bool" where
  "clash c d = (t_bind c = t_bind d \<and> (t_kind c = Udp \<longleftrightarrow> t_kind d = Udp))"

definition exclusive :: "ListenerManager \<Rightarrow> bool" where
  "exclusive lm =
     (\<forall>n m h k. hm_get (lm_active lm) n = Some h \<and> hm_get (lm_active lm) m = Some k
        \<and> clash (lh_config h) (lh_config k) \<longrightarrow> n = m)"

definition clash_free :: "ServerTunnelConfig list \<Rightarrow> bool" where
  "clash_free configs =
     (distinct (map t_name configs)
      \<and> (\<forall>c \<in> set configs. \<forall>d \<in> set configs. clash c d \<longrightarrow> t_name c = t_name d))"

lemma distinct_map_filter_inj:
  "distinct (map f (filter P xs)) \<Longrightarrow> x \<in> set xs \<Longrightarrow> y \<in> set xs \<Longrightarrow> P x \<Longrightarrow> P y \<Longrightarrow> f x = f y \<Longrightarrow> x = y"
  by (auto simp: distinct_map inj_on_def)

lemma valid_clash_free:
  assumes "valid_server_config c"
  shows "clash_free (sc_tunnels c)"
proof -
  have d: "distinct (map t_bind (filter (\<lambda>t. t_kind t = Udp) (sc_tunnels c)))"
    "distinct (map t_bind (filter (\<lambda>t. t_kind t \<noteq> Udp) (sc_tunnels c)))" "distinct (map t_name (sc_tunnels c))"
    using assms by (simp_all add: valid_server_config_def)
  have "t = u" if "t \<in> set (sc_tunnels c)" "u \<in> set (sc_tunnels c)" "clash t u" for t u
    using distinct_map_filter_inj[OF d(1) that(1,2)] distinct_map_filter_inj[OF d(2) that(1,2)] that(3)
    by (auto simp: clash_def)
  with d(3) show ?thesis by (auto simp: clash_free_def)
qed

text \<open>Every listener that runs after an application stands for one of the requested configurations.\<close>

lemma apply_once_stands_for:
  assumes wf: "hm_wf (lm_active lm)" "hm_wf (lm_limiters lm)" and dist: "distinct (map t_name configs)"
    and ok: "kept_ok configs lm" and call: "apply_once env configs lm = (r, lm')"
    and h: "hm_get (lm_active lm') n = Some h"
  shows "\<exists>c \<in> set configs. t_name c = n \<and> same_listener (lh_config h) c"
proof (cases r)
  case (Inl e)
  from apply_once_failed(5)[OF wf dist call[unfolded Inl] h] show ?thesis
    by (auto simp: kept_def)
next
  case (Inr u)
  then have "apply_once env configs lm = (Inr (), lm')" using call by (cases u) simp
  from apply_once_ok(1)[OF wf dist ok this, of n] h have "config_of configs n = Some (lh_config h)" by simp
  with config_of_Some[OF dist] show ?thesis by (intro bexI[of _ "lh_config h"]) auto
qed

lemma same_listener_clash: "same_listener c c' \<Longrightarrow> same_listener d d' \<Longrightarrow> clash c d \<longleftrightarrow> clash c' d'"
  by (simp add: same_listener_def clash_def)

lemma apply_once_exclusive:
  assumes wf: "hm_wf (lm_active lm)" "hm_wf (lm_limiters lm)" and free: "clash_free configs"
    and ok: "kept_ok configs lm" and call: "apply_once env configs lm = (r, lm')"
  shows "exclusive lm'"
  unfolding exclusive_def
proof (intro allI impI, elim conjE)
  fix n m h k
  assume h: "hm_get (lm_active lm') n = Some h" and k: "hm_get (lm_active lm') m = Some k"
    and cl: "clash (lh_config h) (lh_config k)"
  have dist: "distinct (map t_name configs)" using free by (simp add: clash_free_def)
  from apply_once_stands_for[OF wf dist ok call h] obtain c where c: "c \<in> set configs" "t_name c = n" "same_listener (lh_config h) c" by blast
  from apply_once_stands_for[OF wf dist ok call k] obtain d where d: "d \<in> set configs" "t_name d = m" "same_listener (lh_config k) d" by blast
  from same_listener_clash[OF c(3) d(3)] cl free c d show "n = m" by (auto simp: clash_free_def)
qed

section \<open>Properties\<close>

lemma lm_inv_kept_ok: "lm_inv lm \<Longrightarrow> kept_ok configs lm"
  by (simp add: lm_inv_def kept_ok_def kept_def)

lemma manager_configs_names:
  assumes "lm_inv lm"
  shows "distinct (map t_name (manager_configs lm))"
    and "config_of (manager_configs lm) n = map_option lh_config (hm_get (lm_active lm) n)"
proof -
  have wf: "hm_wf (lm_active lm)" using assms by (simp add: lm_inv_def)
  have name: "t_name (lh_config h) = n" if "(n, h) \<in> set (lm_active lm)" for n h
    using assms that hm_in_set_iff[OF wf] by (auto simp: lm_inv_def handle_ok_def)
  have names: "map t_name (manager_configs lm) = map fst (lm_active lm)"
    using name by (auto simp: manager_configs_def hm_values_def)
  then show d: "distinct (map t_name (manager_configs lm))" using wf by (simp add: hm_wf_def)
  have mem: "c \<in> set (manager_configs lm) \<and> t_name c = n \<longleftrightarrow> (\<exists>h. hm_get (lm_active lm) n = Some h \<and> lh_config h = c)" for c
    using name by (force simp: manager_configs_def hm_values_def hm_in_set_iff[OF wf, symmetric])
  show "config_of (manager_configs lm) n = map_option lh_config (hm_get (lm_active lm) n)"
  proof (cases "hm_get (lm_active lm) n")
    case None
    with mem show ?thesis by (auto simp: config_of_None)
  next
    case (Some h)
    with mem[of "lh_config h"] config_of_Some[OF d, of n] show ?thesis by simp
  qed
qed

lemma exclusive_clash_free:
  assumes "lm_inv lm" "exclusive lm"
  shows "clash_free (manager_configs lm)"
proof -
  have wf: "hm_wf (lm_active lm)" using assms by (simp add: lm_inv_def)
  have mem: "\<exists>h. hm_get (lm_active lm) (t_name c) = Some h \<and> lh_config h = c" if "c \<in> set (manager_configs lm)" for c
    using that assms(1) by (auto simp: manager_configs_def hm_values_def hm_in_set_iff[OF wf] lm_inv_def handle_ok_def)
  show ?thesis
    unfolding clash_free_def
  proof (intro conjI ballI impI)
    fix c d
    assume "c \<in> set (manager_configs lm)" "d \<in> set (manager_configs lm)" "clash c d"
    with mem[of c] mem[of d] assms(2) show "t_name c = t_name d" unfolding exclusive_def by blast
  qed (rule manager_configs_names(1)[OF assms(1)])
qed

lemma reap_inv [simp]: "lm_inv (reap_retired f lm) = lm_inv lm" "exclusive (reap_retired f lm) = exclusive lm"
  "manager_configs (reap_retired f lm) = manager_configs lm" "lm_active (reap_retired f lm) = lm_active lm"
  "lm_limiters (reap_retired f lm) = lm_limiters lm" "lm_starts (reap_retired f lm) = lm_starts lm"
  "kept cs (reap_retired f lm) = kept cs lm"
  by (simp_all add: reap_retired_def lm_inv_def exclusive_def manager_configs_def kept_def[abs_def])

text \<open>
  During a rollback the kept listeners are the old ones: a listener started by the failed
  attempt under an old name differs from the old configuration and is stopped again.
\<close>

lemma rollback_kept:
  assumes inv: "lm_inv lm" and dist: "distinct (map t_name configs)"
    and fail: "apply_once env configs lm = (Inl e, lm1)"
    and lm1': "lm1' = lm1\<lparr>lm_limiters := lm_limiters lm\<rparr>"
  shows "kept (manager_configs lm) lm1' n h \<longleftrightarrow> kept configs lm n h"
    and "kept_ok (manager_configs lm) lm1'"
proof -
  have wf: "hm_wf (lm_active lm)" "hm_wf (lm_limiters lm)" using inv by (simp_all add: lm_inv_def)
  note F = apply_once_failed[OF wf dist fail]
  note M = manager_configs_names[OF inv]
  have old: "c \<in> set (manager_configs lm) \<and> t_name c = n \<longleftrightarrow> (\<exists>h. hm_get (lm_active lm) n = Some h \<and> lh_config h = c)" for c n
    using config_of_Some[OF M(1), of n c] M(2)[of n] by (cases "hm_get (lm_active lm) n") auto
  show eq: "kept (manager_configs lm) lm1' n h \<longleftrightarrow> kept configs lm n h" for n h
  proof
    assume k: "kept configs lm n h"
    then have "hm_get (lm_active lm) n = Some h" by (simp add: kept_def)
    with old[of "lh_config h" n] F(4)[OF k] show "kept (manager_configs lm) lm1' n h"
      by (auto simp: kept_def lm1' intro!: bexI[of _ "lh_config h"])
  next
    assume k: "kept (manager_configs lm) lm1' n h"
    then obtain c where h: "hm_get (lm_active lm1) n = Some h" and c: "c \<in> set (manager_configs lm) \<and> t_name c = n"
      and same: "same_listener (lh_config h) c" by (auto simp: kept_def lm1')
    from c same obtain h0 where h0: "hm_get (lm_active lm) n = Some h0" "same_listener (lh_config h) (lh_config h0)"
      unfolding old by blast
    from F(5)[OF h] show "kept configs lm n h"
    proof
      assume new: "(\<nexists>h. kept configs lm n h) \<and> lh_config h \<in> set configs \<and> t_name (lh_config h) = n \<and> lm_starts lm \<le> lh_task h"
      with h0 have "kept configs lm n h0"
        by (auto simp: kept_def same_listener_sym intro!: bexI[of _ "lh_config h"])
      with new show ?thesis by blast
    qed
  qed
  show "kept_ok (manager_configs lm) lm1'"
    using inv by (auto simp: kept_ok_def eq) (auto simp: lm1' lm_inv_def kept_def)
qed

text \<open>
  C13: Applying a tunnel configuration to the listeners. On success exactly the requested
  tunnels listen with the requested settings, every listener whose settings did not change keeps
  its task and limiter, every other one is newly started, and the runtime learns the tunnels.
\<close>

theorem manager_apply_ok:
  assumes inv: "lm_inv lm" and free: "clash_free configs"
    and call: "manager_apply env finished configs (lm, rt) = (Inr (), lm', rt')"
  shows "(\<forall>n. map_option lh_config (hm_get (lm_active lm') n) = config_of configs n)
    \<and> (\<forall>n h. kept configs lm n h \<longrightarrow> (\<exists>c. hm_get (lm_active lm') n = Some (h\<lparr>lh_config := c\<rparr>)))
    \<and> (\<forall>n h'. hm_get (lm_active lm') n = Some h' \<and> (\<nexists>h. kept configs lm n h) \<longrightarrow> lm_starts lm \<le> lh_task h')
    \<and> rt' = apply_tunnels configs rt \<and> lm_inv lm' \<and> exclusive lm'"
proof -
  let ?lm = "reap_retired finished lm"
  have dist: "distinct (map t_name configs)" using free by (simp add: clash_free_def)
  have wf: "hm_wf (lm_active ?lm)" "hm_wf (lm_limiters ?lm)" using inv by (simp_all add: lm_inv_def)
  have ok: "kept_ok configs ?lm" using inv by (intro lm_inv_kept_ok) simp
  have once: "apply_once env configs ?lm = (Inr (), lm')" and rt': "rt' = apply_tunnels configs rt"
    using call by (auto simp: manager_apply_def Let_def split: prod.splits sum.splits)
  from apply_once_ok[OF wf dist ok once] apply_once_exclusive[OF wf free ok once] rt' show ?thesis by simp blast
qed

definition sample_manager :: ListenerManager where
  "sample_manager =
     \<lparr>lm_limiters = [(''web'', \<lparr>le_limit = None, le_limiter = 0\<rparr>)],
      lm_active = [(''web'', \<lparr>lh_config = sample_tunnel, lh_task = 0, lh_limiter = 0\<rparr>)],
      lm_retired = [], lm_cancelled = [], lm_starts = 1, lm_next_limiter = 1\<rparr>"

lemma sample_manager_inv: "lm_inv sample_manager" "exclusive sample_manager" "clash_free [sample_tunnel]"
  by (auto simp: sample_manager_def lm_inv_def handle_ok_def exclusive_def clash_free_def hm_wf_def hm_get_def
      sample_tunnel_def split: if_splits)

lemmas manager_eval =
  manager_apply_def apply_once_def removed_names_def desired_map_def hm_collect_def hm_get_def hm_contains_def
  start_missing_def limiter_for_def start_listener_def refresh_config_def stop_def hm_remove_def hm_retain_def
  manager_configs_def hm_values_def hm_keys_def same_listener_def

theorem manager_apply_ok_witness:
  "\<exists>lm rt. manager_apply (\<lambda>_ _. Inr ()) (\<lambda>_. False) [sample_tunnel\<lparr>t_group := ''ops''\<rparr>] (sample_manager, runtime_default) = (Inr (), lm, rt)
     \<and> hm_get (lm_active lm) ''web'' = Some \<lparr>lh_config = sample_tunnel\<lparr>t_group := ''ops''\<rparr>, lh_task = 0, lh_limiter = 0\<rparr>"
proof -
  let ?c = "sample_tunnel\<lparr>t_group := ''ops''\<rparr>"
  obtain lm rt where call: "manager_apply (\<lambda>_ _. Inr ()) (\<lambda>_. False) [?c] (sample_manager, runtime_default) = (Inr (), lm, rt)"
    by (simp add: manager_eval reap_retired_def reap_from.simps sample_manager_def sample_tunnel_def)
  have free: "clash_free [?c]" using sample_manager_inv(3) by (simp add: clash_free_def)
  have name: "t_name ?c = ''web''" by (simp add: sample_tunnel_def)
  have k: "kept [?c] sample_manager ''web'' \<lparr>lh_config = sample_tunnel, lh_task = 0, lh_limiter = 0\<rparr>"
    by (simp add: kept_def sample_manager_def hm_get_def same_listener_def sample_tunnel_def)
  note P = manager_apply_ok[OF sample_manager_inv(1) free call]
  from P k obtain c where c: "hm_get (lm_active lm) ''web'' = Some \<lparr>lh_config = c, lh_task = 0, lh_limiter = 0\<rparr>"
    by fastforce
  from P[THEN conjunct1, rule_format, of "''web''"] c name have "c = ?c" by (simp add: config_of_def)
  with call c show ?thesis by blast
qed

text \<open>
  C14: A failed application is rolled back. When a listener cannot be started, the error is a
  bind error for a requested tunnel whose address no running listener holds; once the rollback
  succeeds, every previous tunnel listens again with its previous settings and rate limiter, no
  other one does, listeners that were not touched keep their task, and the runtime is unchanged.
\<close>

theorem manager_apply_rollback:
  assumes inv: "lm_inv lm" and ex: "exclusive lm" and free: "clash_free configs"
    and fail: "apply_once env configs (reap_retired finished lm) = (Inl e, lm1)"
    and roll: "apply_once env (manager_configs lm) (lm1\<lparr>lm_limiters := lm_limiters lm\<rparr>) = (Inr (), lm2)"
  shows "manager_apply env finished configs (lm, rt) = (Inl e, lm2, rt)
    \<and> (\<exists>c \<in> set configs. (\<exists>k. env k c = Inl e)
         \<and> (\<forall>n h. hm_get (lm_active lm1) n = Some h \<longrightarrow> \<not> clash (lh_config h) c))
    \<and> (\<forall>n. map_option lh_config (hm_get (lm_active lm2) n) = map_option lh_config (hm_get (lm_active lm) n))
    \<and> (\<forall>n. hm_get (lm_active lm) n \<noteq> None \<longrightarrow> hm_get (lm_limiters lm2) n = hm_get (lm_limiters lm) n)
    \<and> (\<forall>n h. kept configs lm n h \<longrightarrow> (\<exists>c. hm_get (lm_active lm2) n = Some (h\<lparr>lh_config := c\<rparr>)))
    \<and> lm_inv lm2 \<and> exclusive lm2"
proof -
  let ?lm = "reap_retired finished lm" and ?lm1 = "lm1\<lparr>lm_limiters := lm_limiters lm\<rparr>"
  have dist: "distinct (map t_name configs)" using free by (simp add: clash_free_def)
  have inv': "lm_inv ?lm" using inv by simp
  have wf: "hm_wf (lm_active ?lm)" "hm_wf (lm_limiters ?lm)" using inv by (simp_all add: lm_inv_def)
  have ok: "kept_ok configs ?lm" using inv' by (rule lm_inv_kept_ok)
  note F = apply_once_failed[OF wf dist fail]
  note M = manager_configs_names[OF inv] and cf = exclusive_clash_free[OF inv ex]
  have K: "kept (manager_configs lm) ?lm1 n h \<longleftrightarrow> kept configs lm n h" and kok: "kept_ok (manager_configs lm) ?lm1" for n h
    using rollback_kept[OF inv' dist fail refl] by simp_all
  have wf1: "hm_wf (lm_active ?lm1)" "hm_wf (lm_limiters ?lm1)" using F(1) inv by (simp_all add: lm_inv_def)
  note B = apply_once_ok[OF wf1 M(1) kok roll] and X = apply_once_exclusive[OF wf1 cf kok roll]
  obtain c k where c: "c \<in> set configs" "env k c = Inl e" "hm_get (lm_active lm1) (t_name c) = None" using F(6) by blast
  have "\<not> clash (lh_config h) c" if h: "hm_get (lm_active lm1) n = Some h" for n h
  proof
    assume cl: "clash (lh_config h) c"
    from apply_once_stands_for[OF wf dist ok fail h] obtain d where d: "d \<in> set configs" "t_name d = n" "same_listener (lh_config h) d"
      by blast
    with cl same_listener_clash[OF d(3) same_listener_refl[of c]] free c(1) have "t_name d = t_name c"
      by (auto simp: clash_free_def)
    with d(2) h c(3) show False by simp
  qed
  moreover have lim: "hm_get (lm_limiters lm2) n = hm_get (lm_limiters lm) n" if run: "hm_get (lm_active lm) n \<noteq> None" for n
  proof -
    from run obtain h where h: "hm_get (lm_active lm) n = Some h" by auto
    then have "hm_get (lm_limiters lm) n = Some \<lparr>le_limit = t_limit_bps (lh_config h), le_limiter = lh_limiter h\<rparr>"
      using inv by (simp add: lm_inv_def handle_ok_def)
    with B(5)[of n _ "lh_config h"] M(2)[of n] h show ?thesis by simp
  qed
  moreover have "map_option lh_config (hm_get (lm_active lm2) n) = map_option lh_config (hm_get (lm_active lm) n)" for n
    using B(1)[of n] M(2)[of n] by simp
  moreover have "\<exists>c. hm_get (lm_active lm2) n = Some (h\<lparr>lh_config := c\<rparr>)" if "kept configs lm n h" for n h
    using B(2) K that by blast
  moreover have "manager_apply env finished configs (lm, rt) = (Inl e, lm2, rt)"
    using fail roll by (simp add: manager_apply_def Let_def)
  ultimately show ?thesis using c B(4) X by blast
qed

theorem manager_apply_rollback_witness:
  "\<exists>lm e. manager_apply (\<lambda>n _. if n = 1 then Inl e else Inr ()) (\<lambda>_. False) [sample_tunnel\<lparr>t_bind := SocketAddrV4 0 9090\<rparr>]
        (sample_manager, runtime_default) = (Inl e, lm, runtime_default)
     \<and> map_option lh_config (hm_get (lm_active lm) ''web'') = Some sample_tunnel"
proof -
  let ?c = "sample_tunnel\<lparr>t_bind := SocketAddrV4 0 9090\<rparr>" and ?env = "\<lambda>n _. if n = 1 then Inl (Io AlreadyExists) else Inr ()"
  have free: "clash_free [?c]" by (simp add: clash_free_def)
  obtain lm1 where fail: "apply_once ?env [?c] (reap_retired (\<lambda>_. False) sample_manager) = (Inl (Io AlreadyExists), lm1)"
    and lm1: "lm_active lm1 = []" "lm_starts lm1 = 2"
    by (simp add: manager_eval reap_retired_def reap_from.simps sample_manager_def sample_tunnel_def)
  obtain lm2 where roll: "apply_once ?env (manager_configs sample_manager) (lm1\<lparr>lm_limiters := lm_limiters sample_manager\<rparr>) = (Inr (), lm2)"
    by (simp add: manager_eval sample_manager_def sample_tunnel_def lm1)
  from manager_apply_rollback[OF sample_manager_inv(1,2) free fail roll, of runtime_default]
  have "manager_apply ?env (\<lambda>_. False) [?c] (sample_manager, runtime_default) = (Inl (Io AlreadyExists), lm2, runtime_default)"
    "map_option lh_config (hm_get (lm_active lm2) ''web'') = map_option lh_config (hm_get (lm_active sample_manager) ''web'')"
    by simp_all
  then show ?thesis by (intro exI[of _ lm2] exI[of _ "Io AlreadyExists"]) (simp add: sample_manager_def hm_get_def)
qed

text \<open>Reaping keeps exactly the unfinished tasks, in the order the swapping removal leaves them in.\<close>

lemma swap_remove_mset: "i < length xs \<Longrightarrow> mset xs = add_mset (xs ! i) (mset (swap_remove i xs))"
proof -
  assume i: "i < length xs"
  then have ne: "xs \<noteq> []" by auto
  then obtain ys y where xs: "xs = ys @ [y]" by (metis rev_exhaust)
  show ?thesis
  proof (cases "i = length ys")
    case True
    then show ?thesis by (simp add: swap_remove_def xs)
  next
    case False
    with i have "i < length ys" by (simp add: xs)
    then show ?thesis
      by (simp add: swap_remove_def xs list_update_append butlast_append nth_append mset_update)
  qed
qed

lemma reap_from_keeps_unfinished:
  "mset (reap_from finished 0 tasks) = filter_mset (\<lambda>t. \<not> finished t) (mset tasks)"
proof -
  have "mset (reap_from finished i xs) = mset (take i xs) + filter_mset (\<lambda>t. \<not> finished t) (mset (drop i xs))"
    for i and xs :: "nat list"
  proof (induction finished i xs rule: reap_from.induct)
    case (1 finished i xs)
    show ?case
    proof (cases "i < length xs")
      case False
      then show ?thesis by (subst reap_from.simps) simp
    next
      case True
      then have dr: "drop i xs = xs ! i # drop (Suc i) xs" by (rule Cons_nth_drop_Suc[symmetric])
      show ?thesis
      proof (cases "finished (xs ! i)")
        case fin: True
        have tk: "take i (swap_remove i xs) = take i xs"
          using True by (auto simp: swap_remove_def butlast_conv_take min_def)
        have "mset (take i xs) + mset (drop i xs) = add_mset (xs ! i) (mset (take i (swap_remove i xs)) + mset (drop i (swap_remove i xs)))"
          using swap_remove_mset[OF True] by (simp flip: mset_append)
        then have "mset (drop i (swap_remove i xs)) = mset (drop (Suc i) xs)"
          by (simp add: tk dr)
        with "1.IH"(1)[OF True fin] True fin tk dr show ?thesis by (subst reap_from.simps) simp
      next
        case unfin: False
        have "take (Suc i) xs = take i xs @ [xs ! i]" using True by (rule take_Suc_conv_app_nth)
        with "1.IH"(2)[OF True unfin] True unfin dr show ?thesis by (subst reap_from.simps) simp
      qed
    qed
  qed
  from this[of 0 tasks] show ?thesis by simp
qed

section \<open>Reloading\<close>

lemma manager_apply_cases:
  assumes inv: "lm_inv lm" and ex: "exclusive lm" and free: "clash_free configs"
    and call: "manager_apply env finished configs (lm, rt) = (r, lm', rt')"
  shows "lm_inv lm' \<and> exclusive lm'
    \<and> (r = Inr () \<longrightarrow> rt' = apply_tunnels configs rt
         \<and> (\<forall>n. map_option lh_config (hm_get (lm_active lm') n) = config_of configs n))
    \<and> (r \<noteq> Inr () \<longrightarrow> rt' = rt \<and> (\<exists>c \<in> set configs. \<exists>k e. env k c = Inl e)
         \<and> ((\<forall>n. map_option lh_config (hm_get (lm_active lm') n) = map_option lh_config (hm_get (lm_active lm) n))
            \<or> (\<exists>c \<in> set (manager_configs lm). \<exists>k e. env k c = Inl e)))"
proof (cases "apply_once env configs (reap_retired finished lm)")
  case (Pair r1 lm1)
  let ?lm = "reap_retired finished lm"
  have dist: "distinct (map t_name configs)" using free by (simp add: clash_free_def)
  show ?thesis
  proof (cases r1)
    case (Inr u)
    then have "manager_apply env finished configs (lm, rt) = (Inr (), lm1, apply_tunnels configs rt)"
      using Pair by (simp add: manager_apply_def Let_def)
    with call manager_apply_ok[OF inv free this] show ?thesis by auto
  next
    case (Inl e)
    note fail = Pair[unfolded Inl]
    have wf: "hm_wf (lm_active ?lm)" "hm_wf (lm_limiters ?lm)" using inv by (simp_all add: lm_inv_def)
    note F = apply_once_failed[OF wf dist fail]
    have err: "\<exists>c \<in> set configs. \<exists>k e. env k c = Inl e" using F(6) by blast
    let ?lm1 = "lm1\<lparr>lm_limiters := lm_limiters lm\<rparr>"
    have wf1: "hm_wf (lm_active ?lm1)" "hm_wf (lm_limiters ?lm1)" using F(1) inv by (simp_all add: lm_inv_def)
    have kok: "kept_ok (manager_configs lm) ?lm1" using rollback_kept(2)[OF _ dist fail refl] inv by simp
    note M = manager_configs_names(1)[OF inv] and cf = exclusive_clash_free[OF inv ex]
    show ?thesis
    proof (cases "apply_once env (manager_configs lm) ?lm1")
      case roll: (Pair r2 lm2)
      note X = apply_once_exclusive[OF wf1 cf kok roll]
      show ?thesis
      proof (cases r2)
        case (Inl e2)
        note roll' = roll[unfolded Inl]
        have "manager_apply env finished configs (lm, rt) =
            (Inl (InvalidConfig ''applying the listeners failed and so did the rollback''), lm2, rt)"
          using fail roll' by (simp add: manager_apply_def Let_def)
        with call X err apply_once_failed_inv[OF wf1 M kok roll'] apply_once_failed(6)[OF wf1 M roll']
        show ?thesis by auto
      next
        case (Inr u)
        then have "apply_once env (manager_configs lm) ?lm1 = (Inr (), lm2)" using roll by (cases u) simp
        from manager_apply_rollback[OF inv ex free fail this, of rt] call err show ?thesis by auto
      qed
    qed
  qed
qed

lemma apply_listeners_cases:
  assumes inv: "lm_inv (ss_listeners s)" "exclusive (ss_listeners s)" and free: "clash_free configs"
    and call: "apply_listeners env configs s = (r, s')"
  shows "lm_inv (ss_listeners s') \<and> exclusive (ss_listeners s') \<and> ss_quic s' = ss_quic s \<and> ss_groups s' = ss_groups s
    \<and> (r = Inr () \<longrightarrow> ss_runtime s' = apply_tunnels configs (ss_runtime s)
         \<and> (\<forall>n. map_option lh_config (hm_get (lm_active (ss_listeners s')) n) = config_of configs n))
    \<and> (r \<noteq> Inr () \<longrightarrow> ss_runtime s' = ss_runtime s \<and> (\<exists>c \<in> set configs. \<exists>k e. se_bind env k c = Inl e)
         \<and> ((\<forall>n. map_option lh_config (hm_get (lm_active (ss_listeners s')) n) = map_option lh_config (hm_get (lm_active (ss_listeners s)) n))
            \<or> (\<exists>c \<in> set (manager_configs (ss_listeners s)). \<exists>k e. se_bind env k c = Inl e)))"
proof (cases "manager_apply (se_bind env) (se_finished env) configs (ss_listeners s, ss_runtime s)")
  case (fields r1 lm1 rt1)
  with call have "r1 = r" "s' = s\<lparr>ss_listeners := lm1, ss_runtime := rt1\<rparr>" by (simp_all add: apply_listeners_def)
  with manager_apply_cases[OF inv free fields] show ?thesis by simp
qed

lemma status_kept:
  "rt_config_status (apply_tunnels cs rt) = rt_config_status rt"
  "rt_config_status (apply_credentials sha256 creds rt) = rt_config_status rt"
  "credentials_of (rt_state (apply_tunnels cs rt)) = credentials_of (rt_state rt)"
  by (simp_all add: apply_tunnels_def apply_credentials_def Let_def split: prod.splits)

lemma record_failure_simps [simp]:
  "ss_quic (record_failure env c err s) = ss_quic s" "ss_groups (record_failure env c err s) = ss_groups s"
  "ss_listeners (record_failure env c err s) = ss_listeners s"
  by (simp_all add: record_failure_def)

lemma record_failure_status:
  assumes "config_fingerprint (se_sha256 env) (se_to_toml env) config = Inr f"
  shows "ca_fingerprint (rt_config_status (ss_runtime (record_failure env config err s))) = Some f
    \<and> ca_last_apply_error (rt_config_status (ss_runtime (record_failure env config err s))) = Some err
    \<and> rt_state (ss_runtime (record_failure env config err s)) = rt_state (ss_runtime s)"
  using assms by (simp add: record_failure_def report_config_failed_def publish_config_status_def)

lemma quic_prepare_apply:
  assumes "quic_prepare env cfg q = Inr u"
  shows "(case u of None \<Rightarrow> qe_config q = cfg
    | Some up \<Rightarrow> (\<forall>q'. quic_apply env up q = (Inr (), q') \<longrightarrow> qe_config q' = cfg))"
  using assms by (auto simp: quic_prepare_def quic_apply_def Let_def res_simps split: if_splits option.splits sum.splits)


definition sample_env :: "unit server_env" where
  "sample_env =
     \<lparr>se_quic = \<lparr>env_server_credentials = \<lambda>_. Inr (), env_udp_bind = \<lambda>_. Inr (), env_rebind = \<lambda>_. Inr ()\<rparr>,
      se_bind = \<lambda>_ _. Inr (), se_finished = \<lambda>_. True, se_sha256 = \<lambda>b. b, se_to_toml = \<lambda>_. Some ''toml'', se_show = \<lambda>_. ''error''\<rparr>"

definition sample_state :: "unit server_state" where
  "sample_state =
     \<lparr>ss_runtime = runtime_default, ss_groups = [],
      ss_quic = \<lparr>qe_config = sc_quic sample_server, qe_credentials = (), qe_socket = SocketAddrV4 0 4433\<rparr>,
      ss_listeners = manager_new\<rparr>"


end
