(* ===== verification/Identity.thy ===== *)
theory Identity
  imports Tunnel_Config
begin

text \<open>
  \<open>gaterust-tunnel/src/identity.rs\<close>: the device id a client keeps beside its configuration.
  The environment (operating system name, \<open>COMPUTERNAME\<close>, \<open>HOSTNAME\<close>, \<open>/etc/hostname\<close>), the
  file system and the random suffix are parameters.
\<close>

section \<open>Device ids\<close>

definition MAX_DEVICE_ID_BYTES :: nat where "MAX_DEVICE_ID_BYTES = 64"

record DeviceIdentity =
  di_id :: string
  di_path :: path

definition validate_device_id :: "string \<Rightarrow> (TunnelError, unit) res" where
  "validate_device_id i =
     (if i = [] \<or> length i > MAX_DEVICE_ID_BYTES \<or> \<not> list_all name_byte i
      then Inl (InvalidConfig ''the device id must be 1..=64 ASCII letters, digits, - or _'')
      else Inr ())"

definition identity_path :: "path \<Rightarrow> path" where
  "identity_path config_path =
     path_with_file_name config_path
       ((case path_file_name config_path of None \<Rightarrow> ''client'' | Some n \<Rightarrow> n) @ ''.device-id'')"

text \<open>The loop of \<open>sanitize\<close>, with the result so far as accumulator.\<close>

definition sanitize_push :: "char \<Rightarrow> string \<Rightarrow> string" where
  "sanitize_push byte result =
     (let b = (if name_byte byte then byte else CHR ''-'')
      in if b \<noteq> CHR ''-'' \<or> \<not> ends_with result CHR ''-'' then result @ [b] else result)"

definition sanitize :: "string \<Rightarrow> nat \<Rightarrow> string" where
  "sanitize v limit =
     (let result = trim_matches CHR ''-'' (fold sanitize_push (take limit v) [])
      in if result = [] then ''device'' else result)"

definition truncate_ascii :: "string \<Rightarrow> nat \<Rightarrow> string" where
  "truncate_ascii v limit = take (min (length v) limit) v"

record host_env =
  he_os :: string
  he_computername :: "string option"
  he_hostname :: "string option"
  he_etc_hostname :: "string option"

definition system_host_name :: "host_env \<Rightarrow> string option" where
  "system_host_name e =
     (case he_etc_hostname e of
        None \<Rightarrow> None
      | Some n \<Rightarrow> if trim n = [] then None else Some (trim n))"

definition base_device_id :: "host_env \<Rightarrow> string" where
  "base_device_id e =
     (let system = (if he_os e = ''windows'' then ''win'' else if he_os e = ''macos'' then ''mac'' else he_os e);
          var = (case he_computername e of Some n \<Rightarrow> Some n | None \<Rightarrow> he_hostname e);
          nonblank = (case var of None \<Rightarrow> None | Some n \<Rightarrow> if trim n = [] then None else Some n);
          raw_name = (case nonblank of
             Some n \<Rightarrow> n
           | None \<Rightarrow> (case system_host_name e of Some n \<Rightarrow> n | None \<Rightarrow> ''device''))
      in system @ ''-'' @ sanitize raw_name (MAX_DEVICE_ID_BYTES - length system - 1))"

text \<open>\<open>persist\<close>: \<open>write\<close> creates the directory and replaces the file atomically.\<close>

type_synonym file_write = "path \<Rightarrow> string \<Rightarrow> fs \<Rightarrow> (io_error, unit) res \<times> fs"

definition persist :: "file_write \<Rightarrow> DeviceIdentity \<Rightarrow> fs \<Rightarrow> (TunnelError, unit) res \<times> fs" where
  "persist write d fs =
     (case write (di_path d) (di_id d) fs of (Inl e, fs') \<Rightarrow> (Inl (Io e), fs') | (Inr _, fs') \<Rightarrow> (Inr (), fs'))"

definition identity_load ::
  "file_write \<Rightarrow> host_env \<Rightarrow> path \<Rightarrow> fs \<Rightarrow> (TunnelError, DeviceIdentity) res \<times> fs" where
  "identity_load write env config_path fs =
     (let p = identity_path config_path in
      case fs p of
        Inr content \<Rightarrow>
          (let i = trim content
           in case validate_device_id i of
                Inl e \<Rightarrow> (Inl e, fs)
              | Inr _ \<Rightarrow> (Inr \<lparr>di_id = i, di_path = p\<rparr>, fs))
      | Inl e \<Rightarrow>
          if e = NotFound
          then (let d = \<lparr>di_id = base_device_id env, di_path = p\<rparr>
                in case persist write d fs of
                     (Inl err, fs') \<Rightarrow> (Inl err, fs')
                   | (Inr _, fs') \<Rightarrow> (Inr d, fs'))
          else (Inl (ReadConfig p e), fs))"

text \<open>\<open>format!("{suffix:06}")\<close>\<close>

definition show_pad :: "nat \<Rightarrow> nat \<Rightarrow> string" where
  "show_pad w n = replicate (w - length (show_nat n)) CHR ''0'' @ show_nat n"

definition conflict_id :: "string \<Rightarrow> nat \<Rightarrow> string" where
  "conflict_id i suffix =
     (let base = (case rsplit_once CHR ''-'' i of
            None \<Rightarrow> i
          | Some (b, s) \<Rightarrow> if length s = 6 \<and> list_all is_ascii_digit s then b else i)
      in truncate_ascii base (MAX_DEVICE_ID_BYTES - 7) @ ''-'' @ show_pad 6 suffix)"

definition resolve_conflict ::
  "file_write \<Rightarrow> nat \<Rightarrow> DeviceIdentity \<Rightarrow> fs \<Rightarrow> (TunnelError, unit) res \<times> DeviceIdentity \<times> fs" where
  "resolve_conflict write suffix d fs =
     (let d' = d\<lparr>di_id := conflict_id (di_id d) suffix\<rparr>
      in case persist write d' fs of (r, fs') \<Rightarrow> (r, d', fs'))"

section \<open>Lemmas\<close>

lemma validate_device_id_iff: "validate_device_id i = Inr u \<longleftrightarrow> valid_name i"
  by (cases i) (auto simp: validate_device_id_def valid_name_def MAX_DEVICE_ID_BYTES_def)

lemma name_byte_dash [simp]: "name_byte CHR ''-''"
  by (simp add: name_byte_def)

lemma sanitize_fold:
  "list_all name_byte r \<Longrightarrow> list_all name_byte (fold sanitize_push bs r) \<and> length (fold sanitize_push bs r) \<le> length r + length bs"
proof (induction bs arbitrary: r)
  case (Cons b bs)
  have "list_all name_byte (sanitize_push b r)" "length (sanitize_push b r) \<le> Suc (length r)"
    using Cons.prems by (simp_all add: sanitize_push_def Let_def)
  with Cons.IH[of "sanitize_push b r"] show ?case by simp
qed simp

lemma set_trim_matches: "set (trim_matches c s) \<subseteq> set s"
proof -
  have "set (dropWhile P xs) \<subseteq> set xs" for P and xs :: "'a list" by (auto dest: set_dropWhileD)
  then show ?thesis
    unfolding trim_matches_def trim_end_matches_def trim_start_matches_def by (metis set_rev subset_trans)
qed

lemma length_trim_matches: "length (trim_matches c s) \<le> length s"
  unfolding trim_matches_def trim_end_matches_def trim_start_matches_def
  by (metis length_dropWhile_le length_rev le_trans)

lemma sanitize_valid:
  "list_all name_byte (sanitize v limit) \<and> sanitize v limit \<noteq> [] \<and> (6 \<le> limit \<longrightarrow> length (sanitize v limit) \<le> limit)"
proof -
  let ?r = "fold sanitize_push (take limit v) []"
  have r: "list_all name_byte ?r" "length ?r \<le> limit" using sanitize_fold[of "[]" "take limit v"] by auto
  have "list_all name_byte (trim_matches CHR ''-'' ?r)"
    using r(1) set_trim_matches[of "CHR ''-''" ?r] by (auto simp: list_all_iff)
  moreover have "length (trim_matches CHR ''-'' ?r) \<le> limit"
    using r(2) length_trim_matches[of "CHR ''-''" ?r] by linarith
  moreover have "list_all name_byte ''device''"
    by (simp add: name_byte_def is_ascii_alphanumeric_def is_ascii_lower_def)
  ultimately show ?thesis by (simp add: sanitize_def Let_def)
qed

lemma joined_id_valid:
  assumes "list_all name_byte sys" "length sys \<le> 20"
  shows "valid_name (sys @ ''-'' @ sanitize raw (64 - length sys - 1))"
proof -
  have "6 \<le> 64 - length sys - 1" using assms(2) by simp
  with sanitize_valid[of raw "64 - length sys - 1"] have
    "list_all name_byte (sanitize raw (64 - length sys - 1))" "length (sanitize raw (64 - length sys - 1)) \<le> 64 - length sys - 1"
    by simp_all
  with assms show ?thesis unfolding valid_name_def by simp
qed

lemma digit_name_byte: "radix_digit 10 c \<noteq> None \<Longrightarrow> name_byte c \<and> is_ascii_digit c"
  by (auto simp: radix_digit_def hex_digit_def name_byte_def is_ascii_alphanumeric_def is_ascii_digit_def
      split: option.splits if_splits)

lemma show_nat_digits: "list_all is_ascii_digit (show_nat n) \<and> list_all name_byte (show_nat n)"
  using show_radix_digits[of 10 n] digit_name_byte by (auto simp: list_all_iff)

lemma length_show_nat: "n < 10 ^ w \<Longrightarrow> 0 < w \<Longrightarrow> length (show_nat n) \<le> w"
proof (induction w arbitrary: n)
  case (Suc w)
  show ?case
  proof (cases "n < 10")
    case True
    then show ?thesis by (subst show_radix.simps) simp
  next
    case False
    then have "0 < w" using Suc.prems(1) by (cases w) auto
    moreover have "n div 10 < 10 ^ w" using Suc.prems(1) by (simp add: less_mult_imp_div_less mult.commute)
    ultimately have "length (show_nat (n div 10)) \<le> w" using Suc.IH by simp
    then show ?thesis using False by (subst show_radix.simps) simp
  qed
qed simp

lemma show_pad_6:
  assumes "n < 1000000"
  shows "length (show_pad 6 n) = 6 \<and> list_all is_ascii_digit (show_pad 6 n) \<and> list_all name_byte (show_pad 6 n)"
  using assms length_show_nat[of n 6] show_nat_digits[of n]
  by (auto simp: show_pad_def list_all_iff is_ascii_digit_def name_byte_def is_ascii_alphanumeric_def)

section \<open>Properties\<close>

text \<open>
  A device id is always acceptable to the server. Loading yields only ids that pass the
  server's check, generating the default one where no file exists (for an operating system name
  of at most 20 name characters), and resolving a conflict replaces the id by another valid one
  that keeps the part before the numeric suffix, so repeated conflicts never make it grow.
\<close>

theorem device_id_valid:
  assumes os: "list_all name_byte (he_os env)" "length (he_os env) \<le> 20"
    and load: "identity_load write env config_path fs = (Inr d, fs')"
    and suffix: "suffix < 1000000" "suffix' < 1000000"
    and resolve: "resolve_conflict write' suffix d fs' = (r, d', fs'')"
    and again: "resolve_conflict write'' suffix' d' fs'' = (r', d'', fs''')"
  shows "validate_device_id (di_id d) = Inr () \<and> validate_device_id (di_id d') = Inr ()
    \<and> (\<exists>base. di_id d' = base @ ''-'' @ show_pad 6 suffix \<and> di_id d'' = base @ ''-'' @ show_pad 6 suffix')"
proof -
  have base: "valid_name (base_device_id env)"
    unfolding base_device_id_def Let_def MAX_DEVICE_ID_BYTES_def
    by (rule joined_id_valid)
       (use os in \<open>simp_all add: name_byte_def is_ascii_alphanumeric_def is_ascii_lower_def\<close>)
  have v: "valid_name (di_id d)"
  proof (cases "fs (identity_path config_path)")
    case (Inl e)
    with load have "di_id d = base_device_id env"
      by (auto simp: identity_load_def Let_def split: if_splits sum.splits prod.splits)
    with base show ?thesis by simp
  next
    case (Inr content)
    with load show ?thesis
      by (auto simp: identity_load_def Let_def validate_device_id_iff split: sum.splits)
  qed
  let ?b = "truncate_ascii (case rsplit_once CHR ''-'' (di_id d) of None \<Rightarrow> di_id d
      | Some (b, s) \<Rightarrow> if length s = 6 \<and> list_all is_ascii_digit s then b else di_id d) 57"
  have d': "di_id d' = ?b @ ''-'' @ show_pad 6 suffix"
    using resolve by (auto simp: resolve_conflict_def conflict_id_def Let_def MAX_DEVICE_ID_BYTES_def split: prod.splits)
  have names: "list_all name_byte ?b"
  proof -
    have "list_all name_byte (case rsplit_once CHR ''-'' (di_id d) of None \<Rightarrow> di_id d
      | Some (b, s) \<Rightarrow> if length s = 6 \<and> list_all is_ascii_digit s then b else di_id d)"
      using v by (auto simp: valid_name_def str_simps split: option.splits)
    then show ?thesis by (auto simp: truncate_ascii_def list_all_iff dest: in_set_takeD)
  qed
  have len: "length ?b \<le> 57" by (simp add: truncate_ascii_def)
  note S = show_pad_6[OF suffix(1)]
  have v': "valid_name (di_id d')" using names len S unfolding d' valid_name_def by simp
  have nodash: "CHR ''-'' \<notin> set (show_pad 6 suffix)" using S by (auto simp: list_all_iff is_ascii_digit_def)
  then have "rsplit_once CHR ''-'' (di_id d') = Some (?b, show_pad 6 suffix)" by (simp add: d' str_simps)
  then have "conflict_id (di_id d') suffix' = ?b @ ''-'' @ show_pad 6 suffix'"
    using S len by (simp add: conflict_id_def truncate_ascii_def MAX_DEVICE_ID_BYTES_def)
  then have "di_id d'' = ?b @ ''-'' @ show_pad 6 suffix'"
    using again by (auto simp: resolve_conflict_def Let_def split: prod.splits)
  with v v' d' show ?thesis by (auto simp: validate_device_id_iff)
qed

theorem device_id_valid_witness:
  "\<exists>d fs'. identity_load (\<lambda>p x fs. (Inr (), fs(p := Inr x)))
       \<lparr>he_os = ''linux'', he_computername = None, he_hostname = Some ''box'', he_etc_hostname = None\<rparr>
       (Path True [''c.toml'']) (\<lambda>_. Inl NotFound) = (Inr d, fs') \<and> validate_device_id (di_id d) = Inr ()"
proof -
  let ?env = "\<lparr>he_os = ''linux'', he_computername = None, he_hostname = Some ''box'', he_etc_hostname = None\<rparr>"
  let ?w = "\<lambda>p x (fs :: fs). (Inr (), fs(p := Inr x))"
  have os: "list_all name_byte (he_os ?env)" "length (he_os ?env) \<le> 20"
    by (simp_all add: name_byte_def is_ascii_alphanumeric_def is_ascii_lower_def)
  obtain d fs' where load: "identity_load ?w ?env (Path True [''c.toml'']) (\<lambda>_. Inl NotFound) = (Inr d, fs')"
    by (simp add: identity_load_def persist_def Let_def)
  obtain r d' fs'' where r1: "resolve_conflict ?w 7 d fs' = (r, d', fs'')" by (cases "resolve_conflict ?w 7 d fs'")
  obtain r' d'' fs3 where r2: "resolve_conflict ?w 8 d' fs'' = (r', d'', fs3)" by (cases "resolve_conflict ?w 8 d' fs''")
  from device_id_valid[OF os load _ _ r1 r2] load show ?thesis by simp
qed

end
