(* ===== verification/Bootstrap.thy ===== *)
theory Bootstrap
  imports Protocol
begin

text \<open>
  \<open>gaterust-tunnel/src/bootstrap.rs\<close>: the proofs with which a client and a server show each other
  that they hold the same group key before the client trusts a certificate. HMAC-SHA-256 and
  SHA-256 are parameters: \<open>mac key\<close> is the keyed function, or \<open>None\<close> for a refused key.
\<close>

section \<open>Proofs\<close>

definition NONCE_LENGTH :: nat where "NONCE_LENGTH = 32"
definition PROOF_LENGTH :: nat where "PROOF_LENGTH = 32"

definition CLIENT_PROOF_DOMAIN :: bytes where
  "CLIENT_PROOF_DOMAIN = str_bytes ''gaterust/certificate-bootstrap/client/v1''"

definition SERVER_PROOF_DOMAIN :: bytes where
  "SERVER_PROOF_DOMAIN = str_bytes ''gaterust/certificate-bootstrap/server/v1''"

record crypto =
  cr_mac :: "bytes \<Rightarrow> (bytes \<Rightarrow> bytes) option"
  cr_sha256 :: "bytes \<Rightarrow> bytes"

text \<open>The bytes \<open>update_proof\<close> feeds to the MAC, in order.\<close>

definition update_proof :: "crypto \<Rightarrow> bytes \<Rightarrow> u16 \<Rightarrow> bytes \<Rightarrow> bytes option \<Rightarrow> bytes \<Rightarrow> bytes" where
  "update_proof c domain version client_nonce server_nonce certificate =
     domain @ be_bytes 2 (unat version) @ client_nonce
     @ (case server_nonce of None \<Rightarrow> [] | Some n \<Rightarrow> n) @ cr_sha256 c certificate"

definition proof_bytes ::
  "crypto \<Rightarrow> bytes \<Rightarrow> bytes \<Rightarrow> u16 \<Rightarrow> bytes \<Rightarrow> bytes option \<Rightarrow> bytes \<Rightarrow> (TunnelError, bytes) res" where
  "proof_bytes c key domain version cn sn certificate =
     (case cr_mac c key of
        None \<Rightarrow> Inl (Protocol ''cannot initialise the bootstrap proof'')
      | Some m \<Rightarrow> Inr (m (update_proof c domain version cn sn certificate)))"

definition verify ::
  "crypto \<Rightarrow> bytes \<Rightarrow> bytes \<Rightarrow> u16 \<Rightarrow> bytes \<Rightarrow> bytes option \<Rightarrow> bytes \<Rightarrow> bytes \<Rightarrow> bool" where
  "verify c key domain version cn sn certificate candidate =
     (case cr_mac c key of
        None \<Rightarrow> False
      | Some m \<Rightarrow> m (update_proof c domain version cn sn certificate) = candidate)"

definition client_proof :: "crypto \<Rightarrow> bytes \<Rightarrow> u16 \<Rightarrow> bytes \<Rightarrow> bytes \<Rightarrow> (TunnelError, bytes) res" where
  "client_proof c key version cn certificate =
     proof_bytes c key CLIENT_PROOF_DOMAIN version cn None certificate"

definition server_proof :: "crypto \<Rightarrow> bytes \<Rightarrow> u16 \<Rightarrow> bytes \<Rightarrow> bytes \<Rightarrow> bytes \<Rightarrow> (TunnelError, bytes) res" where
  "server_proof c key version cn sn certificate =
     proof_bytes c key SERVER_PROOF_DOMAIN version cn (Some sn) certificate"

definition verify_client_proof :: "crypto \<Rightarrow> bytes \<Rightarrow> u16 \<Rightarrow> bytes \<Rightarrow> bytes \<Rightarrow> bytes \<Rightarrow> bool" where
  "verify_client_proof c key version cn certificate candidate =
     verify c key CLIENT_PROOF_DOMAIN version cn None certificate candidate"

definition verify_server_proof :: "crypto \<Rightarrow> bytes \<Rightarrow> u16 \<Rightarrow> bytes \<Rightarrow> bytes \<Rightarrow> bytes \<Rightarrow> bytes \<Rightarrow> bool" where
  "verify_server_proof c key version cn sn certificate candidate =
     verify c key SERVER_PROOF_DOMAIN version cn (Some sn) certificate candidate"

section \<open>The exchange\<close>

text \<open>
  The decision of the server's \<open>bootstrap_certificate\<close>: the first group whose key verifies the
  client's proof answers. \<open>groups\<close> are the configured names and keys.
\<close>

primrec answer_bootstrap ::
  "crypto \<Rightarrow> (string \<times> bytes) list \<Rightarrow> bytes \<Rightarrow> bytes \<Rightarrow> CertificateBootstrapRequest
   \<Rightarrow> (TunnelError, CertificateBootstrapResponse) res option" where
  "answer_bootstrap c [] server_nonce certificate req = None"
| "answer_bootstrap c (g # groups) server_nonce certificate req =
     (if verify_client_proof c (snd g) (cbr_version req) (cbr_client_nonce req) certificate (cbr_proof req)
      then Some (case server_proof c (snd g) (cbr_version req) (cbr_client_nonce req) server_nonce certificate of
                   Inl e \<Rightarrow> Inl e
                 | Inr p \<Rightarrow> Inr (BootstrapAccepted server_nonce p))
      else answer_bootstrap c groups server_nonce certificate req)"

definition bootstrap_response ::
  "crypto \<Rightarrow> (string \<times> bytes) list \<Rightarrow> bytes \<Rightarrow> bytes \<Rightarrow> CertificateBootstrapRequest
   \<Rightarrow> (TunnelError, CertificateBootstrapResponse \<times> bool) res" where
  "bootstrap_response c groups server_nonce certificate req =
     (case (if cbr_version req = PROTOCOL_VERSION then answer_bootstrap c groups server_nonce certificate req else None) of
        None \<Rightarrow> Inr (BootstrapRejected ''key verification failed'', False)
      | Some (Inl e) \<Rightarrow> Inl e
      | Some (Inr r) \<Rightarrow> Inr (r, True))"

text \<open>The client's part of \<open>bootstrap_at_address\<close>: the request for the certificate it was shown, and the check of the answer.\<close>

definition bootstrap_request ::
  "crypto \<Rightarrow> bytes \<Rightarrow> bytes \<Rightarrow> bytes \<Rightarrow> (TunnelError, CertificateBootstrapRequest) res" where
  "bootstrap_request c key client_nonce certificate =
     res_bind (client_proof c key PROTOCOL_VERSION client_nonce certificate) (\<lambda>p.
     Inr \<lparr>cbr_version = PROTOCOL_VERSION, cbr_client_nonce = client_nonce, cbr_proof = p\<rparr>)"

definition check_bootstrap ::
  "crypto \<Rightarrow> bytes \<Rightarrow> bytes \<Rightarrow> bytes \<Rightarrow> ServerHandshake \<Rightarrow> (TunnelError, unit) res" where
  "check_bootstrap c key client_nonce certificate response =
     (case response of
        AuthenticateResponse _ \<Rightarrow> Inl (Protocol ''wrong kind of bootstrap response'')
      | BootstrapResponse (BootstrapAccepted server_nonce p) \<Rightarrow>
          if verify_server_proof c key PROTOCOL_VERSION client_nonce server_nonce certificate p then Inr ()
          else Inl (Authentication ''the server's proof is invalid'')
      | BootstrapResponse (BootstrapRejected message) \<Rightarrow> Inl (Authentication message))"

section \<open>Binding\<close>

lemma proof_domains:
  "length CLIENT_PROOF_DOMAIN = 40" "length SERVER_PROOF_DOMAIN = 40" "CLIENT_PROOF_DOMAIN \<noteq> SERVER_PROOF_DOMAIN"
  by (simp_all add: CLIENT_PROOF_DOMAIN_def SERVER_PROOF_DOMAIN_def str_bytes_def)

lemma be_bytes_inj: "be_bytes 2 (unat (v :: u16)) = be_bytes 2 (unat w) \<Longrightarrow> v = w"
proof -
  have "unat x < 256 ^ 2" for x :: u16 using unsigned_less[of x, where ?'a = nat] by simp
  then show "be_bytes 2 (unat v) = be_bytes 2 (unat w) \<Longrightarrow> v = w"
    by (metis be_value_bytes word_unat_eq_iff)
qed

text \<open>The MAC input determines the version, the nonces and the certificate digest.\<close>

lemma update_proof_inj:
  assumes "update_proof c dm v cn sn cert = update_proof c dm' v' cn' sn' cert'"
    "length dm = length dm'" "length cn = 32" "length cn' = 32"
    "\<forall>n. sn = Some n \<longrightarrow> length n = 32" "\<forall>n. sn' = Some n \<longrightarrow> length n = 32" "sn = None \<longleftrightarrow> sn' = None"
  shows "dm = dm' \<and> v = v' \<and> cn = cn' \<and> sn = sn' \<and> cr_sha256 c cert = cr_sha256 c cert'"
  using assms by (cases sn; cases sn') (auto simp: update_proof_def dest: be_bytes_inj)

lemma verify_proof:
  assumes "proof_bytes c key dm v cn sn cert = Inr p"
  shows "verify c key dm v cn sn cert p"
  using assms by (auto simp: proof_bytes_def verify_def split: option.splits)

lemma answer_bootstrap_cases:
  "(answer_bootstrap c gs sn cert req = None \<longleftrightarrow>
      (\<forall>g \<in> set gs. \<not> verify_client_proof c (snd g) (cbr_version req) (cbr_client_nonce req) cert (cbr_proof req)))
   \<and> (\<forall>r. answer_bootstrap c gs sn cert req = Some r \<longrightarrow>
      (\<exists>g \<in> set gs. verify_client_proof c (snd g) (cbr_version req) (cbr_client_nonce req) cert (cbr_proof req)
        \<and> (\<exists>p. r = Inr (BootstrapAccepted sn p)
             \<and> server_proof c (snd g) (cbr_version req) (cbr_client_nonce req) sn cert = Inr p)))"
proof (induction gs)
  case (Cons g gs)
  have "\<exists>p. server_proof c (snd g) (cbr_version req) (cbr_client_nonce req) sn cert = Inr p"
    if "verify_client_proof c (snd g) (cbr_version req) (cbr_client_nonce req) cert (cbr_proof req)"
    using that by (auto simp: verify_client_proof_def verify_def server_proof_def proof_bytes_def split: option.splits)
  with Cons show ?case by auto
qed simp

section \<open>Properties\<close>

text \<open>
  C18: Certificate bootstrap. Assume that SHA-256 and HMAC do not collide on the inputs of this
  exchange. Then a client accepts the answer to its request exactly when the server holds the
  client's group key and the certificate the client was shown is the server's own: the key is
  enough for success, and an exchange relayed by a party that presents another certificate fails.
\<close>

theorem bootstrap_exchange:
  assumes hash: "cr_sha256 c own = cr_sha256 c shown \<Longrightarrow> own = shown"
    and mac: "\<And>k f g. k \<in> snd ` set groups \<Longrightarrow> cr_mac c k = Some f \<Longrightarrow> cr_mac c key = Some g \<Longrightarrow>
      f (update_proof c CLIENT_PROOF_DOMAIN PROTOCOL_VERSION cn None own)
        = g (update_proof c CLIENT_PROOF_DOMAIN PROTOCOL_VERSION cn None shown) \<Longrightarrow>
      k = key \<and> update_proof c CLIENT_PROOF_DOMAIN PROTOCOL_VERSION cn None own
        = update_proof c CLIENT_PROOF_DOMAIN PROTOCOL_VERSION cn None shown"
    and nonce: "length cn = NONCE_LENGTH"
    and req: "bootstrap_request c key cn shown = Inr req"
    and resp: "bootstrap_response c groups sn own req = Inr (r, valid)"
  shows "(check_bootstrap c key cn shown (BootstrapResponse r) = Inr () \<longleftrightarrow> shown = own \<and> key \<in> snd ` set groups)
    \<and> (valid \<longleftrightarrow> shown = own \<and> key \<in> snd ` set groups)"
proof -
  obtain p where p: "proof_bytes c key CLIENT_PROOF_DOMAIN PROTOCOL_VERSION cn None shown = Inr p"
    and req': "req = \<lparr>cbr_version = PROTOCOL_VERSION, cbr_client_nonce = cn, cbr_proof = p\<rparr>"
    using req by (auto simp: bootstrap_request_def client_proof_def res_simps)
  have ver: "verify_client_proof c k PROTOCOL_VERSION cn own p \<longleftrightarrow> k = key \<and> own = shown" if k: "k \<in> snd ` set groups" for k
  proof
    assume "verify_client_proof c k PROTOCOL_VERSION cn own p"
    then obtain f g where "cr_mac c k = Some f" "cr_mac c key = Some g"
      "f (update_proof c CLIENT_PROOF_DOMAIN PROTOCOL_VERSION cn None own)
        = g (update_proof c CLIENT_PROOF_DOMAIN PROTOCOL_VERSION cn None shown)"
      using p by (auto simp: verify_client_proof_def verify_def proof_bytes_def split: option.splits)
    from mac[OF k this] have "k = key" and eq: "update_proof c CLIENT_PROOF_DOMAIN PROTOCOL_VERSION cn None own
        = update_proof c CLIENT_PROOF_DOMAIN PROTOCOL_VERSION cn None shown" by simp_all
    with update_proof_inj[OF eq] nonce hash show "k = key \<and> own = shown" by (auto simp: NONCE_LENGTH_def)
  next
    assume "k = key \<and> own = shown"
    with verify_proof[OF p] show "verify_client_proof c k PROTOCOL_VERSION cn own p"
      by (simp add: verify_client_proof_def)
  qed
  note A = answer_bootstrap_cases[of c groups sn own req]
  show ?thesis
  proof (cases "answer_bootstrap c groups sn own req")
    case None
    then have "r = BootstrapRejected ''key verification failed''" "\<not> valid"
      using resp req' by (simp_all add: bootstrap_response_def)
    moreover have "\<not> (shown = own \<and> key \<in> snd ` set groups)" using A None ver req' by force
    ultimately show ?thesis by (simp add: check_bootstrap_def)
  next
    case (Some res)
    with A obtain g q where g: "g \<in> set groups" "verify_client_proof c (snd g) PROTOCOL_VERSION cn own p"
      "res = Inr (BootstrapAccepted sn q)" "server_proof c (snd g) PROTOCOL_VERSION cn sn own = Inr q"
      using req' by auto
    then have eq: "snd g = key" "own = shown" using ver by auto
    have r: "r = BootstrapAccepted sn q" "valid" using resp Some g(3) req' by (simp_all add: bootstrap_response_def)
    have "verify_server_proof c key PROTOCOL_VERSION cn sn shown q"
      using verify_proof g(4) eq by (simp add: server_proof_def verify_server_proof_def)
    moreover have "key \<in> snd ` set groups" using g(1) eq(1) by force
    ultimately show ?thesis using eq r by (simp add: check_bootstrap_def)
  qed
qed

text \<open>A concrete instance: a keyed function that separates the inputs of the exchange.\<close>

definition sample_crypto :: crypto where
  "sample_crypto = \<lparr>cr_mac = \<lambda>k. Some (\<lambda>m. k @ m), cr_sha256 = \<lambda>m. m\<rparr>"

theorem bootstrap_exchange_witness:
  "\<exists>req r valid. bootstrap_request sample_crypto [1] (replicate 32 0) [7] = Inr req
     \<and> bootstrap_response sample_crypto [(''a'', [2]), (''b'', [1])] [] [7] req = Inr (r, valid)
     \<and> check_bootstrap sample_crypto [1] (replicate 32 0) [7] (BootstrapResponse r) = Inr ()"
proof -
  obtain req where req: "bootstrap_request sample_crypto [1] (replicate 32 0) [7] = Inr req"
    by (simp add: bootstrap_request_def client_proof_def proof_bytes_def sample_crypto_def)
  then have v: "cbr_version req = PROTOCOL_VERSION" by (auto simp: bootstrap_request_def res_simps)
  obtain r valid where resp: "bootstrap_response sample_crypto [(''a'', [2]), (''b'', [1])] [] [7] req = Inr (r, valid)"
    using answer_bootstrap_cases[of sample_crypto "[(''a'', [2]), (''b'', [1])]" "[]" "[7]" req]
    by (cases "answer_bootstrap sample_crypto [(''a'', [2]), (''b'', [1])] [] [7] req")
       (auto simp: bootstrap_response_def v simp del: answer_bootstrap.simps)
  have mac: "k = [1] \<and> True"
    if "k \<in> snd ` set [(''a'', [2 :: u8]), (''b'', [1])]" "cr_mac sample_crypto k = Some f" "cr_mac sample_crypto [1] = Some g"
      "f m = g m" for k f g and m :: bytes
    using that by (auto simp: sample_crypto_def)
  have "check_bootstrap sample_crypto [1] (replicate 32 0) [7] (BootstrapResponse r) = Inr ()"
    using bootstrap_exchange[OF _ _ _ req resp] mac by (fastforce simp: NONCE_LENGTH_def)
  with req resp show ?thesis by blast
qed

end
