(* ===== verification/Server_Session.thy ===== *)
theory Server_Session
  imports Tunnel_Runtime Identity Bootstrap
begin

text \<open>
  \<open>gaterust-tunnel/src/server/mod.rs\<close>: \<open>authenticate\<close>, the handler of one client connection, with
  \<open>bootstrap_certificate\<close>, \<open>reject_authentication\<close> and the loop of the control session. What the
  network delivers is an argument: the first stream, the handshake, then the events of the
  \<open>select!\<close> loop in the order it takes them. The outcome of the \<open>n\<close>-th write, of finishing a
  stream, and the close reason of the connection are parameters. Operations of other tasks on
  the shared runtime appear between the events as \<open>OtherTask\<close>.
\<close>

section \<open>State\<close>

datatype SessionEnd = ConnectionEnded ConnectionError | ControlEnded TunnelError

datatype server_message = Handshake ServerHandshake | Control ServerControlMessage

datatype session_event =
    ConnectionClosedEvent ConnectionError
  | MessageEvent "(TunnelError, ControlMessage) res"
  | ChangedEvent bool
  | OtherTask "TunnelRuntime \<Rightarrow> TunnelRuntime"

record session =
  sx_runtime :: TunnelRuntime
  sx_sent :: "server_message list"
  sx_closes :: "ApplicationCloseCode list"
  sx_admission_held :: bool

record session_net =
  sn_write :: "nat \<Rightarrow> (TunnelError, unit) res"
  sn_finish :: "(TunnelError, unit) res"
  sn_close_reason :: "ConnectionError option"

text \<open>\<open>str::from_utf8\<close>: well-formed UTF-8 byte sequences.\<close>

definition continuation :: "u8 \<Rightarrow> bool" where
  "continuation b = (0x80 \<le> unat b \<and> unat b \<le> 0xBF)"

fun utf8_valid :: "bytes \<Rightarrow> bool" where
  "utf8_valid [] = True"
| "utf8_valid (a # bs) =
     (if unat a < 0x80 then utf8_valid bs
      else if 0xC2 \<le> unat a \<and> unat a \<le> 0xDF
      then (case bs of b # r \<Rightarrow> continuation b \<and> utf8_valid r | _ \<Rightarrow> False)
      else if 0xE0 \<le> unat a \<and> unat a \<le> 0xEF
      then (case bs of
              b # c # r \<Rightarrow> continuation b \<and> continuation c \<and> (unat a = 0xE0 \<longrightarrow> 0xA0 \<le> unat b)
                \<and> (unat a = 0xED \<longrightarrow> unat b \<le> 0x9F) \<and> utf8_valid r
            | _ \<Rightarrow> False)
      else if 0xF0 \<le> unat a \<and> unat a \<le> 0xF4
      then (case bs of
              b # c # d # r \<Rightarrow> continuation b \<and> continuation c \<and> continuation d \<and> (unat a = 0xF0 \<longrightarrow> 0x90 \<le> unat b)
                \<and> (unat a = 0xF4 \<longrightarrow> unat b \<le> 0x8F) \<and> utf8_valid r
            | _ \<Rightarrow> False)
      else False)"

definition bytes_str :: "bytes \<Rightarrow> string" where
  "bytes_str bs = map (\<lambda>b. char_of (unat b)) bs"

section \<open>The handshake\<close>

definition valid_hello :: "ClientHello \<Rightarrow> bool" where
  "valid_hello hello =
     (let valid_key = (utf8_valid (ch_key hello) \<and> is_ok (validate_group_key (bytes_str (ch_key hello))))
      in ch_version hello = PROTOCOL_VERSION \<and> valid_key
         \<and> is_ok (validate_device_id (ch_device_id hello)) \<and> is_ok (validate_declarations (ch_services hello)))"

text \<open>The group whose key the client presented; \<open>ct_eq\<close> compares the bytes.\<close>

definition authenticated_group ::
  "(bytes \<Rightarrow> bytes) \<Rightarrow> (string \<times> bytes) list \<Rightarrow> ClientHello \<Rightarrow> (string \<times> bytes) option" where
  "authenticated_group sha256 groups hello =
     (if valid_hello hello
      then map_option (\<lambda>(name, secret). (name, sha256 secret)) (List.find (\<lambda>(_, secret). secret = ch_key hello) groups)
      else None)"

definition send_message :: "session_net \<Rightarrow> server_message \<Rightarrow> session \<Rightarrow> (TunnelError, unit) res \<times> session" where
  "send_message net m s =
     (case sn_write net (length (sx_sent s)) of
        Inl e \<Rightarrow> (Inl e, s)
      | Inr _ \<Rightarrow> (Inr (), s\<lparr>sx_sent := sx_sent s @ [m]\<rparr>))"

definition close_with :: "ApplicationCloseCode \<Rightarrow> session \<Rightarrow> session" where
  "close_with code s = s\<lparr>sx_closes := sx_closes s @ [code]\<rparr>"

definition reject_authentication ::
  "session_net \<Rightarrow> AuthenticationStatus \<Rightarrow> string \<Rightarrow> session \<Rightarrow> (TunnelError, unit) res \<times> session" where
  "reject_authentication net status message s =
     (case send_message net (Handshake (AuthenticateResponse
             \<lparr>sh_status = status, sh_message = message, sh_tunnels = []\<rparr>)) s of
        (Inl e, s1) \<Rightarrow> (Inl (connection_error_or (sn_close_reason net) e), s1)
      | (Inr _, s1) \<Rightarrow>
          (case sn_finish net of
             Inl e \<Rightarrow> (Inl e, s1)
           | Inr _ \<Rightarrow> (Inr (), close_with AuthenticationFailed s1)))"

definition bootstrap_certificate ::
  "session_net \<Rightarrow> crypto \<Rightarrow> (string \<times> bytes) list \<Rightarrow> bytes \<Rightarrow> bytes \<Rightarrow> CertificateBootstrapRequest \<Rightarrow> session
   \<Rightarrow> (TunnelError, unit) res \<times> session" where
  "bootstrap_certificate net c groups server_nonce certificate req s =
     (case bootstrap_response c groups server_nonce certificate req of
        Inl e \<Rightarrow> (Inl e, s\<lparr>sx_admission_held := False\<rparr>)
      | Inr (response, valid) \<Rightarrow>
          (case send_message net (Handshake (BootstrapResponse response)) s of
             (Inl e, s1) \<Rightarrow> (Inl (connection_error_or (sn_close_reason net) e), s1\<lparr>sx_admission_held := False\<rparr>)
           | (Inr _, s1) \<Rightarrow>
               (case sn_finish net of
                  Inl e \<Rightarrow> (Inl e, s1\<lparr>sx_admission_held := False\<rparr>)
                | Inr _ \<Rightarrow>
                    (if valid then Inr () else Inl (Protocol ''bootstrap key verification failed''),
                     (close_with CertificateBootstrapComplete s1)\<lparr>sx_admission_held := False\<rparr>))))"

section \<open>The control session\<close>

definition session_end :: "session_net \<Rightarrow> TunnelError \<Rightarrow> SessionEnd" where
  "session_end net fallback =
     (case sn_close_reason net of None \<Rightarrow> ControlEnded fallback | Some e \<Rightarrow> ConnectionEnded e)"

text \<open>One turn of the loop: the session continues (\<open>Inr\<close>) or ends.\<close>

definition session_step :: "session_net \<Rightarrow> u64 \<Rightarrow> session_event \<Rightarrow> session \<Rightarrow> (SessionEnd, unit) res \<times> session" where
  "session_step net sid ev s =
     (case ev of
        OtherTask f \<Rightarrow> (Inr (), s\<lparr>sx_runtime := f (sx_runtime s)\<rparr>)
      | ConnectionClosedEvent e \<Rightarrow> (Inl (ConnectionEnded e), s)
      | MessageEvent (Inl e) \<Rightarrow> (Inl (session_end net e), s)
      | MessageEvent (Inr (UpdateServices request_id services)) \<Rightarrow>
          (case validate_declarations services of
             Inl e \<Rightarrow> (Inl (ControlEnded e), s)
           | Inr _ \<Rightarrow>
               (case update_services sid services (sx_runtime s) of
                  (None, rt) \<Rightarrow> (Inl (ControlEnded (Protocol ''client session is not registered'')), s\<lparr>sx_runtime := rt\<rparr>)
                | (Some u, rt) \<Rightarrow>
                    (case send_message net (Control (ServicesApplied request_id (catalog rt sid))) (s\<lparr>sx_runtime := rt\<rparr>) of
                       (Inl e, s1) \<Rightarrow> (Inl (session_end net e), s1)
                     | (Inr _, s1) \<Rightarrow> (Inr (), s1))))
      | ChangedEvent open_channel \<Rightarrow>
          if \<not> open_channel then (Inl (ControlEnded (Protocol ''the tunnel state channel is closed'')), s)
          else (case send_message net (Control (TunnelSnapshot (catalog (sx_runtime s) sid))) s of
                  (Inl e, s1) \<Rightarrow> (Inl (session_end net e), s1)
                | (Inr _, s1) \<Rightarrow> (Inr (), s1)))"

text \<open>The loop; \<open>None\<close> when the events are used up and the session is still open.\<close>

primrec session_loop :: "session_net \<Rightarrow> u64 \<Rightarrow> session_event list \<Rightarrow> session \<Rightarrow> SessionEnd option \<times> session" where
  "session_loop net sid [] s = (None, s)"
| "session_loop net sid (ev # evs) s =
     (case session_step net sid ev s of
        (Inl e, s1) \<Rightarrow> (Some e, s1)
      | (Inr _, s1) \<Rightarrow> session_loop net sid evs s1)"

definition finish_session :: "u64 \<Rightarrow> SessionEnd \<Rightarrow> session \<Rightarrow> session" where
  "finish_session sid e s =
     (let s1 = (case e of ControlEnded _ \<Rightarrow> close_with ServerConnectionError s | ConnectionEnded _ \<Rightarrow> s)
      in s1\<lparr>sx_runtime := unregister sid (sx_runtime s1)\<rparr>)"

section \<open>The handler\<close>

record auth_env =
  ae_net :: session_net
  ae_crypto :: crypto
  ae_certificate :: bytes
  ae_server_nonce :: bytes
  ae_now :: u64

text \<open>A refusal that has been sent, then the result \<open>after\<close>.\<close>

definition refuse_with ::
  "session_net \<Rightarrow> AuthenticationStatus \<Rightarrow> string \<Rightarrow> (TunnelError, bool) res \<Rightarrow> session \<Rightarrow> (TunnelError, bool) res \<times> session" where
  "refuse_with net status message after s =
     (case reject_authentication net status message s of
        (Inl e, s1) \<Rightarrow> (Inl e, s1)
      | (Inr _, s1) \<Rightarrow> (after, s1))"

text \<open>After a hello: the outcome of the handshake, \<open>Inr True\<close> when the session is online.\<close>

definition admit_client ::
  "auth_env \<Rightarrow> u64 \<Rightarrow> Connection \<Rightarrow> (string \<times> bytes) list \<Rightarrow> ClientHello \<Rightarrow> session \<Rightarrow> (TunnelError, bool) res \<times> session" where
  "admit_client env sid conn groups hello s =
     (let net = ae_net env
      in case authenticated_group (cr_sha256 (ae_crypto env)) groups hello of
           None \<Rightarrow> refuse_with net Rejected ''authentication failed'' (Inl (Protocol ''invalid key or device'')) s
         | Some (grp, digest) \<Rightarrow>
             (case register sid (ch_device_id hello) grp digest conn (ae_now env) (ch_services hello) (sx_runtime s) of
                (Inl RegDeviceIdConflict, _) \<Rightarrow> refuse_with net DeviceIdConflict ''device id is online'' (Inr False) s
              | (Inl Capacity, _) \<Rightarrow> refuse_with net ServerBusy ''too many online clients'' (Inr False) s
              | (Inl CredentialsChanged, _) \<Rightarrow> refuse_with net Rejected ''credentials changed'' (Inr False) s
              | (Inr _, rt) \<Rightarrow>
                  (case send_message net (Handshake (AuthenticateResponse
                          \<lparr>sh_status = Accepted, sh_message = [], sh_tunnels = catalog rt sid\<rparr>)) (s\<lparr>sx_runtime := rt\<rparr>) of
                     (Inl e, s1) \<Rightarrow>
                       (Inl (connection_error_or (sn_close_reason net) e),
                        s1\<lparr>sx_runtime := unregister sid (sx_runtime s1)\<rparr>)
                   | (Inr _, s1) \<Rightarrow> (Inr True, s1\<lparr>sx_admission_held := False\<rparr>))))"

text \<open>
  \<open>authenticate\<close>: \<open>stream\<close> is the result of accepting the first stream and \<open>handshake\<close> the frame
  read from it. The permit is released when the function returns, at the latest. The result is
  \<open>None\<close> while the control session is still open.
\<close>

definition authenticate ::
  "auth_env \<Rightarrow> u64 \<Rightarrow> Connection \<Rightarrow> (string \<times> bytes) list \<Rightarrow> (TunnelError, unit) res \<Rightarrow> (TunnelError, ClientHandshake) res
   \<Rightarrow> session_event list \<Rightarrow> session \<Rightarrow> (TunnelError, unit) res option \<times> session" where
  "authenticate env sid conn groups stream handshake evs s =
     (let release = (\<lambda>r st. (Some r, st\<lparr>sx_admission_held := False\<rparr>)) in
      case stream of
        Inl e \<Rightarrow> release (Inl e) s
      | Inr _ \<Rightarrow>
          (case handshake of
             Inl e \<Rightarrow> release (Inl (connection_error_or (sn_close_reason (ae_net env)) e)) s
           | Inr (BootstrapRequest req) \<Rightarrow>
               (case bootstrap_certificate (ae_net env) (ae_crypto env) groups (ae_server_nonce env) (ae_certificate env) req s of
                  (r, s1) \<Rightarrow> (Some r, s1))
           | Inr (AuthenticateRequest hello) \<Rightarrow>
               (case admit_client env sid conn groups hello s of
                  (Inl e, s1) \<Rightarrow> release (Inl e) s1
                | (Inr False, s1) \<Rightarrow> release (Inr ()) s1
                | (Inr True, s1) \<Rightarrow>
                    (case session_loop (ae_net env) sid evs s1 of
                       (None, s2) \<Rightarrow> (None, s2)
                     | (Some e, s2) \<Rightarrow> (Some (Inr ()), finish_session sid e s2)))))"

section \<open>Lemmas\<close>

lemma send_message_runtime:
  assumes "send_message net m s = (r, s')"
  shows "sx_runtime s' = sx_runtime s" "sx_closes s' = sx_closes s" "sx_admission_held s' = sx_admission_held s"
  using assms by (auto simp: send_message_def split: sum.splits)

lemma reject_authentication_effect:
  assumes "reject_authentication net status message s = (r, s')"
  shows "sx_runtime s' = sx_runtime s"
    and "r = Inr () \<Longrightarrow> sx_closes s' = sx_closes s @ [AuthenticationFailed]
      \<and> sx_sent s' = sx_sent s @ [Handshake (AuthenticateResponse \<lparr>sh_status = status, sh_message = message, sh_tunnels = []\<rparr>)]"
  using assms
  by (cases "sn_write net (length (sx_sent s))"; cases "sn_finish net";
      auto simp: reject_authentication_def close_with_def send_message_def)+

lemma owner_has_session:
  "owners_ok st \<Longrightarrow> hm_get (owners st) n = Some ow \<Longrightarrow> hm_get (sessions st) (ow_session_id ow) \<noteq> None"
  unfolding owners_ok_def owner_valid_def by blast

lemma find_secret: "List.find (\<lambda>(_, secret). secret = k) groups = Some (grp, sec) \<Longrightarrow> sec = k"
  by (induction groups) (auto split: if_splits)

lemma unregister_effect:
  assumes "rt_inv rt"
  shows "hm_get (sessions (rt_state (unregister sid rt))) i = (if i = sid then None else hm_get (sessions (rt_state rt)) i)"
    and "hm_get (owners (rt_state (unregister sid rt))) n = Some ow \<longleftrightarrow>
      hm_get (owners (rt_state rt)) n = Some ow \<and> ow_session_id ow \<noteq> sid"
proof -
  have wf: "hm_wf (owners (rt_state rt))" and own: "owners_ok (rt_state rt)"
    using assms by (simp_all add: rt_inv_defs)
  show "hm_get (sessions (rt_state (unregister sid rt))) i = (if i = sid then None else hm_get (sessions (rt_state rt)) i)"
    by (auto simp: unregister_def Let_def hm_simps)
  show "hm_get (owners (rt_state (unregister sid rt))) n = Some ow \<longleftrightarrow>
      hm_get (owners (rt_state rt)) n = Some ow \<and> ow_session_id ow \<noteq> sid"
  proof (cases "hm_get (sessions (rt_state rt)) sid")
    case None
    then have "\<not> (hm_get (owners (rt_state rt)) n = Some ow \<and> ow_session_id ow = sid)"
      using owner_has_session[OF own] by blast
    with None show ?thesis by (auto simp: unregister_def hm_contains_iff)
  next
    case (Some se)
    with get_owners_drop[OF wf, of sid] show ?thesis by (simp add: unregister_def hm_contains_iff Let_def)
  qed
qed

lemma authenticated_group_Some:
  "authenticated_group sha256 groups hello = Some (grp, digest) \<longleftrightarrow>
     valid_hello hello \<and> List.find (\<lambda>(_, secret). secret = ch_key hello) groups = Some (grp, ch_key hello) \<and> digest = sha256 (ch_key hello)"
  by (cases "List.find (\<lambda>(_, secret). secret = ch_key hello) groups")
     (auto simp: authenticated_group_def dest: find_secret)

lemma session_step_inv:
  assumes "session_step net sid ev s = (r, s')" "rt_inv (sx_runtime s)"
    "\<And>f rt. ev = OtherTask f \<Longrightarrow> rt_inv rt \<Longrightarrow> rt_inv (f rt)"
  shows "rt_inv (sx_runtime s')"
proof (cases ev)
  case (MessageEvent m)
  show ?thesis
  proof (cases m)
    case (Inl e)
    with MessageEvent assms show ?thesis by (simp add: session_step_def)
  next
    case (Inr cm)
    obtain rid svcs where cm: "cm = UpdateServices rid svcs" by (cases cm)
    have "rt_inv (snd (update_services sid svcs (sx_runtime s)))" by (rule update_services_inv[OF assms(2)])
    moreover have "sx_runtime s' = sx_runtime s \<or> sx_runtime s' = snd (update_services sid svcs (sx_runtime s))"
      using assms(1) MessageEvent Inr cm
      by (auto simp: session_step_def dest: send_message_runtime(1) split: sum.splits prod.splits option.splits)
    ultimately show ?thesis using assms(2) by auto
  qed
qed (use assms in \<open>auto simp: session_step_def dest: send_message_runtime(1) split: if_splits prod.splits sum.splits\<close>)

lemma session_loop_inv:
  assumes "session_loop net sid evs s = (r, s')" "rt_inv (sx_runtime s)"
    "\<And>f rt. OtherTask f \<in> set evs \<Longrightarrow> rt_inv rt \<Longrightarrow> rt_inv (f rt)"
  shows "rt_inv (sx_runtime s')"
  using assms
proof (induction evs arbitrary: s)
  case (Cons ev evs)
  obtain r1 s1 where st: "session_step net sid ev s = (r1, s1)" by (cases "session_step net sid ev s")
  have "rt_inv (sx_runtime s1)" by (rule session_step_inv[OF st Cons.prems(2)]) (use Cons.prems(3) in auto)
  with Cons st show ?case by (cases r1) auto
qed simp

lemma refuse_with_effect:
  assumes "refuse_with net st msg after s = (r, s')"
  shows "sx_runtime s' = sx_runtime s" "r = after \<or> (\<exists>e. r = Inl e)"
  using assms reject_authentication_effect(1)[of net st msg s]
  by (auto simp: refuse_with_def split: prod.splits sum.splits)

text \<open>A client that is admitted, and the two ways of not being admitted.\<close>

lemma admit_client_split:
  assumes "admit_client env sid conn groups hello s = (r, s')"
  obtains (refused) "r \<noteq> Inr True" "sx_runtime s' = sx_runtime s"
  | (registered) grp rt where "valid_hello hello"
      "List.find (\<lambda>(_, secret). secret = ch_key hello) groups = Some (grp, ch_key hello)"
      "register sid (ch_device_id hello) grp (cr_sha256 (ae_crypto env) (ch_key hello)) conn (ae_now env) (ch_services hello) (sx_runtime s)
        = (Inr (), rt)"
      "r \<noteq> Inr True \<and> sx_runtime s' = unregister sid rt \<or>
       r = Inr True \<and> sx_runtime s' = rt \<and> \<not> sx_admission_held s'
       \<and> sx_sent s' = sx_sent s @ [Handshake (AuthenticateResponse \<lparr>sh_status = Accepted, sh_message = [], sh_tunnels = catalog rt sid\<rparr>)]"
proof (cases "authenticated_group (cr_sha256 (ae_crypto env)) groups hello")
  case None
  with assms refuse_with_effect[of "ae_net env" Rejected "''authentication failed''" _ s r s'] refused show ?thesis
    by (simp add: admit_client_def Let_def) force
next
  case (Some gd)
  obtain grp digest where gd: "gd = (grp, digest)" by (cases gd)
  note A = authenticated_group_Some[of "cr_sha256 (ae_crypto env)" groups hello grp digest, THEN iffD1, OF Some[unfolded gd]]
  obtain rr rt where reg: "register sid (ch_device_id hello) grp digest conn (ae_now env) (ch_services hello) (sx_runtime s) = (rr, rt)"
    by (cases "register sid (ch_device_id hello) grp digest conn (ae_now env) (ch_services hello) (sx_runtime s)")
  show ?thesis
  proof (cases rr)
    case (Inl e)
    then obtain st msg where "refuse_with (ae_net env) st msg (Inr False) s = (r, s')"
      using assms Some gd reg by (cases e) (auto simp: admit_client_def Let_def)
    from refuse_with_effect[OF this] refused show ?thesis by auto
  next
    case (Inr u)
    let ?m = "Handshake (AuthenticateResponse \<lparr>sh_status = Accepted, sh_message = [], sh_tunnels = catalog rt sid\<rparr>)"
    have "r \<noteq> Inr True \<and> sx_runtime s' = unregister sid rt \<or>
       r = Inr True \<and> sx_runtime s' = rt \<and> \<not> sx_admission_held s' \<and> sx_sent s' = sx_sent s @ [?m]"
      using assms Some gd reg Inr
      by (cases "sn_write (ae_net env) (length (sx_sent s))") (auto simp: admit_client_def send_message_def Let_def)
    with registered A reg Inr show ?thesis by auto
  qed
qed

lemma register_fresh_effect:
  assumes inv: "rt_inv rt" and fresh: "hm_get (sessions (rt_state rt)) sid = None"
    and reg: "register sid dev grp digest conn now svcs rt = (Inr (), rt')"
  shows "hm_get (sessions (rt_state (unregister sid rt'))) i = hm_get (sessions (rt_state rt)) i"
    and "hm_get (owners (rt_state (unregister sid rt'))) n = hm_get (owners (rt_state rt)) n"
    and "hm_get (sessions (rt_state rt')) sid = Some (new_session dev grp digest conn now svcs)"
proof -
  have inv': "rt_inv rt'" using register_inv[OF inv fresh, of dev grp digest conn now svcs] reg by simp
  let ?se = "new_session dev grp digest conn now svcs"
  let ?st = "(rt_state rt)\<lparr>sessions := hm_insert sid ?se (sessions (rt_state rt))\<rparr>"
  obtain st' tk' where c: "claim_available sid (?st, rt_tokens rt) = (st', tk')" and st': "rt_state rt' = st'"
    using register_accepts[OF reg] by auto
  have ce: "claim_effect sid ?st (rt_tokens rt) st' tk'"
    by (rule claim_available_effect[OF _ c]) (use inv in \<open>simp add: rt_inv_defs\<close>)
  note U = unregister_effect[OF inv']
  have "sessions st' = hm_insert sid ?se (sessions (rt_state rt))" using ce by (simp add: claim_effect_def)
  then show "hm_get (sessions (rt_state (unregister sid rt'))) i = hm_get (sessions (rt_state rt)) i"
    and "hm_get (sessions (rt_state rt')) sid = Some ?se"
    using fresh by (simp_all add: U(1) st' hm_simps)
  have own: "owners_ok (rt_state rt)" using inv by (simp add: rt_inv_defs)
  have "hm_get (owners (rt_state (unregister sid rt'))) n = Some ow \<longleftrightarrow> hm_get (owners (rt_state rt)) n = Some ow" for ow
  proof
    assume "hm_get (owners (rt_state (unregister sid rt'))) n = Some ow"
    then have "hm_get (owners st') n = Some ow" "ow_session_id ow \<noteq> sid" by (simp_all add: U(2) st')
    with ce show "hm_get (owners (rt_state rt)) n = Some ow"
      by (cases "hm_get (owners (rt_state rt)) n") (auto simp: claim_effect_def)
  next
    assume o: "hm_get (owners (rt_state rt)) n = Some ow"
    then have "ow_session_id ow \<noteq> sid" using owner_has_session[OF own o] fresh by auto
    with ce o show "hm_get (owners (rt_state (unregister sid rt'))) n = Some ow"
      by (simp add: U(2) st' claim_effect_def)
  qed
  then show "hm_get (owners (rt_state (unregister sid rt'))) n = hm_get (owners (rt_state rt)) n"
    by (metis option.exhaust)
qed

lemma admit_client_cases:
  assumes inv: "rt_inv (sx_runtime s)" and fresh: "hm_get (sessions (rt_state (sx_runtime s))) sid = None"
    and call: "admit_client env sid conn groups hello s = (r, s')"
  shows "rt_inv (sx_runtime s')"
    and "r \<noteq> Inr True \<Longrightarrow>
      (\<forall>i. hm_get (sessions (rt_state (sx_runtime s'))) i = hm_get (sessions (rt_state (sx_runtime s))) i)
      \<and> (\<forall>n. hm_get (owners (rt_state (sx_runtime s'))) n = hm_get (owners (rt_state (sx_runtime s))) n)"
    and "r = Inr True \<Longrightarrow> \<not> sx_admission_held s'"
proof -
  have "rt_inv (sx_runtime s') \<and> (r \<noteq> Inr True \<longrightarrow>
      (\<forall>i. hm_get (sessions (rt_state (sx_runtime s'))) i = hm_get (sessions (rt_state (sx_runtime s))) i)
      \<and> (\<forall>n. hm_get (owners (rt_state (sx_runtime s'))) n = hm_get (owners (rt_state (sx_runtime s))) n))
    \<and> (r = Inr True \<longrightarrow> \<not> sx_admission_held s')"
    using call
  proof (cases rule: admit_client_split)
    case refused
    with inv show ?thesis by simp
  next
    case (registered grp rt)
    have inv': "rt_inv rt" using register_inv[OF inv fresh] registered(3) by (metis snd_conv)
    with registered(4) register_fresh_effect[OF inv fresh registered(3)] unregister_inv[OF inv'] show ?thesis by auto
  qed
  then show "rt_inv (sx_runtime s')"
    and "r \<noteq> Inr True \<Longrightarrow>
      (\<forall>i. hm_get (sessions (rt_state (sx_runtime s'))) i = hm_get (sessions (rt_state (sx_runtime s))) i)
      \<and> (\<forall>n. hm_get (owners (rt_state (sx_runtime s'))) n = hm_get (owners (rt_state (sx_runtime s))) n)"
    and "r = Inr True \<Longrightarrow> \<not> sx_admission_held s'" by simp_all
qed

lemma bootstrap_certificate_effect:
  assumes "bootstrap_certificate net c groups sn cert req s = (r, s')"
  shows "sx_runtime s' = sx_runtime s \<and> \<not> sx_admission_held s'"
  using assms
  by (cases "sn_write net (length (sx_sent s))"; cases "sn_finish net";
      cases "bootstrap_response c groups sn cert req")
     (auto simp: bootstrap_certificate_def send_message_def close_with_def split: prod.splits)

text \<open>The turn that handles an update of the declared services.\<close>

lemma update_turn:
  assumes "session_step net sid (MessageEvent (Inr (UpdateServices rid svcs))) s = (r, s')"
  shows "(\<exists>e. r = Inl e) \<and> sx_sent s' = sx_sent s \<and> sx_admission_held s' = sx_admission_held s
    \<or> (\<exists>u rt. r = Inr () \<and> update_services sid svcs (sx_runtime s) = (Some u, rt)
         \<and> s' = s\<lparr>sx_runtime := rt, sx_sent := sx_sent s @ [Control (ServicesApplied rid (catalog rt sid))]\<rparr>)"
proof -
  obtain ou rt where up: "update_services sid svcs (sx_runtime s) = (ou, rt)" by (cases "update_services sid svcs (sx_runtime s)")
  show ?thesis
    using assms up
    by (cases "validate_declarations svcs"; cases ou; cases "sn_write net (length (sx_sent s))")
       (auto simp: session_step_def send_message_def)
qed

lemma session_step_held:
  assumes "session_step net sid ev s = (r, s')"
  shows "sx_admission_held s' = sx_admission_held s"
proof (cases ev)
  case (MessageEvent m)
  show ?thesis
  proof (cases m)
    case (Inr cm)
    then obtain rid svcs where "ev = MessageEvent (Inr (UpdateServices rid svcs))" using MessageEvent by (cases cm) simp
    with update_turn assms show ?thesis by fastforce
  qed (use assms MessageEvent in \<open>simp add: session_step_def\<close>)
next
  case (ChangedEvent b)
  with assms show ?thesis
    by (cases "sn_write net (length (sx_sent s))") (auto simp: session_step_def send_message_def split: if_splits)
qed (use assms in \<open>auto simp: session_step_def\<close>)

lemma session_loop_held: "session_loop net sid evs s = (r, s') \<Longrightarrow> sx_admission_held s' = sx_admission_held s"
proof (induction evs arbitrary: s)
  case (Cons ev evs)
  then show ?case by (auto dest: session_step_held split: prod.splits sum.splits)
qed simp

text \<open>What one turn of the loop sends.\<close>

fun receipt_id :: "server_message \<Rightarrow> u64 option" where
  "receipt_id (Control (ServicesApplied rid _)) = Some rid"
| "receipt_id _ = None"

fun request_id :: "session_event \<Rightarrow> u64 option" where
  "request_id (MessageEvent (Inr (UpdateServices rid _))) = Some rid"
| "request_id _ = None"

text \<open>A snapshot of the catalogue, or the receipt of one of the received updates.\<close>

definition expected_message :: "u64 \<Rightarrow> session_event set \<Rightarrow> server_message \<Rightarrow> bool" where
  "expected_message sid evs m =
     (\<exists>rt. m = Control (TunnelSnapshot (catalog rt sid))
       \<or> (\<exists>rid svcs u rt0. MessageEvent (Inr (UpdateServices rid svcs)) \<in> evs
            \<and> update_services sid svcs rt0 = (Some u, rt) \<and> m = Control (ServicesApplied rid (catalog rt sid))))"

lemma expected_message_mono: "expected_message sid A m \<Longrightarrow> A \<subseteq> B \<Longrightarrow> expected_message sid B m"
  unfolding expected_message_def by blast

lemma session_step_sent:
  assumes "session_step net sid ev s = (Inr (), s1)"
  shows "\<exists>new. sx_sent s1 = sx_sent s @ new \<and> List.map_filter receipt_id new = List.map_filter request_id [ev]
      \<and> (\<forall>m \<in> set new. expected_message sid {ev} m)"
proof (cases ev)
  case (MessageEvent r)
  with assms obtain rid svcs where ev: "ev = MessageEvent (Inr (UpdateServices rid svcs))"
    by (cases r) (auto simp: session_step_def split: ControlMessage.splits)
  from update_turn[OF assms[unfolded ev]] obtain u rt where "update_services sid svcs (sx_runtime s) = (Some u, rt)"
    "sx_sent s1 = sx_sent s @ [Control (ServicesApplied rid (catalog rt sid))]" by auto
  then show ?thesis unfolding ev
    by (intro exI[of _ "[Control (ServicesApplied rid (catalog rt sid))]"])
       (auto simp: List.map_filter_def expected_message_def)
next
  case (ChangedEvent b)
  with assms have "sx_sent s1 = sx_sent s @ [Control (TunnelSnapshot (catalog (sx_runtime s) sid))]"
    by (cases "sn_write net (length (sx_sent s))") (auto simp: session_step_def send_message_def split: if_splits)
  then show ?thesis unfolding ChangedEvent
    by (intro exI[of _ "[Control (TunnelSnapshot (catalog (sx_runtime s) sid))]"])
       (auto simp: List.map_filter_def expected_message_def)
qed (use assms in \<open>auto simp: session_step_def List.map_filter_def\<close>)

section \<open>Properties\<close>


text \<open>A concrete client of group \<open>team\<close> with a 32-byte key, on a network without failures.\<close>

definition sample_key :: bytes where "sample_key = replicate 32 65"

definition sample_auth_env :: auth_env where
  "sample_auth_env =
     \<lparr>ae_net = \<lparr>sn_write = \<lambda>_. Inr (), sn_finish = Inr (), sn_close_reason = None\<rparr>, ae_crypto = sample_crypto,
      ae_certificate = [7], ae_server_nonce = replicate 32 0, ae_now = 0\<rparr>"

definition sample_hello :: ClientHello where
  "sample_hello = \<lparr>ch_version = 5, ch_device_id = ''dev'', ch_key = sample_key, ch_services = [\<lparr>sd_name = ''web'', sd_kind = Tcp\<rparr>]\<rparr>"

definition sample_session :: session where
  "sample_session =
     \<lparr>sx_runtime = apply_tunnels [sample_tunnel] (apply_credentials (\<lambda>b. b) [(''team'', sample_key)] runtime_default),
      sx_sent = [], sx_closes = [], sx_admission_held = True\<rparr>"

lemma utf8_valid_ascii: "\<forall>b \<in> set bs. unat b < 0x80 \<Longrightarrow> utf8_valid bs"
  by (induction bs) auto

lemma sample_key_valid: "utf8_valid sample_key" "validate_group_key (bytes_str sample_key) = Inr ()"
  by (rule utf8_valid_ascii) (simp_all add: sample_key_def bytes_str_def validate_group_key_def chars_count_def
      MIN_GROUP_KEY_LENGTH_def MAX_GROUP_KEY_LENGTH_def)

lemma sample_hello_valid: "valid_hello sample_hello"
  by (simp add: valid_hello_def sample_hello_def sample_key_valid validate_device_id_def MAX_DEVICE_ID_BYTES_def
      name_byte_def is_ascii_alphanumeric_def is_ascii_lower_def is_ascii_digit_def is_ascii_upper_def
      validate_declarations_def validate_declaration_def MAX_CLIENT_SERVICES_def PROTOCOL_VERSION_def)

lemma sample_session_ok:
  "rt_inv (sx_runtime sample_session)" "hm_get (sessions (rt_state (sx_runtime sample_session))) 1 = None"
  by (simp add: sample_session_def apply_tunnels_inv apply_credentials_inv runtime_default_inv,
      simp add: sample_session_def runtime_eval)

lemma sample_admitted:
  "\<exists>s'. admit_client sample_auth_env 1 sample_connection [(''team'', sample_key)] sample_hello sample_session = (Inr True, s')"
proof -
  have "authenticated_group (cr_sha256 (ae_crypto sample_auth_env)) [(''team'', sample_key)] sample_hello = Some (''team'', sample_key)"
    by (simp add: authenticated_group_def sample_hello_valid, simp add: sample_hello_def sample_auth_env_def sample_crypto_def)
  then show ?thesis
    by (simp add: admit_client_def, simp add: send_message_def Let_def sample_session_def sample_auth_env_def
        sample_hello_def runtime_eval)
qed


text \<open>
  C16: No session outlives its handler. Whatever the client sends and whatever other tasks do to
  the runtime in between, when \<open>authenticate\<close> returns the session is no longer registered, it
  owns no tunnel, its admission permit is released and the runtime's invariant holds.
\<close>

theorem authenticate_cleanup:
  assumes inv: "rt_inv (sx_runtime s)" and fresh: "hm_get (sessions (rt_state (sx_runtime s))) sid = None"
    and others: "\<And>f rt. OtherTask f \<in> set evs \<Longrightarrow> rt_inv rt \<Longrightarrow> rt_inv (f rt)"
    and call: "authenticate env sid conn groups stream handshake evs s = (Some r, s')"
  shows "rt_inv (sx_runtime s')
    \<and> hm_get (sessions (rt_state (sx_runtime s'))) sid = None
    \<and> owns (rt_state (sx_runtime s')) sid = {} \<and> \<not> sx_admission_held s'"
proof -
  have gone: "hm_get (sessions (rt_state rt)) sid = None \<Longrightarrow> rt_inv rt \<Longrightarrow> owns (rt_state rt) sid = {}" for rt
    using owner_has_session[of "rt_state rt"] unfolding owns_def rt_inv_def state_inv_def by blast
  have "rt_inv (sx_runtime s') \<and> hm_get (sessions (rt_state (sx_runtime s'))) sid = None \<and> \<not> sx_admission_held s'"
  proof (cases "\<exists>hello. stream = Inr () \<and> handshake = Inr (AuthenticateRequest hello)")
    case False
    then have "sx_runtime s' = sx_runtime s \<and> \<not> sx_admission_held s'"
      using call bootstrap_certificate_effect
      by (fastforce simp: authenticate_def Let_def split: sum.splits ClientHandshake.splits prod.splits)
    with inv fresh show ?thesis by simp
  next
    case True
    then obtain hello where h: "stream = Inr ()" "handshake = Inr (AuthenticateRequest hello)" by blast
    obtain ra s1 where ad: "admit_client env sid conn groups hello s = (ra, s1)"
      by (cases "admit_client env sid conn groups hello s")
    note A = admit_client_cases[OF inv fresh ad]
    show ?thesis
    proof (cases "ra = Inr True")
      case False
      then have "s' = s1\<lparr>sx_admission_held := False\<rparr>"
        using call h ad by (auto simp: authenticate_def Let_def split: sum.splits bool.splits)
      with A(1) A(2)[OF False] fresh show ?thesis by simp
    next
      case True
      obtain e s2 where lp: "session_loop (ae_net env) sid evs s1 = (Some e, s2)" and s': "s' = finish_session sid e s2"
        using call h ad True by (auto simp: authenticate_def Let_def split: prod.splits option.splits)
      have inv2: "rt_inv (sx_runtime s2)" by (rule session_loop_inv[OF lp A(1)]) (rule others)
      have "\<not> sx_admission_held s2" using session_loop_held[OF lp] A(3)[OF True] by simp
      moreover have rt: "sx_runtime s' = unregister sid (sx_runtime s2)"
        by (simp add: s' finish_session_def close_with_def Let_def split: SessionEnd.splits)
      ultimately show ?thesis using unregister_inv[OF inv2, of sid] unregister_effect(1)[OF inv2, of sid sid]
        by (simp add: s' finish_session_def close_with_def Let_def split: SessionEnd.splits)
    qed
  qed
  with gone show ?thesis by simp
qed

theorem authenticate_cleanup_witness:
  "\<exists>s'. authenticate sample_auth_env 1 sample_connection [(''team'', sample_key)] (Inr ()) (Inr (AuthenticateRequest sample_hello))
       [ChangedEvent True, ConnectionClosedEvent TimedOut] sample_session = (Some (Inr ()), s')
     \<and> hm_get (sessions (rt_state (sx_runtime s'))) 1 = None \<and> owns (rt_state (sx_runtime s')) 1 = {}"
proof -
  obtain s1 where ad: "admit_client sample_auth_env 1 sample_connection [(''team'', sample_key)] sample_hello sample_session = (Inr True, s1)"
    using sample_admitted ..
  obtain s' where call: "authenticate sample_auth_env 1 sample_connection [(''team'', sample_key)] (Inr ()) (Inr (AuthenticateRequest sample_hello))
       [ChangedEvent True, ConnectionClosedEvent TimedOut] sample_session = (Some (Inr ()), s')"
    by (simp add: authenticate_def ad session_step_def send_message_def,
        simp add: sample_auth_env_def session_step_def)
  from authenticate_cleanup[OF sample_session_ok _ call] call show ?thesis by simp
qed

text \<open>
  C17: Every request is answered, once and in order. While the control session stays open, the
  receipts the server has sent carry exactly the request ids of the updates it has received, in
  the same order, and each receipt holds the catalogue after that update.
\<close>

theorem session_replies:
  assumes "session_loop net sid evs s = (None, s')"
  shows "\<exists>msgs. sx_sent s' = sx_sent s @ msgs
    \<and> List.map_filter receipt_id msgs = List.map_filter request_id evs
    \<and> list_all (expected_message sid (set evs)) msgs"
  using assms
proof (induction evs arbitrary: s)
  case Nil
  then show ?case by (simp add: List.map_filter_def)
next
  case (Cons ev evs)
  obtain s1 where st: "session_step net sid ev s = (Inr (), s1)" and lp: "session_loop net sid evs s1 = (None, s')"
    using Cons.prems by (auto split: prod.splits sum.splits)
  from Cons.IH[OF lp] obtain msgs where m: "sx_sent s' = sx_sent s1 @ msgs"
    "List.map_filter receipt_id msgs = List.map_filter request_id evs" "list_all (expected_message sid (set evs)) msgs" by blast
  from session_step_sent[OF st] obtain new where n: "sx_sent s1 = sx_sent s @ new"
    "List.map_filter receipt_id new = List.map_filter request_id [ev]" "\<forall>m \<in> set new. expected_message sid {ev} m" by blast
  have "list_all (expected_message sid (set (ev # evs))) (new @ msgs)"
    using m(3) n(3) expected_message_mono[of sid _ _ "set (ev # evs)"] by (auto simp: list_all_iff)
  moreover have "List.map_filter receipt_id (new @ msgs) = List.map_filter request_id (ev # evs)"
    using m(2) n(2) by (simp add: List.map_filter_def split: if_splits)
  ultimately show ?case using m(1) n(1) by (intro exI[of _ "new @ msgs"]) simp
qed

definition sample_online :: session where
  "sample_online = \<lparr>sx_runtime = sample_runtime, sx_sent = [], sx_closes = [], sx_admission_held = False\<rparr>"

theorem session_replies_witness:
  "\<exists>s' msgs. session_loop (ae_net sample_auth_env) 1 [ChangedEvent True, MessageEvent (Inr (UpdateServices 9 []))] sample_online = (None, s')
     \<and> sx_sent s' = msgs \<and> List.map_filter receipt_id msgs = [9]"
proof -
  obtain ou rt where up: "update_services 1 [] sample_runtime = (ou, rt)" by (cases "update_services 1 [] sample_runtime")
  obtain u where "ou = Some u" using up sample_runtime_eval(1) by (auto simp: update_services_def Let_def split: prod.splits)
  with up obtain s' where lp: "session_loop (ae_net sample_auth_env) 1 [ChangedEvent True, MessageEvent (Inr (UpdateServices 9 []))] sample_online = (None, s')"
    by (simp add: session_step_def send_message_def sample_auth_env_def sample_online_def validate_declarations_def)
  from session_replies[OF lp] obtain msgs where "sx_sent s' = msgs"
    "List.map_filter receipt_id msgs = List.map_filter request_id [ChangedEvent True, MessageEvent (Inr (UpdateServices 9 []))]"
    by (auto simp: sample_online_def)
  with lp show ?thesis by (auto simp: List.map_filter_def)
qed

end
