(* ===== verification/Client_Session.thy ===== *)
theory Client_Session
  imports Protocol Identity
begin

text \<open>
  \<open>gaterust-tunnel/src/client.rs\<close> and \<open>client_control.rs\<close>: the control connection of a client. What
  the outside delivers is an argument: the results of connecting, of the handshake and of reading
  the configuration file, and the events of each \<open>select!\<close> loop in the order it takes them. A
  statement about all event lists is a statement about all schedules. A command's response channel
  is a number; the answers sent on it are recorded, and a channel that is dropped gets no answer.
\<close>

section \<open>State\<close>

datatype ClientStatus =
    Starting
  | StatusUnconfigured string
  | Connecting string
  | Online string string "ClientTunnel list"
  | Reconnecting string nat
  | Stopped "string option"

datatype ConnectionEnd =
    Reconfigure ClientConfig
  | Unconfigured
  | Disconnected TunnelError
  | EndDeviceIdConflict
  | AdministratorDisconnected
  | Shutdown

datatype 'a ConnectionStep =
    Completed 'a
  | StepReconfigure ClientConfig
  | StepUnconfigured
  | StepShutdown
  | WatcherClosed

datatype AuthenticationResult = AuthAccepted "ClientTunnel list" | AuthDeviceIdConflict

definition SERVICE_UPDATE_TIMEOUT :: nat where "SERVICE_UPDATE_TIMEOUT = 20000"
definition CONFIG_RELOAD_GRACE :: nat where "CONFIG_RELOAD_GRACE = 100"
definition CONFIG_RELOAD_RETRY_DELAY :: nat where "CONFIG_RELOAD_RETRY_DELAY = 10"
definition MAX_RESOLVED_ADDRESSES :: nat where "MAX_RESOLVED_ADDRESSES = 8"

record ClientCommand =
  cmd_services :: "ClientServiceConfig list"
  cmd_response :: nat
  cmd_deadline :: nat

record PendingServiceUpdate =
  pu_request_id :: u64
  pu_updated :: ClientConfig
  pu_response :: "nat option"
  pu_deadline :: nat

text \<open>
  The state of \<open>run_connected\<close>: its local variables, the shared service map, and what it has
  published, sent, answered and spawned.
\<close>

record connected =
  k_config :: ClientConfig
  k_services :: "(string, ClientServiceConfig) hm"
  k_pending :: "PendingServiceUpdate option"
  k_next_request_id :: u64
  k_commands :: bool
  k_status :: "ClientStatus list"
  k_sent :: "ControlMessage list"
  k_replies :: "(nat \<times> (string, ClientTunnel list) res) list"
  k_streams :: nat

section \<open>Services\<close>

definition declarations :: "ClientServiceConfig list \<Rightarrow> ServiceDeclaration list" where
  "declarations services = map (\<lambda>s. \<lparr>sd_name = s_name s, sd_kind = s_kind s\<rparr>) services"

definition client_service_map :: "ClientServiceConfig list \<Rightarrow> (string, ClientServiceConfig) hm" where
  "client_service_map services = hm_collect (map (\<lambda>s. (s_name s, s)) services)"

definition connection_identity_changed :: "ClientConfig \<Rightarrow> ClientConfig \<Rightarrow> bool" where
  "connection_identity_changed current updated =
     (cc_server current \<noteq> cc_server updated \<or> cc_key current \<noteq> cc_key updated)"

definition reconcile_config_update :: "ClientConfig \<Rightarrow> ClientConfig \<Rightarrow> bool \<Rightarrow> ClientConfig" where
  "reconcile_config_update current updated managed =
     (if managed
      then if connection_identity_changed current updated then updated\<lparr>cc_services := []\<rparr>
           else updated\<lparr>cc_services := cc_services current\<rparr>
      else updated)"

definition retain_enabled_services :: "ClientTunnel list \<Rightarrow> connected \<Rightarrow> connected" where
  "retain_enabled_services tunnels s =
     (let enabled = ct_name ` set (filter (\<lambda>t. ct_state t = Enabled) tunnels);
          previous = cc_services (k_config s);
          kept = filter (\<lambda>v. s_name v \<in> enabled) previous;
          s1 = s\<lparr>k_config := (k_config s)\<lparr>cc_services := kept\<rparr>\<rparr>
      in if length kept \<noteq> length previous then s1\<lparr>k_services := client_service_map kept\<rparr> else s1)"

definition take_request_id :: "u64 \<Rightarrow> u64 \<times> u64" where
  "take_request_id next = (next, max (next + 1) 1)"

section \<open>The connected client\<close>

record client_net =
  cnet_write :: "nat \<Rightarrow> (TunnelError, unit) res"
  cnet_close_reason :: "ConnectionError option"
  cnet_show :: "TunnelError \<Rightarrow> string"

text \<open>
  \<open>begin_service_update\<close>: the shared map changes before the request is written and is restored when
  the write fails. The \<open>n\<close>-th write of the control stream has the outcome \<open>cnet_write n\<close>.
\<close>

definition begin_service_update ::
  "client_net \<Rightarrow> PendingServiceUpdate \<Rightarrow> connected \<Rightarrow> (TunnelError, PendingServiceUpdate) res \<times> connected" where
  "begin_service_update net u s =
     (let s1 = s\<lparr>k_services := client_service_map (cc_services (pu_updated u))\<rparr>
      in case cnet_write net (length (k_sent s)) of
           Inr _ \<Rightarrow> (Inr u, s1\<lparr>k_sent := k_sent s1 @ [UpdateServices (pu_request_id u) (declarations (cc_services (pu_updated u)))]\<rparr>)
         | Inl e0 \<Rightarrow>
             (let s2 = s1\<lparr>k_services := client_service_map (cc_services (k_config s))\<rparr>;
                  e = connection_error_or (cnet_close_reason net) e0
              in (Inl e, (case pu_response u of
                            None \<Rightarrow> s2
                          | Some r \<Rightarrow> s2\<lparr>k_replies := k_replies s2 @ [(r, Inl (cnet_show net e))]\<rparr>))))"

definition start_update ::
  "client_net \<Rightarrow> ClientConfig \<Rightarrow> nat option \<Rightarrow> nat \<Rightarrow> connected \<Rightarrow> (ConnectionEnd, unit) res \<times> connected" where
  "start_update net updated response deadline s =
     (let (rid, next) = take_request_id (k_next_request_id s);
          u = \<lparr>pu_request_id = rid, pu_updated = updated, pu_response = response, pu_deadline = deadline\<rparr>
      in case begin_service_update net u (s\<lparr>k_next_request_id := next\<rparr>) of
           (Inr p, s1) \<Rightarrow> (Inr (), s1\<lparr>k_pending := Some p\<rparr>)
         | (Inl e, s1) \<Rightarrow> (Inl (Disconnected e), s1))"

datatype client_event =
    ShutdownEvent
  | DeadlineEvent
  | ClosedEvent ConnectionError
  | ServerMessage "(TunnelError, ServerControlMessage) res"
  | WatcherEvent bool "(TunnelError, ClientConfig) res" nat
  | CommandEvent "ClientCommand option" bool
  | StreamEvent "(ConnectionError, unit) res"
  | TaskEvent

text \<open>The preconditions of the branches of \<open>select!\<close>.\<close>

definition client_enabled :: "client_event \<Rightarrow> connected \<Rightarrow> bool" where
  "client_enabled ev s =
     (case ev of
        DeadlineEvent \<Rightarrow> k_pending s \<noteq> None
      | WatcherEvent _ _ _ \<Rightarrow> k_pending s = None
      | CommandEvent _ _ \<Rightarrow> k_pending s = None \<and> k_commands s
      | TaskEvent \<Rightarrow> k_streams s > 0
      | _ \<Rightarrow> True)"

definition publish :: "ClientStatus \<Rightarrow> connected \<Rightarrow> connected" where
  "publish st s = s\<lparr>k_status := k_status s @ [st]\<rparr>"

definition publish_online :: "string \<Rightarrow> ClientTunnel list \<Rightarrow> connected \<Rightarrow> connected" where
  "publish_online device tunnels s = publish (Online (cs_address (cc_server (k_config s))) device tunnels) s"

definition answer :: "nat option \<Rightarrow> (string, ClientTunnel list) res \<Rightarrow> connected \<Rightarrow> connected" where
  "answer response r s = (case response of None \<Rightarrow> s | Some c \<Rightarrow> s\<lparr>k_replies := k_replies s @ [(c, r)]\<rparr>)"

definition handle_message ::
  "client_net \<Rightarrow> string \<Rightarrow> bool \<Rightarrow> (TunnelError, ServerControlMessage) res \<Rightarrow> connected \<Rightarrow> (ConnectionEnd, unit) res \<times> connected" where
  "handle_message net device managed m s =
     (case m of
        Inl e \<Rightarrow> (Inl (Disconnected (connection_error_or (cnet_close_reason net) e)), s)
      | Inr (TunnelSnapshot tunnels) \<Rightarrow>
          (Inr (), publish_online device tunnels (if managed then retain_enabled_services tunnels s else s))
      | Inr (ServicesApplied rid tunnels) \<Rightarrow>
          (case k_pending s of
             None \<Rightarrow> (Inl (Disconnected (Protocol ''receipt without a request'')), s)
           | Some p \<Rightarrow>
               (let s1 = s\<lparr>k_pending := None\<rparr>
                in if pu_request_id p \<noteq> rid then (Inl (Disconnected (Protocol ''receipt for another request'')), s1)
                   else (let s2 = s1\<lparr>k_config := pu_updated p\<rparr>;
                             s3 = (if managed then retain_enabled_services tunnels s2 else s2)
                         in (Inr (), answer (pu_response p) (Inr tunnels) (publish_online device tunnels s3))))))"

definition client_step ::
  "client_net \<Rightarrow> string \<Rightarrow> bool \<Rightarrow> client_event \<Rightarrow> connected \<Rightarrow> (ConnectionEnd, unit) res \<times> connected" where
  "client_step net device managed ev s =
     (case ev of
        ShutdownEvent \<Rightarrow> (Inl Shutdown, s)
      | DeadlineEvent \<Rightarrow>
          (Inl (Disconnected (Timeout ''service confirmation'')),
           answer (Option.bind (k_pending s) pu_response) (Inl ''timeout waiting for the service confirmation'') (s\<lparr>k_pending := None\<rparr>))
      | ClosedEvent e \<Rightarrow>
          (if is_administrator_disconnect e then Inl AdministratorDisconnected else Inl (Disconnected (QuinnConnection e)), s)
      | ServerMessage m \<Rightarrow> handle_message net device managed m s
      | WatcherEvent changed loaded now \<Rightarrow>
          if \<not> changed then (Inl (Disconnected (Protocol ''the configuration watcher is closed'')), s)
          else (case loaded of
                  Inl _ \<Rightarrow> (Inl Unconfigured, s)
                | Inr updated \<Rightarrow>
                    if connection_identity_changed (k_config s) updated
                    then (Inl (Reconfigure (reconcile_config_update (k_config s) updated managed)), s)
                    else if managed then (Inr (), s)
                    else start_update net updated None (now + SERVICE_UPDATE_TIMEOUT) s)
      | CommandEvent None _ \<Rightarrow> (Inr (), s\<lparr>k_commands := False\<rparr>)
      | CommandEvent (Some cmd) closed \<Rightarrow>
          if closed then (Inr (), s)
          else start_update net ((k_config s)\<lparr>cc_services := cmd_services cmd\<rparr>) (Some (cmd_response cmd)) (cmd_deadline cmd) s
      | StreamEvent (Inl e) \<Rightarrow> (Inl (Disconnected (QuinnConnection e)), s)
      | StreamEvent (Inr _) \<Rightarrow> (Inr (), s\<lparr>k_streams := Suc (k_streams s)\<rparr>)
      | TaskEvent \<Rightarrow> (Inr (), s\<lparr>k_streams := k_streams s - 1\<rparr>))"

text \<open>
  The loop; \<open>None\<close> while it is still running. The event of a branch whose precondition does not hold
  is not taken. On the way out \<open>JoinSet::shutdown\<close> ends all forwarding tasks.
\<close>

primrec run_connected ::
  "client_net \<Rightarrow> string \<Rightarrow> bool \<Rightarrow> client_event list \<Rightarrow> connected \<Rightarrow> ConnectionEnd option \<times> connected" where
  "run_connected net device managed [] s = (None, s)"
| "run_connected net device managed (ev # evs) s =
     (if client_enabled ev s
      then (case client_step net device managed ev s of
              (Inl e, s1) \<Rightarrow> (Some e, s1\<lparr>k_streams := 0\<rparr>)
            | (Inr _, s1) \<Rightarrow> run_connected net device managed evs s1)
      else run_connected net device managed evs s)"

section \<open>Connecting\<close>

text \<open>\<open>resolve_addresses\<close>: the first eight distinct addresses of the lookup, in its order.\<close>

primrec unique :: "'a list \<Rightarrow> 'a list \<Rightarrow> 'a list" where
  "unique seen [] = []"
| "unique seen (a # as) = (if a \<in> set seen then unique seen as else a # unique (a # seen) as)"

definition resolve_addresses :: "(io_error, SocketAddr list) res \<Rightarrow> (TunnelError, SocketAddr list) res" where
  "resolve_addresses looked_up =
     (case looked_up of
        Inl e \<Rightarrow> Inl (Io e)
      | Inr found \<Rightarrow>
          (let addresses = take MAX_RESOLVED_ADDRESSES (unique [] found)
           in if addresses = [] then Inl (InvalidConfig ''the target address cannot be resolved'') else Inr addresses))"

definition resolve_one :: "(io_error, SocketAddr list) res \<Rightarrow> (TunnelError, SocketAddr) res" where
  "resolve_one looked_up =
     res_bind (resolve_addresses looked_up) (\<lambda>addresses.
       case addresses of [] \<Rightarrow> Inl (InvalidConfig ''the target address cannot be resolved'') | a # _ \<Rightarrow> Inr a)"

text \<open>\<open>try_addresses\<close> over the results of the attempts in the order in which they complete.\<close>

primrec try_results :: "TunnelError option \<Rightarrow> (TunnelError, 'a) res list \<Rightarrow> (TunnelError, 'a) res" where
  "try_results err [] = Inl (case err of None \<Rightarrow> InvalidConfig ''no usable server address'' | Some e \<Rightarrow> e)"
| "try_results err (r # rs) =
     (case r of
        Inr v \<Rightarrow> Inr v
      | Inl (Authentication m) \<Rightarrow> Inl (Authentication m)
      | Inl e \<Rightarrow> try_results (Some e) rs)"

definition try_addresses :: "(SocketAddr \<Rightarrow> (TunnelError, 'a) res) \<Rightarrow> SocketAddr list \<Rightarrow> (TunnelError, 'a) res" where
  "try_addresses operation completion = try_results None (map operation completion)"

text \<open>\<open>load_client_config_after_change\<close> at time \<open>now\<close> (milliseconds); a sleep may last \<open>extra\<close> longer than asked.\<close>

function load_retry ::
  "(nat \<Rightarrow> (TunnelError, ClientConfig) res) \<Rightarrow> (nat \<Rightarrow> nat) \<Rightarrow> nat \<Rightarrow> nat \<Rightarrow> (TunnelError, ClientConfig) res" where
  "load_retry load extra deadline now =
     (case load now of
        Inr c \<Rightarrow> Inr c
      | Inl e \<Rightarrow> if now < deadline then load_retry load extra deadline (now + CONFIG_RELOAD_RETRY_DELAY + extra now) else Inl e)"
  by pat_completeness auto
termination
  by (relation "measure (\<lambda>(_, _, deadline, now). deadline - now)") (auto simp: CONFIG_RELOAD_RETRY_DELAY_def)

definition load_client_config_after_change ::
  "(nat \<Rightarrow> (TunnelError, ClientConfig) res) \<Rightarrow> (nat \<Rightarrow> nat) \<Rightarrow> nat \<Rightarrow> (TunnelError, ClientConfig) res" where
  "load_client_config_after_change load extra now = load_retry load extra (now + CONFIG_RELOAD_GRACE) now"

declare load_retry.simps [simp del]

datatype 'a step_event =
    StepDone 'a
  | StepShutdownEvent
  | StepChanged bool "(TunnelError, ClientConfig) res"

definition wait_for_connection_step :: "'a step_event \<Rightarrow> 'a ConnectionStep" where
  "wait_for_connection_step ev =
     (case ev of
        StepDone r \<Rightarrow> Completed r
      | StepShutdownEvent \<Rightarrow> StepShutdown
      | StepChanged changed loaded \<Rightarrow>
          if \<not> changed then WatcherClosed
          else (case loaded of Inr updated \<Rightarrow> StepReconfigure updated | Inl _ \<Rightarrow> StepUnconfigured))"

definition config_watcher_closed :: ConnectionEnd where
  "config_watcher_closed = Disconnected (Protocol ''the configuration watcher is closed'')"

text \<open>
  The client's \<open>authenticate\<close>: the hello it sends, and the result for the outcomes of opening the
  stream, writing the hello and reading the answer.
\<close>

record handshake_io =
  hs_open :: "(TunnelError, unit) res"
  hs_write :: "(TunnelError, unit) res"
  hs_response :: "(TunnelError, ServerHandshake) res"

definition client_hello :: "ClientConfig \<Rightarrow> string \<Rightarrow> ClientHello" where
  "client_hello config device =
     \<lparr>ch_version = PROTOCOL_VERSION, ch_device_id = device, ch_key = str_bytes (cc_key config),
      ch_services = declarations (cc_services config)\<rparr>"

definition client_authenticate ::
  "ConnectionError option \<Rightarrow> handshake_io \<Rightarrow> (TunnelError, AuthenticationResult) res" where
  "client_authenticate close_reason io =
     res_bind (hs_open io) (\<lambda>_.
     (case hs_write io of
        Inl e \<Rightarrow> Inl (connection_error_or close_reason e)
      | Inr _ \<Rightarrow>
          (case hs_response io of
             Inl e \<Rightarrow> Inl (connection_error_or close_reason e)
           | Inr (BootstrapResponse _) \<Rightarrow> Inl (Protocol ''wrong kind of authentication response'')
           | Inr (AuthenticateResponse r) \<Rightarrow>
               (case sh_status r of
                  Accepted \<Rightarrow> Inr (AuthAccepted (sh_tunnels r))
                | DeviceIdConflict \<Rightarrow> Inr AuthDeviceIdConflict
                | _ \<Rightarrow> Inl (Authentication (sh_message r))))))"

text \<open>One connection attempt and what it delivers.\<close>

record attempt =
  at_connect :: "(TunnelError, unit) res step_event"
  at_auth :: "handshake_io step_event"
  at_events :: "client_event list"
  at_net :: client_net

definition end_close_code :: "ConnectionEnd \<Rightarrow> ApplicationCloseCode" where
  "end_close_code e =
     (case e of
        Reconfigure _ \<Rightarrow> ClientReconfigure
      | Unconfigured \<Rightarrow> ClientReconfigure
      | Shutdown \<Rightarrow> ClientShutdown
      | AdministratorDisconnected \<Rightarrow> ClientShutdown
      | Disconnected _ \<Rightarrow> ClientConnectionError
      | EndDeviceIdConflict \<Rightarrow> ClientShutdown)"

definition connected_start :: "ClientConfig \<Rightarrow> string \<Rightarrow> ClientTunnel list \<Rightarrow> bool \<Rightarrow> connected" where
  "connected_start config device tunnels managed =
     \<lparr>k_config = config, k_services = client_service_map (cc_services config), k_pending = None,
      k_next_request_id = 1, k_commands = managed,
      k_status = [Online (cs_address (cc_server config)) device tunnels], k_sent = [], k_replies = [], k_streams = 0\<rparr>"

text \<open>
  \<open>connect_and_run\<close>: how the attempt ends (\<open>None\<close> while it is connected), the configuration
  afterwards, the published states and the code the endpoint is closed with.
\<close>

record attempt_result =
  ar_end :: "ConnectionEnd option"
  ar_config :: ClientConfig
  ar_status :: "ClientStatus list"
  ar_close :: "ApplicationCloseCode option"
  ar_replies :: "(nat \<times> (string, ClientTunnel list) res) list"

definition early_end :: "ClientConfig \<Rightarrow> ConnectionEnd \<Rightarrow> ApplicationCloseCode option \<Rightarrow> attempt_result" where
  "early_end config e code = \<lparr>ar_end = Some e, ar_config = config, ar_status = [], ar_close = code, ar_replies = []\<rparr>"

definition connect_and_run :: "attempt \<Rightarrow> bool \<Rightarrow> string \<Rightarrow> ClientConfig \<Rightarrow> attempt_result" where
  "connect_and_run a managed device config =
     (case wait_for_connection_step (at_connect a) of
        Completed (Inl e) \<Rightarrow> early_end config (Disconnected e) None
      | StepReconfigure updated \<Rightarrow> early_end config (Reconfigure (reconcile_config_update config updated managed)) None
      | StepUnconfigured \<Rightarrow> early_end config Unconfigured None
      | StepShutdown \<Rightarrow> early_end config Shutdown None
      | WatcherClosed \<Rightarrow> early_end config config_watcher_closed None
      | Completed (Inr _) \<Rightarrow>
          (case wait_for_connection_step (at_auth a) of
             StepReconfigure updated \<Rightarrow>
               early_end config (Reconfigure (reconcile_config_update config updated managed)) (Some ClientReconfigure)
           | StepUnconfigured \<Rightarrow> early_end config Unconfigured (Some ClientReconfigure)
           | StepShutdown \<Rightarrow> early_end config Shutdown (Some ClientShutdown)
           | WatcherClosed \<Rightarrow> early_end config config_watcher_closed (Some ClientConnectionError)
           | Completed io \<Rightarrow>
               (case client_authenticate (cnet_close_reason (at_net a)) io of
                  Inl e \<Rightarrow> early_end config (Disconnected e) (Some ClientConnectionError)
                | Inr AuthDeviceIdConflict \<Rightarrow> early_end config EndDeviceIdConflict (Some ClientShutdown)
                | Inr (AuthAccepted tunnels) \<Rightarrow>
                    (case run_connected (at_net a) device managed (at_events a) (connected_start config device tunnels managed) of
                       (e, s) \<Rightarrow> \<lparr>ar_end = e, ar_config = k_config s, ar_status = k_status s,
                                   ar_close = map_option end_close_code e, ar_replies = k_replies s\<rparr>))))"

section \<open>The client loop\<close>

datatype wait_event = WaitShutdown | WaitChanged bool

text \<open>
  \<open>wait_for_initial_config\<close>: each turn has the outcome of loading the file and the event that
  follows a failure. The result is \<open>None\<close> while it waits; \<open>reasons\<close> are the published errors.
\<close>

primrec wait_for_initial_config ::
  "(TunnelError \<Rightarrow> string) \<Rightarrow> ((TunnelError, ClientConfig) res \<times> wait_event) list \<Rightarrow> ClientConfig option option \<times> ClientStatus list" where
  "wait_for_initial_config show_error [] = (None, [])"
| "wait_for_initial_config show_error (t # ts) =
     (case fst t of
        Inr config \<Rightarrow> (Some (Some config), [])
      | Inl e \<Rightarrow>
          (let st = StatusUnconfigured (show_error e)
           in case snd t of
                WaitShutdown \<Rightarrow> (Some None, [st])
              | WaitChanged changed \<Rightarrow>
                  if \<not> changed then (Some None, [st])
                  else (case wait_for_initial_config show_error ts of (r, sts) \<Rightarrow> (r, st # sts))))"

datatype retry_event = RetryShutdown | RetryElapsed | RetryChanged bool "(TunnelError, ClientConfig) res"

record client_turn =
  tn_cancelled :: bool
  tn_attempt :: attempt
  tn_retry :: retry_event
  tn_waits :: "((TunnelError, ClientConfig) res \<times> wait_event) list"
  tn_suffix :: nat

record client_state =
  m_config :: ClientConfig
  m_identity :: DeviceIdentity
  m_retry :: nat
  m_status :: "ClientStatus list"
  m_fs :: fs

record client_env =
  env_show :: "TunnelError \<Rightarrow> string"
  env_write :: file_write

datatype loop_end = LoopStopped "string option" | LoopFailed TunnelError

text \<open>A turn goes on (\<open>Continue\<close>), breaks out of the loop, or is still in progress.\<close>

datatype turn_result = Continue client_state | Break "string option" client_state | Failed TunnelError client_state | Running client_state

definition m_publish :: "ClientStatus list \<Rightarrow> client_state \<Rightarrow> client_state" where
  "m_publish sts s = s\<lparr>m_status := m_status s @ sts\<rparr>"

text \<open>After \<open>Unconfigured\<close>: wait for a usable file and reconcile it.\<close>

definition wait_unconfigured :: "client_env \<Rightarrow> bool \<Rightarrow> client_turn \<Rightarrow> client_state \<Rightarrow> turn_result" where
  "wait_unconfigured env managed t s =
     (case wait_for_initial_config (env_show env) (tn_waits t) of
        (None, sts) \<Rightarrow> Running (m_publish sts s)
      | (Some None, sts) \<Rightarrow> Break None (m_publish sts s)
      | (Some (Some updated), sts) \<Rightarrow>
          Continue ((m_publish sts s)\<lparr>m_config := reconcile_config_update (m_config s) updated managed, m_retry := 1\<rparr>))"

definition client_turn_step :: "client_env \<Rightarrow> bool \<Rightarrow> client_turn \<Rightarrow> client_state \<Rightarrow> turn_result" where
  "client_turn_step env managed t s =
     (let s0 = m_publish [Connecting (cs_address (cc_server (m_config s)))] s;
          r = connect_and_run (tn_attempt t) managed (di_id (m_identity s)) (m_config s);
          s1 = m_publish (ar_status r) (s0\<lparr>m_config := ar_config r\<rparr>)
      in case ar_end r of
           None \<Rightarrow> Running s1
         | Some (Reconfigure updated) \<Rightarrow> Continue (s1\<lparr>m_config := updated, m_retry := 1\<rparr>)
         | Some (Disconnected e) \<Rightarrow>
             (let s2 = m_publish [Reconnecting (env_show env e) (m_retry s1)] s1;
                  doubled = (\<lambda>st. st\<lparr>m_retry := min (m_retry st * 2) 30\<rparr>)
              in case tn_retry t of
                   RetryShutdown \<Rightarrow> Break None s2
                 | RetryElapsed \<Rightarrow> Continue (doubled s2)
                 | RetryChanged changed loaded \<Rightarrow>
                     if \<not> changed then Break None s2
                     else (case loaded of
                             Inr updated \<Rightarrow> Continue (doubled (s2\<lparr>m_config := reconcile_config_update (m_config s2) updated managed\<rparr>))
                           | Inl _ \<Rightarrow> wait_unconfigured env managed t s2))
         | Some Unconfigured \<Rightarrow> wait_unconfigured env managed t s1
         | Some EndDeviceIdConflict \<Rightarrow>
             (case resolve_conflict (env_write env) (tn_suffix t) (m_identity s1) (m_fs s1) of
                (Inl e, d, fs) \<Rightarrow> Failed e (s1\<lparr>m_identity := d, m_fs := fs\<rparr>)
              | (Inr _, d, fs) \<Rightarrow> Continue (s1\<lparr>m_identity := d, m_fs := fs, m_retry := 1\<rparr>))
         | Some AdministratorDisconnected \<Rightarrow> Break (Some ''taken offline by the administrator'') s1
         | Some Shutdown \<Rightarrow> Break None s1)"

primrec client_turns :: "client_env \<Rightarrow> bool \<Rightarrow> client_turn list \<Rightarrow> client_state \<Rightarrow> loop_end option \<times> client_state" where
  "client_turns env managed [] s = (None, s)"
| "client_turns env managed (t # ts) s =
     (if tn_cancelled t then (Some (LoopStopped None), m_publish [Stopped None] s)
      else case client_turn_step env managed t s of
             Continue s1 \<Rightarrow> client_turns env managed ts s1
           | Break reason s1 \<Rightarrow> (Some (LoopStopped reason), m_publish [Stopped reason] s1)
           | Failed e s1 \<Rightarrow> (Some (LoopFailed e), s1)
           | Running s1 \<Rightarrow> (None, s1))"

text \<open>\<open>run_client_loop\<close>: \<open>managed\<close> when a command channel is given. The watcher has been created.\<close>

definition run_client_loop ::
  "client_env \<Rightarrow> host_env \<Rightarrow> bool \<Rightarrow> path \<Rightarrow> ((TunnelError, ClientConfig) res \<times> wait_event) list \<Rightarrow> client_turn list \<Rightarrow> fs
   \<Rightarrow> loop_end option \<times> ClientStatus list \<times> client_state option" where
  "run_client_loop env host managed config_path initial turns fs =
     (case wait_for_initial_config (env_show env) initial of
        (None, sts) \<Rightarrow> (None, sts, None)
      | (Some None, sts) \<Rightarrow> (Some (LoopStopped None), sts @ [Stopped None], None)
      | (Some (Some loaded), sts) \<Rightarrow>
          (let config = (if managed then loaded\<lparr>cc_services := []\<rparr> else loaded)
           in case identity_load (env_write env) host config_path fs of
                (Inl e, fs1) \<Rightarrow> (Some (LoopFailed e), sts, None)
              | (Inr identity, fs1) \<Rightarrow>
                  (case client_turns env managed turns
                          \<lparr>m_config = config, m_identity = identity, m_retry = 1, m_status = sts, m_fs = fs1\<rparr> of
                     (r, s) \<Rightarrow> (r, m_status s, Some s))))"

section \<open>Data streams\<close>

text \<open>
  \<open>handle_stream\<close> until forwarding begins. The result says what the stream is connected to; the
  second component is what was written back on it.
\<close>

datatype tcp_connect = TcpConnected | TcpRefused | TcpTimeout

record stream_env =
  st_tcp :: "string \<Rightarrow> tcp_connect"
  st_lookup :: "string \<Rightarrow> (io_error, SocketAddr list) res"
  st_udp_bind :: "bool \<Rightarrow> (io_error, unit) res"
  st_udp_connect :: "SocketAddr \<Rightarrow> (io_error, unit) res"
  st_write :: "(TunnelError, unit) res"

datatype stream_target = NoTarget | TcpTarget string | UdpTarget SocketAddr

definition respond :: "stream_env \<Rightarrow> bool \<Rightarrow> string \<Rightarrow> stream_target \<Rightarrow> (TunnelError, stream_target) res \<times> OpenResponse list" where
  "respond env accepted message next =
     (case st_write env of
        Inl e \<Rightarrow> (Inl e, [])
      | Inr _ \<Rightarrow> (Inr next, [\<lparr>os_accepted = accepted, os_message = message\<rparr>]))"

definition write_rejection :: "stream_env \<Rightarrow> string \<Rightarrow> (TunnelError, stream_target) res \<times> OpenResponse list" where
  "write_rejection env message = respond env False message NoTarget"

definition handle_tcp :: "stream_env \<Rightarrow> string \<Rightarrow> (TunnelError, stream_target) res \<times> OpenResponse list" where
  "handle_tcp env target =
     (case st_tcp env target of
        TcpRefused \<Rightarrow> write_rejection env ''connecting to the target failed''
      | TcpTimeout \<Rightarrow> write_rejection env ''connecting to the target timed out''
      | TcpConnected \<Rightarrow> respond env True [] (TcpTarget target))"

definition is_ipv4 :: "SocketAddr \<Rightarrow> bool" where
  "is_ipv4 a = (case sock_ip a of V4 _ \<Rightarrow> True | _ \<Rightarrow> False)"

definition handle_udp :: "stream_env \<Rightarrow> string \<Rightarrow> (TunnelError, stream_target) res \<times> OpenResponse list" where
  "handle_udp env target =
     (case resolve_one (st_lookup env target) of
        Inl e \<Rightarrow> (Inl e, [])
      | Inr address \<Rightarrow>
          (case st_udp_bind env (is_ipv4 address) of
             Inl e \<Rightarrow> (Inl (Io e), [])
           | Inr _ \<Rightarrow>
               (case st_udp_connect env address of
                  Inl _ \<Rightarrow> write_rejection env ''connecting to the UDP target failed''
                | Inr _ \<Rightarrow> respond env True [] (UdpTarget address))))"

definition handle_stream ::
  "stream_env \<Rightarrow> (TunnelError, OpenRequest) res \<Rightarrow> (string, ClientServiceConfig) hm \<Rightarrow> (TunnelError, stream_target) res \<times> OpenResponse list" where
  "handle_stream env request services =
     (case request of
        Inl e \<Rightarrow> (Inl e, [])
      | Inr req \<Rightarrow>
          (case hm_get services (or_service req) of
             None \<Rightarrow> write_rejection env ''no such service''
           | Some service \<Rightarrow>
               (case s_kind service of
                  Tcp \<Rightarrow> (case s_target service of
                            None \<Rightarrow> (Inl (InvalidConfig ''a TCP service without a target''), [])
                          | Some target \<Rightarrow> handle_tcp env target)
                | Socks5 \<Rightarrow> (case or_destination req of
                               None \<Rightarrow> (Inl (Protocol ''a SOCKS5 request without a destination''), [])
                             | Some destination \<Rightarrow> handle_tcp env destination)
                | Udp \<Rightarrow> (case s_target service of
                            None \<Rightarrow> (Inl (InvalidConfig ''a UDP service without a target''), [])
                          | Some target \<Rightarrow> handle_udp env target))))"

text \<open>The forwarding loop of \<open>handle_udp\<close>; \<open>None\<close> while it runs.\<close>

datatype udp_event =
    FromQuic "(TunnelError, bytes) res" "(io_error, unit) res"
  | FromSocket "(io_error, bytes) res" "(TunnelError, unit) res"

record udp_forward =
  uf_to_socket :: "bytes list"
  uf_to_quic :: "bytes list"

definition udp_step :: "udp_event \<Rightarrow> udp_forward \<Rightarrow> (TunnelError, udp_forward) res" where
  "udp_step ev f =
     (case ev of
        FromQuic (Inl e) _ \<Rightarrow> Inl e
      | FromQuic (Inr packet) (Inl e) \<Rightarrow> Inl (Io e)
      | FromQuic (Inr packet) (Inr _) \<Rightarrow> Inr (f\<lparr>uf_to_socket := uf_to_socket f @ [packet]\<rparr>)
      | FromSocket (Inl e) _ \<Rightarrow> Inl (Io e)
      | FromSocket (Inr packet) (Inl e) \<Rightarrow> Inl e
      | FromSocket (Inr packet) (Inr _) \<Rightarrow> Inr (f\<lparr>uf_to_quic := uf_to_quic f @ [packet]\<rparr>))"

primrec udp_forward_loop :: "udp_event list \<Rightarrow> udp_forward \<Rightarrow> TunnelError option \<times> udp_forward" where
  "udp_forward_loop [] f = (None, f)"
| "udp_forward_loop (ev # evs) f =
     (case udp_step ev f of Inl e \<Rightarrow> (Some e, f) | Inr f1 \<Rightarrow> udp_forward_loop evs f1)"

section \<open>The controller\<close>

text \<open>\<open>client_control.rs\<close>: what the caller of \<open>update_services\<close> observes on the two
  channels; a timeout happens before or after the command is queued.\<close>

datatype control_outcome =
    ControlTimeout bool
  | ControlStopped
  | ControlDropped
  | ControlAnswered "(string, ClientTunnel list) res"

definition CLIENT_COMMAND_CAPACITY :: nat where "CLIENT_COMMAND_CAPACITY = 4"

definition update_services_until :: "control_outcome \<Rightarrow> (TunnelError, ClientTunnel list) res" where
  "update_services_until outcome =
     (case outcome of
        ControlTimeout _ \<Rightarrow> Inl (Timeout ''the client to apply the services'')
      | ControlStopped \<Rightarrow> Inl (Protocol ''the client control task has stopped'')
      | ControlDropped \<Rightarrow> Inl (Protocol ''the client control request was not completed'')
      | ControlAnswered (Inl m) \<Rightarrow> Inl (Protocol m)
      | ControlAnswered (Inr tunnels) \<Rightarrow> Inr tunnels)"

text \<open>\<open>ClientController::update_services\<close>: the result and the command that is queued.\<close>

definition controller_update ::
  "nat \<Rightarrow> nat \<Rightarrow> ClientServiceConfig list \<Rightarrow> control_outcome \<Rightarrow> (TunnelError, ClientTunnel list) res \<times> ClientCommand option" where
  "controller_update response now services outcome =
     (case validate_client_services services of
        Inl e \<Rightarrow> (Inl e, None)
      | Inr _ \<Rightarrow>
          (update_services_until outcome,
           if outcome = ControlStopped \<or> outcome = ControlTimeout False then None
           else Some \<lparr>cmd_services = services, cmd_response = response, cmd_deadline = now + SERVICE_UPDATE_TIMEOUT\<rparr>))"

section \<open>The shared service map\<close>

text \<open>The services the client has declared, and the map its data streams look them up in.\<close>

definition declared_services :: "connected \<Rightarrow> ClientServiceConfig list" where
  "declared_services s =
     (case k_pending s of None \<Rightarrow> cc_services (k_config s) | Some p \<Rightarrow> cc_services (pu_updated p))"

definition in_sync :: "connected \<Rightarrow> bool" where
  "in_sync s = (k_services s = client_service_map (declared_services s))"

text \<open>
  A snapshot that arrives while a request is pending and takes a service of the current
  configuration away from a managed client.
\<close>

definition racing :: "bool \<Rightarrow> client_event \<Rightarrow> connected \<Rightarrow> bool" where
  "racing managed ev s =
     (managed \<and> k_pending s \<noteq> None \<and>
      (case ev of
         ServerMessage (Inr (TunnelSnapshot tunnels)) \<Rightarrow>
           \<not> list_all (\<lambda>v. \<exists>t \<in> set tunnels. ct_state t = Enabled \<and> ct_name t = s_name v) (cc_services (k_config s))
       | _ \<Rightarrow> False))"

primrec race_free :: "client_net \<Rightarrow> string \<Rightarrow> bool \<Rightarrow> client_event list \<Rightarrow> connected \<Rightarrow> bool" where
  "race_free net device managed [] s = True"
| "race_free net device managed (ev # evs) s =
     (if client_enabled ev s
      then \<not> racing managed ev s \<and>
           (case client_step net device managed ev s of
              (Inl _, _) \<Rightarrow> True
            | (Inr _, s1) \<Rightarrow> race_free net device managed evs s1)
      else race_free net device managed evs s)"

text \<open>The requests are numbered from one, and the pending one is the last.\<close>

fun message_id :: "ControlMessage \<Rightarrow> u64" where
  "message_id (UpdateServices rid _) = rid"

definition numbered :: "connected \<Rightarrow> bool" where
  "numbered s =
     (length (k_sent s) < 2 ^ 64 - 1 \<longrightarrow>
        map message_id (k_sent s) = map (\<lambda>i. of_nat (Suc i)) [0..<length (k_sent s)]
        \<and> k_next_request_id s = of_nat (Suc (length (k_sent s))))"

definition pending_sent :: "connected \<Rightarrow> bool" where
  "pending_sent s =
     (case k_pending s of
        None \<Rightarrow> True
      | Some p \<Rightarrow> k_sent s \<noteq> [] \<and>
          last (k_sent s) = UpdateServices (pu_request_id p) (declarations (cc_services (pu_updated p))))"

definition connected_inv :: "connected \<Rightarrow> bool" where
  "connected_inv s = (in_sync s \<and> numbered s \<and> pending_sent s)"

lemma filter_all_length: "length (filter P xs) = length xs \<longleftrightarrow> list_all P xs"
  by (metis filter_True length_filter_less linorder_neq_iff list_all_iff)

lemma retain_enabled_services_simps [simp]:
  "k_pending (retain_enabled_services ts s) = k_pending s"
  "k_sent (retain_enabled_services ts s) = k_sent s"
  "k_next_request_id (retain_enabled_services ts s) = k_next_request_id s"
  "k_replies (retain_enabled_services ts s) = k_replies s"
  "k_status (retain_enabled_services ts s) = k_status s"
  "k_commands (retain_enabled_services ts s) = k_commands s"
  "k_streams (retain_enabled_services ts s) = k_streams s"
  by (simp_all add: retain_enabled_services_def Let_def)

lemma publish_simps [simp]:
  "k_pending (publish_online d ts s) = k_pending s" "k_sent (publish_online d ts s) = k_sent s"
  "k_next_request_id (publish_online d ts s) = k_next_request_id s" "k_replies (publish_online d ts s) = k_replies s"
  "k_config (publish_online d ts s) = k_config s" "k_services (publish_online d ts s) = k_services s"
  "k_commands (publish_online d ts s) = k_commands s"
  by (simp_all add: publish_online_def publish_def)

lemma answer_simps [simp]:
  "k_pending (answer c r s) = k_pending s" "k_sent (answer c r s) = k_sent s"
  "k_next_request_id (answer c r s) = k_next_request_id s" "k_config (answer c r s) = k_config s"
  "k_services (answer c r s) = k_services s" "k_commands (answer c r s) = k_commands s"
  "k_replies (answer c r s) = k_replies s @ (case c of None \<Rightarrow> [] | Some x \<Rightarrow> [(x, r)])"
  by (simp_all add: answer_def split: option.splits)

lemma retain_services_sync:
  assumes "k_services s = client_service_map (cc_services (k_config s))"
  shows "k_services (retain_enabled_services ts s) = client_service_map (cc_services (k_config (retain_enabled_services ts s)))"
  using assms by (auto simp: retain_enabled_services_def Let_def filter_all_length list_all_iff intro!: arg_cong[where f = client_service_map] filter_True[symmetric])

lemma retain_services_id:
  assumes "list_all (\<lambda>v. \<exists>t \<in> set ts. ct_state t = Enabled \<and> ct_name t = s_name v) (cc_services (k_config s))"
  shows "retain_enabled_services ts s = s"
proof -
  have "filter (\<lambda>v. s_name v \<in> ct_name ` set (filter (\<lambda>t. ct_state t = Enabled) ts)) (cc_services (k_config s)) = cc_services (k_config s)"
    using assms by (intro filter_True) (fastforce simp: list_all_iff image_iff)
  then show ?thesis by (simp add: retain_enabled_services_def Let_def)
qed

lemma take_request_id_next:
  assumes "n < 2 ^ 64 - 1"
  shows "take_request_id (of_nat n) = (of_nat n, of_nat (Suc n) :: u64)"
proof -
  have "unat (of_nat (Suc n) :: u64) = Suc n" using assms by (simp add: unsigned_of_nat take_bit_nat_eq_self_iff del: of_nat_Suc)
  then have "(1 :: u64) \<le> of_nat (Suc n)" by (simp add: word_le_nat_alt)
  then show ?thesis by (simp add: take_request_id_def max_def add.commute)
qed

lemma start_update_inv:
  assumes "start_update net updated response deadline s = (Inr (), s1)" "connected_inv s"
  shows "connected_inv s1" "k_sent s1 = k_sent s @ [UpdateServices (k_next_request_id s) (declarations (cc_services updated))]"
    "\<exists>p. k_pending s1 = Some p \<and> pu_request_id p = k_next_request_id s \<and> pu_updated p = updated \<and> pu_response p = response"
    "k_config s1 = k_config s"
proof -
  let ?rid = "k_next_request_id s" and ?next = "snd (take_request_id (k_next_request_id s))"
  let ?p = "\<lparr>pu_request_id = ?rid, pu_updated = updated, pu_response = response, pu_deadline = deadline\<rparr>"
  have s1: "s1 = s\<lparr>k_next_request_id := ?next, k_services := client_service_map (cc_services updated),
      k_sent := k_sent s @ [UpdateServices ?rid (declarations (cc_services updated))], k_pending := Some ?p\<rparr>"
    using assms(1) by (auto simp: start_update_def begin_service_update_def take_request_id_def Let_def split: sum.splits)
  have "numbered s1"
  proof (unfold numbered_def, rule impI)
    assume l: "length (k_sent s1) < 2 ^ 64 - 1"
    then have "length (k_sent s) < 2 ^ 64 - 1" by (simp add: s1)
    then have n: "map message_id (k_sent s) = map (\<lambda>i. of_nat (Suc i)) [0..<length (k_sent s)]"
      "k_next_request_id s = of_nat (Suc (length (k_sent s)))" using assms(2) by (simp_all add: connected_inv_def numbered_def)
    have "?next = of_nat (Suc (length (k_sent s1)))"
      using l take_request_id_next[of "Suc (length (k_sent s))"] by (simp add: n(2) s1)
    then show "map message_id (k_sent s1) = map (\<lambda>i. of_nat (Suc i)) [0..<length (k_sent s1)]
        \<and> k_next_request_id s1 = of_nat (Suc (length (k_sent s1)))"
      using n by (simp add: s1)
  qed
  then show "connected_inv s1" by (simp add: connected_inv_def in_sync_def declared_services_def pending_sent_def s1)
qed (use assms in \<open>auto simp: start_update_def begin_service_update_def take_request_id_def Let_def split: sum.splits\<close>)


lemma handle_message_inv:
  assumes "handle_message net device managed m s = (Inr (), s1)" "connected_inv s" "\<not> racing managed (ServerMessage m) s"
  shows "connected_inv s1"
proof (cases "\<exists>ts. m = Inr (TunnelSnapshot ts)")
  case True
  then obtain ts where m: "m = Inr (TunnelSnapshot ts)" by blast
  show ?thesis
  proof (cases "managed \<and> k_pending s \<noteq> None")
    case True
    then have "retain_enabled_services ts s = s" using assms(3) m by (intro retain_services_id) (simp add: racing_def)
    with assms(1,2) m True show ?thesis
      by (auto simp: handle_message_def connected_inv_def in_sync_def declared_services_def numbered_def pending_sent_def)
  next
    case False
    then show ?thesis
      using assms(1,2) m retain_services_sync[of s ts]
      by (cases managed) (auto simp: handle_message_def connected_inv_def in_sync_def declared_services_def numbered_def pending_sent_def split: option.splits)
  qed
next
  case False
  then obtain rid ts p where m: "m = Inr (ServicesApplied rid ts)" and p: "k_pending s = Some p" "pu_request_id p = rid"
    using assms(1) by (auto simp: handle_message_def Let_def split: sum.splits ServerControlMessage.splits option.splits if_splits)
  let ?s2 = "s\<lparr>k_pending := None, k_config := pu_updated p\<rparr>"
  have "k_services ?s2 = client_service_map (cc_services (k_config ?s2))"
    using assms(2) p by (simp add: connected_inv_def in_sync_def declared_services_def)
  with assms(1,2) m p retain_services_sync[of ?s2 ts] show ?thesis
    by (cases managed) (auto simp: handle_message_def connected_inv_def in_sync_def declared_services_def numbered_def pending_sent_def Let_def split: if_splits)
qed

lemma connected_inv_frame:
  assumes "connected_inv s" "k_config s1 = k_config s" "k_services s1 = k_services s" "k_pending s1 = k_pending s"
    "k_sent s1 = k_sent s" "k_next_request_id s1 = k_next_request_id s"
  shows "connected_inv s1"
  using assms by (cases "k_pending s") (simp_all add: connected_inv_def in_sync_def declared_services_def numbered_def pending_sent_def)

lemma client_step_inv:
  assumes step: "client_step net device managed ev s = (Inr (), s1)" and inv: "connected_inv s" and race: "\<not> racing managed ev s"
  shows "connected_inv s1"
proof (cases ev)
  case (ServerMessage m)
  with step handle_message_inv[OF _ inv] race show ?thesis by (simp add: client_step_def)
next
  case (WatcherEvent changed loaded now)
  then have "s1 = s \<or> (\<exists>updated. start_update net updated None (now + SERVICE_UPDATE_TIMEOUT) s = (Inr (), s1))"
    using step by (auto simp: client_step_def split: if_splits sum.splits)
  then show ?thesis using inv start_update_inv(1)[OF _ inv] by blast
next
  case (CommandEvent cmd closed)
  then have "s1 = s \<or> s1 = s\<lparr>k_commands := False\<rparr> \<or> (\<exists>updated r d. start_update net updated r d s = (Inr (), s1))"
    using step by (auto simp: client_step_def split: if_splits option.splits)
  then show ?thesis using inv connected_inv_frame[OF inv, of "s\<lparr>k_commands := False\<rparr>"] start_update_inv(1)[OF _ inv] by auto
qed (use step inv in \<open>auto simp: client_step_def split: if_splits sum.splits intro: connected_inv_frame[OF inv]\<close>)

lemma connected_start_inv: "connected_inv (connected_start config device tunnels managed)"
  by (simp add: connected_inv_def in_sync_def declared_services_def numbered_def pending_sent_def connected_start_def)

lemma run_connected_inv:
  "\<lbrakk>run_connected net device managed evs s = (None, s'); connected_inv s; race_free net device managed evs s\<rbrakk> \<Longrightarrow> connected_inv s'"
proof (induction evs arbitrary: s)
  case (Cons ev evs)
  show ?case
  proof (cases "client_enabled ev s")
    case True
    obtain s1 where s1: "client_step net device managed ev s = (Inr (), s1)" "run_connected net device managed evs s1 = (None, s')"
      using Cons.prems(1) True by (auto split: prod.splits sum.splits)
    with client_step_inv[OF s1(1) Cons.prems(2)] Cons.prems(3) True Cons.IH show ?thesis by auto
  qed (use Cons in auto)
qed simp

lemma race_free_unmanaged: "race_free net device False evs s"
  by (induction evs arbitrary: s) (auto simp: racing_def split: prod.splits sum.splits)


lemma case_message_id: "(case m of UpdateServices rid _ \<Rightarrow> f rid) = f (message_id m)"
  by (cases m) simp

section \<open>Where a managed client's services come from\<close>

text \<open>The services that the commands among the events ask for.\<close>

definition commanded :: "client_event list \<Rightarrow> ClientServiceConfig set" where
  "commanded evs = (\<Union>cmd \<in> {cmd. \<exists>closed. CommandEvent (Some cmd) closed \<in> set evs}. set (cmd_services cmd))"

definition services_within :: "ClientServiceConfig set \<Rightarrow> connected \<Rightarrow> bool" where
  "services_within S s =
     (set (cc_services (k_config s)) \<subseteq> S \<and> (\<forall>p. k_pending s = Some p \<longrightarrow> set (cc_services (pu_updated p)) \<subseteq> S))"

definition end_within :: "ClientServiceConfig set \<Rightarrow> ConnectionEnd \<Rightarrow> bool" where
  "end_within S e = (\<forall>c. e = Reconfigure c \<longrightarrow> set (cc_services c) \<subseteq> S)"

lemma retain_within:
  "services_within S s \<Longrightarrow> services_within S (retain_enabled_services ts s)"
  by (auto simp: services_within_def retain_enabled_services_def Let_def)

lemma reconcile_managed: "set (cc_services (reconcile_config_update c u True)) \<subseteq> set (cc_services c)"
  by (simp add: reconcile_config_update_def)

lemma start_update_within:
  assumes "start_update net updated response deadline s = (r, s1)" "services_within S s" "set (cc_services updated) \<subseteq> S"
  shows "services_within S s1" "r = Inl e \<Longrightarrow> end_within S e"
  using assms
  by (auto simp: start_update_def begin_service_update_def take_request_id_def Let_def services_within_def end_within_def
      split: sum.splits option.splits; blast)+

lemma handle_message_within:
  assumes "handle_message net device True m s = (r, s1)" "services_within S s"
  shows "services_within S s1 \<and> (\<forall>e. r = Inl e \<longrightarrow> end_within S e)"
proof (cases m)
  case (Inr cm)
  show ?thesis
  proof (cases cm)
    case (TunnelSnapshot ts)
    with assms Inr retain_within[OF assms(2), of ts] show ?thesis
      by (auto simp: handle_message_def services_within_def)
  next
    case (ServicesApplied rid ts)
    show ?thesis
    proof (cases "k_pending s")
      case (Some p)
      have "services_within S (s\<lparr>k_pending := None, k_config := pu_updated p\<rparr>)" "services_within S (s\<lparr>k_pending := None\<rparr>)"
        using assms(2) Some by (simp_all add: services_within_def)
      from this(2) retain_within[OF this(1), of ts] show ?thesis
        using assms(1) Inr ServicesApplied Some
        by (auto simp: handle_message_def services_within_def end_within_def Let_def split: if_splits)
    qed (use assms Inr ServicesApplied in \<open>auto simp: handle_message_def end_within_def\<close>)
  qed
qed (use assms in \<open>auto simp: handle_message_def end_within_def\<close>)

lemma client_step_within:
  assumes "client_step net device True ev s = (r, s1)" "services_within S s"
    "\<And>cmd closed. ev = CommandEvent (Some cmd) closed \<Longrightarrow> set (cmd_services cmd) \<subseteq> S"
  shows "services_within S s1 \<and> (\<forall>e. r = Inl e \<longrightarrow> end_within S e)"
proof (cases ev)
  case (ServerMessage m)
  with assms handle_message_within show ?thesis by (simp add: client_step_def)
next
  case (WatcherEvent changed loaded now)
  with assms(1,2) reconcile_managed[of "k_config s"] show ?thesis
    by (fastforce simp: client_step_def end_within_def services_within_def split: if_splits sum.splits)
next
  case (CommandEvent cmd closed)
  show ?thesis
  proof (cases "\<exists>c. cmd = Some c \<and> \<not> closed")
    case True
    then obtain c where c: "cmd = Some c" "\<not> closed" by blast
    then have "start_update net ((k_config s)\<lparr>cc_services := cmd_services c\<rparr>) (Some (cmd_response c)) (cmd_deadline c) s = (r, s1)"
      using assms(1) CommandEvent by (simp add: client_step_def)
    from start_update_within[OF this assms(2)] assms(3) CommandEvent c show ?thesis by auto
  qed (use assms(1,2) CommandEvent in \<open>auto simp: client_step_def services_within_def split: option.splits if_splits\<close>)
qed (use assms in \<open>auto simp: client_step_def services_within_def end_within_def split: if_splits sum.splits\<close>)

lemma run_connected_within:
  assumes "run_connected net device True evs s = (r, s1)" "services_within S s" "commanded evs \<subseteq> S"
  shows "services_within S s1 \<and> (\<forall>e. r = Some e \<longrightarrow> end_within S e)"
  using assms
proof (induction evs arbitrary: s)
  case (Cons ev evs)
  have sub: "commanded evs \<subseteq> S" "\<And>cmd closed. ev = CommandEvent (Some cmd) closed \<Longrightarrow> set (cmd_services cmd) \<subseteq> S"
    using Cons.prems(3) by (auto simp: commanded_def)
  show ?case
  proof (cases "client_enabled ev s")
    case True
    obtain r1 s2 where st: "client_step net device True ev s = (r1, s2)" by (cases "client_step net device True ev s")
    note w = client_step_within[OF st Cons.prems(2) sub(2)]
    show ?thesis
    proof (cases r1)
      case (Inl e)
      with Cons.prems(1) True st have "s1 = s2\<lparr>k_streams := 0\<rparr>" "r = Some e" by simp_all
      with w Inl show ?thesis by (simp add: services_within_def)
    next
      case (Inr u)
      with Cons.prems(1) True st have "run_connected net device True evs s2 = (r, s1)" by simp
      from Cons.IH[OF this _ sub(1)] w show ?thesis by blast
    qed
  qed (use Cons sub in auto)
qed simp

text \<open>An attempt ends before the control session is up, or it runs the session.\<close>

lemma connect_and_run_cases:
  obtains (early) e code where "connect_and_run a managed device config = early_end config e code"
      "\<And>c. e = Reconfigure c \<Longrightarrow> \<exists>u. c = reconcile_config_update config u managed"
  | (run) ts r s where
      "run_connected (at_net a) device managed (at_events a) (connected_start config device ts managed) = (r, s)"
      "connect_and_run a managed device config =
        \<lparr>ar_end = r, ar_config = k_config s, ar_status = k_status s, ar_close = map_option end_close_code r, ar_replies = k_replies s\<rparr>"
proof (cases "wait_for_connection_step (at_connect a)")
  case (Completed r)
  show ?thesis
  proof (cases r)
    case (Inr u)
    show ?thesis
    proof (cases "wait_for_connection_step (at_auth a)")
      case (Completed io)
      note up = \<open>wait_for_connection_step (at_connect a) = Completed r\<close> Inr Completed
      show ?thesis
      proof (cases "client_authenticate (cnet_close_reason (at_net a)) io")
        case (Inr res)
        show ?thesis
        proof (cases res)
          case (AuthAccepted ts)
          obtain e s where "run_connected (at_net a) device managed (at_events a) (connected_start config device ts managed) = (e, s)"
            by (cases "run_connected (at_net a) device managed (at_events a) (connected_start config device ts managed)")
          with up Inr AuthAccepted show ?thesis by (intro run) (simp_all add: connect_and_run_def)
        qed (use up Inr in \<open>auto simp: connect_and_run_def intro: early\<close>)
      qed (use up in \<open>auto simp: connect_and_run_def intro: early\<close>)
    qed (use Completed Inr in \<open>auto simp: connect_and_run_def config_watcher_closed_def intro: early\<close>)
  qed (use Completed in \<open>auto simp: connect_and_run_def intro: early\<close>)
qed (auto simp: connect_and_run_def config_watcher_closed_def intro: early)

lemma connect_and_run_within:
  assumes "commanded (at_events a) \<subseteq> S" "set (cc_services config) \<subseteq> S"
  shows "set (cc_services (ar_config (connect_and_run a True device config))) \<subseteq> S
    \<and> (\<forall>e. ar_end (connect_and_run a True device config) = Some e \<longrightarrow> end_within S e)"
proof (cases rule: connect_and_run_cases[of a True device config])
  case (early e code)
  have "end_within S e" using early(2) reconcile_managed assms(2) by (fastforce simp: end_within_def)
  with early(1) assms(2) show ?thesis by (simp add: early_end_def)
next
  case (run ts r s)
  have "services_within S (connected_start config device ts True)" using assms(2) by (simp add: services_within_def connected_start_def)
  from run_connected_within[OF run(1) this assms(1)] run(2) show ?thesis by (simp add: services_within_def)
qed

definition commanded_turns :: "client_turn list \<Rightarrow> ClientServiceConfig set" where
  "commanded_turns ts = (\<Union>t \<in> set ts. commanded (at_events (tn_attempt t)))"

definition turn_state :: "turn_result \<Rightarrow> client_state" where
  "turn_state r = (case r of Continue s \<Rightarrow> s | Break _ s \<Rightarrow> s | Failed _ s \<Rightarrow> s | Running s \<Rightarrow> s)"

lemma m_publish_simps [simp]:
  "m_config (m_publish sts s) = m_config s" "m_retry (m_publish sts s) = m_retry s"
  "m_identity (m_publish sts s) = m_identity s" "m_fs (m_publish sts s) = m_fs s"
  "m_status (m_publish sts s) = m_status s @ sts"
  by (simp_all add: m_publish_def)

lemma wait_unconfigured_within:
  "set (cc_services (m_config s)) \<subseteq> S \<Longrightarrow> set (cc_services (m_config (turn_state (wait_unconfigured env True t s)))) \<subseteq> S"
  using reconcile_managed by (fastforce simp: wait_unconfigured_def turn_state_def split: prod.splits option.splits)

lemma client_turn_within:
  assumes "commanded (at_events (tn_attempt t)) \<subseteq> S" "set (cc_services (m_config s)) \<subseteq> S"
  shows "set (cc_services (m_config (turn_state (client_turn_step env True t s)))) \<subseteq> S"
proof -
  let ?r = "connect_and_run (tn_attempt t) True (di_id (m_identity s)) (m_config s)"
  note R = connect_and_run_within[OF assms, of "di_id (m_identity s)"]
  have rec: "set (cc_services (reconcile_config_update (ar_config ?r) u True)) \<subseteq> S" for u
    using R reconcile_managed[of "ar_config ?r" u] by blast
  have w: "set (cc_services (m_config (turn_state (wait_unconfigured env True t x)))) \<subseteq> S" if "m_config x = ar_config ?r" for x
    using wait_unconfigured_within R that by simp
  show ?thesis
  proof (cases "ar_end ?r")
    case (Some e)
    then have "end_within S e" using R by simp
    with Some R rec w show ?thesis
      by (cases e) (auto simp: client_turn_step_def Let_def end_within_def turn_state_def[of "Continue _"] turn_state_def[of "Break _ _"]
          turn_state_def[of "Failed _ _"] split: retry_event.splits sum.splits prod.splits)
  qed (use R in \<open>simp add: client_turn_step_def Let_def turn_state_def\<close>)
qed

lemma client_turns_within:
  assumes "client_turns env True ts s = (r, s')" "commanded_turns ts \<subseteq> S" "set (cc_services (m_config s)) \<subseteq> S"
  shows "set (cc_services (m_config s')) \<subseteq> S"
  using assms
proof (induction ts arbitrary: s)
  case (Cons t ts)
  have c: "commanded (at_events (tn_attempt t)) \<subseteq> S" "commanded_turns ts \<subseteq> S"
    using Cons.prems(2) by (auto simp: commanded_turns_def)
  note W = client_turn_within[OF c(1) Cons.prems(3), of env]
  show ?case
  proof (cases "tn_cancelled t")
    case False
    show ?thesis
    proof (cases "client_turn_step env True t s")
      case (Continue s1)
      with Cons.prems(1) False W show ?thesis by (intro Cons.IH[OF _ c(2), of s1]) (simp_all add: turn_state_def)
    qed (use Cons.prems(1) False W in \<open>auto simp: turn_state_def\<close>)
  qed (use Cons.prems in auto)
qed simp

section \<open>Properties\<close>

lemma client_service_map_get:
  "hm_get (client_service_map services) n \<noteq> None \<longleftrightarrow> n \<in> s_name ` set services"
proof -
  have "hm_get (client_service_map services) n = None \<longleftrightarrow> n \<notin> s_name ` set services"
    by (simp add: client_service_map_def hm_get_collect map_of_eq_None_iff image_image)
  then show ?thesis by argo
qed


text \<open>A managed client with one service that is asked for another one.\<close>

definition service_a :: ClientServiceConfig where
  "service_a = \<lparr>s_name = ''a'', s_kind = Tcp, s_target = Some ''h:1''\<rparr>"

definition service_b :: ClientServiceConfig where
  "service_b = \<lparr>s_name = ''b'', s_kind = Tcp, s_target = Some ''h:2''\<rparr>"

definition sample_net :: client_net where
  "sample_net = \<lparr>cnet_write = (\<lambda>_. Inr ()), cnet_close_reason = None, cnet_show = (\<lambda>_. [])\<rparr>"

definition sample_conf :: ClientConfig where
  "sample_conf = \<lparr>cc_key = replicate 32 CHR ''k'',
     cc_server = \<lparr>cs_address = ''host:1'', cs_name = None, cs_ca_certificate = None\<rparr>, cc_services = [service_a]\<rparr>"

definition command_b :: ClientCommand where
  "command_b = \<lparr>cmd_services = [service_b], cmd_response = 7, cmd_deadline = 9\<rparr>"

definition tunnel_of :: "string \<Rightarrow> ClientTunnelState \<Rightarrow> ClientTunnel" where
  "tunnel_of n st = \<lparr>ct_name = n, ct_kind = Tcp, ct_server_port = 80, ct_local_ip = None, ct_local_port = Some 80, ct_state = st\<rparr>"

lemmas client_eval = connected_start_def client_step_def start_update_def begin_service_update_def take_request_id_def
  client_enabled_def sample_net_def sample_conf_def command_b_def service_a_def service_b_def client_service_map_def
  handle_message_def publish_online_def publish_def answer_def hm_collect_def declarations_def Let_def

definition switched :: connected where
  "switched = \<lparr>k_config = sample_conf\<lparr>cc_services := [service_b]\<rparr>, k_services = [(''b'', service_b)], k_pending = None,
     k_next_request_id = 2, k_commands = True,
     k_status = [Online ''host:1'' ''d'' [], Online ''host:1'' ''d'' [tunnel_of ''b'' Enabled]],
     k_sent = [UpdateServices 1 [\<lparr>sd_name = ''b'', sd_kind = Tcp\<rparr>]], k_replies = [(7, Inr [tunnel_of ''b'' Enabled])], k_streams = 0\<rparr>"

definition switch_events :: "client_event list" where
  "switch_events = [CommandEvent (Some command_b) False, ServerMessage (Inr (ServicesApplied 1 [tunnel_of ''b'' Enabled]))]"

lemma switch_run:
  "run_connected sample_net ''d'' True switch_events (connected_start sample_conf ''d'' [] True) = (None, switched)"
  by (simp add: switch_events_def switched_def client_eval retain_enabled_services_def tunnel_of_def)


text \<open>
  The assumption on snapshots is needed. A managed client asks for service \<open>b\<close> instead of \<open>a\<close>; before
  the receipt arrives, a snapshot reports that \<open>a\<close> is not enabled. \<open>retain_enabled_services\<close> then
  overwrites the shared map with the old configuration, and the receipt does not write it again:
  the client has \<open>b\<close> in its configuration, the server has confirmed it, and every stream for it
  is refused.
\<close>

lemma stale_service_map:
  "\<exists>s :: connected. run_connected sample_net ''d'' True
       [CommandEvent (Some command_b) False, ServerMessage (Inr (TunnelSnapshot [tunnel_of ''a'' Idle])),
        ServerMessage (Inr (ServicesApplied 1 [tunnel_of ''b'' Enabled]))]
       (connected_start sample_conf ''d'' [] True) = (None, s)
     \<and> cc_services (k_config s) = [service_b] \<and> k_pending s = None
     \<and> k_replies s = [(7, Inr [tunnel_of ''b'' Enabled])]
     \<and> handle_stream env (Inr \<lparr>or_service = ''b'', or_destination = None\<rparr>) (k_services s) = write_rejection env ''no such service''"
  by (simp add: client_eval retain_enabled_services_def tunnel_of_def handle_stream_def)

text \<open>
  A managed client never enables services from its configuration file. Whatever happens to the
  file, the connection and the server, every service in its configuration was asked for by a
  command on the control channel.
\<close>

theorem managed_services_from_commands:
  assumes "run_client_loop env host True config_path initial turns fs = (r, sts, Some s)"
  shows "set (cc_services (m_config s)) \<subseteq> commanded_turns turns"
proof -
  obtain loaded identity fs1 sts0 where
    "client_turns env True turns \<lparr>m_config = loaded\<lparr>cc_services := []\<rparr>, m_identity = identity, m_retry = 1, m_status = sts0, m_fs = fs1\<rparr> = (r, s)"
    using assms by (auto simp: run_client_loop_def Let_def split: prod.splits option.splits sum.splits)
  from client_turns_within[OF this order_refl] show ?thesis by simp
qed

definition sample_client_env :: client_env where
  "sample_client_env = \<lparr>env_show = (\<lambda>_. []), env_write = (\<lambda>_ _ fs. (Inr (), fs))\<rparr>"

definition sample_io :: handshake_io where
  "sample_io = \<lparr>hs_open = Inr (), hs_write = Inr (),
     hs_response = Inr (AuthenticateResponse \<lparr>sh_status = Accepted, sh_message = [], sh_tunnels = []\<rparr>)\<rparr>"

definition sample_turn :: client_turn where
  "sample_turn = \<lparr>tn_cancelled = False,
     tn_attempt = \<lparr>at_connect = StepDone (Inr ()), at_auth = StepDone sample_io, at_events = switch_events, at_net = sample_net\<rparr>,
     tn_retry = RetryElapsed, tn_waits = [], tn_suffix = 0\<rparr>"

lemma switch_run_config:
  "\<exists>s. run_connected sample_net d True switch_events (connected_start c d [] True) = (None, s) \<and> k_config s = c\<lparr>cc_services := [service_b]\<rparr>"
  by (simp add: switch_events_def client_eval retain_enabled_services_def tunnel_of_def)

theorem managed_services_from_commands_witness:
  "\<exists>r sts s. run_client_loop sample_client_env
        \<lparr>he_os = ''linux'', he_computername = None, he_hostname = Some ''box'', he_etc_hostname = None\<rparr> True (Path True [''c.toml''])
        [(Inr sample_conf, WaitShutdown)] [sample_turn] (\<lambda>_. Inl NotFound) = (r, sts, Some s)
     \<and> cc_services (m_config (s :: client_state)) = [service_b] \<and> service_b \<in> commanded_turns [sample_turn]"
proof -
  let ?host = "\<lparr>he_os = ''linux'', he_computername = None, he_hostname = Some ''box'', he_etc_hostname = None\<rparr>"
  obtain d fs1 where load: "identity_load (env_write sample_client_env) ?host (Path True [''c.toml'']) (\<lambda>_. Inl NotFound) = (Inr d, fs1)"
    by (simp add: identity_load_def persist_def Let_def sample_client_env_def)
  let ?c = "sample_conf\<lparr>cc_services := []\<rparr>"
  obtain k where k: "run_connected sample_net (di_id d) True switch_events (connected_start ?c (di_id d) [] True) = (None, k)"
    "k_config k = ?c\<lparr>cc_services := [service_b]\<rparr>" using switch_run_config by blast
  obtain sts s where run: "run_client_loop sample_client_env ?host True (Path True [''c.toml'']) [(Inr sample_conf, WaitShutdown)] [sample_turn]
      (\<lambda>_. Inl NotFound) = (None, sts, Some s)" and s: "cc_services (m_config s) = [service_b]"
    using load k by (simp add: run_client_loop_def Let_def sample_turn_def client_turn_step_def connect_and_run_def
        wait_for_connection_step_def client_authenticate_def sample_io_def)
  from managed_services_from_commands[OF run] s run show ?thesis by auto
qed

lemma unreachable_turn:
  assumes "at_connect (tn_attempt t) = StepDone (Inl e)" "tn_retry t = RetryElapsed"
  shows "client_turn_step env managed t s =
    Continue (s\<lparr>m_retry := min (m_retry s * 2) 30,
      m_status := m_status s @ [Connecting (cs_address (cc_server (m_config s))), Reconnecting (env_show env e) (m_retry s)]\<rparr>)"
  using assms
  by (simp add: client_turn_step_def connect_and_run_def wait_for_connection_step_def early_end_def m_publish_def Let_def)

definition backoff :: "nat \<Rightarrow> nat" where
  "backoff k = min (2 ^ k) 30"

lemma backoff_Suc: "min (backoff k * 2) 30 = backoff (Suc k)"
  by (simp add: backoff_def min_def)

lemma unreachable_turns:
  assumes "\<forall>t \<in> set ts. \<not> tn_cancelled t \<and> tn_retry t = RetryElapsed \<and> at_connect (tn_attempt t) = StepDone (Inl e)"
    and "m_retry s = backoff k"
  shows "client_turns env managed ts s =
    (None, s\<lparr>m_retry := backoff (k + length ts),
       m_status := m_status s @ concat (map (\<lambda>i. [Connecting (cs_address (cc_server (m_config s))), Reconnecting (env_show env e) (backoff i)])
         [k..<k + length ts])\<rparr>)"
  using assms
proof (induction ts arbitrary: s k)
  case (Cons t ts)
  let ?s1 = "s\<lparr>m_retry := backoff (Suc k),
      m_status := m_status s @ [Connecting (cs_address (cc_server (m_config s))), Reconnecting (env_show env e) (backoff k)]\<rparr>"
  have "client_turns env managed (t # ts) s = client_turns env managed ts ?s1"
    using Cons.prems unreachable_turn[of t e env managed s] by (simp add: backoff_Suc)
  moreover have "client_turns env managed ts ?s1 = (None, ?s1\<lparr>m_retry := backoff (Suc k + length ts),
       m_status := m_status ?s1 @ concat (map (\<lambda>i. [Connecting (cs_address (cc_server (m_config ?s1))), Reconnecting (env_show env e) (backoff i)])
         [Suc k..<Suc k + length ts])\<rparr>)"
    using Cons.prems(1) by (intro Cons.IH) simp_all
  moreover have "[k..<k + length (t # ts)] = k # [Suc k..<Suc k + length ts]" by (subst upt_conv_Cons) simp_all
  ultimately show ?case by simp
qed simp

text \<open>
  A server that cannot be reached is retried without end, with the delay doubled from one second
  up to thirty: after the \<open>i\<close>-th failure in a row (counted from zero) the client reports and waits
  \<open>min (2 ^ i) 30\<close> seconds, keeps its configuration and identity, and never stops by itself.
\<close>

theorem client_retries_forever:
  assumes "\<forall>t \<in> set ts. \<not> tn_cancelled t \<and> tn_retry t = RetryElapsed \<and> at_connect (tn_attempt t) = StepDone (Inl e)"
    and "m_retry s = 1"
  shows "client_turns env managed ts s =
    (None, s\<lparr>m_retry := min (2 ^ length ts) 30,
       m_status := m_status s @ concat (map (\<lambda>i. [Connecting (cs_address (cc_server (m_config s))), Reconnecting (env_show env e) (min (2 ^ i) 30)])
         [0..<length ts])\<rparr>)"
  using unreachable_turns[OF assms(1), of s 0 env managed] assms(2) by (simp add: backoff_def)

theorem client_retries_forever_witness:
  "client_turns sample_client_env False (replicate 6 (sample_turn\<lparr>tn_attempt := (tn_attempt sample_turn)\<lparr>at_connect := StepDone (Inl QuinnConnect)\<rparr>\<rparr>))
      \<lparr>m_config = sample_conf, m_identity = \<lparr>di_id = ''d'', di_path = Path True []\<rparr>, m_retry = 1, m_status = [], m_fs = (\<lambda>_. Inl NotFound)\<rparr>
    = (None, \<lparr>m_config = sample_conf, m_identity = \<lparr>di_id = ''d'', di_path = Path True []\<rparr>, m_retry = 30,
        m_status = concat (map (\<lambda>i. [Connecting ''host:1'', Reconnecting [] (min (2 ^ i) 30)]) [0..<6]), m_fs = (\<lambda>_. Inl NotFound)\<rparr>)"
proof -
  let ?ts = "replicate 6 (sample_turn\<lparr>tn_attempt := (tn_attempt sample_turn)\<lparr>at_connect := StepDone (Inl QuinnConnect)\<rparr>\<rparr>)"
  have "\<forall>t \<in> set ?ts. \<not> tn_cancelled t \<and> tn_retry t = RetryElapsed \<and> at_connect (tn_attempt t) = StepDone (Inl QuinnConnect)"
    by (simp add: sample_turn_def)
  from client_retries_forever[OF this, of "\<lparr>m_config = sample_conf, m_identity = \<lparr>di_id = ''d'', di_path = Path True []\<rparr>,
      m_retry = 1, m_status = [], m_fs = (\<lambda>_. Inl NotFound)\<rparr>" sample_client_env False]
  show ?thesis by (simp add: sample_conf_def sample_client_env_def)
qed


end
