(* ===== verification/Control_Link.thy ===== *)
theory Control_Link
  imports Server_Session Client_Session
begin

text \<open>
  The two ends of a control connection together: a client of \<open>client.rs\<close> driven by its
  configuration file, the server's session of \<open>server/mod.rs\<close>, and the two directions of the
  control stream as queues, since the frames arrive complete and in order. The server's other
  tasks work on the runtime in between.
\<close>

section \<open>Other tasks\<close>

text \<open>An operation of the runtime that is not an update or registration of the session \<open>sid\<close> itself.\<close>

inductive other_step :: "(bytes \<Rightarrow> bytes) \<Rightarrow> u64 \<Rightarrow> TunnelRuntime \<Rightarrow> TunnelRuntime \<Rightarrow> bool" for sha256 sid where
  "other_step sha256 sid rt (apply_tunnels cs rt)"
| "other_step sha256 sid rt (apply_credentials sha256 creds rt)"
| "i \<noteq> sid \<Longrightarrow> hm_get (sessions (rt_state rt)) i = None \<Longrightarrow>
     other_step sha256 sid rt (snd (register i dev grp digest conn now svcs rt))"
| "i \<noteq> sid \<Longrightarrow> other_step sha256 sid rt (snd (update_services i svcs rt))"
| "other_step sha256 sid rt (unregister i rt)"
| "other_step sha256 sid rt (snd (disconnect i rt))"
| "other_step sha256 sid rt (snd (disconnect_tunnel i tunnel rt))"
| "other_step sha256 sid rt (snd (report_config_applied sha256 to_toml c rt))"
| "other_step sha256 sid rt (snd (report_config_failed sha256 to_toml c err rt))"
| "other_step sha256 sid rt (report_config_load_error err rt)"

lemma other_rt_step: "other_step sha256 sid rt rt' \<Longrightarrow> rt_step sha256 rt rt'"
  by (induction rule: other_step.induct) (auto intro: rt_step.intros)

definition declared_at :: "TunnelRuntime \<Rightarrow> u64 \<Rightarrow> string \<Rightarrow> TunnelKind option" where
  "declared_at rt sid = (case hm_get (sessions (rt_state rt)) sid of None \<Rightarrow> Map.empty | Some se \<Rightarrow> hm_get (se_services se))"

text \<open>Other tasks only ever withdraw declarations of the session.\<close>

lemma fold_claim_sessions: "sessions (fst (fold (claim_one sid) ns x)) = sessions (fst x)"
  by (induction ns arbitrary: x) (auto simp: claim_one_def split: prod.splits)

lemma claim_keeps_sessions [simp]: "sessions (fst (claim_available sid x)) = sessions (fst x)"
  by (auto simp: claim_available_def fold_claim_sessions split: option.splits)

lemma register_get_sessions:
  "i \<noteq> sid \<Longrightarrow> hm_get (sessions (rt_state (snd (register i dev grp digest conn now svcs rt)))) sid = hm_get (sessions (rt_state rt)) sid"
  by (simp add: register_def Let_def hm_simps split_beta)

lemma update_get_sessions:
  "i \<noteq> sid \<Longrightarrow> hm_get (sessions (rt_state (snd (update_services i svcs rt)))) sid = hm_get (sessions (rt_state rt)) sid"
  by (simp add: update_services_def Let_def hm_simps split_beta split: option.splits)

lemma declared_at_eq:
  "hm_get (sessions (rt_state rt')) sid = hm_get (sessions (rt_state rt)) sid \<Longrightarrow> declared_at rt' sid = declared_at rt sid"
  by (simp add: declared_at_def)

lemma declared_at_gone: "hm_get (sessions (rt_state rt')) sid = None \<Longrightarrow> declared_at rt' sid \<subseteq>\<^sub>m m"
  by (simp add: declared_at_def)

lemma other_step_declared:
  assumes "other_step sha256 sid rt rt'" "rt_inv rt"
  shows "declared_at rt' sid \<subseteq>\<^sub>m declared_at rt sid"
  using assms
proof (induction rule: other_step.induct)
  case (1 rt cs)
  show ?case by (simp add: declared_at_def apply_tunnels_def)
next
  case (2 rt creds)
  then have wf: "maps_wf (rt_state rt)" by (simp add: rt_inv_def state_inv_def)
  show ?case using apply_credentials_effect(8)[OF wf refl refl refl, of sha256 creds sid]
    by (auto simp: declared_at_def)
next
  case (3 i rt dev grp digest conn now svcs)
  then show ?case by (simp add: declared_at_eq[OF register_get_sessions])
next
  case (4 i svcs rt)
  then show ?case by (simp add: declared_at_eq[OF update_get_sessions])
next
  case (5 rt i)
  then show ?case by (auto simp: declared_at_def unregister_def hm_simps Let_def)
next
  case (6 rt i)
  then show ?case by (auto simp: declared_at_def disconnect_def hm_simps Let_def split: option.splits)
next
  case (7 rt i tunnel)
  show ?case
  proof (cases rule: disconnect_tunnel_cases[of i tunnel rt])
    case (ok se spec ow)
    then show ?thesis by (auto simp: declared_at_def disconnect_tunnel_ok[OF ok] hm_simps map_le_def)
  qed simp
qed (simp_all add: declared_at_def report_config_applied_def report_config_failed_def publish_config_status_def
    report_config_load_error_def split: sum.splits)

section \<open>The link\<close>

record link =
  lk_client :: connected
  lk_server :: session
  lk_up :: "ControlMessage list"
  lk_down :: "ServerControlMessage list"

definition control_messages :: "server_message list \<Rightarrow> ServerControlMessage list" where
  "control_messages ms = List.map_filter (\<lambda>m. case m of Control c \<Rightarrow> Some c | Handshake _ \<Rightarrow> None) ms"

record link_env =
  le_net :: client_net
  le_session_net :: session_net
  le_device :: string
  le_session_id :: u64
  le_sha256 :: "bytes \<Rightarrow> bytes"

text \<open>
  The steps: the client handles an event of its own and may send a request; it receives the next
  message; the server receives the next request and answers it; the server reports a change; another
  task works on the runtime.
\<close>

inductive link_step :: "link_env \<Rightarrow> link \<Rightarrow> link \<Rightarrow> bool" for env where
  client_acts: "client_enabled ev (lk_client l) \<Longrightarrow> (\<forall>m. ev \<noteq> ServerMessage m) \<Longrightarrow>
     client_step (le_net env) (le_device env) False ev (lk_client l) = (Inr (), c) \<Longrightarrow>
     link_step env l (l\<lparr>lk_client := c, lk_up := lk_up l @ drop (length (k_sent (lk_client l))) (k_sent c)\<rparr>)"
| client_receives: "lk_down l = m # rest \<Longrightarrow>
     client_step (le_net env) (le_device env) False (ServerMessage (Inr m)) (lk_client l) = (Inr (), c) \<Longrightarrow>
     link_step env l (l\<lparr>lk_client := c, lk_down := rest\<rparr>)"
| server_receives: "lk_up l = m # rest \<Longrightarrow>
     session_step (le_session_net env) (le_session_id env) (MessageEvent (Inr m)) (lk_server l) = (Inr (), s) \<Longrightarrow>
     link_step env l (l\<lparr>lk_server := s, lk_up := rest,
       lk_down := lk_down l @ control_messages (drop (length (sx_sent (lk_server l))) (sx_sent s))\<rparr>)"
| server_reports: "session_step (le_session_net env) (le_session_id env) (ChangedEvent True) (lk_server l) = (Inr (), s) \<Longrightarrow>
     link_step env l (l\<lparr>lk_server := s,
       lk_down := lk_down l @ control_messages (drop (length (sx_sent (lk_server l))) (sx_sent s))\<rparr>)"
| other_task: "other_step (le_sha256 env) (le_session_id env) (sx_runtime (lk_server l)) rt \<Longrightarrow>
     link_step env l (l\<lparr>lk_server := (lk_server l)\<lparr>sx_runtime := rt\<rparr>\<rparr>)"

inductive link_reachable :: "link_env \<Rightarrow> link \<Rightarrow> link \<Rightarrow> bool" for env l0 where
  start: "link_reachable env l0 l0"
| step: "link_reachable env l0 l \<Longrightarrow> link_step env l l' \<Longrightarrow> link_reachable env l0 l'"

text \<open>The moment after the handshake: the server has registered what the client declared in its hello.\<close>

definition link_start :: "link_env \<Rightarrow> link \<Rightarrow> bool" where
  "link_start env l =
     (\<exists>config tunnels. lk_client l = connected_start config (le_device env) tunnels False
        \<and> rt_inv (sx_runtime (lk_server l))
        \<and> declared_at (sx_runtime (lk_server l)) (le_session_id env) = hm_get (service_map (declarations (cc_services config)))
        \<and> lk_up l = [] \<and> lk_down l = [])"

section \<open>The protocol invariant\<close>

definition receipts :: "ServerControlMessage list \<Rightarrow> u64 list" where
  "receipts ms = List.map_filter (\<lambda>m. case m of ServicesApplied rid _ \<Rightarrow> Some rid | TunnelSnapshot _ \<Rightarrow> None) ms"

definition allowed :: "ClientConfig \<Rightarrow> string \<Rightarrow> TunnelKind option" where
  "allowed config = hm_get (service_map (declarations (cc_services config)))"

definition link_inv :: "link_env \<Rightarrow> link \<Rightarrow> bool" where
  "link_inv env l =
     (let c = lk_client l; rt = sx_runtime (lk_server l); known = declared_at rt (le_session_id env) in
      connected_inv c \<and> rt_inv rt \<and>
      (case k_pending c of
         None \<Rightarrow> lk_up l = [] \<and> receipts (lk_down l) = [] \<and> known \<subseteq>\<^sub>m allowed (k_config c)
       | Some p \<Rightarrow>
           lk_up l = [UpdateServices (pu_request_id p) (declarations (cc_services (pu_updated p)))]
             \<and> receipts (lk_down l) = [] \<and> known \<subseteq>\<^sub>m allowed (k_config c)
           \<or> lk_up l = [] \<and> receipts (lk_down l) = [pu_request_id p] \<and> known \<subseteq>\<^sub>m allowed (pu_updated p)))"

lemma receipts_simps [simp]:
  "receipts [] = []" "receipts (TunnelSnapshot ts # ms) = receipts ms"
  "receipts (ServicesApplied rid ts # ms) = rid # receipts ms"
  "receipts (ms @ ns) = receipts ms @ receipts ns"
  by (simp_all add: receipts_def List.map_filter_def)

lemma map_of_values: "map_of (map (\<lambda>x. (f x, g x)) xs) n = map_option g (map_of (map (\<lambda>x. (f x, x)) xs) n)"
  by (induction xs) auto

lemma allowed_services:
  "allowed config n = map_option s_kind (hm_get (client_service_map (cc_services config)) n)"
  by (simp add: allowed_def service_map_def client_service_map_def declarations_def hm_get_collect comp_def
      rev_map map_of_values[of s_name s_kind])

text \<open>What the client's own events do: nothing on the wire, or the next request.\<close>

lemma client_acts_cases:
  assumes "client_step net device False ev c = (Inr (), c')" "\<forall>m. ev \<noteq> ServerMessage m" "client_enabled ev c" "connected_inv c"
  obtains (quiet) "k_sent c' = k_sent c" "k_pending c' = k_pending c" "k_config c' = k_config c"
  | (request) p where "k_pending c = None" "k_pending c' = Some p" "k_config c' = k_config c"
      "k_sent c' = k_sent c @ [UpdateServices (pu_request_id p) (declarations (cc_services (pu_updated p)))]"
proof (cases ev)
  case (WatcherEvent changed loaded now)
  then obtain updated where u: "start_update net updated None (now + SERVICE_UPDATE_TIMEOUT) c = (Inr (), c')" "k_pending c = None"
    using assms(1,3) by (auto simp: client_step_def client_enabled_def split: if_splits sum.splits)
  note U = start_update_inv[OF u(1) assms(4)]
  from U(3) obtain p where p: "k_pending c' = Some p" "pu_request_id p = k_next_request_id c" "pu_updated p = updated" by blast
  show ?thesis by (rule request[OF u(2) p(1) U(4)]) (use U(2) p in simp)
next
  case (CommandEvent cmd closed)
  show ?thesis
  proof (cases "\<exists>x. cmd = Some x \<and> \<not> closed")
    case True
    then obtain x where "cmd = Some x" "\<not> closed" by blast
    then have x: "start_update net ((k_config c)\<lparr>cc_services := cmd_services x\<rparr>) (Some (cmd_response x)) (cmd_deadline x) c = (Inr (), c')"
        "k_pending c = None"
      using assms(1,3) CommandEvent by (auto simp: client_step_def client_enabled_def)
    note U = start_update_inv[OF x(1) assms(4)]
    from U(3) obtain p where p: "k_pending c' = Some p" "pu_request_id p = k_next_request_id c"
      "pu_updated p = (k_config c)\<lparr>cc_services := cmd_services x\<rparr>" by blast
    show ?thesis by (rule request[OF x(2) p(1) U(4)]) (use U(2) p in simp)
  next
    case False
    then have "c' = c \<or> c' = c\<lparr>k_commands := False\<rparr>"
      using assms(1) CommandEvent by (auto simp: client_step_def split: option.splits if_splits)
    then show ?thesis by (intro quiet) auto
  qed
qed (use assms in \<open>auto simp: client_step_def split: if_splits sum.splits intro: quiet\<close>)

lemma unmanaged_not_racing: "\<not> racing False ev c"
  by (simp add: racing_def)

lemma client_acts_inv:
  assumes "link_inv env l" "client_enabled ev (lk_client l)" "\<forall>m. ev \<noteq> ServerMessage m"
    "client_step (le_net env) (le_device env) False ev (lk_client l) = (Inr (), c)"
  shows "link_inv env (l\<lparr>lk_client := c, lk_up := lk_up l @ drop (length (k_sent (lk_client l))) (k_sent c)\<rparr>)"
proof -
  have inv: "connected_inv (lk_client l)" using assms(1) by (simp add: link_inv_def Let_def)
  have inv': "connected_inv c" by (rule client_step_inv[OF assms(4) inv unmanaged_not_racing])
  from assms(4,3,2) inv show ?thesis
  proof (cases rule: client_acts_cases)
    case quiet
    with assms(1) inv' show ?thesis by (simp add: link_inv_def Let_def split: option.splits)
  next
    case (request p)
    with assms(1) inv' show ?thesis by (simp add: link_inv_def Let_def)
  qed
qed

lemma client_receives_inv:
  assumes "link_inv env l" "lk_down l = m # rest"
    "client_step (le_net env) (le_device env) False (ServerMessage (Inr m)) (lk_client l) = (Inr (), c)"
  shows "link_inv env (l\<lparr>lk_client := c, lk_down := rest\<rparr>)"
proof -
  have inv: "connected_inv (lk_client l)" using assms(1) by (simp add: link_inv_def Let_def)
  have inv': "connected_inv c" by (rule client_step_inv[OF assms(3) inv unmanaged_not_racing])
  show ?thesis
  proof (cases m)
    case (TunnelSnapshot ts)
    then have "k_pending c = k_pending (lk_client l)" "k_config c = k_config (lk_client l)"
      using assms(3) by (auto simp: client_step_def handle_message_def)
    with assms(1,2) inv' TunnelSnapshot show ?thesis by (auto simp: link_inv_def Let_def split: option.splits)
  next
    case (ServicesApplied rid ts)
    then obtain p where p: "k_pending (lk_client l) = Some p" using assms(1,2) by (auto simp: link_inv_def Let_def split: option.splits)
    then have "pu_request_id p = rid" and L: "lk_up l = []" "receipts rest = []"
        "declared_at (sx_runtime (lk_server l)) (le_session_id env) \<subseteq>\<^sub>m allowed (pu_updated p)"
      using assms(1,2) ServicesApplied by (auto simp: link_inv_def Let_def)
    then have "k_pending c = None" "k_config c = pu_updated p"
      using assms(3) ServicesApplied p by (auto simp: client_step_def handle_message_def Let_def)
    with assms(1) inv' L show ?thesis by (simp add: link_inv_def Let_def)
  qed
qed

lemma server_receives_inv:
  assumes "link_inv env l" "lk_up l = m # rest"
    "session_step (le_session_net env) (le_session_id env) (MessageEvent (Inr m)) (lk_server l) = (Inr (), s)"
  shows "link_inv env (l\<lparr>lk_server := s, lk_up := rest,
       lk_down := lk_down l @ control_messages (drop (length (sx_sent (lk_server l))) (sx_sent s))\<rparr>)"
proof -
  let ?sid = "le_session_id env" and ?rt = "sx_runtime (lk_server l)"
  obtain p where p: "k_pending (lk_client l) = Some p" and rest: "rest = []" and none: "receipts (lk_down l) = []"
    and m: "m = UpdateServices (pu_request_id p) (declarations (cc_services (pu_updated p)))"
    using assms(1,2) by (auto simp: link_inv_def Let_def split: option.splits)
  have inv: "rt_inv ?rt" using assms(1) by (simp add: link_inv_def Let_def)
  obtain u rt where up: "update_services ?sid (declarations (cc_services (pu_updated p))) ?rt = (Some u, rt)"
    and s: "s = (lk_server l)\<lparr>sx_runtime := rt, sx_sent := sx_sent (lk_server l) @ [Control (ServicesApplied (pu_request_id p) (catalog rt ?sid))]\<rparr>"
    using update_turn[OF assms(3)[unfolded m]] by auto
  obtain se where se: "hm_get (sessions (rt_state ?rt)) ?sid = Some se"
    using up by (auto simp: update_services_def Let_def split: option.splits)
  have "declared_at rt ?sid = allowed (pu_updated p)"
    using update_services_state(1)[OF inv se up refl, of ?sid] by (simp add: declared_at_def allowed_def)
  moreover have "rt_inv rt" using update_services_inv[OF inv, of ?sid "declarations (cc_services (pu_updated p))"] up by simp
  ultimately show ?thesis using assms(1) p rest none
    by (simp add: link_inv_def Let_def s control_messages_def List.map_filter_def)
qed

lemma server_reports_inv:
  assumes "link_inv env l"
    "session_step (le_session_net env) (le_session_id env) (ChangedEvent True) (lk_server l) = (Inr (), s)"
  shows "link_inv env (l\<lparr>lk_server := s, lk_down := lk_down l @ control_messages (drop (length (sx_sent (lk_server l))) (sx_sent s))\<rparr>)"
proof -
  have "sx_runtime s = sx_runtime (lk_server l)
    \<and> sx_sent s = sx_sent (lk_server l) @ [Control (TunnelSnapshot (catalog (sx_runtime (lk_server l)) (le_session_id env)))]"
    using assms(2) by (cases "sn_write (le_session_net env) (length (sx_sent (lk_server l)))") (auto simp: session_step_def send_message_def)
  with assms(1) show ?thesis by (simp add: link_inv_def Let_def control_messages_def List.map_filter_def split: option.splits)
qed

lemma other_task_inv:
  assumes "link_inv env l" "other_step (le_sha256 env) (le_session_id env) (sx_runtime (lk_server l)) rt"
  shows "link_inv env (l\<lparr>lk_server := (lk_server l)\<lparr>sx_runtime := rt\<rparr>\<rparr>)"
proof -
  have inv: "rt_inv (sx_runtime (lk_server l))" using assms(1) by (simp add: link_inv_def Let_def)
  have "rt_inv rt" by (rule rt_step_inv[OF other_rt_step[OF assms(2)] inv])
  with assms(1) map_le_trans[OF other_step_declared[OF assms(2) inv]] show ?thesis
    by (auto simp: link_inv_def Let_def split: option.splits)
qed

lemma link_step_inv: "link_step env l l' \<Longrightarrow> link_inv env l \<Longrightarrow> link_inv env l'"
  by (induction rule: link_step.induct)
     (auto intro: client_acts_inv client_receives_inv server_receives_inv server_reports_inv other_task_inv)

lemma link_start_inv: "link_start env l \<Longrightarrow> link_inv env l"
  by (auto simp: link_start_def link_inv_def Let_def connected_start_inv allowed_def) (simp_all add: connected_start_def allowed_def)

lemma link_reachable_inv: "link_reachable env l0 l \<Longrightarrow> link_start env l0 \<Longrightarrow> link_inv env l"
  by (induction rule: link_reachable.induct) (auto intro: link_start_inv link_step_inv)


lemma admit_client_link_start:
  assumes inv: "rt_inv (sx_runtime s)" "hm_get (sessions (rt_state (sx_runtime s))) (le_session_id env) = None"
    and call: "admit_client aenv (le_session_id env) conn groups (client_hello config (le_device env)) s = (Inr True, s')"
  shows "link_start env \<lparr>lk_client = connected_start config (le_device env) ts False, lk_server = s', lk_up = [], lk_down = []\<rparr>"
  using call
proof (cases rule: admit_client_split)
  case (registered grp rt)
  then have rt: "sx_runtime s' = rt" by simp
  have "rt_inv rt" using register_inv[OF inv] registered(3) by (metis snd_conv)
  moreover have "declared_at rt (le_session_id env) = hm_get (service_map (declarations (cc_services config)))"
    using register_fresh_effect(3)[OF inv registered(3)] by (simp add: declared_at_def new_session_def client_hello_def)
  ultimately show ?thesis by (auto simp: link_start_def rt)
qed simp

lemma link_no_stray_receipt:
  assumes "link_inv env l" "lk_down l = m # rest"
  shows "\<exists>c. client_step (le_net env) (le_device env) False (ServerMessage (Inr m)) (lk_client l) = (Inr (), c)"
  using assms by (cases m; cases "k_pending (lk_client l)") (auto simp: link_inv_def Let_def client_step_def handle_message_def)

lemma link_owned_known:
  assumes "link_inv env l" "k_pending (lk_client l) = None" "t \<in> owns (rt_state (sx_runtime (lk_server l))) (le_session_id env)"
  shows "\<exists>service spec. hm_get (k_services (lk_client l)) t = Some service
    \<and> hm_get (tunnels (rt_state (sx_runtime (lk_server l)))) t = Some spec \<and> s_kind service = sp_kind spec"
proof -
  let ?rt = "sx_runtime (lk_server l)"
  obtain ow where ow: "hm_get (owners (rt_state ?rt)) t = Some ow" "ow_session_id ow = le_session_id env"
    using assms(3) by (auto simp: owns_def)
  have "owner_valid (rt_state ?rt) t ow" using assms(1) ow by (auto simp: link_inv_def Let_def rt_inv_defs owners_ok_def)
  then obtain spec se where sp: "hm_get (tunnels (rt_state ?rt)) t = Some spec"
    "hm_get (sessions (rt_state ?rt)) (le_session_id env) = Some se" "hm_get (se_services se) t = Some (sp_kind spec)"
    using ow(2) by (auto simp: owner_valid_def eligible_def)
  then have "declared_at ?rt (le_session_id env) t = Some (sp_kind spec)" by (simp add: declared_at_def)
  then have "allowed (k_config (lk_client l)) t = Some (sp_kind spec)"
    using assms(1,2) by (auto simp: link_inv_def Let_def map_le_def dom_def)
  moreover have "k_services (lk_client l) = client_service_map (cc_services (k_config (lk_client l)))"
    using assms(1,2) by (simp add: link_inv_def Let_def connected_inv_def in_sync_def declared_services_def)
  ultimately show ?thesis using sp(1) by (auto simp: allowed_services)
qed

section \<open>Properties\<close>



definition sample_link_env :: link_env where
  "sample_link_env = \<lparr>le_net = sample_net, le_session_net = ae_net sample_auth_env, le_device = ''dev'', le_session_id = 1, le_sha256 = (\<lambda>b. b)\<rparr>"

definition web_config :: ClientConfig where
  "web_config = \<lparr>cc_key = replicate 32 CHR ''A'', cc_server = \<lparr>cs_address = ''host:1'', cs_name = None, cs_ca_certificate = None\<rparr>,
     cc_services = [\<lparr>s_name = ''web'', s_kind = Tcp, s_target = Some ''localhost:80''\<rparr>]\<rparr>"

lemma web_hello: "client_hello web_config ''dev'' = sample_hello"
  by (simp add: client_hello_def web_config_def sample_hello_def sample_key_def declarations_def PROTOCOL_VERSION_def str_bytes_def)

text \<open>The file is edited: the first event of a link makes the client ask for a second service.\<close>

definition edited :: ClientConfig where
  "edited = web_config\<lparr>cc_services := cc_services web_config @ [service_b]\<rparr>"


text \<open>
  A client's own checks are at least as strict as the server's. With a configuration that the
  client accepts and a valid device id, the hello passes every check the server makes before it looks
  up the key, and so does the request that declares any service list the client's controller lets
  through. (The key is a Rust string, hence valid UTF-8.)
\<close>

theorem client_messages_accepted:
  assumes "client_validate config = Inr ()" "validate_device_id device = Inr ()" "utf8_valid (str_bytes (cc_key config))"
    and "validate_client_services services = Inr ()"
  shows "valid_hello (client_hello config device) \<and> validate_declarations (declarations services) = Inr ()"
proof -
  have ok: "validate_declarations (declarations ss) = Inr ()" if "validate_client_services ss = Inr ()" for ss
    using that by (auto simp: validate_client_services_iff validate_declarations_ok declarations_def comp_def valid_client_service_def list_all_iff)
  have "bytes_str (str_bytes (cc_key config)) = cc_key config" by (simp add: bytes_str_def str_bytes_def comp_def unsigned_of_nat char_of_take_bit_eq)
  with assms ok show ?thesis
    by (auto simp: valid_hello_def client_hello_def client_validate_def res_simps is_ok_iff)
qed


theorem client_messages_accepted_witness:
  "valid_hello (client_hello web_config ''dev'') \<and> validate_declarations (declarations [service_b]) = Inr ()"
proof -
  have name: "valid_name ''web''" "valid_name ''b''" "valid_name ''dev''"
    by (simp_all add: valid_name_def name_byte_def is_ascii_alphanumeric_def is_ascii_lower_def)
  have "validate_client_services (cc_services web_config) = Inr ()" "validate_client_services [service_b] = Inr ()"
    using name by (simp_all add: validate_client_services_iff web_config_def service_b_def valid_client_service_def)
  moreover from this(1) have "client_validate web_config = Inr ()"
    by (simp add: client_validate_def res_simps web_config_def server_name_def validate_group_key_def chars_count_def
        MIN_GROUP_KEY_LENGTH_def MAX_GROUP_KEY_LENGTH_def address_host_def strip_prefix_def rsplit_once_def split_once_def)
  moreover have "utf8_valid (str_bytes (cc_key web_config))"
    by (rule utf8_valid_ascii) (simp add: web_config_def str_bytes_def)
  ultimately show ?thesis using client_messages_accepted name(3) by (simp add: validate_device_id_iff)
qed

end
