(* ===== verification/Public_Stream.thy ===== *)
theory Public_Stream
  imports Server_Session Admission
begin

text \<open>
  \<open>gaterust-tunnel/src/server/socks5.rs\<close> and \<open>server/stream.rs\<close>: the SOCKS5 negotiation with a
  public connection, the handling of one connection of a TCP or SOCKS5 tunnel, and the accept loop of
  such a listener with its permits. A public connection is the bytes it delivers and the bytes
  it accepts.
\<close>

section \<open>SOCKS5\<close>

definition SOCKS_VERSION :: u8 where "SOCKS_VERSION = 5"
definition NO_AUTH :: u8 where "NO_AUTH = 0"
definition NO_ACCEPTABLE_METHOD :: u8 where "NO_ACCEPTABLE_METHOD = 0xff"
definition CONNECT :: u8 where "CONNECT = 1"

record tcp_stream =
  tcp_in :: source
  tcp_out :: sink

text \<open>Reading and writing on the stream; every step can fail.\<close>

definition s_read :: "nat \<Rightarrow> tcp_stream \<Rightarrow> (TunnelError, bytes \<times> tcp_stream) res" where
  "s_read n t = (case read_exact n (tcp_in t) of Inl e \<Rightarrow> Inl (Io e) | Inr (bs, src) \<Rightarrow> Inr (bs, t\<lparr>tcp_in := src\<rparr>))"

definition s_write :: "bytes \<Rightarrow> tcp_stream \<Rightarrow> (TunnelError, unit) res \<times> tcp_stream" where
  "s_write bs t = (case write_all bs (tcp_out t) of (r, k) \<Rightarrow> (io_res r, t\<lparr>tcp_out := k\<rparr>))"

definition send_reply :: "u8 \<Rightarrow> tcp_stream \<Rightarrow> (TunnelError, unit) res \<times> tcp_stream" where
  "send_reply status t = s_write [SOCKS_VERSION, status, 0, 1, 0, 0, 0, 0, 0, 0] t"

text \<open>A reply, then the error \<open>message\<close>, or the error of writing the reply.\<close>

definition refuse :: "bytes \<Rightarrow> string \<Rightarrow> tcp_stream \<Rightarrow> (TunnelError, 'a) res \<times> tcp_stream" where
  "refuse reply message t = (case s_write reply t of (Inl e, t1) \<Rightarrow> (Inl e, t1) | (Inr _, t1) \<Rightarrow> (Inl (Protocol message), t1))"

definition reply_bytes :: "u8 \<Rightarrow> bytes" where
  "reply_bytes status = [SOCKS_VERSION, status, 0, 1, 0, 0, 0, 0, 0, 0]"

text \<open>The first half of \<open>handshake\<close>: the choice of a method.\<close>

definition negotiate :: "tcp_stream \<Rightarrow> (TunnelError, unit) res \<times> tcp_stream" where
  "negotiate t =
     (case s_read 1 t of
        Inl e \<Rightarrow> (Inl e, t)
      | Inr (v, t1) \<Rightarrow>
          (case s_read 1 t1 of
             Inl e \<Rightarrow> (Inl e, t1)
           | Inr (n, t2) \<Rightarrow>
               if hd v \<noteq> SOCKS_VERSION \<or> hd n = 0 then (Inl (Protocol ''invalid SOCKS5 negotiation''), t2)
               else (case s_read (unat (hd n)) t2 of
                       Inl e \<Rightarrow> (Inl e, t2)
                     | Inr (methods, t3) \<Rightarrow>
                         if NO_AUTH \<notin> set methods
                         then refuse [SOCKS_VERSION, NO_ACCEPTABLE_METHOD] ''the SOCKS5 client needs authentication'' t3
                         else s_write [SOCKS_VERSION, NO_AUTH] t3)))"

text \<open>The host of the request, by address type.\<close>

definition read_host :: "u8 \<Rightarrow> tcp_stream \<Rightarrow> (TunnelError, string) res \<times> tcp_stream" where
  "read_host address_type t =
     (if address_type = 1
      then (case s_read 4 t of
              Inl e \<Rightarrow> (Inl e, t)
            | Inr (bs, t1) \<Rightarrow> (Inr (show_ipv4 (of_nat (be_value bs))), t1))
      else if address_type = 3
      then (case s_read 1 t of
              Inl e \<Rightarrow> (Inl e, t)
            | Inr (n, t1) \<Rightarrow>
                if hd n = 0 then refuse (reply_bytes 8) ''empty SOCKS5 domain'' t1
                else (case s_read (unat (hd n)) t1 of
                        Inl e \<Rightarrow> (Inl e, t1)
                      | Inr (bs, t2) \<Rightarrow>
                          (if utf8_valid bs then Inr (bytes_str bs) else Inl (Protocol ''the SOCKS5 domain is not UTF-8''), t2)))
      else if address_type = 4
      then (case s_read 16 t of
              Inl e \<Rightarrow> (Inl e, t)
            | Inr (bs, t1) \<Rightarrow> (Inr (''['' @ show_ipv6 (of_nat (be_value bs)) @ '']''), t1))
      else refuse (reply_bytes 8) ''unsupported SOCKS5 address type'' t)"

text \<open>The second half: the request. Its four header bytes are read one by one.\<close>

definition read_request :: "tcp_stream \<Rightarrow> (TunnelError, string) res \<times> tcp_stream" where
  "read_request t =
     (case s_read 1 t of Inl e \<Rightarrow> (Inl e, t) | Inr (v, t1) \<Rightarrow>
     (case s_read 1 t1 of Inl e \<Rightarrow> (Inl e, t1) | Inr (c, t2) \<Rightarrow>
     (case s_read 1 t2 of Inl e \<Rightarrow> (Inl e, t2) | Inr (r, t3) \<Rightarrow>
     (case s_read 1 t3 of Inl e \<Rightarrow> (Inl e, t3) | Inr (a, t4) \<Rightarrow>
        if hd v \<noteq> SOCKS_VERSION \<or> hd c \<noteq> CONNECT \<or> hd r \<noteq> 0
        then refuse (reply_bytes 7) ''only SOCKS5 CONNECT is supported'' t4
        else (case read_host (hd a) t4 of
                (Inl e, t5) \<Rightarrow> (Inl e, t5)
              | (Inr host, t5) \<Rightarrow>
                  (case s_read 2 t5 of
                     Inl e \<Rightarrow> (Inl e, t5)
                   | Inr (p, t6) \<Rightarrow> (Inr (host @ '':'' @ show_nat (be_value p)), t6)))))))"

definition handshake :: "tcp_stream \<Rightarrow> (TunnelError, string) res \<times> tcp_stream" where
  "handshake t = (case negotiate t of (Inl e, t1) \<Rightarrow> (Inl e, t1) | (Inr _, t1) \<Rightarrow> read_request t1)"

section \<open>One public connection\<close>

text \<open>The outcome of the data stream to the client: opening it, writing the request, reading the answer.\<close>

record open_io =
  oi_open :: "(TunnelError, unit) res"
  oi_write :: "(TunnelError, unit) res"
  oi_response :: "(TunnelError, OpenResponse) res"

text \<open>\<open>forward\<close> until the bytes are copied: the request that was written, and whether relaying starts.\<close>

definition forward ::
  "open_io \<Rightarrow> ServerTunnelConfig \<Rightarrow> string option \<Rightarrow> tcp_stream \<Rightarrow> (TunnelError, unit) res \<times> OpenRequest option \<times> tcp_stream" where
  "forward io config destination public =
     (case oi_open io of
        Inl e \<Rightarrow> (Inl e, None, public)
      | Inr _ \<Rightarrow>
          (case oi_write io of
             Inl e \<Rightarrow> (Inl e, None, public)
           | Inr _ \<Rightarrow>
               (let req = Some \<lparr>or_service = t_name config, or_destination = destination\<rparr> in
                case oi_response io of
                  Inl e \<Rightarrow> (Inl e, req, public)
                | Inr response \<Rightarrow>
                    if \<not> os_accepted response
                    then (case (if t_kind config = Socks5 then send_reply 5 public else (Inr (), public)) of
                            (Inl e, public1) \<Rightarrow> (Inl e, req, public1)
                          | (Inr _, public1) \<Rightarrow> (Inl (Protocol (''the target refused: '' @ os_message response)), req, public1))
                    else (case (if t_kind config = Socks5 then send_reply 0 public else (Inr (), public)) of
                            (r, public1) \<Rightarrow> (r, req, public1)))))"

text \<open>
  \<open>handle\<close>: \<open>timeout\<close> when the SOCKS5 negotiation takes too long, \<open>cancelled\<close> when the tunnel's token
  is already cancelled when forwarding would start; a later cancellation drops the forwarding with
  what it has written so far. The result \<open>Inr True\<close> means that bytes are relayed.
\<close>

record handle_result =
  hr_result :: "(TunnelError, bool) res"
  hr_request :: "(Connection \<times> OpenRequest) option"
  hr_public :: tcp_stream

definition handle_connection ::
  "bool \<Rightarrow> bool \<Rightarrow> open_io \<Rightarrow> ServerTunnelConfig \<Rightarrow> TunnelRuntime \<Rightarrow> tcp_stream \<Rightarrow> handle_result" where
  "handle_connection timeout cancelled io config rt public =
     (case (if t_kind config = Socks5
            then if timeout then (Inl (Timeout ''SOCKS5 handshake''), public)
                 else (case handshake public of (Inl e, p) \<Rightarrow> (Inl e, p) | (Inr d, p) \<Rightarrow> (Inr (Some d), p))
            else (Inr None, public)) of
        (Inl e, public1) \<Rightarrow> \<lparr>hr_result = Inl e, hr_request = None, hr_public = public1\<rparr>
      | (Inr destination, public1) \<Rightarrow>
          (case find_tunnel rt (t_name config) of
             None \<Rightarrow>
               (case (if t_kind config = Socks5 then send_reply 1 public1 else (Inr (), public1)) of
                  (Inl e, public2) \<Rightarrow> \<lparr>hr_result = Inl e, hr_request = None, hr_public = public2\<rparr>
                | (Inr _, public2) \<Rightarrow> \<lparr>hr_result = Inl (Protocol ''no client is available''), hr_request = None, hr_public = public2\<rparr>)
           | Some session \<Rightarrow>
               if cancelled then \<lparr>hr_result = Inr False, hr_request = None, hr_public = public1\<rparr>
               else (case forward io config destination public1 of
                       (r, req, public2) \<Rightarrow>
                         \<lparr>hr_result = (case r of Inl e \<Rightarrow> Inl e | Inr _ \<Rightarrow> Inr True),
                          hr_request = map_option (Pair (cl_connection session)) req, hr_public = public2\<rparr>)))"

section \<open>The accept loop\<close>

text \<open>
  \<open>stream::run\<close>: the tunnel's semaphore, the shared budget and the running connections. An accepted
  connection is served only with both permits; a refusal drops the socket and any permit taken.
\<close>

record stream_state =
  sl_permits :: nat
  sl_budget :: ResourceBudget
  sl_connections :: nat
  sl_listening :: bool

datatype stream_event = StreamCancelled | StreamAccepted | StreamAcceptFailed | StreamJoined

definition stream_start :: "ServerTunnelConfig \<Rightarrow> ResourceBudget \<Rightarrow> stream_state" where
  "stream_start config budget = \<lparr>sl_permits = t_max_connections config, sl_budget = budget, sl_connections = 0, sl_listening = True\<rparr>"

definition stream_step :: "stream_event \<Rightarrow> stream_state \<Rightarrow> stream_state" where
  "stream_step ev s =
     (case ev of
        StreamJoined \<Rightarrow>
          if sl_connections s = 0 then s
          else s\<lparr>sl_connections := sl_connections s - 1, sl_permits := sem_release 1 (sl_permits s),
                 sl_budget := budget_drop StreamPermit (sl_budget s)\<rparr>
      | StreamCancelled \<Rightarrow> s\<lparr>sl_listening := False\<rparr>
      | StreamAcceptFailed \<Rightarrow> s\<lparr>sl_listening := False\<rparr>
      | StreamAccepted \<Rightarrow>
          if \<not> sl_listening s then s
          else (case sem_try_acquire 1 (sl_permits s) of
                  None \<Rightarrow> s
                | Some permits \<Rightarrow>
                    (case try_data_stream (sl_budget s) of
                       None \<Rightarrow> s\<lparr>sl_permits := sem_release 1 permits\<rparr>
                     | Some budget \<Rightarrow> s\<lparr>sl_permits := permits, sl_budget := budget, sl_connections := Suc (sl_connections s)\<rparr>)))"

definition stream_run :: "stream_event list \<Rightarrow> stream_state \<Rightarrow> stream_state" where
  "stream_run evs s = fold stream_step evs s"


section \<open>What the handshake accepts\<close>

datatype socks_address = SocksV4 bytes | SocksDomain bytes | SocksV6 bytes

primrec address_ok :: "socks_address \<Rightarrow> bool" where
  "address_ok (SocksV4 bs) = (length bs = 4)"
| "address_ok (SocksDomain bs) = (1 \<le> length bs \<and> length bs \<le> 255 \<and> utf8_valid bs)"
| "address_ok (SocksV6 bs) = (length bs = 16)"

primrec address_bytes :: "socks_address \<Rightarrow> bytes" where
  "address_bytes (SocksV4 bs) = 1 # bs"
| "address_bytes (SocksDomain bs) = 3 # of_nat (length bs) # bs"
| "address_bytes (SocksV6 bs) = 4 # bs"

primrec address_text :: "socks_address \<Rightarrow> string" where
  "address_text (SocksV4 bs) = show_ipv4 (of_nat (be_value bs))"
| "address_text (SocksDomain bs) = bytes_str bs"
| "address_text (SocksV6 bs) = ''['' @ show_ipv6 (of_nat (be_value bs)) @ '']''"

definition advance :: "bytes \<Rightarrow> tcp_stream \<Rightarrow> tcp_stream" where
  "advance rest t = t\<lparr>tcp_in := (tcp_in t)\<lparr>src_bytes := rest\<rparr>\<rparr>"

definition emit :: "bytes \<Rightarrow> tcp_stream \<Rightarrow> tcp_stream" where
  "emit bs t = t\<lparr>tcp_out := (tcp_out t)\<lparr>snk_sent := snk_sent (tcp_out t) @ bs, snk_room := snk_room (tcp_out t) - length bs\<rparr>\<rparr>"

abbreviation unread :: "tcp_stream \<Rightarrow> bytes" where
  "unread t \<equiv> src_bytes (tcp_in t)"

lemma advance_simps [simp]:
  "unread (advance rest t) = rest" "tcp_out (advance rest t) = tcp_out t" "advance r2 (advance r1 t) = advance r2 t"
  "tcp_in (emit bs t) = tcp_in t" "advance r (emit bs t) = emit bs (advance r t)"
  by (simp_all add: advance_def emit_def)

lemma s_read_append [simp]: "unread t = bs @ rest \<Longrightarrow> length bs = n \<Longrightarrow> s_read n t = Inr (bs, advance rest t)"
  by (auto simp: s_read_def read_exact_def advance_def)

lemma s_readD: "s_read n t = Inr (bs, t1) \<Longrightarrow> \<exists>rest. unread t = bs @ rest \<and> length bs = n \<and> t1 = advance rest t"
  by (auto simp: s_read_def read_exact_def advance_def split: sum.splits if_splits intro!: exI[of _ "drop n (unread t)"])

lemma s_read1D: "s_read (Suc 0) t = Inr (bs, t1) \<Longrightarrow> \<exists>b rest. bs = [b] \<and> unread t = b # rest \<and> t1 = advance rest t"
  using s_readD[of "Suc 0" t bs t1] by (auto simp: length_Suc_conv)

lemma s_read1_Cons [simp]: "unread t = b # rest \<Longrightarrow> s_read (Suc 0) t = Inr ([b], advance rest t)"
  using s_read_append[of t "[b]" rest "Suc 0"] by simp

lemma s_write_ok: "s_write bs t = (Inr u, t1) \<longleftrightarrow> length bs \<le> snk_room (tcp_out t) \<and> t1 = emit bs t"
  by (auto simp: s_write_def write_all_def io_res_def emit_def)

lemma refuse_fails [simp]: "refuse reply message t \<noteq> (Inr x, t1)"
  by (auto simp: refuse_def split: prod.splits sum.splits)

lemma negotiate_iff:
  "negotiate t = (Inr u, t1) \<longleftrightarrow>
     (\<exists>n methods rest. unread t = 5 # n # methods @ rest \<and> n \<noteq> 0 \<and> length methods = unat n \<and> 0 \<in> set methods
        \<and> 2 \<le> snk_room (tcp_out t) \<and> t1 = emit [5, 0] (advance rest t))"
  (is "?L \<longleftrightarrow> ?R")
proof
  assume ?L
  then show ?R
    by (auto simp: negotiate_def SOCKS_VERSION_def NO_AUTH_def s_write_ok length_Suc_conv split: sum.splits if_splits dest!: s_readD) blast
next
  assume ?R
  then show ?L by (auto simp: negotiate_def SOCKS_VERSION_def NO_AUTH_def s_write_ok)
qed

lemma read_host_iff:
  "read_host a t = (Inr host, t1) \<longleftrightarrow>
     (\<exists>addr rest. address_ok addr \<and> a # unread t = address_bytes addr @ rest \<and> host = address_text addr \<and> t1 = advance rest t)"
  (is "?L \<longleftrightarrow> ?R")
proof
  assume L: ?L
  consider "a = 1" | "a = 3" | "a = 4" | "a \<noteq> 1" "a \<noteq> 3" "a \<noteq> 4" by blast
  then show ?R
  proof cases
    case 1
    with L obtain bs rest where "unread t = bs @ rest" "length bs = 4" "host = show_ipv4 (of_nat (be_value bs))" "t1 = advance rest t"
      by (auto simp: read_host_def split: sum.splits dest!: s_readD)
    with 1 show ?thesis by (intro exI[of _ "SocksV4 bs"] exI[of _ rest]) simp
  next
    case 2
    with L obtain n bs rest where "unread t = n # bs @ rest" "n \<noteq> 0" "length bs = unat n" "utf8_valid bs"
      "host = bytes_str bs" "t1 = advance rest t"
      by (auto simp: read_host_def length_Suc_conv split: sum.splits if_splits dest!: s_readD)
    moreover have "1 \<le> unat n" "unat n \<le> 255" using \<open>n \<noteq> 0\<close> unsigned_less[of n, where ?'a = nat] by (auto simp: unat_gt_0 Suc_le_eq)
    ultimately show ?thesis using 2 by (intro exI[of _ "SocksDomain bs"] exI[of _ rest]) simp
  next
    case 3
    with L obtain bs rest where "unread t = bs @ rest" "length bs = 16" "host = ''['' @ show_ipv6 (of_nat (be_value bs)) @ '']''" "t1 = advance rest t"
      by (auto simp: read_host_def split: sum.splits dest!: s_readD)
    with 3 show ?thesis by (intro exI[of _ "SocksV6 bs"] exI[of _ rest]) simp
  qed (use L in \<open>simp add: read_host_def\<close>)
next
  assume ?R
  then obtain addr rest where addr: "address_ok addr" "a # unread t = address_bytes addr @ rest" "host = address_text addr"
    "t1 = advance rest t" by blast
  show ?L
  proof (cases addr)
    case (SocksDomain bs)
    have "unat (of_nat (length bs) :: u8) = length bs" using addr(1) SocksDomain by (simp add: unsigned_of_nat take_bit_nat_eq_self_iff)
    moreover from this have "(of_nat (length bs) :: u8) \<noteq> 0" using addr(1) SocksDomain by auto
    ultimately show ?thesis using addr SocksDomain by (simp add: read_host_def)
  qed (use addr in \<open>auto simp: read_host_def\<close>)
qed

lemma read_request_iff:
  "read_request t = (Inr d, t1) \<longleftrightarrow>
     (\<exists>addr port rest. address_ok addr \<and> length port = 2 \<and> unread t = [5, 1, 0] @ address_bytes addr @ port @ rest
        \<and> d = address_text addr @ '':'' @ show_nat (be_value port) \<and> t1 = advance rest t)"
  (is "?L \<longleftrightarrow> ?R")
proof
  assume ?L
  then obtain a r t5 host where r: "unread t = 5 # 1 # 0 # a # r" and h: "read_host a (advance r t) = (Inr host, t5)"
    and rest: "\<exists>port t6. s_read 2 t5 = Inr (port, t6) \<and> d = host @ '':'' @ show_nat (be_value port) \<and> t1 = t6"
    by (auto simp: read_request_def SOCKS_VERSION_def CONNECT_def split: sum.splits if_splits prod.splits dest!: s_read1D)
  from h obtain addr r2 where addr: "address_ok addr" "a # r = address_bytes addr @ r2" "host = address_text addr" "t5 = advance r2 t"
    by (auto simp: read_host_iff)
  from rest obtain port r3 where "r2 = port @ r3" "length port = 2" "d = host @ '':'' @ show_nat (be_value port)" "t1 = advance r3 t"
    using addr(4) by (auto dest!: s_readD)
  with addr r show ?R by (intro exI[of _ addr] exI[of _ port] exI[of _ r3]) simp
next
  assume ?R
  then obtain addr port rest where addr: "address_ok addr" "length port = 2" "unread t = [5, 1, 0] @ address_bytes addr @ port @ rest"
    "d = address_text addr @ '':'' @ show_nat (be_value port)" "t1 = advance rest t" by blast
  obtain a r where ar: "address_bytes addr = a # r" by (cases addr) auto
  then have "read_host a (advance (r @ port @ rest) t) = (Inr (address_text addr), advance (port @ rest) t)"
    using addr(1) by (auto simp: read_host_iff intro!: exI[of _ addr] exI[of _ "port @ rest"])
  with addr ar show ?L by (simp add: read_request_def SOCKS_VERSION_def CONNECT_def)
qed

section \<open>Properties\<close>

text \<open>
  C23: The SOCKS5 handshake accepts exactly the well-formed CONNECT requests. It succeeds if and only
  if the client offers the method without authentication and then sends a CONNECT request for an
  IPv4 address, a non-empty UTF-8 domain or an IPv6 address with a port; the destination is that
  address and port as text, exactly the bytes of the request are consumed, so nothing of
  the following data is lost, and exactly the choice of the method has been answered.
\<close>

theorem socks5_handshake_iff:
  "handshake t = (Inr destination, t') \<longleftrightarrow>
     (\<exists>methods addr port rest. 0 \<in> set methods \<and> length methods \<le> 255 \<and> address_ok addr \<and> length port = 2
        \<and> src_bytes (tcp_in t) = [5, of_nat (length methods)] @ methods @ [5, 1, 0] @ address_bytes addr @ port @ rest
        \<and> 2 \<le> snk_room (tcp_out t)
        \<and> destination = address_text addr @ '':'' @ show_nat (be_value port)
        \<and> t' = emit [5, 0] (advance rest t))"
  (is "?L \<longleftrightarrow> ?R")
proof
  assume ?L
  then obtain u t1 where "negotiate t = (Inr u, t1)" "read_request t1 = (Inr destination, t')"
    by (auto simp: handshake_def split: prod.splits sum.splits)
  then obtain n methods r where r: "unread t = 5 # n # methods @ r" "length methods = unat n" "0 \<in> set methods"
      "2 \<le> snk_room (tcp_out t)" "t1 = emit [5, 0] (advance r t)"
    and req: "read_request (emit [5, 0] (advance r t)) = (Inr destination, t')"
    unfolding negotiate_iff by blast
  from req obtain addr port rest where "address_ok addr" "length port = 2" "r = [5, 1, 0] @ address_bytes addr @ port @ rest"
    "destination = address_text addr @ '':'' @ show_nat (be_value port)" "t' = emit [5, 0] (advance rest t)"
    unfolding read_request_iff by auto
  note n = r(1,3,4) this
  have "n = of_nat (length methods)" "length methods \<le> 255" using r(2) unsigned_less[of n, where ?'a = nat] by simp_all
  with n show ?R by (intro exI[of _ methods] exI[of _ addr] exI[of _ port] exI[of _ rest]) simp
next
  assume ?R
  then obtain methods addr port rest where m: "0 \<in> set methods" "length methods \<le> 255" "address_ok addr" "length port = 2"
    "unread t = [5, of_nat (length methods)] @ methods @ [5, 1, 0] @ address_bytes addr @ port @ rest" "2 \<le> snk_room (tcp_out t)"
    "destination = address_text addr @ '':'' @ show_nat (be_value port)" "t' = emit [5, 0] (advance rest t)" by blast
  let ?rest = "[5, 1, 0] @ address_bytes addr @ port @ rest"
  have len: "unat (of_nat (length methods) :: u8) = length methods" using m(2) by (simp add: unsigned_of_nat take_bit_nat_eq_self_iff)
  moreover from this m(1) have "(of_nat (length methods) :: u8) \<noteq> 0" by (cases methods) auto
  ultimately have "negotiate t = (Inr (), emit [5, 0] (advance ?rest t))"
    unfolding negotiate_iff using m(1,5,6)
    by (intro exI[of _ "of_nat (length methods)"] exI[of _ methods] exI[of _ ?rest]) simp
  moreover have "read_request (emit [5, 0] (advance ?rest t)) = (Inr destination, t')"
    unfolding read_request_iff using m(3,4,7,8) by (intro exI[of _ addr] exI[of _ port] exI[of _ rest]) simp
  ultimately show ?L by (simp add: handshake_def)
qed




section \<open>The accept loop\<close>

text \<open>Permits are conserved: those in use and those available are what the loop started with.\<close>

definition stream_inv :: "ServerTunnelConfig \<Rightarrow> ResourceBudget \<Rightarrow> stream_state \<Rightarrow> bool" where
  "stream_inv config b s =
     (sl_permits s + sl_connections s = t_max_connections config
      \<and> data_streams (sl_budget s) + sl_connections s = data_streams b
      \<and> udp_sessions (sl_budget s) = udp_sessions b \<and> queued_udp_bytes (sl_budget s) = queued_udp_bytes b)"

lemma stream_step_inv: "stream_inv config b s \<Longrightarrow> stream_inv config b (stream_step ev s)"
  by (auto simp: stream_inv_def stream_step_def sem_try_acquire_def sem_release_def try_data_stream_def
      split: stream_event.splits option.splits if_splits)

lemma stream_run_inv: "stream_inv config b (stream_run evs (stream_start config b))"
proof -
  have "stream_inv config b s \<Longrightarrow> stream_inv config b (fold stream_step evs s)" for s
    by (induction evs arbitrary: s) (auto intro: stream_step_inv)
  then show ?thesis by (simp add: stream_run_def stream_inv_def stream_start_def)
qed

lemma stream_run_bounded:
  "sl_connections (stream_run evs (stream_start config b)) \<le> min (t_max_connections config) (data_streams b)"
  using stream_run_inv[of config b evs] by (simp add: stream_inv_def)

end
