(* ===== verification/Udp_Listener.thy ===== *)
theory Udp_Listener
  imports Public_Stream "HOL-Library.Sublist"
begin

text \<open>
  \<open>gaterust-tunnel/src/server/udp.rs\<close>: the receive loop of a UDP tunnel and its sessions, one per
  public peer. A session task and the loop share a bounded queue and the permits of the server-wide
  budget, so the model interleaves the loop's turns with the steps of the tasks: taking a datagram
  from the queue, having written it, answering the peer, and ending. A task that ends gives its
  permits back at once; its entry stays in the map until the loop joins the task.
\<close>

section \<open>State\<close>

definition SESSION_QUEUE :: nat where "SESSION_QUEUE = 8"

text \<open>The queue, the datagram the task is writing, and whether the task is running.\<close>

record udp_session =
  us_queue :: "bytes list"
  us_hand :: "bytes option"
  us_live :: bool

record udp_listener =
  ul_sessions :: "(SocketAddr, udp_session) hm"
  ul_budget :: ResourceBudget
  ul_written :: "(SocketAddr \<times> bytes) list"
  ul_replied :: "(SocketAddr \<times> bytes) list"

definition udp_start :: "ResourceBudget \<Rightarrow> udp_listener" where
  "udp_start b = \<lparr>ul_sessions = [], ul_budget = b, ul_written = [], ul_replied = []\<rparr>"

datatype udp_turn =
    UdpReceived SocketAddr bytes
  | UdpTake SocketAddr
  | UdpWritten SocketAddr
  | UdpReply SocketAddr bytes
  | UdpEnd SocketAddr
  | UdpJoined SocketAddr

section \<open>The receive loop\<close>

definition queued_datagram :: "bytes \<Rightarrow> ResourceBudget \<Rightarrow> ResourceBudget option" where
  "queued_datagram payload budget = try_queue_udp_bytes (length payload) budget"

text \<open>A datagram of a peer with a session: dropped when the queue is full or closed, or the bytes are used up.\<close>

definition enqueue :: "SocketAddr \<Rightarrow> udp_session \<Rightarrow> bytes \<Rightarrow> udp_listener \<Rightarrow> udp_listener" where
  "enqueue peer session payload s =
     (if \<not> us_live session \<or> SESSION_QUEUE \<le> length (us_queue session) then s
      else case queued_datagram payload (ul_budget s) of
             None \<Rightarrow> s
           | Some budget \<Rightarrow>
               s\<lparr>ul_budget := budget,
                 ul_sessions := hm_insert peer (session\<lparr>us_queue := us_queue session @ [payload]\<rparr>) (ul_sessions s)\<rparr>)"

text \<open>The first datagram of a peer; each early exit drops the permits taken before.\<close>

definition open_session :: "ServerTunnelConfig \<Rightarrow> SocketAddr \<Rightarrow> bytes \<Rightarrow> udp_listener \<Rightarrow> udp_listener" where
  "open_session config peer payload s =
     (if t_max_udp_sessions config \<le> length (ul_sessions s) then s
      else case try_data_stream (ul_budget s) of
             None \<Rightarrow> s
           | Some b1 \<Rightarrow>
               (case try_udp_session b1 of
                  None \<Rightarrow> s\<lparr>ul_budget := budget_drop StreamPermit b1\<rparr>
                | Some b2 \<Rightarrow>
                    (case queued_datagram payload b2 of
                       None \<Rightarrow> s\<lparr>ul_budget := budget_drop StreamPermit (budget_drop SessionPermit b2)\<rparr>
                     | Some b3 \<Rightarrow>
                         s\<lparr>ul_budget := b3,
                           ul_sessions := hm_insert peer \<lparr>us_queue = [payload], us_hand = None, us_live = True\<rparr> (ul_sessions s)\<rparr>)))"

definition udp_receive :: "ServerTunnelConfig \<Rightarrow> SocketAddr \<Rightarrow> bytes \<Rightarrow> udp_listener \<Rightarrow> udp_listener" where
  "udp_receive config peer payload s =
     (case hm_get (ul_sessions s) peer of
        Some session \<Rightarrow> enqueue peer session payload s
      | None \<Rightarrow> open_session config peer payload s)"

section \<open>The session tasks\<close>

definition held :: "udp_session \<Rightarrow> bytes list" where
  "held session = (case us_hand session of None \<Rightarrow> [] | Some x \<Rightarrow> [x]) @ us_queue session"

definition held_bytes :: "udp_session \<Rightarrow> nat" where
  "held_bytes session = sum_list (map length (held session))"

text \<open>The end of a task: the receiver drops what is queued, and the task its two permits.\<close>

definition end_budget :: "udp_session \<Rightarrow> ResourceBudget \<Rightarrow> ResourceBudget" where
  "end_budget session b =
     (if us_live session
      then budget_drop StreamPermit (budget_drop SessionPermit (budget_drop (BytesPermit (held_bytes session)) b))
      else b)"

definition udp_task :: "SocketAddr \<Rightarrow> (udp_session \<Rightarrow> udp_listener \<Rightarrow> udp_listener) \<Rightarrow> udp_listener \<Rightarrow> udp_listener" where
  "udp_task peer f s =
     (case hm_get (ul_sessions s) peer of
        None \<Rightarrow> s
      | Some session \<Rightarrow> if us_live session then f session s else s)"

text \<open>
  \<open>relay_session\<close>: a datagram is taken from the queue, passes the rate limiter and is written; its
  permit lives as long as the datagram.
\<close>

definition udp_step_listener :: "ServerTunnelConfig \<Rightarrow> udp_turn \<Rightarrow> udp_listener \<Rightarrow> udp_listener" where
  "udp_step_listener config ev s =
     (case ev of
        UdpReceived peer payload \<Rightarrow> udp_receive config peer payload s
      | UdpTake peer \<Rightarrow>
          udp_task peer (\<lambda>session s.
            case (us_hand session, us_queue session) of
              (None, x # q) \<Rightarrow> s\<lparr>ul_sessions := hm_insert peer (session\<lparr>us_queue := q, us_hand := Some x\<rparr>) (ul_sessions s)\<rparr>
            | _ \<Rightarrow> s) s
      | UdpWritten peer \<Rightarrow>
          udp_task peer (\<lambda>session s.
            case us_hand session of
              None \<Rightarrow> s
            | Some x \<Rightarrow>
                s\<lparr>ul_sessions := hm_insert peer (session\<lparr>us_hand := None\<rparr>) (ul_sessions s),
                  ul_budget := budget_drop (BytesPermit (length x)) (ul_budget s),
                  ul_written := ul_written s @ [(peer, x)]\<rparr>) s
      | UdpReply peer x \<Rightarrow> udp_task peer (\<lambda>session s. s\<lparr>ul_replied := ul_replied s @ [(peer, x)]\<rparr>) s
      | UdpEnd peer \<Rightarrow>
          udp_task peer (\<lambda>session s.
            s\<lparr>ul_sessions := hm_insert peer \<lparr>us_queue = [], us_hand = None, us_live = False\<rparr> (ul_sessions s),
              ul_budget := end_budget session (ul_budget s)\<rparr>) s
      | UdpJoined peer \<Rightarrow>
          (case hm_get (ul_sessions s) peer of
             None \<Rightarrow> s
           | Some session \<Rightarrow> if us_live session then s else s\<lparr>ul_sessions := hm_remove peer (ul_sessions s)\<rparr>))"

definition udp_run :: "ServerTunnelConfig \<Rightarrow> udp_turn list \<Rightarrow> udp_listener \<Rightarrow> udp_listener" where
  "udp_run config evs s = fold (udp_step_listener config) evs s"

text \<open>After the loop: the map is cleared and every task is aborted and joined.\<close>

definition udp_stop :: "udp_listener \<Rightarrow> udp_listener" where
  "udp_stop s = s\<lparr>ul_sessions := [], ul_budget := fold (\<lambda>(_, session) b. end_budget session b) (ul_sessions s) (ul_budget s)\<rparr>"

text \<open>
  \<open>run_session\<close> and the opening of \<open>relay_session\<close>: the tunnel's client is asked for a stream.
  \<open>Inr True\<close> means that the relay loop starts.
\<close>

definition open_relay :: "open_io \<Rightarrow> ServerTunnelConfig \<Rightarrow> (TunnelError, unit) res \<times> OpenRequest option" where
  "open_relay io config =
     (case oi_open io of
        Inl e \<Rightarrow> (Inl e, None)
      | Inr _ \<Rightarrow>
          (case oi_write io of
             Inl e \<Rightarrow> (Inl e, None)
           | Inr _ \<Rightarrow>
               (let req = Some \<lparr>or_service = t_name config, or_destination = None\<rparr> in
                case oi_response io of
                  Inl e \<Rightarrow> (Inl e, req)
                | Inr response \<Rightarrow>
                    (if os_accepted response then Inr () else Inl (Protocol (''the UDP target refused: '' @ os_message response)), req))))"

definition run_session ::
  "bool \<Rightarrow> open_io \<Rightarrow> ServerTunnelConfig \<Rightarrow> TunnelRuntime \<Rightarrow> (TunnelError, bool) res \<times> (Connection \<times> OpenRequest) option" where
  "run_session cancelled io config rt =
     (case find_tunnel rt (t_name config) of
        None \<Rightarrow> (Inl (Protocol ''no client is available''), None)
      | Some session \<Rightarrow>
          if cancelled then (Inr False, None)
          else (case open_relay io config of
                  (r, req) \<Rightarrow> (case r of Inl e \<Rightarrow> Inl e | Inr _ \<Rightarrow> Inr True, map_option (Pair (cl_connection session)) req)))"

text \<open>
  One turn of the relay loop: the steps it makes on the shared state and, when it ends, its result.
  A turn is the idle timeout, a datagram for the client with the outcome of writing it, one from the
  client with the outcome of sending it to the peer, or the end of the queue.
\<close>

datatype relay_event =
    RelayIdle
  | RelayInbound "(TunnelError, unit) res"
  | RelayOutbound "(TunnelError, bytes) res" "(io_error, unit) res"
  | RelayClosed

definition relay_turn :: "SocketAddr \<Rightarrow> relay_event \<Rightarrow> udp_turn list \<times> (TunnelError, unit) res option" where
  "relay_turn peer ev =
     (case ev of
        RelayIdle \<Rightarrow> ([UdpEnd peer], Some (Inl (Timeout ''the UDP session is idle'')))
      | RelayInbound (Inr _) \<Rightarrow> ([UdpTake peer, UdpWritten peer], None)
      | RelayInbound (Inl e) \<Rightarrow> ([UdpTake peer, UdpEnd peer], Some (Inl e))
      | RelayOutbound (Inl e) _ \<Rightarrow> ([UdpEnd peer], Some (Inl e))
      | RelayOutbound (Inr x) (Inr _) \<Rightarrow> ([UdpReply peer x], None)
      | RelayOutbound (Inr x) (Inl e) \<Rightarrow> ([UdpEnd peer], Some (Inl (Io e)))
      | RelayClosed \<Rightarrow> ([UdpEnd peer], Some (Inr ())))"

section \<open>Accounting\<close>

definition live_weight :: "udp_session \<Rightarrow> nat" where
  "live_weight v = (if us_live v then 1 else 0)"

definition live_sessions :: "udp_listener \<Rightarrow> nat" where
  "live_sessions s = hm_sum live_weight (ul_sessions s)"

definition queued_bytes :: "udp_listener \<Rightarrow> nat" where
  "queued_bytes s = hm_sum held_bytes (ul_sessions s)"

definition session_ok :: "udp_session \<Rightarrow> bool" where
  "session_ok v = (length (us_queue v) \<le> SESSION_QUEUE \<and> (\<not> us_live v \<longrightarrow> held v = []))"

definition accounted :: "ServerTunnelConfig \<Rightarrow> ResourceBudget \<Rightarrow> udp_listener \<Rightarrow> bool" where
  "accounted config b s =
     (hm_wf (ul_sessions s) \<and> length (ul_sessions s) \<le> t_max_udp_sessions config
      \<and> (\<forall>p v. hm_get (ul_sessions s) p = Some v \<longrightarrow> session_ok v)
      \<and> data_streams (ul_budget s) + live_sessions s = data_streams b
      \<and> udp_sessions (ul_budget s) + live_sessions s = udp_sessions b
      \<and> queued_udp_bytes (ul_budget s) + queued_bytes s = queued_udp_bytes b)"

text \<open>Replacing the session of a peer, with the budget moved by the difference.\<close>

lemma accounted_replace:
  assumes "accounted config b s" "hm_get (ul_sessions s) p = Some v" "session_ok v'"
    and "ul_sessions s' = hm_insert p v' (ul_sessions s)"
    and "data_streams (ul_budget s') + live_weight v' = data_streams (ul_budget s) + live_weight v"
    and "udp_sessions (ul_budget s') + live_weight v' = udp_sessions (ul_budget s) + live_weight v"
    and "queued_udp_bytes (ul_budget s') + held_bytes v' = queued_udp_bytes (ul_budget s) + held_bytes v"
  shows "accounted config b s'"
proof -
  have wf: "hm_wf (ul_sessions s)" using assms(1) by (simp add: accounted_def)
  have len: "length (ul_sessions s') = length (ul_sessions s)" using hm.size_insert[OF wf, of p v'] assms(2,4) by simp
  have "live_sessions s' + live_weight v = live_sessions s + live_weight v'"
    "queued_bytes s' + held_bytes v = queued_bytes s + held_bytes v'"
    using hm_sum_insert[OF wf, of _ p v'] assms(2,4) by (simp_all add: live_sessions_def queued_bytes_def)
  moreover have "\<forall>q w. hm_get (ul_sessions s') q = Some w \<longrightarrow> session_ok w"
    using assms(1,3,4) by (auto simp: accounted_def hm_simps)
  ultimately show ?thesis using assms wf len unfolding accounted_def by auto
qed

lemma accounted_open:
  assumes "accounted config b s" "hm_get (ul_sessions s) p = None" "session_ok v'" "us_live v'"
    and "length (ul_sessions s) < t_max_udp_sessions config"
    and "ul_sessions s' = hm_insert p v' (ul_sessions s)"
    and "data_streams (ul_budget s') + 1 = data_streams (ul_budget s)" "udp_sessions (ul_budget s') + 1 = udp_sessions (ul_budget s)"
    and "queued_udp_bytes (ul_budget s') + held_bytes v' = queued_udp_bytes (ul_budget s)"
  shows "accounted config b s'"
proof -
  have wf: "hm_wf (ul_sessions s)" using assms(1) by (simp add: accounted_def)
  have len: "length (ul_sessions s') = Suc (length (ul_sessions s))" using hm.size_insert[OF wf, of p v'] assms(2,6) by simp
  have "live_sessions s' = live_sessions s + 1" "queued_bytes s' = queued_bytes s + held_bytes v'"
    using hm_sum_insert[OF wf, of live_weight p v'] hm_sum_insert[OF wf, of held_bytes p v'] assms(2,4,6)
    by (simp_all add: live_sessions_def queued_bytes_def live_weight_def)
  moreover have "\<forall>q w. hm_get (ul_sessions s') q = Some w \<longrightarrow> session_ok w"
    using assms(1,3,6) by (auto simp: accounted_def hm_simps)
  ultimately show ?thesis using assms wf len unfolding accounted_def by auto
qed

lemma accounted_same:
  assumes "accounted config b s" "ul_sessions s' = ul_sessions s" "ul_budget s' = ul_budget s"
  shows "accounted config b s'"
  using assms by (simp add: accounted_def live_sessions_def queued_bytes_def)

lemma get_session_ok: "accounted config b s \<Longrightarrow> hm_get (ul_sessions s) p = Some v \<Longrightarrow> session_ok v"
  by (auto simp: accounted_def)

lemmas budget_simps = try_data_stream_def try_udp_session_def try_queue_udp_bytes_def sem_try_acquire_def sem_release_def
  queued_datagram_def

lemma udp_receive_accounted:
  assumes acc: "accounted config b s"
  shows "accounted config b (udp_receive config p x s)"
proof (cases "hm_get (ul_sessions s) p")
  case None
  show ?thesis
  proof (cases "ul_sessions (open_session config p x s) = ul_sessions s")
    case True
    then have "ul_budget (open_session config p x s) = ul_budget s \<or>
        ul_sessions (open_session config p x s) = hm_insert p \<lparr>us_queue = [x], us_hand = None, us_live = True\<rparr> (ul_sessions s)"
      by (auto simp: open_session_def budget_simps split: option.splits if_splits)
    then have "ul_budget (open_session config p x s) = ul_budget s"
      using True None hm_get_insert[of p "\<lparr>us_queue = [x], us_hand = None, us_live = True\<rparr>" "ul_sessions s" p] by auto
    with True None show ?thesis by (auto simp: udp_receive_def intro!: accounted_same[OF acc])
  next
    case False
    let ?v = "\<lparr>us_queue = [x], us_hand = None, us_live = True\<rparr>"
    have "accounted config b (open_session config p x s)"
    proof (rule accounted_open[OF acc None, of ?v])
      show "session_ok ?v" by (simp add: session_ok_def SESSION_QUEUE_def)
    qed (use False in \<open>auto simp: open_session_def budget_simps held_bytes_def held_def split: option.splits if_splits\<close>)
    with None show ?thesis by (simp add: udp_receive_def)
  qed
next
  case (Some v)
  show ?thesis
  proof (cases "\<not> us_live v \<or> SESSION_QUEUE \<le> length (us_queue v) \<or> queued_datagram x (ul_budget s) = None")
    case True
    with Some acc show ?thesis by (auto simp: udp_receive_def enqueue_def)
  next
    case False
    then obtain budget where bu: "queued_datagram x (ul_budget s) = Some budget" by auto
    have "accounted config b (enqueue p v x s)"
    proof (rule accounted_replace[OF acc Some, of "v\<lparr>us_queue := us_queue v @ [x]\<rparr>"])
      show "session_ok (v\<lparr>us_queue := us_queue v @ [x]\<rparr>)" using False by (simp add: session_ok_def)
    qed (use False bu in \<open>auto simp: enqueue_def budget_simps held_bytes_def held_def live_weight_def split: if_splits\<close>)
    with Some show ?thesis by (simp add: udp_receive_def)
  qed
qed


text \<open>The effect of the tasks' steps on the session of the peer.\<close>

lemma udp_step_cases:
  assumes "\<And>p x. ev \<noteq> UdpReceived p x"
  obtains (same) "ul_sessions (udp_step_listener config ev s) = ul_sessions s" "ul_budget (udp_step_listener config ev s) = ul_budget s"
      "ul_written (udp_step_listener config ev s) = ul_written s"
  | (take) p v x q where "hm_get (ul_sessions s) p = Some v" "us_live v" "us_hand v = None" "us_queue v = x # q"
      "udp_step_listener config ev s = s\<lparr>ul_sessions := hm_insert p (v\<lparr>us_queue := q, us_hand := Some x\<rparr>) (ul_sessions s)\<rparr>"
  | (written) p v x where "hm_get (ul_sessions s) p = Some v" "us_live v" "us_hand v = Some x"
      "udp_step_listener config ev s = s\<lparr>ul_sessions := hm_insert p (v\<lparr>us_hand := None\<rparr>) (ul_sessions s),
         ul_budget := budget_drop (BytesPermit (length x)) (ul_budget s), ul_written := ul_written s @ [(p, x)]\<rparr>"
  | (ended) p v where "hm_get (ul_sessions s) p = Some v" "us_live v"
      "udp_step_listener config ev s = s\<lparr>ul_sessions := hm_insert p \<lparr>us_queue = [], us_hand = None, us_live = False\<rparr> (ul_sessions s),
         ul_budget := end_budget v (ul_budget s)\<rparr>"
  | (joined) p v where "hm_get (ul_sessions s) p = Some v" "\<not> us_live v"
      "udp_step_listener config ev s = s\<lparr>ul_sessions := hm_remove p (ul_sessions s)\<rparr>"
proof (cases ev)
  case (UdpTake p)
  show ?thesis
  proof (cases "\<exists>v x q. hm_get (ul_sessions s) p = Some v \<and> us_live v \<and> us_hand v = None \<and> us_queue v = x # q")
    case True
    then obtain v x q where v: "hm_get (ul_sessions s) p = Some v" "us_live v" "us_hand v = None" "us_queue v = x # q" by blast
    then show ?thesis by (intro take[OF v]) (simp add: UdpTake udp_step_listener_def udp_task_def)
  next
    case False
    then have "udp_step_listener config ev s = s"
      using UdpTake by (auto simp: udp_step_listener_def udp_task_def split: option.splits list.splits)
    then show ?thesis by (intro same) simp_all
  qed
next
  case (UdpWritten p)
  show ?thesis
  proof (cases "\<exists>v x. hm_get (ul_sessions s) p = Some v \<and> us_live v \<and> us_hand v = Some x")
    case True
    then obtain v x where v: "hm_get (ul_sessions s) p = Some v" "us_live v" "us_hand v = Some x" by blast
    then show ?thesis by (intro written[OF v]) (simp add: UdpWritten udp_step_listener_def udp_task_def)
  next
    case False
    then have "udp_step_listener config ev s = s"
      using UdpWritten by (auto simp: udp_step_listener_def udp_task_def split: option.splits)
    then show ?thesis by (intro same) simp_all
  qed
next
  case (UdpEnd p)
  show ?thesis
  proof (cases "\<exists>v. hm_get (ul_sessions s) p = Some v \<and> us_live v")
    case True
    then obtain v where v: "hm_get (ul_sessions s) p = Some v" "us_live v" by blast
    then show ?thesis by (intro ended[OF v]) (simp add: UdpEnd udp_step_listener_def udp_task_def)
  next
    case False
    then have "udp_step_listener config ev s = s"
      using UdpEnd by (auto simp: udp_step_listener_def udp_task_def split: option.splits)
    then show ?thesis by (intro same) simp_all
  qed
next
  case (UdpJoined p)
  show ?thesis
  proof (cases "\<exists>v. hm_get (ul_sessions s) p = Some v \<and> \<not> us_live v")
    case True
    then obtain v where v: "hm_get (ul_sessions s) p = Some v" "\<not> us_live v" by blast
    then show ?thesis by (intro joined[OF v]) (simp add: UdpJoined udp_step_listener_def)
  next
    case False
    then have "udp_step_listener config ev s = s"
      using UdpJoined by (auto simp: udp_step_listener_def udp_task_def split: option.splits)
    then show ?thesis by (intro same) simp_all
  qed
qed (use assms same in \<open>auto simp: udp_step_listener_def udp_task_def split: option.splits\<close>)

lemma udp_step_accounted:
  assumes acc: "accounted config b s"
  shows "accounted config b (udp_step_listener config ev s)"
proof (cases "\<exists>p x. ev = UdpReceived p x")
  case True
  with udp_receive_accounted[OF acc] show ?thesis by (auto simp: udp_step_listener_def)
next
  case False
  then have ne: "\<And>p x. ev \<noteq> UdpReceived p x" by blast
  show ?thesis
  proof (cases rule: udp_step_cases[OF ne, where config = config and s = s, case_names same take written ended joined])
    case same
    then show ?thesis by (intro accounted_same[OF acc])
  next
    case (take p v x q)
    show ?thesis by (rule accounted_replace[OF acc take(1), of "v\<lparr>us_queue := q, us_hand := Some x\<rparr>"])
        (use take get_session_ok[OF acc take(1)] in \<open>auto simp: session_ok_def live_weight_def held_bytes_def held_def\<close>)
  next
    case (written p v x)
    show ?thesis by (rule accounted_replace[OF acc written(1), of "v\<lparr>us_hand := None\<rparr>"])
        (use written get_session_ok[OF acc written(1)] in \<open>auto simp: session_ok_def live_weight_def held_bytes_def held_def sem_release_def\<close>)
  next
    case (ended p v)
    show ?thesis by (rule accounted_replace[OF acc ended(1), of "\<lparr>us_queue = [], us_hand = None, us_live = False\<rparr>"])
        (use ended in \<open>auto simp: session_ok_def live_weight_def held_bytes_def held_def sem_release_def end_budget_def\<close>)
  next
    case (joined p v)
    have wf: "hm_wf (ul_sessions s)" using acc by (simp add: accounted_def)
    have h: "held v = []" using get_session_ok[OF acc joined(1)] joined(2) by (simp add: session_ok_def)
    have "hm_sum live_weight (hm_remove p (ul_sessions s)) = live_sessions s" "hm_sum held_bytes (hm_remove p (ul_sessions s)) = queued_bytes s"
      using hm_sum_remove[OF wf, of live_weight p] hm_sum_remove[OF wf, of held_bytes p] joined(1,2) h
      by (simp_all add: live_sessions_def queued_bytes_def live_weight_def held_bytes_def)
    moreover have "length (hm_remove p (ul_sessions s)) \<le> t_max_udp_sessions config"
      using acc hm_length_remove_le[of p "ul_sessions s"] by (simp add: accounted_def)
    ultimately show ?thesis using acc wf
      by (auto simp: joined(3) accounted_def live_sessions_def queued_bytes_def hm_simps)
  qed
qed

lemma udp_start_accounted: "accounted config b (udp_start b)"
  by (simp add: accounted_def udp_start_def live_sessions_def queued_bytes_def)

lemma fold_end_budget:
  "data_streams (fold (\<lambda>(_, v) b. end_budget v b) m b) = data_streams b + hm_sum live_weight m"
  "udp_sessions (fold (\<lambda>(_, v) b. end_budget v b) m b) = udp_sessions b + hm_sum live_weight m"
  "(\<forall>v \<in> snd ` set m. us_live v \<or> held v = []) \<Longrightarrow>
     queued_udp_bytes (fold (\<lambda>(_, v) b. end_budget v b) m b) = queued_udp_bytes b + hm_sum held_bytes m"
  by (induction m arbitrary: b) (auto simp: end_budget_def live_weight_def held_bytes_def sem_release_def)

lemma udp_stop_budget:
  assumes acc: "accounted config b s"
  shows "ul_budget (udp_stop s) = b"
proof -
  have "\<forall>v \<in> snd ` set (ul_sessions s). us_live v \<or> held v = []"
  proof
    fix v assume "v \<in> snd ` set (ul_sessions s)"
    then obtain p where "(p, v) \<in> set (ul_sessions s)" by auto
    then have "hm_get (ul_sessions s) p = Some v" using acc by (simp add: accounted_def hm_in_set_iff)
    from get_session_ok[OF acc this] show "us_live v \<or> held v = []" by (auto simp: session_ok_def)
  qed
  with acc show ?thesis
    by (simp add: udp_stop_def accounted_def live_sessions_def queued_bytes_def ResourceBudget.equality fold_end_budget)
qed

section \<open>Order\<close>

definition of_peer :: "SocketAddr \<Rightarrow> (SocketAddr \<times> bytes) list \<Rightarrow> bytes list" where
  "of_peer p xs = map snd (filter (\<lambda>(q, _). q = p) xs)"

definition received_from :: "SocketAddr \<Rightarrow> udp_turn list \<Rightarrow> bytes list" where
  "received_from p evs = List.map_filter (\<lambda>ev. case ev of UdpReceived q x \<Rightarrow> if q = p then Some x else None | _ \<Rightarrow> None) evs"

definition waiting :: "SocketAddr \<Rightarrow> udp_listener \<Rightarrow> bytes list" where
  "waiting p s = (case hm_get (ul_sessions s) p of None \<Rightarrow> [] | Some v \<Rightarrow> held v)"

definition in_order :: "SocketAddr \<Rightarrow> bytes list \<Rightarrow> udp_listener \<Rightarrow> bool" where
  "in_order p xs s = subseq (of_peer p (ul_written s) @ waiting p s) xs"


lemma subseq_right: "subseq xs ys \<Longrightarrow> subseq xs (ys @ zs)"
  by (rule subseq_order.order_trans) auto

lemma udp_receive_waiting:
  "ul_written (udp_receive config p x s) = ul_written s"
  "waiting q (udp_receive config p x s) = waiting q s \<or> q = p \<and> waiting q (udp_receive config p x s) = waiting q s @ [x]"
proof -
  show "ul_written (udp_receive config p x s) = ul_written s"
    by (auto simp: udp_receive_def enqueue_def open_session_def split: option.splits)
  show "waiting q (udp_receive config p x s) = waiting q s \<or> q = p \<and> waiting q (udp_receive config p x s) = waiting q s @ [x]"
  proof (cases "hm_get (ul_sessions s) p")
    case None
    then show ?thesis by (auto simp: udp_receive_def open_session_def waiting_def held_def hm_simps split: option.splits)
  next
    case (Some v)
    then show ?thesis by (auto simp: udp_receive_def enqueue_def waiting_def held_def hm_simps split: option.splits)
  qed
qed

lemma udp_step_in_order:
  assumes "in_order q xs s"
  shows "in_order q (xs @ received_from q [ev]) (udp_step_listener config ev s)"
proof (cases "\<exists>p x. ev = UdpReceived p x")
  case True
  then obtain p x where ev: "ev = UdpReceived p x" by blast
  note w = udp_receive_waiting[where config = config and p = p and x = x and s = s]
  from w(2)[where q = q] show ?thesis
  proof
    assume "waiting q (udp_receive config p x s) = waiting q s"
    with assms w(1) show ?thesis by (simp add: in_order_def ev udp_step_listener_def subseq_right)
  next
    assume a: "q = p \<and> waiting q (udp_receive config p x s) = waiting q s @ [x]"
    have "subseq ((of_peer q (ul_written s) @ waiting q s) @ [x]) (xs @ [x])"
      using assms by (intro list_emb_append_mono) (simp_all add: in_order_def)
    with a w(1) show ?thesis by (auto simp: in_order_def ev udp_step_listener_def received_from_def List.map_filter_def)
  qed
next
  case False
  then have ne: "\<And>p x. ev \<noteq> UdpReceived p x" by blast
  have no: "received_from q [ev] = []" using ne by (cases ev) (auto simp: received_from_def List.map_filter_def)
  have "subseq (of_peer q (ul_written (udp_step_listener config ev s)) @ waiting q (udp_step_listener config ev s))
      (of_peer q (ul_written s) @ waiting q s)"
  proof (cases rule: udp_step_cases[OF ne, where config = config and s = s, case_names same take written ended joined])
    case same
    then show ?thesis by (simp add: waiting_def)
  next
    case (take p v x qs)
    then show ?thesis by (simp add: take(5) waiting_def hm_simps held_def)
  next
    case (written p v x)
    then show ?thesis by (simp add: written(4) waiting_def hm_simps held_def of_peer_def)
  next
    case (ended p v)
    then show ?thesis by (simp add: ended(3) waiting_def hm_simps held_def subseq_right)
  next
    case (joined p v)
    then show ?thesis by (simp add: joined(3) waiting_def hm_simps subseq_right)
  qed
  with assms no show ?thesis by (auto simp: in_order_def intro: subseq_order.order_trans)
qed

lemma udp_run_inv:
  "accounted config b s \<Longrightarrow> accounted config b (udp_run config evs s)"
  "in_order q xs s \<Longrightarrow> in_order q (xs @ received_from q evs) (udp_run config evs s)"
proof -
  show "accounted config b s \<Longrightarrow> accounted config b (udp_run config evs s)"
    by (induction evs arbitrary: s) (auto simp: udp_run_def intro: udp_step_accounted)
  have r: "received_from q (ev # evs) = received_from q [ev] @ received_from q evs" for ev evs
    by (simp add: received_from_def List.map_filter_def)
  show "in_order q xs s \<Longrightarrow> in_order q (xs @ received_from q evs) (udp_run config evs s)"
  proof (induction evs arbitrary: s xs)
    case (Cons ev evs)
    from Cons.IH[OF udp_step_in_order[OF Cons.prems]] show ?case by (simp add: udp_run_def r[of ev evs])
  qed (simp add: udp_run_def received_from_def List.map_filter_def)
qed

section \<open>Properties\<close>

text \<open>
  C22: A UDP tunnel keeps within its limits and loses no permit. Whatever datagrams arrive and however
  the session tasks interleave with the loop: there are at most as many sessions as configured and
  at most eight datagrams queued per session; the permits in use and those left are what
  the tunnel started with, for streams, sessions and queued bytes alike; the datagrams written for a
  peer are a subsequence of those received from it, in order; and stopping the
  listener gives every permit back.
\<close>

theorem udp_listener_accounting:
  "let s = udp_run config evs (udp_start b) in
    length (ul_sessions s) \<le> t_max_udp_sessions config
    \<and> list_all (\<lambda>v. length (us_queue v) \<le> 8) (hm_values (ul_sessions s))
    \<and> data_streams (ul_budget s) + live_sessions s = data_streams b
    \<and> udp_sessions (ul_budget s) + live_sessions s = udp_sessions b
    \<and> queued_udp_bytes (ul_budget s) + queued_bytes s = queued_udp_bytes b
    \<and> (\<forall>p. subseq (of_peer p (ul_written s)) (received_from p evs))
    \<and> ul_budget (udp_stop s) = b"
proof -
  define s where "s = udp_run config evs (udp_start b)"
  have acc: "accounted config b s" unfolding s_def by (rule udp_run_inv(1)[OF udp_start_accounted])
  have "in_order p [] (udp_start b)" for p by (simp add: in_order_def udp_start_def waiting_def of_peer_def)
  from udp_run_inv(2)[OF this, where config = config and evs = evs] have ord: "in_order p (received_from p evs) s" for p by (simp add: s_def)
  have "subseq (of_peer p (ul_written s)) (received_from p evs)" for p
    using ord[of p] unfolding in_order_def by (rule subseq_order.order_trans[rotated]) (rule subseq_right, simp)
  moreover have "list_all (\<lambda>v. length (us_queue v) \<le> 8) (hm_values (ul_sessions s))"
  proof (unfold list_all_iff, rule ballI)
    fix v assume "v \<in> set (hm_values (ul_sessions s))"
    then obtain p where "(p, v) \<in> set (ul_sessions s)" by (auto simp: hm_values_def)
    then have "hm_get (ul_sessions s) p = Some v" using acc by (simp add: accounted_def hm_in_set_iff)
    from get_session_ok[OF acc this] show "length (us_queue v) \<le> 8" by (simp add: session_ok_def SESSION_QUEUE_def)
  qed
  ultimately show ?thesis using acc udp_stop_budget[OF acc] by (simp add: accounted_def s_def[symmetric])
qed

text \<open>
  An entry whose task has ended swallows every datagram of its peer until the task is joined. The
  loop removes the entry only for a task that returned; one that panicked is joined without its
  peer's address, so its entry stays for as long as the listener runs.
\<close>

lemma ended_session_drops:
  "hm_get (ul_sessions s) p = Some v \<Longrightarrow> \<not> us_live v \<Longrightarrow> udp_step_listener config (UdpReceived p x) s = s"
  by (simp add: udp_step_listener_def udp_receive_def enqueue_def)

end
