(* ===== verification/Rate_Limit.thy ===== *)
theory Rate_Limit
  imports Tunnel_Base
begin

text \<open>
  \<open>gaterust-tunnel/src/rate_limit.rs\<close> and \<open>relay.rs\<close>: the virtual-clock rate limiter shared by
  the connections of a tunnel, and the one-way copy loop that charges it.

  An \<open>Instant\<close> is the number of nanoseconds since the earliest instant the clock can represent
  (on Unix a signed 64-bit second count and a nanosecond part), a \<open>Duration\<close> a number of
  nanoseconds. The mutex of \<open>Limited\<close> makes reservations atomic, so a concurrent execution is
  some sequence of \<open>reserve\<close> calls; the caller's clock reading happens before the lock, so
  the readings along that sequence need not be monotone.
\<close>

section \<open>The limiter\<close>

type_synonym instant = nat
type_synonym duration = nat

definition instant_max :: instant where
  "instant_max = 2 ^ 64 * 1000000000 - 1"

text \<open>\<open>Instant + Duration\<close> panics on overflow (\<open>None\<close>); \<open>checked_sub\<close> returns \<open>None\<close>.\<close>

definition instant_add :: "instant \<Rightarrow> duration \<Rightarrow> instant option" where
  "instant_add t d = (if t + d \<le> instant_max then Some (t + d) else None)"

definition instant_checked_sub :: "instant \<Rightarrow> duration \<Rightarrow> instant option" where
  "instant_checked_sub t d = (if d \<le> t then Some (t - d) else None)"

definition saturating_duration_since :: "instant \<Rightarrow> instant \<Rightarrow> duration" where
  "saturating_duration_since t s = t - s"

definition div_ceil :: "nat \<Rightarrow> nat \<Rightarrow> nat" where
  "div_ceil a b = (if a mod b > 0 then a div b + 1 else a div b)"

record Limited =
  bytes_per_second :: u64
  next_at :: instant
  burst :: duration

record RateLimiter =
  inner :: "Limited option"

definition rate_limiter_new :: "u64 option \<Rightarrow> instant \<Rightarrow> RateLimiter" where
  "rate_limiter_new rate now =
     \<lparr>inner = map_option (\<lambda>r. \<lparr>bytes_per_second = r, next_at = now, burst = 100 * 1000000\<rparr>) rate\<rparr>"

definition reserve_cost :: "Limited \<Rightarrow> nat \<Rightarrow> duration" where
  "reserve_cost l n =
     (let b = min n (2 ^ 64 - 1);
          nanos = div_ceil (b * 1000000000) (unat (bytes_per_second l))
      in min nanos (2 ^ 64 - 1))"

definition reserve :: "Limited \<Rightarrow> nat \<Rightarrow> instant \<Rightarrow> (duration \<times> Limited) option" where
  "reserve l n now =
     (case instant_add (max (next_at l) now) (reserve_cost l n) of
        None \<Rightarrow> None
      | Some t \<Rightarrow>
          Some (saturating_duration_since
                  (case instant_checked_sub t (burst l) of None \<Rightarrow> now | Some u \<Rightarrow> u) now,
                l\<lparr>next_at := t\<rparr>))"

text \<open>\<open>acquire\<close>: how long the caller sleeps, and the limiter afterwards.\<close>

definition acquire :: "RateLimiter \<Rightarrow> nat \<Rightarrow> instant \<Rightarrow> (duration \<times> RateLimiter) option" where
  "acquire rl n now =
     (case inner rl of
        None \<Rightarrow> Some (0, rl)
      | Some l \<Rightarrow> map_option (\<lambda>(d, l'). (d, rl\<lparr>inner := Some l'\<rparr>)) (reserve l n now))"

text \<open>A sequence of reservations, each with its size and the caller's clock reading.\<close>

fun reserve_run :: "Limited \<Rightarrow> (nat \<times> instant) list \<Rightarrow> (duration list \<times> Limited) option" where
  "reserve_run l [] = Some ([], l)"
| "reserve_run l ((n, now) # reqs) =
     (case reserve l n now of
        None \<Rightarrow> None
      | Some (d, l') \<Rightarrow> map_option (\<lambda>(ds, l''). (d # ds, l'')) (reserve_run l' reqs))"

section \<open>The copy loop\<close>

definition BUFFER_SIZE :: nat where
  "BUFFER_SIZE = 16 * 1024"

text \<open>
  What the environment answers to one round of \<open>copy_one_way\<close>: the result of the read, the
  clock at the reservation, and the result of \<open>write_all\<close> (or of \<open>shutdown\<close> at end of file). A
  failing \<open>write_all\<close> may have written any prefix of the chunk.
\<close>

datatype write_outcome = WriteOk | WriteErr io_error nat

record copy_round =
  read_result :: "(io_error, bytes) res"
  clock :: instant
  write_result :: write_outcome

datatype copy_state = Copying | Finished | Failed TunnelError | Panicked

record copy_progress =
  written :: bytes
  charged :: nat
  limiter :: RateLimiter
  status :: copy_state

definition copy_step :: "copy_progress \<Rightarrow> copy_round \<Rightarrow> copy_progress" where
  "copy_step p r =
     (case read_result r of
        Inl e \<Rightarrow> p\<lparr>status := Failed (Io e)\<rparr>
      | Inr chunk \<Rightarrow>
          if chunk = [] then
            (case write_result r of
               WriteOk \<Rightarrow> p\<lparr>status := Finished\<rparr>
             | WriteErr e _ \<Rightarrow> p\<lparr>status := Failed (Io e)\<rparr>)
          else
            (case acquire (limiter p) (length chunk) (clock r) of
               None \<Rightarrow> p\<lparr>status := Panicked\<rparr>
             | Some (_, rl) \<Rightarrow>
                 (let q = p\<lparr>limiter := rl, charged := charged p + length chunk\<rparr>
                  in case write_result r of
                       WriteOk \<Rightarrow> q\<lparr>written := written p @ chunk\<rparr>
                     | WriteErr e n \<Rightarrow>
                         q\<lparr>written := written p @ take n chunk, status := Failed (Io e)\<rparr>)))"

fun copy_one_way :: "copy_progress \<Rightarrow> copy_round list \<Rightarrow> copy_progress" where
  "copy_one_way p [] = p"
| "copy_one_way p (r # rs) =
     (if status p = Copying then copy_one_way (copy_step p r) rs else p)"

definition copy_start :: "RateLimiter \<Rightarrow> copy_progress" where
  "copy_start rl = \<lparr>written = [], charged = 0, limiter = rl, status = Copying\<rparr>"

text \<open>The bytes the reader delivered before its first error.\<close>

fun delivered :: "copy_round list \<Rightarrow> bytes" where
  "delivered [] = []"
| "delivered (r # rs) =
     (case read_result r of Inl _ \<Rightarrow> [] | Inr chunk \<Rightarrow> if chunk = [] then [] else chunk @ delivered rs)"

section \<open>Lemmas on one reservation\<close>

lemma div_ceil_ge: "b > 0 \<Longrightarrow> a \<le> div_ceil a b * b"
proof -
  assume b: "b > 0"
  have a: "a = a div b * b + a mod b" by simp
  show ?thesis
  proof (cases "a mod b > 0")
    case True
    have "a \<le> a div b * b + b" using a b mod_less_divisor[OF b, of a] by linarith
    then show ?thesis using True unfolding div_ceil_def by simp
  next
    case False
    then show ?thesis using a unfolding div_ceil_def by simp
  qed
qed

lemma reserve_Some_iff:
  "reserve l n now = Some (d, l') \<longleftrightarrow>
     max (next_at l) now + reserve_cost l n \<le> instant_max
     \<and> l' = l\<lparr>next_at := max (next_at l) now + reserve_cost l n\<rparr>
     \<and> d = max (next_at l) now + reserve_cost l n - burst l - now"
  by (auto simp: reserve_def instant_add_def instant_checked_sub_def saturating_duration_since_def)

lemma reserve_keeps:
  "reserve l n now = Some (d, l') \<Longrightarrow> bytes_per_second l' = bytes_per_second l"
  "reserve l n now = Some (d, l') \<Longrightarrow> burst l' = burst l"
  by (auto simp: reserve_Some_iff)

lemma reserve_cost_cong: "bytes_per_second l' = bytes_per_second l \<Longrightarrow> reserve_cost l' n = reserve_cost l n"
  by (simp add: reserve_cost_def)

definition unclamped :: "Limited \<Rightarrow> nat \<Rightarrow> bool" where
  "unclamped l n = (n < 2 ^ 64 \<and> n * 1000000000 \<le> (2 ^ 64 - 1) * unat (bytes_per_second l))"

lemma reserve_cost_covers:
  assumes "bytes_per_second l \<noteq> 0" "unclamped l n"
  shows "n * 1000000000 \<le> reserve_cost l n * unat (bytes_per_second l)"
proof -
  let ?r = "unat (bytes_per_second l)"
  have r: "?r > 0" using assms(1) by (simp add: unat_gt_0)
  have n: "min n (2 ^ 64 - 1) = n" using assms(2) by (simp add: unclamped_def)
  show ?thesis
  proof (cases "div_ceil (n * 1000000000) ?r \<le> 2 ^ 64 - 1")
    case True
    then have "reserve_cost l n = div_ceil (n * 1000000000) ?r"
      by (simp only: reserve_cost_def n Let_def min_absorb1)
    then show ?thesis using div_ceil_ge[OF r] by simp
  next
    case False
    then have "reserve_cost l n = 2 ^ 64 - 1"
      by (simp only: reserve_cost_def n Let_def min_absorb2 nat_le_linear)
    then show ?thesis using assms(2) by (simp only: unclamped_def)
  qed
qed

lemma reserve_cost_bound: "reserve_cost l n \<le> 2 ^ 64 - 1"
  unfolding reserve_cost_def Let_def by (rule min.cobounded2)

lemma add_below_limit: "a \<le> i - m \<Longrightarrow> m \<le> i \<Longrightarrow> c \<le> m \<Longrightarrow> a + c \<le> i" for a c i m :: nat
  by simp

text \<open>No reservation panics while the clock and the virtual clock stay 585 years below the end of the representable time.\<close>

lemma reserve_total:
  assumes "next_at l \<le> instant_max - (2 ^ 64 - 1)" "now \<le> instant_max - (2 ^ 64 - 1)"
  shows "\<exists>d l'. reserve l n now = Some (d, l')"
proof -
  have "max (next_at l) now \<le> instant_max - (2 ^ 64 - 1)" using assms by simp
  moreover have "2 ^ 64 - 1 \<le> instant_max" by (simp add: instant_max_def)
  ultimately have "max (next_at l) now + reserve_cost l n \<le> instant_max"
    using reserve_cost_bound[of l n] by (rule add_below_limit)
  then show ?thesis by (simp add: reserve_Some_iff)
qed

section \<open>Runs of reservations\<close>

lemma reserve_run_keeps:
  "reserve_run l reqs = Some (ds, l') \<Longrightarrow>
     bytes_per_second l' = bytes_per_second l \<and> burst l' = burst l \<and> length ds = length reqs"
proof (induction l reqs arbitrary: ds rule: reserve_run.induct)
  case (2 l n now reqs)
  then obtain d l1 ds1 where r: "reserve l n now = Some (d, l1)"
    and rest: "reserve_run l1 reqs = Some (ds1, l')" and ds: "ds = d # ds1"
    by (auto split: option.splits)
  from "2.IH"[OF r refl rest] ds reserve_keeps[OF r] show ?case by simp
qed simp

lemma reserve_run_advances:
  assumes "reserve_run l reqs = Some (ds, l')"
  shows "next_at l + (\<Sum>(n, now) \<leftarrow> reqs. reserve_cost l n) \<le> next_at l'"
  using assms
proof (induction l reqs arbitrary: ds rule: reserve_run.induct)
  case (2 l n now reqs)
  from "2.prems" obtain d l1 ds1 where r: "reserve l n now = Some (d, l1)"
    and rest: "reserve_run l1 reqs = Some (ds1, l')"
    by (auto split: option.splits)
  have "(\<Sum>(n, now) \<leftarrow> reqs. reserve_cost l1 n) = (\<Sum>(n, now) \<leftarrow> reqs. reserve_cost l n)"
    using reserve_keeps[OF r] by (simp add: reserve_cost_cong[of l1 l])
  moreover have "next_at l + reserve_cost l n \<le> next_at l1"
    using r by (auto simp: reserve_Some_iff)
  moreover have "next_at l1 + (\<Sum>(n, now) \<leftarrow> reqs. reserve_cost l1 n) \<le> next_at l'"
    by (rule "2.IH"[OF r refl rest])
  ultimately show ?case by simp
qed simp

lemma reserve_run_last:
  assumes "reserve_run l reqs = Some (ds, l')" "reqs \<noteq> []"
  shows "next_at l' \<le> snd (last reqs) + last ds + burst l"
  using assms
proof (induction l reqs arbitrary: ds rule: reserve_run.induct)
  case (2 l n now reqs)
  from "2.prems"(1) obtain d l1 ds1 where r: "reserve l n now = Some (d, l1)"
    and rest: "reserve_run l1 reqs = Some (ds1, l')" and ds: "ds = d # ds1"
    by (auto split: option.splits)
  show ?case
  proof (cases reqs)
    case Nil
    with rest ds r show ?thesis by (auto simp: reserve_Some_iff)
  next
    case (Cons q qs)
    with rest have "ds1 \<noteq> []" using reserve_run_keeps[OF rest] by auto
    with "2.IH"[OF r refl rest] Cons ds reserve_keeps[OF r] show ?thesis by simp
  qed
qed simp

lemma covered_sum:
  assumes "bytes_per_second l \<noteq> 0" "\<forall>(n, now) \<in> set reqs. unclamped l n"
  shows "(\<Sum>(n, now) \<leftarrow> reqs. n) * 1000000000
         \<le> (\<Sum>(n, now) \<leftarrow> reqs. reserve_cost l n) * unat (bytes_per_second l)"
  using assms(2)
proof (induction reqs)
  case (Cons q reqs)
  then show ?case
    using reserve_cost_covers[OF assms(1)] by (fastforce simp: algebra_simps)
qed simp

section \<open>Lemmas on the copy loop\<close>

lemma copy_one_way_stopped [simp]: "status p \<noteq> Copying \<Longrightarrow> copy_one_way p rs = p"
  by (cases rs) simp_all

lemma copy_step_Copying:
  assumes "status p = Copying" "status (copy_step p r) = Copying"
  obtains chunk where "read_result r = Inr chunk" "chunk \<noteq> []"
    "written (copy_step p r) = written p @ chunk"
    "charged (copy_step p r) = charged p + length chunk"
  using assms
  by (auto simp: copy_step_def Let_def split: sum.splits if_splits write_outcome.splits option.splits)

lemma copy_step_Finished:
  assumes "status p = Copying" "status (copy_step p r) = Finished"
  shows "read_result r = Inr []" "written (copy_step p r) = written p"
    "charged (copy_step p r) = charged p"
  using assms
  by (auto simp: copy_step_def Let_def split: sum.splits if_splits write_outcome.splits option.splits)

lemma copy_step_written:
  "\<exists>n. written (copy_step p r) = written p @ take n (case read_result r of Inl _ \<Rightarrow> [] | Inr c \<Rightarrow> c)"
proof (cases "read_result r")
  case (Inr chunk)
  have "\<exists>n. chunk = take n chunk" by (rule exI[of _ "length chunk"]) simp
  with Inr show ?thesis
    by (auto simp: copy_step_def Let_def split: option.split write_outcome.split)
qed (simp add: copy_step_def)

text \<open>What has been written is a prefix of what was read, and a copy that finished wrote all of it.\<close>

lemma copy_one_way_prefix:
  "status p = Copying \<Longrightarrow> \<exists>n. written (copy_one_way p rs) = written p @ take n (delivered rs)"
proof (induction rs arbitrary: p)
  case (Cons r rs)
  show ?case
  proof (cases "status (copy_step p r) = Copying")
    case True
    with Cons.prems obtain chunk where c: "read_result r = Inr chunk" "chunk \<noteq> []"
      "written (copy_step p r) = written p @ chunk" by (rule copy_step_Copying)
    from Cons.IH[OF True] obtain n where
      "written (copy_one_way (copy_step p r) rs) = written p @ chunk @ take n (delivered rs)"
      using c by auto
    then have "written (copy_one_way p (r # rs)) = written p @ take (length chunk + n) (delivered (r # rs))"
      using c Cons.prems by simp
    then show ?thesis by blast
  next
    case False
    obtain n where n: "written (copy_step p r)
        = written p @ take n (case read_result r of Inl _ \<Rightarrow> [] | Inr c \<Rightarrow> c)"
      using copy_step_written by blast
    then have "written (copy_step p r) = written p @ take (min n (length (case read_result r of Inl _ \<Rightarrow> [] | Inr c \<Rightarrow> c)))
        (delivered (r # rs))"
      by (auto simp: min_def split: sum.splits)
    with False Cons.prems show ?thesis by auto
  qed
qed simp

lemma copy_one_way_finished:
  "status p = Copying \<Longrightarrow> status (copy_one_way p rs) = Finished \<Longrightarrow>
     written (copy_one_way p rs) = written p @ delivered rs
     \<and> charged (copy_one_way p rs) = charged p + length (delivered rs)"
proof (induction rs arbitrary: p)
  case (Cons r rs)
  show ?case
  proof (cases "status (copy_step p r) = Copying")
    case True
    with Cons.prems(1) obtain chunk where "read_result r = Inr chunk" "chunk \<noteq> []"
      "written (copy_step p r) = written p @ chunk"
      "charged (copy_step p r) = charged p + length chunk" by (rule copy_step_Copying)
    with Cons.IH[OF True] Cons.prems show ?thesis by simp
  next
    case False
    with Cons.prems have "status (copy_step p r) = Finished" by simp
    from copy_step_Finished[OF Cons.prems(1) this] False Cons.prems show ?thesis by simp
  qed
qed simp

section \<open>Properties\<close>



text \<open>
  A reservation never panics while the clocks are 585 years below the end of time, and its
  delay is exactly the backlog plus the cost of the request beyond the burst; a limiter that
  was idle for a while (virtual clock not ahead) lets a request within the burst pass at once.
\<close>

theorem reserve_delay_exact:
  assumes "next_at l \<le> instant_max - (2 ^ 64 - 1)" "now \<le> instant_max - (2 ^ 64 - 1)"
  shows "\<exists>l'. reserve l n now = Some ((next_at l - now) + reserve_cost l n - burst l, l')
           \<and> next_at l' = max (next_at l) now + reserve_cost l n"
proof -
  obtain d l' where r: "reserve l n now = Some (d, l')" using reserve_total[OF assms] by blast
  then have "d = max (next_at l) now + reserve_cost l n - burst l - now"
    and l': "next_at l' = max (next_at l) now + reserve_cost l n"
    by (auto simp: reserve_Some_iff)
  then have "d = (next_at l - now) + reserve_cost l n - burst l" by (simp add: max_def add.commute)
  with r l' show ?thesis by auto
qed

theorem reserve_delay_exact_witness:
  "\<exists>l'. reserve \<lparr>bytes_per_second = 1000, next_at = 200000000, burst = 100000000\<rparr> 50 50000000
          = Some (100000000, l') \<and> next_at l' = 250000000"
  using reserve_delay_exact[of "\<lparr>bytes_per_second = 1000, next_at = 200000000, burst = 100000000\<rparr>" 50000000 50]
  by (simp add: instant_max_def reserve_cost_def div_ceil_def)

text \<open>
  The one-way relay loop. At every moment the bytes handed to the writer are a prefix of the
  bytes read, in order; when the loop returns \<open>Ok\<close> it has written every byte delivered before
  the end of file, and the limiter was charged for exactly that many bytes.
\<close>

theorem copy_one_way_faithful:
  "(\<exists>n. written (copy_one_way (copy_start rl) rs) = take n (delivered rs))
   \<and> (status (copy_one_way (copy_start rl) rs) = Finished \<longrightarrow>
        written (copy_one_way (copy_start rl) rs) = delivered rs
        \<and> charged (copy_one_way (copy_start rl) rs) = length (delivered rs))"
  using copy_one_way_prefix[of "copy_start rl" rs] copy_one_way_finished[of "copy_start rl" rs]
  by (simp add: copy_start_def)

theorem copy_one_way_faithful_witness:
  "written (copy_one_way (copy_start \<lparr>inner = None\<rparr>)
     [\<lparr>read_result = Inr [1, 2], clock = 0, write_result = WriteOk\<rparr>,
      \<lparr>read_result = Inr [3], clock = 0, write_result = WriteOk\<rparr>,
      \<lparr>read_result = Inr [], clock = 0, write_result = WriteOk\<rparr>]) = [1, 2, 3]"
  using copy_one_way_faithful[of "\<lparr>inner = None\<rparr>"
     "[\<lparr>read_result = Inr [1, 2], clock = 0, write_result = WriteOk\<rparr>,
      \<lparr>read_result = Inr [3], clock = 0, write_result = WriteOk\<rparr>,
      \<lparr>read_result = Inr [], clock = 0, write_result = WriteOk\<rparr>]"]
  by (simp add: copy_start_def copy_step_def acquire_def)

end
