(* ===== verification/Relay.thy ===== *)
theory Relay
  imports Rate_Limit
begin

text \<open>
  \<open>gaterust-tunnel/src/relay.rs\<close>, \<open>copy_bidirectional\<close>: the two copy loops of a relayed stream,
  run together by \<open>try_join!\<close> over clones of one limiter.
\<close>

section \<open>The two directions\<close>

datatype direction = LeftToRight | RightToLeft

record relay_state =
  left_to_right :: copy_progress
  right_to_left :: copy_progress

primrec progress_of :: "direction \<Rightarrow> relay_state \<Rightarrow> copy_progress" where
  "progress_of LeftToRight s = left_to_right s"
| "progress_of RightToLeft s = right_to_left s"

text \<open>A cloned limiter is the same limiter, so what one direction reserves the other one sees.\<close>

primrec store_progress :: "direction \<Rightarrow> copy_progress \<Rightarrow> relay_state \<Rightarrow> relay_state" where
  "store_progress LeftToRight p s = \<lparr>left_to_right = p, right_to_left = (right_to_left s)\<lparr>limiter := limiter p\<rparr>\<rparr>"
| "store_progress RightToLeft p s = \<lparr>left_to_right = (left_to_right s)\<lparr>limiter := limiter p\<rparr>, right_to_left = p\<rparr>"

definition relay_start :: "RateLimiter \<Rightarrow> relay_state" where
  "relay_start rl = \<lparr>left_to_right = copy_start rl, right_to_left = copy_start rl\<rparr>"

text \<open>\<open>try_join!\<close> ends with the first error, and otherwise when both loops have returned.\<close>

definition broken :: "copy_state \<Rightarrow> bool" where
  "broken st \<longleftrightarrow> st \<noteq> Copying \<and> st \<noteq> Finished"

definition joined :: "relay_state \<Rightarrow> bool" where
  "joined s \<longleftrightarrow> broken (status (left_to_right s)) \<or> broken (status (right_to_left s))
     \<or> status (left_to_right s) = Finished \<and> status (right_to_left s) = Finished"

fun copy_bidirectional :: "relay_state \<Rightarrow> (direction \<times> copy_round) list \<Rightarrow> relay_state" where
  "copy_bidirectional s [] = s"
| "copy_bidirectional s ((d, r) # rounds) =
     (if joined s then s
      else if status (progress_of d s) \<noteq> Copying then copy_bidirectional s rounds
      else copy_bidirectional (store_progress d (copy_step (progress_of d s) r) s) rounds)"

definition rounds_of :: "direction \<Rightarrow> (direction \<times> copy_round) list \<Rightarrow> copy_round list" where
  "rounds_of d rounds = map snd (filter (\<lambda>(d', r). d' = d) rounds)"

section \<open>Lemmas\<close>

lemma rounds_of_simps [simp]:
  "rounds_of d [] = []"
  "rounds_of d ((d', r) # rounds) = (if d' = d then r # rounds_of d rounds else rounds_of d rounds)"
  by (simp_all add: rounds_of_def)

lemma store_progress_same [simp]: "progress_of d (store_progress d p s) = p"
  by (cases d) simp_all

lemma store_progress_other [simp]:
  assumes "d' \<noteq> d"
  shows "written (progress_of d (store_progress d' p s)) = written (progress_of d s)"
    "charged (progress_of d (store_progress d' p s)) = charged (progress_of d s)"
    "status (progress_of d (store_progress d' p s)) = status (progress_of d s)"
  using assms by (cases d; cases d'; simp)+

lemma relay_direction_stopped:
  "status (progress_of d s) \<noteq> Copying \<Longrightarrow>
     written (progress_of d (copy_bidirectional s rounds)) = written (progress_of d s)
     \<and> charged (progress_of d (copy_bidirectional s rounds)) = charged (progress_of d s)
     \<and> status (progress_of d (copy_bidirectional s rounds)) = status (progress_of d s)"
proof (induction s rounds rule: copy_bidirectional.induct)
  case (2 s d' r rounds)
  show ?case
  proof (cases "d' = d")
    case True
    with 2 show ?thesis by simp
  next
    case False
    with 2 show ?thesis by simp
  qed
qed simp

lemma relay_direction_prefix:
  "status (progress_of d s) = Copying \<Longrightarrow>
     \<exists>n. written (progress_of d (copy_bidirectional s rounds)) = written (progress_of d s) @ take n (delivered (rounds_of d rounds))"
proof (induction s rounds rule: copy_bidirectional.induct)
  case (2 s d' r rounds)
  let ?p = "copy_step (progress_of d s) r"
  consider "joined s" | "\<not> joined s" "d' \<noteq> d" | "\<not> joined s" "d' = d" by blast
  then show ?case
  proof cases
    case 1
    then show ?thesis by (auto intro: exI[of _ 0])
  next
    case 2
    with "2.IH" "2.prems" show ?thesis by (cases "status (progress_of d' s) = Copying") simp_all
  next
    case 3
    show ?thesis
    proof (cases "status ?p = Copying")
      case True
      with "2.prems" obtain chunk where c: "read_result r = Inr chunk" "chunk \<noteq> []"
        "written ?p = written (progress_of d s) @ chunk" by (rule copy_step_Copying)
      from "2.IH"(2)[OF 3(1)] 3 True "2.prems" obtain n where
        "written (progress_of d (copy_bidirectional (store_progress d ?p s) rounds))
           = written ?p @ take n (delivered (rounds_of d rounds))" by auto
      with 3 c "2.prems" show ?thesis by (auto intro: exI[of _ "length chunk + n"])
    next
      case False
      obtain n where n: "written ?p = written (progress_of d s) @ take n (case read_result r of Inl _ \<Rightarrow> [] | Inr c \<Rightarrow> c)"
        using copy_step_written by blast
      then have "written ?p = written (progress_of d s)
          @ take (min n (length (case read_result r of Inl _ \<Rightarrow> [] | Inr c \<Rightarrow> c))) (delivered (r # rounds_of d rounds))"
        by (auto simp: min_def split: sum.splits)
      with relay_direction_stopped[of d "store_progress d ?p s" rounds] False 3 "2.prems" show ?thesis by auto
    qed
  qed
qed (auto intro: exI[of _ 0])

lemma relay_direction_finished:
  "status (progress_of d s) = Copying \<Longrightarrow> status (progress_of d (copy_bidirectional s rounds)) = Finished \<Longrightarrow>
     written (progress_of d (copy_bidirectional s rounds)) = written (progress_of d s) @ delivered (rounds_of d rounds)
     \<and> charged (progress_of d (copy_bidirectional s rounds)) = charged (progress_of d s) + length (delivered (rounds_of d rounds))"
proof (induction s rounds rule: copy_bidirectional.induct)
  case (2 s d' r rounds)
  let ?p = "copy_step (progress_of d s) r"
  have run: "\<not> joined s" using "2.prems" by (cases "joined s") simp_all
  show ?case
  proof (cases "d' = d")
    case False
    with run "2.IH" "2.prems" show ?thesis by (cases "status (progress_of d' s) = Copying") simp_all
  next
    case d: True
    show ?thesis
    proof (cases "status ?p = Copying")
      case True
      with "2.prems"(1) obtain chunk where "read_result r = Inr chunk" "chunk \<noteq> []"
        "written ?p = written (progress_of d s) @ chunk" "charged ?p = charged (progress_of d s) + length chunk"
        by (rule copy_step_Copying)
      with "2.IH"(2)[OF run] d True "2.prems" run show ?thesis by simp
    next
      case False
      with d run "2.prems" relay_direction_stopped[of d "store_progress d ?p s" rounds]
      have "status ?p = Finished" by simp
      from copy_step_Finished[OF "2.prems"(1) this] relay_direction_stopped[of d "store_progress d ?p s" rounds] False d run "2.prems"
      show ?thesis by simp
    qed
  qed
qed simp

text \<open>
  However the two directions interleave, each hands on a prefix of what its reader delivered, and
  when the relay returns \<open>Ok\<close>, both wrote everything and were charged for exactly that.
\<close>

theorem relay_faithful:
  defines "s rl rounds \<equiv> copy_bidirectional (relay_start rl) rounds"
  shows "(\<exists>n. written (progress_of d (s rl rounds)) = take n (delivered (rounds_of d rounds)))
     \<and> (status (progress_of d (s rl rounds)) = Finished \<longrightarrow>
          written (progress_of d (s rl rounds)) = delivered (rounds_of d rounds)
          \<and> charged (progress_of d (s rl rounds)) = length (delivered (rounds_of d rounds)))"
proof -
  have "progress_of d (relay_start rl) = copy_start rl" by (cases d) (simp_all add: relay_start_def)
  with relay_direction_prefix[of d "relay_start rl" rounds] relay_direction_finished[of d "relay_start rl" rounds]
  show ?thesis by (simp add: s_def copy_start_def)
qed

end
