(* ===== verification/Proxy_Config.thy ===== *)
theory Proxy_Config
  imports Hash_Map Std_Lib
begin

text \<open>
  \<open>gaterust-proxy/src/config.rs\<close> and \<open>error.rs\<close>: the configuration of the reverse proxy, its
  validation, the migration of the old format and loading. \<open>validate\<close> normalises the domains
  and route hosts in place; here it returns the normalised configuration. The parser of the
  \<open>http\<close> crate (\<open>Uri\<close>) and the TOML reader are parameters; of a \<open>Uri\<close> the model keeps the parts
  the code reads. Messages are ASCII renderings, since no code branches on them.
\<close>

section \<open>Errors\<close>

datatype ProxyError =
    ReadConfig path io_error
  | ParseConfig path
  | InvalidConfig string
  | Io io_error
  | Notify string
  | Http string
  | Json string
  | Tls string
  | Acme string
  | Dns string
  | Runtime string

section \<open>Data\<close>

record ProxyListenerConfig =
  http_bind :: SocketAddr
  https_bind :: SocketAddr
  cache_dir :: path
  pl_max_connections :: nat

datatype AcmeProvider = LetsEncrypt | GoogleCloud

datatype AcmeEnvironment = Production | Staging

datatype KeyAlgorithm = Ec256 | Rsa2048

record AcmeAccountConfig =
  aa_id :: string
  aa_name :: string
  aa_provider :: AcmeProvider
  aa_environment :: AcmeEnvironment
  aa_email :: string
  aa_key_algorithm :: KeyAlgorithm
  aa_eab_key_id :: "string option"
  aa_eab_hmac_key :: "string option"

datatype DnsProvider = Cloudflare | GoDaddy | Aliyun | TencentCloud

record DnsAccountConfig =
  da_id :: string
  da_name :: string
  da_provider :: DnsProvider
  da_api_token :: "string option"
  da_access_key :: "string option"
  da_secret_key :: "string option"

datatype CertificateValidation = DnsAccount string | Manual

record CertificateConfig =
  ce_id :: string
  ce_name :: string
  ce_domains :: "string list"
  ce_acme_account_id :: string
  ce_validation :: "CertificateValidation option"
  ce_auto_renew :: bool
  ce_migration_error :: "string option"

record RouteConfig =
  rc_name :: string
  rc_host :: string
  rc_path_prefix :: string
  rc_upstream :: string
  rc_certificate_id :: "string option"

record ProxyConfig =
  pc_proxy :: ProxyListenerConfig
  pc_acme_accounts :: "AcmeAccountConfig list"
  pc_dns_accounts :: "DnsAccountConfig list"
  pc_certificates :: "CertificateConfig list"
  pc_routes :: "RouteConfig list"

record Uri =
  u_scheme :: "string option"
  u_authority :: "string option"
  u_path :: string
  u_query :: "string option"

definition directory_url :: "AcmeAccountConfig \<Rightarrow> string" where
  "directory_url a =
     (case (aa_provider a, aa_environment a) of
        (LetsEncrypt, Production) \<Rightarrow> ''https://acme-v02.api.letsencrypt.org/directory''
      | (LetsEncrypt, Staging) \<Rightarrow> ''https://acme-staging-v02.api.letsencrypt.org/directory''
      | (GoogleCloud, Production) \<Rightarrow> ''https://dv.acme-v02.api.pki.goog/directory''
      | (GoogleCloud, Staging) \<Rightarrow> ''https://dv.acme-v02.test-api.pki.goog/directory'')"

section \<open>Domains\<close>

text \<open>\<open>str::split(c)\<close>\<close>

fun split_on :: "'a \<Rightarrow> 'a list \<Rightarrow> 'a list list" where
  "split_on c [] = [[]]"
| "split_on c (x # xs) =
     (if x = c then [] # split_on c xs
      else case split_on c xs of [] \<Rightarrow> [[x]] | l # ls \<Rightarrow> (x # l) # ls)"

definition wildcard_matches :: "string \<Rightarrow> string \<Rightarrow> bool" where
  "wildcard_matches host suffix =
     (case strip_suffix suffix host of
        None \<Rightarrow> False
      | Some prefix \<Rightarrow> ends_with prefix CHR ''.'' \<and> CHR ''.'' \<notin> set (butlast prefix))"

text \<open>\<open>Iterator::max_by_key\<close>: the last of several maximal elements.\<close>

definition max_by_key :: "('a \<Rightarrow> nat) \<Rightarrow> 'a list \<Rightarrow> 'a option" where
  "max_by_key f xs =
     fold (\<lambda>x best. case best of None \<Rightarrow> Some x | Some y \<Rightarrow> if f x \<ge> f y then Some x else Some y) xs None"

definition certificate_for_host :: "(string, string) hm \<Rightarrow> string \<Rightarrow> string option" where
  "certificate_for_host owners host =
     (case hm_get owners host of
        Some owner \<Rightarrow> Some owner
      | None \<Rightarrow>
          map_option snd (max_by_key fst
            (List.map_filter
               (\<lambda>(domain, owner).
                  case strip_prefix ''*.'' domain of
                    None \<Rightarrow> None
                  | Some suffix \<Rightarrow> if wildcard_matches host suffix then Some (length suffix, owner) else None)
               owners)))"

definition canon :: "string \<Rightarrow> string" where
  "canon v = to_ascii_lowercase (trim_end_matches CHR ''.'' (trim v))"

definition bad_label :: "string \<Rightarrow> bool" where
  "bad_label l =
     (l = [] \<or> length l > 63 \<or> take 1 l = ''-'' \<or> ends_with l CHR ''-''
      \<or> \<not> list_all (\<lambda>b. is_ascii_alphanumeric b \<or> b = CHR ''-'') l)"

definition plain_domain :: "string \<Rightarrow> string" where
  "plain_domain v = (case strip_prefix ''*.'' v of None \<Rightarrow> v | Some p \<Rightarrow> p)"

definition normalize_domain :: "string \<Rightarrow> (ProxyError, string) res" where
  "normalize_domain v =
     (let v = canon v; plain = plain_domain v
      in if plain = [] \<or> length plain > 253 \<or> CHR ''.'' \<notin> set plain
            \<or> list_ex bad_label (split_on CHR ''.'' plain)
         then Inl (InvalidConfig (''invalid domain: '' @ v)) else Inr v)"

definition normalize_route_host :: "string \<Rightarrow> (ProxyError, string) res" where
  "normalize_route_host v =
     (let v = canon v in if v = ''localhost'' then Inr v else normalize_domain v)"

section \<open>Fields\<close>

definition id_byte :: "char \<Rightarrow> bool" where
  "id_byte b = (is_ascii_alphanumeric b \<or> b = CHR ''-'' \<or> b = CHR ''_'' \<or> b = CHR ''.'')"

definition validate_id :: "string \<Rightarrow> string \<Rightarrow> (ProxyError, unit) res" where
  "validate_id kind i =
     reject_if (i = [] \<or> length i > 128 \<or> i = ''.'' \<or> i = ''..'' \<or> \<not> list_all id_byte i)
       (InvalidConfig (kind @ '' id must be 1..=128 ASCII letters, digits, -, _ or .''))"

definition validate_display_name :: "string \<Rightarrow> string \<Rightarrow> (ProxyError, unit) res" where
  "validate_display_name kind name =
     reject_if (trim name = [] \<or> length name > 128)
       (InvalidConfig (kind @ '' name must not be blank nor longer than 128 bytes''))"

definition insert_unique :: "'a set \<Rightarrow> string \<Rightarrow> 'a \<Rightarrow> (ProxyError, 'a set) res" where
  "insert_unique values kind v =
     (if v \<in> values then Inl (InvalidConfig (''duplicate '' @ kind)) else Inr (insert v values))"

definition validate_path_prefix :: "string \<Rightarrow> (ProxyError, unit) res" where
  "validate_path_prefix v =
     reject_if (take 1 v \<noteq> ''/'' \<or> CHR ''?'' \<in> set v \<or> CHR ''#'' \<in> set v)
       (InvalidConfig (''the path prefix must start with / and hold no query or fragment: '' @ v))"

definition validate_upstream :: "(string \<Rightarrow> Uri option) \<Rightarrow> string \<Rightarrow> (ProxyError, unit) res" where
  "validate_upstream parse_uri v =
     (case parse_uri v of
        None \<Rightarrow> Inl (InvalidConfig (''invalid upstream URI: '' @ v))
      | Some uri \<Rightarrow>
          if \<not> (u_scheme uri = Some ''http'' \<or> u_scheme uri = Some ''https'') \<or> u_authority uri = None
          then Inl (InvalidConfig (''the upstream URI needs http/https and an authority: '' @ v))
          else if u_query uri \<noteq> None
          then Inl (InvalidConfig (''the upstream URI must have no query: '' @ v))
          else Inr ())"

definition require_secret :: "string \<Rightarrow> string \<Rightarrow> string \<Rightarrow> string option \<Rightarrow> (ProxyError, unit) res" where
  "require_secret kind name fld v =
     reject_if (case v of None \<Rightarrow> True | Some s \<Rightarrow> s = [])
       (InvalidConfig (kind @ '' '' @ name @ '' must have '' @ fld))"

definition reject_secret :: "string \<Rightarrow> string \<Rightarrow> string \<Rightarrow> string option \<Rightarrow> (ProxyError, unit) res" where
  "reject_secret kind name fld v =
     reject_if (v \<noteq> None) (InvalidConfig (kind @ '' '' @ name @ '' must not have '' @ fld))"

section \<open>Accounts\<close>

definition acme_account_validate :: "AcmeAccountConfig \<Rightarrow> (ProxyError, unit) res" where
  "acme_account_validate a =
     (if aa_email a = [] \<or> length (aa_email a) > 254 \<or> CHR ''@'' \<notin> set (aa_email a)
      then Inl (InvalidConfig (''ACME account '' @ aa_name a @ '' has an invalid email''))
      else case aa_provider a of
        LetsEncrypt \<Rightarrow>
          res_bind (reject_secret ''ACME account'' (aa_name a) ''eab_key_id'' (aa_eab_key_id a)) (\<lambda>_.
          reject_secret ''ACME account'' (aa_name a) ''eab_hmac_key'' (aa_eab_hmac_key a))
      | GoogleCloud \<Rightarrow>
          res_bind (require_secret ''ACME account'' (aa_name a) ''eab_key_id'' (aa_eab_key_id a)) (\<lambda>_.
          require_secret ''ACME account'' (aa_name a) ''eab_hmac_key'' (aa_eab_hmac_key a)))"

definition dns_account_validate :: "DnsAccountConfig \<Rightarrow> (ProxyError, unit) res" where
  "dns_account_validate a =
     (if da_provider a = Cloudflare then
        res_bind (require_secret ''DNS account'' (da_name a) ''api_token'' (da_api_token a)) (\<lambda>_.
        res_bind (reject_secret ''DNS account'' (da_name a) ''access_key'' (da_access_key a)) (\<lambda>_.
        reject_secret ''DNS account'' (da_name a) ''secret_key'' (da_secret_key a)))
      else
        res_bind (reject_secret ''DNS account'' (da_name a) ''api_token'' (da_api_token a)) (\<lambda>_.
        res_bind (require_secret ''DNS account'' (da_name a) ''access_key'' (da_access_key a)) (\<lambda>_.
        require_secret ''DNS account'' (da_name a) ''secret_key'' (da_secret_key a))))"

text \<open>The bodies of the two account loops of \<open>ProxyConfig::validate\<close>; the state is the pair \<open>ids\<close>, \<open>names\<close>.\<close>

definition validate_acme_account ::
  "AcmeAccountConfig \<Rightarrow> string set \<times> string set \<Rightarrow> (ProxyError, string set \<times> string set) res" where
  "validate_acme_account a seen =
     res_bind (validate_id ''ACME account'' (aa_id a)) (\<lambda>_.
     res_bind (validate_display_name ''ACME account'' (aa_name a)) (\<lambda>_.
     res_bind (insert_unique (fst seen) ''ACME account id'' (aa_id a)) (\<lambda>ids.
     res_bind (insert_unique (snd seen) ''ACME account name'' (aa_name a)) (\<lambda>names.
     res_bind (acme_account_validate a) (\<lambda>_. Inr (ids, names))))))"

definition validate_dns_account ::
  "DnsAccountConfig \<Rightarrow> string set \<times> string set \<Rightarrow> (ProxyError, string set \<times> string set) res" where
  "validate_dns_account a seen =
     res_bind (validate_id ''DNS account'' (da_id a)) (\<lambda>_.
     res_bind (validate_display_name ''DNS account'' (da_name a)) (\<lambda>_.
     res_bind (insert_unique (fst seen) ''DNS account id'' (da_id a)) (\<lambda>ids.
     res_bind (insert_unique (snd seen) ''DNS account name'' (da_name a)) (\<lambda>names.
     res_bind (dns_account_validate a) (\<lambda>_. Inr (ids, names))))))"

section \<open>Certificates\<close>

definition validate_challenge :: "string set \<Rightarrow> CertificateConfig \<Rightarrow> (ProxyError, unit) res" where
  "validate_challenge dns_ids c =
     (case ce_validation c of
        Some (DnsAccount i) \<Rightarrow>
          reject_if (i \<notin> dns_ids) (InvalidConfig (''certificate '' @ ce_name c @ '' names an unknown DNS account''))
      | Some Manual \<Rightarrow>
          reject_if (ce_auto_renew c)
            (InvalidConfig (''certificate '' @ ce_name c @ '' cannot renew with manual records''))
      | None \<Rightarrow>
          reject_if (\<not> (ce_migration_error c \<noteq> None \<and> \<not> ce_auto_renew c))
            (InvalidConfig (''certificate '' @ ce_name c @ '' needs a validation method'')))"

text \<open>The loop over the domains of a certificate: \<open>own_domains\<close>, \<open>owners\<close> and the domains written so far.\<close>

type_synonym domain_scan = "string set \<times> (string, string) hm \<times> string list"

definition validate_domain :: "string \<Rightarrow> string \<Rightarrow> string \<Rightarrow> domain_scan \<Rightarrow> (ProxyError, domain_scan) res" where
  "validate_domain name i d st =
     (case st of (own, owners, out) \<Rightarrow>
        res_bind (normalize_domain d) (\<lambda>d.
          if d \<in> own then Inl (InvalidConfig (''certificate '' @ name @ '' repeats the domain '' @ d))
          else case hm_get owners d of
            Some owner \<Rightarrow> Inl (InvalidConfig (''domain '' @ d @ '' belongs to '' @ owner @ '' and '' @ i))
          | None \<Rightarrow> Inr (insert d own, hm_insert d i owners, out @ [d])))"

definition certificate_validate ::
  "string set \<Rightarrow> string set \<Rightarrow> CertificateConfig \<Rightarrow> (string, string) hm
     \<Rightarrow> (ProxyError, CertificateConfig \<times> (string, string) hm) res" where
  "certificate_validate acme_ids dns_ids c owners =
     (if ce_acme_account_id c \<notin> acme_ids
      then Inl (InvalidConfig (''certificate '' @ ce_name c @ '' names an unknown ACME account''))
      else res_bind (validate_challenge dns_ids c) (\<lambda>_.
        if ce_domains c = [] \<or> length (ce_domains c) > 100
        then Inl (InvalidConfig (''certificate '' @ ce_name c @ '' must have 1..=100 domains''))
        else res_bind (res_fold (validate_domain (ce_name c) (ce_id c)) (ce_domains c) ({}, owners, []))
               (\<lambda>(_, owners, out). Inr (c\<lparr>ce_domains := out\<rparr>, owners))))"

record certificate_scan =
  sc_ids :: "string set"
  sc_names :: "string set"
  sc_owners :: "(string, string) hm"
  sc_out :: "CertificateConfig list"

definition validate_certificate ::
  "string set \<Rightarrow> string set \<Rightarrow> CertificateConfig \<Rightarrow> certificate_scan \<Rightarrow> (ProxyError, certificate_scan) res" where
  "validate_certificate acme_ids dns_ids c st =
     res_bind (validate_id ''certificate'' (ce_id c)) (\<lambda>_.
     res_bind (validate_display_name ''certificate'' (ce_name c)) (\<lambda>_.
     res_bind (insert_unique (sc_ids st) ''certificate id'' (ce_id c)) (\<lambda>ids.
     res_bind (insert_unique (sc_names st) ''certificate name'' (ce_name c)) (\<lambda>names.
     res_bind (certificate_validate acme_ids dns_ids c (sc_owners st)) (\<lambda>(c, owners).
       Inr \<lparr>sc_ids = ids, sc_names = names, sc_owners = owners, sc_out = sc_out st @ [c]\<rparr>)))))"

section \<open>Routes and the whole configuration\<close>

record route_scan =
  rs_names :: "string set"
  rs_keys :: "(string \<times> string) set"
  rs_out :: "RouteConfig list"

definition validate_route_certificate ::
  "string set \<Rightarrow> (string, string) hm \<Rightarrow> RouteConfig \<Rightarrow> (ProxyError, unit) res" where
  "validate_route_certificate certificate_ids owners r =
     (case rc_certificate_id r of
        None \<Rightarrow> Inr ()
      | Some i \<Rightarrow>
          if i \<notin> certificate_ids
          then Inl (InvalidConfig (''route '' @ rc_name r @ '' names the unknown certificate '' @ i))
          else reject_if (certificate_for_host owners (rc_host r) \<noteq> Some i)
                 (InvalidConfig (''certificate '' @ i @ '' does not cover '' @ rc_host r)))"

definition validate_route ::
  "(string \<Rightarrow> Uri option) \<Rightarrow> string set \<Rightarrow> (string, string) hm \<Rightarrow> RouteConfig \<Rightarrow> route_scan
     \<Rightarrow> (ProxyError, route_scan) res" where
  "validate_route parse_uri certificate_ids owners r st =
     res_bind (validate_display_name ''route'' (rc_name r)) (\<lambda>_.
     res_bind (insert_unique (rs_names st) ''route name'' (rc_name r)) (\<lambda>names.
     res_bind (normalize_route_host (rc_host r)) (\<lambda>host. let r = r\<lparr>rc_host := host\<rparr> in
     res_bind (validate_path_prefix (rc_path_prefix r)) (\<lambda>_.
     res_bind (validate_upstream parse_uri (rc_upstream r)) (\<lambda>_.
     res_bind (insert_unique (rs_keys st) ''host and path prefix'' (rc_host r, rc_path_prefix r)) (\<lambda>keys.
     res_bind (validate_route_certificate certificate_ids owners r) (\<lambda>_.
       Inr \<lparr>rs_names = names, rs_keys = keys, rs_out = rs_out st @ [r]\<rparr>)))))))"

definition proxy_validate :: "(string \<Rightarrow> Uri option) \<Rightarrow> ProxyConfig \<Rightarrow> (ProxyError, ProxyConfig) res" where
  "proxy_validate parse_uri c =
     (if http_bind (pc_proxy c) = https_bind (pc_proxy c)
      then Inl (InvalidConfig ''HTTP and HTTPS must not share an address'')
      else if pl_max_connections (pc_proxy c) = 0
      then Inl (InvalidConfig ''proxy.max_connections must be positive'')
      else if length (pc_acme_accounts c) > 64 \<or> length (pc_dns_accounts c) > 64
        \<or> length (pc_certificates c) > 256 \<or> length (pc_routes c) > 4096
      then Inl (InvalidConfig ''too many accounts, certificates or routes'')
      else
        res_bind (res_fold validate_acme_account (pc_acme_accounts c) ({}, {})) (\<lambda>_.
        res_bind (res_fold validate_dns_account (pc_dns_accounts c) ({}, {})) (\<lambda>_.
        res_bind (res_fold
            (validate_certificate (set (map aa_id (pc_acme_accounts c))) (set (map da_id (pc_dns_accounts c))))
            (pc_certificates c) \<lparr>sc_ids = {}, sc_names = {}, sc_owners = [], sc_out = []\<rparr>) (\<lambda>certs.
        res_bind (res_fold (validate_route parse_uri (sc_ids certs) (sc_owners certs))
            (pc_routes c) \<lparr>rs_names = {}, rs_keys = {}, rs_out = []\<rparr>) (\<lambda>routes.
        Inr (c\<lparr>pc_certificates := sc_out certs, pc_routes := rs_out routes\<rparr>))))))"

section \<open>The old format\<close>

datatype LegacyIssuer = LegacyLetsEncrypt | GoogleTrustServices

datatype LegacyChallenge = Http01 | TlsAlpn01 | CloudflareDns01

record LegacyCertificateConfig =
  lc_name :: string
  lc_domains :: "string list"
  lc_email :: string
  lc_issuer :: LegacyIssuer
  lc_challenge :: LegacyChallenge
  lc_production :: bool
  lc_cloudflare_api_token :: "string option"
  lc_cloudflare_zone_id :: "string option"
  lc_google_eab_key_id :: "string option"
  lc_google_eab_hmac_key :: "string option"
  lc_dns_propagation_seconds :: "u64 option"

record LegacyRouteConfig =
  lr_name :: string
  lr_host :: string
  lr_path_prefix :: string
  lr_upstream :: string
  lr_certificate :: "string option"

record LegacyProxyConfig =
  lp_proxy :: ProxyListenerConfig
  lp_certificates :: "LegacyCertificateConfig list"
  lp_routes :: "LegacyRouteConfig list"

text \<open>What one turn of the certificate loop of \<open>migrate\<close> pushes onto the three vectors.\<close>

definition migrate_account :: "LegacyCertificateConfig \<Rightarrow> AcmeAccountConfig" where
  "migrate_account l =
     \<lparr>aa_id = ''acme-'' @ lc_name l, aa_name = lc_name l @ '' ACME'',
      aa_provider = (case lc_issuer l of LegacyLetsEncrypt \<Rightarrow> LetsEncrypt | GoogleTrustServices \<Rightarrow> GoogleCloud),
      aa_environment = (if lc_production l then Production else Staging),
      aa_email = lc_email l, aa_key_algorithm = Ec256,
      aa_eab_key_id = lc_google_eab_key_id l, aa_eab_hmac_key = lc_google_eab_hmac_key l\<rparr>"

definition migrate_dns :: "LegacyCertificateConfig \<Rightarrow> DnsAccountConfig list" where
  "migrate_dns l =
     (if lc_challenge l = CloudflareDns01
      then [\<lparr>da_id = ''dns-'' @ lc_name l, da_name = lc_name l @ '' Cloudflare'', da_provider = Cloudflare,
             da_api_token = lc_cloudflare_api_token l, da_access_key = None, da_secret_key = None\<rparr>]
      else [])"

definition migrate_certificate :: "LegacyCertificateConfig \<Rightarrow> CertificateConfig" where
  "migrate_certificate l =
     \<lparr>ce_id = lc_name l, ce_name = lc_name l, ce_domains = lc_domains l,
      ce_acme_account_id = ''acme-'' @ lc_name l,
      ce_validation = (if lc_challenge l = CloudflareDns01 then Some (DnsAccount (''dns-'' @ lc_name l)) else None),
      ce_auto_renew = False,
      ce_migration_error =
        (case lc_challenge l of
           CloudflareDns01 \<Rightarrow> None
         | Http01 \<Rightarrow> Some ''the old configuration uses HTTP-01, choose a DNS account or manual records''
         | TlsAlpn01 \<Rightarrow> Some ''the old configuration uses TLS-ALPN-01, choose a DNS account or manual records'')\<rparr>"

definition migrate_route :: "(string, string) hm \<Rightarrow> LegacyRouteConfig \<Rightarrow> (ProxyError, RouteConfig) res" where
  "migrate_route certificate_ids r =
     res_bind
       (case lr_certificate r of
          None \<Rightarrow> Inr None
        | Some name \<Rightarrow>
            (case hm_get certificate_ids name of
               None \<Rightarrow> Inl (InvalidConfig (''old route '' @ lr_name r @ '' names the unknown certificate '' @ name))
             | Some i \<Rightarrow> Inr (Some i)))
       (\<lambda>i. Inr \<lparr>rc_name = lr_name r, rc_host = lr_host r, rc_path_prefix = lr_path_prefix r,
                 rc_upstream = lr_upstream r, rc_certificate_id = i\<rparr>)"

definition migrate :: "LegacyProxyConfig \<Rightarrow> (ProxyError, ProxyConfig) res" where
  "migrate l =
     (let certificate_ids = hm_collect (map (\<lambda>c. (lc_name c, lc_name c)) (lp_certificates l))
      in res_bind (res_map (migrate_route certificate_ids) (lp_routes l)) (\<lambda>routes.
         Inr \<lparr>pc_proxy = lp_proxy l,
              pc_acme_accounts = map migrate_account (lp_certificates l),
              pc_dns_accounts = concat (map migrate_dns (lp_certificates l)),
              pc_certificates = map migrate_certificate (lp_certificates l),
              pc_routes = routes\<rparr>))"

section \<open>Loading\<close>

record config_env =
  env_uri :: "string \<Rightarrow> Uri option"
  env_from_str :: "string \<Rightarrow> ProxyConfig option"
  env_from_legacy :: "string \<Rightarrow> LegacyProxyConfig option"
  env_read :: "path \<Rightarrow> (io_error, string) res"

definition proxy_read :: "config_env \<Rightarrow> path \<Rightarrow> (ProxyError, ProxyConfig) res" where
  "proxy_read env p =
     (case env_read env p of
        Inl e \<Rightarrow> Inl (ReadConfig p e)
      | Inr content \<Rightarrow>
          res_bind
            (case env_from_str env content of
               Some c \<Rightarrow> Inr c
             | None \<Rightarrow> (case env_from_legacy env content of
                          Some legacy \<Rightarrow> migrate legacy
                        | None \<Rightarrow> Inl (ParseConfig p)))
            (proxy_validate (env_uri env)))"

definition proxy_load :: "config_env \<Rightarrow> path \<Rightarrow> (ProxyError, ProxyConfig) res" where
  "proxy_load env p =
     res_bind (proxy_read env p) (\<lambda>c.
       let d = cache_dir (pc_proxy c)
       in if is_relative d
          then Inr (c\<lparr>pc_proxy := (pc_proxy c)
                 \<lparr>cache_dir := path_join (case path_parent p of None \<Rightarrow> current_dir | Some q \<Rightarrow> q) d\<rparr>\<rparr>)
          else Inr c)"

section \<open>What a valid configuration is\<close>

definition valid_domain :: "string \<Rightarrow> bool" where
  "valid_domain v =
     (let plain = plain_domain v
      in plain \<noteq> [] \<and> length plain \<le> 253 \<and> CHR ''.'' \<in> set plain
         \<and> list_all (\<lambda>l. \<not> bad_label l) (split_on CHR ''.'' plain))"

definition valid_id :: "string \<Rightarrow> bool" where
  "valid_id i = (i \<noteq> [] \<and> length i \<le> 128 \<and> i \<noteq> ''.'' \<and> i \<noteq> ''..'' \<and> list_all id_byte i)"

definition valid_display_name :: "string \<Rightarrow> bool" where
  "valid_display_name n = (trim n \<noteq> [] \<and> length n \<le> 128)"

definition valid_upstream :: "(string \<Rightarrow> Uri option) \<Rightarrow> string \<Rightarrow> bool" where
  "valid_upstream parse_uri v =
     (case parse_uri v of
        None \<Rightarrow> False
      | Some uri \<Rightarrow> u_scheme uri \<in> {Some ''http'', Some ''https''} \<and> u_authority uri \<noteq> None \<and> u_query uri = None)"

definition present :: "string option \<Rightarrow> bool" where
  "present v = (v \<noteq> None \<and> v \<noteq> Some [])"

definition valid_acme_account :: "AcmeAccountConfig \<Rightarrow> bool" where
  "valid_acme_account a =
     (valid_id (aa_id a) \<and> valid_display_name (aa_name a)
      \<and> aa_email a \<noteq> [] \<and> length (aa_email a) \<le> 254 \<and> CHR ''@'' \<in> set (aa_email a)
      \<and> (if aa_provider a = GoogleCloud then present (aa_eab_key_id a) \<and> present (aa_eab_hmac_key a)
         else aa_eab_key_id a = None \<and> aa_eab_hmac_key a = None))"

definition valid_dns_account :: "DnsAccountConfig \<Rightarrow> bool" where
  "valid_dns_account a =
     (valid_id (da_id a) \<and> valid_display_name (da_name a)
      \<and> (if da_provider a = Cloudflare
         then present (da_api_token a) \<and> da_access_key a = None \<and> da_secret_key a = None
         else da_api_token a = None \<and> present (da_access_key a) \<and> present (da_secret_key a)))"

definition challenge_ok :: "string set \<Rightarrow> CertificateConfig \<Rightarrow> bool" where
  "challenge_ok dns_ids c =
     (case ce_validation c of
        Some (DnsAccount i) \<Rightarrow> i \<in> dns_ids
      | Some Manual \<Rightarrow> \<not> ce_auto_renew c
      | None \<Rightarrow> ce_migration_error c \<noteq> None \<and> \<not> ce_auto_renew c)"

definition valid_certificate :: "string set \<Rightarrow> string set \<Rightarrow> CertificateConfig \<Rightarrow> bool" where
  "valid_certificate acme_ids dns_ids c =
     (valid_id (ce_id c) \<and> valid_display_name (ce_name c) \<and> ce_acme_account_id c \<in> acme_ids
      \<and> challenge_ok dns_ids c
      \<and> 1 \<le> length (ce_domains c) \<and> length (ce_domains c) \<le> 100 \<and> list_all valid_domain (ce_domains c))"

text \<open>
  The certificate that serves a host: the one that lists the host itself, else the one that
  lists the wildcard of its parent domain.
\<close>

definition lists_domain :: "CertificateConfig list \<Rightarrow> string \<Rightarrow> bool" where
  "lists_domain cs d = list_ex (\<lambda>c. d \<in> set (ce_domains c)) cs"

definition covers :: "CertificateConfig list \<Rightarrow> CertificateConfig \<Rightarrow> string \<Rightarrow> bool" where
  "covers cs c host =
     (host \<in> set (ce_domains c)
      \<or> \<not> lists_domain cs host
        \<and> (case split_once CHR ''.'' host of
             None \<Rightarrow> False
           | Some (_, parent) \<Rightarrow> ''*.'' @ parent \<in> set (ce_domains c)))"

definition valid_route ::
  "(string \<Rightarrow> Uri option) \<Rightarrow> CertificateConfig list \<Rightarrow> RouteConfig \<Rightarrow> bool" where
  "valid_route parse_uri cs r =
     (valid_display_name (rc_name r) \<and> (rc_host r = ''localhost'' \<or> valid_domain (rc_host r))
      \<and> take 1 (rc_path_prefix r) = ''/'' \<and> CHR ''?'' \<notin> set (rc_path_prefix r) \<and> CHR ''#'' \<notin> set (rc_path_prefix r)
      \<and> valid_upstream parse_uri (rc_upstream r)
      \<and> (case rc_certificate_id r of
           None \<Rightarrow> True
         | Some i \<Rightarrow> list_ex (\<lambda>c. ce_id c = i \<and> covers cs c (rc_host r)) cs))"

definition valid_proxy_config :: "(string \<Rightarrow> Uri option) \<Rightarrow> ProxyConfig \<Rightarrow> bool" where
  "valid_proxy_config parse_uri c =
     (http_bind (pc_proxy c) \<noteq> https_bind (pc_proxy c) \<and> pl_max_connections (pc_proxy c) > 0
      \<and> length (pc_acme_accounts c) \<le> 64 \<and> length (pc_dns_accounts c) \<le> 64
      \<and> length (pc_certificates c) \<le> 256 \<and> length (pc_routes c) \<le> 4096
      \<and> list_all valid_acme_account (pc_acme_accounts c)
      \<and> distinct (map aa_id (pc_acme_accounts c)) \<and> distinct (map aa_name (pc_acme_accounts c))
      \<and> list_all valid_dns_account (pc_dns_accounts c)
      \<and> distinct (map da_id (pc_dns_accounts c)) \<and> distinct (map da_name (pc_dns_accounts c))
      \<and> list_all (valid_certificate (set (map aa_id (pc_acme_accounts c))) (set (map da_id (pc_dns_accounts c))))
          (pc_certificates c)
      \<and> distinct (map ce_id (pc_certificates c)) \<and> distinct (map ce_name (pc_certificates c))
      \<and> distinct (concat (map ce_domains (pc_certificates c)))
      \<and> list_all (valid_route parse_uri (pc_certificates c)) (pc_routes c)
      \<and> distinct (map rc_name (pc_routes c))
      \<and> distinct (map (\<lambda>r. (rc_host r, rc_path_prefix r)) (pc_routes c)))"

text \<open>
  The normalisation of domains and hosts that \<open>validate\<close> performs. A host other than \<open>localhost\<close>
  is normalised twice, by \<open>normalize_route_host\<close> and by \<open>normalize_domain\<close>.
\<close>

definition route_canon :: "string \<Rightarrow> string" where
  "route_canon h = (let c = canon h in if valid_domain (canon c) then canon c else c)"

definition normal_form :: "ProxyConfig \<Rightarrow> ProxyConfig" where
  "normal_form c =
     c\<lparr>pc_certificates := map (\<lambda>c. c\<lparr>ce_domains := map canon (ce_domains c)\<rparr>) (pc_certificates c),
       pc_routes := map (\<lambda>r. r\<lparr>rc_host := route_canon (rc_host r)\<rparr>) (pc_routes c)\<rparr>"

section \<open>Lemmas on domains\<close>

text \<open>A wildcard covers exactly the hosts whose part after the first dot is its suffix, so at most one wildcard covers a host.\<close>

lemma wildcard_matches_iff:
  "wildcard_matches host suffix \<longleftrightarrow> (\<exists>l. split_once CHR ''.'' host = Some (l, suffix))"
proof
  assume "wildcard_matches host suffix"
  then obtain p where "host = p @ suffix" "ends_with p CHR ''.''" "CHR ''.'' \<notin> set (butlast p)"
    by (auto simp: wildcard_matches_def str_simps split: option.splits)
  then have "host = butlast p @ CHR ''.'' # suffix" by (auto simp: ends_with_iff)
  with \<open>CHR ''.'' \<notin> set (butlast p)\<close> show "\<exists>l. split_once CHR ''.'' host = Some (l, suffix)"
    by (auto simp: str_simps)
next
  assume "\<exists>l. split_once CHR ''.'' host = Some (l, suffix)"
  then obtain l where l: "host = (l @ ''.'') @ suffix" "CHR ''.'' \<notin> set l"
    by (auto simp: str_simps)
  then have "strip_suffix suffix host = Some (l @ ''.'')" by (simp only: strip_suffix_Some_iff)
  with l(2) show "wildcard_matches host suffix" by (simp add: wildcard_matches_def)
qed

definition max_step :: "('a \<Rightarrow> nat) \<Rightarrow> 'a \<Rightarrow> 'a option \<Rightarrow> 'a option" where
  "max_step f x best = (case best of None \<Rightarrow> Some x | Some y \<Rightarrow> if f x \<ge> f y then Some x else Some y)"

lemma max_fold_Some: "\<exists>z. fold (max_step f) xs (Some y) = Some z \<and> (z = y \<or> z \<in> set xs)"
proof (induction xs arbitrary: y)
  case (Cons x xs)
  show ?case
    using Cons.IH[of x] Cons.IH[of y] by (cases "f x \<ge> f y") (auto simp: max_step_def)
qed simp

lemma max_by_key_step: "max_by_key f xs = fold (max_step f) xs None"
  unfolding max_by_key_def by (rule arg_cong[where f = "\<lambda>g. fold g xs None"]) (simp add: max_step_def fun_eq_iff)

lemma max_by_key_None [simp]: "max_by_key f xs = None \<longleftrightarrow> xs = []"
proof (cases xs)
  case (Cons x ys)
  then show ?thesis using max_fold_Some[of f ys x] by (auto simp: max_by_key_step max_step_def)
qed (simp add: max_by_key_def)

lemma max_by_key_in: "max_by_key f xs = Some x \<Longrightarrow> x \<in> set xs"
proof (cases xs)
  case (Cons y ys)
  then show "max_by_key f xs = Some x \<Longrightarrow> x \<in> set xs"
    using max_fold_Some[of f ys y] by (auto simp: max_by_key_step max_step_def)
qed (simp add: max_by_key_def)

lemma map_filter_in: "y \<in> set (List.map_filter f xs) \<longleftrightarrow> (\<exists>x \<in> set xs. f x = Some y)"
  by (force simp: List.map_filter_def)

text \<open>The certificate of a host does not depend on the iteration order of the owner map.\<close>

lemma certificate_for_host_eq:
  assumes "hm_wf owners"
  shows "certificate_for_host owners host =
    (case hm_get owners host of
       Some i \<Rightarrow> Some i
     | None \<Rightarrow> (case split_once CHR ''.'' host of
                 None \<Rightarrow> None
               | Some (_, parent) \<Rightarrow> hm_get owners (''*.'' @ parent)))"
proof (cases "hm_get owners host")
  case None
  let ?f = "\<lambda>(domain, owner). case strip_prefix ''*.'' domain of
       None \<Rightarrow> None
     | Some suffix \<Rightarrow> if wildcard_matches host suffix then Some (length suffix, owner) else None"
  have mem: "(n, i) \<in> set (List.map_filter ?f owners) \<longleftrightarrow>
      (\<exists>l parent. split_once CHR ''.'' host = Some (l, parent) \<and> n = length parent
        \<and> hm_get owners (''*.'' @ parent) = Some i)" for n i
  proof -
    have "?f (d, w) = Some (n, i) \<longleftrightarrow>
        (\<exists>p. d = ''*.'' @ p \<and> wildcard_matches host p \<and> n = length p \<and> w = i)" for d w
    proof (cases "strip_prefix ''*.'' d")
      case None
      then have "d \<noteq> ''*.'' @ p" for p using strip_prefix_Some_iff[of "''*.''" d p] by auto
      with None show ?thesis by simp
    next
      case (Some p)
      then show ?thesis using strip_prefix_Some_iff[of "''*.''" d p] by auto
    qed
    then have "(n, i) \<in> set (List.map_filter ?f owners) \<longleftrightarrow>
        (\<exists>p. (''*.'' @ p, i) \<in> set owners \<and> wildcard_matches host p \<and> n = length p)"
      unfolding map_filter_in by (simp add: Bex_def) blast
    then show ?thesis by (auto simp: hm_in_set_iff[OF assms] wildcard_matches_iff)
  qed
  show ?thesis
  proof (cases "max_by_key fst (List.map_filter ?f owners)")
    case N: None
    then have "\<And>n i. (n, i) \<notin> set (List.map_filter ?f owners)" by simp
    then have none: "hm_get owners (''*.'' @ parent) \<noteq> Some i"
      if "split_once CHR ''.'' host = Some (l, parent)" for l parent i
      using that unfolding mem by blast
    have "hm_get owners (''*.'' @ parent) = None" if "split_once CHR ''.'' host = Some (l, parent)" for l parent
      using none[OF that] by (cases "hm_get owners (''*.'' @ parent)") simp_all
    with N None show ?thesis by (auto simp: certificate_for_host_def split: option.splits)
  next
    case (Some x)
    obtain n i where x: "x = (n, i)" by (cases x)
    from max_by_key_in[OF Some] obtain l parent
      where "split_once CHR ''.'' host = Some (l, parent)" "hm_get owners (''*.'' @ parent) = Some i"
      unfolding x mem by blast
    with Some None x show ?thesis by (simp add: certificate_for_host_def)
  qed
qed (simp add: certificate_for_host_def)

lemma normalize_domain_eq [res_simps]:
  "normalize_domain v = Inr w \<longleftrightarrow> valid_domain (canon v) \<and> w = canon v"
  by (auto simp: normalize_domain_def valid_domain_def Let_def list_all_iff list_ex_iff)

lemma split_on_append: "c \<notin> set a \<Longrightarrow> split_on c (a @ c # b) = a # split_on c b"
  by (induction a) auto

lemma split_on_nonempty [simp]: "split_on c s \<noteq> []"
  by (induction c s rule: split_on.induct) (auto split: list.splits)

lemma set_split_on: "set s \<subseteq> insert c (\<Union> (set ` set (split_on c s)))"
proof (induction c s rule: split_on.induct)
  case (2 c x xs)
  then show ?case by (cases "split_on c xs") (auto split: if_splits)
qed simp

lemma split_on_snoc: "split_on c (s @ [c]) = split_on c s @ [[]]"
  by (induction c s rule: split_on.induct) (auto split: list.splits)

lemma last_split_on: "s \<noteq> [] \<Longrightarrow> last s = c \<Longrightarrow> [] \<in> set (split_on c s)"
  using split_on_snoc[of c "butlast s"] by (metis append_butlast_last_id in_set_conv_decomp)

text \<open>A valid domain in normal form is left alone by a second normalisation.\<close>

lemma valid_domain_chars:
  assumes "valid_domain v"
  shows "set v \<subseteq> {c. is_ascii_alphanumeric c} \<union> set ''-.*''" and "v \<noteq> []" and "last v \<noteq> CHR ''.''"
proof -
  let ?p = "plain_domain v"
  have lab: "l \<noteq> []" "set l \<subseteq> {c. is_ascii_alphanumeric c} \<union> set ''-.*''"
    if "l \<in> set (split_on CHR ''.'' ?p)" for l
    using assms that by (auto simp: valid_domain_def Let_def bad_label_def list_all_iff)
  have ne: "?p \<noteq> []" using assms by (simp add: valid_domain_def Let_def)
  have p: "set ?p \<subseteq> {c. is_ascii_alphanumeric c} \<union> set ''-.*''"
    using set_split_on[of ?p "CHR ''.''"] lab(2) by fastforce
  have lst: "last ?p \<noteq> CHR ''.''" using last_split_on[OF ne] lab(1) by blast
  have v: "v = ?p \<or> v = ''*.'' @ ?p"
    using strip_prefix_Some_iff[of "''*.''" v] by (auto simp: plain_domain_def split: option.splits)
  have "set v \<subseteq> set ''*.'' \<union> set ?p"
  proof (cases "v = ?p")
    case False
    with v have "set v = set (''*.'' @ ?p)" by metis
    then show ?thesis by simp
  qed auto
  with p show "set v \<subseteq> {c. is_ascii_alphanumeric c} \<union> set ''-.*''" by auto
  show "v \<noteq> []" using v ne by auto
  show "last v \<noteq> CHR ''.''" using v lst ne by (metis last_appendR)
qed

lemma ascii_not_ws:
  assumes "c \<in> {c. is_ascii_alphanumeric c} \<union> set ''-.*''"
  shows "c \<notin> ws_bytes"
proof
  assume "c \<in> ws_bytes"
  then have "(of_char c :: nat) \<in> {9, 10, 11, 12, 13, 32} \<or> (of_char c :: nat) \<ge> 128"
    by (auto simp: ws_bytes_def white_space_def)
  with assms show False
    by (auto simp: is_ascii_alphanumeric_def is_ascii_digit_def is_ascii_upper_def is_ascii_lower_def)
qed

lemma valid_display_name_ascii:
  "list_all is_ascii_alphanumeric n \<Longrightarrow> n \<noteq> [] \<Longrightarrow> length n \<le> 128 \<Longrightarrow> valid_display_name n"
  using ascii_not_ws by (subst valid_display_name_def, subst trim_id) (auto simp: list_all_iff)

lemma is_ascii_upper_lowered: "is_ascii_upper c \<Longrightarrow> \<not> is_ascii_upper (char_of ((of_char c :: nat) + 32))"
  by (simp add: is_ascii_upper_def)

lemma to_ascii_lowercase_idem [simp]: "to_ascii_lowercase (to_ascii_lowercase s) = to_ascii_lowercase s"
  by (auto simp: to_ascii_lowercase_def is_ascii_upper_lowered)

lemma trim_end_matches_id: "s = [] \<or> last s \<noteq> c \<Longrightarrow> trim_end_matches c s = s"
  by (cases s rule: rev_cases) (auto simp: trim_end_matches_def)

lemma canon_id:
  assumes "set v \<inter> ws_bytes = {}" "last v \<noteq> CHR ''.''" "to_ascii_lowercase v = v"
  shows "canon v = v"
  using assms by (simp add: canon_def trim_id trim_end_matches_id)

lemma canon_lower: "to_ascii_lowercase (canon v) = canon v"
  by (simp add: canon_def)

lemma canon_idem: "valid_domain (canon v) \<Longrightarrow> canon (canon v) = canon v"
  using valid_domain_chars[of "canon v"] ascii_not_ws by (intro canon_id canon_lower) blast+

lemma canon_localhost: "canon ''localhost'' = ''localhost''"
  by (rule canon_id) (use ascii_not_ws in \<open>auto simp: is_ascii_alphanumeric_def is_ascii_digit_def
      is_ascii_upper_def is_ascii_lower_def to_ascii_lowercase_def\<close>)

section \<open>Lemmas on the fields\<close>

lemma insert_unique_Inr [res_simps]: "insert_unique S k v = Inr T \<longleftrightarrow> v \<notin> S \<and> T = insert v S"
  by (auto simp: insert_unique_def)

lemma validate_id_Inr [res_simps]: "validate_id k i = Inr u \<longleftrightarrow> valid_id i"
  by (auto simp: validate_id_def valid_id_def reject_if_def)

lemma validate_display_name_Inr [res_simps]: "validate_display_name k n = Inr u \<longleftrightarrow> valid_display_name n"
  by (auto simp: validate_display_name_def valid_display_name_def reject_if_def)

lemma secret_Inr [res_simps]:
  "require_secret k n f v = Inr u \<longleftrightarrow> present v"
  "reject_secret k n f v = Inr u \<longleftrightarrow> v = None"
  by (auto simp: require_secret_def reject_secret_def reject_if_def present_def split: option.splits)

lemma validate_upstream_Inr [res_simps]: "validate_upstream pu v = Inr u \<longleftrightarrow> valid_upstream pu v"
  by (auto simp: validate_upstream_def valid_upstream_def split: option.splits)

lemma validate_path_prefix_Inr [res_simps]:
  "validate_path_prefix v = Inr u \<longleftrightarrow> take 1 v = ''/'' \<and> CHR ''?'' \<notin> set v \<and> CHR ''#'' \<notin> set v"
  by (auto simp: validate_path_prefix_def reject_if_def)

lemma validate_acme_account_Inr:
  "validate_acme_account a seen = Inr seen' \<longleftrightarrow>
     valid_acme_account a \<and> aa_id a \<notin> fst seen \<and> aa_name a \<notin> snd seen
     \<and> seen' = (insert (aa_id a) (fst seen), insert (aa_name a) (snd seen))"
  by (auto simp: validate_acme_account_def valid_acme_account_def acme_account_validate_def res_simps
      split: if_splits AcmeProvider.splits)

lemma validate_dns_account_Inr:
  "validate_dns_account a seen = Inr seen' \<longleftrightarrow>
     valid_dns_account a \<and> da_id a \<notin> fst seen \<and> da_name a \<notin> snd seen
     \<and> seen' = (insert (da_id a) (fst seen), insert (da_name a) (snd seen))"
  by (auto simp: validate_dns_account_def valid_dns_account_def dns_account_validate_def res_simps)

text \<open>A loop that checks each element and keeps two sets of the values seen so far.\<close>

lemma res_fold_two_sets:
  assumes step: "\<And>a seen seen'. f a seen = Inr seen' \<longleftrightarrow>
     P a \<and> k a \<notin> fst seen \<and> n a \<notin> snd seen \<and> seen' = (insert (k a) (fst seen), insert (n a) (snd seen))"
  shows "res_fold f as seen = Inr seen' \<longleftrightarrow>
     list_all P as \<and> distinct (map k as) \<and> distinct (map n as)
     \<and> set (map k as) \<inter> fst seen = {} \<and> set (map n as) \<inter> snd seen = {}
     \<and> seen' = (fst seen \<union> set (map k as), snd seen \<union> set (map n as))"
proof (induction as arbitrary: seen)
  case (Cons a as)
  show ?case by (simp add: res_simps step Cons.IH) auto
qed (auto simp: prod_eq_iff)

lemmas acme_accounts_loop = res_fold_two_sets[OF validate_acme_account_Inr]
lemmas dns_accounts_loop = res_fold_two_sets[OF validate_dns_account_Inr]

section \<open>Lemmas on certificates\<close>

definition canon_certificate :: "CertificateConfig \<Rightarrow> CertificateConfig" where
  "canon_certificate c = c\<lparr>ce_domains := map canon (ce_domains c)\<rparr>"

lemma canon_certificate_sel [simp]:
  "ce_id (canon_certificate c) = ce_id c" "ce_name (canon_certificate c) = ce_name c"
  "ce_domains (canon_certificate c) = map canon (ce_domains c)"
  "ce_acme_account_id (canon_certificate c) = ce_acme_account_id c"
  "ce_validation (canon_certificate c) = ce_validation c" "ce_auto_renew (canon_certificate c) = ce_auto_renew c"
  "ce_migration_error (canon_certificate c) = ce_migration_error c"
  by (simp_all add: canon_certificate_def)

lemma validate_domain_Inr:
  "validate_domain n i d (own, owners, out) = Inr st \<longleftrightarrow>
     valid_domain (canon d) \<and> canon d \<notin> own \<and> hm_get owners (canon d) = None
     \<and> st = (insert (canon d) own, hm_insert (canon d) i owners, out @ [canon d])"
  by (auto simp: validate_domain_def res_simps split: option.splits if_splits)

lemma domains_loop:
  "res_fold (validate_domain n i) ds (own, owners, out) = Inr st \<longleftrightarrow>
     list_all valid_domain (map canon ds) \<and> distinct (map canon ds) \<and> set (map canon ds) \<inter> own = {}
     \<and> (\<forall>d \<in> set (map canon ds). hm_get owners d = None)
     \<and> st = (own \<union> set (map canon ds), hm_insert_all (map canon ds) i owners, out @ map canon ds)"
proof (induction ds arbitrary: own owners out)
  case (Cons d ds)
  show ?case
    by (simp add: res_simps validate_domain_Inr Cons.IH) (auto simp: hm_simps hm_insert_all_def image_iff)
qed (auto simp: hm_insert_all_def)

lemma validate_challenge_Inr [res_simps]: "validate_challenge dns_ids c = Inr u \<longleftrightarrow> challenge_ok dns_ids c"
  by (auto simp: validate_challenge_def challenge_ok_def reject_if_def
      split: option.splits CertificateValidation.splits)

lemma challenge_ok_canon [simp]: "challenge_ok dns_ids (canon_certificate c) = challenge_ok dns_ids c"
  by (simp add: challenge_ok_def cong: option.case_cong CertificateValidation.case_cong)

lemma certificate_validate_Inr:
  "certificate_validate acme_ids dns_ids c owners = Inr r \<longleftrightarrow>
     ce_acme_account_id c \<in> acme_ids \<and> challenge_ok dns_ids c
     \<and> ce_domains c \<noteq> [] \<and> length (ce_domains c) \<le> 100
     \<and> list_all valid_domain (map canon (ce_domains c)) \<and> distinct (map canon (ce_domains c))
     \<and> (\<forall>d \<in> set (map canon (ce_domains c)). hm_get owners d = None)
     \<and> r = (canon_certificate c, hm_insert_all (map canon (ce_domains c)) (ce_id c) owners)"
  unfolding certificate_validate_def
  by (simp add: res_simps domains_loop canon_certificate_def case_prod_unfold) blast

lemma validate_certificate_Inr:
  "validate_certificate acme_ids dns_ids c st = Inr st' \<longleftrightarrow>
     valid_certificate acme_ids dns_ids (canon_certificate c)
     \<and> ce_id c \<notin> sc_ids st \<and> ce_name c \<notin> sc_names st
     \<and> distinct (map canon (ce_domains c)) \<and> (\<forall>d \<in> set (map canon (ce_domains c)). hm_get (sc_owners st) d = None)
     \<and> st' = \<lparr>sc_ids = insert (ce_id c) (sc_ids st), sc_names = insert (ce_name c) (sc_names st),
              sc_owners = hm_insert_all (map canon (ce_domains c)) (ce_id c) (sc_owners st),
              sc_out = sc_out st @ [canon_certificate c]\<rparr>"
  unfolding validate_certificate_def valid_certificate_def
  by (simp add: res_simps certificate_validate_Inr Suc_le_eq) blast

definition owner_map :: "CertificateConfig list \<Rightarrow> (string, string) hm \<Rightarrow> (string, string) hm" where
  "owner_map cs m = fold (\<lambda>c. hm_insert_all (ce_domains c) (ce_id c)) cs m"

lemma hm_insert_all_fresh:
  "(\<forall>d \<in> D. hm_get (hm_insert_all ks v m) d = None) \<longleftrightarrow> set ks \<inter> D = {} \<and> (\<forall>d \<in> D. hm_get m d = None)"
  by (auto simp: hm_simps split: if_splits)

lemma certificates_loop:
  "res_fold (validate_certificate acme_ids dns_ids) cs st = Inr st' \<longleftrightarrow>
     list_all (valid_certificate acme_ids dns_ids) (map canon_certificate cs)
     \<and> distinct (map ce_id cs) \<and> distinct (map ce_name cs)
     \<and> set (map ce_id cs) \<inter> sc_ids st = {} \<and> set (map ce_name cs) \<inter> sc_names st = {}
     \<and> distinct (concat (map ce_domains (map canon_certificate cs)))
     \<and> (\<forall>d \<in> set (concat (map ce_domains (map canon_certificate cs))). hm_get (sc_owners st) d = None)
     \<and> st' = \<lparr>sc_ids = sc_ids st \<union> set (map ce_id cs), sc_names = sc_names st \<union> set (map ce_name cs),
              sc_owners = owner_map (map canon_certificate cs) (sc_owners st),
              sc_out = sc_out st @ map canon_certificate cs\<rparr>"
proof (induction cs arbitrary: st)
  case (Cons c cs)
  let ?D = "set (concat (map ce_domains (map canon_certificate cs)))"
  let ?m = "hm_insert_all (map canon (ce_domains c)) (ce_id c) (sc_owners st)"
  have dom: "(\<forall>d \<in> ?D. hm_get ?m d = None) \<longleftrightarrow>
      set (map canon (ce_domains c)) \<inter> ?D = {} \<and> (\<forall>d \<in> ?D. hm_get (sc_owners st) d = None)"
    by (rule hm_insert_all_fresh)
  have ids: "(set (map ce_id cs) \<inter> insert (ce_id c) (sc_ids st) = {}) \<longleftrightarrow>
      ce_id c \<notin> set (map ce_id cs) \<and> set (map ce_id cs) \<inter> sc_ids st = {}"
    "(set (map ce_name cs) \<inter> insert (ce_name c) (sc_names st) = {}) \<longleftrightarrow>
      ce_name c \<notin> set (map ce_name cs) \<and> set (map ce_name cs) \<inter> sc_names st = {}"
    by auto
  show ?case
    unfolding res_fold.simps res_bind_Inr_iff validate_certificate_Inr Cons.IH
    by (simp add: dom[simplified] ids[simplified] owner_map_def ball_Un del: Int_insert_right)
       (intro iffI conjI; elim conjE; assumption)
qed (auto simp: owner_map_def)

lemma hm_get_owner_map:
  assumes "distinct (concat (map ce_domains cs))"
  shows "hm_get (owner_map cs m) d = Some i \<longleftrightarrow>
    (\<exists>c \<in> set cs. ce_id c = i \<and> d \<in> set (ce_domains c)) \<or> \<not> lists_domain cs d \<and> hm_get m d = Some i"
  using assms
proof (induction cs arbitrary: m)
  case (Cons c cs)
  from Cons.prems have "distinct (concat (map ce_domains cs))"
    and disj: "d \<in> set (ce_domains c) \<Longrightarrow> c' \<in> set cs \<Longrightarrow> d \<notin> set (ce_domains c')" for c'
    by auto
  then have "hm_get (owner_map cs (hm_insert_all (ce_domains c) (ce_id c) m)) d = Some i \<longleftrightarrow>
      (\<exists>c \<in> set cs. ce_id c = i \<and> d \<in> set (ce_domains c))
      \<or> \<not> lists_domain cs d \<and> (if d \<in> set (ce_domains c) then i = ce_id c else hm_get m d = Some i)"
    by (subst Cons.IH) (auto simp: hm_simps)
  with disj show ?case
    by (auto simp: owner_map_def lists_domain_def list_ex_iff split: if_splits)
qed (simp add: owner_map_def lists_domain_def)

lemma hm_wf_owner_map: "hm_wf m \<Longrightarrow> hm_wf (owner_map cs m)"
  unfolding owner_map_def by (induction cs arbitrary: m) (auto intro: hm_wf_insert_all)

lemma certificate_for_host_covers:
  assumes "distinct (concat (map ce_domains cs))"
  shows "certificate_for_host (owner_map cs []) host = Some i \<longleftrightarrow>
    (\<exists>c \<in> set cs. ce_id c = i \<and> covers cs c host)"
proof -
  note get = hm_get_owner_map[OF assms, where m = "[]", simplified]
  show ?thesis
  proof (cases "hm_get (owner_map cs []) host")
    case None
    then have "\<not> lists_domain cs host" using get[of host] by (auto simp: lists_domain_def list_ex_iff)
    then have "host \<notin> set (ce_domains c)" if "c \<in> set cs" for c
      using that by (auto simp: lists_domain_def list_ex_iff)
    with None \<open>\<not> lists_domain cs host\<close> show ?thesis
      by (subst certificate_for_host_eq) (auto simp: hm_wf_owner_map covers_def get split: option.splits)
  next
    case (Some j)
    then obtain c where c: "c \<in> set cs" "ce_id c = j" "host \<in> set (ce_domains c)" using get[of host] by auto
    then have "lists_domain cs host" by (auto simp: lists_domain_def list_ex_iff)
    have "certificate_for_host (owner_map cs []) host = Some i \<longleftrightarrow> hm_get (owner_map cs []) host = Some i"
      by (simp add: certificate_for_host_eq hm_wf_owner_map Some)
    with \<open>lists_domain cs host\<close> show ?thesis by (auto simp: covers_def get)
  qed
qed

section \<open>Lemmas on routes\<close>

definition canon_route :: "RouteConfig \<Rightarrow> RouteConfig" where
  "canon_route r = r\<lparr>rc_host := route_canon (rc_host r)\<rparr>"

lemma canon_route_sel [simp]:
  "rc_name (canon_route r) = rc_name r" "rc_host (canon_route r) = route_canon (rc_host r)"
  "rc_path_prefix (canon_route r) = rc_path_prefix r" "rc_upstream (canon_route r) = rc_upstream r"
  "rc_certificate_id (canon_route r) = rc_certificate_id r"
  by (simp_all add: canon_route_def)

lemma normal_form_eq:
  "normal_form c = c\<lparr>pc_certificates := map canon_certificate (pc_certificates c),
                     pc_routes := map canon_route (pc_routes c)\<rparr>"
  by (simp add: normal_form_def canon_certificate_def canon_route_def)

lemma validate_route_certificate_Inr [res_simps]:
  assumes "distinct (concat (map ce_domains cs))"
  shows "validate_route_certificate (set (map ce_id cs)) (owner_map cs []) r = Inr u \<longleftrightarrow>
    (case rc_certificate_id r of
       None \<Rightarrow> True
     | Some i \<Rightarrow> list_ex (\<lambda>c. ce_id c = i \<and> covers cs c (rc_host r)) cs)"
  using certificate_for_host_covers[OF assms, of "rc_host r"]
  by (auto simp: validate_route_certificate_def reject_if_def list_ex_iff split: option.splits)

lemma normalize_route_host_Inr [res_simps]:
  "normalize_route_host v = Inr w \<longleftrightarrow> (route_canon v = ''localhost'' \<or> valid_domain (route_canon v)) \<and> w = route_canon v"
proof -
  have loc: "\<not> valid_domain ''localhost''" by (simp add: valid_domain_def plain_domain_def strip_prefix_def Let_def)
  have "valid_domain (canon (canon v))" if "valid_domain (canon v)" using canon_idem[OF that] that by simp
  then show ?thesis
    using loc canon_localhost
    by (auto simp: normalize_route_host_def route_canon_def Let_def res_simps)
qed

definition route_checks :: "(string \<Rightarrow> Uri option) \<Rightarrow> string set \<Rightarrow> (string, string) hm \<Rightarrow> RouteConfig \<Rightarrow> bool" where
  "route_checks pu ids owners r =
     (valid_display_name (rc_name r) \<and> (rc_host r = ''localhost'' \<or> valid_domain (rc_host r))
      \<and> take 1 (rc_path_prefix r) = ''/'' \<and> CHR ''?'' \<notin> set (rc_path_prefix r) \<and> CHR ''#'' \<notin> set (rc_path_prefix r)
      \<and> valid_upstream pu (rc_upstream r) \<and> is_ok (validate_route_certificate ids owners r))"

abbreviation route_key :: "RouteConfig \<Rightarrow> string \<times> string" where
  "route_key r \<equiv> (rc_host r, rc_path_prefix r)"

lemma validate_route_Inr:
  "validate_route pu ids owners r st = Inr st' \<longleftrightarrow>
     route_checks pu ids owners (canon_route r) \<and> rc_name r \<notin> rs_names st
     \<and> route_key (canon_route r) \<notin> rs_keys st
     \<and> st' = \<lparr>rs_names = insert (rc_name r) (rs_names st), rs_keys = insert (route_key (canon_route r)) (rs_keys st),
              rs_out = rs_out st @ [canon_route r]\<rparr>"
  unfolding validate_route_def route_checks_def
  by (simp add: res_simps Let_def is_ok_iff flip: canon_route_def) (auto simp: canon_route_def)

lemma routes_loop:
  "res_fold (validate_route pu ids owners) rs st = Inr st' \<longleftrightarrow>
     list_all (route_checks pu ids owners) (map canon_route rs)
     \<and> distinct (map rc_name rs) \<and> distinct (map route_key (map canon_route rs))
     \<and> set (map rc_name rs) \<inter> rs_names st = {} \<and> set (map route_key (map canon_route rs)) \<inter> rs_keys st = {}
     \<and> st' = \<lparr>rs_names = rs_names st \<union> set (map rc_name rs),
              rs_keys = rs_keys st \<union> set (map route_key (map canon_route rs)),
              rs_out = rs_out st @ map canon_route rs\<rparr>"
proof (induction rs arbitrary: st)
  case (Cons r rs)
  have ids: "(set xs \<inter> insert x A = {}) \<longleftrightarrow> x \<notin> set xs \<and> set xs \<inter> A = {}" for xs A and x :: 'x by auto
  show ?case
    unfolding res_fold.simps res_bind_Inr_iff validate_route_Inr Cons.IH
    by (simp add: ids[of "map f xs" for f xs, simplified] o_def)
       (intro iffI conjI; elim conjE; assumption)
qed auto

lemma route_checks_valid:
  assumes "distinct (concat (map ce_domains cs))"
  shows "route_checks pu (set (map ce_id cs)) (owner_map cs []) r \<longleftrightarrow> valid_route pu cs r"
  unfolding route_checks_def valid_route_def is_ok_iff validate_route_certificate_Inr[OF assms] by simp

section \<open>Validation accepts exactly the valid configurations\<close>

lemma proxy_validate_Inr:
  "proxy_validate pu c = Inr c' \<longleftrightarrow> c' = normal_form c \<and> valid_proxy_config pu (normal_form c)"
proof -
  let ?cs = "map canon_certificate (pc_certificates c)"
  have ids: "set (map ce_id (pc_certificates c)) = set (map ce_id ?cs)" by (simp add: image_image)
  have rc: "list_all (route_checks pu (set (map ce_id (pc_certificates c))) (owner_map ?cs [])) rs \<longleftrightarrow>
      list_all (valid_route pu ?cs) rs" if "distinct (concat (map ce_domains ?cs))" for rs
    unfolding ids using route_checks_valid[OF that] by (simp add: list_all_iff)
  show ?thesis
    unfolding proxy_validate_def valid_proxy_config_def normal_form_eq
    by (simp add: res_simps acme_accounts_loop dns_accounts_loop certificates_loop routes_loop
        not_less o_def)
       (use rc[of "map canon_route (pc_routes c)"] in \<open>auto simp: o_def\<close>)
qed

lemma canon_certificate_idem:
  "valid_certificate A D (canon_certificate c) \<Longrightarrow> canon_certificate (canon_certificate c) = canon_certificate c"
  by (auto simp: valid_certificate_def canon_certificate_def list_all_iff canon_idem)

lemma route_canon_idem:
  assumes "route_canon h = ''localhost'' \<or> valid_domain (route_canon h)"
  shows "route_canon (route_canon h) = route_canon h"
proof (cases "valid_domain (route_canon h)")
  case True
  have "\<exists>x. route_canon h = canon x" by (auto simp: route_canon_def Let_def)
  with True show ?thesis using canon_idem by (auto simp: route_canon_def[of "route_canon h"] Let_def)
next
  case False
  with assms have "route_canon h = ''localhost''" by simp
  then show ?thesis by (simp add: route_canon_def[of "''localhost''"] canon_localhost Let_def)
qed

lemma canon_route_idem: "valid_route pu cs (canon_route r) \<Longrightarrow> canon_route (canon_route r) = canon_route r"
  by (auto simp: valid_route_def canon_route_def route_canon_idem)

lemma normal_form_idem:
  assumes "valid_proxy_config pu (normal_form c)"
  shows "normal_form (normal_form c) = normal_form c"
proof -
  have "map canon_certificate (map canon_certificate (pc_certificates c)) = map canon_certificate (pc_certificates c)"
    using assms canon_certificate_idem
    by (auto simp: valid_proxy_config_def normal_form_eq list_all_iff)
  moreover have "map canon_route (map canon_route (pc_routes c)) = map canon_route (pc_routes c)"
    using assms canon_route_idem by (auto simp: valid_proxy_config_def normal_form_eq list_all_iff)
  ultimately show ?thesis by (simp add: normal_form_eq)
qed

text \<open>
  C25. \<open>ProxyConfig::validate\<close> accepts a configuration exactly when its normal form (domains and
  hosts trimmed, without a final dot, in lower case) is valid: identifiers and names are well
  formed and unique, every reference names an existing account or certificate, no domain
  belongs to two certificates, no two routes share host and path prefix, and the certificate of
  every TLS route is the one that serves the host of the route. What it returns is this normal
  form, which a second validation accepts unchanged.
\<close>

theorem proxy_validate_exact:
  "(proxy_validate pu c = Inr c' \<longleftrightarrow> valid_proxy_config pu c' \<and> c' = normal_form c)
   \<and> res_bind (proxy_validate pu c) (proxy_validate pu) = proxy_validate pu c"
proof
  show "proxy_validate pu c = Inr c' \<longleftrightarrow> valid_proxy_config pu c' \<and> c' = normal_form c"
    by (auto simp: proxy_validate_Inr)
  show "res_bind (proxy_validate pu c) (proxy_validate pu) = proxy_validate pu c"
  proof (cases "proxy_validate pu c")
    case (Inr d)
    then have "d = normal_form c" "valid_proxy_config pu d" by (simp_all add: proxy_validate_Inr)
    then have "proxy_validate pu d = Inr d" using normal_form_idem[of pu c] by (simp add: proxy_validate_Inr)
    with Inr show ?thesis by simp
  qed simp
qed

end
