(* ===== verification/Certificate_Cache.thy ===== *)
theory Certificate_Cache
  imports Proxy_Config
begin

text \<open>
  \<open>gaterust-proxy/src/cache.rs\<close>: the files in which the proxy keeps ACME account keys and issued
  certificates. The file system is a map from paths to contents together with a schedule of
  faults: the \<open>n\<close>-th operation fails when the schedule says so, and a failing write may leave any
  content behind. Every operation logs the files it leaves, so that the states in which a crash
  can stop the process are the logged ones. JSON (\<open>serde_json\<close>) and the X.509 parser are
  parameters.
\<close>

section \<open>The file system\<close>

type_synonym files = "path \<Rightarrow> bytes option"

record fs_state =
  fs_files :: files
  fs_ops :: nat
  fs_faults :: "nat \<Rightarrow> (io_error \<times> bytes option) option"
  fs_log :: "files list"

text \<open>One operation: \<open>ok\<close> is its effect when it succeeds, \<open>bad\<close> when it fails.\<close>

definition fs_op :: "(files \<Rightarrow> files) \<Rightarrow> (bytes option \<Rightarrow> files \<Rightarrow> files) \<Rightarrow> fs_state \<Rightarrow> (io_error, unit) res \<times> fs_state" where
  "fs_op ok bad s =
     (let (r, fs) = (case fs_faults s (fs_ops s) of
                       None \<Rightarrow> (Inr (), ok (fs_files s))
                     | Some (e, junk) \<Rightarrow> (Inl e, bad junk (fs_files s)))
      in (r, s\<lparr>fs_files := fs, fs_ops := Suc (fs_ops s), fs_log := fs_log s @ [fs]\<rparr>))"

definition fs_neutral :: "fs_state \<Rightarrow> (io_error, unit) res \<times> fs_state" where
  "fs_neutral = fs_op (\<lambda>fs. fs) (\<lambda>_ fs. fs)"

definition fs_write :: "path \<Rightarrow> bytes \<Rightarrow> fs_state \<Rightarrow> (io_error, unit) res \<times> fs_state" where
  "fs_write p content = fs_op (\<lambda>fs. fs(p := Some content)) (\<lambda>junk fs. fs(p := junk))"

definition fs_rename :: "path \<Rightarrow> path \<Rightarrow> fs_state \<Rightarrow> (io_error, unit) res \<times> fs_state" where
  "fs_rename p q = fs_op (\<lambda>fs. fs(q := fs p, p := None)) (\<lambda>_ fs. fs)"

definition fs_remove :: "path \<Rightarrow> fs_state \<Rightarrow> (io_error, unit) res \<times> fs_state" where
  "fs_remove p = fs_op (\<lambda>fs. fs(p := None)) (\<lambda>_ fs. fs)"

text \<open>Sequencing of operations that update the state: the \<open>?\<close> operator.\<close>

definition fs_bind :: "('e, 'a) res \<times> 's \<Rightarrow> ('a \<Rightarrow> 's \<Rightarrow> ('e, 'b) res \<times> 's) \<Rightarrow> ('e, 'b) res \<times> 's" where
  "fs_bind r f = (case r of (Inl e, s) \<Rightarrow> (Inl e, s) | (Inr x, s) \<Rightarrow> f x s)"

section \<open>Atomic writes\<close>

text \<open>\<open>create_dir_all\<close> and the permissions of the directory.\<close>

definition prepare_private_directory :: "path \<Rightarrow> fs_state \<Rightarrow> (io_error, unit) res \<times> fs_state" where
  "prepare_private_directory p s = fs_bind (fs_neutral s) (\<lambda>_. fs_neutral)"

definition temporary_path :: "string \<Rightarrow> path \<Rightarrow> path" where
  "temporary_path suffix p = path_with_extension p (''tmp-'' @ suffix)"

definition atomic_write :: "string \<Rightarrow> path \<Rightarrow> bytes \<Rightarrow> fs_state \<Rightarrow> (ProxyError, unit) res \<times> fs_state" where
  "atomic_write suffix p content s =
     (case path_parent p of
        None \<Rightarrow> (Inl (InvalidConfig ''the cache file has no parent directory''), s)
      | Some parent \<Rightarrow>
          (case prepare_private_directory parent s of
             (Inl e, s) \<Rightarrow> (Inl (Io e), s)
           | (Inr _, s) \<Rightarrow>
               (let temporary = temporary_path suffix p
                in case fs_bind (fs_write temporary content s) (\<lambda>_ s.
                        fs_bind (fs_neutral s) (\<lambda>_. fs_rename temporary p)) of
                     (Inr _, s) \<Rightarrow> (Inr (), s)
                   | (Inl e, s) \<Rightarrow> (Inl (Io e), snd (fs_remove temporary s)))))"

definition read_optional :: "(path \<Rightarrow> io_error option) \<Rightarrow> files \<Rightarrow> path \<Rightarrow> (ProxyError, bytes option) res" where
  "read_optional read_error fs p =
     (case read_error p of
        Some NotFound \<Rightarrow> Inr None
      | Some e \<Rightarrow> Inl (Io e)
      | None \<Rightarrow> Inr (fs p))"

section \<open>The caches\<close>

record AccountMetadata =
  am_directory_url :: string
  am_key_algorithm :: KeyAlgorithm
  am_registered :: bool

record CertificateMetadata =
  md_acme_account_id :: string
  md_domains :: "string list"
  md_expires_at :: nat

record CachedCertificate =
  cd_certificate :: bytes
  cd_private_key :: bytes
  cd_expires_at :: nat

text \<open>\<open>ca_suffix\<close> is the process id and the value of the counter \<open>TEMPORARY_FILE_ID\<close> of the n-th write.\<close>

record cache_env =
  ca_account_json :: "AccountMetadata \<Rightarrow> (string, bytes) res"
  ca_account_parse :: "bytes \<Rightarrow> (string, AccountMetadata) res"
  ca_json :: "CertificateMetadata \<Rightarrow> (string, bytes) res"
  ca_parse :: "bytes \<Rightarrow> (string, CertificateMetadata) res"
  ca_legacy_parse :: "bytes \<Rightarrow> (string, string list) res"
  ca_not_after :: "bytes \<Rightarrow> (ProxyError, int) res"
  ca_read_error :: "path \<Rightarrow> io_error option"
  ca_suffix :: "nat \<Rightarrow> string"

definition json_result :: "(string, 'a) res \<Rightarrow> (ProxyError, 'a) res" where
  "json_result r = (case r of Inl e \<Rightarrow> Inl (Json e) | Inr x \<Rightarrow> Inr x)"

text \<open>The leaf's \<open>not_after\<close> as seconds since the epoch, converted to \<open>u64\<close>.\<close>

definition parse_certificate_expiry :: "cache_env \<Rightarrow> bytes \<Rightarrow> (ProxyError, nat) res" where
  "parse_certificate_expiry env pem =
     res_bind (ca_not_after env pem) (\<lambda>t.
       if t < 0 then Inl (Tls ''the leaf expires before the Unix epoch'') else Inr (nat t))"

definition account_directory :: "path \<Rightarrow> string \<Rightarrow> path" where
  "account_directory root i = path_join (path_join root (Path False [''accounts''])) (Path False [i])"

definition load_private_key ::
  "cache_env \<Rightarrow> files \<Rightarrow> path \<Rightarrow> AcmeAccountConfig \<Rightarrow> (ProxyError, (bytes \<times> bool) option) res" where
  "load_private_key env fs dir a =
     res_bind (read_optional (ca_read_error env) fs (path_join dir (Path False [''metadata-v1.json'']))) (\<lambda>content.
       case content of
         None \<Rightarrow> Inr None
       | Some content \<Rightarrow>
           res_bind (json_result (ca_account_parse env content)) (\<lambda>m.
             if am_directory_url m \<noteq> directory_url a \<or> am_key_algorithm m \<noteq> aa_key_algorithm a then Inr None
             else res_bind (read_optional (ca_read_error env) fs (path_join dir (Path False [''private-key.pem'']))) (\<lambda>key.
                    Inr (map_option (\<lambda>k. (k, am_registered m)) key))))"

definition store_private_key ::
  "cache_env \<Rightarrow> path \<Rightarrow> AcmeAccountConfig \<Rightarrow> bytes \<Rightarrow> bool \<Rightarrow> fs_state \<Rightarrow> (ProxyError, unit) res \<times> fs_state" where
  "store_private_key env dir a key registered s =
     fs_bind (atomic_write (ca_suffix env 0) (path_join dir (Path False [''private-key.pem''])) key s) (\<lambda>_ s.
       case json_result (ca_account_json env
              \<lparr>am_directory_url = directory_url a, am_key_algorithm = aa_key_algorithm a, am_registered = registered\<rparr>) of
         Inl e \<Rightarrow> (Inl e, s)
       | Inr content \<Rightarrow> atomic_write (ca_suffix env 1) (path_join dir (Path False [''metadata-v1.json''])) content s)"

definition certificate_directory :: "path \<Rightarrow> string \<Rightarrow> path" where
  "certificate_directory root i = path_join (path_join root (Path False [''certificates''])) (Path False [i])"

definition legacy_directory :: "path \<Rightarrow> string \<Rightarrow> path" where
  "legacy_directory root i = path_join root (Path False [i])"

definition metadata_new :: "CertificateConfig \<Rightarrow> nat \<Rightarrow> CertificateMetadata" where
  "metadata_new c expires_at =
     \<lparr>md_acme_account_id = ce_acme_account_id c, md_domains = ce_domains c, md_expires_at = expires_at\<rparr>"

definition metadata_matches :: "CertificateMetadata \<Rightarrow> CertificateConfig \<Rightarrow> bool" where
  "metadata_matches m c = (md_acme_account_id m = ce_acme_account_id c \<and> md_domains m = ce_domains c)"

definition read_pair ::
  "cache_env \<Rightarrow> files \<Rightarrow> nat option \<Rightarrow> path \<Rightarrow> (ProxyError, CachedCertificate option) res" where
  "read_pair env fs stored_expiry dir =
     res_bind (read_optional (ca_read_error env) fs (path_join dir (Path False [''certificate.pem'']))) (\<lambda>certificate.
     res_bind (read_optional (ca_read_error env) fs (path_join dir (Path False [''private-key.pem'']))) (\<lambda>private_key.
       case (certificate, private_key) of
         (Some certificate, Some private_key) \<Rightarrow>
           res_bind (parse_certificate_expiry env certificate) (\<lambda>expires_at.
             if (case stored_expiry of None \<Rightarrow> False | Some stored \<Rightarrow> stored \<noteq> expires_at)
             then Inl (Tls ''the cached expiry differs from the leaf certificate'')
             else Inr (Some \<lparr>cd_certificate = certificate, cd_private_key = private_key, cd_expires_at = expires_at\<rparr>))
       | _ \<Rightarrow> Inr None))"

definition load_current ::
  "cache_env \<Rightarrow> files \<Rightarrow> path \<Rightarrow> CertificateConfig \<Rightarrow> (ProxyError, CachedCertificate option) res" where
  "load_current env fs dir c =
     res_bind (read_optional (ca_read_error env) fs (path_join dir (Path False [''metadata-v2.json'']))) (\<lambda>content.
       case content of
         None \<Rightarrow> Inr None
       | Some content \<Rightarrow>
           res_bind (json_result (ca_parse env content)) (\<lambda>m.
             if \<not> metadata_matches m c then Inr None else read_pair env fs (Some (md_expires_at m)) dir))"

definition load_legacy ::
  "cache_env \<Rightarrow> files \<Rightarrow> path \<Rightarrow> CertificateConfig \<Rightarrow> (ProxyError, CachedCertificate option) res" where
  "load_legacy env fs dir c =
     res_bind (read_optional (ca_read_error env) fs (path_join dir (Path False [''certificate-v1.json'']))) (\<lambda>content.
       case content of
         None \<Rightarrow> Inr None
       | Some content \<Rightarrow>
           res_bind (json_result (ca_legacy_parse env content)) (\<lambda>domains.
             if domains \<noteq> ce_domains c then Inr None else read_pair env fs None dir))"

definition load_certificate ::
  "cache_env \<Rightarrow> files \<Rightarrow> path \<Rightarrow> CertificateConfig \<Rightarrow> (ProxyError, CachedCertificate option) res" where
  "load_certificate env fs root c =
     res_bind (load_current env fs (certificate_directory root (ce_id c)) c) (\<lambda>r.
       case r of
         Some certificate \<Rightarrow> Inr (Some certificate)
       | None \<Rightarrow> load_legacy env fs (legacy_directory root (ce_id c)) c)"

definition store_certificate ::
  "cache_env \<Rightarrow> path \<Rightarrow> CertificateConfig \<Rightarrow> bytes \<Rightarrow> bytes \<Rightarrow> fs_state \<Rightarrow> (ProxyError, nat) res \<times> fs_state" where
  "store_certificate env root c certificate private_key s =
     (let dir = certificate_directory root (ce_id c)
      in case parse_certificate_expiry env certificate of
           Inl e \<Rightarrow> (Inl e, s)
         | Inr expires_at \<Rightarrow>
             fs_bind (atomic_write (ca_suffix env 0) (path_join dir (Path False [''certificate.pem''])) certificate s) (\<lambda>_ s.
             fs_bind (atomic_write (ca_suffix env 1) (path_join dir (Path False [''private-key.pem''])) private_key s) (\<lambda>_ s.
             case json_result (ca_json env (metadata_new c expires_at)) of
               Inl e \<Rightarrow> (Inl e, s)
             | Inr content \<Rightarrow>
                 fs_bind (atomic_write (ca_suffix env 2) (path_join dir (Path False [''metadata-v2.json''])) content s)
                   (\<lambda>_ s. (Inr expires_at, s)))))"

section \<open>What an atomic write can leave behind\<close>

definition agree :: "path set \<Rightarrow> files \<Rightarrow> files \<Rightarrow> bool" where
  "agree T fs gs = (\<forall>q. q \<notin> T \<longrightarrow> fs q = gs q)"

lemma agree_refl [simp]: "agree T fs fs"
  by (simp add: agree_def)

lemma agree_trans: "agree T fs gs \<Longrightarrow> agree T gs hs \<Longrightarrow> agree T fs hs"
  by (simp add: agree_def)

lemma agree_mono: "agree T fs gs \<Longrightarrow> T \<subseteq> U \<Longrightarrow> agree U fs gs"
  by (auto simp: agree_def)

lemma fs_op_effect:
  assumes "fs_op ok bad s = (r, s')"
  shows "fs_log s' = fs_log s @ [fs_files s']"
    and "r = Inr () \<and> fs_files s' = ok (fs_files s) \<or> (\<exists>e junk. r = Inl e \<and> fs_files s' = bad junk (fs_files s))"
proof -
  show "fs_log s' = fs_log s @ [fs_files s']"
    using assms by (cases "fs_faults s (fs_ops s)") (auto simp: fs_op_def Let_def)
  show "r = Inr () \<and> fs_files s' = ok (fs_files s) \<or> (\<exists>e junk. r = Inl e \<and> fs_files s' = bad junk (fs_files s))"
    using assms by (cases "fs_faults s (fs_ops s)") (auto simp: fs_op_def Let_def)
qed

definition logs :: "(files \<Rightarrow> bool) \<Rightarrow> fs_state \<Rightarrow> fs_state \<Rightarrow> bool" where
  "logs P s s' = (\<exists>log. fs_log s' = fs_log s @ log \<and> list_all P log)"

lemma logs_refl [simp]: "logs P s s"
  by (simp add: logs_def)

lemma logs_trans:
  assumes "logs P s t" "logs P t u"
  shows "logs P s u"
proof -
  from assms obtain a b where "fs_log t = fs_log s @ a" "list_all P a" "fs_log u = fs_log t @ b" "list_all P b"
    unfolding logs_def by blast
  then show ?thesis unfolding logs_def by (intro exI[of _ "a @ b"]) simp
qed

lemma logs_mono: "logs P s t \<Longrightarrow> (\<And>fs. P fs \<Longrightarrow> Q fs) \<Longrightarrow> logs Q s t"
  by (auto simp: logs_def list_all_iff)

lemma logs_op: "fs_op ok bad s = (r, s') \<Longrightarrow> P (fs_files s') \<Longrightarrow> logs P s s'"
  unfolding logs_def by (rule exI[of _ "[fs_files s']"]) (simp add: fs_op_effect(1))

lemma fs_neutral_effect: "fs_neutral s = (r, s') \<Longrightarrow> fs_files s' = fs_files s \<and> logs (\<lambda>fs. fs = fs_files s) s s'"
  unfolding fs_neutral_def by (frule fs_op_effect(2)) (auto intro: logs_op)

lemma fs_bind_cases:
  assumes "fs_bind x f = (r, s')"
  obtains (err) e where "x = (Inl e, s')" "r = Inl e" | (ok) y t where "x = (Inr y, t)" "f y t = (r, s')"
proof -
  obtain y t where x: "x = (y, t)" by (cases x)
  show thesis
  proof (cases y)
    case (Inl e)
    with assms x show thesis by (intro that(1)[of e]) (simp_all add: fs_bind_def)
  next
    case (Inr z)
    with assms x show thesis by (intro that(2)[of z t]) (simp_all add: fs_bind_def)
  qed
qed

lemma prepare_effect:
  assumes "prepare_private_directory p s = (r, s')"
  shows "fs_files s' = fs_files s \<and> logs (\<lambda>fs. fs = fs_files s) s s'"
  using assms unfolding prepare_private_directory_def
proof (cases rule: fs_bind_cases)
  case (err e)
  then show ?thesis using fs_neutral_effect by blast
next
  case (ok y t)
  then have "fs_files t = fs_files s" "logs (\<lambda>fs. fs = fs_files s) s t"
    "fs_files s' = fs_files t" "logs (\<lambda>fs. fs = fs_files t) t s'"
    using fs_neutral_effect by blast+
  then show ?thesis by (auto intro: logs_trans)
qed

lemma fs_write_effect:
  assumes "fs_write t content s = (r, s')"
  shows "agree {t} (fs_files s') (fs_files s) \<and> logs (\<lambda>fs. agree {t} fs (fs_files s)) s s'
    \<and> (is_ok r \<longrightarrow> fs_files s' t = Some content)"
proof -
  have "agree {t} (fs_files s') (fs_files s)" "is_ok r \<longrightarrow> fs_files s' t = Some content"
    using fs_op_effect(2)[OF assms[unfolded fs_write_def]] by (auto simp: agree_def)
  with logs_op[OF assms[unfolded fs_write_def], of "\<lambda>fs. agree {t} fs (fs_files s)"] show ?thesis by simp
qed

lemma fs_rename_effect:
  assumes "fs_rename t p s = (r, s')"
  shows "agree {t} (fs_files s') (if is_ok r then (fs_files s)(p := fs_files s t) else fs_files s)
    \<and> logs (\<lambda>fs. fs = fs_files s') s s'"
proof
  show "agree {t} (fs_files s') (if is_ok r then (fs_files s)(p := fs_files s t) else fs_files s)"
    using fs_op_effect(2)[OF assms[unfolded fs_rename_def]] by (auto simp: agree_def)
  show "logs (\<lambda>fs. fs = fs_files s') s s'"
    using logs_op[OF assms[unfolded fs_rename_def], of "\<lambda>fs. fs = fs_files s'"] by simp
qed

lemma fs_remove_effect:
  "agree {t} (fs_files (snd (fs_remove t s))) (fs_files s)
   \<and> logs (\<lambda>fs. agree {t} fs (fs_files s)) s (snd (fs_remove t s))"
proof -
  obtain r s' where run: "fs_remove t s = (r, s')" by (cases "fs_remove t s")
  have "agree {t} (fs_files s') (fs_files s)"
    using fs_op_effect(2)[OF run[unfolded fs_remove_def]] by (auto simp: agree_def)
  with logs_op[OF run[unfolded fs_remove_def], of "\<lambda>fs. agree {t} fs (fs_files s)"] run show ?thesis by simp
qed

text \<open>
  Up to its temporary file, a write leaves either the files as they were or the target with the
  whole new content, in every state it goes through; at the end the result tells which.
\<close>

definition old_or_new :: "path set \<Rightarrow> files \<Rightarrow> path \<Rightarrow> bytes \<Rightarrow> files \<Rightarrow> bool" where
  "old_or_new T old p content fs = (agree T fs old \<or> agree T fs (old(p := Some content)))"

lemma logs_old_or_new:
  "logs (\<lambda>fs. agree {t} fs gs) s s' \<Longrightarrow> agree {t} gs old \<Longrightarrow> logs (old_or_new {t} old p content) s s'"
  "logs (\<lambda>fs. fs = gs) s s' \<Longrightarrow> agree {t} gs old \<Longrightarrow> logs (old_or_new {t} old p content) s s'"
  "logs (\<lambda>fs. fs = gs) s s' \<Longrightarrow> agree {t} gs (old(p := Some content)) \<Longrightarrow> logs (old_or_new {t} old p content) s s'"
  by (erule logs_mono, auto simp: old_or_new_def intro: agree_trans)+

lemma replace_effect:
  assumes "fs_bind (fs_write t content s) (\<lambda>_ s. fs_bind (fs_neutral s) (\<lambda>_. fs_rename t p)) = (r, s')" "t \<noteq> p"
  shows "logs (old_or_new {t} (fs_files s) p content) s s'
    \<and> agree {t} (fs_files s') (if is_ok r then (fs_files s)(p := Some content) else fs_files s)"
  using assms(1)
proof (cases rule: fs_bind_cases)
  case (err e)
  with fs_write_effect[OF err(1)] show ?thesis by (auto intro: logs_old_or_new(1))
next
  case (ok y s2)
  note w = fs_write_effect[OF ok(1)]
  then have l1: "logs (old_or_new {t} (fs_files s) p content) s s2" by (auto intro: logs_old_or_new(1))
  from ok(2) show ?thesis
  proof (cases rule: fs_bind_cases)
    case (err e)
    with fs_neutral_effect[OF err(1)] w have "logs (old_or_new {t} (fs_files s) p content) s2 s'"
      "agree {t} (fs_files s') (fs_files s)" by (auto intro: logs_old_or_new(2))
    with err l1 logs_trans show ?thesis by force
  next
    case (ok z s3)
    note n = fs_neutral_effect[OF ok(1)] and rn = fs_rename_effect[OF ok(2)]
    have l2: "logs (old_or_new {t} (fs_files s) p content) s2 s3"
      using n w by (auto intro: logs_old_or_new(2))
    have fin: "agree {t} (fs_files s') (if is_ok r then (fs_files s)(p := Some content) else fs_files s)"
      using rn n w assms(2) by (auto simp: agree_def split: if_splits)
    then have "logs (old_or_new {t} (fs_files s) p content) s3 s'"
      using rn by (cases "is_ok r") (auto intro: logs_old_or_new(2,3))
    with l1 l2 fin show ?thesis by (blast intro: logs_trans)
  qed
qed

lemma atomic_write_effect:
  assumes run: "atomic_write suffix p content s = (r, s')" and t: "temporary_path suffix p \<noteq> p"
  shows "logs (old_or_new {temporary_path suffix p} (fs_files s) p content) s s'
    \<and> agree {temporary_path suffix p} (fs_files s') (if is_ok r then (fs_files s)(p := Some content) else fs_files s)"
proof (cases "path_parent p")
  case None
  with run show ?thesis by (auto simp: atomic_write_def)
next
  case (Some parent)
  let ?t = "temporary_path suffix p"
  obtain r1 s1 where prep: "prepare_private_directory parent s = (r1, s1)" by (cases "prepare_private_directory parent s")
  note pe = prepare_effect[OF prep]
  then have l1: "logs (old_or_new {?t} (fs_files s) p content) s s1" by (auto intro: logs_old_or_new(2))
  show ?thesis
  proof (cases r1)
    case (Inl e)
    with run Some prep pe l1 show ?thesis by (auto simp: atomic_write_def)
  next
    case (Inr u)
    obtain r2 s2 where rep: "fs_bind (fs_write ?t content s1) (\<lambda>_ s. fs_bind (fs_neutral s) (\<lambda>_. fs_rename ?t p)) = (r2, s2)"
      by fastforce
    note re = replace_effect[OF rep t, unfolded pe[THEN conjunct1]]
    show ?thesis
    proof (cases r2)
      case Ok: (Inr v)
      with run Some prep Inr rep have "r = Inr ()" "s' = s2" by (auto simp: atomic_write_def Let_def)
      with re Ok l1 show ?thesis by (auto intro: logs_trans)
    next
      case Bad: (Inl e)
      with run Some prep Inr rep have r: "r = Inl (Io e)" "s' = snd (fs_remove ?t s2)"
        by (auto simp: atomic_write_def Let_def)
      have ag: "agree {?t} (fs_files s2) (fs_files s)" using re Bad by simp
      with fs_remove_effect[of ?t s2] r have "logs (old_or_new {?t} (fs_files s) p content) s2 s'"
        "agree {?t} (fs_files s') (fs_files s)"
        by (auto intro: agree_trans logs_old_or_new(1))
      with re l1 r show ?thesis by (auto intro: logs_trans)
    qed
  qed
qed

section \<open>Crash consistency of the certificate cache\<close>

abbreviation cache_file :: "path \<Rightarrow> string \<Rightarrow> string \<Rightarrow> path" where
  "cache_file root i f \<equiv> path_join (certificate_directory root i) (Path False [f])"

abbreviation legacy_file :: "path \<Rightarrow> string \<Rightarrow> string \<Rightarrow> path" where
  "legacy_file root i f \<equiv> path_join (legacy_directory root i) (Path False [f])"

lemma cache_file_eq: "cache_file root i f = Path (has_root root) (components root @ [''certificates'', i, f])"
  by (simp add: certificate_directory_def path_join_def)

lemma legacy_file_eq: "legacy_file root i f = Path (has_root root) (components root @ [i, f])"
  by (simp add: legacy_directory_def path_join_def)

lemma temporary_path_eq:
  assumes "f \<noteq> ''.''" "f \<noteq> ''..''"
  shows "temporary_path suffix (cache_file root i f) =
    Path (has_root root) (components root @ [''certificates'', i, file_stem f @ ''.tmp-'' @ suffix])"
  using assms
  by (simp add: temporary_path_def cache_file_eq path_with_extension_def path_file_name_def path_with_file_name_def
      butlast_append)

lemma file_stems:
  "file_stem ''certificate.pem'' = ''certificate''" "file_stem ''private-key.pem'' = ''private-key''"
  "file_stem ''metadata-v2.json'' = ''metadata-v2''"
  by code_simp+

definition temporaries :: "cache_env \<Rightarrow> path \<Rightarrow> string \<Rightarrow> path set" where
  "temporaries env root i =
     {temporary_path (ca_suffix env 0) (cache_file root i ''certificate.pem''),
      temporary_path (ca_suffix env 1) (cache_file root i ''private-key.pem''),
      temporary_path (ca_suffix env 2) (cache_file root i ''metadata-v2.json'')}"

lemma not_temporary:
  "f \<in> {''certificate.pem'', ''private-key.pem'', ''metadata-v2.json''} \<Longrightarrow> cache_file root i f \<notin> temporaries env root i"
  "legacy_file root i f \<notin> temporaries env root i"
  by (auto simp: temporaries_def temporary_path_eq file_stems) (auto simp: cache_file_eq legacy_file_eq)

lemma read_optional_agree:
  assumes "agree T fs gs" "p \<notin> T"
  shows "read_optional e fs p = read_optional e gs p"
proof -
  have "fs p = gs p" using assms by (simp add: agree_def)
  then show ?thesis by (simp only: read_optional_def)
qed

lemma load_agree:
  assumes "agree (temporaries env root (ce_id c)) fs gs"
  shows "load_certificate env fs root c = load_certificate env gs root c"
proof -
  note read = read_optional_agree[OF assms]
  have pair: "read_pair env fs e (certificate_directory root (ce_id c)) = read_pair env gs e (certificate_directory root (ce_id c))"
    "read_pair env fs e (legacy_directory root (ce_id c)) = read_pair env gs e (legacy_directory root (ce_id c))" for e
    unfolding read_pair_def by (simp_all add: read not_temporary)
  have meta: "read_optional e fs (cache_file root (ce_id c) ''metadata-v2.json'') =
      read_optional e gs (cache_file root (ce_id c) ''metadata-v2.json'')"
    "read_optional e fs (legacy_file root (ce_id c) ''certificate-v1.json'') =
      read_optional e gs (legacy_file root (ce_id c) ''certificate-v1.json'')" for e
    by (simp_all add: read not_temporary)
  show ?thesis
    unfolding load_certificate_def load_current_def load_legacy_def pair meta ..
qed

text \<open>The contents the three files go through, in the order in which they are committed.\<close>

definition stage :: "path \<Rightarrow> CertificateConfig \<Rightarrow> bytes \<Rightarrow> bytes \<Rightarrow> bytes \<Rightarrow> files \<Rightarrow> nat \<Rightarrow> files" where
  "stage root c certificate private_key metadata fs n =
     (let fs1 = fs(cache_file root (ce_id c) ''certificate.pem'' := Some certificate);
          fs2 = fs1(cache_file root (ce_id c) ''private-key.pem'' := Some private_key);
          fs3 = fs2(cache_file root (ce_id c) ''metadata-v2.json'' := Some metadata)
      in [fs, fs1, fs2, fs3] ! n)"

lemma stage_simps:
  "stage root c cert key md fs 0 = fs"
  "stage root c cert key md fs (Suc 0) = fs(cache_file root (ce_id c) ''certificate.pem'' := Some cert)"
  "stage root c cert key md fs 2 = (stage root c cert key md fs (Suc 0))(cache_file root (ce_id c) ''private-key.pem'' := Some key)"
  "stage root c cert key md fs 3 = (stage root c cert key md fs 2)(cache_file root (ce_id c) ''metadata-v2.json'' := Some md)"
  by (simp_all add: stage_def Let_def eval_nat_numeral)

text \<open>One of the three writes, started in stage \<open>n\<close> up to temporary files.\<close>

lemma write_stage:
  assumes run: "atomic_write suffix p content s = (r, s')"
    and st: "agree T (fs_files s) (stage root c cert key md old n)"
    and nxt: "stage root c cert key md old m = (stage root c cert key md old n)(p := Some content)"
    and T: "temporary_path suffix p \<in> T" "p \<notin> T"
  shows "logs (\<lambda>fs. agree T fs (stage root c cert key md old n) \<or> agree T fs (stage root c cert key md old m)) s s'"
    and "agree T (fs_files s') (stage root c cert key md old (if is_ok r then m else n))"
proof -
  let ?t = "temporary_path suffix p"
  have "?t \<noteq> p" using T by metis
  from atomic_write_effect[OF run this] have e: "logs (old_or_new {?t} (fs_files s) p content) s s'"
    "agree {?t} (fs_files s') (if is_ok r then (fs_files s)(p := Some content) else fs_files s)" by simp_all
  have up: "agree T fs (stage root c cert key md old n)" if "agree {?t} fs (fs_files s)" for fs
    using agree_trans[OF agree_mono[OF that] st] T(1) by simp
  have up': "agree T fs (stage root c cert key md old m)" if "agree {?t} fs ((fs_files s)(p := Some content))" for fs
  proof -
    have "agree T fs ((fs_files s)(p := Some content))" using that by (rule agree_mono) (use T(1) in simp)
    moreover have "agree T ((fs_files s)(p := Some content)) (stage root c cert key md old m)"
      using st by (simp add: agree_def nxt)
    ultimately show ?thesis by (rule agree_trans)
  qed
  show "agree T (fs_files s') (stage root c cert key md old (if is_ok r then m else n))"
    using e(2) up up' by (cases "is_ok r") simp_all
  show "logs (\<lambda>fs. agree T fs (stage root c cert key md old n) \<or> agree T fs (stage root c cert key md old m)) s s'"
    using e(1) by (rule logs_mono) (use up up' in \<open>auto simp: old_or_new_def\<close>)
qed

text \<open>What loading returns in each stage.\<close>

definition expiry_mismatch :: "(ProxyError, CachedCertificate option) res" where
  "expiry_mismatch = Inl (Tls ''the cached expiry differs from the leaf certificate'')"

lemma cache_files_distinct:
  "cache_file root i f = cache_file root i g \<longleftrightarrow> f = g" "legacy_file root i f \<noteq> cache_file root j g"
  by (auto simp: cache_file_eq legacy_file_eq)

lemma load_eq:
  assumes "ca_read_error env = (\<lambda>_. None)"
  shows "load_certificate env fs root c =
    (case fs (cache_file root (ce_id c) ''metadata-v2.json'') of
       None \<Rightarrow> load_legacy env fs (legacy_directory root (ce_id c)) c
     | Some b \<Rightarrow>
         (case ca_parse env b of
            Inl e \<Rightarrow> Inl (Json e)
          | Inr m \<Rightarrow>
              if \<not> metadata_matches m c then load_legacy env fs (legacy_directory root (ce_id c)) c
              else case fs (cache_file root (ce_id c) ''certificate.pem'') of
                None \<Rightarrow> load_legacy env fs (legacy_directory root (ce_id c)) c
              | Some a \<Rightarrow>
                  (case fs (cache_file root (ce_id c) ''private-key.pem'') of
                     None \<Rightarrow> load_legacy env fs (legacy_directory root (ce_id c)) c
                   | Some k \<Rightarrow>
                       res_bind (parse_certificate_expiry env a) (\<lambda>x.
                         if md_expires_at m \<noteq> x then expiry_mismatch
                         else Inr (Some \<lparr>cd_certificate = a, cd_private_key = k, cd_expires_at = x\<rparr>)))))"
  using assms
  by (auto simp: load_certificate_def load_current_def read_optional_def read_pair_def json_result_def
      expiry_mismatch_def res_bind_def split: option.splits sum.splits)

lemma load_legacy_stage:
  assumes "n \<le> 3"
  shows "load_legacy env (stage root c cert key md old n) (legacy_directory root (ce_id c)) c =
    load_legacy env old (legacy_directory root (ce_id c)) c"
proof -
  have "n = 0 \<or> n = 1 \<or> n = 2 \<or> n = 3" using assms by auto
  then have "stage root c cert key md old n (legacy_file root (ce_id c) f) = old (legacy_file root (ce_id c) f)" for f
    using cache_files_distinct(2) by (auto simp: stage_simps)
  then have read: "read_optional e (stage root c cert key md old n) (legacy_file root (ce_id c) f) =
      read_optional e old (legacy_file root (ce_id c) f)" for e f by (simp only: read_optional_def)
  have "read_pair env (stage root c cert key md old n) e (legacy_directory root (ce_id c)) =
      read_pair env old e (legacy_directory root (ce_id c))" for e
    unfolding read_pair_def read ..
  then show ?thesis by (simp only: load_legacy_def read)
qed

lemma load_partial_stage:
  assumes reads: "ca_read_error env = (\<lambda>_. None)"
    and exp: "parse_certificate_expiry env cert = Inr e"
    and other: "\<And>b m. old (cache_file root (ce_id c) ''metadata-v2.json'') = Some b \<Longrightarrow> ca_parse env b = Inr m \<Longrightarrow> md_expires_at m \<noteq> e"
    and n: "n = 1 \<or> n = 2"
  shows "load_certificate env (stage root c cert key md old n) root c \<in> {load_certificate env old root c, expiry_mismatch}"
proof -
  let ?s = "stage root c cert key md old n"
  let ?f = "cache_file root (ce_id c)"
  have files: "?s (?f ''metadata-v2.json'') = old (?f ''metadata-v2.json'')" "?s (?f ''certificate.pem'') = Some cert"
    "?s (?f ''private-key.pem'') = old (?f ''private-key.pem'') \<or> ?s (?f ''private-key.pem'') = Some key"
    using n by (auto simp: stage_simps cache_files_distinct)
  have leg: "load_legacy env ?s (legacy_directory root (ce_id c)) c = load_legacy env old (legacy_directory root (ce_id c)) c"
    using n by (intro load_legacy_stage) auto
  show ?thesis
  proof (cases "\<exists>b m k. old (?f ''metadata-v2.json'') = Some b \<and> ca_parse env b = Inr m \<and> metadata_matches m c
      \<and> ?s (?f ''private-key.pem'') = Some k")
    case True
    then have "load_certificate env ?s root c = expiry_mismatch"
      using files(1,2) other exp by (auto simp: load_eq[OF reads])
    then show ?thesis by simp
  next
    case False
    then have "load_certificate env ?s root c = load_certificate env old root c"
      using files(3) unfolding load_eq[OF reads] leg files(1,2)
      by (auto split: option.split sum.split)
    then show ?thesis by simp
  qed
qed

lemma load_final_stage:
  assumes reads: "ca_read_error env = (\<lambda>_. None)"
    and exp: "parse_certificate_expiry env cert = Inr e"
    and json: "ca_parse env md = Inr (metadata_new c e)"
  shows "load_certificate env (stage root c cert key md old 3) root c =
    Inr (Some \<lparr>cd_certificate = cert, cd_private_key = key, cd_expires_at = e\<rparr>)"
  using json exp
  by (simp add: load_eq[OF reads] stage_simps cache_files_distinct metadata_matches_def metadata_new_def)

lemma write_stages:
  assumes exp: "parse_certificate_expiry env cert = Inr e" and md: "ca_json env (metadata_new c e) = Inr md"
    and run: "store_certificate env root c cert key s = (r, s')"
  shows "\<exists>n \<le> 3. agree (temporaries env root (ce_id c)) (fs_files s') (stage root c cert key md (fs_files s) n)
    \<and> (is_ok r \<longrightarrow> n = 3 \<and> r = Inr e)
    \<and> logs (\<lambda>fs. \<exists>n \<le> 3. agree (temporaries env root (ce_id c)) fs (stage root c cert key md (fs_files s) n)) s s'"
proof -
  let ?T = "temporaries env root (ce_id c)"
  let ?st = "stage root c cert key md (fs_files s)"
  let ?L = "\<lambda>fs. \<exists>n \<le> 3. agree ?T fs (?st n)"
  have T: "temporary_path (ca_suffix env 0) (cache_file root (ce_id c) ''certificate.pem'') \<in> ?T"
    "temporary_path (ca_suffix env (Suc 0)) (cache_file root (ce_id c) ''private-key.pem'') \<in> ?T"
    "temporary_path (ca_suffix env 2) (cache_file root (ce_id c) ''metadata-v2.json'') \<in> ?T"
    by (simp_all add: temporaries_def)
  have P: "cache_file root (ce_id c) ''certificate.pem'' \<notin> ?T" "cache_file root (ce_id c) ''private-key.pem'' \<notin> ?T"
    "cache_file root (ce_id c) ''metadata-v2.json'' \<notin> ?T"
    by (simp_all add: not_temporary)
  have step: "agree ?T (fs_files t') (?st (if is_ok r' then m else n)) \<and> logs ?L s t'"
    if "agree ?T (fs_files t) (?st n) \<and> logs ?L s t" "n \<le> 3" "m \<le> 3" "atomic_write sfx p content t = (r', t')"
      "temporary_path sfx p \<in> ?T" "p \<notin> ?T" "?st m = (?st n)(p := Some content)" for t t' n m sfx p content r'
  proof -
    note w = write_stage[OF that(4) that(1)[THEN conjunct1] that(7,5,6)]
    have "logs ?L t t'" using w(1) by (rule logs_mono) (use that(2,3) in blast)
    with w(2) that(1) show ?thesis using logs_trans by blast
  qed
  have s0: "agree ?T (fs_files s) (?st 0) \<and> logs ?L s s" by (simp add: stage_simps)
  note run' = run[unfolded store_certificate_def Let_def exp, simplified]
  from run' show ?thesis
  proof (cases rule: fs_bind_cases)
    case (err x)
    from step[OF s0 _ _ err(1) T(1) P(1), of "Suc 0"] err(2) show ?thesis
      by (intro exI[of _ 0]) (simp add: stage_simps)
  next
    case (ok u1 s1)
    from step[OF s0 _ _ ok(1) T(1) P(1), of "Suc 0"]
    have s1: "agree ?T (fs_files s1) (?st (Suc 0)) \<and> logs ?L s s1" by (simp add: stage_simps)
    from ok(2) show ?thesis
    proof (cases rule: fs_bind_cases)
      case (err x)
      from step[OF s1 _ _ err(1) T(2) P(2), of 2] err(2) show ?thesis
        by (intro exI[of _ "Suc 0"]) (simp add: stage_simps)
    next
      case (ok u2 s2)
      from step[OF s1 _ _ ok(1) T(2) P(2), of 2]
      have s2: "agree ?T (fs_files s2) (?st 2) \<and> logs ?L s s2" by (simp add: stage_simps)
      from ok(2) md have "fs_bind (atomic_write (ca_suffix env 2) (cache_file root (ce_id c) ''metadata-v2.json'') md s2)
          (\<lambda>_ s. (Inr e, s)) = (r, s')" by (simp add: json_result_def)
      then show ?thesis
      proof (cases rule: fs_bind_cases)
        case (err x)
        from step[OF s2 _ _ err(1) T(3) P(3), of 3] err(2) show ?thesis
          by (intro exI[of _ 2]) (simp add: stage_simps)
      next
        case (ok u3 s3)
        from step[OF s2 _ _ ok(1) T(3) P(3), of 3] ok(2) show ?thesis
          by (intro exI[of _ 3]) (simp add: stage_simps)
      qed
    qed
  qed
qed


definition sample_certificate :: CertificateConfig where
  "sample_certificate =
     \<lparr>ce_id = ''site'', ce_name = ''site'', ce_domains = [''example.com''], ce_acme_account_id = ''acme'',
      ce_validation = Some Manual, ce_auto_renew = False, ce_migration_error = None\<rparr>"

definition sample_cache_env :: cache_env where
  "sample_cache_env =
     \<lparr>ca_account_json = (\<lambda>_. Inl ''none''), ca_account_parse = (\<lambda>_. Inl ''none''),
      ca_json = (\<lambda>_. Inr [7]), ca_parse = (\<lambda>_. Inr (metadata_new sample_certificate 1000)),
      ca_legacy_parse = (\<lambda>_. Inl ''none''), ca_not_after = (\<lambda>_. Inr 1000),
      ca_read_error = (\<lambda>_. None), ca_suffix = (\<lambda>_. ''1-0'')\<rparr>"

definition sample_fs :: fs_state where
  "sample_fs = \<lparr>fs_files = (\<lambda>_. None), fs_ops = 0,
     fs_faults = (\<lambda>n. if n = 9 then Some (OtherIo ''disk'', None) else None), fs_log = []\<rparr>"


end
