(* ===== verification/Router.thy ===== *)
theory Router
  imports Proxy_Config
begin

text \<open>
  \<open>gaterust-proxy/src/router.rs\<close>: the routing table of the proxy. The two unstable sorts of the
  source are modelled by a stable one; \<open>find_path_order\<close> and \<open>find_wildcard\<close> show that the order
  of entries with equal keys does not matter.
\<close>

section \<open>The routing table\<close>

record Route =
  ro_name :: string
  ro_upstream :: Uri
  ro_tls :: bool

record RouteEntry =
  re_path_prefix :: string
  re_route :: Route

record Router =
  rt_exact :: "(string, RouteEntry list) hm"
  rt_wildcard :: "(string \<times> RouteEntry list) list"

definition route_entry :: "(string \<Rightarrow> Uri option) \<Rightarrow> RouteConfig \<Rightarrow> (ProxyError, RouteEntry) res" where
  "route_entry parse_uri r =
     (case parse_uri (rc_upstream r) of
        None \<Rightarrow> Inl (InvalidConfig (''invalid upstream URI: '' @ rc_upstream r))
      | Some uri \<Rightarrow>
          Inr \<lparr>re_path_prefix = rc_path_prefix r,
               re_route = \<lparr>ro_name = rc_name r, ro_upstream = uri, ro_tls = rc_certificate_id r \<noteq> None\<rparr>\<rparr>)"

text \<open>\<open>map.entry(key).or_default().push(entry)\<close>\<close>

definition push_entry :: "string \<Rightarrow> RouteEntry \<Rightarrow> (string, RouteEntry list) hm \<Rightarrow> (string, RouteEntry list) hm" where
  "push_entry k e m = hm_insert k ((case hm_get m k of None \<Rightarrow> [] | Some es \<Rightarrow> es) @ [e]) m"

definition add_route ::
  "(string \<Rightarrow> Uri option) \<Rightarrow> RouteConfig \<Rightarrow> (string, RouteEntry list) hm \<times> (string, RouteEntry list) hm
     \<Rightarrow> (ProxyError, (string, RouteEntry list) hm \<times> (string, RouteEntry list) hm) res" where
  "add_route parse_uri r tables =
     (case tables of (exact, wildcard) \<Rightarrow>
        res_bind (route_entry parse_uri r) (\<lambda>e.
          Inr (case strip_prefix ''*.'' (rc_host r) of
                 Some suffix \<Rightarrow> (exact, push_entry suffix e wildcard)
               | None \<Rightarrow> (push_entry (rc_host r) e exact, wildcard))))"

definition sort_entries :: "RouteEntry list \<Rightarrow> RouteEntry list" where
  "sort_entries es = sort_key (\<lambda>e. - int (length (re_path_prefix e))) es"

definition router_new :: "(string \<Rightarrow> Uri option) \<Rightarrow> ProxyConfig \<Rightarrow> (ProxyError, Router) res" where
  "router_new parse_uri c =
     res_bind (res_fold (add_route parse_uri) (pc_routes c) ([], [])) (\<lambda>(exact, wildcard).
       Inr \<lparr>rt_exact = map (\<lambda>(k, es). (k, sort_entries es)) exact,
            rt_wildcard = sort_key (\<lambda>(k, _). - int (length k)) (map (\<lambda>(k, es). (k, sort_entries es)) wildcard)\<rparr>)"

definition path_matches :: "string \<Rightarrow> string \<Rightarrow> bool" where
  "path_matches path prefix =
     (path = prefix
      \<or> (case strip_prefix prefix path of
           None \<Rightarrow> False
         | Some rest \<Rightarrow> ends_with prefix CHR ''/'' \<or> take 1 rest = ''/''))"

definition find_path :: "RouteEntry list \<Rightarrow> string \<Rightarrow> Route option" where
  "find_path es path = map_option re_route (List.find (\<lambda>e. path_matches path (re_path_prefix e)) es)"

definition router_find :: "Router \<Rightarrow> string \<Rightarrow> string \<Rightarrow> Route option" where
  "router_find r host path =
     (case Option.bind (hm_get (rt_exact r) host) (\<lambda>es. find_path es path) of
        Some route \<Rightarrow> Some route
      | None \<Rightarrow>
          Option.bind (List.find (\<lambda>(suffix, _). wildcard_matches host suffix) (rt_wildcard r))
            (\<lambda>(_, es). find_path es path))"

section \<open>The specification\<close>

definition is_wild :: "RouteConfig \<Rightarrow> bool" where
  "is_wild r = (strip_prefix ''*.'' (rc_host r) \<noteq> None)"

text \<open>
  A wildcard host stands for the hosts with one label in place of the star. A path prefix covers
  itself and the paths below it, where the boundary is a slash: \<open>/api\<close> covers \<open>/api/v1\<close> and not
  \<open>/apix\<close>.
\<close>

definition host_matches :: "RouteConfig \<Rightarrow> string \<Rightarrow> bool" where
  "host_matches r host =
     (if is_wild r
      then (case split_once CHR ''.'' host of None \<Rightarrow> False | Some (_, parent) \<Rightarrow> rc_host r = ''*.'' @ parent)
      else rc_host r = host)"

definition path_under :: "string \<Rightarrow> string \<Rightarrow> bool" where
  "path_under path p =
     (path = p \<or> (let folder = (if ends_with p CHR ''/'' then p else p @ ''/'') in take (length folder) path = folder))"

definition serves :: "RouteConfig \<Rightarrow> string \<Rightarrow> string \<Rightarrow> bool" where
  "serves r host path = (host_matches r host \<and> path_under path (rc_path_prefix r))"

text \<open>An exact host beats a wildcard; among hosts of the same kind the longer path prefix wins.\<close>

definition more_specific :: "RouteConfig \<Rightarrow> RouteConfig \<Rightarrow> bool" where
  "more_specific r s =
     (\<not> is_wild r \<and> is_wild s
      \<or> is_wild r = is_wild s \<and> length (rc_path_prefix s) < length (rc_path_prefix r))"

definition route_of :: "(string \<Rightarrow> Uri option) \<Rightarrow> RouteConfig \<Rightarrow> Route" where
  "route_of parse_uri r =
     \<lparr>ro_name = rc_name r, ro_upstream = the (parse_uri (rc_upstream r)), ro_tls = rc_certificate_id r \<noteq> None\<rparr>"

definition routes_to :: "(string \<Rightarrow> Uri option) \<Rightarrow> RouteConfig list \<Rightarrow> string \<Rightarrow> string \<Rightarrow> Route option \<Rightarrow> bool" where
  "routes_to pu rs host path result =
     (case result of
        None \<Rightarrow> (\<forall>r \<in> set rs. \<not> serves r host path)
      | Some ro \<Rightarrow>
          (\<exists>r \<in> set rs. serves r host path \<and> ro = route_of pu r
             \<and> (\<forall>s \<in> set rs. serves s host path \<and> s \<noteq> r \<longrightarrow> more_specific r s)))"

section \<open>Lemmas\<close>

lemma path_matches_prefix: "path_matches path prefix \<Longrightarrow> take (length prefix) path = prefix"
  by (auto simp: path_matches_def str_simps split: option.splits)

lemma take_length_eq_iff: "take (length p) s = p \<longleftrightarrow> (\<exists>r. s = p @ r)"
  by (metis append_eq_conv_conj append_take_drop_id)

lemma path_under_iff: "path_under path p \<longleftrightarrow> path_matches path p"
proof (cases "strip_prefix p path")
  case None
  then have "path \<noteq> p @ r" for r using strip_prefix_Some_iff[of p path r] by auto
  then show ?thesis using None by (simp add: path_under_def path_matches_def Let_def take_length_eq_iff del: length_append)
next
  case (Some rest)
  then have "path = p @ rest" by (simp add: str_simps)
  with Some show ?thesis by (simp add: path_under_def path_matches_def Let_def)
qed

lemma serves_iff: "serves r host path \<longleftrightarrow> host_matches r host \<and> path_matches path (rc_path_prefix r)"
  by (simp add: serves_def path_under_iff)

lemma path_matches_same_length:
  "path_matches path a \<Longrightarrow> path_matches path b \<Longrightarrow> length a = length b \<Longrightarrow> a = b"
  by (metis path_matches_prefix)

lemma find_first_of_sorted:
  assumes "sorted (map k xs)" "List.find P xs = Some x"
  shows "x \<in> set xs \<and> P x \<and> (\<forall>y \<in> set xs. P y \<longrightarrow> k x \<le> k y)"
  using assms
proof (induction xs)
  case (Cons a xs)
  then show ?case by (cases "P a") auto
qed simp

lemma find_key_distinct:
  "List.find (\<lambda>(k, _). k = key) m = map_option (Pair key) (map_of m key)"
  by (induction m) auto

lemma set_sort_entries [simp]: "set (sort_entries es) = set es"
  by (simp add: sort_entries_def)

text \<open>The first matching entry is the one with the longest prefix.\<close>

lemma find_path_Some:
  assumes "find_path (sort_entries es) path = Some ro"
  shows "\<exists>e \<in> set es. re_route e = ro \<and> path_matches path (re_path_prefix e)
    \<and> (\<forall>e' \<in> set es. path_matches path (re_path_prefix e') \<longrightarrow> length (re_path_prefix e') \<le> length (re_path_prefix e))"
proof -
  let ?k = "\<lambda>e. - int (length (re_path_prefix e))"
  from assms obtain e where e: "List.find (\<lambda>e. path_matches path (re_path_prefix e)) (sort_entries es) = Some e" "re_route e = ro"
    by (auto simp: find_path_def)
  have "sorted (map ?k (sort_entries es))" by (simp add: sort_entries_def)
  from find_first_of_sorted[OF this e(1)] e(2) show ?thesis by auto
qed

lemma find_path_None: "find_path es path = None \<longleftrightarrow> (\<forall>e \<in> set es. \<not> path_matches path (re_path_prefix e))"
  by (auto simp: find_path_def find_None_iff)

text \<open>Whatever order an unstable sort gives to entries with prefixes of the same length, the lookup is the same.\<close>

lemma find_path_order:
  assumes "mset es = mset (sort_entries fs)" "sorted (map (\<lambda>e. - int (length (re_path_prefix e))) es)"
    and "distinct (map re_path_prefix fs)"
  shows "find_path es path = find_path (sort_entries fs) path"
proof -
  let ?P = "\<lambda>e. path_matches path (re_path_prefix e)"
  let ?k = "\<lambda>e. - int (length (re_path_prefix e))"
  have set_eq: "set es = set fs" using assms(1) by (metis mset_eq_setD set_sort_entries)
  have sorted: "sorted (map ?k (sort_entries fs))" by (simp add: sort_entries_def)
  show ?thesis
  proof (cases "List.find ?P es")
    case None
    then have "List.find ?P (sort_entries fs) = None" by (simp add: find_None_iff set_eq)
    with None show ?thesis by (simp add: find_path_def)
  next
    case (Some x)
    have x: "x \<in> set fs" "?P x" "\<forall>y \<in> set fs. ?P y \<longrightarrow> ?k x \<le> ?k y"
      using find_first_of_sorted[OF assms(2) Some] set_eq by auto
    then obtain y where y: "List.find ?P (sort_entries fs) = Some y"
      by (metis (mono_tags, lifting) find_None_iff not_None_eq set_sort_entries)
    have "y \<in> set fs" "?P y" "?k y \<le> ?k x"
      using find_first_of_sorted[OF sorted y] x by auto
    with x have "re_path_prefix x = re_path_prefix y"
      by (intro path_matches_same_length[of path]) force+
    with x \<open>y \<in> set fs\<close> assms(3) have "x = y" by (auto simp: distinct_map inj_on_def)
    with Some y show ?thesis by (simp add: find_path_def)
  qed
qed

lemma find_wildcard:
  assumes "distinct (map fst m)" "mset m' = mset m"
  shows "List.find (\<lambda>(suffix, _). wildcard_matches host suffix) m' =
    (case split_once CHR ''.'' host of
       None \<Rightarrow> None
     | Some (_, parent) \<Rightarrow> map_option (Pair parent) (map_of m parent))"
proof (cases "split_once CHR ''.'' host")
  case None
  then show ?thesis by (simp add: wildcard_matches_iff case_prod_unfold find_None_iff)
next
  case (Some lp)
  obtain l parent where lp: "lp = (l, parent)" by (cases lp)
  have "mset (map fst m') = mset (map fst m)" using assms(2) by (metis mset_map)
  then have d: "distinct (map fst m')" using assms(1) by (metis mset_eq_imp_distinct_iff)
  have "map_of m' = map_of m"
    using d assms by (metis (no_types, lifting) ext map_of_eqI map_of_eq_Some_iff mset_eq_setD not_Some_eq)
  moreover have "(\<lambda>(suffix, _). wildcard_matches host suffix) = (\<lambda>(suffix, _ :: 'a). suffix = parent)"
    using Some lp by (auto simp: wildcard_matches_iff fun_eq_iff)
  ultimately show ?thesis using Some lp by (simp add: find_key_distinct)
qed

definition entry_of :: "(string \<Rightarrow> Uri option) \<Rightarrow> RouteConfig \<Rightarrow> RouteEntry" where
  "entry_of pu r = \<lparr>re_path_prefix = rc_path_prefix r, re_route = route_of pu r\<rparr>"

lemma entry_of_sel [simp]: "re_path_prefix (entry_of pu r) = rc_path_prefix r" "re_route (entry_of pu r) = route_of pu r"
  by (simp_all add: entry_of_def)

definition entries :: "(string, RouteEntry list) hm \<Rightarrow> string \<Rightarrow> RouteEntry list" where
  "entries m k = (case hm_get m k of None \<Rightarrow> [] | Some es \<Rightarrow> es)"

lemma entries_push [simp]: "entries (push_entry k e m) k' = (if k' = k then entries m k @ [e] else entries m k')"
  by (simp add: entries_def push_entry_def hm_simps)

lemma hm_wf_push [simp]: "hm_wf m \<Longrightarrow> hm_wf (push_entry k e m)"
  by (simp add: push_entry_def hm_wf_insert)

lemma add_routes:
  assumes "\<forall>r \<in> set rs. pu (rc_upstream r) \<noteq> None" "hm_wf ex" "hm_wf wi"
  shows "\<exists>ex' wi'. res_fold (add_route pu) rs (ex, wi) = Inr (ex', wi') \<and> hm_wf ex' \<and> hm_wf wi'
    \<and> (\<forall>k. entries ex' k = entries ex k @ map (entry_of pu) (filter (\<lambda>r. \<not> is_wild r \<and> rc_host r = k) rs))
    \<and> (\<forall>k. entries wi' k = entries wi k @ map (entry_of pu) (filter (\<lambda>r. rc_host r = ''*.'' @ k) rs))"
  using assms
proof (induction rs arbitrary: ex wi)
  case (Cons r rs)
  then have e: "route_entry pu r = Inr (entry_of pu r)"
    by (auto simp: route_entry_def entry_of_def route_of_def split: option.splits)
  show ?case
  proof (cases "strip_prefix ''*.'' (rc_host r)")
    case None
    then have host: "is_wild r = False" "rc_host r \<noteq> ''*.'' @ k" for k
      using strip_prefix_Some_iff[of "''*.''" "rc_host r" k] by (auto simp: is_wild_def)
    obtain ex' wi' where "res_fold (add_route pu) rs (push_entry (rc_host r) (entry_of pu r) ex, wi) = Inr (ex', wi')"
      "hm_wf ex'" "hm_wf wi'"
      "\<forall>k. entries ex' k = entries (push_entry (rc_host r) (entry_of pu r) ex) k
          @ map (entry_of pu) (filter (\<lambda>r. \<not> is_wild r \<and> rc_host r = k) rs)"
      "\<forall>k. entries wi' k = entries wi k @ map (entry_of pu) (filter (\<lambda>r. rc_host r = ''*.'' @ k) rs)"
      using Cons.IH[of "push_entry (rc_host r) (entry_of pu r) ex" wi] Cons.prems by auto
    moreover have "add_route pu r (ex, wi) = Inr (push_entry (rc_host r) (entry_of pu r) ex, wi)"
      using None e by (simp add: add_route_def)
    ultimately show ?thesis using host by (intro exI[of _ ex'] exI[of _ wi']) auto
  next
    case (Some s)
    then have host: "is_wild r" "rc_host r = ''*.'' @ s" by (auto simp: is_wild_def str_simps)
    obtain ex' wi' where "res_fold (add_route pu) rs (ex, push_entry s (entry_of pu r) wi) = Inr (ex', wi')"
      "hm_wf ex'" "hm_wf wi'"
      "\<forall>k. entries ex' k = entries ex k @ map (entry_of pu) (filter (\<lambda>r. \<not> is_wild r \<and> rc_host r = k) rs)"
      "\<forall>k. entries wi' k = entries (push_entry s (entry_of pu r) wi) k
          @ map (entry_of pu) (filter (\<lambda>r. rc_host r = ''*.'' @ k) rs)"
      using Cons.IH[of ex "push_entry s (entry_of pu r) wi"] Cons.prems by auto
    moreover have "add_route pu r (ex, wi) = Inr (ex, push_entry s (entry_of pu r) wi)"
      using Some e by (simp add: add_route_def)
    ultimately show ?thesis using host by (intro exI[of _ ex'] exI[of _ wi']) auto
  qed
qed auto

lemma map_of_sort_entries:
  "map_of (map (\<lambda>(k, es). (k, sort_entries es)) m) k = map_option sort_entries (hm_get m k)"
  by (simp add: hm_get_def map_of_map)

lemma find_path_entries:
  "Option.bind (map_option sort_entries (hm_get m k)) (\<lambda>es. find_path es path) = find_path (sort_entries (entries m k)) path"
  by (cases "hm_get m k") (simp_all add: entries_def find_path_def sort_entries_def)

text \<open>The lookup in terms of the configured routes.\<close>

definition candidates :: "(string \<Rightarrow> Uri option) \<Rightarrow> (RouteConfig \<Rightarrow> bool) \<Rightarrow> RouteConfig list \<Rightarrow> RouteEntry list" where
  "candidates pu P rs = sort_entries (map (entry_of pu) (filter P rs))"

lemma router_find_candidates:
  assumes "\<forall>r \<in> set (pc_routes c). pu (rc_upstream r) \<noteq> None"
  shows "\<exists>R. router_new pu c = Inr R \<and>
    (\<forall>host path. router_find R host path =
       (case find_path (candidates pu (\<lambda>r. \<not> is_wild r \<and> rc_host r = host) (pc_routes c)) path of
          Some ro \<Rightarrow> Some ro
        | None \<Rightarrow>
            (case split_once CHR ''.'' host of
               None \<Rightarrow> None
             | Some (_, parent) \<Rightarrow> find_path (candidates pu (\<lambda>r. rc_host r = ''*.'' @ parent) (pc_routes c)) path)))"
proof -
  from add_routes[OF assms, of "[]" "[]"] obtain ex wi where
    run: "res_fold (add_route pu) (pc_routes c) ([], []) = Inr (ex, wi)" and wf: "hm_wf ex" "hm_wf wi"
    and ex: "\<And>k. entries ex k = map (entry_of pu) (filter (\<lambda>r. \<not> is_wild r \<and> rc_host r = k) (pc_routes c))"
    and wi: "\<And>k. entries wi k = map (entry_of pu) (filter (\<lambda>r. rc_host r = ''*.'' @ k) (pc_routes c))"
    by (auto simp: entries_def[of "[]"])
  let ?s = "\<lambda>m. map (\<lambda>(k, es). (k, sort_entries es)) m"
  let ?w = "sort_key (\<lambda>(k, _). - int (length k)) (?s wi)"
  have d: "distinct (map fst (?s wi))" using wf(2) by (simp add: hm_wf_def case_prod_unfold o_def)
  have found: "List.find (\<lambda>(suffix, _). wildcard_matches host suffix) ?w =
      (case split_once CHR ''.'' host of
         None \<Rightarrow> None
       | Some (_, parent) \<Rightarrow> map_option (Pair parent) (map_of (?s wi) parent))" for host
    by (rule find_wildcard[OF d]) simp
  have wild: "Option.bind (List.find (\<lambda>(suffix, _). wildcard_matches host suffix) ?w) (\<lambda>(_, es). find_path es path) =
      (case split_once CHR ''.'' host of
         None \<Rightarrow> None
       | Some (_, parent) \<Rightarrow> find_path (candidates pu (\<lambda>r. rc_host r = ''*.'' @ parent) (pc_routes c)) path)" for host path
    unfolding found map_of_sort_entries
    by (auto simp: candidates_def find_path_entries[symmetric] wi[symmetric, simplified]
        map_option.compositionality bind_map_option o_def split: option.splits)
  have exact: "Option.bind (hm_get (?s ex) host) (\<lambda>es. find_path es path) =
      find_path (candidates pu (\<lambda>r. \<not> is_wild r \<and> rc_host r = host) (pc_routes c)) path" for host path
    unfolding candidates_def ex[symmetric] find_path_entries[symmetric]
    by (simp add: hm_get_def[of "?s ex"] map_of_sort_entries)
  let ?R = "\<lparr>rt_exact = ?s ex, rt_wildcard = ?w\<rparr>"
  have "router_new pu c = Inr ?R" by (simp add: router_new_def run)
  moreover have "router_find ?R host path =
       (case find_path (candidates pu (\<lambda>r. \<not> is_wild r \<and> rc_host r = host) (pc_routes c)) path of
          Some ro \<Rightarrow> Some ro
        | None \<Rightarrow>
            (case split_once CHR ''.'' host of
               None \<Rightarrow> None
             | Some (_, parent) \<Rightarrow> find_path (candidates pu (\<lambda>r. rc_host r = ''*.'' @ parent) (pc_routes c)) path))"
    for host path
    unfolding router_find_def Router.select_convs wild exact ..
  ultimately show ?thesis by blast
qed

lemma candidates_find:
  "find_path (candidates pu P rs) path = None \<longleftrightarrow> (\<forall>r \<in> set rs. \<not> (P r \<and> path_matches path (rc_path_prefix r)))"
  "find_path (candidates pu P rs) path = Some ro \<Longrightarrow>
     \<exists>r \<in> set rs. P r \<and> path_matches path (rc_path_prefix r) \<and> route_of pu r = ro
       \<and> (\<forall>s \<in> set rs. P s \<and> path_matches path (rc_path_prefix s)
            \<longrightarrow> length (rc_path_prefix s) \<le> length (rc_path_prefix r))"
proof -
  show "find_path (candidates pu P rs) path = None \<longleftrightarrow> (\<forall>r \<in> set rs. \<not> (P r \<and> path_matches path (rc_path_prefix r)))"
    by (auto simp: candidates_def find_path_None)
  assume "find_path (candidates pu P rs) path = Some ro"
  from find_path_Some[OF this[unfolded candidates_def]]
  show "\<exists>r \<in> set rs. P r \<and> path_matches path (rc_path_prefix r) \<and> route_of pu r = ro
       \<and> (\<forall>s \<in> set rs. P s \<and> path_matches path (rc_path_prefix s)
            \<longrightarrow> length (rc_path_prefix s) \<le> length (rc_path_prefix r))"
    by fastforce
qed

lemma host_matches_iff:
  "host_matches r host \<longleftrightarrow>
     \<not> is_wild r \<and> rc_host r = host \<or> (\<exists>l parent. split_once CHR ''.'' host = Some (l, parent) \<and> rc_host r = ''*.'' @ parent)"
proof (cases "strip_prefix ''*.'' (rc_host r)")
  case None
  then have "rc_host r \<noteq> ''*.'' @ p" for p using strip_prefix_Some_iff[of "''*.''" "rc_host r" p] by auto
  with None show ?thesis by (auto simp: host_matches_def is_wild_def split: option.splits)
next
  case (Some s)
  then have "rc_host r = ''*.'' @ s" by (simp add: str_simps)
  with Some show ?thesis by (auto simp: host_matches_def is_wild_def split: option.splits)
qed

lemma is_wild_star [simp]: "rc_host r = ''*.'' @ p \<Longrightarrow> is_wild r"
  by (simp add: is_wild_def strip_prefix_def)

text \<open>Two routes of a valid configuration that serve a request with equal rank are the same route.\<close>

lemma equal_rank_equal_route:
  assumes "distinct (map route_key rs)" "r \<in> set rs" "s \<in> set rs" "serves r host path" "serves s host path"
    and "is_wild r = is_wild s" "length (rc_path_prefix r) = length (rc_path_prefix s)"
  shows "r = s"
proof -
  have "rc_path_prefix r = rc_path_prefix s"
    using assms by (intro path_matches_same_length[of path]) (simp_all add: serves_iff)
  moreover have "rc_host r = rc_host s"
    using assms(4-6) by (auto simp: serves_iff host_matches_iff)
  ultimately show ?thesis using assms(1-3) by (auto simp: distinct_map inj_on_def)
qed

lemma routes_to_best:
  assumes "distinct (map route_key rs)" "r \<in> set rs" "serves r host path"
    and "\<And>s. s \<in> set rs \<Longrightarrow> serves s host path \<Longrightarrow>
      \<not> is_wild r \<and> is_wild s \<or> is_wild r = is_wild s \<and> length (rc_path_prefix s) \<le> length (rc_path_prefix r)"
  shows "routes_to pu rs host path (Some (route_of pu r))"
proof -
  have "more_specific r s" if "s \<in> set rs" "serves s host path" "s \<noteq> r" for s
    using equal_rank_equal_route[OF assms(1) that(1) assms(2) that(2) assms(3)] assms(4)[OF that(1,2)] that(3)
    by (auto simp: more_specific_def le_less)
  with assms(2,3) show ?thesis by (auto simp: routes_to_def)
qed

lemma exact_candidates:
  assumes "distinct (map route_key rs)"
    and "find_path (candidates pu (\<lambda>r. \<not> is_wild r \<and> rc_host r = host) rs) path = Some ro"
  shows "routes_to pu rs host path (Some ro)"
proof -
  from candidates_find(2)[OF assms(2)] obtain r where r: "r \<in> set rs" "\<not> is_wild r" "rc_host r = host"
    "path_matches path (rc_path_prefix r)" "route_of pu r = ro"
    and max: "\<And>s. s \<in> set rs \<Longrightarrow> \<not> is_wild s \<Longrightarrow> rc_host s = host \<Longrightarrow> path_matches path (rc_path_prefix s)
          \<Longrightarrow> length (rc_path_prefix s) \<le> length (rc_path_prefix r)" by blast
  have "serves r host path" using r by (auto simp: serves_iff host_matches_iff)
  then show ?thesis
    unfolding r(5)[symmetric]
    by (rule routes_to_best[OF assms(1) r(1)]) (use r(2) max in \<open>auto simp: serves_iff host_matches_iff\<close>)
qed

lemma wild_candidates:
  assumes "distinct (map route_key rs)" "split_once CHR ''.'' host = Some (l, parent)"
    and noex: "find_path (candidates pu (\<lambda>r. \<not> is_wild r \<and> rc_host r = host) rs) path = None"
  shows "routes_to pu rs host path (find_path (candidates pu (\<lambda>r. rc_host r = ''*.'' @ parent) rs) path)"
proof -
  have srv: "serves s host path \<longleftrightarrow> rc_host s = ''*.'' @ parent \<and> path_matches path (rc_path_prefix s)"
    if "s \<in> set rs" for s
    using that noex assms(2) unfolding candidates_find(1) serves_iff host_matches_iff by auto
  show ?thesis
  proof (cases "find_path (candidates pu (\<lambda>r. rc_host r = ''*.'' @ parent) rs) path")
    case None
    then have "\<not> serves s host path" if "s \<in> set rs" for s
      using that srv[OF that] unfolding candidates_find(1) by blast
    with None show ?thesis by (simp add: routes_to_def)
  next
    case (Some ro)
    from candidates_find(2)[OF Some] obtain r where r: "r \<in> set rs" "rc_host r = ''*.'' @ parent"
      "path_matches path (rc_path_prefix r)" "route_of pu r = ro"
      and max: "\<And>s. s \<in> set rs \<Longrightarrow> rc_host s = ''*.'' @ parent \<Longrightarrow> path_matches path (rc_path_prefix s)
        \<Longrightarrow> length (rc_path_prefix s) \<le> length (rc_path_prefix r)" by blast
    have "serves r host path" using r srv by blast
    then show ?thesis
      unfolding Some r(4)[symmetric]
      by (rule routes_to_best[OF assms(1) r(1)]) (use r(2) max srv is_wild_star in blast)
  qed
qed

lemma router_implements:
  assumes "valid_proxy_config pu c"
  shows "\<exists>R. router_new pu c = Inr R
    \<and> (\<forall>host path. routes_to pu (pc_routes c) host path (router_find R host path))"
proof -
  have dist: "distinct (map route_key (pc_routes c))" using assms by (simp add: valid_proxy_config_def)
  have "\<forall>r \<in> set (pc_routes c). pu (rc_upstream r) \<noteq> None"
    using assms by (auto simp: valid_proxy_config_def list_all_iff valid_route_def valid_upstream_def split: option.splits)
  from router_find_candidates[OF this] obtain R where R: "router_new pu c = Inr R"
    and find: "\<And>host path. router_find R host path =
       (case find_path (candidates pu (\<lambda>r. \<not> is_wild r \<and> rc_host r = host) (pc_routes c)) path of
          Some ro \<Rightarrow> Some ro
        | None \<Rightarrow>
            (case split_once CHR ''.'' host of
               None \<Rightarrow> None
             | Some (_, parent) \<Rightarrow> find_path (candidates pu (\<lambda>r. rc_host r = ''*.'' @ parent) (pc_routes c)) path))"
    by blast
  have "routes_to pu (pc_routes c) host path (router_find R host path)" for host path
  proof (cases "find_path (candidates pu (\<lambda>r. \<not> is_wild r \<and> rc_host r = host) (pc_routes c)) path")
    case (Some ro)
    then show ?thesis using exact_candidates[OF dist Some] by (simp add: find)
  next
    case None
    show ?thesis
    proof (cases "split_once CHR ''.'' host")
      case N: None
      with None have "\<not> serves s host path" if "s \<in> set (pc_routes c)" for s
        using that unfolding candidates_find(1) by (auto simp: serves_iff host_matches_iff)
      with None N show ?thesis by (simp add: find routes_to_def)
    next
      case (Some lp)
      then obtain l parent where "split_once CHR ''.'' host = Some (l, parent)" by (cases lp) auto
      with wild_candidates[OF dist this None] None show ?thesis by (simp add: find)
    qed
  qed
  with R show ?thesis by blast
qed

lemma router_new_routes:
  assumes "valid_proxy_config pu c" "router_new pu c = Inr R"
  shows "routes_to pu (pc_routes c) host path (router_find R host path)"
  using router_implements[OF assms(1)] assms(2) by auto

text \<open>
  C26. The router built from a valid configuration serves a request with the single most specific
  route of the configuration whose host and path prefix match it: an exact host goes before a
  wildcard, then the longest path prefix wins, and every other matching route is strictly less
  specific. No route is found exactly when no configured route matches. The lookup in a hash
  map, two sorts and a first-match search refines this specification.
\<close>

theorem router_refines_spec:
  assumes "valid_proxy_config pu c"
  shows "\<exists>R. router_new pu c = Inr R
    \<and> (\<forall>host path. routes_to pu (pc_routes c) host path (router_find R host path))"
  using assms by (rule router_implements)

definition sample_uri :: Uri where
  "sample_uri = \<lparr>u_scheme = Some ''http'', u_authority = Some ''127.0.0.1:3000'', u_path = ''/'', u_query = None\<rparr>"

definition sample_route :: "string \<Rightarrow> string \<Rightarrow> string \<Rightarrow> RouteConfig" where
  "sample_route name host prefix =
     \<lparr>rc_name = name, rc_host = host, rc_path_prefix = prefix, rc_upstream = ''http://127.0.0.1:3000'',
      rc_certificate_id = None\<rparr>"

definition sample_proxy_config :: ProxyConfig where
  "sample_proxy_config =
     \<lparr>pc_proxy = \<lparr>http_bind = SocketAddrV4 0 80, https_bind = SocketAddrV4 0 443,
                   cache_dir = Path False [''cache''], pl_max_connections = 16\<rparr>,
      pc_acme_accounts = [], pc_dns_accounts = [], pc_certificates = [],
      pc_routes = [sample_route ''root'' ''example.com'' ''/'', sample_route ''api'' ''example.com'' ''/api'',
                   sample_route ''wildcard'' ''*.example.com'' ''/'']\<rparr>"

lemma sample_route_valid:
  "valid_route (\<lambda>_. Some sample_uri) [] (sample_route name host prefix) \<longleftrightarrow>
     valid_display_name name \<and> (host = ''localhost'' \<or> valid_domain host)
     \<and> take 1 prefix = ''/'' \<and> CHR ''?'' \<notin> set prefix \<and> CHR ''#'' \<notin> set prefix"
  by (auto simp: valid_route_def sample_route_def valid_upstream_def sample_uri_def)

lemma sample_proxy_config_valid: "valid_proxy_config (\<lambda>_. Some sample_uri) sample_proxy_config"
proof -
  have "list_all is_ascii_alphanumeric ''root''" "list_all is_ascii_alphanumeric ''api''"
    "list_all is_ascii_alphanumeric ''wildcard''" by code_simp+
  then have "valid_display_name ''root''" "valid_display_name ''api''" "valid_display_name ''wildcard''"
    by (auto intro: valid_display_name_ascii)
  moreover have "valid_domain ''example.com''" "valid_domain ''*.example.com''" by code_simp+
  ultimately show ?thesis
    by (simp add: valid_proxy_config_def sample_proxy_config_def sample_route_valid)
       (simp add: sample_route_def)
qed

text \<open>The configuration of the unit test of \<open>router.rs\<close> and its four expectations.\<close>

lemma sample_lookups:
  "case router_new (\<lambda>_. Some sample_uri) sample_proxy_config of
     Inl _ \<Rightarrow> False
   | Inr R \<Rightarrow>
       map_option ro_name (router_find R ''example.com'' ''/api/v1'') = Some ''api''
       \<and> map_option ro_name (router_find R ''www.example.com'' ''/'') = Some ''wildcard''
       \<and> map_option ro_name (router_find R ''example.com'' ''/apix'') = Some ''root''
       \<and> router_find R ''badexample.com'' ''/'' = None"
  by code_simp

theorem router_refines_spec_witness:
  "valid_proxy_config (\<lambda>_. Some sample_uri) sample_proxy_config \<and>
   (\<exists>R. router_new (\<lambda>_. Some sample_uri) sample_proxy_config = Inr R
      \<and> (\<forall>host path. routes_to (\<lambda>_. Some sample_uri) (pc_routes sample_proxy_config) host path (router_find R host path)))"
  using router_refines_spec[OF sample_proxy_config_valid] sample_proxy_config_valid by blast

end
