(* ===== verification/Certificate_Manager.thy ===== *)
theory Certificate_Manager
  imports Certificate_Cache Router
begin

text \<open>
  \<open>gaterust-proxy/src/tls.rs\<close> and the certificate manager of \<open>runtime.rs\<close>: the table from server
  names to certificates that the TLS acceptor consults, and the task that loads, issues, renews
  and deploys certificates. A \<open>DirectResolver\<close> is shared by the table and the manager; it is a
  handle into a store of cells. The ACME protocol itself is a parameter: an issuance task ends
  with any result, or panics. Time is given to every step as seconds since the epoch.
\<close>

section \<open>The certificate resolver\<close>

record ResolverEntry =
  en_owner :: string
  en_resolver :: nat

record ResolverState =
  rv_exact :: "(string, ResolverEntry) hm"
  rv_wildcard :: "(string, ResolverEntry) hm"

definition drop_owner :: "string \<Rightarrow> (string, ResolverEntry) hm \<Rightarrow> (string, ResolverEntry) hm" where
  "drop_owner owner m = hm_retain (\<lambda>_ e. en_owner e \<noteq> owner) m"

definition resolver_remove :: "string \<Rightarrow> ResolverState \<Rightarrow> ResolverState" where
  "resolver_remove owner st =
     \<lparr>rv_exact = drop_owner owner (rv_exact st), rv_wildcard = drop_owner owner (rv_wildcard st)\<rparr>"

definition insert_domain :: "string \<Rightarrow> nat \<Rightarrow> string \<Rightarrow> ResolverState \<Rightarrow> ResolverState" where
  "insert_domain owner resolver domain st =
     (let e = \<lparr>en_owner = owner, en_resolver = resolver\<rparr>
      in case strip_prefix ''*.'' domain of
           Some suffix \<Rightarrow> st\<lparr>rv_wildcard := hm_insert suffix e (rv_wildcard st)\<rparr>
         | None \<Rightarrow> st\<lparr>rv_exact := hm_insert domain e (rv_exact st)\<rparr>)"

definition replace_direct :: "string \<Rightarrow> string list \<Rightarrow> nat \<Rightarrow> ResolverState \<Rightarrow> ResolverState" where
  "replace_direct owner domains resolver st =
     fold (insert_domain owner resolver) domains (resolver_remove owner st)"

definition resolver_for :: "ResolverState \<Rightarrow> string \<Rightarrow> nat option" where
  "resolver_for st server_name =
     map_option en_resolver
       (case hm_get (rv_exact st) server_name of
          Some e \<Rightarrow> Some e
        | None \<Rightarrow>
            map_option snd
              (max_by_key (\<lambda>(suffix, _). length suffix)
                 (filter (\<lambda>(suffix, _). wildcard_matches server_name suffix) (rv_wildcard st))))"

text \<open>A \<open>CertifiedKey\<close> is a certificate chain with a signing key; \<open>rustls\<close> and its PEM reader are parameters.\<close>

type_synonym CertifiedKey = "bytes list \<times> bytes"

record tls_env =
  te_certs :: "bytes \<Rightarrow> (io_error, bytes list) res"
  te_private_key :: "bytes \<Rightarrow> (io_error, bytes option) res"
  te_signing_key :: "bytes \<Rightarrow> (string, bytes) res"
  te_keys_match :: "bytes list \<Rightarrow> bytes \<Rightarrow> (string, unit) res"

definition map_err :: "('a \<Rightarrow> 'b) \<Rightarrow> ('a, 'x) res \<Rightarrow> ('b, 'x) res" where
  "map_err f r = (case r of Inl e \<Rightarrow> Inl (f e) | Inr x \<Rightarrow> Inr x)"

definition set_pem :: "tls_env \<Rightarrow> bytes \<Rightarrow> bytes \<Rightarrow> (ProxyError, CertifiedKey) res" where
  "set_pem env certificate_pem private_key_pem =
     res_bind (map_err Io (te_certs env certificate_pem)) (\<lambda>certificates.
     if certificates = [] then Inl (Tls ''the certificate chain is empty'')
     else res_bind (map_err Io (te_private_key env private_key_pem)) (\<lambda>key.
     case key of
       None \<Rightarrow> Inl (Tls ''no private key found'')
     | Some private_key \<Rightarrow>
         res_bind (map_err (\<lambda>e. Tls (''unsupported private key: '' @ e)) (te_signing_key env private_key)) (\<lambda>signing_key.
         res_bind (map_err (\<lambda>e. Tls (''certificate and key do not match: '' @ e)) (te_keys_match env certificates signing_key)) (\<lambda>_.
         Inr (certificates, signing_key)))))"

section \<open>State of the manager\<close>

datatype CertificateStatus = Idle | Issuing | WaitingDns | Valid | Renewing | Failed | Expired

record CertificateRuntimeStatus =
  st_certificate_id :: string
  st_status :: CertificateStatus
  st_expires_at :: "nat option"
  st_last_error :: "string option"
  st_manual_records :: "(string \<times> string) list"

record IssuanceRequest =
  iq_certificate :: CertificateConfig
  iq_account :: AcmeAccountConfig
  iq_dns_account :: "DnsAccountConfig option"

text \<open>The order and challenges of a \<open>ManualOrder\<close> belong to the ACME library; the model keeps numbers for them.\<close>

record ManualOrder =
  mo_request :: IssuanceRequest
  mo_order :: nat
  mo_challenges :: "nat list"
  mo_records :: "(string \<times> string) list"

record IssuedCertificate =
  ic_certificate_pem :: bytes
  ic_private_key_pem :: bytes
  ic_expires_at :: nat

datatype IssueResult = Issued IssuedCertificate | Waiting ManualOrder

datatype TaskResult =
    Begin "(ProxyError, IssueResult) res"
  | Continued "(ProxyError, IssuedCertificate) res"
  | ManualNotReady ManualOrder ProxyError

record ActiveTask =
  at_generation :: u64
  at_token :: nat

record RetryState =
  ry_attempts :: u32
  ry_retry_at :: nat

datatype task_work = BeginIssue IssuanceRequest | ContinueManual ManualOrder

text \<open>A spawned task: it holds its permit while \<open>rt_end\<close> is \<open>None\<close>; \<open>Some None\<close> is a panic.\<close>

record running_task =
  rt_certificate_id :: string
  rt_generation :: u64
  rt_work :: task_work
  rt_end :: "TaskResult option option"

record manager =
  mg_resolver :: ResolverState
  mg_cells :: "nat \<Rightarrow> CertifiedKey option"
  mg_next_cell :: nat
  mg_config :: "ProxyConfig option"
  mg_resolvers :: "(string, nat) hm"
  mg_statuses :: "(string, CertificateRuntimeStatus) hm"
  mg_active :: "(string, ActiveTask) hm"
  mg_pending :: "(string, ManualOrder) hm"
  mg_tasks :: "running_task list"
  mg_dns_tasks :: nat
  mg_retry :: "(string, RetryState) hm"
  mg_account_gates :: "string set"
  mg_dns_gates :: "string set"
  mg_generation :: u64
  mg_cancelled :: "nat set"
  mg_next_token :: nat
  mg_snapshot :: "CertificateRuntimeStatus list"

record manager_env =
  me_tls :: tls_env
  me_load :: "path \<Rightarrow> CertificateConfig \<Rightarrow> (ProxyError, CachedCertificate option) res"

definition MAX_CONCURRENT_ISSUANCE :: nat where "MAX_CONCURRENT_ISSUANCE = 4"
definition MAX_CONCURRENT_DNS_TESTS :: nat where "MAX_CONCURRENT_DNS_TESTS = 4"
definition RENEW_BEFORE :: nat where "RENEW_BEFORE = 336 * 3600"
definition RETRY_BASE :: nat where "RETRY_BASE = 5 * 60"
definition RETRY_MAX :: nat where "RETRY_MAX = 6 * 3600"
definition u64_max :: nat where "u64_max = 2 ^ 64 - 1"

definition certificate_manager_new :: manager where
  "certificate_manager_new =
     \<lparr>mg_resolver = \<lparr>rv_exact = [], rv_wildcard = []\<rparr>, mg_cells = (\<lambda>_. None), mg_next_cell = 0, mg_config = None,
      mg_resolvers = [], mg_statuses = [], mg_active = [], mg_pending = [], mg_tasks = [], mg_dns_tasks = 0,
      mg_retry = [], mg_account_gates = {}, mg_dns_gates = {}, mg_generation = 0, mg_cancelled = {},
      mg_next_token = 0, mg_snapshot = []\<rparr>"

text \<open>The certificate a TLS handshake obtains for its server name.\<close>

definition certificate_resolve :: "manager \<Rightarrow> string option \<Rightarrow> CertifiedKey option" where
  "certificate_resolve m server_name =
     Option.bind server_name (\<lambda>n. Option.bind (resolver_for (mg_resolver m) n) (mg_cells m))"

section \<open>Helpers of the manager\<close>

definition error_text :: "ProxyError \<Rightarrow> string" where
  "error_text e =
     (case e of
        ReadConfig _ _ \<Rightarrow> ''reading the configuration failed'' | ParseConfig _ \<Rightarrow> ''parsing the configuration failed''
      | InvalidConfig s \<Rightarrow> ''invalid configuration: '' @ s | Io _ \<Rightarrow> ''I/O error'' | Notify s \<Rightarrow> ''watching failed: '' @ s
      | Http s \<Rightarrow> ''HTTP error: '' @ s | Json s \<Rightarrow> ''JSON error: '' @ s | Tls s \<Rightarrow> ''TLS configuration failed: '' @ s
      | Acme s \<Rightarrow> ''ACME failed: '' @ s | Dns s \<Rightarrow> ''DNS failed: '' @ s | Runtime s \<Rightarrow> ''proxy runtime failed: '' @ s)"

definition find_certificate :: "ProxyConfig \<Rightarrow> string \<Rightarrow> CertificateConfig option" where
  "find_certificate c i = List.find (\<lambda>x. ce_id x = i) (pc_certificates c)"

definition find_acme_account :: "ProxyConfig \<Rightarrow> string \<Rightarrow> AcmeAccountConfig option" where
  "find_acme_account c i = List.find (\<lambda>x. aa_id x = i) (pc_acme_accounts c)"

definition find_dns_account :: "ProxyConfig \<Rightarrow> string \<Rightarrow> DnsAccountConfig option" where
  "find_dns_account c i = List.find (\<lambda>x. da_id x = i) (pc_dns_accounts c)"

definition dns_account_for_certificate :: "ProxyConfig \<Rightarrow> CertificateConfig \<Rightarrow> DnsAccountConfig option" where
  "dns_account_for_certificate c cert =
     (case ce_validation cert of Some (DnsAccount i) \<Rightarrow> find_dns_account c i | _ \<Rightarrow> None)"

definition same_acme_runtime_account :: "AcmeAccountConfig option \<Rightarrow> AcmeAccountConfig option \<Rightarrow> bool" where
  "same_acme_runtime_account current next_account =
     (case (current, next_account) of
        (Some a, Some b) \<Rightarrow>
          aa_id a = aa_id b \<and> aa_provider a = aa_provider b \<and> aa_environment a = aa_environment b
          \<and> aa_email a = aa_email b \<and> aa_key_algorithm a = aa_key_algorithm b
          \<and> aa_eab_key_id a = aa_eab_key_id b \<and> aa_eab_hmac_key a = aa_eab_hmac_key b
      | (None, None) \<Rightarrow> True
      | _ \<Rightarrow> False)"

definition same_dns_runtime_account :: "DnsAccountConfig option \<Rightarrow> DnsAccountConfig option \<Rightarrow> bool" where
  "same_dns_runtime_account current next_account =
     (case (current, next_account) of
        (Some a, Some b) \<Rightarrow>
          da_id a = da_id b \<and> da_provider a = da_provider b \<and> da_api_token a = da_api_token b
          \<and> da_access_key a = da_access_key b \<and> da_secret_key a = da_secret_key b
      | (None, None) \<Rightarrow> True
      | _ \<Rightarrow> False)"

definition certificate_runtime_changed ::
  "ProxyConfig \<Rightarrow> ProxyConfig \<Rightarrow> CertificateConfig \<Rightarrow> CertificateConfig \<Rightarrow> bool" where
  "certificate_runtime_changed current nxt a b =
     (cache_dir (pc_proxy current) \<noteq> cache_dir (pc_proxy nxt)
      \<or> ce_domains a \<noteq> ce_domains b \<or> ce_acme_account_id a \<noteq> ce_acme_account_id b
      \<or> ce_validation a \<noteq> ce_validation b \<or> ce_migration_error a \<noteq> ce_migration_error b
      \<or> \<not> same_acme_runtime_account (find_acme_account current (ce_acme_account_id a))
            (find_acme_account nxt (ce_acme_account_id b))
      \<or> \<not> same_dns_runtime_account (dns_account_for_certificate current a) (dns_account_for_certificate nxt b))"

definition certificates_requiring_reload :: "ProxyConfig option \<Rightarrow> ProxyConfig \<Rightarrow> string list" where
  "certificates_requiring_reload current nxt =
     (case current of
        None \<Rightarrow> map ce_id (pc_certificates nxt)
      | Some cur \<Rightarrow>
          map ce_id (filter
            (\<lambda>b. case find_certificate cur (ce_id b) of
                   None \<Rightarrow> True
                 | Some a \<Rightarrow> certificate_runtime_changed cur nxt a b)
            (pc_certificates nxt)))"

definition publish_certificates :: "manager \<Rightarrow> manager" where
  "publish_certificates m = m\<lparr>mg_snapshot := sort_key st_certificate_id (hm_values (mg_statuses m))\<rparr>"

definition modify_status :: "string \<Rightarrow> (CertificateRuntimeStatus \<Rightarrow> CertificateRuntimeStatus) \<Rightarrow> manager \<Rightarrow> manager" where
  "modify_status i f m =
     (case hm_get (mg_statuses m) i of
        None \<Rightarrow> m
      | Some s \<Rightarrow> m\<lparr>mg_statuses := hm_insert i (f s) (mg_statuses m)\<rparr>)"

definition running :: "manager \<Rightarrow> nat" where
  "running m = length (filter (\<lambda>t. rt_end t = None) (mg_tasks m))"

section \<open>Issuing\<close>

definition issuance_request :: "manager \<Rightarrow> string \<Rightarrow> (ProxyError, IssuanceRequest) res" where
  "issuance_request m i =
     (case mg_config m of
        None \<Rightarrow> Inl (Runtime ''no proxy configuration applied yet'')
      | Some c \<Rightarrow>
          (case find_certificate c i of
             None \<Rightarrow> Inl (Runtime ''no such certificate'')
           | Some cert \<Rightarrow>
               if ce_validation cert = None
               then Inl (Runtime (case ce_migration_error cert of Some e \<Rightarrow> e | None \<Rightarrow> ''no validation method chosen''))
               else case find_acme_account c (ce_acme_account_id cert) of
                 None \<Rightarrow> Inl (Runtime ''no such ACME account'')
               | Some account \<Rightarrow>
                   (case ce_validation cert of
                      Some (DnsAccount d) \<Rightarrow>
                        (case find_dns_account c d of
                           None \<Rightarrow> Inl (Runtime ''no such DNS account'')
                         | Some dns \<Rightarrow> Inr \<lparr>iq_certificate = cert, iq_account = account, iq_dns_account = Some dns\<rparr>)
                    | _ \<Rightarrow> Inr \<lparr>iq_certificate = cert, iq_account = account, iq_dns_account = None\<rparr>)))"

text \<open>\<open>next_generation\<close>, the spawned task and its entry in \<open>active\<close> with a new cancellation token.\<close>

definition spawn_task :: "string \<Rightarrow> task_work \<Rightarrow> manager \<Rightarrow> manager" where
  "spawn_task i work m =
     (let g = mg_generation m + 1
      in m\<lparr>mg_generation := g,
           mg_tasks := mg_tasks m @ [\<lparr>rt_certificate_id = i, rt_generation = g, rt_work = work, rt_end = None\<rparr>],
           mg_active := hm_insert i \<lparr>at_generation = g, at_token = mg_next_token m\<rparr> (mg_active m),
           mg_next_token := mg_next_token m + 1\<rparr>)"

definition start_issue :: "string \<Rightarrow> bool \<Rightarrow> manager \<Rightarrow> (ProxyError, unit) res \<times> manager" where
  "start_issue i renewal m =
     (if hm_contains (mg_active m) i then (Inl (Runtime ''the certificate is being issued''), m)
      else case issuance_request m i of
        Inl e \<Rightarrow> (Inl e, m)
      | Inr rq \<Rightarrow>
          (let m = m\<lparr>mg_account_gates := insert (aa_id (iq_account rq)) (mg_account_gates m),
                      mg_dns_gates := (case iq_dns_account rq of None \<Rightarrow> mg_dns_gates m
                                       | Some d \<Rightarrow> insert (da_id d) (mg_dns_gates m))\<rparr>
           in if \<not> running m < MAX_CONCURRENT_ISSUANCE
              then (Inl (Runtime ''too many certificates are being issued''), m)
              else
                (let m = spawn_task i (BeginIssue rq) (m\<lparr>mg_pending := hm_remove i (mg_pending m)\<rparr>);
                     m = modify_status i (\<lambda>s. s\<lparr>st_status := (if renewal then Renewing else Issuing),
                                                st_last_error := None, st_manual_records := []\<rparr>) m
                 in (Inr (), publish_certificates m))))"

definition start_continue :: "string \<Rightarrow> manager \<Rightarrow> (ProxyError, unit) res \<times> manager" where
  "start_continue i m =
     (if hm_contains (mg_active m) i then (Inl (Runtime ''the certificate is being issued''), m)
      else if mg_config m = None then (Inl (Runtime ''no proxy configuration applied yet''), m)
      else if \<not> running m < MAX_CONCURRENT_ISSUANCE
      then (Inl (Runtime ''too many certificates are being issued''), m)
      else case hm_get (mg_pending m) i of
        None \<Rightarrow> (Inl (Runtime ''no order waits for manual records''), m)
      | Some order \<Rightarrow>
          (let m = spawn_task i (ContinueManual order) (m\<lparr>mg_pending := hm_remove i (mg_pending m)\<rparr>);
               m = modify_status i (\<lambda>s. s\<lparr>st_status := Issuing, st_last_error := None\<rparr>) m
           in (Inr (), publish_certificates m)))"

section \<open>Results\<close>

definition sat_add :: "nat \<Rightarrow> nat \<Rightarrow> nat" where
  "sat_add a b = min (a + b) u64_max"

definition jitter :: "string \<Rightarrow> nat" where
  "jitter i = unat (fold (\<lambda>b v. v + of_nat (of_char b)) i (0 :: u64)) mod 60"

definition retry_delay :: "u32 \<Rightarrow> nat" where
  "retry_delay attempts = min (RETRY_BASE * 2 ^ min (unat attempts) 6) RETRY_MAX"

definition next_retry :: "nat \<Rightarrow> string \<Rightarrow> RetryState option \<Rightarrow> RetryState" where
  "next_retry now i old =
     (let attempts = (case old of None \<Rightarrow> 0 | Some r \<Rightarrow> ry_attempts r)
      in \<lparr>ry_attempts = (if attempts = - 1 then attempts else attempts + 1),
          ry_retry_at = sat_add (sat_add now (retry_delay attempts)) (jitter i)\<rparr>)"

definition can_retry :: "manager \<Rightarrow> string \<Rightarrow> bool" where
  "can_retry m i =
     ((case Option.bind (mg_config m) (\<lambda>c. find_certificate c i) of None \<Rightarrow> False | Some cert \<Rightarrow> ce_auto_renew cert)
      \<and> Option.bind (hm_get (mg_statuses m) i) st_expires_at \<noteq> None)"

definition fail :: "nat \<Rightarrow> string \<Rightarrow> ProxyError \<Rightarrow> manager \<Rightarrow> manager" where
  "fail now i e m =
     (let m = (if can_retry m i
               then m\<lparr>mg_retry := hm_insert i (next_retry now i (hm_get (mg_retry m) i)) (mg_retry m)\<rparr> else m)
      in modify_status i
           (\<lambda>s. s\<lparr>st_status := (case st_expires_at s of Some t \<Rightarrow> if t \<le> now then Expired else Failed | None \<Rightarrow> Failed),
                  st_last_error := Some (error_text e), st_manual_records := []\<rparr>) m)"

definition deploy :: "manager_env \<Rightarrow> nat \<Rightarrow> string \<Rightarrow> IssuedCertificate \<Rightarrow> manager \<Rightarrow> manager" where
  "deploy env now i cert m =
     (case (case hm_get (mg_resolvers m) i of
              None \<Rightarrow> Inl (Runtime ''no resolver for the certificate'')
            | Some h \<Rightarrow> res_bind (set_pem (me_tls env) (ic_certificate_pem cert) (ic_private_key_pem cert)) (\<lambda>k. Inr (h, k))) of
        Inr (h, k) \<Rightarrow>
          modify_status i
            (\<lambda>s. s\<lparr>st_status := Valid, st_expires_at := Some (ic_expires_at cert), st_last_error := None,
                   st_manual_records := []\<rparr>)
            (m\<lparr>mg_cells := (mg_cells m)(h := Some k), mg_retry := hm_remove i (mg_retry m)\<rparr>)
      | Inl e \<Rightarrow> fail now i e m)"

definition wait_dns :: "string \<Rightarrow> ManualOrder \<Rightarrow> ProxyError option \<Rightarrow> manager \<Rightarrow> manager" where
  "wait_dns i order e m =
     modify_status i (\<lambda>s. s\<lparr>st_status := WaitingDns, st_last_error := map_option error_text e,
                             st_manual_records := mo_records order\<rparr>)
       (m\<lparr>mg_pending := hm_insert i order (mg_pending m)\<rparr>)"

definition handle_task :: "manager_env \<Rightarrow> nat \<Rightarrow> string \<Rightarrow> u64 \<Rightarrow> TaskResult \<Rightarrow> manager \<Rightarrow> manager" where
  "handle_task env now i generation result m =
     (case hm_get (mg_active m) i of
        None \<Rightarrow> m
      | Some a \<Rightarrow>
          if at_generation a \<noteq> generation then m
          else
            (let m = m\<lparr>mg_active := hm_remove i (mg_active m)\<rparr>
             in publish_certificates
                  (case result of
                     Begin (Inr (Issued cert)) \<Rightarrow> deploy env now i cert m
                   | Continued (Inr cert) \<Rightarrow> deploy env now i cert m
                   | Begin (Inr (Waiting order)) \<Rightarrow> wait_dns i order None m
                   | ManualNotReady order e \<Rightarrow> wait_dns i order (Some e) m
                   | Begin (Inl e) \<Rightarrow> fail now i e m
                   | Continued (Inl e) \<Rightarrow> fail now i e m)))"

section \<open>The schedule\<close>

definition is_due :: "nat \<Rightarrow> manager \<Rightarrow> CertificateConfig \<Rightarrow> bool" where
  "is_due now m cert =
     (ce_auto_renew cert
      \<and> (case Option.bind (hm_get (mg_statuses m) (ce_id cert)) st_expires_at of
           None \<Rightarrow> False
         | Some expires_at \<Rightarrow>
             expires_at - RENEW_BEFORE \<le> now
             \<and> (case hm_get (mg_retry m) (ce_id cert) of None \<Rightarrow> True | Some r \<Rightarrow> ry_retry_at r \<le> now)
             \<and> \<not> hm_contains (mg_active m) (ce_id cert)))"

definition expire_status :: "nat \<Rightarrow> CertificateRuntimeStatus \<Rightarrow> CertificateRuntimeStatus" where
  "expire_status now s =
     (case st_expires_at s of
        Some t \<Rightarrow> if t \<le> now \<and> (st_status s = Valid \<or> st_status s = Failed) then s\<lparr>st_status := Expired\<rparr> else s
      | None \<Rightarrow> s)"

definition start_due :: "nat \<Rightarrow> string \<Rightarrow> manager \<Rightarrow> manager" where
  "start_due now i m = (case start_issue i True m of (Inr _, m) \<Rightarrow> m | (Inl e, m) \<Rightarrow> fail now i e m)"

definition schedule_due :: "nat \<Rightarrow> manager \<Rightarrow> manager" where
  "schedule_due now m =
     (let old = mg_statuses m;
          m = m\<lparr>mg_statuses := map (\<lambda>(i, s). (i, expire_status now s)) old\<rparr>;
          changed = (mg_statuses m \<noteq> old);
          m = (case mg_config m of
                 None \<Rightarrow> m
               | Some c \<Rightarrow> fold (start_due now) (map ce_id (filter (is_due now m) (pc_certificates c))) m)
      in if changed then publish_certificates m else m)"

section \<open>Applying a configuration\<close>

definition cancel_work :: "string \<Rightarrow> manager \<Rightarrow> manager" where
  "cancel_work i m =
     m\<lparr>mg_cancelled := (case hm_get (mg_active m) i of None \<Rightarrow> mg_cancelled m | Some a \<Rightarrow> insert (at_token a) (mg_cancelled m)),
       mg_active := hm_remove i (mg_active m), mg_pending := hm_remove i (mg_pending m), mg_retry := hm_remove i (mg_retry m)\<rparr>"

definition status_new ::
  "CertificateConfig \<Rightarrow> CertificateStatus \<Rightarrow> nat option \<Rightarrow> string option \<Rightarrow> CertificateRuntimeStatus" where
  "status_new cert status expires_at last_error =
     \<lparr>st_certificate_id = ce_id cert, st_status = status, st_expires_at = expires_at,
      st_last_error = last_error, st_manual_records = []\<rparr>"

definition load_certificate_runtime ::
  "manager_env \<Rightarrow> nat \<Rightarrow> path \<Rightarrow> CertificateConfig \<Rightarrow> CertifiedKey option \<times> CertificateRuntimeStatus" where
  "load_certificate_runtime env now root cert =
     (case me_load env root cert of
        Inr (Some cached) \<Rightarrow>
          (case set_pem (me_tls env) (cd_certificate cached) (cd_private_key cached) of
             Inr k \<Rightarrow> (Some k, status_new cert (if cd_expires_at cached \<le> now then Expired else Valid)
                                 (Some (cd_expires_at cached)) (ce_migration_error cert))
           | Inl e \<Rightarrow> (None, status_new cert Failed (Some (cd_expires_at cached)) (Some (error_text e))))
      | Inr None \<Rightarrow> (None, status_new cert (if ce_migration_error cert \<noteq> None then Failed else Idle) None (ce_migration_error cert))
      | Inl e \<Rightarrow> (None, status_new cert Failed None (Some (error_text e))))"

text \<open>Loading gives every reloaded certificate a new cell; the cells are not yet in the table.\<close>

definition load_replacement ::
  "manager_env \<Rightarrow> nat \<Rightarrow> path \<Rightarrow> CertificateConfig \<Rightarrow> manager \<times> (CertificateConfig \<times> nat \<times> CertificateRuntimeStatus) list
     \<Rightarrow> manager \<times> (CertificateConfig \<times> nat \<times> CertificateRuntimeStatus) list" where
  "load_replacement env now root cert acc =
     (case acc of (m, out) \<Rightarrow>
        (case load_certificate_runtime env now root cert of (k, status) \<Rightarrow>
           (m\<lparr>mg_cells := (mg_cells m)(mg_next_cell m := k), mg_next_cell := mg_next_cell m + 1\<rparr>,
            out @ [(cert, mg_next_cell m, status)])))"

definition forget :: "string \<Rightarrow> manager \<Rightarrow> manager" where
  "forget i m =
     m\<lparr>mg_resolver := resolver_remove i (mg_resolver m), mg_resolvers := hm_remove i (mg_resolvers m),
       mg_statuses := hm_remove i (mg_statuses m)\<rparr>"

definition install :: "CertificateConfig \<times> nat \<times> CertificateRuntimeStatus \<Rightarrow> manager \<Rightarrow> manager" where
  "install x m =
     (case x of (cert, h, status) \<Rightarrow>
        m\<lparr>mg_resolver := replace_direct (ce_id cert) (ce_domains cert) h (mg_resolver m),
          mg_resolvers := hm_insert (ce_id cert) h (mg_resolvers m),
          mg_statuses := hm_insert (ce_id cert) status (mg_statuses m)\<rparr>)"

definition renewal_toggled :: "ProxyConfig option \<Rightarrow> CertificateConfig \<Rightarrow> bool" where
  "renewal_toggled current cert =
     (case Option.bind current (\<lambda>c. find_certificate c (ce_id cert)) of
        None \<Rightarrow> False
      | Some item \<Rightarrow> ce_auto_renew item \<noteq> ce_auto_renew cert)"

definition apply_config :: "manager_env \<Rightarrow> nat \<Rightarrow> ProxyConfig \<Rightarrow> manager \<Rightarrow> manager" where
  "apply_config env now config m =
     (let reload = certificates_requiring_reload (mg_config m) config;
          removed = filter (\<lambda>i. i \<notin> set (map ce_id (pc_certificates config))) (hm_keys (mg_resolvers m));
          m1 = fold cancel_work (reload @ removed) m;
          (m2, replacements) =
            fold (load_replacement env now (cache_dir (pc_proxy config)))
              (filter (\<lambda>c. ce_id c \<in> set reload) (pc_certificates config)) (m1, []);
          m3 = fold install replacements (fold forget removed m2);
          m4 = m3\<lparr>mg_retry := hm_remove_all
                     (map ce_id (filter (renewal_toggled (mg_config m)) (pc_certificates config))) (mg_retry m3),
                   mg_config := Some config\<rparr>
      in schedule_due now (publish_certificates m4))"

section \<open>The loop of the manager\<close>

datatype manager_command = ApplyConfig ProxyConfig | IssueCertificate string | ContinueCertificate string | TestDns

text \<open>\<open>handle_command\<close>: the response and the new state. The response of an accepted DNS test is sent by its task.\<close>

definition handle_command ::
  "manager_env \<Rightarrow> nat \<Rightarrow> manager_command \<Rightarrow> manager \<Rightarrow> (ProxyError, unit) res option \<times> manager" where
  "handle_command env now cmd m =
     (case cmd of
        ApplyConfig c \<Rightarrow> (Some (Inr ()), apply_config env now c m)
      | IssueCertificate i \<Rightarrow> (case start_issue i False m of (r, m) \<Rightarrow> (Some r, m))
      | ContinueCertificate i \<Rightarrow> (case start_continue i m of (r, m) \<Rightarrow> (Some r, m))
      | TestDns \<Rightarrow>
          if mg_dns_tasks m < MAX_CONCURRENT_DNS_TESTS then (None, m\<lparr>mg_dns_tasks := mg_dns_tasks m + 1\<rparr>)
          else (Some (Inl (Runtime ''too many DNS tests'')), m))"

text \<open>
  What can happen to the manager: a command, the tick of the scheduler, the end of a task (a
  result or a panic, which frees its permit), and \<open>join_next\<close> observing an ended task.
\<close>

datatype manager_event =
    Command manager_command
  | Tick
  | TaskEnds nat "TaskResult option"
  | TaskJoined nat
  | DnsTaskJoined

definition manager_turn :: "manager_env \<Rightarrow> nat \<Rightarrow> manager_event \<Rightarrow> manager \<Rightarrow> manager" where
  "manager_turn env now ev m =
     (case ev of
        Command cmd \<Rightarrow> snd (handle_command env now cmd m)
      | Tick \<Rightarrow> schedule_due now m
      | TaskEnds k r \<Rightarrow>
          if k < length (mg_tasks m) \<and> rt_end (mg_tasks m ! k) = None
          then m\<lparr>mg_tasks := (mg_tasks m)[k := (mg_tasks m ! k)\<lparr>rt_end := Some r\<rparr>]\<rparr> else m
      | TaskJoined k \<Rightarrow>
          if k < length (mg_tasks m) then
            (let t = mg_tasks m ! k; rest = m\<lparr>mg_tasks := take k (mg_tasks m) @ drop (Suc k) (mg_tasks m)\<rparr>
             in case rt_end t of
                  None \<Rightarrow> m
                | Some None \<Rightarrow> rest
                | Some (Some r) \<Rightarrow> handle_task env now (rt_certificate_id t) (rt_generation t) r rest)
          else m
      | DnsTaskJoined \<Rightarrow> m\<lparr>mg_dns_tasks := mg_dns_tasks m - 1\<rparr>)"

text \<open>The end of \<open>run\<close>: every active task is cancelled and the task sets are shut down.\<close>

definition certificate_manager_shutdown :: "manager \<Rightarrow> manager" where
  "certificate_manager_shutdown m =
     m\<lparr>mg_cancelled := mg_cancelled m \<union> set (map at_token (hm_values (mg_active m))), mg_tasks := [], mg_dns_tasks := 0\<rparr>"

inductive manager_reachable :: "(string \<Rightarrow> Uri option) \<Rightarrow> manager_env \<Rightarrow> manager \<Rightarrow> bool" for pu env where
  manager_start: "manager_reachable pu env certificate_manager_new"
| manager_event: "manager_reachable pu env m
    \<Longrightarrow> (case ev of Command (ApplyConfig c) \<Rightarrow> valid_proxy_config pu c | _ \<Rightarrow> True)
    \<Longrightarrow> manager_reachable pu env (manager_turn env now ev m)"

section \<open>The resolver table\<close>

definition domain_entry :: "ResolverState \<Rightarrow> string \<Rightarrow> ResolverEntry option" where
  "domain_entry st d =
     (case strip_prefix ''*.'' d of Some suffix \<Rightarrow> hm_get (rv_wildcard st) suffix | None \<Rightarrow> hm_get (rv_exact st) d)"

definition table_wf :: "ResolverState \<Rightarrow> bool" where
  "table_wf st = (hm_wf (rv_exact st) \<and> hm_wf (rv_wildcard st) \<and> (\<forall>p. hm_get (rv_exact st) (''*.'' @ p) = None))"

lemma domain_entry_star: "domain_entry st (''*.'' @ p) = hm_get (rv_wildcard st) p"
  by (simp add: domain_entry_def strip_prefix_def)

lemma domain_entry_plain: "strip_prefix ''*.'' d = None \<Longrightarrow> domain_entry st d = hm_get (rv_exact st) d"
  by (simp add: domain_entry_def)

lemma hm_get_drop_owner:
  "hm_wf m \<Longrightarrow> hm_get (drop_owner o1 m) k = (case hm_get m k of None \<Rightarrow> None | Some e \<Rightarrow> if en_owner e \<noteq> o1 then Some e else None)"
  by (simp add: drop_owner_def hm_get_retain)

lemma domain_entry_remove:
  "table_wf st \<Longrightarrow> domain_entry (resolver_remove o1 st) d =
     (case domain_entry st d of None \<Rightarrow> None | Some e \<Rightarrow> if en_owner e \<noteq> o1 then Some e else None)"
  by (auto simp: domain_entry_def resolver_remove_def table_wf_def hm_get_drop_owner split: option.splits)

lemma table_wf_remove: "table_wf st \<Longrightarrow> table_wf (resolver_remove o1 st)"
  by (auto simp: table_wf_def resolver_remove_def hm_get_drop_owner) (auto simp: drop_owner_def)

lemma domain_entry_insert:
  "domain_entry (insert_domain o1 h d st) d' =
     (if d' = d then Some \<lparr>en_owner = o1, en_resolver = h\<rparr> else domain_entry st d')"
proof (cases "strip_prefix ''*.'' d")
  case None
  then show ?thesis by (auto simp: domain_entry_def insert_domain_def Let_def hm_simps split: option.splits)
next
  case (Some s)
  then have d: "d = ''*.'' @ s" by (simp add: str_simps)
  show ?thesis
  proof (cases "strip_prefix ''*.'' d'")
    case None
    then have "d' \<noteq> d" using Some by auto
    with None Some show ?thesis by (simp add: domain_entry_def insert_domain_def Let_def)
  next
    case (Some s')
    then have "d' = ''*.'' @ s'" by (simp add: str_simps)
    with Some \<open>strip_prefix ''*.'' d = Some s\<close> d show ?thesis
      by (simp add: domain_entry_def insert_domain_def Let_def hm_simps)
  qed
qed

lemma table_wf_insert: "table_wf st \<Longrightarrow> table_wf (insert_domain o1 h d st)"
proof (cases "strip_prefix ''*.'' d")
  case None
  then have "d \<noteq> ''*.'' @ p" for p using strip_prefix_Some_iff[of "''*.''" d p] by auto
  with None show "table_wf st \<Longrightarrow> table_wf (insert_domain o1 h d st)"
    by (auto simp: table_wf_def insert_domain_def Let_def hm_simps)
qed (auto simp: table_wf_def insert_domain_def Let_def)

lemma fold_insert_domain:
  assumes "table_wf st"
  shows "table_wf (fold (insert_domain o1 h) ds st)
    \<and> domain_entry (fold (insert_domain o1 h) ds st) d =
        (if d \<in> set ds then Some \<lparr>en_owner = o1, en_resolver = h\<rparr> else domain_entry st d)"
  using assms
proof (induction ds arbitrary: st)
  case (Cons a ds)
  from Cons.IH[OF table_wf_insert[OF Cons.prems]] show ?case by (auto simp: domain_entry_insert)
qed simp

lemma replace_direct_entry:
  assumes "table_wf st"
  shows "table_wf (replace_direct o1 ds h st)"
    and "domain_entry (replace_direct o1 ds h st) d =
       (if d \<in> set ds then Some \<lparr>en_owner = o1, en_resolver = h\<rparr>
        else case domain_entry st d of None \<Rightarrow> None | Some e \<Rightarrow> if en_owner e \<noteq> o1 then Some e else None)"
  using fold_insert_domain[OF table_wf_remove[OF assms, of o1], of o1 h ds d] domain_entry_remove[OF assms, of o1 d]
  by (simp_all add: replace_direct_def)

text \<open>The lookup of a server name in terms of the entries of domains.\<close>

lemma wildcard_lookup:
  assumes "hm_wf m"
  shows "map_option snd (max_by_key (\<lambda>(suffix, _). length suffix) (filter (\<lambda>(suffix, _). wildcard_matches h suffix) m)) =
    (case split_once CHR ''.'' h of None \<Rightarrow> None | Some (_, parent) \<Rightarrow> hm_get m parent)"
proof -
  let ?l = "filter (\<lambda>(suffix, _). wildcard_matches h suffix) m"
  have mem: "(s, e) \<in> set ?l \<longleftrightarrow> (\<exists>l. split_once CHR ''.'' h = Some (l, s)) \<and> hm_get m s = Some e" for s e
    by (auto simp: wildcard_matches_iff hm_in_set_iff[OF assms])
  show ?thesis
  proof (cases "max_by_key (\<lambda>(suffix, _). length suffix) ?l")
    case None
    then have "?l = []" by simp
    then have "\<And>s e. (s, e) \<notin> set ?l" by simp
    then have none: "hm_get m s \<noteq> Some e" if "split_once CHR ''.'' h = Some (l, s)" for l s e
      using that unfolding mem by blast
    have "hm_get m s = None" if "split_once CHR ''.'' h = Some (l, s)" for l s
      using none[OF that] by (cases "hm_get m s") auto
    with None show ?thesis by (auto split: option.split)
  next
    case (Some x)
    obtain s e where x: "x = (s, e)" by (cases x)
    from max_by_key_in[OF Some] obtain l where "split_once CHR ''.'' h = Some (l, s)" "hm_get m s = Some e"
      unfolding x mem by blast
    with Some x show ?thesis by simp
  qed
qed

lemma resolver_for_eq:
  assumes "table_wf st"
  shows "resolver_for st h = map_option en_resolver
    (case domain_entry st h of
       Some e \<Rightarrow> Some e
     | None \<Rightarrow> (case split_once CHR ''.'' h of None \<Rightarrow> None | Some (_, parent) \<Rightarrow> domain_entry st (''*.'' @ parent)))"
proof -
  have wf: "hm_wf (rv_wildcard st)" and ex: "\<And>p. hm_get (rv_exact st) (''*.'' @ p) = None"
    using assms by (auto simp: table_wf_def)
  show ?thesis
  proof (cases "strip_prefix ''*.'' h")
    case None
    show ?thesis
      unfolding resolver_for_def wildcard_lookup[OF wf] domain_entry_plain[OF None] domain_entry_star by (rule refl)
  next
    case (Some p)
    then have h: "h = ''*.'' @ p" by (simp add: str_simps)
    have "split_once CHR ''.'' h = Some (''*'', p)" unfolding h by (subst split_once_Some_iff) simp
    then show ?thesis
      unfolding resolver_for_def wildcard_lookup[OF wf]
      using ex[of p] by (simp add: h[simplified] domain_entry_star[of st p, simplified] split: option.split)
  qed
qed

section \<open>The table follows the configuration\<close>

definition applied_certificates :: "manager \<Rightarrow> CertificateConfig list" where
  "applied_certificates m = (case mg_config m of None \<Rightarrow> [] | Some c \<Rightarrow> pc_certificates c)"

definition table_synced :: "CertificateConfig list \<Rightarrow> (string, nat) hm \<Rightarrow> ResolverState \<Rightarrow> bool" where
  "table_synced cs hs st =
     (\<forall>d e. domain_entry st d = Some e \<longleftrightarrow>
        (\<exists>c \<in> set cs. d \<in> set (ce_domains c) \<and> ce_id c = en_owner e \<and> hm_get hs (ce_id c) = Some (en_resolver e)))"

definition manager_inv :: "manager \<Rightarrow> bool" where
  "manager_inv m =
     (table_wf (mg_resolver m) \<and> hm_wf (mg_resolvers m) \<and> distinct (map ce_id (applied_certificates m))
      \<and> dom (hm_get (mg_resolvers m)) = set (map ce_id (applied_certificates m))
      \<and> dom (hm_get (mg_statuses m)) = set (map ce_id (applied_certificates m))
      \<and> table_synced (applied_certificates m) (mg_resolvers m) (mg_resolver m)
      \<and> running m \<le> MAX_CONCURRENT_ISSUANCE \<and> mg_dns_tasks m \<le> MAX_CONCURRENT_DNS_TESTS)"

text \<open>The part of the state the invariant speaks about, and the operations that leave it alone.\<close>

definition same_table :: "manager \<Rightarrow> manager \<Rightarrow> bool" where
  "same_table m m' =
     (mg_resolver m' = mg_resolver m \<and> mg_resolvers m' = mg_resolvers m \<and> mg_config m' = mg_config m
      \<and> dom (hm_get (mg_statuses m')) = dom (hm_get (mg_statuses m)) \<and> mg_dns_tasks m' = mg_dns_tasks m)"

lemma same_table_refl [simp]: "same_table m m"
  by (simp add: same_table_def)

lemma same_table_trans: "same_table m m' \<Longrightarrow> same_table m' m'' \<Longrightarrow> same_table m m''"
  by (simp add: same_table_def)

lemma inv_same_table: "manager_inv m \<Longrightarrow> same_table m m' \<Longrightarrow> running m' \<le> MAX_CONCURRENT_ISSUANCE \<Longrightarrow> manager_inv m'"
  by (simp add: manager_inv_def same_table_def applied_certificates_def)

lemma modify_status_frame [simp]:
  "same_table m (modify_status i f m)" "running (modify_status i f m) = running m"
  "mg_tasks (modify_status i f m) = mg_tasks m" "mg_config (modify_status i f m) = mg_config m"
  by (auto simp: modify_status_def same_table_def running_def hm_simps split: option.splits if_splits)

lemma publish_frame [simp]:
  "same_table m (publish_certificates m') = same_table m m'" "running (publish_certificates m) = running m" "mg_config (publish_certificates m) = mg_config m"
  by (simp_all add: publish_certificates_def same_table_def running_def)

lemma running_update [simp]:
  "running (m\<lparr>mg_retry := x\<rparr>) = running m" "running (m\<lparr>mg_cells := a\<rparr>) = running m"
  "running (m\<lparr>mg_pending := b\<rparr>) = running m" "running (m\<lparr>mg_active := c\<rparr>) = running m"
  "running (m\<lparr>mg_account_gates := g, mg_dns_gates := g'\<rparr>) = running m" "running (m\<lparr>mg_statuses := s\<rparr>) = running m"
  by (simp_all add: running_def)

lemma same_table_update [simp]:
  "same_table m (m\<lparr>mg_retry := x\<rparr>)" "same_table m (m\<lparr>mg_cells := a, mg_retry := x\<rparr>)"
  "same_table m (m\<lparr>mg_pending := b\<rparr>)" "same_table m (m\<lparr>mg_active := c\<rparr>)"
  "same_table m (m\<lparr>mg_account_gates := g, mg_dns_gates := g'\<rparr>)" "same_table m (m\<lparr>mg_tasks := t\<rparr>)"
  by (simp_all add: same_table_def)

lemma fail_frame [simp]: "same_table m (fail now i e m)" "running (fail now i e m) = running m"
  using same_table_trans[OF same_table_update(1) modify_status_frame(1)]
  by (simp_all add: fail_def Let_def)

lemma deploy_frame [simp]: "same_table m (deploy env now i c m)" "running (deploy env now i c m) = running m"
  using same_table_trans[OF same_table_update(2) modify_status_frame(1)]
  by (auto simp: deploy_def split: sum.splits option.splits)

lemma wait_dns_frame [simp]: "same_table m (wait_dns i order e m)" "running (wait_dns i order e m) = running m"
  using same_table_trans[OF same_table_update(3) modify_status_frame(1)] by (simp_all add: wait_dns_def)

lemma handle_task_frame: "same_table m (handle_task env now i g r m) \<and> running (handle_task env now i g r m) = running m"
proof -
  let ?m = "m\<lparr>mg_active := hm_remove i (mg_active m)\<rparr>"
  have "same_table m m' \<and> running m' = running m" if "same_table ?m m'" "running m' = running ?m" for m'
    using that same_table_trans[OF same_table_update(4)] by auto
  then show ?thesis
    by (auto simp: handle_task_def Let_def split: option.split TaskResult.split sum.split IssueResult.split)
qed

lemma spawn_task_frame:
  "same_table m (spawn_task i w m)" "running (spawn_task i w m) = Suc (running m)"
  by (simp_all add: spawn_task_def Let_def same_table_def running_def)

lemma start_issue_frame:
  assumes "start_issue i renewal m = (r, m')" "running m \<le> MAX_CONCURRENT_ISSUANCE"
  shows "same_table m m' \<and> running m' \<le> MAX_CONCURRENT_ISSUANCE"
proof -
  have step: "same_table m (publish_certificates (modify_status i f (spawn_task i w m'')))
      \<and> running (publish_certificates (modify_status i f (spawn_task i w m''))) = Suc (running m)"
    if "same_table m m''" "running m'' = running m" for f w m''
    using that spawn_task_frame[where i = i and w = w and m = m''] same_table_trans modify_status_frame by (metis publish_frame(1,2))
  show ?thesis
  proof (cases "issuance_request m i")
    case (Inl e)
    with assms show ?thesis by (auto simp: start_issue_def split: if_splits)
  next
    case (Inr rq)
    let ?g = "m\<lparr>mg_account_gates := insert (aa_id (iq_account rq)) (mg_account_gates m),
        mg_dns_gates := (case iq_dns_account rq of None \<Rightarrow> mg_dns_gates m | Some d \<Rightarrow> insert (da_id d) (mg_dns_gates m))\<rparr>"
    have "same_table m (?g\<lparr>mg_pending := hm_remove i (mg_pending ?g)\<rparr>)"
      "running (?g\<lparr>mg_pending := hm_remove i (mg_pending ?g)\<rparr>) = running m"
      by (simp_all add: same_table_def running_def)
    note s = step[OF this]
    show ?thesis
    proof (cases "hm_contains (mg_active m) i \<or> \<not> running m < MAX_CONCURRENT_ISSUANCE")
      case True
      with assms Inr show ?thesis by (auto simp: start_issue_def Let_def split: if_splits)
    next
      case False
      with assms Inr have "m' = publish_certificates (modify_status i (\<lambda>s. s\<lparr>st_status := (if renewal then Renewing else Issuing),
          st_last_error := None, st_manual_records := []\<rparr>) (spawn_task i (BeginIssue rq) (?g\<lparr>mg_pending := hm_remove i (mg_pending ?g)\<rparr>)))"
        by (simp add: start_issue_def Let_def)
      with s False show ?thesis by simp
    qed
  qed
qed

lemma start_continue_frame:
  assumes "start_continue i m = (r, m')" "running m \<le> MAX_CONCURRENT_ISSUANCE"
  shows "same_table m m' \<and> running m' \<le> MAX_CONCURRENT_ISSUANCE"
proof -
  have "same_table m (publish_certificates (modify_status i f (spawn_task i w (m\<lparr>mg_pending := p\<rparr>))))
      \<and> running (publish_certificates (modify_status i f (spawn_task i w (m\<lparr>mg_pending := p\<rparr>)))) = Suc (running m)" for f w p
    using spawn_task_frame[where i = i and w = w and m = "m\<lparr>mg_pending := p\<rparr>"] same_table_trans modify_status_frame
      same_table_update(3) by (metis publish_frame(1,2) running_update(3))
  then show ?thesis using assms by (auto simp: start_continue_def Let_def split: if_splits option.splits)
qed

lemma start_due_frame:
  assumes "running m \<le> MAX_CONCURRENT_ISSUANCE"
  shows "same_table m (start_due now i m) \<and> running (start_due now i m) \<le> MAX_CONCURRENT_ISSUANCE"
proof -
  obtain r m' where run: "start_issue i True m = (r, m')" by (cases "start_issue i True m")
  from start_issue_frame[OF run assms] same_table_trans fail_frame run show ?thesis
    by (auto simp: start_due_def split: sum.split)
qed

lemma fold_start_due_frame:
  "running m \<le> MAX_CONCURRENT_ISSUANCE \<Longrightarrow>
     same_table m (fold (start_due now) is m) \<and> running (fold (start_due now) is m) \<le> MAX_CONCURRENT_ISSUANCE"
proof (induction "is" arbitrary: m)
  case (Cons i "is")
  from start_due_frame[OF Cons.prems, of now i] Cons.IH[of "start_due now i m"] same_table_trans show ?case by auto
qed simp

lemma schedule_due_frame:
  assumes "running m \<le> MAX_CONCURRENT_ISSUANCE"
  shows "same_table m (schedule_due now m) \<and> running (schedule_due now m) \<le> MAX_CONCURRENT_ISSUANCE"
proof -
  let ?m = "m\<lparr>mg_statuses := map (\<lambda>(i, s). (i, expire_status now s)) (mg_statuses m)\<rparr>"
  have "dom (hm_get (map (\<lambda>(i, s). (i, expire_status now s)) (mg_statuses m))) = dom (hm_get (mg_statuses m))"
    by (auto simp: hm_get_def map_of_map)
  then have st: "same_table m ?m" by (simp add: same_table_def)
  have "same_table ?m (fold (start_due now) is ?m) \<and> running (fold (start_due now) is ?m) \<le> MAX_CONCURRENT_ISSUANCE" for "is"
    by (rule fold_start_due_frame) (use assms in simp)
  with st same_table_trans[OF st] assms show ?thesis
    by (cases "mg_config m") (auto simp: schedule_due_def Let_def)
qed

lemma cancel_work_frame: "same_table m (fold cancel_work is m) \<and> running (fold cancel_work is m) = running m"
proof (induction "is" arbitrary: m)
  case (Cons i "is")
  have "same_table m (cancel_work i m)" "running (cancel_work i m) = running m"
    by (simp_all add: cancel_work_def same_table_def running_def)
  with Cons.IH[of "cancel_work i m"] same_table_trans show ?case by auto
qed simp

lemma load_replacements_frame:
  "fold (load_replacement env now root) cs (m, out) = (m', out') \<Longrightarrow>
     same_table m m' \<and> running m' = running m \<and> map fst out' = map fst out @ cs"
proof (induction cs arbitrary: m out)
  case (Cons c cs)
  obtain k s where l: "load_certificate_runtime env now root c = (k, s)" by (cases "load_certificate_runtime env now root c")
  let ?m = "m\<lparr>mg_cells := (mg_cells m)(mg_next_cell m := k), mg_next_cell := mg_next_cell m + 1\<rparr>"
  have "same_table m ?m" "running ?m = running m" by (simp_all add: same_table_def running_def)
  with Cons.IH[of ?m "out @ [(c, mg_next_cell m, s)]"] Cons.prems l same_table_trans show ?case
    by (auto simp: load_replacement_def)
qed simp

text \<open>What \<open>forget\<close> and \<open>install\<close> do to the table, the handles and the keys of the statuses.\<close>

definition frame :: "manager \<Rightarrow> manager \<Rightarrow> bool" where
  "frame m m' = (mg_config m' = mg_config m \<and> mg_tasks m' = mg_tasks m \<and> mg_dns_tasks m' = mg_dns_tasks m)"

lemma frame_refl [simp]: "frame m m"
  by (simp add: frame_def)

lemma frame_running: "frame m m' \<Longrightarrow> running m' = running m"
  by (simp add: frame_def running_def)

lemma fold_forget:
  assumes "table_wf (mg_resolver m)" "hm_wf (mg_resolvers m)"
  shows "frame m (fold forget is m) \<and> table_wf (mg_resolver (fold forget is m)) \<and> hm_wf (mg_resolvers (fold forget is m))
    \<and> (\<forall>d e. domain_entry (mg_resolver (fold forget is m)) d = Some e \<longleftrightarrow>
          domain_entry (mg_resolver m) d = Some e \<and> en_owner e \<notin> set is)
    \<and> (\<forall>i. hm_get (mg_resolvers (fold forget is m)) i = (if i \<in> set is then None else hm_get (mg_resolvers m) i))
    \<and> dom (hm_get (mg_statuses (fold forget is m))) = dom (hm_get (mg_statuses m)) - set is"
  using assms
proof (induction "is" arbitrary: m)
  case (Cons i "is")
  let ?m = "forget i m"
  have wf: "table_wf (mg_resolver ?m)" "hm_wf (mg_resolvers ?m)"
    using Cons.prems by (auto simp: forget_def table_wf_remove)
  have "domain_entry (mg_resolver ?m) d = Some e \<longleftrightarrow> domain_entry (mg_resolver m) d = Some e \<and> en_owner e \<noteq> i" for d e
    using domain_entry_remove[OF Cons.prems(1), of i d] by (auto simp: forget_def split: option.splits if_splits)
  moreover have "frame m ?m" by (simp add: frame_def forget_def)
  moreover have "hm_get (mg_resolvers ?m) j = (if j = i then None else hm_get (mg_resolvers m) j)" for j
    by (simp add: forget_def hm_simps)
  moreover have "dom (hm_get (mg_statuses ?m)) = dom (hm_get (mg_statuses m)) - {i}"
    by (auto simp: forget_def hm_simps split: if_splits)
  ultimately show ?case using Cons.IH[OF wf] by (auto simp: frame_def)
qed auto

abbreviation repl_ids :: "(CertificateConfig \<times> nat \<times> CertificateRuntimeStatus) list \<Rightarrow> string list" where
  "repl_ids rs \<equiv> map (\<lambda>x. ce_id (fst x)) rs"

lemma install_simps:
  assumes "table_wf (mg_resolver m)" "hm_wf (mg_resolvers m)"
  shows "domain_entry (mg_resolver (install x m)) d = Some e \<longleftrightarrow>
      d \<in> set (ce_domains (fst x)) \<and> e = \<lparr>en_owner = ce_id (fst x), en_resolver = fst (snd x)\<rparr>
      \<or> d \<notin> set (ce_domains (fst x)) \<and> domain_entry (mg_resolver m) d = Some e \<and> en_owner e \<noteq> ce_id (fst x)"
    and "table_wf (mg_resolver (install x m))" "hm_wf (mg_resolvers (install x m))" "frame m (install x m)"
    and "hm_get (mg_resolvers (install x m)) j = (if j = ce_id (fst x) then Some (fst (snd x)) else hm_get (mg_resolvers m) j)"
    and "dom (hm_get (mg_statuses (install x m))) = insert (ce_id (fst x)) (dom (hm_get (mg_statuses m)))"
proof -
  obtain c h s where x: "x = (c, h, s)" by (cases x)
  show "domain_entry (mg_resolver (install x m)) d = Some e \<longleftrightarrow>
      d \<in> set (ce_domains (fst x)) \<and> e = \<lparr>en_owner = ce_id (fst x), en_resolver = fst (snd x)\<rparr>
      \<or> d \<notin> set (ce_domains (fst x)) \<and> domain_entry (mg_resolver m) d = Some e \<and> en_owner e \<noteq> ce_id (fst x)"
    using replace_direct_entry(2)[OF assms(1), of "ce_id c" "ce_domains c" h d]
    by (auto simp: install_def x split: option.splits if_splits)
  show "table_wf (mg_resolver (install x m))" "hm_wf (mg_resolvers (install x m))" "frame m (install x m)"
    using assms by (auto simp: x install_def replace_direct_entry(1) frame_def)
  show "hm_get (mg_resolvers (install x m)) j = (if j = ce_id (fst x) then Some (fst (snd x)) else hm_get (mg_resolvers m) j)"
    "dom (hm_get (mg_statuses (install x m))) = insert (ce_id (fst x)) (dom (hm_get (mg_statuses m)))"
    by (auto simp: install_def x hm_simps split: if_splits)
qed

lemma fold_install_frame:
  assumes "table_wf (mg_resolver m)" "hm_wf (mg_resolvers m)"
  shows "frame m (fold install rs m) \<and> table_wf (mg_resolver (fold install rs m)) \<and> hm_wf (mg_resolvers (fold install rs m))
    \<and> dom (hm_get (mg_statuses (fold install rs m))) = dom (hm_get (mg_statuses m)) \<union> set (repl_ids rs)
    \<and> (\<forall>i. i \<notin> set (repl_ids rs) \<longrightarrow> hm_get (mg_resolvers (fold install rs m)) i = hm_get (mg_resolvers m) i)"
  using assms
proof (induction rs arbitrary: m)
  case (Cons x rs)
  note i = install_simps[OF Cons.prems, of x]
  show ?case using Cons.IH[OF i(2,3)] i(4) by (auto simp: i(5,6) frame_def)
qed simp

lemma fold_install_handles:
  assumes "table_wf (mg_resolver m)" "hm_wf (mg_resolvers m)" "distinct (repl_ids rs)" "x \<in> set rs"
  shows "hm_get (mg_resolvers (fold install rs m)) (ce_id (fst x)) = Some (fst (snd x))"
  using assms
proof (induction rs arbitrary: m)
  case (Cons y rs)
  note i = install_simps[OF Cons.prems(1,2), of y]
  show ?case
  proof (cases "x \<in> set rs")
    case True
    with Cons.IH[OF i(2,3)] Cons.prems(3) show ?thesis by simp
  next
    case False
    with Cons.prems have "x = y" "ce_id (fst x) \<notin> set (repl_ids rs)" by auto
    with fold_install_frame[OF i(2,3), of rs] i(5) show ?thesis by simp
  qed
qed simp

lemma fold_install_entry:
  assumes "table_wf (mg_resolver m)" "hm_wf (mg_resolvers m)" "distinct (repl_ids rs)"
    "distinct (concat (map (\<lambda>x. ce_domains (fst x)) rs))"
  shows "domain_entry (mg_resolver (fold install rs m)) d = Some e \<longleftrightarrow>
      (\<exists>x \<in> set rs. d \<in> set (ce_domains (fst x)) \<and> e = \<lparr>en_owner = ce_id (fst x), en_resolver = fst (snd x)\<rparr>)
      \<or> (\<forall>x \<in> set rs. d \<notin> set (ce_domains (fst x))) \<and> domain_entry (mg_resolver m) d = Some e
         \<and> en_owner e \<notin> set (repl_ids rs)"
  using assms
proof (induction rs arbitrary: m)
  case (Cons y rs)
  note i = install_simps[OF Cons.prems(1,2), of y]
  have d: "distinct (repl_ids rs)" "distinct (concat (map (\<lambda>x. ce_domains (fst x)) rs))"
    and new: "ce_id (fst y) \<notin> set (repl_ids rs)"
    and disj: "\<And>x. x \<in> set rs \<Longrightarrow> d \<in> set (ce_domains (fst y)) \<Longrightarrow> d \<notin> set (ce_domains (fst x))"
    using Cons.prems(3,4) by auto
  have eq: "domain_entry (mg_resolver (fold install rs (install y m))) d = Some e \<longleftrightarrow>
      (\<exists>x \<in> set rs. d \<in> set (ce_domains (fst x)) \<and> e = \<lparr>en_owner = ce_id (fst x), en_resolver = fst (snd x)\<rparr>)
      \<or> (\<forall>x \<in> set rs. d \<notin> set (ce_domains (fst x)))
         \<and> (d \<in> set (ce_domains (fst y)) \<and> e = \<lparr>en_owner = ce_id (fst y), en_resolver = fst (snd y)\<rparr>
            \<or> d \<notin> set (ce_domains (fst y)) \<and> domain_entry (mg_resolver m) d = Some e \<and> en_owner e \<noteq> ce_id (fst y))
         \<and> en_owner e \<notin> set (repl_ids rs)"
    unfolding Cons.IH[OF i(2,3) d] i(1) by simp
  show ?case
  proof (cases "d \<in> set (ce_domains (fst y))")
    case True
    then have n: "\<forall>x \<in> set rs. d \<notin> set (ce_domains (fst x))" using disj by blast
    let ?e = "\<lparr>en_owner = ce_id (fst y), en_resolver = fst (snd y)\<rparr>"
    have "domain_entry (mg_resolver (fold install rs (install y m))) d = Some e \<longleftrightarrow> e = ?e"
      unfolding eq using n True new by fastforce
    moreover have "(\<exists>x \<in> set (y # rs). d \<in> set (ce_domains (fst x)) \<and> e = \<lparr>en_owner = ce_id (fst x), en_resolver = fst (snd x)\<rparr>) \<longleftrightarrow> e = ?e"
      using n True by fastforce
    ultimately show ?thesis using True by simp
  next
    case False
    then show ?thesis using eq by auto
  qed
qed simp

section \<open>Applying a configuration keeps the invariant\<close>

lemma reload_certificates:
  assumes "mg_config m = Some cur" "b \<in> set (pc_certificates c)" "ce_id b \<notin> set (certificates_requiring_reload (mg_config m) c)"
  shows "\<exists>a \<in> set (pc_certificates cur). ce_id a = ce_id b \<and> ce_domains a = ce_domains b"
proof -
  from assms obtain a where "find_certificate cur (ce_id b) = Some a" "\<not> certificate_runtime_changed cur c a b"
    by (auto simp: certificates_requiring_reload_def split: option.splits)
  then show ?thesis
    by (auto simp: find_certificate_def certificate_runtime_changed_def find_Some_iff intro: nth_mem)
qed

lemma find_by_id:
  "distinct (map f xs) \<Longrightarrow> x \<in> set xs \<Longrightarrow> y \<in> set xs \<Longrightarrow> f x = f y \<Longrightarrow> x = y"
  by (auto simp: distinct_map inj_on_def)

lemma distinct_filter_concat:
  "distinct (concat (map f xs)) \<Longrightarrow> distinct (concat (map f (filter P xs)))"
  by (induction xs) auto

lemma domain_of_one:
  "distinct (concat (map f xs)) \<Longrightarrow> x \<in> set xs \<Longrightarrow> y \<in> set xs \<Longrightarrow> d \<in> set (f x) \<Longrightarrow> d \<in> set (f y) \<Longrightarrow> x = y"
  by (induction xs) auto

lemma reload_ids:
  "set (certificates_requiring_reload cur c) \<subseteq> set (map ce_id (pc_certificates c))"
  by (auto simp: certificates_requiring_reload_def split: option.splits)

lemma kept_certificate:
  assumes "b \<in> set (pc_certificates c)" "ce_id b \<notin> set (certificates_requiring_reload (mg_config m) c)"
  shows "\<exists>a \<in> set (applied_certificates m). ce_id a = ce_id b \<and> ce_domains a = ce_domains b"
proof (cases "mg_config m")
  case None
  with assms show ?thesis by (simp add: certificates_requiring_reload_def)
next
  case (Some cur)
  with reload_certificates[OF Some assms] show ?thesis by (simp add: applied_certificates_def)
qed

text \<open>
  Replacing the entries of the certificates with an id in \<open>R\<close> and dropping those of certificates
  that are gone gives the table of the new list, when the other certificates kept their domains.
\<close>

lemma table_resync:
  assumes sync: "table_synced old hs st" and old_dist: "distinct (map ce_id old)"
    and dist: "distinct (map ce_id cs)" "distinct (concat (map ce_domains cs))"
    and kept: "\<And>b. b \<in> set cs \<Longrightarrow> ce_id b \<notin> R \<Longrightarrow> \<exists>a \<in> set old. ce_id a = ce_id b \<and> ce_domains a = ce_domains b"
    and entry: "\<And>d e. domain_entry st' d = Some e \<longleftrightarrow>
        (\<exists>b \<in> set cs. ce_id b \<in> R \<and> d \<in> set (ce_domains b) \<and> e = \<lparr>en_owner = ce_id b, en_resolver = H (ce_id b)\<rparr>)
        \<or> (\<forall>b \<in> set cs. ce_id b \<in> R \<longrightarrow> d \<notin> set (ce_domains b)) \<and> domain_entry st d = Some e
           \<and> en_owner e \<in> set (map ce_id cs) \<and> en_owner e \<notin> R"
    and new: "\<And>b. b \<in> set cs \<Longrightarrow> ce_id b \<in> R \<Longrightarrow> hm_get hs' (ce_id b) = Some (H (ce_id b))"
    and same: "\<And>b. b \<in> set cs \<Longrightarrow> ce_id b \<notin> R \<Longrightarrow> hm_get hs' (ce_id b) = hm_get hs (ce_id b)"
  shows "table_synced cs hs' st'"
  unfolding table_synced_def
proof (intro allI iffI)
  fix d and e :: ResolverEntry
  assume "domain_entry st' d = Some e"
  then consider (fresh) b where "b \<in> set cs" "ce_id b \<in> R" "d \<in> set (ce_domains b)"
      "e = \<lparr>en_owner = ce_id b, en_resolver = H (ce_id b)\<rparr>"
    | (old) b where "b \<in> set cs" "ce_id b = en_owner e" "ce_id b \<notin> R" "domain_entry st d = Some e"
    unfolding entry by auto
  then show "\<exists>c \<in> set cs. d \<in> set (ce_domains c) \<and> ce_id c = en_owner e \<and> hm_get hs' (ce_id c) = Some (en_resolver e)"
  proof cases
    case fresh
    with new show ?thesis by (intro bexI[of _ b]) auto
  next
    case old
    from sync old(4) obtain a where a: "a \<in> set old" "d \<in> set (ce_domains a)" "ce_id a = en_owner e"
      "hm_get hs (ce_id a) = Some (en_resolver e)" unfolding table_synced_def by blast
    from kept[OF old(1,3)] obtain a' where a': "a' \<in> set old" "ce_id a' = ce_id b" "ce_domains a' = ce_domains b" by blast
    have "a' = a" using find_by_id[OF old_dist a'(1) a(1)] a'(2) a(3) old(2) by simp
    with a a' old(1,2) same[OF old(1,3)] show ?thesis by (intro bexI[of _ b]) auto
  qed
next
  fix d and e :: ResolverEntry
  assume "\<exists>c \<in> set cs. d \<in> set (ce_domains c) \<and> ce_id c = en_owner e \<and> hm_get hs' (ce_id c) = Some (en_resolver e)"
  then obtain b where b: "b \<in> set cs" "d \<in> set (ce_domains b)" "ce_id b = en_owner e"
    "hm_get hs' (ce_id b) = Some (en_resolver e)" by blast
  show "domain_entry st' d = Some e"
  proof (cases "ce_id b \<in> R")
    case True
    with new b have "e = \<lparr>en_owner = ce_id b, en_resolver = H (ce_id b)\<rparr>" by (cases e) auto
    with True b show ?thesis unfolding entry by blast
  next
    case False
    from kept[OF b(1) False] obtain a where "a \<in> set old" "ce_id a = ce_id b" "ce_domains a = ce_domains b" by blast
    with b same[OF b(1) False] sync have "domain_entry st d = Some e" unfolding table_synced_def by metis
    moreover have "d \<notin> set (ce_domains b')" if "b' \<in> set cs" "ce_id b' \<in> R" for b'
      using domain_of_one[OF dist(2) that(1) b(1)] that(2) False b(2) by metis
    moreover have "en_owner e \<in> set (map ce_id cs)" using b(1,3) by (metis image_eqI list.set_map)
    ultimately show ?thesis using b(3) False unfolding entry by simp
  qed
qed

lemma replacements:
  assumes rs: "map fst rs = filter (\<lambda>c. ce_id c \<in> R) cs" and "R \<subseteq> set (map ce_id cs)"
    and dist: "distinct (map ce_id cs)" "distinct (concat (map ce_domains cs))"
  shows "set (repl_ids rs) = R" "distinct (repl_ids rs)" "distinct (concat (map (\<lambda>x. ce_domains (fst x)) rs))"
    "x \<in> set rs \<Longrightarrow> fst x \<in> set cs \<and> ce_id (fst x) \<in> R" "b \<in> set cs \<Longrightarrow> ce_id b \<in> R \<Longrightarrow> \<exists>x \<in> set rs. fst x = b"
proof -
  have m: "map (\<lambda>x. f (fst x)) rs = map f (filter (\<lambda>c. ce_id c \<in> R) cs)" for f :: "CertificateConfig \<Rightarrow> 'z"
    unfolding rs[symmetric] by simp
  show "set (repl_ids rs) = R" unfolding m using assms(2) by auto
  show "distinct (repl_ids rs)" unfolding m using dist(1) by (rule distinct_map_filter)
  show "distinct (concat (map (\<lambda>x. ce_domains (fst x)) rs))" unfolding m by (rule distinct_filter_concat[OF dist(2)])
  have "fst ` set rs = {c \<in> set cs. ce_id c \<in> R}" using arg_cong[OF rs, of set] by simp
  then show "x \<in> set rs \<Longrightarrow> fst x \<in> set cs \<and> ce_id (fst x) \<in> R" "b \<in> set cs \<Longrightarrow> ce_id b \<in> R \<Longrightarrow> \<exists>x \<in> set rs. fst x = b"
    by (auto simp: set_eq_iff image_iff) metis
qed

text \<open>The table after the removed certificates are forgotten and the reloaded ones installed.\<close>

lemma apply_table:
  assumes inv: "manager_inv m" and dist: "distinct (map ce_id cs)" "distinct (concat (map ce_domains cs))"
    and cs: "cs = pc_certificates c" and rs: "map fst rs = filter (\<lambda>c. ce_id c \<in> R) cs"
    and R: "R = set (certificates_requiring_reload (mg_config m) c)"
    and base: "mg_resolver m2 = mg_resolver m" "mg_resolvers m2 = mg_resolvers m"
      "dom (hm_get (mg_statuses m2)) = dom (hm_get (mg_statuses m))"
    and removed: "set removed = set (map ce_id (applied_certificates m)) - set (map ce_id cs)"
    and m3: "m3 = fold install rs (fold forget removed m2)"
  shows "table_wf (mg_resolver m3) \<and> hm_wf (mg_resolvers m3) \<and> frame m2 m3
    \<and> dom (hm_get (mg_resolvers m3)) = set (map ce_id cs) \<and> dom (hm_get (mg_statuses m3)) = set (map ce_id cs)
    \<and> table_synced cs (mg_resolvers m3) (mg_resolver m3)"
proof -
  let ?old = "applied_certificates m"
  have wf: "table_wf (mg_resolver m2)" "hm_wf (mg_resolvers m2)"
    and doms: "dom (hm_get (mg_resolvers m)) = set (map ce_id ?old)" "dom (hm_get (mg_statuses m)) = set (map ce_id ?old)"
    and sync: "table_synced ?old (mg_resolvers m) (mg_resolver m)" and old_dist: "distinct (map ce_id ?old)"
    using inv base by (simp_all add: manager_inv_def)
  have sub: "R \<subseteq> set (map ce_id cs)" using reload_ids by (simp add: R cs)
  note rp = replacements[OF rs sub dist]
  note fg = fold_forget[OF wf, of removed]
  note wf' = fg[THEN conjunct2, THEN conjunct1] fg[THEN conjunct2, THEN conjunct2, THEN conjunct1]
  note fi = fold_install_frame[OF wf', of rs, folded m3, unfolded rp(1)]
    and hd = fold_install_handles[OF wf' rp(2), folded m3] and en = fold_install_entry[OF wf' rp(2,3), folded m3, unfolded rp(1)]
  have kept: "\<exists>a \<in> set ?old. ce_id a = ce_id b \<and> ce_domains a = ce_domains b" if "b \<in> set cs" "ce_id b \<notin> R" for b
    using kept_certificate[of b c m] that by (simp add: cs R)
  have kept_ids: "set (map ce_id cs) - R \<subseteq> set (map ce_id ?old)"
  proof
    fix i
    assume "i \<in> set (map ce_id cs) - R"
    then obtain b where "b \<in> set cs" "ce_id b = i" "i \<notin> R" by auto
    with kept[of b] obtain a where "a \<in> set ?old" "ce_id a = i" by blast
    then show "i \<in> set (map ce_id ?old)" by (metis image_eqI list.set_map)
  qed
  let ?H = "\<lambda>i. the (hm_get (mg_resolvers m3) i)"
  have new: "hm_get (mg_resolvers m3) (ce_id b) = Some (?H (ce_id b))" if "b \<in> set cs" "ce_id b \<in> R" for b
    using rp(5)[OF that] hd by force
  have same: "hm_get (mg_resolvers m3) i = (if i \<in> set removed then None else hm_get (mg_resolvers m) i)" if "i \<notin> R" for i
    using fi fg that base(2) by simp
  have "domain_entry (mg_resolver m3) d = Some e \<longleftrightarrow>
        (\<exists>b \<in> set cs. ce_id b \<in> R \<and> d \<in> set (ce_domains b) \<and> e = \<lparr>en_owner = ce_id b, en_resolver = ?H (ce_id b)\<rparr>)
        \<or> (\<forall>b \<in> set cs. ce_id b \<in> R \<longrightarrow> d \<notin> set (ce_domains b)) \<and> domain_entry (mg_resolver m) d = Some e
           \<and> en_owner e \<in> set (map ce_id cs) \<and> en_owner e \<notin> R" for d e
  proof -
    have own: "en_owner e \<in> set (map ce_id ?old)" if "domain_entry (mg_resolver m) d = Some e"
      using sync that unfolding table_synced_def by (metis image_eqI list.set_map)
    have 1: "(\<exists>x \<in> set rs. d \<in> set (ce_domains (fst x)) \<and> e = \<lparr>en_owner = ce_id (fst x), en_resolver = fst (snd x)\<rparr>) \<longleftrightarrow>
        (\<exists>b \<in> set cs. ce_id b \<in> R \<and> d \<in> set (ce_domains b) \<and> e = \<lparr>en_owner = ce_id b, en_resolver = ?H (ce_id b)\<rparr>)"
      using rp(4,5) hd by (metis option.sel)
    have 2: "(\<forall>x \<in> set rs. d \<notin> set (ce_domains (fst x))) \<longleftrightarrow> (\<forall>b \<in> set cs. ce_id b \<in> R \<longrightarrow> d \<notin> set (ce_domains b))"
      using rp(4,5) by metis
    show ?thesis unfolding en 1 2 using fg own removed base(1) by auto
  qed
  from table_resync[OF sync old_dist dist kept this new] same removed
  have "table_synced cs (mg_resolvers m3) (mg_resolver m3)" by auto
  moreover have "i \<in> dom (hm_get (mg_resolvers m3)) \<longleftrightarrow> i \<in> set (map ce_id cs)" for i
  proof (cases "i \<in> R")
    case True
    with sub obtain b where "b \<in> set cs" "ce_id b = i" by auto
    with new[of b] True show ?thesis by auto
  next
    case False
    then have "i \<in> dom (hm_get (mg_resolvers m3)) \<longleftrightarrow> i \<in> set (map ce_id ?old) - set removed"
      using same[OF False] doms(1) by (auto simp: dom_def)
    with removed kept_ids False show ?thesis by blast
  qed
  then have "dom (hm_get (mg_resolvers m3)) = set (map ce_id cs)" by blast
  ultimately show ?thesis using fi fg doms(2) base(3) removed sub kept_ids by (auto simp: frame_def)
qed

lemma apply_config_inv:
  assumes inv: "manager_inv m" and valid: "valid_proxy_config pu c"
  shows "manager_inv (apply_config env now c m) \<and> mg_config (apply_config env now c m) = Some c"
proof -
  let ?R = "certificates_requiring_reload (mg_config m) c"
  let ?rem = "filter (\<lambda>i. i \<notin> set (map ce_id (pc_certificates c))) (hm_keys (mg_resolvers m))"
  let ?m1 = "fold cancel_work (?R @ ?rem) m"
  obtain m2 rs where load: "fold (load_replacement env now (cache_dir (pc_proxy c)))
      (filter (\<lambda>c. ce_id c \<in> set ?R) (pc_certificates c)) (?m1, []) = (m2, rs)" by fastforce
  let ?m3 = "fold install rs (fold forget ?rem m2)"
  let ?m4 = "?m3\<lparr>mg_retry := hm_remove_all (map ce_id (filter (renewal_toggled (mg_config m)) (pc_certificates c))) (mg_retry ?m3),
      mg_config := Some c\<rparr>"
  have eq: "apply_config env now c m = schedule_due now (publish_certificates ?m4)"
    using load by (simp add: apply_config_def Let_def)
  note l = load_replacements_frame[OF load] and cw = cancel_work_frame[of m "?R @ ?rem"]
  have st: "same_table m m2" and run: "running m2 = running m" and rs: "map fst rs = filter (\<lambda>c. ce_id c \<in> set ?R) (pc_certificates c)"
    using l cw same_table_trans by auto
  have dist: "distinct (map ce_id (pc_certificates c))" "distinct (concat (map ce_domains (pc_certificates c)))"
    using valid by (simp_all add: valid_proxy_config_def)
  have rem: "set ?rem = set (map ce_id (applied_certificates m)) - set (map ce_id (pc_certificates c))"
    using inv by (auto simp: manager_inv_def hm_keys_def dom_hm_get)
  have t: "table_wf (mg_resolver ?m3) \<and> hm_wf (mg_resolvers ?m3) \<and> frame m2 ?m3
    \<and> dom (hm_get (mg_resolvers ?m3)) = set (map ce_id (pc_certificates c))
    \<and> dom (hm_get (mg_statuses ?m3)) = set (map ce_id (pc_certificates c))
    \<and> table_synced (pc_certificates c) (mg_resolvers ?m3) (mg_resolver ?m3)"
    by (rule apply_table[OF inv dist refl rs refl _ _ _ rem refl]) (use st in \<open>simp_all add: same_table_def\<close>)
  then have "running ?m3 = running m" using frame_running[of m2 ?m3] run by simp
  then have "running ?m4 = running m" by (simp add: running_def)
  moreover have "mg_dns_tasks ?m3 = mg_dns_tasks m" using t st by (simp add: frame_def same_table_def)
  ultimately have "manager_inv (publish_certificates ?m4)"
    using t inv dist(1) by (auto simp: manager_inv_def publish_certificates_def running_def applied_certificates_def)
  moreover from this have "running (publish_certificates ?m4) \<le> MAX_CONCURRENT_ISSUANCE" by (simp add: manager_inv_def)
  note sd = schedule_due_frame[OF this, of now]
  moreover have "mg_config (publish_certificates ?m4) = Some c" by (simp add: publish_certificates_def)
  ultimately show ?thesis
    unfolding eq using inv_same_table by (simp add: same_table_def)
qed

lemma filter_drop_nth: "length (filter P (take k xs @ drop (Suc k) xs)) \<le> length (filter P xs)"
proof (induction xs arbitrary: k)
  case (Cons x xs)
  show ?case using Cons.IH[of "k - 1"] by (cases k) auto
qed simp

lemma filter_list_update:
  "k < length xs \<Longrightarrow> \<not> P y \<Longrightarrow> length (filter P (xs[k := y])) \<le> length (filter P xs)"
proof (induction xs arbitrary: k)
  case (Cons x xs)
  show ?case
  proof (cases k)
    case (Suc j)
    with Cons.IH[of j] Cons.prems show ?thesis by simp
  qed (use Cons.prems in simp)
qed simp

lemma manager_turn_inv:
  assumes "manager_inv m" "case ev of Command (ApplyConfig c) \<Rightarrow> valid_proxy_config pu c | _ \<Rightarrow> True"
  shows "manager_inv (manager_turn env now ev m)
    \<and> mg_config (manager_turn env now ev m) = (case ev of Command (ApplyConfig c) \<Rightarrow> Some c | _ \<Rightarrow> mg_config m)"
proof -
  have run: "running m \<le> MAX_CONCURRENT_ISSUANCE" using assms(1) by (simp add: manager_inv_def)
  have fin: "manager_inv m' \<and> mg_config m' = mg_config m" if "same_table m m'" "running m' \<le> MAX_CONCURRENT_ISSUANCE" for m'
    using inv_same_table[OF assms(1) that] that(1) by (simp add: same_table_def)
  show ?thesis
  proof (cases ev)
    case (Command cmd)
    show ?thesis
    proof (cases cmd)
      case (ApplyConfig c)
      with assms Command apply_config_inv[OF assms(1), of pu c env now] show ?thesis
        by (simp add: manager_turn_def handle_command_def)
    next
      case (IssueCertificate i)
      with Command start_issue_frame[OF _ run, of i False] fin show ?thesis
        by (cases "start_issue i False m") (auto simp: manager_turn_def handle_command_def)
    next
      case (ContinueCertificate i)
      with Command start_continue_frame[OF _ run, of i] fin show ?thesis
        by (cases "start_continue i m") (auto simp: manager_turn_def handle_command_def)
    next
      case TestDns
      with Command assms(1) show ?thesis
        by (auto simp: manager_turn_def handle_command_def manager_inv_def running_def applied_certificates_def)
    qed
  next
    case Tick
    with schedule_due_frame[OF run] fin show ?thesis by (simp add: manager_turn_def)
  next
    case (TaskEnds k r)
    have "running (manager_turn env now ev m) \<le> running m"
      using filter_list_update[of k "mg_tasks m" "\<lambda>t. rt_end t = None"] by (simp add: TaskEnds manager_turn_def running_def)
    moreover have "same_table m (manager_turn env now ev m)" by (simp add: TaskEnds manager_turn_def)
    ultimately have "manager_inv (manager_turn env now ev m) \<and> mg_config (manager_turn env now ev m) = mg_config m"
      using run by (intro fin) simp_all
    with TaskEnds show ?thesis by simp
  next
    case (TaskJoined k)
    let ?rest = "m\<lparr>mg_tasks := take k (mg_tasks m) @ drop (Suc k) (mg_tasks m)\<rparr>"
    have r: "running ?rest \<le> running m"
      using filter_drop_nth[of "\<lambda>t. rt_end t = None" k "mg_tasks m"] by (simp add: running_def)
    have ht: "same_table m (handle_task env now i g x ?rest)"
      "running (handle_task env now i g x ?rest) \<le> MAX_CONCURRENT_ISSUANCE" for i g x
      using handle_task_frame[where m = ?rest and env = env and now = now and i = i and g = g and r = x]
        same_table_trans[OF same_table_update(6)] r run by fastforce+
    have "same_table m (manager_turn env now ev m) \<and> running (manager_turn env now ev m) \<le> MAX_CONCURRENT_ISSUANCE"
      using r run ht by (simp add: TaskJoined manager_turn_def Let_def split: option.split)
    then have "manager_inv (manager_turn env now ev m) \<and> mg_config (manager_turn env now ev m) = mg_config m"
      by (intro fin) simp_all
    with TaskJoined show ?thesis by simp
  next
    case DnsTaskJoined
    with assms(1) show ?thesis by (auto simp: manager_turn_def manager_inv_def running_def applied_certificates_def)
  qed
qed

lemma manager_reachable_inv:
  "manager_reachable pu env m \<Longrightarrow> manager_inv m \<and> (\<forall>c. mg_config m = Some c \<longrightarrow> valid_proxy_config pu c)"
proof (induction rule: manager_reachable.induct)
  case manager_start
  then show ?case
    by (simp add: manager_inv_def certificate_manager_new_def table_wf_def table_synced_def domain_entry_def running_def
        applied_certificates_def fun_eq_iff MAX_CONCURRENT_ISSUANCE_def MAX_CONCURRENT_DNS_TESTS_def split: option.split)
next
  case (manager_event m ev now)
  from manager_turn_inv[OF conjunct1[OF manager_event.IH] manager_event.hyps(2)] manager_event.IH manager_event.hyps(2)
  show ?case by (auto split: manager_event.splits manager_command.splits)
qed

section \<open>Which certificate a handshake gets\<close>

lemma synced_entry:
  assumes "table_synced cs hs st" "distinct (concat (map ce_domains cs))" "set (map ce_id cs) \<subseteq> dom (hm_get hs)"
  shows "map_option en_resolver (domain_entry st d) = Option.bind (hm_get (owner_map cs []) d) (hm_get hs)"
proof (cases "hm_get (owner_map cs []) d")
  case None
  then have "d \<notin> set (ce_domains c)" if "c \<in> set cs" for c
    using that hm_get_owner_map[OF assms(2), of "[]" d] by auto
  then have "domain_entry st d \<noteq> Some e" for e using assms(1) unfolding table_synced_def by blast
  then have "domain_entry st d = None" by (cases "domain_entry st d") blast+
  with None show ?thesis by simp
next
  case (Some i)
  then obtain c where c: "c \<in> set cs" "ce_id c = i" "d \<in> set (ce_domains c)"
    using hm_get_owner_map[OF assms(2), of "[]" d i] by auto
  with assms(3) obtain h where h: "hm_get hs i = Some h" by fastforce
  then have "domain_entry st d = Some \<lparr>en_owner = i, en_resolver = h\<rparr>"
    using assms(1) c unfolding table_synced_def by auto
  with Some h show ?thesis by simp
qed

lemma resolver_for_host:
  assumes inv: "manager_inv m" and cfg: "mg_config m = Some c" and dist: "distinct (concat (map ce_domains (pc_certificates c)))"
  shows "resolver_for (mg_resolver m) h =
    Option.bind (certificate_for_host (owner_map (pc_certificates c) []) h) (hm_get (mg_resolvers m))"
proof -
  let ?o = "owner_map (pc_certificates c) []"
  have wf: "table_wf (mg_resolver m)" and ids: "set (map ce_id (pc_certificates c)) \<subseteq> dom (hm_get (mg_resolvers m))"
    and sync: "table_synced (pc_certificates c) (mg_resolvers m) (mg_resolver m)"
    using inv cfg by (simp_all add: manager_inv_def applied_certificates_def)
  note e = synced_entry[OF sync dist ids]
  have own: "\<exists>r. hm_get (mg_resolvers m) i = Some r" if "hm_get ?o d = Some i" for d i
    using that hm_get_owner_map[OF dist, of "[]" d i] ids by (auto simp: dom_def)
  show ?thesis
  proof (cases "hm_get ?o h")
    case (Some i)
    with own[OF Some] e[of h] show ?thesis
      by (auto simp: resolver_for_eq[OF wf] certificate_for_host_eq[OF hm_wf_owner_map[OF hm_wf_Nil]])
  next
    case None
    with e[of h] have "domain_entry (mg_resolver m) h = None" by simp
    with None show ?thesis
      using e[of "''*.'' @ p" for p]
      by (auto simp: resolver_for_eq[OF wf] certificate_for_host_eq[OF hm_wf_owner_map[OF hm_wf_Nil]] split: option.split)
  qed
qed

text \<open>
  C28. The certificate table follows the configuration. In every state the certificate manager
  reaches, whatever commands, task results, panics and timer ticks it has processed, the table
  the TLS acceptor consults maps a server name to the resolver of exactly the certificate that
  the validated configuration assigns to it (the one listing the name, else the one listing the
  wildcard of its parent), and to nothing when there is none. In particular the host of every
  TLS route finds the certificate named by the route. At most four issuance tasks and four DNS
  tests run at a time.
\<close>

theorem certificate_table_follows_config:
  assumes "manager_reachable pu env m" "mg_config m = Some c"
  shows "resolver_for (mg_resolver m) host =
        Option.bind (certificate_for_host (owner_map (pc_certificates c) []) host) (hm_get (mg_resolvers m))
    \<and> list_all (\<lambda>r. case rc_certificate_id r of
             None \<Rightarrow> True
           | Some i \<Rightarrow> hm_get (mg_resolvers m) i \<noteq> None \<and> resolver_for (mg_resolver m) (rc_host r) = hm_get (mg_resolvers m) i)
           (pc_routes c)
    \<and> running m \<le> MAX_CONCURRENT_ISSUANCE \<and> mg_dns_tasks m \<le> MAX_CONCURRENT_DNS_TESTS"
proof -
  have inv: "manager_inv m" and valid: "valid_proxy_config pu c"
    using manager_reachable_inv[OF assms(1)] assms(2) by auto
  have dist: "distinct (concat (map ce_domains (pc_certificates c)))" using valid by (simp add: valid_proxy_config_def)
  note r = resolver_for_host[OF inv assms(2) dist]
  have ids: "dom (hm_get (mg_resolvers m)) = set (map ce_id (pc_certificates c))"
    using inv assms(2) by (simp add: manager_inv_def applied_certificates_def)
  have "hm_get (mg_resolvers m) i \<noteq> None \<and> resolver_for (mg_resolver m) (rc_host rt) = hm_get (mg_resolvers m) i"
    if "rt \<in> set (pc_routes c)" "rc_certificate_id rt = Some i" for rt i
  proof -
    from valid that have ex: "\<exists>x \<in> set (pc_certificates c). ce_id x = i \<and> covers (pc_certificates c) x (rc_host rt)"
      by (auto simp: valid_proxy_config_def list_all_iff valid_route_def list_ex_iff)
    then have "certificate_for_host (owner_map (pc_certificates c) []) (rc_host rt) = Some i"
      by (simp add: certificate_for_host_covers[OF dist])
    with r[of "rc_host rt"] ex ids show ?thesis by auto
  qed
  then have "list_all (\<lambda>r. case rc_certificate_id r of
             None \<Rightarrow> True
           | Some i \<Rightarrow> hm_get (mg_resolvers m) i \<noteq> None \<and> resolver_for (mg_resolver m) (rc_host r) = hm_get (mg_resolvers m) i)
           (pc_routes c)"
    by (auto simp: list_all_iff split: option.split)
  with r inv show ?thesis by (simp add: manager_inv_def)
qed

definition sample_manager_env :: manager_env where
  "sample_manager_env =
     \<lparr>me_tls = \<lparr>te_certs = (\<lambda>b. Inr [b]), te_private_key = (\<lambda>b. Inr (Some b)), te_signing_key = Inr,
                te_keys_match = (\<lambda>_ _. Inr ())\<rparr>,
      me_load = (\<lambda>_ _. Inr (Some \<lparr>cd_certificate = [1], cd_private_key = [2], cd_expires_at = 5000\<rparr>))\<rparr>"

definition sample_tls_config :: ProxyConfig where
  "sample_tls_config =
     \<lparr>pc_proxy = \<lparr>http_bind = SocketAddrV4 0 80, https_bind = SocketAddrV4 0 443,
                   cache_dir = Path True [''cache''], pl_max_connections = 16\<rparr>,
      pc_acme_accounts = [\<lparr>aa_id = ''acme'', aa_name = ''acme'', aa_provider = LetsEncrypt, aa_environment = Staging,
                           aa_email = ''a@b'', aa_key_algorithm = Ec256, aa_eab_key_id = None, aa_eab_hmac_key = None\<rparr>],
      pc_dns_accounts = [], pc_certificates = [sample_certificate],
      pc_routes = [\<lparr>rc_name = ''root'', rc_host = ''example.com'', rc_path_prefix = ''/'',
                    rc_upstream = ''http://127.0.0.1:3000'', rc_certificate_id = Some ''site''\<rparr>]\<rparr>"

lemma sample_tls_config_valid: "valid_proxy_config (\<lambda>_. Some sample_uri) sample_tls_config"
proof -
  have "list_all is_ascii_alphanumeric ''root''" "list_all is_ascii_alphanumeric ''acme''"
    "list_all is_ascii_alphanumeric ''site''" by code_simp+
  then have "valid_display_name ''root''" "valid_display_name ''acme''" "valid_display_name ''site''"
    by (auto intro: valid_display_name_ascii)
  moreover have "valid_domain ''example.com''" "valid_id ''acme''" "valid_id ''site''" by code_simp+
  ultimately show ?thesis
    by (simp add: valid_proxy_config_def sample_tls_config_def sample_certificate_def valid_acme_account_def
        valid_certificate_def challenge_ok_def valid_route_def valid_upstream_def sample_uri_def covers_def)
qed

definition sample_certificate_manager :: manager where
  "sample_certificate_manager = manager_turn sample_manager_env 1000 (Command (ApplyConfig sample_tls_config)) certificate_manager_new"

theorem certificate_table_follows_config_witness:
  "manager_reachable (\<lambda>_. Some sample_uri) sample_manager_env sample_certificate_manager
   \<and> mg_config sample_certificate_manager = Some sample_tls_config
   \<and> resolver_for (mg_resolver sample_certificate_manager) ''example.com'' =
        Option.bind (certificate_for_host (owner_map (pc_certificates sample_tls_config) []) ''example.com'')
          (hm_get (mg_resolvers sample_certificate_manager))
   \<and> list_all (\<lambda>r. case rc_certificate_id r of
             None \<Rightarrow> True
           | Some i \<Rightarrow> hm_get (mg_resolvers sample_certificate_manager) i \<noteq> None
               \<and> resolver_for (mg_resolver sample_certificate_manager) (rc_host r) = hm_get (mg_resolvers sample_certificate_manager) i)
           (pc_routes sample_tls_config)
   \<and> running sample_certificate_manager \<le> MAX_CONCURRENT_ISSUANCE \<and> mg_dns_tasks sample_certificate_manager \<le> MAX_CONCURRENT_DNS_TESTS"
proof -
  have reach: "manager_reachable (\<lambda>_. Some sample_uri) sample_manager_env sample_certificate_manager"
    unfolding sample_certificate_manager_def
    by (rule manager_reachable.manager_event[OF manager_reachable.manager_start]) (simp add: sample_tls_config_valid)
  have "mg_config sample_certificate_manager = Some sample_tls_config"
    using apply_config_inv[OF _ sample_tls_config_valid, of certificate_manager_new sample_manager_env 1000]
      manager_reachable_inv[OF manager_reachable.manager_start]
    by (simp add: sample_certificate_manager_def manager_turn_def handle_command_def)
  with reach certificate_table_follows_config[OF reach this, of "''example.com''"] show ?thesis by blast
qed

text \<open>
  A task that panics is only logged when it is joined: its entry in \<open>active\<close> stays, so that every
  later attempt to issue or continue the certificate is refused as still being in progress.
\<close>

lemma panicked_task_blocks:
  assumes "k < length (mg_tasks m)" "rt_end (mg_tasks m ! k) = None" "hm_contains (mg_active m) i"
    and m': "m' = manager_turn env now (TaskJoined k) (manager_turn env now (TaskEnds k None) m)"
  shows "mg_active m' = mg_active m \<and> start_issue i renewal m' = (Inl (Runtime ''the certificate is being issued''), m')
    \<and> start_continue i m' = (Inl (Runtime ''the certificate is being issued''), m')"
proof -
  have "mg_active m' = mg_active m"
    using assms(1,2) by (simp add: m' manager_turn_def Let_def)
  with assms(3) show ?thesis by (simp add: start_issue_def start_continue_def)
qed

end
