(* ===== verification/Proxy_Server.thy ===== *)
theory Proxy_Server
  imports Certificate_Manager
begin

text \<open>
  \<open>gaterust-proxy/src/listener.rs\<close>, \<open>server.rs\<close> and the part of \<open>runtime.rs\<close> that publishes
  the status of the configuration: the two public listeners, and how a changed configuration file
  is applied to listeners, certificate manager and routes with rollback.

  What the operating system answers to a bind is a parameter that may depend on the number of
  binds before. A listener task is identified by the number of its start.
\<close>

section \<open>The listeners\<close>

type_synonym bind_answers = "nat \<Rightarrow> SocketAddr \<Rightarrow> (io_error, unit) res"

record ActiveListener =
  al_address :: SocketAddr
  al_task :: nat

record PreparedListeners =
  pp_http :: "SocketAddr option"
  pp_https :: "SocketAddr option"

text \<open>\<open>pm_maximum\<close> is the limit of the \<open>ConnectionRuntime\<close>; its task set is open until the shutdown.\<close>

record ProxyListenerManager =
  pm_maximum :: nat
  pm_config :: ProxyListenerConfig
  pm_http :: "ActiveListener option"
  pm_https :: "ActiveListener option"
  pm_binds :: nat
  pm_next_task :: nat
  pm_cancelled :: "nat list"
  pm_open :: bool

definition bind_listener ::
  "bind_answers \<Rightarrow> string \<Rightarrow> SocketAddr \<Rightarrow> ProxyListenerManager \<Rightarrow> (ProxyError, SocketAddr) res \<times> ProxyListenerManager" where
  "bind_listener os protocol address pm =
     (let pm' = pm\<lparr>pm_binds := Suc (pm_binds pm)\<rparr>
      in case os (pm_binds pm) address of
           Inl e \<Rightarrow> (Inl (Runtime (''binding the '' @ protocol @ '' address failed'')), pm')
         | Inr _ \<Rightarrow> (Inr address, pm'))"

definition bind_listener_pair ::
  "bind_answers \<Rightarrow> ProxyListenerConfig \<Rightarrow> ProxyListenerManager \<Rightarrow> (ProxyError, SocketAddr \<times> SocketAddr) res \<times> ProxyListenerManager" where
  "bind_listener_pair os config pm =
     fs_bind (bind_listener os ''HTTP'' (http_bind config) pm) (\<lambda>http pm.
     fs_bind (bind_listener os ''HTTPS'' (https_bind config) pm) (\<lambda>https pm. (Inr (http, https), pm)))"

text \<open>\<open>spawn_listener\<close> with a child of the manager's cancellation token.\<close>

definition spawn_listener :: "SocketAddr \<Rightarrow> ProxyListenerManager \<Rightarrow> ActiveListener \<times> ProxyListenerManager" where
  "spawn_listener address pm =
     (\<lparr>al_address = address, al_task = pm_next_task pm\<rparr>, pm\<lparr>pm_next_task := Suc (pm_next_task pm)\<rparr>)"

definition spawn_http :: "SocketAddr \<Rightarrow> ProxyListenerManager \<Rightarrow> ProxyListenerManager" where
  "spawn_http address pm = (case spawn_listener address pm of (l, pm) \<Rightarrow> pm\<lparr>pm_http := Some l\<rparr>)"

definition spawn_https :: "SocketAddr \<Rightarrow> ProxyListenerManager \<Rightarrow> ProxyListenerManager" where
  "spawn_https address pm = (case spawn_listener address pm of (l, pm) \<Rightarrow> pm\<lparr>pm_https := Some l\<rparr>)"

definition option_seq :: "'a option \<Rightarrow> 'a list" where
  "option_seq x = (case x of None \<Rightarrow> [] | Some v \<Rightarrow> [v])"

text \<open>\<open>stop_listeners\<close> cancels both tasks and then waits for them, aborting after ten seconds.\<close>

definition stop_listeners :: "ActiveListener option \<Rightarrow> ActiveListener option \<Rightarrow> ProxyListenerManager \<Rightarrow> ProxyListenerManager" where
  "stop_listeners http https pm =
     pm\<lparr>pm_cancelled := pm_cancelled pm @ map al_task (option_seq http @ option_seq https)\<rparr>"

definition stop_active :: "ProxyListenerManager \<Rightarrow> ProxyListenerManager" where
  "stop_active pm = stop_listeners (pm_http pm) (pm_https pm) (pm\<lparr>pm_http := None, pm_https := None\<rparr>)"

definition listeners_shutdown :: "ProxyListenerManager \<Rightarrow> ProxyListenerManager" where
  "listeners_shutdown pm = (stop_active pm)\<lparr>pm_open := False\<rparr>"

definition listeners_bind :: "bind_answers \<Rightarrow> ProxyListenerConfig \<Rightarrow> (ProxyError, ProxyListenerManager) res" where
  "listeners_bind os config =
     (let pm = \<lparr>pm_maximum = pl_max_connections config, pm_config = config, pm_http = None, pm_https = None,
                pm_binds = 0, pm_next_task = 0, pm_cancelled = [], pm_open = True\<rparr>
      in case bind_listener_pair os config pm of
           (Inl e, _) \<Rightarrow> Inl e
         | (Inr (http, https), pm) \<Rightarrow> Inr (spawn_https https (spawn_http http pm)))"

definition listeners_prepare ::
  "bind_answers \<Rightarrow> ProxyListenerConfig \<Rightarrow> ProxyListenerManager \<Rightarrow> (ProxyError, PreparedListeners) res \<times> ProxyListenerManager" where
  "listeners_prepare os config pm =
     fs_bind (if http_bind (pm_config pm) = http_bind config then (Inr None, pm)
              else (case bind_listener os ''HTTP'' (http_bind config) pm of (r, pm) \<Rightarrow> (map_sum id Some r, pm))) (\<lambda>http pm.
     fs_bind (if https_bind (pm_config pm) = https_bind config then (Inr None, pm)
              else (case bind_listener os ''HTTPS'' (https_bind config) pm of (r, pm) \<Rightarrow> (map_sum id Some r, pm))) (\<lambda>https pm.
     (Inr \<lparr>pp_http = http, pp_https = https\<rparr>, pm)))"

definition has_internal_address_conflict :: "ProxyListenerConfig \<Rightarrow> ProxyListenerManager \<Rightarrow> bool" where
  "has_internal_address_conflict config pm =
     (let old = pm_config pm in
      http_bind old \<noteq> http_bind config \<and> http_bind config = https_bind old
      \<or> https_bind old \<noteq> https_bind config \<and> https_bind config = http_bind old)"

definition rebind_all ::
  "bind_answers \<Rightarrow> ProxyListenerConfig \<Rightarrow> ProxyListenerManager \<Rightarrow> (ProxyError, unit) res \<times> ProxyListenerManager" where
  "rebind_all os config pm =
     (let previous = pm_config pm
      in case bind_listener_pair os config (stop_active pm) of
           (Inr (http, https), pm) \<Rightarrow>
             (Inr (), (spawn_https https (spawn_http http (pm\<lparr>pm_maximum := pl_max_connections config\<rparr>)))\<lparr>pm_config := config\<rparr>)
         | (Inl e, pm) \<Rightarrow>
             (case bind_listener_pair os previous pm of
                (Inr (http, https), pm) \<Rightarrow> (Inl e, spawn_https https (spawn_http http pm))
              | (Inl _, pm) \<Rightarrow> (Inl (Runtime ''switching the listeners failed and so did the rollback''), pm)))"

definition replace_http :: "SocketAddr option \<Rightarrow> ProxyListenerManager \<Rightarrow> ActiveListener option \<times> ProxyListenerManager" where
  "replace_http prepared pm = (case prepared of None \<Rightarrow> (None, pm) | Some a \<Rightarrow> (pm_http pm, spawn_http a pm))"

definition replace_https :: "SocketAddr option \<Rightarrow> ProxyListenerManager \<Rightarrow> ActiveListener option \<times> ProxyListenerManager" where
  "replace_https prepared pm = (case prepared of None \<Rightarrow> (None, pm) | Some a \<Rightarrow> (pm_https pm, spawn_https a pm))"

definition listeners_apply ::
  "bind_answers \<Rightarrow> ProxyListenerConfig \<Rightarrow> ProxyListenerManager \<Rightarrow> (ProxyError, unit) res \<times> ProxyListenerManager" where
  "listeners_apply os config pm =
     (case listeners_prepare os config pm of
        (Inl e, pm) \<Rightarrow> if has_internal_address_conflict config pm then rebind_all os config pm else (Inl e, pm)
      | (Inr prepared, pm) \<Rightarrow>
          (let pm = pm\<lparr>pm_maximum := pl_max_connections config\<rparr>;
               (old_http, pm) = replace_http (pp_http prepared) pm;
               (old_https, pm) = replace_https (pp_https prepared) pm
           in (Inr (), (stop_listeners old_http old_https pm)\<lparr>pm_config := config\<rparr>)))"

section \<open>The status of the configuration\<close>

record ProxyConfigStatus =
  cs_revision :: u64
  cs_last_apply_error :: "string option"

text \<open>\<open>ConfigApplyState\<close>, the value of the watch channel that \<open>wait_for_config\<close> observes.\<close>

record ProxyApplyState =
  ap_config :: "ProxyConfig option"
  ap_status :: ProxyConfigStatus

text \<open>
  The state of the proxy process: \<open>px_manager\<close> is \<open>None\<close> when the certificate manager has
  stopped and its command channel is closed.
\<close>

record proxy_state =
  px_listeners :: ProxyListenerManager
  px_routes :: Router
  px_manager :: "manager option"
  px_status :: ProxyConfigStatus
  px_apply :: ProxyApplyState

definition proxy_publish_status :: "ProxyConfig option \<Rightarrow> string option \<Rightarrow> proxy_state \<Rightarrow> proxy_state" where
  "proxy_publish_status config err s =
     (let status = \<lparr>cs_revision = cs_revision (px_status s) + 1, cs_last_apply_error = err\<rparr>
      in s\<lparr>px_status := status, px_apply := \<lparr>ap_config = config, ap_status = status\<rparr>\<rparr>)"

definition proxy_report_applied :: "ProxyConfig \<Rightarrow> proxy_state \<Rightarrow> proxy_state" where
  "proxy_report_applied c = proxy_publish_status (Some c) None"

definition proxy_report_failed :: "ProxyConfig \<Rightarrow> string \<Rightarrow> proxy_state \<Rightarrow> proxy_state" where
  "proxy_report_failed c err = proxy_publish_status (Some c) (Some err)"

definition proxy_report_load_error :: "string \<Rightarrow> proxy_state \<Rightarrow> proxy_state" where
  "proxy_report_load_error err = proxy_publish_status None (Some err)"

text \<open>The loop of \<open>wait_for_config\<close> over the observed values, the current one first; it ends with the timeout.\<close>

primrec proxy_wait_loop :: "ProxyConfig \<Rightarrow> u64 \<Rightarrow> ProxyApplyState list \<Rightarrow> ProxyConfigStatus option" where
  "proxy_wait_loop c after_revision [] = None"
| "proxy_wait_loop c after_revision (a # rest) =
     (if cs_revision (ap_status a) \<noteq> after_revision \<and> ap_config a = Some c then Some (ap_status a)
      else proxy_wait_loop c after_revision rest)"

section \<open>Reloading\<close>

record proxy_env =
  xe_os :: bind_answers
  xe_parse_uri :: "string \<Rightarrow> Uri option"
  xe_manager :: manager_env

text \<open>\<open>ProxyRuntime::apply_config\<close>: the command is answered by the manager, or the channel is closed.\<close>

definition runtime_apply_config :: "proxy_env \<Rightarrow> nat \<Rightarrow> ProxyConfig \<Rightarrow> proxy_state \<Rightarrow> (ProxyError, unit) res \<times> proxy_state" where
  "runtime_apply_config env now c s =
     (case px_manager s of
        None \<Rightarrow> (Inl (Runtime ''the proxy runtime is not running''), s)
      | Some m \<Rightarrow> (Inr (), s\<lparr>px_manager := Some (snd (handle_command (xe_manager env) now (ApplyConfig c) m))\<rparr>))"

definition apply_listener_config :: "proxy_env \<Rightarrow> ProxyListenerConfig \<Rightarrow> proxy_state \<Rightarrow> (ProxyError, unit) res \<times> proxy_state" where
  "apply_listener_config env config s =
     (case listeners_apply (xe_os env) config (px_listeners s) of (r, pm) \<Rightarrow> (r, s\<lparr>px_listeners := pm\<rparr>))"

text \<open>\<open>reload\<close>, with the result of \<open>ProxyConfig::load\<close> as an argument.\<close>

definition proxy_reload :: "proxy_env \<Rightarrow> nat \<Rightarrow> (ProxyError, ProxyConfig) res \<Rightarrow> proxy_state \<Rightarrow> proxy_state" where
  "proxy_reload env now loaded s =
     (case loaded of
        Inl e \<Rightarrow> proxy_report_load_error (error_text e) s
      | Inr config \<Rightarrow>
          (case router_new (xe_parse_uri env) config of
             Inl e \<Rightarrow> proxy_report_failed config (error_text e) s
           | Inr routes \<Rightarrow>
               (let previous_listener = pm_config (px_listeners s)
                in case apply_listener_config env (pc_proxy config) s of
                     (Inl e, s) \<Rightarrow> proxy_report_failed config (error_text e) s
                   | (Inr _, s) \<Rightarrow>
                       (case runtime_apply_config env now config s of
                          (Inl e, s) \<Rightarrow>
                            proxy_report_failed config (error_text e) (snd (apply_listener_config env previous_listener s))
                        | (Inr _, s) \<Rightarrow> proxy_report_applied config (s\<lparr>px_routes := routes\<rparr>)))))"

text \<open>\<open>run_proxy_with_runtime\<close> up to its loop.\<close>

definition proxy_start :: "proxy_env \<Rightarrow> nat \<Rightarrow> (ProxyError, ProxyConfig) res \<Rightarrow> (ProxyError, proxy_state) res" where
  "proxy_start env now loaded =
     res_bind loaded (\<lambda>initial.
     res_bind (router_new (xe_parse_uri env) initial) (\<lambda>routes.
       let m = snd (handle_command (xe_manager env) now (ApplyConfig initial) certificate_manager_new);
           status = \<lparr>cs_revision = 0, cs_last_apply_error = None\<rparr>
       in res_bind (listeners_bind (xe_os env) (pc_proxy initial)) (\<lambda>pm.
            Inr (proxy_report_applied initial
              \<lparr>px_listeners = pm, px_routes = routes, px_manager = Some m, px_status = status,
               px_apply = \<lparr>ap_config = None, ap_status = status\<rparr>\<rparr>))))"

text \<open>The loop, and what runs beside it: a change of the file, a step of the manager, its end.\<close>

datatype proxy_event =
    FileChanged "(ProxyError, ProxyConfig) res"
  | ManagerEvent manager_event
  | ManagerStopped

definition proxy_turn :: "proxy_env \<Rightarrow> nat \<Rightarrow> proxy_event \<Rightarrow> proxy_state \<Rightarrow> proxy_state" where
  "proxy_turn env now ev s =
     (case ev of
        FileChanged loaded \<Rightarrow> proxy_reload env now loaded s
      | ManagerEvent e \<Rightarrow> s\<lparr>px_manager := map_option (manager_turn (xe_manager env) now e) (px_manager s)\<rparr>
      | ManagerStopped \<Rightarrow> s\<lparr>px_manager := None\<rparr>)"

definition proxy_stop :: "proxy_state \<Rightarrow> proxy_state" where
  "proxy_stop s =
     s\<lparr>px_listeners := listeners_shutdown (px_listeners s),
       px_manager := None\<rparr>"

inductive proxy_reachable :: "proxy_env \<Rightarrow> proxy_state \<Rightarrow> bool" for env where
  proxy_started: "valid_proxy_config (xe_parse_uri env) c \<Longrightarrow> proxy_start env now (Inr c) = Inr s \<Longrightarrow> proxy_reachable env s"
| proxy_step: "proxy_reachable env s
    \<Longrightarrow> (case ev of FileChanged (Inr c) \<Rightarrow> valid_proxy_config (xe_parse_uri env) c
         | ManagerEvent (Command (ApplyConfig _)) \<Rightarrow> False | _ \<Rightarrow> True)
    \<Longrightarrow> proxy_reachable env (proxy_turn env now ev s)"

section \<open>The listeners follow their configuration\<close>

text \<open>Both listeners run, on the addresses and with the limit of \<open>c\<close>.\<close>

definition listening :: "ProxyListenerConfig \<Rightarrow> ProxyListenerManager \<Rightarrow> bool" where
  "listening c pm =
     (map_option al_address (pm_http pm) = Some (http_bind c) \<and> map_option al_address (pm_https pm) = Some (https_bind c)
      \<and> pm_maximum pm = pl_max_connections c \<and> pm_config pm = c)"

definition refuses :: "bind_answers \<Rightarrow> ProxyListenerConfig \<Rightarrow> bool" where
  "refuses os c = (\<exists>k e. os k (http_bind c) = Inl e \<or> os k (https_bind c) = Inl e)"

definition same_listeners :: "ProxyListenerManager \<Rightarrow> ProxyListenerManager \<Rightarrow> bool" where
  "same_listeners pm pm' =
     (pm_http pm' = pm_http pm \<and> pm_https pm' = pm_https pm \<and> pm_maximum pm' = pm_maximum pm \<and> pm_config pm' = pm_config pm)"

lemma same_listening: "same_listeners pm pm' \<Longrightarrow> listening c pm' = listening c pm"
  by (simp add: same_listeners_def listening_def)

lemma bind_listener_cases:
  assumes "bind_listener os protocol a pm = (r, pm')"
  shows "same_listeners pm pm' \<and> (case r of Inl _ \<Rightarrow> \<exists>k e. os k a = Inl e | Inr b \<Rightarrow> b = a)"
  using assms by (auto simp: bind_listener_def same_listeners_def Let_def split: sum.splits)

lemma same_listeners_trans: "same_listeners a b \<Longrightarrow> same_listeners b c \<Longrightarrow> same_listeners a c"
  by (simp add: same_listeners_def)

lemma bind_pair_cases:
  assumes "bind_listener_pair os c pm = (r, pm')"
  shows "same_listeners pm pm' \<and> (case r of Inl _ \<Rightarrow> refuses os c | Inr x \<Rightarrow> x = (http_bind c, https_bind c))"
proof -
  obtain r1 pm1 where 1: "bind_listener os ''HTTP'' (http_bind c) pm = (r1, pm1)" by fastforce
  obtain r2 pm2 where 2: "bind_listener os ''HTTPS'' (https_bind c) pm1 = (r2, pm2)" by fastforce
  show ?thesis
    using assms bind_listener_cases[OF 1] bind_listener_cases[OF 2]
    by (auto simp: bind_listener_pair_def 1 2 fs_bind_def refuses_def same_listeners_def split: sum.splits)
qed

lemma listening_spawned:
  assumes "same_listeners pm pm1" "pm_maximum pm = pl_max_connections c"
  shows "listening c ((spawn_https (https_bind c) (spawn_http (http_bind c) pm1))\<lparr>pm_config := c\<rparr>)"
  using assms by (simp add: listening_def spawn_https_def spawn_http_def spawn_listener_def same_listeners_def)

lemma prepare_cases:
  assumes "listeners_prepare os c pm = (r, pm')"
  shows "same_listeners pm pm'
    \<and> (case r of
         Inl _ \<Rightarrow> refuses os c
       | Inr p \<Rightarrow> pp_http p = (if http_bind (pm_config pm) = http_bind c then None else Some (http_bind c))
           \<and> pp_https p = (if https_bind (pm_config pm) = https_bind c then None else Some (https_bind c)))"
proof -
  obtain r1 pm1 where 1: "bind_listener os ''HTTP'' (http_bind c) pm = (r1, pm1)" by fastforce
  obtain r2 pm2 where 2: "bind_listener os ''HTTPS'' (https_bind c) pm1 = (r2, pm2)" by fastforce
  obtain r3 pm3 where 3: "bind_listener os ''HTTPS'' (https_bind c) pm = (r3, pm3)" by fastforce
  show ?thesis
    using assms bind_listener_cases[OF 1] bind_listener_cases[OF 2] bind_listener_cases[OF 3]
    by (auto simp: listeners_prepare_def 1 2 3 fs_bind_def refuses_def same_listeners_def split: sum.splits if_splits)
qed

lemma rebind_cases:
  assumes "listening old pm" "rebind_all os c pm = (r, pm')"
  shows "case r of Inr _ \<Rightarrow> listening c pm' | Inl _ \<Rightarrow> refuses os c \<and> (listening old pm' \<or> refuses os old)"
proof -
  let ?pm0 = "stop_active pm"
  have old: "pm_config pm = old" and stopped: "pm_maximum ?pm0 = pl_max_connections old" "pm_config ?pm0 = old"
    using assms(1) by (simp_all add: listening_def stop_active_def stop_listeners_def)
  obtain r1 pm1 where 1: "bind_listener_pair os c ?pm0 = (r1, pm1)" by fastforce
  obtain r2 pm2 where 2: "bind_listener_pair os old pm1 = (r2, pm2)" by fastforce
  note B1 = bind_pair_cases[OF 1] and B2 = bind_pair_cases[OF 2]
  show ?thesis
  proof (cases r1)
    case (Inr x)
    with B1 assms(2) 1 show ?thesis
      by (auto simp: rebind_all_def Let_def listening_def spawn_https_def spawn_http_def spawn_listener_def)
  next
    case (Inl e)
    with B1 B2 assms(2) 1 2 old stopped show ?thesis
      by (cases r2) (auto simp: rebind_all_def Let_def listening_def spawn_https_def spawn_http_def spawn_listener_def
          same_listeners_def)
  qed
qed

lemma replaced_listeners:
  "pm_http (snd (replace_http a pm)) = (case a of None \<Rightarrow> pm_http pm | Some x \<Rightarrow> Some \<lparr>al_address = x, al_task = pm_next_task pm\<rparr>)"
  "pm_https (snd (replace_http a pm)) = pm_https pm" "pm_maximum (snd (replace_http a pm)) = pm_maximum pm"
  "pm_https (snd (replace_https a pm)) = (case a of None \<Rightarrow> pm_https pm | Some x \<Rightarrow> Some \<lparr>al_address = x, al_task = pm_next_task pm\<rparr>)"
  "pm_http (snd (replace_https a pm)) = pm_http pm" "pm_maximum (snd (replace_https a pm)) = pm_maximum pm"
  by (simp_all add: replace_http_def replace_https_def spawn_http_def spawn_https_def spawn_listener_def split: option.split)

text \<open>
  Applying a listener configuration: it is in force, or it failed on one of its addresses and the
  old one is in force again, unless an old address could not be bound any more.
\<close>

lemma listeners_apply_cases:
  assumes "listening old pm" "listeners_apply os c pm = (r, pm')"
  shows "case r of Inr _ \<Rightarrow> listening c pm' | Inl _ \<Rightarrow> refuses os c \<and> (listening old pm' \<or> refuses os old)"
proof -
  obtain r1 pm1 where 1: "listeners_prepare os c pm = (r1, pm1)" by fastforce
  note P = prepare_cases[OF 1]
  then have old: "listening old pm1" using assms(1) same_listening by blast
  show ?thesis
  proof (cases r1)
    case (Inl e)
    show ?thesis
    proof (cases "has_internal_address_conflict c pm1")
      case True
      with assms(2) 1 Inl have "rebind_all os c pm1 = (r, pm')" by (simp add: listeners_apply_def)
      from rebind_cases[OF old this] show ?thesis .
    next
      case False
      with assms(2) 1 Inl P old show ?thesis by (auto simp: listeners_apply_def)
    qed
  next
    case (Inr p)
    let ?pm2 = "pm1\<lparr>pm_maximum := pl_max_connections c\<rparr>"
    let ?h = "replace_http (pp_http p) ?pm2"
    let ?hs = "replace_https (pp_https p) (snd ?h)"
    have "pm' = (stop_listeners (fst ?h) (fst ?hs) (snd ?hs))\<lparr>pm_config := c\<rparr>" "r = Inr ()"
      using assms(2) 1 Inr by (auto simp: listeners_apply_def Let_def split: prod.splits)
    with P Inr old show ?thesis
      by (auto simp: listening_def stop_listeners_def replaced_listeners same_listeners_def)
  qed
qed

lemma apply_refused: "listeners_apply os c pm = (Inl e, pm') \<Longrightarrow> refuses os c"
proof -
  assume a: "listeners_apply os c pm = (Inl e, pm')"
  obtain r1 pm1 where 1: "listeners_prepare os c pm = (r1, pm1)" by fastforce
  obtain r2 pm2 where 2: "bind_listener_pair os c (stop_active pm1) = (r2, pm2)" by fastforce
  show ?thesis
    using a prepare_cases[OF 1] bind_pair_cases[OF 2]
    by (auto simp: listeners_apply_def 1 2 rebind_all_def Let_def split: sum.splits if_splits prod.splits)
qed

section \<open>Reloading is all or nothing\<close>

text \<open>Routes and certificates both come from \<open>c\<close>.\<close>

definition serves_config :: "proxy_env \<Rightarrow> ProxyConfig \<Rightarrow> proxy_state \<Rightarrow> bool" where
  "serves_config env c s =
     (router_new (xe_parse_uri env) c = Inr (px_routes s)
      \<and> (case px_manager s of
           None \<Rightarrow> True
         | Some m \<Rightarrow> mg_config m = Some c \<and> manager_reachable (xe_parse_uri env) (xe_manager env) m))"

lemma publish_status_fields [simp]:
  "px_listeners (proxy_publish_status c e s) = px_listeners s" "px_routes (proxy_publish_status c e s) = px_routes s"
  "px_manager (proxy_publish_status c e s) = px_manager s"
  "px_apply (proxy_publish_status c e s) = \<lparr>ap_config = c, ap_status = \<lparr>cs_revision = cs_revision (px_status s) + 1, cs_last_apply_error = e\<rparr>\<rparr>"
  by (simp_all add: proxy_publish_status_def Let_def)

lemmas report_defs = proxy_report_applied_def proxy_report_failed_def proxy_report_load_error_def

lemma apply_listener_config_fields:
  assumes "apply_listener_config env c s = (r, s')"
  shows "px_routes s' = px_routes s \<and> px_manager s' = px_manager s \<and> px_status s' = px_status s \<and> px_apply s' = px_apply s
    \<and> listeners_apply (xe_os env) c (px_listeners s) = (r, px_listeners s')"
  using assms by (auto simp: apply_listener_config_def split: prod.splits)

lemma applied_manager:
  assumes "manager_reachable pu env m" "valid_proxy_config pu c"
  shows "manager_reachable pu env (snd (handle_command env now (ApplyConfig c) m))
    \<and> mg_config (snd (handle_command env now (ApplyConfig c) m)) = Some c"
proof -
  have "manager_reachable pu env (manager_turn env now (Command (ApplyConfig c)) m)"
    using assms by (intro manager_event) auto
  moreover have "mg_config (apply_config env now c m) = Some c"
    using apply_config_inv[OF _ assms(2)] manager_reachable_inv[OF assms(1)] by blast
  ultimately show ?thesis by (simp add: manager_turn_def handle_command_def)
qed

lemma reload_cases:
  assumes valid: "valid_proxy_config (xe_parse_uri env) c'" and serves: "serves_config env c s"
    and s': "s' = proxy_reload env now (Inr c') s"
  shows "ap_config (px_apply s') = Some c' \<and> cs_revision (ap_status (px_apply s')) = cs_revision (px_status s) + 1
    \<and> (case cs_last_apply_error (ap_status (px_apply s')) of
         None \<Rightarrow> serves_config env c' s' \<and> (listening old (px_listeners s) \<longrightarrow> listening (pc_proxy c') (px_listeners s'))
       | Some _ \<Rightarrow> px_routes s' = px_routes s \<and> px_manager s' = px_manager s \<and> (px_manager s = None \<or> refuses (xe_os env) (pc_proxy c'))
           \<and> (listening old (px_listeners s) \<longrightarrow> listening old (px_listeners s') \<or> refuses (xe_os env) old))"
proof -
  obtain R where R: "router_new (xe_parse_uri env) c' = Inr R" using router_implements[OF valid] by blast
  obtain r s1 where 1: "apply_listener_config env (pc_proxy c') s = (r, s1)" by fastforce
  note F = apply_listener_config_fields[OF 1]
  have L: "case r of Inr _ \<Rightarrow> listening (pc_proxy c') (px_listeners s1)
      | Inl _ \<Rightarrow> refuses (xe_os env) (pc_proxy c') \<and> (listening old (px_listeners s1) \<or> refuses (xe_os env) old)"
    if "listening old (px_listeners s)" for old
    using F that listeners_apply_cases by blast
  show ?thesis
  proof (cases r)
    case (Inl e)
    have "refuses (xe_os env) (pc_proxy c')" using F Inl apply_refused by blast
    with Inl R 1 F L[of old] show ?thesis by (auto simp: s' proxy_reload_def report_defs Let_def)
  next
    case (Inr u)
    show ?thesis
    proof (cases "px_manager s")
      case None
      obtain r2 s2 where 2: "apply_listener_config env (pm_config (px_listeners s)) s1 = (r2, s2)" by fastforce
      note F2 = apply_listener_config_fields[OF 2]
      have "listening old (px_listeners s2) \<or> refuses (xe_os env) old" if o: "listening old (px_listeners s)"
      proof -
        have "listening (pc_proxy c') (px_listeners s1)" "pm_config (px_listeners s) = old"
          using L[OF o] Inr o by (auto simp: listening_def)
        with listeners_apply_cases[of "pc_proxy c'" "px_listeners s1" "xe_os env" old r2 "px_listeners s2"] F2
        show ?thesis by (auto split: sum.splits)
      qed
      with None Inr R 1 2 F F2 show ?thesis
        by (auto simp: s' proxy_reload_def runtime_apply_config_def report_defs Let_def)
    next
      case (Some m)
      then have "manager_reachable (xe_parse_uri env) (xe_manager env) m" using serves by (simp add: serves_config_def)
      from applied_manager[OF this valid, of now] Some Inr R 1 F L[of old] show ?thesis
        by (auto simp: s' proxy_reload_def runtime_apply_config_def report_defs serves_config_def Let_def)
    qed
  qed
qed

lemma serves_config_fields: "px_routes s' = px_routes s \<Longrightarrow> px_manager s' = px_manager s \<Longrightarrow> serves_config env c s' = serves_config env c s"
  by (simp add: serves_config_def)

lemma serves_config_status [simp]: "serves_config env c (proxy_publish_status d e s) = serves_config env c s"
  by (rule serves_config_fields) simp_all

lemma manager_turn_other:
  assumes "manager_reachable pu env m" "case e of Command (ApplyConfig _) \<Rightarrow> False | _ \<Rightarrow> True"
  shows "mg_config (manager_turn env now e m) = mg_config m \<and> manager_reachable pu env (manager_turn env now e m)"
proof
  have ok: "case e of Command (ApplyConfig c) \<Rightarrow> valid_proxy_config pu c | _ \<Rightarrow> True"
    using assms(2) by (simp split: manager_event.splits manager_command.splits)
  show "manager_reachable pu env (manager_turn env now e m)" using manager_event[OF assms(1) ok] .
  have "manager_inv m" using manager_reachable_inv[OF assms(1)] by blast
  from manager_turn_inv[OF this ok] assms(2) show "mg_config (manager_turn env now e m) = mg_config m"
    by (simp split: manager_event.splits manager_command.splits)
qed

lemma proxy_reachable_serves:
  "proxy_reachable env s \<Longrightarrow> \<exists>c. valid_proxy_config (xe_parse_uri env) c \<and> serves_config env c s"
proof (induction rule: proxy_reachable.induct)
  case (proxy_started c now s)
  from applied_manager[OF manager_start proxy_started(1)] proxy_started show ?case
    by (auto simp: proxy_start_def serves_config_def report_defs Let_def res_simps)
next
  case (proxy_step s ev now)
  then obtain c where c: "valid_proxy_config (xe_parse_uri env) c" "serves_config env c s" by blast
  show ?case
  proof (cases ev)
    case (FileChanged loaded)
    show ?thesis
    proof (cases loaded)
      case (Inl e)
      with FileChanged c show ?thesis
        by (auto simp: proxy_turn_def proxy_reload_def report_defs)
    next
      case (Inr c')
      with FileChanged proxy_step.hyps have "valid_proxy_config (xe_parse_uri env) c'" by simp
      note R = reload_cases[OF this c(2) refl, of now "pc_proxy c"] and v = this
      have "serves_config env c' (proxy_reload env now (Inr c') s) \<or> serves_config env c (proxy_reload env now (Inr c') s)"
        using R c(2) serves_config_fields[of "proxy_reload env now (Inr c') s" s env c] by (auto split: option.splits)
      with v c(1) Inr FileChanged show ?thesis by (auto simp: proxy_turn_def)
    qed
  next
    case (ManagerEvent e)
    with proxy_step.hyps have other: "case e of Command (ApplyConfig _) \<Rightarrow> False | _ \<Rightarrow> True" by simp
    have "mg_config (manager_turn (xe_manager env) now e m) = mg_config m
        \<and> manager_reachable (xe_parse_uri env) (xe_manager env) (manager_turn (xe_manager env) now e m)"
      if "manager_reachable (xe_parse_uri env) (xe_manager env) m" for m
      using manager_turn_other[OF that other] .
    with c ManagerEvent show ?thesis by (auto simp: proxy_turn_def serves_config_def split: option.splits)
  next
    case ManagerStopped
    with c show ?thesis by (auto simp: proxy_turn_def serves_config_def)
  qed
qed


definition sample_proxy_env :: proxy_env where
  "sample_proxy_env =
     \<lparr>xe_os = (\<lambda>_ _. Inr ()), xe_parse_uri = (\<lambda>_. Some sample_uri), xe_manager = sample_manager_env\<rparr>"

lemma sample_started:
  "\<exists>s. proxy_start sample_proxy_env 1000 (Inr sample_proxy_config) = Inr s \<and> listening (pc_proxy sample_proxy_config) (px_listeners s)"
proof -
  obtain R where "router_new (\<lambda>_. Some sample_uri) sample_proxy_config = Inr R"
    using router_implements[OF sample_proxy_config_valid] by blast
  then show ?thesis
    by (simp add: proxy_start_def sample_proxy_env_def listeners_bind_def bind_listener_pair_def bind_listener_def fs_bind_def Let_def
        listening_def spawn_https_def spawn_http_def spawn_listener_def report_defs)
qed


text \<open>
  When neither the new nor the old addresses could be bound, no listener runs although the
  configuration is still recorded as the current one: applying that configuration again succeeds
  without binding anything.
\<close>

lemma dead_listeners_reported_applied:
  assumes "pm_http pm = None" "pm_https pm = None"
  shows "case listeners_apply os (pm_config pm) pm of (r, pm') \<Rightarrow> r = Inr () \<and> pm_http pm' = None \<and> pm_https pm' = None"
  using assms by (simp add: listeners_apply_def listeners_prepare_def fs_bind_def replace_http_def replace_https_def stop_listeners_def Let_def)

text \<open>Exchanging the two ports while a third party grabs one of them leaves the manager in this state.\<close>

lemma failed_rollback_dead:
  assumes "listeners_prepare os c pm = (Inl e, pm1)" "has_internal_address_conflict c pm1"
    and "bind_listener_pair os c (stop_active pm1) = (Inl e', pm2)" "bind_listener_pair os (pm_config pm1) pm2 = (Inl e'', pm3)"
  shows "\<exists>err. listeners_apply os c pm = (Inl err, pm3) \<and> pm_http pm3 = None \<and> pm_https pm3 = None \<and> pm_config pm3 = pm_config pm"
proof -
  have "same_listeners pm pm1" "same_listeners (stop_active pm1) pm2" "same_listeners pm2 pm3"
    using prepare_cases[OF assms(1)] bind_pair_cases[OF assms(3)] bind_pair_cases[OF assms(4)] by auto
  with assms show ?thesis
    by (simp add: listeners_apply_def rebind_all_def same_listeners_def stop_active_def stop_listeners_def Let_def)
qed

end
