(* ===== verification/Proxy_Service.thy ===== *)
theory Proxy_Service
  imports Router
begin

text \<open>
  \<open>gaterust-proxy/src/proxy.rs\<close>: how one HTTP request is answered. Headers are a list of lower
  case names and values, as \<open>HeaderMap\<close> keeps them. The \<open>http\<close> crate's parsers and the upstream
  client are parameters.
\<close>

section \<open>Requests and responses\<close>

type_synonym headers = "(string \<times> string) list"

definition header_get :: "headers \<Rightarrow> string \<Rightarrow> string option" where
  "header_get hs n = map_of hs n"

definition header_remove :: "string \<Rightarrow> headers \<Rightarrow> headers" where
  "header_remove n hs = filter (\<lambda>(m, _). m \<noteq> n) hs"

text \<open>\<open>HeaderMap::insert\<close> replaces every value of the name.\<close>

definition header_insert :: "string \<Rightarrow> string \<Rightarrow> headers \<Rightarrow> headers" where
  "header_insert n v hs = header_remove n hs @ [(n, v)]"

record http_request =
  hr_uri :: Uri
  hr_headers :: headers

record http_response =
  hs_status :: nat
  hs_headers :: headers
  hs_body :: string

text \<open>
  \<open>to_str\<close>, \<open>HeaderName::from_bytes\<close>, \<open>HeaderValue::from_str\<close>, the host of a parsed
  \<open>Authority\<close> and \<open>Uri::builder\<close>.
\<close>

record http_env =
  he_to_str :: "string \<Rightarrow> string option"
  he_header_name :: "string \<Rightarrow> string option"
  he_header_value :: "string \<Rightarrow> string option"
  he_authority_host :: "string \<Rightarrow> string option"
  he_build_uri :: "string \<Rightarrow> string \<Rightarrow> string \<Rightarrow> (string, Uri) res"

section \<open>Parts of the handler\<close>

definition response :: "nat \<Rightarrow> string \<Rightarrow> http_response" where
  "response status message =
     \<lparr>hs_status = status, hs_headers = [(''content-type'', ''text/plain; charset=utf-8'')], hs_body = message\<rparr>"

definition request_host :: "http_env \<Rightarrow> http_request \<Rightarrow> string option" where
  "request_host env rq =
     Option.bind (header_get (hr_headers rq) ''host'') (\<lambda>v.
     Option.bind (he_to_str env v) (\<lambda>s.
     map_option (\<lambda>h. to_ascii_lowercase (trim_end_matches CHR ''.'' h)) (he_authority_host env s)))"

definition tls_host_matches :: "string \<Rightarrow> string option \<Rightarrow> bool" where
  "tls_host_matches host server_name =
     (case server_name of None \<Rightarrow> True | Some n \<Rightarrow> to_ascii_lowercase n = to_ascii_lowercase host)"

definition joined_path :: "Uri \<Rightarrow> Uri \<Rightarrow> string" where
  "joined_path upstream incoming =
     (let base = trim_end_matches CHR ''/'' (u_path upstream); p = u_path incoming;
          result = (if base = [] then p else if p = ''/'' then base @ ''/'' else base @ p)
      in case u_query incoming of None \<Rightarrow> result | Some q \<Rightarrow> result @ ''?'' @ q)"

definition set_forwarded :: "http_env \<Rightarrow> string \<Rightarrow> string \<Rightarrow> headers \<Rightarrow> headers" where
  "set_forwarded env name v hs = (case he_header_value env v of None \<Rightarrow> hs | Some v \<Rightarrow> header_insert name v hs)"

definition connection_tokens :: "http_env \<Rightarrow> headers \<Rightarrow> string list" where
  "connection_tokens env hs =
     (case Option.bind (header_get hs ''connection'') (he_to_str env) of
        None \<Rightarrow> []
      | Some v \<Rightarrow> List.map_filter (\<lambda>n. he_header_name env (trim n)) (split_on CHR '','' v))"

definition hop_headers :: "string list" where
  "hop_headers = [''connection'', ''te'', ''trailer'', ''transfer-encoding'', ''upgrade'']"

definition remove_hop_headers :: "http_env \<Rightarrow> headers \<Rightarrow> headers" where
  "remove_hop_headers env hs = fold header_remove hop_headers (fold header_remove (connection_tokens env hs) hs)"

definition prepare_request ::
  "http_env \<Rightarrow> http_request \<Rightarrow> Route \<Rightarrow> SocketAddr \<Rightarrow> bool \<Rightarrow> (ProxyError, http_request) res" where
  "prepare_request env rq route remote tls =
     (let original_host = header_get (hr_headers rq) ''host'';
          upgrade = header_get (hr_headers rq) ''upgrade'';
          path = joined_path (ro_upstream route) (hr_uri rq);
          scheme = (case u_scheme (ro_upstream route) of None \<Rightarrow> ''http'' | Some s \<Rightarrow> s)
      in case u_authority (ro_upstream route) of
           None \<Rightarrow> Inl (InvalidConfig ''the upstream URI has no authority'')
         | Some authority \<Rightarrow>
             (case he_build_uri env scheme authority path of
                Inl e \<Rightarrow> Inl (Http e)
              | Inr uri \<Rightarrow>
                  (let hs = remove_hop_headers env (hr_headers rq);
                       hs = (case original_host of None \<Rightarrow> hs | Some h \<Rightarrow> header_insert ''host'' h hs);
                       hs = (case upgrade of None \<Rightarrow> hs
                             | Some u \<Rightarrow> header_insert ''connection'' ''upgrade'' (header_insert ''upgrade'' u hs));
                       hs = set_forwarded env ''x-forwarded-for'' (show_ip (sock_ip remote)) hs;
                       hs = set_forwarded env ''x-forwarded-proto'' (if tls then ''https'' else ''http'') hs;
                       hs = (case Option.bind original_host (he_to_str env) of
                               None \<Rightarrow> hs | Some h \<Rightarrow> set_forwarded env ''x-forwarded-host'' h hs)
                   in Inr \<lparr>hr_uri = uri, hr_headers = hs\<rparr>)))"

section \<open>The handler\<close>

text \<open>
  The result: the response, the request sent upstream, and whether an upgraded connection is
  relayed. \<open>client\<close> is the upstream client.
\<close>

record handled =
  hd_response :: http_response
  hd_upstream :: "http_request option"
  hd_relay :: bool

definition refuse_request :: "nat \<Rightarrow> string \<Rightarrow> handled" where
  "refuse_request status message = \<lparr>hd_response = response status message, hd_upstream = None, hd_relay = False\<rparr>"

definition handle ::
  "http_env \<Rightarrow> (http_request \<Rightarrow> (string, http_response) res) \<Rightarrow> Router \<Rightarrow> http_request \<Rightarrow> SocketAddr
     \<Rightarrow> string option \<Rightarrow> handled" where
  "handle env client routes rq remote tls_server_name =
     (case request_host env rq of
        None \<Rightarrow> refuse_request 400 ''no valid Host header''
      | Some host \<Rightarrow>
          if \<not> tls_host_matches host tls_server_name then refuse_request 421 ''the TLS server name differs from the Host''
          else let tls = tls_server_name \<noteq> None in
            case router_find routes host (u_path (hr_uri rq)) of
              None \<Rightarrow> refuse_request 404 ''no route matches''
            | Some route \<Rightarrow>
                if tls \<and> \<not> ro_tls route then refuse_request 421 ''the route has no TLS certificate''
                else let upgrading = header_get (hr_headers rq) ''upgrade'' \<noteq> None in
                  case prepare_request env rq route remote tls of
                    Inl _ \<Rightarrow> refuse_request 502 ''the upstream address is invalid''
                  | Inr up \<Rightarrow>
                      (case client up of
                         Inr answer \<Rightarrow>
                           \<lparr>hd_response = answer\<lparr>hs_headers := remove_hop_headers env (hs_headers answer)\<rparr>,
                            hd_upstream = Some up, hd_relay = (hs_status answer = 101 \<and> upgrading)\<rparr>
                       | Inl _ \<Rightarrow>
                           \<lparr>hd_response = response 502 ''the upstream is unavailable'', hd_upstream = Some up, hd_relay = False\<rparr>))"

section \<open>Lemmas on headers\<close>

lemma header_get_remove [simp]: "header_get (header_remove n hs) m = (if m = n then None else header_get hs m)"
  by (induction hs) (auto simp: header_get_def header_remove_def)

lemma header_get_insert [simp]: "header_get (header_insert n v hs) m = (if m = n then Some v else header_get hs m)"
proof -
  have "map_of (xs @ [(n, v)]) m = (case map_of xs m of None \<Rightarrow> if m = n then Some v else None | Some w \<Rightarrow> Some w)" for xs
    by (induction xs) auto
  then show ?thesis using header_get_remove[of n hs m] by (auto simp: header_insert_def header_get_def split: option.split)
qed

lemma header_get_fold_remove [simp]:
  "header_get (fold header_remove ns hs) m = (if m \<in> set ns then None else header_get hs m)"
  by (induction ns arbitrary: hs) auto

lemma header_get_hop [simp]:
  "header_get (remove_hop_headers env hs) m =
     (if m \<in> set hop_headers \<or> m \<in> set (connection_tokens env hs) then None else header_get hs m)"
  by (simp add: remove_hop_headers_def)

text \<open>A header that is set once has no second value: \<open>header_values\<close> lists them all.\<close>

definition header_values :: "headers \<Rightarrow> string \<Rightarrow> string list" where
  "header_values hs n = map snd (filter (\<lambda>(m, _). m = n) hs)"

lemma header_values_remove [simp]: "header_values (header_remove n hs) m = (if m = n then [] else header_values hs m)"
  by (induction hs) (auto simp: header_values_def header_remove_def)

lemma header_values_insert [simp]: "header_values (header_insert n v hs) m = (if m = n then [v] else header_values hs m)"
  using header_values_remove[of n hs m] by (auto simp: header_values_def header_insert_def)

lemma header_values_fold_remove [simp]:
  "header_values (fold header_remove ns hs) m = (if m \<in> set ns then [] else header_values hs m)"
  by (induction ns arbitrary: hs) auto

lemma header_values_hop [simp]:
  "header_values (remove_hop_headers env hs) m =
     (if m \<in> set hop_headers \<or> m \<in> set (connection_tokens env hs) then [] else header_values hs m)"
  by (simp add: remove_hop_headers_def)

lemma header_get_values: "header_get hs n = (case header_values hs n of [] \<Rightarrow> None | v # _ \<Rightarrow> Some v)"
  by (induction hs) (auto simp: header_get_def header_values_def)

section \<open>What a client of the upstream can rely on\<close>

definition visible :: "char \<Rightarrow> bool" where
  "visible ch = (of_char ch = (9 :: nat) \<or> (32 :: nat) \<le> of_char ch \<and> of_char ch < (127 :: nat))"

text \<open>\<open>HeaderValue::to_str\<close> and \<open>HeaderValue::from_str\<close> as documented: only visible ASCII is accepted, unchanged.\<close>

definition visible_text :: "string \<Rightarrow> string option" where
  "visible_text v = (if list_all visible v then Some v else None)"

definition selects :: "RouteConfig list \<Rightarrow> string \<Rightarrow> string \<Rightarrow> RouteConfig \<Rightarrow> bool" where
  "selects rs host path r =
     (r \<in> set rs \<and> serves r host path \<and> list_all (\<lambda>s. serves s host path \<longrightarrow> s = r \<or> more_specific r s) rs)"

text \<open>The values of every header of the request sent upstream.\<close>

definition forwarded_values :: "http_env \<Rightarrow> http_request \<Rightarrow> SocketAddr \<Rightarrow> bool \<Rightarrow> string \<Rightarrow> string list" where
  "forwarded_values env rq remote tls m =
     (let old = header_values (hr_headers rq) in
      if m = ''x-forwarded-for'' then [show_ip (sock_ip remote)]
      else if m = ''x-forwarded-proto'' then [if tls then ''https'' else ''http'']
      else if m = ''x-forwarded-host'' \<or> m = ''host'' then take 1 (old ''host'')
      else if m = ''upgrade'' then take 1 (old ''upgrade'')
      else if m = ''connection'' then (if old ''upgrade'' = [] then [] else [''upgrade''])
      else if m \<in> {''te'', ''trailer'', ''transfer-encoding''} \<or> m \<in> set (connection_tokens env (hr_headers rq)) then []
      else old m)"

lemma visible_show_radix: "r = 10 \<or> r = 16 \<Longrightarrow> list_all visible (show_radix r n)"
proof -
  assume r: "r = 10 \<or> r = 16"
  have digit: "visible ch" if "radix_digit r ch \<noteq> None" for ch
    using that by (auto simp: radix_digit_def hex_digit_def visible_def is_ascii_digit_def split: option.splits if_splits)
  show ?thesis using r show_radix_digits[of r n] digit by (auto simp: list_all_iff)
qed

lemma list_all_join_sep: "list_all P sep \<Longrightarrow> list_all (list_all P) xs \<Longrightarrow> list_all P (join_sep sep xs)"
  by (induction xs) auto

lemma visible_chars: "visible CHR '':''" "visible CHR ''f''"
  by code_simp+

lemma visible_seps: "list_all visible ''.''" "list_all visible '':''" "list_all visible ''::''" "list_all visible ''::ffff:''"
  by code_simp+

lemma visible_show_ip: "list_all visible (show_ip a)"
proof -
  have v4: "list_all visible (show_ipv4 x)" for x
    unfolding show_ipv4_def by (intro list_all_join_sep visible_seps) (simp add: list_all_iff[of "list_all visible"] visible_show_radix)
  have hex: "list_all visible (join_sep '':'' (map (show_radix 16) xs))" for xs
    by (intro list_all_join_sep visible_seps) (simp add: list_all_iff[of "list_all visible"] visible_show_radix)
  have "list_all visible (show_ipv6 x)" for x
    by (auto simp: show_ipv6_def Let_def v4 hex visible_chars split: prod.split)
  with v4 show ?thesis by (cases a) auto
qed

lemma take_1_header: "take (Suc 0) (header_values hs n) = (case header_get hs n of None \<Rightarrow> [] | Some v \<Rightarrow> [v])"
  by (simp add: header_get_values split: list.split)

lemma header_values_Nil: "header_values hs n = [] \<longleftrightarrow> header_get hs n = None"
  by (simp add: header_get_values split: list.split)

lemma header_values_set:
  "header_values (set_forwarded env n v hs) m =
     (case he_header_value env v of None \<Rightarrow> header_values hs m | Some w \<Rightarrow> if m = n then [w] else header_values hs m)"
  by (simp add: set_forwarded_def split: option.split)

lemma header_values_option_insert:
  "header_values (case x of None \<Rightarrow> hs | Some v \<Rightarrow> header_insert n v hs) m =
     (case x of None \<Rightarrow> header_values hs m | Some v \<Rightarrow> if m = n then [v] else header_values hs m)"
  by (simp split: option.split)

text \<open>The headers of the prepared request, for every name.\<close>

lemma prepare_request_headers:
  assumes laws: "he_header_value env = visible_text" "he_to_str env = visible_text"
    and host: "header_get (hr_headers rq) ''host'' = Some h" "list_all visible h"
    and up: "prepare_request env rq route remote tls = Inr up"
  shows "header_values (hr_headers up) m = forwarded_values env rq remote tls m"
proof -
  let ?u = "header_get (hr_headers rq) ''upgrade''"
  have vis: "visible_text (show_ip (sock_ip remote)) = Some (show_ip (sock_ip remote))"
    "visible_text ''https'' = Some ''https''" "visible_text ''http'' = Some ''http''" "visible_text h = Some h"
    using visible_show_ip host(2) by (simp_all add: visible_text_def) (simp_all add: visible_def)
  have hs: "hr_headers up = set_forwarded env ''x-forwarded-host'' h
      (set_forwarded env ''x-forwarded-proto'' (if tls then ''https'' else ''http'')
        (set_forwarded env ''x-forwarded-for'' (show_ip (sock_ip remote))
          (case ?u of None \<Rightarrow> header_insert ''host'' h (remove_hop_headers env (hr_headers rq))
           | Some u \<Rightarrow> header_insert ''connection'' ''upgrade'' (header_insert ''upgrade'' u
                (header_insert ''host'' h (remove_hop_headers env (hr_headers rq)))))))"
    using up host(1) vis(4) laws(2) by (auto simp: prepare_request_def Let_def split: option.splits sum.splits)
  show ?thesis
    unfolding hs header_values_set laws(1) forwarded_values_def Let_def
    using vis host(1) by (cases ?u) (simp_all add: header_values_Nil take_1_header hop_headers_def)
qed

lemma request_host_header:
  assumes "he_to_str env = visible_text" "request_host env rq = Some host"
  shows "\<exists>h. header_get (hr_headers rq) ''host'' = Some h \<and> list_all visible h \<and> to_ascii_lowercase host = host"
  using assms by (auto simp: request_host_def visible_text_def split: option.splits if_splits bind_splits)

lemma routes_to_selects:
  assumes "distinct (map route_key rs)" "routes_to pu rs host path (Some ro)"
  shows "\<exists>r. selects rs host path r \<and> ro = route_of pu r"
  using assms(2) by (auto simp: routes_to_def selects_def list_all_iff)

lemma valid_route_upstream:
  assumes "valid_proxy_config pu c" "selects (pc_routes c) host path r"
  shows "\<exists>u scheme authority. pu (rc_upstream r) = Some u \<and> u_scheme u = Some scheme \<and> u_authority u = Some authority"
proof -
  have "valid_upstream pu (rc_upstream r)"
    using assms by (auto simp: valid_proxy_config_def list_all_iff valid_route_def selects_def)
  then show ?thesis by (auto simp: valid_upstream_def split: option.splits)
qed

text \<open>Once a route is selected: the request is sent to its upstream unless the address cannot be built.\<close>

definition relayed ::
  "http_env \<Rightarrow> (http_request \<Rightarrow> (string, http_response) res) \<Rightarrow> http_request \<Rightarrow> SocketAddr \<Rightarrow> bool \<Rightarrow> Uri \<Rightarrow> handled \<Rightarrow> bool" where
  "relayed env client rq remote tls u h =
     (case he_build_uri env (the (u_scheme u)) (the (u_authority u)) (joined_path u (hr_uri rq)) of
        Inl _ \<Rightarrow> hd_upstream h = None \<and> hs_status (hd_response h) = 502 \<and> \<not> hd_relay h
      | Inr uri \<Rightarrow>
          (case hd_upstream h of
             None \<Rightarrow> False
           | Some up \<Rightarrow>
               hr_uri up = uri \<and> header_values (hr_headers up) = forwarded_values env rq remote tls
               \<and> (case client up of
                    Inl _ \<Rightarrow> hs_status (hd_response h) = 502 \<and> \<not> hd_relay h
                  | Inr answer \<Rightarrow>
                      hs_status (hd_response h) = hs_status answer \<and> hs_body (hd_response h) = hs_body answer
                      \<and> header_values (hs_headers (hd_response h)) =
                          (\<lambda>m. if m \<in> set hop_headers \<or> m \<in> set (connection_tokens env (hs_headers answer)) then []
                                else header_values (hs_headers answer) m)
                      \<and> hd_relay h = (hs_status answer = 101 \<and> header_get (hr_headers rq) ''upgrade'' \<noteq> None))))"

lemma handle_selected:
  assumes laws: "he_header_value env = visible_text" "he_to_str env = visible_text"
    and "request_host env rq = Some host" "tls_host_matches host sni"
    and "router_find R host (u_path (hr_uri rq)) = Some ro" "sni = None \<or> ro_tls ro"
    and u: "ro_upstream ro = u" "u_scheme u = Some scheme" "u_authority u = Some authority"
  shows "relayed env client rq remote (sni \<noteq> None) u (handle env client R rq remote sni)"
proof -
  obtain h where h: "header_get (hr_headers rq) ''host'' = Some h" "list_all visible h"
    using request_host_header[OF laws(2) assms(3)] by blast
  show ?thesis
  proof (cases "he_build_uri env scheme authority (joined_path u (hr_uri rq))")
    case (Inl e)
    then have "prepare_request env rq ro remote (sni \<noteq> None) = Inl (Http e)"
      using u by (simp add: prepare_request_def Let_def)
    with Inl assms show ?thesis by (auto simp: relayed_def handle_def refuse_request_def response_def Let_def)
  next
    case (Inr uri)
    then obtain up where up: "prepare_request env rq ro remote (sni \<noteq> None) = Inr up" "hr_uri up = uri"
      using u by (simp add: prepare_request_def Let_def)
    have "header_values (hr_headers up) = forwarded_values env rq remote (sni \<noteq> None)"
      using prepare_request_headers[OF laws h up(1)] by blast
    with Inr assms up show ?thesis
      by (cases "client up") (auto simp: relayed_def handle_def response_def Let_def)
  qed
qed

text \<open>
  C29. How the proxy answers a request. Without a valid Host it answers 400; over TLS with another
  server name than the Host, or for a route without certificate, it answers 421; when no route of
  the configuration serves Host and path it answers 404; and in these cases nothing is sent
  upstream. Otherwise the request goes to the upstream of the most specific route (502 when its
  address cannot be built or it does not answer), carries exactly one \<open>X-Forwarded-For\<close>,
  \<open>-Proto\<close> and \<open>-Host\<close> that the client cannot forge, keeps the original Host, has no
  hop-by-hop header other than a requested upgrade and every other header unchanged, and the
  answer is passed back without hop-by-hop headers.
\<close>

theorem request_outcome:
  assumes "valid_proxy_config pu c" "router_new pu c = Inr R"
    and "he_header_value env = visible_text" "he_to_str env = visible_text"
  shows "let h = handle env client R rq remote sni; path = u_path (hr_uri rq);
             refused = (\<lambda>status. hd_upstream h = None \<and> hs_status (hd_response h) = status \<and> \<not> hd_relay h)
         in case request_host env rq of
              None \<Rightarrow> refused 400
            | Some host \<Rightarrow>
                if \<not> list_all (\<lambda>n. to_ascii_lowercase n = host) (case sni of None \<Rightarrow> [] | Some n \<Rightarrow> [n]) then refused 421
                else if \<not> list_ex (\<lambda>r. serves r host path) (pc_routes c) then refused 404
                else \<exists>r u. selects (pc_routes c) host path r \<and> pu (rc_upstream r) = Some u
                   \<and> (if sni \<noteq> None \<and> rc_certificate_id r = None then refused 421
                      else relayed env client rq remote (sni \<noteq> None) u h)"
proof (cases "request_host env rq")
  case None
  then show ?thesis by (simp add: handle_def refuse_request_def response_def)
next
  case (Some host)
  let ?path = "u_path (hr_uri rq)"
  have lower: "to_ascii_lowercase host = host" using request_host_header[OF assms(4) Some] by blast
  have sni: "tls_host_matches host sni \<longleftrightarrow> list_all (\<lambda>n. to_ascii_lowercase n = host) (case sni of None \<Rightarrow> [] | Some n \<Rightarrow> [n])"
    using lower by (simp add: tls_host_matches_def split: option.split)
  have routed: "routes_to pu (pc_routes c) host ?path (router_find R host ?path)"
    using router_new_routes[OF assms(1,2)] .
  show ?thesis
  proof (cases "tls_host_matches host sni")
    case False
    with Some sni show ?thesis by (simp add: handle_def refuse_request_def response_def)
  next
    case match: True
    show ?thesis
    proof (cases "router_find R host ?path")
      case None
      with routed have "\<not> list_ex (\<lambda>r. serves r host ?path) (pc_routes c)" by (auto simp: routes_to_def list_ex_iff)
      with None Some match sni show ?thesis by (simp add: handle_def refuse_request_def response_def)
    next
      case ro: (Some ro)
      have "distinct (map route_key (pc_routes c))" using assms(1) by (simp add: valid_proxy_config_def)
      from routes_to_selects[OF this routed[unfolded ro]] obtain r where r: "selects (pc_routes c) host ?path r" "ro = route_of pu r"
        by blast
      from valid_route_upstream[OF assms(1) r(1)] obtain u scheme authority where
        u: "pu (rc_upstream r) = Some u" "u_scheme u = Some scheme" "u_authority u = Some authority" by blast
      have ex: "list_ex (\<lambda>r. serves r host ?path) (pc_routes c)" using r(1) by (auto simp: selects_def list_ex_iff)
      have "if sni \<noteq> None \<and> rc_certificate_id r = None
        then hd_upstream (handle env client R rq remote sni) = None \<and> hs_status (hd_response (handle env client R rq remote sni)) = 421
          \<and> \<not> hd_relay (handle env client R rq remote sni)
        else relayed env client rq remote (sni \<noteq> None) u (handle env client R rq remote sni)"
      proof (cases "sni \<noteq> None \<and> rc_certificate_id r = None")
        case True
        with Some match ro r(2) show ?thesis by (simp add: handle_def refuse_request_def response_def route_of_def Let_def)
      next
        case False
        then have "sni = None \<or> ro_tls ro" by (auto simp: r(2) route_of_def)
        from handle_selected[OF assms(3,4) Some match ro this _ u(2,3)] False show ?thesis
          by (auto simp: r(2) route_of_def u(1))
      qed
      with r(1) u(1) have "\<exists>r u. selects (pc_routes c) host ?path r \<and> pu (rc_upstream r) = Some u
          \<and> (if sni \<noteq> None \<and> rc_certificate_id r = None
             then hd_upstream (handle env client R rq remote sni) = None
               \<and> hs_status (hd_response (handle env client R rq remote sni)) = 421
               \<and> \<not> hd_relay (handle env client R rq remote sni)
             else relayed env client rq remote (sni \<noteq> None) u (handle env client R rq remote sni))" by blast
      with Some match[unfolded sni] ex show ?thesis by simp
    qed
  qed
qed

definition sample_http_env :: http_env where
  "sample_http_env =
     \<lparr>he_to_str = visible_text, he_header_name = Some, he_header_value = visible_text, he_authority_host = Some,
      he_build_uri = (\<lambda>scheme authority path. Inr \<lparr>u_scheme = Some scheme, u_authority = Some authority, u_path = path, u_query = None\<rparr>)\<rparr>"

definition sample_request :: http_request where
  "sample_request =
     \<lparr>hr_uri = \<lparr>u_scheme = None, u_authority = None, u_path = ''/api/v1'', u_query = None\<rparr>,
      hr_headers = [(''host'', ''example.com''), (''x-forwarded-for'', ''1.2.3.4''), (''connection'', ''x-secret''), (''x-secret'', ''s''),
                    (''upgrade'', ''websocket'')]\<rparr>"

definition sample_router :: Router where
  "sample_router = (case router_new (\<lambda>_. Some sample_uri) sample_proxy_config of Inr R \<Rightarrow> R | Inl _ \<Rightarrow> \<lparr>rt_exact = [], rt_wildcard = []\<rparr>)"

lemma sample_router_new: "router_new (\<lambda>_. Some sample_uri) sample_proxy_config = Inr sample_router"
  unfolding sample_router_def using router_implements[OF sample_proxy_config_valid] by auto

text \<open>A switch of protocols that the upstream agrees to, over plain HTTP.\<close>

definition switching :: "http_request \<Rightarrow> (string, http_response) res" where
  "switching up = Inr \<lparr>hs_status = 101, hs_headers = [(''connection'', ''Upgrade''), (''upgrade'', ''websocket'')], hs_body = []\<rparr>"

theorem request_outcome_witness:
  "valid_proxy_config (\<lambda>_. Some sample_uri) sample_proxy_config \<and>
   (let h = handle sample_http_env switching sample_router sample_request (SocketAddrV4 0x7f000001 5000) None
    in \<exists>r u. selects (pc_routes sample_proxy_config) ''example.com'' ''/api/v1'' r \<and> Some sample_uri = Some u
       \<and> relayed sample_http_env switching sample_request (SocketAddrV4 0x7f000001 5000) False u h)"
proof -
  have "request_host sample_http_env sample_request = Some ''example.com''" by code_simp
  moreover have "list_ex (\<lambda>r. serves r ''example.com'' ''/api/v1'') (pc_routes sample_proxy_config)" by code_simp
  moreover have "u_path (hr_uri sample_request) = ''/api/v1''" by (simp add: sample_request_def)
  moreover have "he_header_value sample_http_env = visible_text" "he_to_str sample_http_env = visible_text"
    by (simp_all add: sample_http_env_def)
  ultimately show ?thesis
    using request_outcome[OF sample_proxy_config_valid sample_router_new, of sample_http_env switching sample_request
        "SocketAddrV4 0x7f000001 5000" None] sample_proxy_config_valid
    by simp
qed

text \<open>
  The answer of an upstream that switches protocols loses the \<open>Upgrade\<close> and \<open>Connection\<close> headers
  like every other answer, although the connection is then relayed: the client cannot see that
  the upgrade was accepted.
\<close>

lemma switching_answer_stripped:
  assumes "hd_relay (handle env client R rq remote sni)"
  shows "header_get (hs_headers (hd_response (handle env client R rq remote sni))) ''upgrade'' = None
    \<and> header_get (hs_headers (hd_response (handle env client R rq remote sni))) ''connection'' = None"
  using assms by (auto simp: handle_def Let_def refuse_request_def hop_headers_def split: option.splits sum.splits if_splits)

text \<open>Only the tokens of the first \<open>Connection\<close> line are removed.\<close>

lemma second_connection_line_kept:
  "remove_hop_headers sample_http_env [(''connection'', ''close''), (''connection'', ''x-secret''), (''x-secret'', ''s'')] = [(''x-secret'', ''s'')]"
  by code_simp

end
