(* ===== verification/Connection_Limit.thy ===== *)
theory Connection_Limit
  imports Proxy_Service
begin

text \<open>
  \<open>gaterust-proxy/src/connection.rs\<close>: the limit on concurrent connections, the set of connection
  tasks and the accept loops. \<open>ConnectionLimit\<close> is lock free: \<open>acquire\<close> registers for a wake-up, reads
  the two counters and then either takes a place by compare-and-exchange or waits. Its steps are
  modelled one atomic access at a time, so that every interleaving of several accept loops, of
  ending connections and of changes of the limit is a run of the model.

  \<open>tokio::sync::Notify\<close> is modelled as documented: \<open>notify_one\<close> wakes one registered waiter (any of
  them here) and stores a permit when there is none, \<open>enable\<close> registers or consumes the permit,
  \<open>notify_waiters\<close> wakes all registered waiters and stores nothing, and a waiter that is dropped
  after \<open>notify_one\<close> woke it passes the wake-up on.
\<close>

section \<open>The limit\<close>

record ConnectionLimit =
  cl_maximum :: nat
  cl_active :: nat
  cl_permit :: bool \<comment> \<open>the permit stored in \<open>changed\<close>\<close>

datatype wake = Unnotified | Woken_One | Woken_All

text \<open>Where a task is in \<open>acquire\<close>; the wake-up state of its \<open>Notified\<close> future where it has one.\<close>

datatype acquire_pc =
  Outside
| Looping
| Registered wake
| LoadedActive nat wake
| LoadedBoth nat nat wake
| Waiting wake

text \<open>
  \<open>ls_held\<close> counts the \<open>ConnectionPermit\<close>s, \<open>ls_releasing\<close> those in \<open>drop\<close> between \<open>fetch_sub\<close> and
  \<open>notify_one\<close>, \<open>ls_raising\<close> the calls of \<open>set_maximum\<close> between \<open>store\<close> and \<open>notify_waiters\<close>.
\<close>

record limit_state =
  ls_limit :: ConnectionLimit
  ls_tasks :: "acquire_pc list"
  ls_held :: nat
  ls_releasing :: nat
  ls_raising :: nat

definition connection_limit_new :: "nat \<Rightarrow> ConnectionLimit" where
  "connection_limit_new maximum = \<lparr>cl_maximum = maximum, cl_active = 0, cl_permit = False\<rparr>"

fun waits :: "acquire_pc \<Rightarrow> bool" where
  "waits (Registered Unnotified) = True"
| "waits (LoadedActive _ Unnotified) = True"
| "waits (LoadedBoth _ _ Unnotified) = True"
| "waits (Waiting Unnotified) = True"
| "waits _ = False"

fun woken :: "wake \<Rightarrow> acquire_pc \<Rightarrow> acquire_pc" where
  "woken w (Registered Unnotified) = Registered w"
| "woken w (LoadedActive a Unnotified) = LoadedActive a w"
| "woken w (LoadedBoth a m Unnotified) = LoadedBoth a m w"
| "woken w (Waiting Unnotified) = Waiting w"
| "woken w pc = pc"

text \<open>Task \<open>i\<close> if it waits for a wake-up, else the first one that does.\<close>

definition wake_target :: "nat \<Rightarrow> acquire_pc list \<Rightarrow> nat option" where
  "wake_target i ts =
     (if i < length ts \<and> waits (ts ! i) then Some i else List.find (\<lambda>j. waits (ts ! j)) [0..<length ts])"

definition notify_one :: "nat \<Rightarrow> limit_state \<Rightarrow> limit_state" where
  "notify_one i s =
     (case wake_target i (ls_tasks s) of
        Some j \<Rightarrow> s\<lparr>ls_tasks := (ls_tasks s)[j := woken Woken_One (ls_tasks s ! j)]\<rparr>
      | None \<Rightarrow> s\<lparr>ls_limit := (ls_limit s)\<lparr>cl_permit := True\<rparr>\<rparr>)"

definition notify_waiters :: "limit_state \<Rightarrow> limit_state" where
  "notify_waiters s = s\<lparr>ls_tasks := map (woken Woken_All) (ls_tasks s)\<rparr>"

definition drop_notified :: "wake \<Rightarrow> nat \<Rightarrow> limit_state \<Rightarrow> limit_state" where
  "drop_notified w i s = (if w = Woken_One then notify_one i s else s)"

text \<open>
  One step of task \<open>p\<close> inside \<open>acquire\<close>. \<open>exchanged\<close> is false when the weak compare-and-exchange fails
  although the value is the expected one; \<open>cancelled\<close> chooses the branch of \<open>select!\<close>; \<open>i\<close> is the waiter
  that receives a wake-up passed on.
\<close>

definition acquire_step :: "nat \<Rightarrow> bool \<Rightarrow> bool \<Rightarrow> nat \<Rightarrow> limit_state \<Rightarrow> limit_state" where
  "acquire_step p exchanged cancelled i s =
     (let l = ls_limit s; goto = (\<lambda>pc s. s\<lparr>ls_tasks := (ls_tasks s)[p := pc]\<rparr>) in
      if length (ls_tasks s) \<le> p then s
      else case ls_tasks s ! p of
        Outside \<Rightarrow> goto Looping s
      | Looping \<Rightarrow> goto (Registered (if cl_permit l then Woken_All else Unnotified)) (s\<lparr>ls_limit := l\<lparr>cl_permit := False\<rparr>\<rparr>)
      | Registered w \<Rightarrow> goto (LoadedActive (cl_active l) w) s
      | LoadedActive a w \<Rightarrow> goto (LoadedBoth a (cl_maximum l) w) s
      | LoadedBoth a m w \<Rightarrow>
          if a < m then
            if exchanged \<and> cl_active l = a
            then drop_notified w i (goto Outside (s\<lparr>ls_limit := l\<lparr>cl_active := a + 1\<rparr>, ls_held := ls_held s + 1\<rparr>))
            else drop_notified w i (goto Looping s)
          else goto (Waiting w) s
      | Waiting w \<Rightarrow>
          if cancelled then drop_notified w i (goto Outside s)
          else if w = Unnotified then s else goto Looping s)"

text \<open>\<open>Drop for ConnectionPermit\<close> and \<open>set_maximum\<close>, two steps each.\<close>

definition permit_drop :: "limit_state \<Rightarrow> limit_state" where
  "permit_drop s =
     (if ls_held s = 0 then s
      else s\<lparr>ls_limit := (ls_limit s)\<lparr>cl_active := cl_active (ls_limit s) - 1\<rparr>, ls_held := ls_held s - 1,
             ls_releasing := ls_releasing s + 1\<rparr>)"

definition permit_dropped :: "nat \<Rightarrow> limit_state \<Rightarrow> limit_state" where
  "permit_dropped i s = (if ls_releasing s = 0 then s else notify_one i (s\<lparr>ls_releasing := ls_releasing s - 1\<rparr>))"

definition set_maximum :: "nat \<Rightarrow> limit_state \<Rightarrow> limit_state" where
  "set_maximum m s = s\<lparr>ls_limit := (ls_limit s)\<lparr>cl_maximum := m\<rparr>, ls_raising := ls_raising s + 1\<rparr>"

definition maximum_set :: "limit_state \<Rightarrow> limit_state" where
  "maximum_set s = (if ls_raising s = 0 then s else notify_waiters (s\<lparr>ls_raising := ls_raising s - 1\<rparr>))"

text \<open>The runs of a limit whose maximum is never set above \<open>N\<close>.\<close>

inductive limit_reachable :: "nat \<Rightarrow> limit_state \<Rightarrow> bool" for N where
  limit_start: "m \<le> N \<Longrightarrow> limit_reachable N
     \<lparr>ls_limit = connection_limit_new m, ls_tasks = replicate n Outside, ls_held = 0, ls_releasing = 0, ls_raising = 0\<rparr>"
| limit_acquire: "limit_reachable N s \<Longrightarrow> limit_reachable N (acquire_step p exchanged cancelled i s)"
| limit_drop: "limit_reachable N s \<Longrightarrow> limit_reachable N (permit_drop s)"
| limit_dropped: "limit_reachable N s \<Longrightarrow> limit_reachable N (permit_dropped i s)"
| limit_set: "limit_reachable N s \<Longrightarrow> m \<le> N \<Longrightarrow> limit_reachable N (set_maximum m s)"
| limit_was_set: "limit_reachable N s \<Longrightarrow> limit_reachable N (maximum_set s)"

section \<open>No place is lost\<close>

text \<open>
  A task is stuck when it waits for a wake-up after it has seen no free place. Every free place is
  then covered by a pending wake-up: a permit being dropped, a task that still has to look at the
  counters, or a task that was woken by \<open>notify_one\<close> and will look again or pass the wake-up on.
\<close>

fun stuck :: "nat \<Rightarrow> acquire_pc \<Rightarrow> bool" where
  "stuck M (LoadedActive a Unnotified) = (M \<le> a)"
| "stuck M (LoadedBoth a m Unnotified) = (m \<le> a)"
| "stuck M (Waiting Unnotified) = True"
| "stuck M _ = False"

definition carried :: "wake \<Rightarrow> nat" where
  "carried w = (if w = Woken_One then 1 else 0)"

fun weight :: "nat \<Rightarrow> acquire_pc \<Rightarrow> nat" where
  "weight M Outside = 0"
| "weight M Looping = 1"
| "weight M (Registered w) = 1 + carried w"
| "weight M (LoadedActive a w) = (if a < M then 1 else 0) + carried w"
| "weight M (LoadedBoth a m w) = (if a < m then 1 else 0) + carried w"
| "weight M (Waiting w) = carried w"

definition pending :: "limit_state \<Rightarrow> nat" where
  "pending s = ls_releasing s + sum_list (map (weight (cl_maximum (ls_limit s))) (ls_tasks s))"

definition covered :: "limit_state \<Rightarrow> bool" where
  "covered s \<longleftrightarrow>
     (ls_raising s = 0 \<and> list_ex (stuck (cl_maximum (ls_limit s))) (ls_tasks s)
      \<longrightarrow> cl_maximum (ls_limit s) \<le> cl_active (ls_limit s) + pending s)"

definition reads_below :: "nat \<Rightarrow> acquire_pc \<Rightarrow> bool" where
  "reads_below N pc = (case pc of LoadedBoth a m w \<Rightarrow> m \<le> N | _ \<Rightarrow> True)"

lemma reads_below_simps [simp]:
  "reads_below N Outside" "reads_below N Looping" "reads_below N (Registered w)" "reads_below N (LoadedActive a w)"
  "reads_below N (LoadedBoth a m w) = (m \<le> N)" "reads_below N (Waiting w)"
  by (simp_all add: reads_below_def)

definition within :: "nat \<Rightarrow> limit_state \<Rightarrow> bool" where
  "within N s \<longleftrightarrow> cl_active (ls_limit s) = ls_held s \<and> cl_active (ls_limit s) \<le> N \<and> cl_maximum (ls_limit s) \<le> N
     \<and> list_all (reads_below N) (ls_tasks s)"

lemma carried_simps [simp]: "carried Unnotified = 0" "carried Woken_One = 1" "carried Woken_All = 0"
  by (simp_all add: carried_def)

lemma weight_woken: "waits pc \<Longrightarrow> weight M (woken Woken_One pc) = weight M pc + 1"
  by (cases pc rule: waits.cases) auto

lemma stuck_waits: "stuck M pc \<Longrightarrow> waits pc"
  by (cases pc rule: waits.cases) auto

lemma not_stuck_woken [simp]: "\<not> stuck M (woken Woken_One pc)" "\<not> stuck M (woken Woken_All pc)"
  by (cases pc rule: waits.cases; simp)+

lemma reads_below_woken [simp]: "reads_below N (woken w pc) = reads_below N pc"
  by (cases pc rule: waits.cases) (simp_all add: reads_below_def)

lemma wake_target_Some: "wake_target i ts = Some j \<Longrightarrow> j < length ts \<and> waits (ts ! j)"
  by (auto simp: wake_target_def find_Some_iff split: if_splits)

lemma wake_target_None: "wake_target i ts = None \<longleftrightarrow> (\<forall>pc \<in> set ts. \<not> waits pc)"
proof -
  have "(\<forall>pc \<in> set ts. \<not> waits pc) \<longleftrightarrow> (\<forall>j < length ts. \<not> waits (ts ! j))" by (metis in_set_conv_nth)
  then show ?thesis by (auto simp: wake_target_def find_None_iff)
qed

lemma sum_weight_update:
  "p < length ts \<Longrightarrow> sum_list (map (weight M) (ts[p := pc])) + weight M (ts ! p) = sum_list (map (weight M) ts) + weight M pc"
proof -
  assume p: "p < length ts"
  have "weight M (ts ! p) \<le> sum_list (map (weight M) ts)" using p by (intro member_le_sum_list) auto
  with p show ?thesis by (simp add: map_update sum_list_update)
qed

lemma list_ex_update: "list_ex P (ts[p := pc]) \<Longrightarrow> P pc \<or> list_ex P ts"
  by (auto simp: list_ex_iff dest!: subsetD[OF set_update_subset_insert])

text \<open>A wake-up that is given while somebody is stuck adds one to what is pending.\<close>

lemma notify_one_covers:
  assumes "list_ex (stuck (cl_maximum (ls_limit s))) (ls_tasks (notify_one i s))"
  shows "pending (notify_one i s) = pending s + 1 \<and> list_ex (stuck (cl_maximum (ls_limit s))) (ls_tasks s)
    \<and> ls_limit (notify_one i s) = ls_limit s"
proof (cases "wake_target i (ls_tasks s)")
  case None
  with assms show ?thesis by (auto simp: notify_one_def wake_target_None list_ex_iff dest: stuck_waits)
next
  case (Some j)
  note j = wake_target_Some[OF Some]
  have "weight M (woken Woken_One (ls_tasks s ! j)) = weight M (ls_tasks s ! j) + 1" for M
    using weight_woken j by blast
  with sum_weight_update[of j "ls_tasks s" _ "woken Woken_One (ls_tasks s ! j)"] j
  have "pending (notify_one i s) = pending s + 1" by (simp add: Some notify_one_def pending_def)
  moreover have "list_ex (stuck (cl_maximum (ls_limit s))) (ls_tasks s)"
    using assms list_ex_update[of "stuck (cl_maximum (ls_limit s))" "ls_tasks s" j "woken Woken_One (ls_tasks s ! j)"]
    by (simp add: Some notify_one_def)
  ultimately show ?thesis by (simp add: Some notify_one_def)
qed

lemma notify_one_same [simp]:
  "cl_maximum (ls_limit (notify_one i s)) = cl_maximum (ls_limit s)" "cl_active (ls_limit (notify_one i s)) = cl_active (ls_limit s)"
  "ls_held (notify_one i s) = ls_held s" "ls_raising (notify_one i s) = ls_raising s" "ls_releasing (notify_one i s) = ls_releasing s"
  by (simp_all add: notify_one_def split: option.split)

lemma notify_one_reads: "list_all (reads_below N) (ls_tasks s) \<Longrightarrow> list_all (reads_below N) (ls_tasks (notify_one i s))"
proof (cases "wake_target i (ls_tasks s)")
  case (Some j)
  assume "list_all (reads_below N) (ls_tasks s)"
  with wake_target_Some[OF Some] show ?thesis by (auto simp: Some notify_one_def list_all_length nth_list_update)
qed (simp add: notify_one_def)

text \<open>Taking a wake-up along and passing it on leaves what is pending unchanged.\<close>

lemma covered_drop_notified:
  assumes "ls_raising s = 0 \<Longrightarrow> list_ex (stuck (cl_maximum (ls_limit s))) (ls_tasks s) \<Longrightarrow>
     cl_maximum (ls_limit s) \<le> cl_active (ls_limit s) + pending s + carried w"
  shows "covered (drop_notified w i s)"
proof (cases "w = Woken_One")
  case True
  show ?thesis
  proof (unfold covered_def, intro impI, elim conjE)
    let ?t = "drop_notified w i s"
    assume "ls_raising ?t = 0" and stuck: "list_ex (stuck (cl_maximum (ls_limit ?t))) (ls_tasks ?t)"
    then show "cl_maximum (ls_limit ?t) \<le> cl_active (ls_limit ?t) + pending ?t"
      using True assms notify_one_covers[of s i] by (simp add: drop_notified_def)
  qed
next
  case False
  with assms show ?thesis by (auto simp: covered_def drop_notified_def carried_def)
qed

lemma within_drop_notified: "within N s \<Longrightarrow> within N (drop_notified w i s)"
  by (simp add: within_def drop_notified_def notify_one_reads)

text \<open>Moving one task.\<close>

lemma covered_goto:
  assumes cov: "covered s" and p: "p < length (ls_tasks s)" and t: "t = s\<lparr>ls_tasks := (ls_tasks s)[p := pc]\<rparr>"
    and weight: "weight (cl_maximum (ls_limit s)) (ls_tasks s ! p) \<le> weight (cl_maximum (ls_limit s)) pc + k"
    and stuck: "stuck (cl_maximum (ls_limit s)) pc \<Longrightarrow> stuck (cl_maximum (ls_limit s)) (ls_tasks s ! p) \<or> cl_maximum (ls_limit s) \<le> cl_active (ls_limit s)"
    and "ls_raising t = 0" "list_ex (stuck (cl_maximum (ls_limit t))) (ls_tasks t)"
  shows "cl_maximum (ls_limit t) \<le> cl_active (ls_limit t) + pending t + k"
proof (cases "cl_maximum (ls_limit s) \<le> cl_active (ls_limit s)")
  case True
  then show ?thesis by (simp add: t)
next
  case False
  with stuck assms(7) p have "list_ex (stuck (cl_maximum (ls_limit s))) (ls_tasks s)"
    by (auto simp: t list_ex_iff dest!: subsetD[OF set_update_subset_insert])
  with cov assms(6) have "cl_maximum (ls_limit s) \<le> cl_active (ls_limit s) + pending s" by (simp add: covered_def t)
  moreover have "pending s \<le> pending t + k"
    using sum_weight_update[OF p, of "cl_maximum (ls_limit s)" pc] weight by (simp add: pending_def t)
  ultimately show ?thesis by (simp add: t)
qed


lemma covered_acquire:
  assumes "covered s"
  shows "covered (acquire_step p exchanged cancelled i s)"
proof (cases "p < length (ls_tasks s)")
  case False
  with assms show ?thesis by (simp add: acquire_step_def Let_def)
next
  case p: True
  note goto = covered_goto[OF assms p refl, where k = 0, simplified]
  show ?thesis
  proof (cases "ls_tasks s ! p")
    case Outside
    with p goto[of Looping] show ?thesis by (simp add: acquire_step_def covered_def Let_def)
  next
    case Looping
    let ?w = "if cl_permit (ls_limit s) then Woken_All else Unnotified"
    from Looping p goto[of "Registered ?w"] show ?thesis
      by (auto simp: acquire_step_def covered_def pending_def Let_def)
  next
    case (Registered w)
    have "covered (s\<lparr>ls_tasks := (ls_tasks s)[p := LoadedActive (cl_active (ls_limit s)) w]\<rparr>)"
    proof (cases "cl_active (ls_limit s) < cl_maximum (ls_limit s)")
      case True
      with Registered goto[of "LoadedActive (cl_active (ls_limit s)) w"] show ?thesis by (cases w) (auto simp: covered_def)
    qed (auto simp: covered_def)
    with Registered p show ?thesis by (simp add: acquire_step_def Let_def)
  next
    case (LoadedActive a w)
    with p goto[of "LoadedBoth a (cl_maximum (ls_limit s)) w"] show ?thesis
      by (cases w) (auto simp: acquire_step_def covered_def Let_def)
  next
    case (LoadedBoth a m w)
    show ?thesis
    proof (cases "a < m")
      case False
      with LoadedBoth p goto[of "Waiting w"] show ?thesis
        by (cases w) (auto simp: acquire_step_def covered_def Let_def)
    next
      case True
      show ?thesis
      proof (cases "exchanged \<and> cl_active (ls_limit s) = a")
        case grant: True
        let ?t = "s\<lparr>ls_limit := (ls_limit s)\<lparr>cl_active := a + 1\<rparr>, ls_held := ls_held s + 1, ls_tasks := (ls_tasks s)[p := Outside]\<rparr>"
        have "covered (drop_notified w i ?t)"
        proof (rule covered_drop_notified)
          assume "ls_raising ?t = 0" "list_ex (stuck (cl_maximum (ls_limit ?t))) (ls_tasks ?t)"
          then show "cl_maximum (ls_limit ?t) \<le> cl_active (ls_limit ?t) + pending ?t + carried w"
            using covered_goto[OF assms p refl, of Outside "1 + carried w"] LoadedBoth True grant by (simp add: pending_def)
        qed
        with LoadedBoth True grant p show ?thesis by (simp add: acquire_step_def Let_def)
      next
        case False
        have "covered (drop_notified w i (s\<lparr>ls_tasks := (ls_tasks s)[p := Looping]\<rparr>))"
          using covered_goto[OF assms p refl, of Looping "carried w"] LoadedBoth True by (intro covered_drop_notified) simp
        with LoadedBoth True False p show ?thesis by (auto simp: acquire_step_def Let_def)
      qed
    qed
  next
    case (Waiting w)
    show ?thesis
    proof (cases cancelled)
      case True
      have "covered (drop_notified w i (s\<lparr>ls_tasks := (ls_tasks s)[p := Outside]\<rparr>))"
        using covered_goto[OF assms p refl, of Outside "carried w"] Waiting by (intro covered_drop_notified) simp
      with Waiting True p show ?thesis by (simp add: acquire_step_def Let_def)
    next
      case False
      with Waiting p assms goto[of Looping] show ?thesis by (cases w) (auto simp: acquire_step_def covered_def Let_def)
    qed
  qed
qed

lemma within_acquire:
  assumes "within N s"
  shows "within N (acquire_step p exchanged cancelled i s)"
proof (cases "p < length (ls_tasks s)")
  case False
  with assms show ?thesis by (simp add: acquire_step_def Let_def)
next
  case p: True
  have parts: "cl_active (ls_limit s) = ls_held s" "cl_active (ls_limit s) \<le> N" "cl_maximum (ls_limit s) \<le> N"
    and reads: "list_all (reads_below N) (ls_tasks s)" using assms by (auto simp: within_def)
  have goto: "within N t" if "ls_tasks t = (ls_tasks s)[p := pc]" "reads_below N pc" "cl_active (ls_limit t) = ls_held t"
    "cl_active (ls_limit t) \<le> N" "cl_maximum (ls_limit t) \<le> N" for t pc
    using reads that p by (auto simp: within_def list_all_length nth_list_update)
  have "reads_below N (ls_tasks s ! p)" using reads p by (simp add: list_all_length)
  with parts p assms show ?thesis
    by (cases "ls_tasks s ! p") (auto simp: acquire_step_def Let_def intro!: within_drop_notified goto)
qed

lemma limit_invariant: "limit_reachable N s \<Longrightarrow> covered s \<and> within N s"
proof (induction rule: limit_reachable.induct)
  case (limit_start m n)
  then show ?case by (auto simp: covered_def within_def list_ex_iff list_all_iff reads_below_def connection_limit_new_def)
next
  case (limit_acquire s p exchanged cancelled i)
  then show ?case by (simp add: covered_acquire within_acquire)
next
  case (limit_drop s)
  then show ?case by (auto simp: permit_drop_def covered_def within_def pending_def)
next
  case (limit_dropped s i)
  let ?t = "s\<lparr>ls_releasing := ls_releasing s - 1\<rparr>"
  have "covered (drop_notified Woken_One i ?t)" if "ls_releasing s \<noteq> 0"
    using limit_dropped that by (intro covered_drop_notified) (auto simp: covered_def pending_def)
  moreover have "within N (drop_notified Woken_One i ?t)"
    using limit_dropped by (intro within_drop_notified) (simp add: within_def)
  ultimately show ?case using limit_dropped by (simp add: permit_dropped_def drop_notified_def)
next
  case (limit_set s m)
  then show ?case by (auto simp: set_maximum_def covered_def within_def)
next
  case (limit_was_set s)
  then show ?case by (auto simp: maximum_set_def notify_waiters_def covered_def within_def list_ex_iff list_all_iff)
qed

text \<open>A state in which nothing more happens by itself: no counter is being changed, every task is outside or sleeps.\<close>

definition limit_quiet :: "limit_state \<Rightarrow> bool" where
  "limit_quiet s \<longleftrightarrow> ls_releasing s = 0 \<and> ls_raising s = 0 \<and> list_all (\<lambda>pc. pc = Outside \<or> pc = Waiting Unnotified) (ls_tasks s)"

lemma quiet_pending: "limit_quiet s \<Longrightarrow> pending s = 0"
  by (auto simp: limit_quiet_def pending_def list_all_iff)

text \<open>
  C34: The limit on concurrent connections. In every interleaving the counter equals the number of
  permits that exist and never exceeds the largest maximum that was configured, and no wake-up is
  lost: when an accept loop is left waiting and nothing is in progress any more, all places are
  really taken.
\<close>

theorem connection_limit_correct:
  assumes "limit_reachable N s"
  shows "cl_active (ls_limit s) = ls_held s \<and> ls_held s \<le> N
    \<and> (limit_quiet s \<and> Waiting Unnotified \<in> set (ls_tasks s) \<longrightarrow> cl_maximum (ls_limit s) \<le> ls_held s)"
proof -
  from limit_invariant[OF assms] have cov: "covered s" and within: "within N s" by auto
  have "cl_maximum (ls_limit s) \<le> ls_held s" if "limit_quiet s" "Waiting Unnotified \<in> set (ls_tasks s)"
  proof -
    have "list_ex (stuck (cl_maximum (ls_limit s))) (ls_tasks s)" using that(2) by (force simp: list_ex_iff)
    with cov that(1) within show ?thesis by (simp add: covered_def quiet_pending within_def limit_quiet_def)
  qed
  with within show ?thesis by (auto simp: within_def)
qed

text \<open>A limit of one with two accept loops: the first takes the place, the second waits.\<close>

definition sample_limit :: limit_state where
  "sample_limit =
     ((acquire_step 1 True False 0) ^^ 5) (((acquire_step 0 True False 0) ^^ 5)
       \<lparr>ls_limit = connection_limit_new 1, ls_tasks = replicate 2 Outside, ls_held = 0, ls_releasing = 0, ls_raising = 0\<rparr>)"

lemma reachable_steps: "limit_reachable N s \<Longrightarrow> limit_reachable N (((acquire_step p exchanged cancelled i) ^^ n) s)"
  by (induction n) (auto intro: limit_reachable.limit_acquire)

theorem connection_limit_correct_witness:
  "limit_quiet sample_limit \<and> ls_tasks sample_limit = [Outside, Waiting Unnotified] \<and> cl_maximum (ls_limit sample_limit) \<le> ls_held sample_limit"
proof -
  have val: "sample_limit = \<lparr>ls_limit = \<lparr>cl_maximum = 1, cl_active = 1, cl_permit = False\<rparr>, ls_tasks = [Outside, Waiting Unnotified],
      ls_held = 1, ls_releasing = 0, ls_raising = 0\<rparr>"
    by (simp add: sample_limit_def numeral_eq_Suc acquire_step_def connection_limit_new_def Let_def drop_notified_def)
  have tasks: "ls_tasks sample_limit = [Outside, Waiting Unnotified]" and quiet: "limit_quiet sample_limit"
    unfolding val limit_quiet_def by simp_all
  have "limit_reachable 1 sample_limit" unfolding sample_limit_def by (intro reachable_steps limit_reachable.limit_start) simp
  from connection_limit_correct[OF this] tasks quiet show ?thesis by simp
qed

section \<open>The connection tasks and the accept loops\<close>

text \<open>
  The set of tasks is gone after \<open>shutdown\<close>. An entry is a connection and whether its task has ended;
  \<open>spawn\<close> joins the ended ones.
\<close>

datatype proxied_connection = PlainConnection SocketAddr | TlsConnection SocketAddr

type_synonym ConnectionTasks = "(proxied_connection \<times> bool) list option"

definition tasks_new :: ConnectionTasks where
  "tasks_new = Some []"

definition tasks_spawn :: "proxied_connection \<Rightarrow> ConnectionTasks \<Rightarrow> ConnectionTasks" where
  "tasks_spawn c tasks = map_option (\<lambda>ts. filter (\<lambda>(_, ended). \<not> ended) ts @ [(c, False)]) tasks"

definition tasks_shutdown :: "ConnectionTasks \<Rightarrow> ConnectionTasks" where
  "tasks_shutdown tasks = None"

text \<open>
  The events of an accept loop: the listener is cancelled, \<open>accept\<close> fails, or a connection is accepted
  and \<open>acquire\<close> gives a permit or, when cancelled meanwhile, none.
\<close>

datatype listener_event = ListenerCancelled | AcceptFailed | ConnectionAccepted SocketAddr bool

fun run_listener :: "(SocketAddr \<Rightarrow> proxied_connection) \<Rightarrow> listener_event list \<Rightarrow> ConnectionTasks \<Rightarrow> bool \<times> ConnectionTasks" where
  "run_listener serve [] tasks = (False, tasks)"
| "run_listener serve (ListenerCancelled # es) tasks = (True, tasks)"
| "run_listener serve (AcceptFailed # es) tasks = run_listener serve es tasks"
| "run_listener serve (ConnectionAccepted remote permit # es) tasks =
     (if permit then run_listener serve es (tasks_spawn (serve remote) tasks) else (True, tasks))"

definition run_http_listener :: "listener_event list \<Rightarrow> ConnectionTasks \<Rightarrow> bool \<times> ConnectionTasks" where
  "run_http_listener = run_listener PlainConnection"

definition run_https_listener :: "listener_event list \<Rightarrow> ConnectionTasks \<Rightarrow> bool \<times> ConnectionTasks" where
  "run_https_listener = run_listener TlsConnection"

text \<open>
  The requests of one connection. A TLS connection is served only after a handshake within the
  time limit (\<open>None\<close> is the timeout) in which the client named the server.
\<close>

definition serve_http ::
  "http_env \<Rightarrow> (http_request \<Rightarrow> (string, http_response) res) \<Rightarrow> Router \<Rightarrow> SocketAddr \<Rightarrow> http_request list \<Rightarrow> handled list" where
  "serve_http env client routes remote requests = map (\<lambda>rq. handle env client routes rq remote None) requests"

definition serve_tls ::
  "http_env \<Rightarrow> (http_request \<Rightarrow> (string, http_response) res) \<Rightarrow> Router \<Rightarrow> SocketAddr \<Rightarrow> (string, string option) res option
     \<Rightarrow> http_request list \<Rightarrow> handled list" where
  "serve_tls env client routes remote handshake requests =
     (case handshake of
        None \<Rightarrow> []
      | Some (Inl _) \<Rightarrow> []
      | Some (Inr None) \<Rightarrow> []
      | Some (Inr (Some server_name)) \<Rightarrow> map (\<lambda>rq. handle env client routes rq remote (Some server_name)) requests)"

text \<open>A request that a TLS connection passes on was sent for the name of the handshake and has a route with a certificate.\<close>

lemma tls_requests_have_certificate:
  assumes "h \<in> set (serve_tls env client R remote handshake requests)" "hd_upstream h \<noteq> None"
  shows "\<exists>name rq host route. handshake = Some (Inr (Some name)) \<and> rq \<in> set requests \<and> request_host env rq = Some host
    \<and> tls_host_matches host (Some name) \<and> router_find R host (u_path (hr_uri rq)) = Some route \<and> ro_tls route"
proof -
  from assms(1) obtain name rq where "handshake = Some (Inr (Some name))" "rq \<in> set requests"
    and h: "h = handle env client R rq remote (Some name)"
    by (auto simp: serve_tls_def split: option.splits sum.splits)
  moreover from assms(2) obtain host route where "request_host env rq = Some host" "tls_host_matches host (Some name)"
    "router_find R host (u_path (hr_uri rq)) = Some route" "ro_tls route"
    by (auto simp: h handle_def refuse_request_def Let_def split: option.splits if_splits)
  ultimately show ?thesis by blast
qed

text \<open>After the shutdown of the tasks no connection runs, whatever the accept loops still do.\<close>

lemma no_tasks_after_shutdown: "snd (run_listener serve es (tasks_shutdown tasks)) = None"
proof -
  have "snd (run_listener serve es None) = None"
    by (induction serve es "None :: ConnectionTasks" rule: run_listener.induct) (auto simp: tasks_spawn_def)
  then show ?thesis by (simp add: tasks_shutdown_def)
qed

end
