(* ===== verification/Control_Auth.thy ===== *)
theory Control_Auth
  imports Hash_Map Std_Lib
begin

text \<open>
  \<open>gaterust-control/src/auth.rs\<close>, \<open>config.rs\<close> and \<open>error.rs\<close>: the configuration of the web
  console, password logins with a limit on failures per address, and session tokens. Argon2, the
  JWT library and the parser of header values are parameters; an \<open>Instant\<close> is a number of
  nanoseconds, a Unix time a number of seconds. Messages are ASCII renderings.
\<close>

section \<open>Errors and configuration\<close>

datatype ControlError =
    ReadConfig path io_error
  | ParseConfig path
  | InvalidConfig string
  | ResourceNotFound string string
  | ResourceConflict string
  | ReadRuntimeConfig string
  | WriteRuntimeConfig string
  | TunnelRuntimeApply string
  | ProxyRuntimeApply string
  | Watch string
  | Bind io_error
  | Serve io_error

record WebConfig =
  wc_bind :: SocketAddr
  wc_static_dir :: "path option"
  wc_admin_username :: string
  wc_admin_password_hash :: string
  wc_jwt_secret :: string
  wc_token_ttl_seconds :: nat
  wc_allowed_origins :: "string list"

definition DEFAULT_TOKEN_TTL_SECONDS :: nat where "DEFAULT_TOKEN_TTL_SECONDS = 72 * 60 * 60"

definition validate_origin :: "(string \<Rightarrow> bool) \<Rightarrow> string \<Rightarrow> (ControlError, unit) res" where
  "validate_origin header_value origin =
     reject_if (\<not> (strip_prefix ''http://'' origin \<noteq> None \<or> strip_prefix ''https://'' origin \<noteq> None) \<or> \<not> header_value origin)
       (InvalidConfig (''invalid origin: '' @ origin))"

definition web_validate :: "(string \<Rightarrow> bool) \<Rightarrow> WebConfig \<Rightarrow> (ControlError, unit) res" where
  "web_validate header_value w =
     res_bind (reject_if (wc_admin_username w = [] \<or> length (wc_admin_username w) > 64) (InvalidConfig ''admin user name'')) (\<lambda>_.
     res_bind (reject_if (length (wc_jwt_secret w) < 32) (InvalidConfig ''jwt_secret'')) (\<lambda>_.
     res_bind (reject_if (\<not> (300 \<le> wc_token_ttl_seconds w \<and> wc_token_ttl_seconds w \<le> DEFAULT_TOKEN_TTL_SECONDS))
                (InvalidConfig ''token_ttl_seconds'')) (\<lambda>_.
     res_fold (\<lambda>origin _. validate_origin header_value origin) (wc_allowed_origins w) ())))"

definition control_load ::
  "(path \<Rightarrow> (io_error, string) res) \<Rightarrow> (string \<Rightarrow> WebConfig option) \<Rightarrow> (string \<Rightarrow> bool) \<Rightarrow> path \<Rightarrow> (ControlError, WebConfig) res" where
  "control_load read from_str header_value p =
     (case read p of
        Inl e \<Rightarrow> Inl (ReadConfig p e)
      | Inr content \<Rightarrow>
          (case from_str content of
             None \<Rightarrow> Inl (ParseConfig p)
           | Some w \<Rightarrow>
               (let parent = (case path_parent p of None \<Rightarrow> current_dir | Some q \<Rightarrow> q);
                    w = w\<lparr>wc_static_dir := map_option (\<lambda>d. if is_relative d then path_join parent d else d) (wc_static_dir w)\<rparr>
                in res_bind (web_validate header_value w) (\<lambda>_. Inr w))))"

section \<open>The service\<close>

definition LOGIN_WINDOW :: nat where "LOGIN_WINDOW = 60 * 10 ^ 9"
definition MAX_LOGIN_FAILURES :: u8 where "MAX_LOGIN_FAILURES = 5"
definition MAX_TRACKED_ADDRESSES :: nat where "MAX_TRACKED_ADDRESSES = 4096"
definition TOKEN_REFRESH_INTERVAL :: nat where "TOKEN_REFRESH_INTERVAL = 60 * 60"
definition PASSWORD_WORKERS :: nat where "PASSWORD_WORKERS = 2"

record LoginAttempt =
  la_window_started :: nat
  la_failures :: u8

datatype LoginError = InvalidCredentials | RateLimited | Internal

record Claims =
  cl_sub :: string
  cl_iat :: nat
  cl_exp :: nat

record AuthToken =
  tk_value :: string
  tk_expires_at :: nat

text \<open>
  The libraries: a PHC string is well formed, a password matches it; the salt encoding and the
  hash; signing claims, and checking a token (signature, algorithm, required claims and expiry)
  at a time.
\<close>

record login_env =
  ae_phc :: "string \<Rightarrow> bool"
  ae_verify :: "string \<Rightarrow> string \<Rightarrow> bool"
  ae_salt :: "bytes \<Rightarrow> (string, string) res"
  ae_hash :: "string \<Rightarrow> string \<Rightarrow> (string, string) res"
  ae_encode :: "string \<Rightarrow> Claims \<Rightarrow> string option"
  ae_decode :: "nat \<Rightarrow> string \<Rightarrow> string \<Rightarrow> Claims option"

text \<open>A login that is not answered yet; \<open>Verified\<close> carries the result of the password check.\<close>

datatype login_phase = WaitingWorker | Verifying | Verified bool

record pending_login =
  pn_address :: IpAddr
  pn_username :: string
  pn_password :: string
  pn_phase :: login_phase

record AuthInner =
  au_username :: string
  au_password_hash :: string
  au_secret :: string
  au_token_ttl :: nat
  au_workers :: nat
  au_attempts :: "(IpAddr, LoginAttempt) hm"
  au_pending :: "(nat, pending_login) hm"

definition auth_new :: "login_env \<Rightarrow> WebConfig \<Rightarrow> (ControlError, AuthInner) res" where
  "auth_new env w =
     (if ae_phc env (wc_admin_password_hash w)
      then Inr \<lparr>au_username = wc_admin_username w, au_password_hash = wc_admin_password_hash w, au_secret = wc_jwt_secret w,
                au_token_ttl = wc_token_ttl_seconds w, au_workers = PASSWORD_WORKERS, au_attempts = [], au_pending = []\<rparr>
      else Inl (InvalidConfig ''admin_password_hash is no PHC string''))"

definition can_attempt :: "nat \<Rightarrow> IpAddr \<Rightarrow> AuthInner \<Rightarrow> bool \<times> AuthInner" where
  "can_attempt now address s =
     (let attempts = hm_retain (\<lambda>_ a. now - la_window_started a < LOGIN_WINDOW) (au_attempts s)
      in ((case hm_get attempts address of None \<Rightarrow> True | Some a \<Rightarrow> la_failures a < MAX_LOGIN_FAILURES),
          s\<lparr>au_attempts := attempts\<rparr>))"

text \<open>\<open>Iterator::min_by_key\<close>: the first of the least elements.\<close>

primrec min_by_key :: "('a \<Rightarrow> nat) \<Rightarrow> 'a list \<Rightarrow> 'a option" where
  "min_by_key f [] = None"
| "min_by_key f (x # xs) = (case min_by_key f xs of None \<Rightarrow> Some x | Some y \<Rightarrow> if f y < f x then Some y else Some x)"

definition evict_oldest :: "IpAddr \<Rightarrow> (IpAddr, LoginAttempt) hm \<Rightarrow> (IpAddr, LoginAttempt) hm" where
  "evict_oldest address attempts =
     (if length attempts \<ge> MAX_TRACKED_ADDRESSES \<and> \<not> hm_contains attempts address
      then (case min_by_key (\<lambda>(_, a). la_window_started a) attempts of
              None \<Rightarrow> attempts
            | Some (oldest, _) \<Rightarrow> hm_remove oldest attempts)
      else attempts)"

definition record_login_failure :: "nat \<Rightarrow> IpAddr \<Rightarrow> AuthInner \<Rightarrow> AuthInner" where
  "record_login_failure now address s =
     (let attempts = evict_oldest address (au_attempts s);
          attempt = (case hm_get attempts address of None \<Rightarrow> \<lparr>la_window_started = now, la_failures = 0\<rparr> | Some a \<Rightarrow> a);
          n = la_failures attempt
      in s\<lparr>au_attempts := hm_insert address (attempt\<lparr>la_failures := (if n = - 1 then n else n + 1)\<rparr>) attempts\<rparr>)"

definition issue_token :: "login_env \<Rightarrow> nat \<Rightarrow> AuthInner \<Rightarrow> (LoginError, AuthToken) res" where
  "issue_token env issued_at s =
     (let expires_at = min (issued_at + au_token_ttl s) (2 ^ 64 - 1)
      in case ae_encode env (au_secret s) \<lparr>cl_sub = au_username s, cl_iat = issued_at, cl_exp = expires_at\<rparr> of
           None \<Rightarrow> Inl Internal
         | Some v \<Rightarrow> Inr \<lparr>tk_value = v, tk_expires_at = expires_at\<rparr>)"

text \<open>The result of the blocking verification task.\<close>

definition verify_login :: "login_env \<Rightarrow> string \<Rightarrow> AuthInner \<Rightarrow> bool" where
  "verify_login env password s = (ae_phc env (au_password_hash s) \<and> ae_verify env password (au_password_hash s))"

text \<open>The end of \<open>login\<close>; \<open>unix\<close> is \<open>None\<close> when the clock is before the epoch.\<close>

definition finish_login ::
  "login_env \<Rightarrow> nat \<Rightarrow> nat option \<Rightarrow> bool \<Rightarrow> IpAddr \<Rightarrow> string \<Rightarrow> AuthInner \<Rightarrow> (LoginError, AuthToken) res \<times> AuthInner" where
  "finish_login env now unix verified address username s =
     (if \<not> verified \<or> username \<noteq> au_username s then (Inl InvalidCredentials, record_login_failure now address s)
      else (let s = s\<lparr>au_attempts := hm_remove address (au_attempts s)\<rparr>
            in ((case unix of None \<Rightarrow> Inl Internal | Some t \<Rightarrow> issue_token env t s), s)))"

text \<open>
  \<open>login\<close> without interruption: checked at \<open>begun\<close>, answered at \<open>now\<close>. \<open>joined\<close> tells whether the
  verification task returned.
\<close>

record login_attempt =
  lg_begun :: nat
  lg_now :: nat
  lg_unix :: "nat option"
  lg_joined :: bool
  lg_address :: IpAddr
  lg_username :: string
  lg_password :: string

definition login :: "login_env \<Rightarrow> login_attempt \<Rightarrow> AuthInner \<Rightarrow> (LoginError, AuthToken) res \<times> AuthInner" where
  "login env l s =
     (case can_attempt (lg_begun l) (lg_address l) s of
        (False, s) \<Rightarrow> (Inl RateLimited, s)
      | (True, s) \<Rightarrow>
          if \<not> lg_joined l then (Inl Internal, s)
          else finish_login env (lg_now l) (lg_unix l) (verify_login env (lg_password l) s) (lg_address l) (lg_username l) s)"

definition verify_token :: "login_env \<Rightarrow> nat \<Rightarrow> string \<Rightarrow> AuthInner \<Rightarrow> nat option" where
  "verify_token env now token s =
     (case ae_decode env now (au_secret s) token of
        None \<Rightarrow> None
      | Some c \<Rightarrow> if cl_sub c = au_username s then Some (cl_iat c) else None)"

definition refresh_token :: "login_env \<Rightarrow> nat option \<Rightarrow> nat \<Rightarrow> AuthInner \<Rightarrow> (LoginError, AuthToken option) res" where
  "refresh_token env unix issued_at s =
     (case unix of
        None \<Rightarrow> Inl Internal
      | Some now \<Rightarrow>
          if now - issued_at < TOKEN_REFRESH_INTERVAL then Inr None
          else res_bind (issue_token env now s) (\<lambda>t. Inr (Some t)))"

definition hash_password :: "login_env \<Rightarrow> bytes \<Rightarrow> string \<Rightarrow> (ControlError, string) res" where
  "hash_password env salt_bytes password =
     (if password = [] then Inl (InvalidConfig ''empty password'')
      else case ae_salt env salt_bytes of
             Inl e \<Rightarrow> Inl (InvalidConfig e)
           | Inr salt \<Rightarrow> (case ae_hash env password salt of Inl e \<Rightarrow> Inl (InvalidConfig e) | Inr h \<Rightarrow> Inr h))"

definition check_config ::
  "login_env \<Rightarrow> (ControlError, WebConfig) res \<Rightarrow> (ControlError, unit) res" where
  "check_config env loaded = res_bind loaded (\<lambda>w. res_bind (auth_new env w) (\<lambda>_. Inr ()))"

text \<open>Logins that follow one another; their results in order.\<close>

primrec logins :: "login_env \<Rightarrow> login_attempt list \<Rightarrow> AuthInner \<Rightarrow> (LoginError, AuthToken) res list" where
  "logins env [] s = []"
| "logins env (l # ls) s = (case login env l s of (r, s) \<Rightarrow> r # logins env ls s)"

section \<open>Overlapping logins\<close>

text \<open>
  Requests are served concurrently: \<open>login\<close> stops at the semaphore of the password workers and
  at the verification task, and the map of attempts is locked only inside \<open>can_attempt\<close>,
  \<open>record_failure\<close> and the removal.
\<close>

datatype auth_event =
    LoginBegin nat IpAddr string string
  | LoginWorker nat
  | LoginJoined nat bool
  | LoginFinish nat "nat option"

definition auth_turn :: "login_env \<Rightarrow> nat \<Rightarrow> auth_event \<Rightarrow> AuthInner \<Rightarrow> (nat \<times> (LoginError, AuthToken) res) option \<times> AuthInner" where
  "auth_turn env now ev s =
     (case ev of
        LoginBegin i address username password \<Rightarrow>
          if hm_contains (au_pending s) i then (None, s)
          else (case can_attempt now address s of
                  (False, s) \<Rightarrow> (Some (i, Inl RateLimited), s)
                | (True, s) \<Rightarrow>
                    (None, s\<lparr>au_pending := hm_insert i
                       \<lparr>pn_address = address, pn_username = username, pn_password = password, pn_phase = WaitingWorker\<rparr>
                       (au_pending s)\<rparr>))
      | LoginWorker i \<Rightarrow>
          (case hm_get (au_pending s) i of
             Some p \<Rightarrow>
               if pn_phase p = WaitingWorker \<and> 0 < au_workers s
               then (None, s\<lparr>au_workers := au_workers s - 1, au_pending := hm_insert i (p\<lparr>pn_phase := Verifying\<rparr>) (au_pending s)\<rparr>)
               else (None, s)
           | None \<Rightarrow> (None, s))
      | LoginJoined i joined \<Rightarrow>
          (case hm_get (au_pending s) i of
             Some p \<Rightarrow>
               if pn_phase p = Verifying
               then (let s = s\<lparr>au_workers := au_workers s + 1\<rparr>
                     in if joined
                        then (None, s\<lparr>au_pending := hm_insert i (p\<lparr>pn_phase := Verified (verify_login env (pn_password p) s)\<rparr>) (au_pending s)\<rparr>)
                        else (Some (i, Inl Internal), s\<lparr>au_pending := hm_remove i (au_pending s)\<rparr>))
               else (None, s)
           | None \<Rightarrow> (None, s))
      | LoginFinish i unix \<Rightarrow>
          (case hm_get (au_pending s) i of
             Some p \<Rightarrow>
               (case pn_phase p of
                  Verified ok \<Rightarrow>
                    (case finish_login env now unix ok (pn_address p) (pn_username p)
                            (s\<lparr>au_pending := hm_remove i (au_pending s)\<rparr>) of
                       (r, s) \<Rightarrow> (Some (i, r), s))
                | _ \<Rightarrow> (None, s))
           | None \<Rightarrow> (None, s)))"

primrec auth_run :: "login_env \<Rightarrow> (nat \<times> auth_event) list \<Rightarrow> AuthInner \<Rightarrow> (nat \<times> (LoginError, AuthToken) res) list \<times> AuthInner" where
  "auth_run env [] s = ([], s)"
| "auth_run env (e # es) s =
     (case auth_turn env (fst e) (snd e) s of
        (r, s) \<Rightarrow> (case auth_run env es s of (rs, s) \<Rightarrow> ((case r of None \<Rightarrow> rs | Some x \<Rightarrow> x # rs), s)))"

section \<open>The table of attempts\<close>

definition live :: "nat \<Rightarrow> LoginAttempt \<Rightarrow> bool" where
  "live now a = (now - la_window_started a < LOGIN_WINDOW)"

definition bump :: "nat \<Rightarrow> LoginAttempt option \<Rightarrow> LoginAttempt" where
  "bump now old =
     (let a = (case old of None \<Rightarrow> \<lparr>la_window_started = now, la_failures = 0\<rparr> | Some a \<Rightarrow> a)
      in a\<lparr>la_failures := (if la_failures a = - 1 then - 1 else la_failures a + 1)\<rparr>)"

definition current_attempt :: "nat \<Rightarrow> AuthInner \<Rightarrow> IpAddr \<Rightarrow> LoginAttempt option" where
  "current_attempt now s a = (case hm_get (au_attempts s) a of Some x \<Rightarrow> if live now x then Some x else None | None \<Rightarrow> None)"

lemma can_attempt_get:
  assumes "hm_wf (au_attempts s)" "can_attempt now address s = (b, s')"
  shows "hm_wf (au_attempts s') \<and> length (au_attempts s') \<le> length (au_attempts s)
    \<and> hm_get (au_attempts s') = current_attempt now s
    \<and> b = (case current_attempt now s address of None \<Rightarrow> True | Some a \<Rightarrow> la_failures a < MAX_LOGIN_FAILURES)
    \<and> s' = s\<lparr>au_attempts := au_attempts s'\<rparr>"
proof -
  let ?m = "hm_retain (\<lambda>_ a. now - la_window_started a < LOGIN_WINDOW) (au_attempts s)"
  have "hm_get ?m = current_attempt now s"
    using assms(1) by (auto simp: hm_get_retain current_attempt_def live_def fun_eq_iff split: option.split)
  with assms hm_length_retain_le[of "\<lambda>_ a. now - la_window_started a < LOGIN_WINDOW" "au_attempts s"] show ?thesis
    by (auto simp: can_attempt_def Let_def hm_wf_retain)
qed

lemma min_by_key_in: "min_by_key f xs = Some x \<Longrightarrow> x \<in> set xs"
  by (induction xs arbitrary: x) (auto split: option.splits if_splits)

lemma min_by_key_None: "min_by_key f xs = None \<longleftrightarrow> xs = []"
  by (cases xs) (auto split: option.split)

lemma hm_length_remove: "hm_wf m \<Longrightarrow> hm_get m k \<noteq> None \<Longrightarrow> length (hm_remove k m) = length m - 1"
  by (metis hm.size_remove)

lemma evict_bound:
  assumes "hm_wf m" "length m \<le> MAX_TRACKED_ADDRESSES"
  shows "hm_wf (evict_oldest a m)
    \<and> (if hm_contains m a then evict_oldest a m = m else length (evict_oldest a m) < MAX_TRACKED_ADDRESSES \<and> hm_get (evict_oldest a m) a = None)"
proof (cases "length m \<ge> MAX_TRACKED_ADDRESSES \<and> \<not> hm_contains m a")
  case True
  then have "m \<noteq> []" by (auto simp: MAX_TRACKED_ADDRESSES_def)
  then obtain k v where kv: "min_by_key (\<lambda>(_, a). la_window_started a) m = Some (k, v)"
    by (cases "min_by_key (\<lambda>(_, a). la_window_started a) m") (auto simp: min_by_key_None)
  then have "hm_get m k \<noteq> None" using min_by_key_in[OF kv] assms(1) by (simp add: hm_in_set_iff)
  with True kv assms show ?thesis
    by (auto simp: evict_oldest_def hm_wf_remove hm_length_remove hm_get_remove hm_contains_iff MAX_TRACKED_ADDRESSES_def)
next
  case False
  with assms show ?thesis by (auto simp: evict_oldest_def hm_contains_iff)
qed

lemma record_failure_inv:
  assumes "hm_wf (au_attempts s)" "length (au_attempts s) \<le> MAX_TRACKED_ADDRESSES"
  shows "hm_wf (au_attempts (record_login_failure now a s)) \<and> length (au_attempts (record_login_failure now a s)) \<le> MAX_TRACKED_ADDRESSES
    \<and> hm_get (au_attempts (record_login_failure now a s)) a = Some (bump now (hm_get (au_attempts s) a))"
proof -
  note E = evict_bound[OF assms, of a]
  then have get: "hm_get (evict_oldest a (au_attempts s)) a = hm_get (au_attempts s) a"
    by (auto simp: hm_contains_iff split: if_splits)
  have "length (hm_insert a v (evict_oldest a (au_attempts s))) \<le> MAX_TRACKED_ADDRESSES" for v
    using E assms(2) hm.size_insert[of "evict_oldest a (au_attempts s)" a v] by (auto simp: hm_contains_iff split: if_splits)
  with E get show ?thesis
    by (simp add: record_login_failure_def Let_def bump_def hm_wf_insert hm_get_insert)
qed

lemma record_failure_no_eviction:
  assumes "hm_wf (au_attempts s)" "fst ` set (au_attempts s) \<subseteq> A" "finite A" "card A \<le> MAX_TRACKED_ADDRESSES" "a \<in> A"
  shows "hm_get (au_attempts (record_login_failure now a s)) = (hm_get (au_attempts s))(a \<mapsto> bump now (hm_get (au_attempts s) a))
    \<and> hm_wf (au_attempts (record_login_failure now a s)) \<and> fst ` set (au_attempts (record_login_failure now a s)) \<subseteq> A"
proof -
  have "hm_contains (au_attempts s) a" if full: "length (au_attempts s) \<ge> MAX_TRACKED_ADDRESSES"
  proof -
    have "card (fst ` set (au_attempts s)) = length (au_attempts s)"
      using assms(1) by (metis distinct_card hm_wf_def length_map set_map)
    with full assms(4) have "card (fst ` set (au_attempts s)) \<ge> card A" by simp
    then have "fst ` set (au_attempts s) = A" using assms(2,3) by (metis card_seteq)
    with assms(5) show ?thesis by (auto simp: hm_contains_iff hm_get_None_iff)
  qed
  then have "evict_oldest a (au_attempts s) = au_attempts s" by (auto simp: evict_oldest_def)
  with assms show ?thesis
    by (auto simp: record_login_failure_def Let_def bump_def hm_wf_insert hm_get_insert set_hm_insert_keys fun_eq_iff)
qed

section \<open>The rate of wrong guesses\<close>

definition purged :: "nat \<Rightarrow> LoginAttempt option \<Rightarrow> LoginAttempt option" where
  "purged now e = (case e of Some x \<Rightarrow> if live now x then Some x else None | None \<Rightarrow> None)"

lemma current_attempt_purged: "current_attempt now s a = purged now (hm_get (au_attempts s) a)"
  by (simp add: current_attempt_def purged_def)

definition wrong_guess :: "login_env \<Rightarrow> AuthInner \<Rightarrow> login_attempt \<Rightarrow> bool" where
  "wrong_guess env s l = (\<not> verify_login env (lg_password l) s \<or> lg_username l \<noteq> au_username s)"

text \<open>What a wrong guess at \<open>l\<close> does to the record \<open>e\<close> of its own address.\<close>

definition guess_entry :: "login_attempt \<Rightarrow> LoginAttempt option \<Rightarrow> LoginError \<times> LoginAttempt option" where
  "guess_entry l e =
     (let cur = purged (lg_begun l) e
      in if \<not> (case cur of None \<Rightarrow> True | Some x \<Rightarrow> la_failures x < MAX_LOGIN_FAILURES) then (RateLimited, cur)
         else if \<not> lg_joined l then (Internal, cur)
         else (InvalidCredentials, Some (bump (lg_now l) cur)))"

text \<open>The table while at most \<open>MAX_TRACKED_ADDRESSES\<close> addresses, those of \<open>A\<close>, try to log in.\<close>

definition small_table :: "IpAddr set \<Rightarrow> AuthInner \<Rightarrow> bool" where
  "small_table A s = (hm_wf (au_attempts s) \<and> dom (hm_get (au_attempts s)) \<subseteq> A \<and> finite A \<and> card A \<le> MAX_TRACKED_ADDRESSES)"

lemma small_table_can:
  assumes "small_table A s" "can_attempt now a s = (b, s')"
  shows "small_table A s'"
proof -
  note C = can_attempt_get[OF _ assms(2)]
  have wf: "hm_wf (au_attempts s)" using assms(1) by (simp add: small_table_def)
  have "dom (hm_get (au_attempts s')) \<subseteq> dom (hm_get (au_attempts s))"
    using C[OF wf] by (auto simp: current_attempt_def split: option.splits if_splits)
  with C[OF wf] assms(1) show ?thesis by (simp add: small_table_def) (meson subset_trans)
qed

lemma login_entries:
  assumes small: "small_table A s" and a: "lg_address l \<in> A" and step: "login env l s = (r, s')"
  shows "small_table A s' \<and> au_username s' = au_username s \<and> au_password_hash s' = au_password_hash s
    \<and> (a \<noteq> lg_address l \<longrightarrow> hm_get (au_attempts s') a = purged (lg_begun l) (hm_get (au_attempts s) a))
    \<and> (a = lg_address l \<and> wrong_guess env s l \<longrightarrow>
         (r = Inl (fst (guess_entry l (hm_get (au_attempts s) a))) \<and> hm_get (au_attempts s') a = snd (guess_entry l (hm_get (au_attempts s) a))))"
proof -
  obtain b s1 where c: "can_attempt (lg_begun l) (lg_address l) s = (b, s1)" by fastforce
  have wf: "hm_wf (au_attempts s)" using small by (simp add: small_table_def)
  note C = can_attempt_get[OF wf c]
  have sm: "small_table A s1" using small_table_can[OF small c] .
  have s1: "au_username s1 = au_username s" "au_password_hash s1 = au_password_hash s"
    using C by (metis (no_types, lifting) AuthInner.select_convs(1,2) AuthInner.surjective AuthInner.update_convs(6))+
  have get: "hm_get (au_attempts s1) x = purged (lg_begun l) (hm_get (au_attempts s) x)" for x
    using C by (simp add: current_attempt_purged)
  have b: "b = (case purged (lg_begun l) (hm_get (au_attempts s) (lg_address l)) of None \<Rightarrow> True | Some x \<Rightarrow> la_failures x < MAX_LOGIN_FAILURES)"
    using C by (simp add: current_attempt_purged)
  have rec: "hm_get (au_attempts (record_login_failure now (lg_address l) s1)) =
        (hm_get (au_attempts s1))(lg_address l \<mapsto> bump now (hm_get (au_attempts s1) (lg_address l)))
      \<and> small_table A (record_login_failure now (lg_address l) s1)" for now
    using record_failure_no_eviction[of s1 A "lg_address l" now] sm a by (auto simp: small_table_def dom_hm_get)
  have same: "verify_login env p s1 = verify_login env p s" for p by (simp add: verify_login_def s1)
  have fields: "au_username (record_login_failure now x t) = au_username t" "au_password_hash (record_login_failure now x t) = au_password_hash t" for now x t
    by (simp_all add: record_login_failure_def Let_def)
  have rem: "small_table A (s1\<lparr>au_attempts := hm_remove x (au_attempts s1)\<rparr>)" for x
    using sm by (auto simp: small_table_def hm_wf_remove hm.dom_remove)
  consider "\<not> b" | "b" "\<not> lg_joined l" | "b" "lg_joined l" "wrong_guess env s l" | "b" "lg_joined l" "\<not> wrong_guess env s l" by blast
  then show ?thesis
  proof cases
    case 1
    with step c sm s1 get b show ?thesis by (auto simp: login_def guess_entry_def)
  next
    case 2
    with step c sm s1 get b show ?thesis by (auto simp: login_def guess_entry_def)
  next
    case 3
    then have "r = Inl InvalidCredentials" "s' = record_login_failure (lg_now l) (lg_address l) s1"
      using step c s1 same by (auto simp: login_def finish_login_def wrong_guess_def)
    with 3 rec[of "lg_now l"] fields s1 get b show ?thesis by (auto simp: guess_entry_def Let_def)
  next
    case 4
    then have "s' = s1\<lparr>au_attempts := hm_remove (lg_address l) (au_attempts s1)\<rparr>"
      using step c s1 same by (auto simp: login_def finish_login_def wrong_guess_def Let_def)
    with 4 rem s1 get show ?thesis by (auto simp: hm_get_remove)
  qed
qed

text \<open>
  How many wrong guesses may still be checked between \<open>lo\<close> and the end of a window length, when
  the record is \<open>e\<close> and the next login begins at \<open>t\<close> or later.
\<close>

definition guess_budget :: "nat \<Rightarrow> nat \<Rightarrow> LoginAttempt option \<Rightarrow> nat" where
  "guess_budget lo t e =
     (case e of
        None \<Rightarrow> if lo \<le> t then 5 else 10
      | Some x \<Rightarrow> if lo \<le> la_window_started x then 5 - unat (la_failures x)
                  else if lo < la_window_started x + LOGIN_WINDOW then 10 - unat (la_failures x) else 10)"

definition few_failures :: "LoginAttempt option \<Rightarrow> bool" where
  "few_failures e = (case e of None \<Rightarrow> True | Some x \<Rightarrow> unat (la_failures x) \<le> 5)"

lemma few_purged [simp]: "few_failures e \<Longrightarrow> few_failures (purged t e)"
  by (simp add: few_failures_def purged_def split: option.splits)

lemma budget_purged:
  assumes "few_failures e" "t \<le> t'" "t' < lo + LOGIN_WINDOW"
  shows "guess_budget lo t' (purged t' e) \<le> guess_budget lo t e"
proof (cases e)
  case None
  then show ?thesis using assms(2) by (simp add: purged_def guess_budget_def)
next
  case (Some x)
  with assms show ?thesis by (auto simp: purged_def guess_budget_def live_def few_failures_def LOGIN_WINDOW_def)
qed

lemma budget_guess:
  assumes few: "few_failures e" and times: "lg_begun l \<le> lg_now l"
    and g: "guess_entry l e = (r, e')"
  shows "few_failures e' \<and> guess_budget lo (lg_begun l) e' + (if r = InvalidCredentials \<and> lo \<le> lg_begun l then 1 else 0)
      \<le> guess_budget lo (lg_begun l) (purged (lg_begun l) e)"
proof -
  let ?cur = "purged (lg_begun l) e"
  consider "e' = ?cur" "r \<noteq> InvalidCredentials" | "?cur = None" "r = InvalidCredentials" "e' = Some (bump (lg_now l) None)"
    | x where "?cur = Some x" "la_failures x < 5" "e' = Some (bump (lg_now l) (Some x))"
    using g by (auto simp: guess_entry_def Let_def MAX_LOGIN_FAILURES_def split: if_splits option.splits)
  then show ?thesis
  proof cases
    case 1
    with few show ?thesis by simp
  next
    case 2
    with times show ?thesis by (auto simp: few_failures_def bump_def guess_budget_def)
  next
    case (3 x)
    from 3(2) have lt: "unat (la_failures x) < 5" by (simp add: word_less_nat_alt)
    have "unat (- 1 :: u8) = 255" by code_simp
    with lt have ne: "la_failures x \<noteq> - 1" by auto
    have "1 + la_failures x \<noteq> 0" using ne by (metis add.commute add_eq_0_iff)
    then have succ: "unat (la_failures x + 1) = unat (la_failures x) + 1" by (simp add: unatSuc add.commute)
    have "live (lg_begun l) x" using 3(1) by (auto simp: purged_def split: option.splits if_splits)
    with 3 lt ne succ show ?thesis
      by (auto simp: few_failures_def bump_def guess_budget_def live_def)
  qed
qed

text \<open>The logins of \<open>ls\<close> from \<open>a\<close>, begun between \<open>lo\<close> and a window length later, whose password was checked and refused.\<close>

definition wrong_checks :: "IpAddr \<Rightarrow> nat \<Rightarrow> login_attempt list \<Rightarrow> (LoginError, AuthToken) res list \<Rightarrow> nat" where
  "wrong_checks a lo ls rs =
     length (filter (\<lambda>(l, r). lg_address l = a \<and> lo \<le> lg_begun l \<and> lg_begun l < lo + LOGIN_WINDOW \<and> r = Inl InvalidCredentials) (zip ls rs))"

text \<open>One login ends before the next begins.\<close>

fun in_turn :: "nat \<Rightarrow> login_attempt list \<Rightarrow> bool" where
  "in_turn t [] = True"
| "in_turn t (l # ls) = (t \<le> lg_begun l \<and> lg_begun l \<le> lg_now l \<and> in_turn (lg_now l) ls)"

lemma in_turn_mono: "in_turn t ls \<Longrightarrow> t' \<le> t \<Longrightarrow> in_turn t' ls"
  by (cases ls) auto

lemma no_checks_later: "in_turn t ls \<Longrightarrow> lo + LOGIN_WINDOW \<le> t \<Longrightarrow> wrong_checks a lo ls rs = 0"
proof (induction ls arbitrary: t rs)
  case (Cons l ls)
  have "wrong_checks a lo ls rs' = 0" for rs' using Cons.IH[of "lg_now l" rs'] Cons.prems by simp
  with Cons.prems show ?case by (cases rs) (auto simp: wrong_checks_def)
qed (simp add: wrong_checks_def)

lemma guesses_bound:
  assumes "small_table A s" "list_all (\<lambda>l. lg_address l \<in> A \<and> (lg_address l = a \<longrightarrow> wrong_guess env s l)) ls" "in_turn t ls"
    and "few_failures (hm_get (au_attempts s) a)"
  shows "wrong_checks a lo ls (logins env ls s) \<le> guess_budget lo t (hm_get (au_attempts s) a)"
  using assms
proof (induction ls arbitrary: s t)
  case (Cons l ls)
  obtain r s' where step: "login env l s = (r, s')" by fastforce
  note E = login_entries[OF Cons.prems(1) _ step, of a]
  let ?e = "hm_get (au_attempts s) a" and ?e' = "hm_get (au_attempts s') a"
  show ?case
  proof (cases "lo + LOGIN_WINDOW \<le> lg_begun l")
    case True
    then have "in_turn (lg_begun l) (l # ls)" using Cons.prems(3) by simp
    from no_checks_later[OF this True] show ?thesis by simp
  next
    case False
    have A: "lg_address l \<in> A" using Cons.prems(2) by simp
    have user: "wrong_guess env s' x = wrong_guess env s x" for x
      using E[OF A] by (simp add: wrong_guess_def verify_login_def)
    have few: "few_failures ?e'" and budget: "guess_budget lo (lg_begun l) ?e' +
        (if lg_address l = a \<and> r = Inl InvalidCredentials \<and> lo \<le> lg_begun l then 1 else 0) \<le> guess_budget lo t ?e"
    proof -
      have p: "guess_budget lo (lg_begun l) (purged (lg_begun l) ?e) \<le> guess_budget lo t ?e"
        using budget_purged[of ?e t "lg_begun l" lo] Cons.prems False by simp
      have "few_failures ?e' \<and> guess_budget lo (lg_begun l) ?e' +
        (if lg_address l = a \<and> r = Inl InvalidCredentials \<and> lo \<le> lg_begun l then 1 else 0) \<le> guess_budget lo t ?e"
      proof (cases "lg_address l = a")
        case True
        with E[OF A] Cons.prems(2) have "guess_entry l ?e = (fst (guess_entry l ?e), ?e')" "r = Inl (fst (guess_entry l ?e))" by simp_all
        with budget_guess[OF Cons.prems(4) _ this(1), of lo] Cons.prems(3) p show ?thesis by (auto split: if_splits)
      next
        case other: False
        with E[OF A] p Cons.prems(4) show ?thesis by simp
      qed
      then show "few_failures ?e'" "guess_budget lo (lg_begun l) ?e' +
        (if lg_address l = a \<and> r = Inl InvalidCredentials \<and> lo \<le> lg_begun l then 1 else 0) \<le> guess_budget lo t ?e" by simp_all
    qed
    have turn: "in_turn (lg_begun l) ls" using Cons.prems(3) in_turn_mono[of "lg_now l" ls "lg_begun l"] by simp
    have "wrong_checks a lo ls (logins env ls s') \<le> guess_budget lo (lg_begun l) ?e'"
      using Cons.IH[OF _ _ turn few] E[OF A] Cons.prems(2) user by simp
    moreover have "wrong_checks a lo (l # ls) (logins env (l # ls) s) =
        wrong_checks a lo ls (logins env ls s') + (if lg_address l = a \<and> r = Inl InvalidCredentials \<and> lo \<le> lg_begun l then 1 else 0)"
      using step False by (simp add: wrong_checks_def)
    ultimately show ?thesis using budget by simp
  qed
qed (simp add: wrong_checks_def)


text \<open>A signature-free token: both times in unary, then the subject.\<close>

definition sample_encode :: "Claims \<Rightarrow> string" where
  "sample_encode c = replicate (cl_iat c) CHR ''1'' @ ''.'' @ replicate (cl_exp c) CHR ''1'' @ ''.'' @ cl_sub c"

definition sample_decode :: "string \<Rightarrow> Claims" where
  "sample_decode v =
     (let count = (\<lambda>s. length (takeWhile (\<lambda>c. c = CHR ''1'') s)); rest = drop (Suc (count v)) v
      in \<lparr>cl_sub = drop (Suc (count rest)) rest, cl_iat = count v, cl_exp = count rest\<rparr>)"

lemma sample_decode_encode [simp]: "sample_decode (sample_encode c) = c"
proof -
  have count: "length (takeWhile (\<lambda>c. c = CHR ''1'') (replicate n CHR ''1'' @ ''.'' @ xs)) = n" for n xs
    by (induction n) auto
  have rest: "drop (Suc n) (replicate n CHR ''1'' @ ''.'' @ xs) = xs" for n xs by (induction n) auto
  show ?thesis unfolding sample_decode_def sample_encode_def Let_def count rest by simp
qed

definition sample_login_env :: login_env where
  "sample_login_env =
     \<lparr>ae_phc = (\<lambda>h. h \<noteq> []), ae_verify = (\<lambda>p h. h = ''$'' @ p), ae_salt = (\<lambda>_. Inr ''salt''), ae_hash = (\<lambda>p _. Inr (''$'' @ p)),
      ae_encode = (\<lambda>k c. Some (sample_encode c)),
      ae_decode = (\<lambda>now k v. if now \<le> cl_exp (sample_decode v) then Some (sample_decode v) else None)\<rparr>"

definition sample_web :: WebConfig where
  "sample_web =
     \<lparr>wc_bind = SocketAddrV4 0x7f000001 8080, wc_static_dir = None, wc_admin_username = ''admin'', wc_admin_password_hash = ''$correct'',
      wc_jwt_secret = ''0123456789abcdef0123456789abcdef'', wc_token_ttl_seconds = 259200, wc_allowed_origins = []\<rparr>"

definition sample_auth :: AuthInner where
  "sample_auth =
     \<lparr>au_username = ''admin'', au_password_hash = ''$correct'', au_secret = ''0123456789abcdef0123456789abcdef'',
      au_token_ttl = 259200, au_workers = 2, au_attempts = [], au_pending = []\<rparr>"

lemma sample_auth_new: "auth_new sample_login_env sample_web = Inr sample_auth"
  by (simp add: auth_new_def sample_login_env_def sample_web_def sample_auth_def PASSWORD_WORKERS_def)

definition sample_guess :: login_attempt where
  "sample_guess =
     \<lparr>lg_begun = 7, lg_now = 7, lg_unix = Some 1000, lg_joined = True, lg_address = V4 1, lg_username = ''admin'', lg_password = ''wrong''\<rparr>"


section \<open>Tokens\<close>

lemma issued_token_verifies:
  assumes law: "\<And>c v now. ae_encode env (au_secret s) c = Some v \<Longrightarrow> now \<le> cl_exp c \<Longrightarrow> ae_decode env now (au_secret s) v = Some c"
    and "issue_token env t s = Inr tk" "now \<le> tk_expires_at tk"
  shows "verify_token env now (tk_value tk) s = Some t \<and> tk_expires_at tk = min (t + au_token_ttl s) (2 ^ 64 - 1)"
  using assms(2,3) law[of "\<lparr>cl_sub = au_username s, cl_iat = t, cl_exp = min (t + au_token_ttl s) (2 ^ 64 - 1)\<rparr>" "tk_value tk" now]
  by (auto simp: issue_token_def verify_token_def Let_def split: option.splits)

lemma attempts_irrelevant [simp]:
  "issue_token env t (s\<lparr>au_attempts := x\<rparr>) = issue_token env t s" "verify_login env q (s\<lparr>au_attempts := x\<rparr>) = verify_login env q s"
  "verify_token env now v (s\<lparr>au_attempts := x\<rparr>) = verify_token env now v s"
  by (simp_all add: issue_token_def verify_login_def verify_token_def split: option.split)

text \<open>
  The outcome of a login on every branch. It is refused unchecked exactly when its address has
  five failures in its current window; else it fails exactly for a wrong user name or password,
  which is counted for the address; a token is only given for the right ones, the failures of
  the address are forgotten, the token expires after the configured time and is accepted as this
  session's until then. The table of addresses never grows beyond its limit. The token library is
  assumed to decode what it signed until it expires.
\<close>

theorem login_outcome:
  assumes "hm_wf (au_attempts s)" "length (au_attempts s) \<le> MAX_TRACKED_ADDRESSES" "login env l s = (r, s')"
    and "\<And>c v now. ae_encode env (au_secret s) c = Some v \<Longrightarrow> now \<le> cl_exp c \<Longrightarrow> ae_decode env now (au_secret s) v = Some c"
  shows "let cur = current_attempt (lg_begun l) s (lg_address l);
             limited = (case cur of None \<Rightarrow> False | Some x \<Rightarrow> MAX_LOGIN_FAILURES \<le> la_failures x)
         in hm_wf (au_attempts s') \<and> length (au_attempts s') \<le> MAX_TRACKED_ADDRESSES
            \<and> (r = Inl RateLimited \<longleftrightarrow> limited)
            \<and> (r = Inl InvalidCredentials \<longleftrightarrow> \<not> limited \<and> lg_joined l \<and> wrong_guess env s l)
            \<and> (case r of
                 Inl InvalidCredentials \<Rightarrow> hm_get (au_attempts s') (lg_address l) = Some (bump (lg_now l) cur)
               | Inl _ \<Rightarrow> True
               | Inr tk \<Rightarrow> \<not> wrong_guess env s l \<and> hm_get (au_attempts s') (lg_address l) = None
                   \<and> (\<exists>t. lg_unix l = Some t \<and> tk_expires_at tk = min (t + au_token_ttl s) (2 ^ 64 - 1)
                        \<and> (\<forall>now. now \<le> tk_expires_at tk \<longrightarrow> verify_token env now (tk_value tk) s' = Some t)))"
proof -
  obtain b s1 where c: "can_attempt (lg_begun l) (lg_address l) s = (b, s1)" by fastforce
  note C = can_attempt_get[OF assms(1) c]
  let ?cur = "current_attempt (lg_begun l) s (lg_address l)"
  obtain m where m: "s1 = s\<lparr>au_attempts := m\<rparr>" using C by blast
  have len: "length m \<le> MAX_TRACKED_ADDRESSES" using C assms(2) by (simp add: m)
  have b: "b \<longleftrightarrow> \<not> (case ?cur of None \<Rightarrow> False | Some x \<Rightarrow> MAX_LOGIN_FAILURES \<le> la_failures x)"
    using C by (auto split: option.split)
  note R = record_failure_inv[of s1 "lg_now l" "lg_address l"]
  consider "\<not> b" | "b" "\<not> lg_joined l" | "b" "lg_joined l" "wrong_guess env s l" | "b" "lg_joined l" "\<not> wrong_guess env s l" by blast
  then show ?thesis
  proof cases
    case 1
    with assms(3) c C len b m show ?thesis by (auto simp: login_def Let_def)
  next
    case 2
    with assms(3) c C len b m show ?thesis by (auto simp: login_def Let_def)
  next
    case 3
    then have "r = Inl InvalidCredentials" "s' = record_login_failure (lg_now l) (lg_address l) s1"
      using assms(3) c by (auto simp: login_def finish_login_def wrong_guess_def m)
    with 3 R C len b show ?thesis by (simp add: m Let_def)
  next
    case 4
    then have s': "s' = s\<lparr>au_attempts := hm_remove (lg_address l) m\<rparr>"
      and r: "r = (case lg_unix l of None \<Rightarrow> Inl Internal | Some t \<Rightarrow> issue_token env t s)"
      using assms(3) c by (auto simp: login_def finish_login_def wrong_guess_def m Let_def split: option.split)
    have size: "length (hm_remove (lg_address l) m) \<le> MAX_TRACKED_ADDRESSES" using hm_length_remove_le[of "lg_address l" m] len by simp
    have wf: "hm_wf (hm_remove (lg_address l) m)" using C by (simp add: m hm_wf_remove)
    have "r = Inl Internal \<or> (\<exists>t tk. lg_unix l = Some t \<and> issue_token env t s = Inr tk \<and> r = Inr tk)"
      by (auto simp: r issue_token_def Let_def split: option.splits)
    then show ?thesis
    proof
      assume "r = Inl Internal"
      with 4 b s' size wf show ?thesis by (simp add: Let_def)
    next
      assume "\<exists>t tk. lg_unix l = Some t \<and> issue_token env t s = Inr tk \<and> r = Inr tk"
      then obtain t tk where tk: "lg_unix l = Some t" "issue_token env t s = Inr tk" "r = Inr tk" by blast
      have "verify_token env now (tk_value tk) s = Some t" if "now \<le> tk_expires_at tk" for now
        using issued_token_verifies[OF assms(4) tk(2) that] by blast
      moreover have "tk_expires_at tk = min (t + au_token_ttl s) (2 ^ 64 - 1)"
        using tk(2) by (auto simp: issue_token_def Let_def split: option.splits)
      ultimately show ?thesis using 4 b s' size wf tk by (simp add: Let_def hm_get_remove)
    qed
  qed
qed

theorem login_outcome_witness:
  "\<exists>tk s'. login sample_login_env (sample_guess\<lparr>lg_password := ''correct''\<rparr>) sample_auth = (Inr tk, s')
     \<and> length (au_attempts s') \<le> MAX_TRACKED_ADDRESSES \<and> verify_token sample_login_env 5000 (tk_value tk) s' = Some 1000"
proof -
  let ?l = "sample_guess\<lparr>lg_password := ''correct''\<rparr>"
  obtain r s' where step: "login sample_login_env ?l sample_auth = (r, s')" by fastforce
  then obtain tk where tk: "r = Inr tk"
    by (auto simp: login_def can_attempt_def finish_login_def verify_login_def issue_token_def sample_login_env_def sample_guess_def
        sample_auth_def Let_def hm_retain_def)
  have "ae_decode sample_login_env now (au_secret sample_auth) v = Some c"
    if "ae_encode sample_login_env (au_secret sample_auth) c = Some v" "now \<le> cl_exp c" for c v now
    using that by (auto simp: sample_login_env_def)
  moreover have "hm_wf (au_attempts sample_auth)" "length (au_attempts sample_auth) \<le> MAX_TRACKED_ADDRESSES"
    by (simp_all add: sample_auth_def)
  ultimately have "length (au_attempts s') \<le> MAX_TRACKED_ADDRESSES
      \<and> (\<exists>t. lg_unix ?l = Some t \<and> tk_expires_at tk = min (t + au_token_ttl sample_auth) (2 ^ 64 - 1)
         \<and> (\<forall>now. now \<le> tk_expires_at tk \<longrightarrow> verify_token sample_login_env now (tk_value tk) s' = Some t))"
    using login_outcome[OF _ _ step] by (auto simp: tk Let_def)
  moreover have "lg_unix ?l = Some 1000" "au_token_ttl sample_auth = 259200" by (simp_all add: sample_guess_def sample_auth_def)
  ultimately show ?thesis using step tk by auto
qed

section \<open>Overlapping logins defeat the limit\<close>

lemma auth_run_append:
  "auth_run env (es @ fs) s = (case auth_run env es s of (rs, s1) \<Rightarrow> case auth_run env fs s1 of (rs', s2) \<Rightarrow> (rs @ rs', s2))"
  by (induction es arbitrary: s) (auto split: prod.split option.split)

definition begin_all :: "IpAddr \<Rightarrow> string \<Rightarrow> (nat \<times> string) list \<Rightarrow> (nat \<times> auth_event) list" where
  "begin_all a user guesses = map (\<lambda>(i, g). (0, LoginBegin i a user g)) guesses"

definition finish_one :: "nat \<Rightarrow> (nat \<times> auth_event) list" where
  "finish_one i = [(0, LoginWorker i), (0, LoginJoined i True), (0, LoginFinish i None)]"

definition begun :: "IpAddr \<Rightarrow> string \<Rightarrow> string \<Rightarrow> pending_login" where
  "begun a user g = \<lparr>pn_address = a, pn_username = user, pn_password = g, pn_phase = WaitingWorker\<rparr>"

lemma begin_all_run:
  assumes "au_attempts s = []" "distinct (map fst guesses)" "\<forall>i \<in> fst ` set guesses. hm_get (au_pending s) i = None"
  shows "\<exists>m. auth_run env (begin_all a user guesses) s = ([], s\<lparr>au_pending := m\<rparr>)
    \<and> (\<forall>i. hm_get m i = (case map_of guesses i of Some g \<Rightarrow> Some (begun a user g) | None \<Rightarrow> hm_get (au_pending s) i))"
  using assms
proof (induction guesses arbitrary: s)
  case Nil
  then show ?case by (auto simp: begin_all_def intro!: exI[of _ "au_pending s"])
next
  case (Cons x guesses)
  obtain i g where x: "x = (i, g)" by fastforce
  let ?s = "s\<lparr>au_pending := hm_insert i (begun a user g) (au_pending s)\<rparr>"
  have "auth_turn env 0 (LoginBegin i a user g) s = (None, ?s)"
    using Cons.prems x by (auto simp: auth_turn_def can_attempt_def hm_retain_def hm_contains_iff begun_def Let_def)
  moreover obtain m where "auth_run env (begin_all a user guesses) ?s = ([], ?s\<lparr>au_pending := m\<rparr>)"
    "\<forall>k. hm_get m k = (case map_of guesses k of Some g \<Rightarrow> Some (begun a user g) | None \<Rightarrow> hm_get (au_pending ?s) k)"
  proof -
    have "\<forall>k \<in> fst ` set guesses. hm_get (au_pending ?s) k = None" using Cons.prems x by (auto simp: hm_get_insert)
    with Cons.IH[of ?s] Cons.prems x that show thesis by auto
  qed
  moreover have "map_of guesses i = None" using Cons.prems(2) x by (auto simp: map_of_eq_None_iff)
  ultimately show ?case
    by (intro exI[of _ m]) (auto simp: begin_all_def x hm_get_insert split: option.splits)
qed

lemma finish_one_run:
  assumes "hm_get (au_pending s) i = Some (begun a user g)" "0 < au_workers s" "\<not> verify_login env g s"
  shows "\<exists>s'. auth_run env (finish_one i) s = ([(i, Inl InvalidCredentials)], s')
    \<and> hm_get (au_pending s') = (hm_get (au_pending s))(i := None) \<and> au_workers s' = au_workers s
    \<and> au_password_hash s' = au_password_hash s"
  using assms
  by (auto simp: finish_one_def auth_turn_def begun_def finish_login_def verify_login_def record_login_failure_def hm_get_insert hm_get_remove
      Let_def fun_eq_iff)

lemma finish_all_run:
  assumes "distinct (map fst guesses)" "\<forall>(i, g) \<in> set guesses. hm_get (au_pending s) i = Some (begun a user g) \<and> \<not> verify_login env g s"
    and "0 < au_workers s"
  shows "\<exists>s'. auth_run env (concat (map (finish_one \<circ> fst) guesses)) s = (map (\<lambda>(i, _). (i, Inl InvalidCredentials)) guesses, s')"
  using assms
proof (induction guesses arbitrary: s)
  case (Cons x guesses)
  obtain i g where x: "x = (i, g)" by fastforce
  then obtain s1 where s1: "auth_run env (finish_one i) s = ([(i, Inl InvalidCredentials)], s1)"
    "hm_get (au_pending s1) = (hm_get (au_pending s))(i := None)" "au_workers s1 = au_workers s" "au_password_hash s1 = au_password_hash s"
    using finish_one_run[of s i a user g env] Cons.prems by auto
  have "verify_login env h s1 = verify_login env h s" for h by (simp add: verify_login_def s1(4))
  moreover have "i \<notin> fst ` set guesses" using Cons.prems(1) x by simp
  ultimately have "\<forall>(k, h) \<in> set guesses. hm_get (au_pending s1) k = Some (begun a user h) \<and> \<not> verify_login env h s1"
    using Cons.prems(2) x s1(2) by force
  with Cons.IH[of s1] Cons.prems s1(1,3) x show ?case by (auto simp: auth_run_append)
qed simp

text \<open>
  The limit of five failures only holds for logins that do not overlap: \<open>can_attempt\<close> looks at the
  table before the password is checked and the failure is recorded after it. Any number of guesses
  sent at once from one address are all checked, at the same instant.
\<close>

lemma parallel_guesses_all_checked:
  assumes "auth_new env w = Inr s" "distinct (map fst guesses)" "\<forall>(i, g) \<in> set guesses. \<not> verify_login env g s"
  shows "fst (auth_run env (begin_all a user guesses @ concat (map (finish_one \<circ> fst) guesses)) s)
    = map (\<lambda>(i, _). (i, Inl InvalidCredentials)) guesses"
proof -
  have s: "au_attempts s = []" "au_pending s = []" "0 < au_workers s"
    using assms(1) by (auto simp: auth_new_def PASSWORD_WORKERS_def split: if_splits)
  obtain m where m: "auth_run env (begin_all a user guesses) s = ([], s\<lparr>au_pending := m\<rparr>)"
    "\<forall>i. hm_get m i = (case map_of guesses i of Some g \<Rightarrow> Some (begun a user g) | None \<Rightarrow> hm_get (au_pending s) i)"
    using begin_all_run[of s guesses env a user] s assms(2) by auto
  have "\<forall>(i, g) \<in> set guesses. hm_get (au_pending (s\<lparr>au_pending := m\<rparr>)) i = Some (begun a user g) \<and> \<not> verify_login env g (s\<lparr>au_pending := m\<rparr>)"
    using m(2) assms(2,3) by (auto simp: verify_login_def map_of_is_SomeI)
  from finish_all_run[OF assms(2) this] s(3) m(1) show ?thesis by (auto simp: auth_run_append)
qed

end
