(* ===== verification/Config_Store.thy ===== *)
theory Config_Store
  imports Protocol Certificate_Manager Control_Auth
begin

text \<open>
  \<open>gaterust-control/src/store.rs\<close> and \<open>gaterust-proxy/src/api_model.rs\<close>: the store behind the web
  console. Every change reads the configuration file, changes it, writes and reads back a temporary
  file, renames it over the old one, publishes the new snapshot and waits for the running tunnel or
  proxy to apply it. The file system is that of \<open>Certificate_Cache\<close>, with faults and a log of the
  states a crash can leave. TOML, random names and the answer of the runtime are parameters.
  The writer semaphore makes changes of one file follow one another.
\<close>

section \<open>Views without secrets\<close>

record AcmeAccountView =
  av_id :: string
  av_name :: string
  av_provider :: AcmeProvider
  av_environment :: AcmeEnvironment
  av_email :: string
  av_key_algorithm :: KeyAlgorithm
  av_eab_key_id :: "string option"
  av_eab_hmac_key_configured :: bool

record DnsAccountView =
  dv_id :: string
  dv_name :: string
  dv_provider :: DnsProvider
  dv_api_token_configured :: bool
  dv_access_key_configured :: bool
  dv_secret_key_configured :: bool

record ProxyConfigView =
  vw_proxy :: ProxyListenerConfig
  vw_acme_accounts :: "AcmeAccountView list"
  vw_dns_accounts :: "DnsAccountView list"
  vw_certificates :: "CertificateConfig list"
  vw_routes :: "RouteConfig list"

definition acme_view :: "AcmeAccountConfig \<Rightarrow> AcmeAccountView" where
  "acme_view a =
     \<lparr>av_id = aa_id a, av_name = aa_name a, av_provider = aa_provider a, av_environment = aa_environment a, av_email = aa_email a,
      av_key_algorithm = aa_key_algorithm a, av_eab_key_id = aa_eab_key_id a,
      av_eab_hmac_key_configured = (aa_eab_hmac_key a \<noteq> None)\<rparr>"

definition dns_view :: "DnsAccountConfig \<Rightarrow> DnsAccountView" where
  "dns_view a =
     \<lparr>dv_id = da_id a, dv_name = da_name a, dv_provider = da_provider a, dv_api_token_configured = (da_api_token a \<noteq> None),
      dv_access_key_configured = (da_access_key a \<noteq> None), dv_secret_key_configured = (da_secret_key a \<noteq> None)\<rparr>"

definition proxy_view :: "ProxyConfig \<Rightarrow> ProxyConfigView" where
  "proxy_view c =
     \<lparr>vw_proxy = pc_proxy c, vw_acme_accounts = map acme_view (pc_acme_accounts c), vw_dns_accounts = map dns_view (pc_dns_accounts c),
      vw_certificates = pc_certificates c, vw_routes = pc_routes c\<rparr>"

section \<open>Reading and writing a configuration file\<close>

definition utf8_text :: "bytes \<Rightarrow> string" where
  "utf8_text = map (\<lambda>b. char_of (unat b))"

text \<open>\<open>read_to_string\<close>; \<open>read_error\<close> gives the failures of reading a path.\<close>

definition read_files :: "(path \<Rightarrow> io_error option) \<Rightarrow> files \<Rightarrow> fs" where
  "read_files read_error fs p =
     (case read_error p of
        Some e \<Rightarrow> Inl e
      | None \<Rightarrow> (case fs p of None \<Rightarrow> Inl NotFound | Some b \<Rightarrow> Inr (utf8_text b)))"

text \<open>\<open>load_optional_tunnel\<close> and \<open>load_optional_proxy\<close>: a missing file is no error.\<close>

definition load_optional_tunnel :: "(string \<Rightarrow> ServerConfig option) \<Rightarrow> fs \<Rightarrow> path \<Rightarrow> (ControlError, ServerConfig option) res" where
  "load_optional_tunnel from_str fs p =
     (case server_read from_str fs p of
        Inr c \<Rightarrow> Inr (Some c)
      | Inl (TunnelError.ReadConfig _ NotFound) \<Rightarrow> Inr None
      | Inl _ \<Rightarrow> Inl (ReadRuntimeConfig ''tunnel configuration''))"

definition load_optional_proxy :: "config_env \<Rightarrow> fs \<Rightarrow> path \<Rightarrow> (ControlError, ProxyConfig option) res" where
  "load_optional_proxy base fs p =
     (case proxy_read (base\<lparr>env_read := fs\<rparr>) p of
        Inr c \<Rightarrow> Inr (Some c)
      | Inl (ProxyError.ReadConfig _ NotFound) \<Rightarrow> Inr None
      | Inl _ \<Rightarrow> Inl (ReadRuntimeConfig ''proxy configuration''))"

definition write_failed :: "(io_error, unit) res \<times> fs_state \<Rightarrow> (ControlError, unit) res \<times> fs_state" where
  "write_failed x = (case x of (Inl _, s) \<Rightarrow> (Inl (WriteRuntimeConfig ''i/o error''), s) | (Inr u, s) \<Rightarrow> (Inr u, s))"

text \<open>\<open>OpenOptions::create_new\<close> refuses an existing file.\<close>

definition fs_create_new :: "path \<Rightarrow> fs_state \<Rightarrow> (io_error, unit) res \<times> fs_state" where
  "fs_create_new p s = (if fs_files s p \<noteq> None then (Inl AlreadyExists, s) else fs_write p [] s)"

definition parent_or_current :: "path \<Rightarrow> path" where
  "parent_or_current p = (case path_parent p of None \<Rightarrow> current_dir | Some q \<Rightarrow> q)"

definition temporary_name :: "string \<Rightarrow> path \<Rightarrow> path" where
  "temporary_name random p =
     path_join (parent_or_current p)
       (Path False [''.'' @ (case path_file_name p of None \<Rightarrow> ''config'' | Some n \<Rightarrow> n) @ ''.'' @ random @ ''.tmp''])"

text \<open>The closure of \<open>write_validated\<close>: everything on the temporary file, the rename and the sync of the directory.\<close>

definition write_temporary ::
  "(path \<Rightarrow> io_error option) \<Rightarrow> (fs \<Rightarrow> path \<Rightarrow> ('e, 'c) res) \<Rightarrow> path \<Rightarrow> path \<Rightarrow> bytes \<Rightarrow> fs_state
     \<Rightarrow> (ControlError, 'c) res \<times> fs_state" where
  "write_temporary read_error read temporary p content s =
     fs_bind (write_failed (fs_create_new temporary s)) (\<lambda>_ s.
     fs_bind (write_failed (fs_write temporary content s)) (\<lambda>_ s.
     fs_bind (write_failed (fs_neutral s)) (\<lambda>_ s.
       case read (read_files read_error (fs_files s)) temporary of
         Inl _ \<Rightarrow> (Inl (WriteRuntimeConfig ''the written configuration is invalid''), s)
       | Inr stored \<Rightarrow>
           fs_bind (write_failed (fs_rename temporary p s)) (\<lambda>_ s.
           fs_bind (write_failed (fs_neutral s)) (\<lambda>_ s. (Inr stored, s))))))"

definition write_validated ::
  "(path \<Rightarrow> io_error option) \<Rightarrow> ('c \<Rightarrow> string option) \<Rightarrow> (fs \<Rightarrow> path \<Rightarrow> ('e, 'c) res) \<Rightarrow> string \<Rightarrow> path \<Rightarrow> 'c \<Rightarrow> fs_state
     \<Rightarrow> (ControlError, 'c) res \<times> fs_state" where
  "write_validated read_error to_toml read random p config s =
     (case to_toml config of
        None \<Rightarrow> (Inl (WriteRuntimeConfig ''serialisation''), s)
      | Some content \<Rightarrow>
          fs_bind (write_failed (fs_neutral s)) (\<lambda>_ s.
            let temporary = temporary_name random p
            in case write_temporary read_error read temporary p (str_bytes content) s of
                 (Inr stored, s) \<Rightarrow> (Inr stored, s)
               | (Inl e, s) \<Rightarrow> (Inl e, snd (fs_remove temporary s))))"

text \<open>The blocking part of \<open>mutate_tunnel\<close> and \<open>mutate_proxy\<close>.\<close>

definition rewrite_file ::
  "(path \<Rightarrow> io_error option) \<Rightarrow> ('c \<Rightarrow> string option) \<Rightarrow> (fs \<Rightarrow> path \<Rightarrow> (ControlError, 'c option) res)
     \<Rightarrow> (fs \<Rightarrow> path \<Rightarrow> ('e, 'c) res) \<Rightarrow> (fs \<Rightarrow> path \<Rightarrow> ('e, 'c) res) \<Rightarrow> 'c \<Rightarrow> ('c \<Rightarrow> (ControlError, 'c) res) \<Rightarrow> string \<Rightarrow> path \<Rightarrow> fs_state
     \<Rightarrow> (ControlError, 'c \<times> 'c) res \<times> fs_state" where
  "rewrite_file read_error to_toml load_optional read load fallback mutate random p s =
     (case res_bind (load_optional (read_files read_error (fs_files s)) p) (\<lambda>c. mutate (case c of None \<Rightarrow> fallback | Some c \<Rightarrow> c)) of
        Inl e \<Rightarrow> (Inl e, s)
      | Inr config \<Rightarrow>
          fs_bind (write_validated read_error to_toml read random p config s) (\<lambda>stored s.
            case load (read_files read_error (fs_files s)) p of
              Inl _ \<Rightarrow> (Inl (ReadRuntimeConfig ''the stored configuration''), s)
            | Inr runtime_config \<Rightarrow> (Inr (stored, runtime_config), s)))"

section \<open>The store\<close>

record Dashboard =
  db_revision :: u64
  db_tunnel_enabled :: bool
  db_proxy_enabled :: bool
  db_groups :: nat
  db_tunnels :: nat
  db_certificates :: nat
  db_routes :: nat

datatype ConfigKind = TunnelKindConfig | ProxyKindConfig

record StoreInner =
  sn_tunnel :: "ServerConfig option"
  sn_proxy :: "ProxyConfigView option"
  sn_revision :: u64
  sn_dashboard :: Dashboard
  sn_tunnel_enabled :: bool
  sn_proxy_enabled :: bool
  sn_tunnel_path :: path
  sn_proxy_path :: path
  sn_fs :: fs_state

text \<open>
  \<open>so_proxy_env\<close> holds the parsers of the proxy configuration; its file system is replaced by
  the store's. \<open>so_tunnel_wait\<close> and \<open>so_proxy_wait\<close> are the runtimes, when there are any: what
  \<open>wait_for_config\<close> returns for a configuration (an error, a timeout, or the status of its
  application). \<open>so_random\<close> is the random part of the n-th temporary name.
\<close>

record store_env =
  so_read_error :: "path \<Rightarrow> io_error option"
  so_random :: "nat \<Rightarrow> string"
  so_tunnel_to_toml :: "ServerConfig \<Rightarrow> string option"
  so_tunnel_from_toml :: "string \<Rightarrow> ServerConfig option"
  so_proxy_to_toml :: "ProxyConfig \<Rightarrow> string option"
  so_proxy_env :: config_env
  so_tunnel_wait :: "(ServerConfig \<Rightarrow> (string, string option option) res) option"
  so_proxy_wait :: "(ProxyConfig \<Rightarrow> string option option) option"

definition dashboard_for :: "ServerConfig option \<Rightarrow> ProxyConfigView option \<Rightarrow> u64 \<Rightarrow> bool \<Rightarrow> bool \<Rightarrow> Dashboard" where
  "dashboard_for tunnel proxy revision tunnel_enabled proxy_enabled =
     \<lparr>db_revision = revision, db_tunnel_enabled = tunnel_enabled, db_proxy_enabled = proxy_enabled,
      db_groups = (case tunnel of None \<Rightarrow> 0 | Some c \<Rightarrow> length (sc_groups c)),
      db_tunnels = (case tunnel of None \<Rightarrow> 0 | Some c \<Rightarrow> length (sc_tunnels c)),
      db_certificates = (case proxy of None \<Rightarrow> 0 | Some c \<Rightarrow> length (vw_certificates c)),
      db_routes = (case proxy of None \<Rightarrow> 0 | Some c \<Rightarrow> length (vw_routes c))\<rparr>"

definition store_publish :: "StoreInner \<Rightarrow> StoreInner" where
  "store_publish s =
     (let revision = sn_revision s + 1
      in s\<lparr>sn_revision := revision,
           sn_dashboard := dashboard_for (sn_tunnel s) (sn_proxy s) revision (sn_tunnel_enabled s) (sn_proxy_enabled s)\<rparr>)"

definition store_update_tunnel :: "ServerConfig option \<Rightarrow> StoreInner \<Rightarrow> StoreInner" where
  "store_update_tunnel c s = store_publish (s\<lparr>sn_tunnel := c\<rparr>)"

definition store_update_proxy :: "ProxyConfig option \<Rightarrow> StoreInner \<Rightarrow> StoreInner" where
  "store_update_proxy c s = store_publish (s\<lparr>sn_proxy := map_option proxy_view c\<rparr>)"

definition default_tunnel :: ServerConfig where
  "default_tunnel =
     \<lparr>sc_quic = \<lparr>q_bind = SocketAddrV4 0 2333, q_certificate = Path True [''etc'', ''gaterust'', ''tunnel'', ''server.pem''],
                  q_private_key = Path True [''etc'', ''gaterust'', ''tunnel'', ''server-key.pem'']\<rparr>,
      sc_groups = [], sc_tunnels = []\<rparr>"

definition default_proxy :: ProxyConfig where
  "default_proxy =
     \<lparr>pc_proxy = \<lparr>http_bind = SocketAddrV4 0 80, https_bind = SocketAddrV4 0 443,
                   cache_dir = Path True [''var'', ''lib'', ''gaterust'', ''proxy'', ''acme''], pl_max_connections = 2048\<rparr>,
      pc_acme_accounts = [], pc_dns_accounts = [], pc_certificates = [], pc_routes = []\<rparr>"

text \<open>\<open>cwd\<close> is the current directory, in which a relative path is looked up.\<close>

definition absolute_path :: "path option \<Rightarrow> path \<Rightarrow> (ControlError, path) res" where
  "absolute_path cwd p =
     (if \<not> is_relative p then Inr p
      else case cwd of None \<Rightarrow> Inl (ReadRuntimeConfig ''current directory'') | Some d \<Rightarrow> Inr (path_join d p))"

definition store_new ::
  "store_env \<Rightarrow> path option \<Rightarrow> bool \<Rightarrow> bool \<Rightarrow> path \<Rightarrow> path \<Rightarrow> fs_state \<Rightarrow> (ControlError, StoreInner) res" where
  "store_new env cwd tunnel_enabled proxy_enabled tunnel_config proxy_config fs =
     (let read = read_files (so_read_error env) (fs_files fs);
          found = (\<lambda>p. case absolute_path cwd p of Inr q \<Rightarrow> q | Inl _ \<Rightarrow> p)
      in res_bind (load_optional_tunnel (so_tunnel_from_toml env) read (found tunnel_config)) (\<lambda>tunnel.
         res_bind (load_optional_proxy (so_proxy_env env) read (found proxy_config)) (\<lambda>loaded.
         res_bind (absolute_path cwd tunnel_config) (\<lambda>tunnel_path.
         res_bind (absolute_path cwd proxy_config) (\<lambda>proxy_path.
           let proxy = map_option proxy_view loaded
           in Inr \<lparr>sn_tunnel = tunnel, sn_proxy = proxy, sn_revision = 1,
                   sn_dashboard = dashboard_for tunnel proxy 1 tunnel_enabled proxy_enabled,
                   sn_tunnel_enabled = tunnel_enabled, sn_proxy_enabled = proxy_enabled,
                   sn_tunnel_path = tunnel_path, sn_proxy_path = proxy_path, sn_fs = fs\<rparr>)))))"

definition mutate_tunnel ::
  "store_env \<Rightarrow> (ServerConfig \<Rightarrow> (ControlError, ServerConfig) res) \<Rightarrow> StoreInner \<Rightarrow> (ControlError, ServerConfig) res \<times> StoreInner" where
  "mutate_tunnel env mutate s =
     (case rewrite_file (so_read_error env) (so_tunnel_to_toml env) (load_optional_tunnel (so_tunnel_from_toml env))
             (server_read (so_tunnel_from_toml env)) (server_load (so_tunnel_from_toml env)) default_tunnel mutate
             (so_random env (fs_ops (sn_fs s))) (sn_tunnel_path s) (sn_fs s) of
        (Inl e, fs) \<Rightarrow> (Inl e, s\<lparr>sn_fs := fs\<rparr>)
      | (Inr (stored, runtime_config), fs) \<Rightarrow>
          (let s = store_update_tunnel (Some stored) (s\<lparr>sn_fs := fs\<rparr>)
           in case so_tunnel_wait env of
                None \<Rightarrow> (Inr stored, s)
              | Some wait \<Rightarrow>
                  (case wait runtime_config of
                     Inl e \<Rightarrow> (Inl (TunnelRuntimeApply e), s)
                   | Inr None \<Rightarrow> (Inl (TunnelRuntimeApply ''timeout''), s)
                   | Inr (Some (Some e)) \<Rightarrow> (Inl (TunnelRuntimeApply e), s)
                   | Inr (Some None) \<Rightarrow> (Inr stored, s))))"

definition mutate_proxy ::
  "store_env \<Rightarrow> (ProxyConfig \<Rightarrow> (ControlError, ProxyConfig) res) \<Rightarrow> StoreInner \<Rightarrow> (ControlError, ProxyConfigView) res \<times> StoreInner" where
  "mutate_proxy env mutate s =
     (case rewrite_file (so_read_error env) (so_proxy_to_toml env) (load_optional_proxy (so_proxy_env env))
             (\<lambda>fs. proxy_read ((so_proxy_env env)\<lparr>env_read := fs\<rparr>)) (\<lambda>fs. proxy_load ((so_proxy_env env)\<lparr>env_read := fs\<rparr>)) default_proxy mutate
             (so_random env (fs_ops (sn_fs s))) (sn_proxy_path s) (sn_fs s) of
        (Inl e, fs) \<Rightarrow> (Inl e, s\<lparr>sn_fs := fs\<rparr>)
      | (Inr (stored, runtime_config), fs) \<Rightarrow>
          (let s = store_update_proxy (Some stored) (s\<lparr>sn_fs := fs\<rparr>)
           in case so_proxy_wait env of
                None \<Rightarrow> (Inr (proxy_view stored), s)
              | Some wait \<Rightarrow>
                  (case wait runtime_config of
                     None \<Rightarrow> (Inl (ProxyRuntimeApply ''timeout''), s)
                   | Some (Some e) \<Rightarrow> (Inl (ProxyRuntimeApply e), s)
                   | Some None \<Rightarrow> (Inr (proxy_view stored), s))))"

definition store_reload :: "store_env \<Rightarrow> ConfigKind \<Rightarrow> StoreInner \<Rightarrow> StoreInner" where
  "store_reload env kind s =
     (let read = read_files (so_read_error env) (fs_files (sn_fs s)) in
      case kind of
        TunnelKindConfig \<Rightarrow>
          (case load_optional_tunnel (so_tunnel_from_toml env) read (sn_tunnel_path s) of
             Inr c \<Rightarrow> store_update_tunnel c s | Inl _ \<Rightarrow> s)
      | ProxyKindConfig \<Rightarrow>
          (case load_optional_proxy (so_proxy_env env) read (sn_proxy_path s) of
             Inr c \<Rightarrow> store_update_proxy c s | Inl _ \<Rightarrow> s))"

section \<open>The changes\<close>

text \<open>\<open>iter_mut().find(...)\<close> followed by an assignment: \<open>f\<close> changes the first element with the key.\<close>

primrec change_first :: "('a \<Rightarrow> bool) \<Rightarrow> ('a \<Rightarrow> 'a) \<Rightarrow> 'a list \<Rightarrow> 'a list option" where
  "change_first q f [] = None"
| "change_first q f (x # xs) = (if q x then Some (f x # xs) else map_option ((#) x) (change_first q f xs))"

definition replace_named :: "('a \<Rightarrow> string) \<Rightarrow> string \<Rightarrow> string \<Rightarrow> 'a \<Rightarrow> 'a list \<Rightarrow> (ControlError, 'a list) res" where
  "replace_named name kind original replacement items =
     (case change_first (\<lambda>x. name x = original) (\<lambda>_. replacement) items of
        None \<Rightarrow> Inl (ResourceNotFound kind original)
      | Some xs \<Rightarrow> Inr xs)"

definition remove_named :: "('a \<Rightarrow> string) \<Rightarrow> string \<Rightarrow> string \<Rightarrow> 'a list \<Rightarrow> (ControlError, 'a list) res" where
  "remove_named name kind target items =
     (let left = filter (\<lambda>x. name x \<noteq> target) items
      in if length left = length items then Inl (ResourceNotFound kind target) else Inr left)"

definition set_quic_change :: "ServerQuicConfig \<Rightarrow> ServerConfig \<Rightarrow> (ControlError, ServerConfig) res" where
  "set_quic_change quic c = Inr (c\<lparr>sc_quic := quic\<rparr>)"

definition create_group_change :: "GroupConfig \<Rightarrow> ServerConfig \<Rightarrow> (ControlError, ServerConfig) res" where
  "create_group_change g c = Inr (c\<lparr>sc_groups := sc_groups c @ [g]\<rparr>)"

definition update_group_change :: "string \<Rightarrow> GroupConfig \<Rightarrow> ServerConfig \<Rightarrow> (ControlError, ServerConfig) res" where
  "update_group_change original new c =
     (case change_first (\<lambda>g. g_name g = original) (\<lambda>_. new) (sc_groups c) of
        None \<Rightarrow> Inl (ResourceNotFound ''group'' original)
      | Some groups \<Rightarrow>
          Inr (c\<lparr>sc_groups := groups,
                 sc_tunnels := (if original \<noteq> g_name new
                                then map (\<lambda>t. if t_group t = original then t\<lparr>t_group := g_name new\<rparr> else t) (sc_tunnels c)
                                else sc_tunnels c)\<rparr>))"

definition delete_group_change :: "string \<Rightarrow> ServerConfig \<Rightarrow> (ControlError, ServerConfig) res" where
  "delete_group_change name c =
     res_bind (remove_named g_name ''group'' name (sc_groups c)) (\<lambda>groups.
       Inr (c\<lparr>sc_groups := groups, sc_tunnels := filter (\<lambda>t. t_group t \<noteq> name) (sc_tunnels c)\<rparr>))"

definition create_tunnel_change :: "ServerTunnelConfig \<Rightarrow> ServerConfig \<Rightarrow> (ControlError, ServerConfig) res" where
  "create_tunnel_change tunnel c = Inr (c\<lparr>sc_tunnels := sc_tunnels c @ [tunnel]\<rparr>)"

definition update_tunnel_change :: "string \<Rightarrow> ServerTunnelConfig \<Rightarrow> ServerConfig \<Rightarrow> (ControlError, ServerConfig) res" where
  "update_tunnel_change original tunnel c =
     res_bind (replace_named t_name ''tunnel'' original tunnel (sc_tunnels c)) (\<lambda>ts. Inr (c\<lparr>sc_tunnels := ts\<rparr>))"

definition delete_tunnel_change :: "string \<Rightarrow> ServerConfig \<Rightarrow> (ControlError, ServerConfig) res" where
  "delete_tunnel_change name c =
     res_bind (remove_named t_name ''tunnel'' name (sc_tunnels c)) (\<lambda>ts. Inr (c\<lparr>sc_tunnels := ts\<rparr>))"

record AcmeAccountRequest =
  qa_id :: string
  qa_name :: string
  qa_provider :: AcmeProvider
  qa_environment :: AcmeEnvironment
  qa_email :: string
  qa_key_algorithm :: KeyAlgorithm
  qa_eab_key_id :: "string option"
  qa_eab_hmac_key :: "string option"

record DnsAccountRequest =
  qd_id :: string
  qd_name :: string
  qd_provider :: DnsProvider
  qd_api_token :: "string option"
  qd_access_key :: "string option"
  qd_secret_key :: "string option"

definition acme_account_from_request :: "AcmeAccountRequest \<Rightarrow> AcmeAccountConfig" where
  "acme_account_from_request q =
     \<lparr>aa_id = qa_id q, aa_name = qa_name q, aa_provider = qa_provider q, aa_environment = qa_environment q, aa_email = qa_email q,
      aa_key_algorithm = qa_key_algorithm q, aa_eab_key_id = qa_eab_key_id q, aa_eab_hmac_key = qa_eab_hmac_key q\<rparr>"

definition dns_account_from_request :: "DnsAccountRequest \<Rightarrow> DnsAccountConfig" where
  "dns_account_from_request q =
     \<lparr>da_id = qd_id q, da_name = qd_name q, da_provider = qd_provider q, da_api_token = qd_api_token q,
      da_access_key = qd_access_key q, da_secret_key = qd_secret_key q\<rparr>"

definition set_listener_change :: "ProxyListenerConfig \<Rightarrow> ProxyConfig \<Rightarrow> (ControlError, ProxyConfig) res" where
  "set_listener_change listener c = Inr (c\<lparr>pc_proxy := listener\<rparr>)"

definition create_acme_change :: "AcmeAccountRequest \<Rightarrow> ProxyConfig \<Rightarrow> (ControlError, ProxyConfig) res" where
  "create_acme_change q c = Inr (c\<lparr>pc_acme_accounts := pc_acme_accounts c @ [acme_account_from_request q]\<rparr>)"

text \<open>A secret that the request leaves out keeps its stored value.\<close>

definition merge_acme :: "AcmeAccountRequest \<Rightarrow> AcmeAccountConfig \<Rightarrow> AcmeAccountConfig" where
  "merge_acme q current =
     (let replacement = acme_account_from_request q
      in if aa_provider replacement = GoogleCloud \<and> aa_eab_hmac_key replacement = None \<and> aa_provider current = GoogleCloud
         then replacement\<lparr>aa_eab_hmac_key := aa_eab_hmac_key current\<rparr> else replacement)"

definition update_acme_change :: "string \<Rightarrow> AcmeAccountRequest \<Rightarrow> ProxyConfig \<Rightarrow> (ControlError, ProxyConfig) res" where
  "update_acme_change i q c =
     (if qa_id q \<noteq> i then Inl (ResourceConflict ''the id of an ACME account cannot change'')
      else case change_first (\<lambda>a. aa_id a = i) (merge_acme q) (pc_acme_accounts c) of
             None \<Rightarrow> Inl (ResourceNotFound ''ACME account'' i)
           | Some accounts \<Rightarrow> Inr (c\<lparr>pc_acme_accounts := accounts\<rparr>))"

definition delete_acme_change :: "string \<Rightarrow> ProxyConfig \<Rightarrow> (ControlError, ProxyConfig) res" where
  "delete_acme_change i c =
     (if list_ex (\<lambda>x. ce_acme_account_id x = i) (pc_certificates c)
      then Inl (ResourceConflict ''a certificate uses the ACME account'')
      else res_bind (remove_named aa_id ''ACME account'' i (pc_acme_accounts c)) (\<lambda>as. Inr (c\<lparr>pc_acme_accounts := as\<rparr>)))"

definition create_dns_change :: "DnsAccountRequest \<Rightarrow> ProxyConfig \<Rightarrow> (ControlError, ProxyConfig) res" where
  "create_dns_change q c = Inr (c\<lparr>pc_dns_accounts := pc_dns_accounts c @ [dns_account_from_request q]\<rparr>)"

definition merge_dns :: "DnsAccountRequest \<Rightarrow> DnsAccountConfig \<Rightarrow> DnsAccountConfig" where
  "merge_dns q current =
     (let r = dns_account_from_request q; keep = (\<lambda>new old. if new = None then old else new)
      in if da_provider r = da_provider current
         then r\<lparr>da_api_token := keep (da_api_token r) (da_api_token current),
                da_access_key := keep (da_access_key r) (da_access_key current),
                da_secret_key := keep (da_secret_key r) (da_secret_key current)\<rparr>
         else r)"

definition update_dns_change :: "string \<Rightarrow> DnsAccountRequest \<Rightarrow> ProxyConfig \<Rightarrow> (ControlError, ProxyConfig) res" where
  "update_dns_change i q c =
     (if qd_id q \<noteq> i then Inl (ResourceConflict ''the id of a DNS account cannot change'')
      else case change_first (\<lambda>a. da_id a = i) (merge_dns q) (pc_dns_accounts c) of
             None \<Rightarrow> Inl (ResourceNotFound ''DNS account'' i)
           | Some accounts \<Rightarrow> Inr (c\<lparr>pc_dns_accounts := accounts\<rparr>))"

definition delete_dns_change :: "string \<Rightarrow> ProxyConfig \<Rightarrow> (ControlError, ProxyConfig) res" where
  "delete_dns_change i c =
     (if list_ex (\<lambda>x. ce_validation x = Some (DnsAccount i)) (pc_certificates c)
      then Inl (ResourceConflict ''a certificate uses the DNS account'')
      else res_bind (remove_named da_id ''DNS account'' i (pc_dns_accounts c)) (\<lambda>as. Inr (c\<lparr>pc_dns_accounts := as\<rparr>)))"

definition create_certificate_change :: "CertificateConfig \<Rightarrow> ProxyConfig \<Rightarrow> (ControlError, ProxyConfig) res" where
  "create_certificate_change x c = Inr (c\<lparr>pc_certificates := pc_certificates c @ [x]\<rparr>)"

definition update_certificate_change :: "string \<Rightarrow> CertificateConfig \<Rightarrow> ProxyConfig \<Rightarrow> (ControlError, ProxyConfig) res" where
  "update_certificate_change i x c =
     res_bind (replace_named ce_id ''certificate'' i x (pc_certificates c)) (\<lambda>xs. Inr (c\<lparr>pc_certificates := xs\<rparr>))"

definition delete_certificate_change :: "string \<Rightarrow> ProxyConfig \<Rightarrow> (ControlError, ProxyConfig) res" where
  "delete_certificate_change i c =
     (if list_ex (\<lambda>r. rc_certificate_id r = Some i) (pc_routes c)
      then Inl (ResourceConflict ''a route uses the certificate'')
      else res_bind (remove_named ce_id ''certificate'' i (pc_certificates c)) (\<lambda>xs. Inr (c\<lparr>pc_certificates := xs\<rparr>)))"

definition create_route_change :: "RouteConfig \<Rightarrow> ProxyConfig \<Rightarrow> (ControlError, ProxyConfig) res" where
  "create_route_change r c = Inr (c\<lparr>pc_routes := pc_routes c @ [r]\<rparr>)"

definition update_route_change :: "string \<Rightarrow> RouteConfig \<Rightarrow> ProxyConfig \<Rightarrow> (ControlError, ProxyConfig) res" where
  "update_route_change original r c =
     res_bind (replace_named rc_name ''route'' original r (pc_routes c)) (\<lambda>rs. Inr (c\<lparr>pc_routes := rs\<rparr>))"

definition delete_route_change :: "string \<Rightarrow> ProxyConfig \<Rightarrow> (ControlError, ProxyConfig) res" where
  "delete_route_change name c =
     res_bind (remove_named rc_name ''route'' name (pc_routes c)) (\<lambda>rs. Inr (c\<lparr>pc_routes := rs\<rparr>))"

text \<open>\<open>create_certificate\<close> and \<open>update_certificate\<close> look at their argument before the file.\<close>

definition create_certificate :: "store_env \<Rightarrow> CertificateConfig \<Rightarrow> StoreInner \<Rightarrow> (ControlError, ProxyConfigView) res \<times> StoreInner" where
  "create_certificate env x s =
     (if ce_migration_error x \<noteq> None then (Inl (ResourceConflict ''migration state''), s)
      else mutate_proxy env (create_certificate_change x) s)"

definition update_certificate :: "store_env \<Rightarrow> string \<Rightarrow> CertificateConfig \<Rightarrow> StoreInner \<Rightarrow> (ControlError, ProxyConfigView) res \<times> StoreInner" where
  "update_certificate env i x s =
     (if ce_migration_error x \<noteq> None then (Inl (ResourceConflict ''migration state''), s)
      else if ce_id x \<noteq> i then (Inl (ResourceConflict ''the id of a certificate cannot change''), s)
      else mutate_proxy env (update_certificate_change i x) s)"

definition dns_account :: "store_env \<Rightarrow> string \<Rightarrow> StoreInner \<Rightarrow> (ControlError, DnsAccountConfig) res" where
  "dns_account env i s =
     res_bind (load_optional_proxy (so_proxy_env env) (read_files (so_read_error env) (fs_files (sn_fs s))) (sn_proxy_path s)) (\<lambda>c.
       case Option.bind c (\<lambda>c. List.find (\<lambda>a. da_id a = i) (pc_dns_accounts c)) of
         None \<Rightarrow> Inl (ResourceNotFound ''DNS account'' i)
       | Some a \<Rightarrow> Inr a)"

section \<open>A rewritten file is old or new\<close>

lemma temporary_name_differs: "temporary_name random p \<noteq> p"
proof
  let ?f = "case path_file_name p of None \<Rightarrow> ''config'' | Some n \<Rightarrow> n"
  let ?x = "''.'' @ ?f @ ''.'' @ random @ ''.tmp''"
  assume eq: "temporary_name random p = p"
  have "path_file_name (temporary_name random p) = Some ?x"
    by (auto simp: temporary_name_def path_file_name_def path_join_def split: option.split path.split)
  with eq have x: "path_file_name p = Some ?x" by argo
  then obtain n where n: "path_file_name p = Some n" by blast
  with x have "n = ''.'' @ n @ ''.'' @ random @ ''.tmp''" by simp
  then have "length n = length (''.'' @ n @ ''.'' @ random @ ''.tmp'')" by (rule arg_cong)
  then show False by simp
qed

text \<open>
  What the store relies on for the format of a file: what \<open>read\<close> accepts depends on the content
  alone and is valid, \<open>load_optional\<close> finds what \<open>read\<close> finds, and \<open>load\<close> accepts what \<open>read\<close>
  accepts.
\<close>

locale config_format =
  fixes load_optional :: "fs \<Rightarrow> path \<Rightarrow> (ControlError, 'c option) res"
    and read :: "fs \<Rightarrow> path \<Rightarrow> ('e, 'c) res"
    and load :: "fs \<Rightarrow> path \<Rightarrow> ('e, 'c) res"
    and accepts :: "string \<Rightarrow> 'c option"
    and valid :: "'c \<Rightarrow> bool"
  assumes read_iff: "read fs p = Inr c \<longleftrightarrow> (\<exists>x. fs p = Inr x \<and> accepts x = Some c)"
    and accepts_valid: "accepts x = Some c \<Longrightarrow> valid c"
    and load_optional_Some: "load_optional fs p = Inr (Some c) \<longleftrightarrow> read fs p = Inr c"
    and load_optional_None: "load_optional fs p = Inr None \<Longrightarrow> fs p = Inl NotFound"
    and load_iff: "(\<exists>c. load fs p = Inr c) \<longleftrightarrow> (\<exists>c. read fs p = Inr c)"
begin

lemma read_files_accepts:
  "read (read_files re fs) p = Inr c \<longleftrightarrow> re p = None \<and> (\<exists>b. fs p = Some b \<and> accepts (utf8_text b) = Some c)"
  by (auto simp: read_iff read_files_def split: option.splits)

lemma write_temporary_effect:
  assumes run: "write_temporary re read t p content s = (r, s')" and t: "t \<noteq> p"
  shows "(case r of
            Inr c \<Rightarrow> agree {t} (fs_files s') ((fs_files s)(p := Some content)) \<and> accepts (utf8_text content) = Some c
          | Inl _ \<Rightarrow> agree {t} (fs_files s') (fs_files s)
              \<or> agree {t} (fs_files s') ((fs_files s)(p := Some content)) \<and> accepts (utf8_text content) \<noteq> None)
    \<and> (if accepts (utf8_text content) = None then logs (\<lambda>fs. agree {t} fs (fs_files s)) s s'
       else logs (old_or_new {t} (fs_files s) p content) s s')"
proof -
  let ?old = "fs_files s"
  define P where "P = (if accepts (utf8_text content) = None then (\<lambda>fs. agree {t} fs ?old) else old_or_new {t} ?old p content)"
  have P: "P fs" if "agree {t} fs ?old" for fs using that by (simp add: P_def old_or_new_def)
  have new: "P fs" if "agree {t} fs (?old(p := Some content))" "accepts (utf8_text content) \<noteq> None" for fs
    using that by (auto simp: P_def old_or_new_def)
  obtain r1 s1 where 1: "fs_create_new t s = (r1, s1)" by fastforce
  obtain r2 s2 where 2: "fs_write t content s1 = (r2, s2)" by fastforce
  obtain r3 s3 where 3: "fs_neutral s2 = (r3, s3)" by fastforce
  obtain r4 s4 where 4: "fs_rename t p s3 = (r4, s4)" by fastforce
  obtain r5 s5 where 5: "fs_neutral s4 = (r5, s5)" by fastforce
  have e1: "agree {t} (fs_files s1) ?old" "logs P s s1"
  proof -
    have "agree {t} (fs_files s1) ?old \<and> logs (\<lambda>fs. agree {t} fs ?old) s s1"
      using 1 fs_write_effect[of t "[]" s r1 s1] by (auto simp: fs_create_new_def split: if_splits)
    then show "agree {t} (fs_files s1) ?old" "logs P s s1" by (auto intro: P elim!: logs_mono)
  qed
  have e2: "agree {t} (fs_files s2) ?old" "logs P s1 s2" "is_ok r2 \<Longrightarrow> fs_files s2 t = Some content"
    using fs_write_effect[OF 2] e1(1) by (auto intro: agree_trans P elim!: logs_mono)
  have e3: "fs_files s3 = fs_files s2" "logs P s2 s3"
    using fs_neutral_effect[OF 3] e2(1) by (auto intro: P elim!: logs_mono)
  have e4: "agree {t} (fs_files s4) (if is_ok r4 then ?old(p := Some content) else ?old)" if "is_ok r2"
    using fs_rename_effect[OF 4] e2 e3(1) t that by (auto simp: agree_def split: if_splits)
  have l4: "logs P s3 s4" if "is_ok r2" "accepts (utf8_text content) \<noteq> None"
    using fs_rename_effect[OF 4] e4[OF that(1)] that(2) by (auto intro: P new elim!: logs_mono split: if_splits)
  have e5: "fs_files s5 = fs_files s4" "logs (\<lambda>fs. fs = fs_files s4) s4 s5" using fs_neutral_effect[OF 5] by auto
  have l5: "logs P s4 s5" if "is_ok r2" "accepts (utf8_text content) \<noteq> None"
    using e5(2) e4[OF that(1)] that(2) by (auto intro: P new elim!: logs_mono split: if_splits)
  have acc: "accepts (utf8_text content) = Some c" if "is_ok r2" "read (read_files re (fs_files s3)) t = Inr c" for c
    using that e2(3) e3(1) by (auto simp: read_files_accepts)
  note defs = write_temporary_def fs_bind_def write_failed_def
  consider (a) e where "r1 = Inl e" | (b) u e where "r1 = Inr u" "r2 = Inl e" | (c) u v e where "r1 = Inr u" "r2 = Inr v" "r3 = Inl e"
    | (d) u v w e where "r1 = Inr u" "r2 = Inr v" "r3 = Inr w" "read (read_files re (fs_files s3)) t = Inl e"
    | (e) u v w stored where "r1 = Inr u" "r2 = Inr v" "r3 = Inr w" "read (read_files re (fs_files s3)) t = Inr stored"
    by (metis sum.exhaust)
  then have "(case r of
            Inr c \<Rightarrow> agree {t} (fs_files s') (?old(p := Some content)) \<and> accepts (utf8_text content) = Some c
          | Inl _ \<Rightarrow> agree {t} (fs_files s') ?old
              \<or> agree {t} (fs_files s') (?old(p := Some content)) \<and> accepts (utf8_text content) \<noteq> None)
    \<and> logs P s s'"
  proof cases
    case a
    with run 1 e1 show ?thesis by (auto simp: defs)
  next
    case b
    with run 1 2 e1 e2 show ?thesis by (auto simp: defs intro: logs_trans)
  next
    case c
    with run 1 2 3 e1 e2 e3 show ?thesis by (auto simp: defs intro: logs_trans)
  next
    case d
    with run 1 2 3 e1 e2 e3 show ?thesis by (auto simp: defs intro: logs_trans)
  next
    case e
    then have ok: "is_ok r2" by simp
    note acc = acc[OF ok e(4)]
    have l: "logs P s s4" "logs P s s5"
      using e1(2) e2(2) e3(2) l4[OF ok] l5[OF ok] acc by (blast intro: logs_trans)+
    show ?thesis
    proof (cases r4)
      case (Inl x)
      with run 1 2 3 4 e l(1) e4[OF ok] show ?thesis by (auto simp: defs)
    next
      case (Inr x)
      with run 1 2 3 4 5 e l(2) e4[OF ok] e5(1) acc show ?thesis by (cases r5) (auto simp: defs)
    qed
  qed
  then show ?thesis by (cases "accepts (utf8_text content)") (simp_all add: P_def)
qed

lemma write_validated_effect:
  assumes run: "write_validated re to_toml read random p config s = (r, s')" and t: "temporary_name random p \<noteq> p"
  shows "\<exists>new. (new = None \<or> (\<exists>x. to_toml config = Some x \<and> new = Some (str_bytes x) \<and> accepts (utf8_text (str_bytes x)) \<noteq> None))
    \<and> logs (\<lambda>fs. fs p = fs_files s p \<or> new \<noteq> None \<and> fs p = new) s s' \<and> (fs_files s' p = fs_files s p \<or> new \<noteq> None \<and> fs_files s' p = new)
    \<and> (\<forall>q. q \<noteq> p \<and> q \<noteq> temporary_name random p \<longrightarrow> fs_files s' q = fs_files s q)
    \<and> (\<forall>c. r = Inr c \<longrightarrow> (\<exists>b. new = Some b \<and> fs_files s' p = new \<and> accepts (utf8_text b) = Some c))"
proof (cases "to_toml config")
  case None
  with run show ?thesis by (intro exI[of _ None]) (auto simp: write_validated_def)
next
  case (Some x)
  let ?t = "temporary_name random p" and ?c = "str_bytes x"
  define new where "new = (if accepts (utf8_text ?c) = None then None else Some ?c)"
  define P where "P = (\<lambda>fs :: files. fs p = fs_files s p \<or> new \<noteq> None \<and> fs p = new)"
  obtain r1 s1 where 1: "fs_neutral s = (r1, s1)" by fastforce
  obtain r2 s2 where 2: "write_temporary re read ?t p ?c s1 = (r2, s2)" by fastforce
  note N = fs_neutral_effect[OF 1] and W = write_temporary_effect[OF 2 t] and R = fs_remove_effect[of ?t s2]
  have f: "fs_files s1 = fs_files s" using N by blast
  have l1: "logs P s s1" using N by (auto simp: P_def elim!: logs_mono)
  have l2: "logs P s1 s2"
    using W t by (auto simp: P_def new_def f old_or_new_def agree_def elim!: logs_mono split: if_splits)
  have at: "P (fs_files s2)" "\<forall>q. q \<noteq> p \<and> q \<noteq> ?t \<longrightarrow> fs_files s2 q = fs_files s q"
    "\<forall>c. r2 = Inr c \<longrightarrow> accepts (utf8_text ?c) = Some c \<and> fs_files s2 p = Some ?c"
    using W t by (auto simp: P_def new_def f agree_def split: sum.splits)
  have l3: "logs P s2 (snd (fs_remove ?t s2))" and at3: "P (fs_files (snd (fs_remove ?t s2)))"
    "\<forall>q. q \<noteq> p \<and> q \<noteq> ?t \<longrightarrow> fs_files (snd (fs_remove ?t s2)) q = fs_files s q"
    using R t at(1,2) by (auto simp: P_def agree_def elim!: logs_mono)
  have "logs P s s' \<and> P (fs_files s') \<and> (\<forall>q. q \<noteq> p \<and> q \<noteq> ?t \<longrightarrow> fs_files s' q = fs_files s q)
      \<and> (\<forall>c. r = Inr c \<longrightarrow> accepts (utf8_text ?c) = Some c \<and> fs_files s' p = Some ?c)"
  proof (cases r1)
    case (Inl e)
    with run Some 1 l1 f show ?thesis by (auto simp: write_validated_def fs_bind_def write_failed_def P_def)
  next
    case (Inr u)
    show ?thesis
    proof (cases r2)
      case (Inl e)
      with run Some 1 2 Inr l1 l2 l3 at3 show ?thesis
        by (auto simp: write_validated_def fs_bind_def write_failed_def Let_def intro: logs_trans)
    next
      case ok: (Inr c)
      with run Some 1 2 Inr l1 l2 at show ?thesis
        by (auto simp: write_validated_def fs_bind_def write_failed_def Let_def intro: logs_trans)
    qed
  qed
  then show ?thesis using Some by (intro exI[of _ new]) (auto simp: P_def new_def)
qed

text \<open>The file after a rewrite, and in every state a crash can leave: what it was, or the complete changed configuration.\<close>

lemma rewrite_file_effect:
  assumes run: "rewrite_file re to_toml load_optional read load fallback mutate random p s = (r, s')"
    and t: "temporary_name random p \<noteq> p" and re: "re p = None"
  shows "\<exists>new. (\<forall>b. new = Some b \<longrightarrow> (\<exists>old config x c. mutate old = Inr config
           \<and> (read (read_files re (fs_files s)) p = Inr old \<or> fs_files s p = None \<and> old = fallback)
           \<and> to_toml config = Some x \<and> b = str_bytes x \<and> accepts (utf8_text b) = Some c \<and> valid c))
    \<and> logs (\<lambda>fs. fs p = fs_files s p \<or> new \<noteq> None \<and> fs p = new) s s' \<and> (fs_files s' p = fs_files s p \<or> new \<noteq> None \<and> fs_files s' p = new)
    \<and> (\<forall>q. q \<noteq> p \<and> q \<noteq> temporary_name random p \<longrightarrow> fs_files s' q = fs_files s q)
    \<and> (\<forall>c d. r = Inr (c, d) \<longrightarrow> (\<exists>b. new = Some b \<and> fs_files s' p = new \<and> accepts (utf8_text b) = Some c))"
proof (cases "res_bind (load_optional (read_files re (fs_files s)) p) (\<lambda>c. mutate (case c of None \<Rightarrow> fallback | Some c \<Rightarrow> c))")
  case (Inl e)
  with run show ?thesis by (intro exI[of _ None]) (auto simp: rewrite_file_def)
next
  case (Inr config)
  then obtain c where c: "load_optional (read_files re (fs_files s)) p = Inr c" "mutate (case c of None \<Rightarrow> fallback | Some c \<Rightarrow> c) = Inr config"
    by (auto simp: res_bind_def split: sum.splits)
  obtain old where old: "mutate old = Inr config" "read (read_files re (fs_files s)) p = Inr old \<or> fs_files s p = None \<and> old = fallback"
  proof (cases c)
    case None
    then have "fs_files s p = None" using load_optional_None[of "read_files re (fs_files s)" p] c(1) re by (auto simp: read_files_def split: option.splits)
    with c None that show thesis by simp
  next
    case (Some y)
    with c that[of y] load_optional_Some show thesis by simp
  qed
  obtain r1 s1 where 1: "write_validated re to_toml read random p config s = (r1, s1)" by fastforce
  note W = write_validated_effect[OF 1 t]
  have s': "s' = s1" "\<And>c d. r = Inr (c, d) \<Longrightarrow> r1 = Inr c"
    using run Inr 1 by (auto simp: rewrite_file_def fs_bind_def split: sum.splits)
  from W obtain new where new: "new = None \<or> (\<exists>x. to_toml config = Some x \<and> new = Some (str_bytes x) \<and> accepts (utf8_text (str_bytes x)) \<noteq> None)"
    "logs (\<lambda>fs. fs p = fs_files s p \<or> new \<noteq> None \<and> fs p = new) s s1" "fs_files s1 p = fs_files s p \<or> new \<noteq> None \<and> fs_files s1 p = new"
    "\<forall>q. q \<noteq> p \<and> q \<noteq> temporary_name random p \<longrightarrow> fs_files s1 q = fs_files s q"
    "\<forall>c. r1 = Inr c \<longrightarrow> (\<exists>b. new = Some b \<and> fs_files s1 p = new \<and> accepts (utf8_text b) = Some c)" by blast
  have "\<exists>old config x c. mutate old = Inr config
           \<and> (read (read_files re (fs_files s)) p = Inr old \<or> fs_files s p = None \<and> old = fallback)
           \<and> to_toml config = Some x \<and> b = str_bytes x \<and> accepts (utf8_text b) = Some c \<and> valid c" if b: "new = Some b" for b
  proof -
    from new(1) b obtain x c where x: "to_toml config = Some x" "b = str_bytes x" "accepts (utf8_text b) = Some c" by auto
    then have "valid c" using accepts_valid by blast
    with x old show ?thesis by blast
  qed
  with new s' show ?thesis by (intro exI[of _ new]) auto
qed

end

lemma utf8_text_bytes [simp]: "utf8_text (str_bytes x) = x"
proof -
  have "char_of (unat (of_nat (of_char c) :: u8)) = c" for c :: char
    by (simp add: unat_of_nat)
  then show ?thesis by (simp add: utf8_text_def str_bytes_def comp_def)
qed

section \<open>Errors of the validators\<close>

text \<open>Every error of the result satisfies \<open>P\<close>.\<close>

definition fails_in :: "('e \<Rightarrow> bool) \<Rightarrow> ('e, 'a) res \<Rightarrow> bool" where
  "fails_in P r = (case r of Inl e \<Rightarrow> P e | Inr _ \<Rightarrow> True)"

lemma fails_in_basic:
  "P e \<Longrightarrow> fails_in P (Inl e)" "fails_in P (Inr x)" "P e \<Longrightarrow> fails_in P (reject_if b e)"
  by (simp_all add: fails_in_def reject_if_def)

lemma fails_in_bind: "fails_in P r \<Longrightarrow> (\<And>x. fails_in P (f x)) \<Longrightarrow> fails_in P (res_bind r f)"
  by (cases r) (simp_all add: fails_in_def)

lemma fails_in_fold: "(\<And>x st. fails_in P (f x st)) \<Longrightarrow> fails_in P (res_fold f xs st)"
  by (induction xs arbitrary: st) (auto intro: fails_in_bind fails_in_basic)

lemma fails_in_map: "(\<And>x. fails_in P (f x)) \<Longrightarrow> fails_in P (res_map f xs)"
  by (induction xs) (auto intro!: fails_in_bind fails_in_basic)

lemma fails_in_if: "fails_in P x \<Longrightarrow> fails_in P y \<Longrightarrow> fails_in P (if b then x else y)"
  by simp

lemmas fails_in_intros = fails_in_basic fails_in_bind fails_in_fold fails_in_map fails_in_if

definition tunnel_invalid :: "TunnelError \<Rightarrow> bool" where
  "tunnel_invalid e = (case e of TunnelError.InvalidConfig _ \<Rightarrow> True | _ \<Rightarrow> False)"

definition proxy_invalid :: "ProxyError \<Rightarrow> bool" where
  "proxy_invalid e = (case e of ProxyError.InvalidConfig _ \<Rightarrow> True | _ \<Rightarrow> False)"

lemma invalid_simps [simp]: "tunnel_invalid (TunnelError.InvalidConfig m)" "proxy_invalid (ProxyError.InvalidConfig m)"
  by (simp_all add: tunnel_invalid_def proxy_invalid_def)

lemma server_validate_fails: "fails_in tunnel_invalid (server_validate c)"
proof -
  have name: "fails_in tunnel_invalid (validate_name kind n)" and key: "fails_in tunnel_invalid (validate_group_key k)" for kind n k
    by (auto simp: validate_name_def validate_group_key_def Let_def intro!: fails_in_intros)
  have "fails_in tunnel_invalid (validate_group g st)" for g st
    by (cases st) (auto simp: validate_group_def intro!: fails_in_intros name key)
  moreover have "fails_in tunnel_invalid (validate_tunnel_fields t)" for t
    by (auto simp: validate_tunnel_fields_def intro!: fails_in_intros)
  moreover from this have "fails_in tunnel_invalid (validate_tunnel gs t st)" for gs t st
    by (auto simp: validate_tunnel_def Let_def intro!: fails_in_intros name)
  ultimately show ?thesis by (auto simp: server_validate_def split: prod.splits intro!: fails_in_intros)
qed

lemma proxy_account_fails:
  "fails_in proxy_invalid (validate_acme_account a st)" "fails_in proxy_invalid (validate_dns_account d st)"
proof -
  have "fails_in proxy_invalid (acme_account_validate a)"
    by (auto simp: acme_account_validate_def reject_secret_def require_secret_def split: AcmeProvider.split intro!: fails_in_intros)
  then show "fails_in proxy_invalid (validate_acme_account a st)"
    by (auto simp: validate_acme_account_def validate_id_def validate_display_name_def insert_unique_def intro!: fails_in_intros)
  have "fails_in proxy_invalid (dns_account_validate d)"
    by (auto simp: dns_account_validate_def reject_secret_def require_secret_def intro!: fails_in_intros)
  then show "fails_in proxy_invalid (validate_dns_account d st)"
    by (auto simp: validate_dns_account_def validate_id_def validate_display_name_def insert_unique_def intro!: fails_in_intros)
qed

lemma proxy_certificate_fails: "fails_in proxy_invalid (validate_certificate acme dns c st)"
proof -
  have domain: "fails_in proxy_invalid (normalize_domain v)" for v by (auto simp: normalize_domain_def Let_def intro!: fails_in_intros)
  have "fails_in proxy_invalid (validate_domain n i d sc)" for n i d sc
    by (cases sc) (auto simp: validate_domain_def split: option.splits intro!: fails_in_intros domain)
  moreover have "fails_in proxy_invalid (validate_challenge dns c)" 
    by (auto simp: validate_challenge_def split: option.splits CertificateValidation.splits intro!: fails_in_intros)
  ultimately have "fails_in proxy_invalid (certificate_validate acme dns c owners)" for owners
    by (auto simp: certificate_validate_def split: prod.splits intro!: fails_in_intros)
  then show ?thesis
    by (auto simp: validate_certificate_def validate_id_def validate_display_name_def insert_unique_def split: prod.splits intro!: fails_in_intros)
qed

lemma proxy_route_fails: "fails_in proxy_invalid (validate_route pu known owners r st)"
proof -
  have "fails_in proxy_invalid (normalize_route_host v)" for v
    by (auto simp: normalize_route_host_def normalize_domain_def Let_def intro!: fails_in_intros)
  moreover have "fails_in proxy_invalid (validate_route_certificate known owners x)" for x
    by (auto simp: validate_route_certificate_def split: option.splits intro!: fails_in_intros)
  ultimately show ?thesis
    by (auto simp: validate_route_def validate_display_name_def insert_unique_def validate_path_prefix_def validate_upstream_def Let_def
        split: option.splits intro!: fails_in_intros)
qed

lemma proxy_validate_fails: "fails_in proxy_invalid (proxy_validate pu c)"
  by (auto simp: proxy_validate_def intro!: fails_in_intros proxy_account_fails proxy_certificate_fails proxy_route_fails)

lemma migrate_fails: "fails_in proxy_invalid (migrate l)"
  by (auto simp: migrate_def migrate_route_def Let_def split: option.splits intro!: fails_in_intros)

section \<open>The two formats\<close>

definition accepts_tunnel :: "(string \<Rightarrow> ServerConfig option) \<Rightarrow> string \<Rightarrow> ServerConfig option" where
  "accepts_tunnel from_str x = (case from_str x of Some c \<Rightarrow> if valid_server_config c then Some c else None | None \<Rightarrow> None)"

definition accepts_proxy :: "config_env \<Rightarrow> string \<Rightarrow> ProxyConfig option" where
  "accepts_proxy base x = (case proxy_read (base\<lparr>env_read := \<lambda>_. Inr x\<rparr>) current_dir of Inr c \<Rightarrow> Some c | Inl _ \<Rightarrow> None)"

lemma server_read_Inr: "server_read from_str fs p = Inr c \<longleftrightarrow> (\<exists>x. fs p = Inr x \<and> accepts_tunnel from_str x = Some c)"
  by (auto simp: server_read_def parse_config_def res_simps accepts_tunnel_def server_validate_exact split: sum.splits option.splits)

lemma server_load_ok: "(\<exists>c. server_load from_str fs p = Inr c) \<longleftrightarrow> (\<exists>c. server_read from_str fs p = Inr c)"
  by (auto simp: server_load_def res_simps)

interpretation tunnel_format: config_format "load_optional_tunnel from_str" "server_read from_str" "server_load from_str"
  "accepts_tunnel from_str" valid_server_config for from_str :: "string \<Rightarrow> ServerConfig option"
proof unfold_locales
  fix fs p c x
  show "server_read from_str fs p = Inr c \<longleftrightarrow> (\<exists>x. fs p = Inr x \<and> accepts_tunnel from_str x = Some c)" by (rule server_read_Inr)
  show "accepts_tunnel from_str x = Some c \<Longrightarrow> valid_server_config c" by (auto simp: accepts_tunnel_def split: option.splits if_splits)
  show "load_optional_tunnel from_str fs p = Inr (Some c) \<longleftrightarrow> server_read from_str fs p = Inr c"
    by (auto simp: load_optional_tunnel_def split: sum.splits TunnelError.splits io_error.splits)
  have "server_validate c' \<noteq> Inl (TunnelError.ReadConfig q e)" for c' q e
    using server_validate_fails[of c'] by (auto simp: fails_in_def tunnel_invalid_def)
  then show "load_optional_tunnel from_str fs p = Inr None \<Longrightarrow> fs p = Inl NotFound"
    by (auto simp: load_optional_tunnel_def server_read_def parse_config_def res_bind_def
        split: sum.splits TunnelError.splits io_error.splits option.splits)
  show "(\<exists>c. server_load from_str fs p = Inr c) \<longleftrightarrow> (\<exists>c. server_read from_str fs p = Inr c)" by (rule server_load_ok)
qed

lemma proxy_read_cases:
  "proxy_read (base\<lparr>env_read := fs\<rparr>) p =
     (case fs p of
        Inl e \<Rightarrow> Inl (ProxyError.ReadConfig p e)
      | Inr x \<Rightarrow> (case (case env_from_str base x of
                           Some c \<Rightarrow> Inr c
                         | None \<Rightarrow> (case env_from_legacy base x of Some legacy \<Rightarrow> migrate legacy | None \<Rightarrow> Inl (ProxyError.ParseConfig p))) of
                   Inl e \<Rightarrow> Inl e | Inr c \<Rightarrow> proxy_validate (env_uri base) c))"
  by (simp add: proxy_read_def res_bind_def cong: sum.case_cong option.case_cong)

lemma proxy_read_Inr: "proxy_read (base\<lparr>env_read := fs\<rparr>) p = Inr c \<longleftrightarrow> (\<exists>x. fs p = Inr x \<and> accepts_proxy base x = Some c)"
  unfolding accepts_proxy_def proxy_read_cases by (auto split: sum.splits option.splits)

lemma accepts_proxy_valid: "accepts_proxy base x = Some c \<Longrightarrow> valid_proxy_config (env_uri base) c"
  unfolding accepts_proxy_def proxy_read_cases by (auto simp: proxy_validate_Inr split: sum.splits option.splits)

interpretation proxy_format: config_format "load_optional_proxy base" "\<lambda>fs. proxy_read (base\<lparr>env_read := fs\<rparr>)"
  "\<lambda>fs. proxy_load (base\<lparr>env_read := fs\<rparr>)" "accepts_proxy base" "valid_proxy_config (env_uri base)" for base :: config_env
proof unfold_locales
  fix fs p c x
  show "proxy_read (base\<lparr>env_read := fs\<rparr>) p = Inr c \<longleftrightarrow> (\<exists>x. fs p = Inr x \<and> accepts_proxy base x = Some c)" by (rule proxy_read_Inr)
  show "accepts_proxy base x = Some c \<Longrightarrow> valid_proxy_config (env_uri base) c" by (rule accepts_proxy_valid)
  show "load_optional_proxy base fs p = Inr (Some c) \<longleftrightarrow> proxy_read (base\<lparr>env_read := fs\<rparr>) p = Inr c"
    by (auto simp: load_optional_proxy_def split: sum.splits ProxyError.splits io_error.splits)
  have "proxy_validate pu c' \<noteq> Inl (ProxyError.ReadConfig q e)" "migrate l \<noteq> Inl (ProxyError.ReadConfig q e)" for pu c' q e l
    using proxy_validate_fails[of pu c'] migrate_fails[of l] by (auto simp: fails_in_def proxy_invalid_def)
  then show "load_optional_proxy base fs p = Inr None \<Longrightarrow> fs p = Inl NotFound"
    unfolding load_optional_proxy_def proxy_read_cases
    by (auto split: sum.splits ProxyError.splits io_error.splits option.splits)
  show "(\<exists>c. proxy_load (base\<lparr>env_read := fs\<rparr>) p = Inr c) \<longleftrightarrow> (\<exists>c. proxy_read (base\<lparr>env_read := fs\<rparr>) p = Inr c)"
    by (auto simp: proxy_load_def res_simps Let_def)
qed

section \<open>A change is stored completely or not at all\<close>

text \<open>
  The file \<open>p\<close> before and after a change, and in every state in between: as it was, or
  the text of the changed configuration, which \<open>accepts\<close> reads as \<open>stored\<close>. No other file but
  the temporary one is touched.
\<close>

definition rewritten ::
  "(string \<Rightarrow> 'c option) \<Rightarrow> ('c \<Rightarrow> string option) \<Rightarrow> 'c \<Rightarrow> ('c \<Rightarrow> (ControlError, 'c) res) \<Rightarrow> path \<Rightarrow> path \<Rightarrow> fs_state \<Rightarrow> fs_state \<Rightarrow> 'c option \<Rightarrow> bool" where
  "rewritten accepts to_toml fallback mutate temporary p s s' stored =
     (\<exists>new. (case new of
               None \<Rightarrow> stored = None
             | Some b \<Rightarrow> \<exists>old config x c. mutate old = Inr config
                 \<and> (case fs_files s p of None \<Rightarrow> old = fallback | Some b0 \<Rightarrow> accepts (utf8_text b0) = Some old)
                 \<and> to_toml config = Some x \<and> b = str_bytes x \<and> accepts x = Some c)
        \<and> logs (\<lambda>fs. fs p \<in> {fs_files s p, if new = None then fs_files s p else new}) s s'
        \<and> fs_files s' p \<in> {fs_files s p, if new = None then fs_files s p else new}
        \<and> (case stored of None \<Rightarrow> True | Some c \<Rightarrow> \<exists>b. new = Some b \<and> fs_files s' p = Some b \<and> accepts (utf8_text b) = Some c)
        \<and> (\<forall>q. q = p \<or> q = temporary \<or> fs_files s' q = fs_files s q))"

context config_format
begin

lemma rewrite_file_rewritten:
  assumes run: "rewrite_file re to_toml load_optional read load fallback mutate random p s = (r, s')"
    and t: "temporary_name random p \<noteq> p" and re: "re p = None"
  shows "rewritten accepts to_toml fallback mutate (temporary_name random p) p s s' (case r of Inr x \<Rightarrow> Some (fst x) | Inl _ \<Rightarrow> None)"
proof -
  from rewrite_file_effect[OF assms] obtain new where
    new: "\<And>b. new = Some b \<Longrightarrow> (\<exists>old config x c. mutate old = Inr config
           \<and> (read (read_files re (fs_files s)) p = Inr old \<or> fs_files s p = None \<and> old = fallback)
           \<and> to_toml config = Some x \<and> b = str_bytes x \<and> accepts (utf8_text b) = Some c \<and> valid c)"
    and logs: "logs (\<lambda>fs. fs p = fs_files s p \<or> new \<noteq> None \<and> fs p = new) s s'" "fs_files s' p = fs_files s p \<or> new \<noteq> None \<and> fs_files s' p = new"
    and other: "\<forall>q. q \<noteq> p \<and> q \<noteq> temporary_name random p \<longrightarrow> fs_files s' q = fs_files s q"
    and ok: "\<forall>c d. r = Inr (c, d) \<longrightarrow> (\<exists>b. new = Some b \<and> fs_files s' p = new \<and> accepts (utf8_text b) = Some c)" by blast
  have cur: "read (read_files re (fs_files s)) p = Inr old \<or> fs_files s p = None \<and> old = fallback
      \<longleftrightarrow> (case fs_files s p of None \<Rightarrow> old = fallback | Some b0 \<Rightarrow> accepts (utf8_text b0) = Some old)" for old
    by (auto simp: read_files_accepts re split: option.splits)
  have "case new of
          None \<Rightarrow> (case r of Inr x \<Rightarrow> Some (fst x) | Inl _ \<Rightarrow> None) = None
        | Some b \<Rightarrow> \<exists>old config x c. mutate old = Inr config
            \<and> (case fs_files s p of None \<Rightarrow> old = fallback | Some b0 \<Rightarrow> accepts (utf8_text b0) = Some old)
            \<and> to_toml config = Some x \<and> b = str_bytes x \<and> accepts x = Some c"
  proof (cases new)
    case None
    with ok show ?thesis by (cases r) auto
  next
    case (Some b)
    from new[OF this] obtain old config x c where "mutate old = Inr config"
      "read (read_files re (fs_files s)) p = Inr old \<or> fs_files s p = None \<and> old = fallback"
      "to_toml config = Some x" "b = str_bytes x" "accepts (utf8_text b) = Some c" by blast
    with cur Some show ?thesis by auto
  qed
  moreover have "logs (\<lambda>fs. fs p \<in> {fs_files s p, if new = None then fs_files s p else new}) s s'"
    using logs(1) by (rule logs_mono) auto
  moreover have "case (case r of Inr x \<Rightarrow> Some (fst x) | Inl _ \<Rightarrow> None) of None \<Rightarrow> True
      | Some c \<Rightarrow> \<exists>b. new = Some b \<and> fs_files s' p = Some b \<and> accepts (utf8_text b) = Some c"
    using ok by (cases r) auto
  ultimately show ?thesis unfolding rewritten_def
    using logs(2) other by (intro exI[of _ new]) auto
qed

end


definition sample_store_env :: store_env where
  "sample_store_env =
     \<lparr>so_read_error = (\<lambda>_. None), so_random = (\<lambda>_. ''0011223344556677''), so_tunnel_to_toml = (\<lambda>_. Some ''tunnel''),
      so_tunnel_from_toml = (\<lambda>_. Some default_tunnel), so_proxy_to_toml = (\<lambda>_. Some ''proxy''),
      so_proxy_env = \<lparr>env_uri = (\<lambda>_. None), env_from_str = (\<lambda>_. Some default_proxy), env_from_legacy = (\<lambda>_. None), env_read = (\<lambda>_. Inl NotFound)\<rparr>,
      so_tunnel_wait = None, so_proxy_wait = None\<rparr>"

definition sample_store :: StoreInner where
  "sample_store =
     \<lparr>sn_tunnel = None, sn_proxy = None, sn_revision = 1, sn_dashboard = dashboard_for None None 1 True True,
      sn_tunnel_enabled = True, sn_proxy_enabled = True, sn_tunnel_path = Path True [''t.toml''], sn_proxy_path = Path True [''p.toml''],
      sn_fs = \<lparr>fs_files = (\<lambda>_. None), fs_ops = 0, fs_faults = (\<lambda>_. None), fs_log = []\<rparr>\<rparr>"


section \<open>Deletes and renames keep a configuration valid\<close>

lemma remove_named_Inr: "remove_named name kind target items = Inr xs \<Longrightarrow> xs = filter (\<lambda>x. name x \<noteq> target) items"
  by (auto simp: remove_named_def Let_def split: if_splits)

lemma distinct_map_filter_filter: "distinct (map f (filter P xs)) \<Longrightarrow> distinct (map f (filter P (filter Q xs)))"
  by (induction xs) auto

lemma length_filter_filter: "length (filter P xs) \<le> n \<Longrightarrow> length (filter P (filter Q xs)) \<le> n"
proof -
  have "length (filter P (filter Q xs)) \<le> length (filter P xs)" by (induction xs) auto
  then show "length (filter P xs) \<le> n \<Longrightarrow> length (filter P (filter Q xs)) \<le> n" by simp
qed

lemma length_filter_mono: "(\<And>x. x \<in> set xs \<Longrightarrow> P x \<Longrightarrow> Q x) \<Longrightarrow> length (filter P xs) \<le> length (filter Q xs)"
  by (induction xs) (auto intro: le_SucI)

lemma length_filter_bound: "length xs \<le> n \<Longrightarrow> length (filter Q xs) \<le> n"
  by (rule order_trans[OF length_filter_le])

lemma valid_fewer_tunnels:
  assumes "valid_server_config c" "gs = filter R (sc_groups c)" "\<forall>t \<in> set (sc_tunnels c). Q t \<longrightarrow> t_group t \<in> g_name ` set gs"
  shows "valid_server_config (c\<lparr>sc_groups := gs, sc_tunnels := filter Q (sc_tunnels c)\<rparr>)"
proof -
  note v = assms(1)[unfolded valid_server_config_def]
  have "length (filter (\<lambda>u. t_group u = g) (filter Q (sc_tunnels c))) \<le> 256" if "t \<in> set (sc_tunnels c)" "t_group t = g" for t g
    using v that by (intro length_filter_filter) auto
  with v assms(2,3) show ?thesis unfolding valid_server_config_def
    by (intro conjI) (auto intro: distinct_map_filter distinct_map_filter_filter length_filter_bound simp del: filter_filter)
qed

lemma delete_group_valid:
  assumes "valid_server_config c" "delete_group_change name c = Inr c'"
  shows "valid_server_config c' \<and> name \<notin> g_name ` set (sc_groups c') \<and> list_all (\<lambda>t. t_group t \<noteq> name) (sc_tunnels c')"
proof -
  have c': "c' = c\<lparr>sc_groups := filter (\<lambda>g. g_name g \<noteq> name) (sc_groups c), sc_tunnels := filter (\<lambda>t. t_group t \<noteq> name) (sc_tunnels c)\<rparr>"
    using assms(2) by (auto simp: delete_group_change_def res_simps dest!: remove_named_Inr)
  have "\<forall>t \<in> set (sc_tunnels c). t_group t \<noteq> name \<longrightarrow> t_group t \<in> g_name ` set (filter (\<lambda>g. g_name g \<noteq> name) (sc_groups c))"
    using assms(1) by (auto simp: valid_server_config_def)
  from valid_fewer_tunnels[OF assms(1) refl this] show ?thesis by (auto simp: c' list_all_iff)
qed

lemma delete_tunnel_valid:
  assumes "valid_server_config c" "delete_tunnel_change name c = Inr c'"
  shows "valid_server_config c' \<and> name \<notin> t_name ` set (sc_tunnels c')"
proof -
  have c': "c' = c\<lparr>sc_tunnels := filter (\<lambda>t. t_name t \<noteq> name) (sc_tunnels c)\<rparr>"
    using assms(2) by (auto simp: delete_tunnel_change_def res_simps dest!: remove_named_Inr)
  have "sc_groups c = filter (\<lambda>_. True) (sc_groups c)" "\<forall>t \<in> set (sc_tunnels c). t_name t \<noteq> name \<longrightarrow> t_group t \<in> g_name ` set (sc_groups c)"
    using assms(1) by (auto simp: valid_server_config_def)
  from valid_fewer_tunnels[OF assms(1) this] show ?thesis by (auto simp: c')
qed

lemma change_first_Some:
  "change_first q f xs = Some ys \<Longrightarrow> \<exists>as x bs. xs = as @ x # bs \<and> ys = as @ f x # bs \<and> q x \<and> (\<forall>a \<in> set as. \<not> q a)"
proof (induction xs arbitrary: ys)
  case (Cons a xs)
  show ?case
  proof (cases "q a")
    case True
    with Cons.prems show ?thesis by (intro exI[of _ "[]"]) auto
  next
    case False
    with Cons.prems obtain zs where "change_first q f xs = Some zs" "ys = a # zs" by auto
    with Cons.IH False obtain as x bs where "xs = as @ x # bs" "ys = (a # as) @ f x # bs" "q x" "\<forall>a \<in> set as. \<not> q a" by auto
    with False show ?thesis by (intro exI[of _ "a # as"]) auto
  qed
qed simp

text \<open>Renaming a group to a name that no other group has, with a key of its own, takes its tunnels along.\<close>

lemma rename_group_valid:
  assumes valid: "valid_server_config c" and change: "update_group_change original new c = Inr c'"
    and new: "valid_name (g_name new)" "valid_group_key (g_key new)"
    and fresh: "\<forall>g \<in> set (sc_groups c). g_name g \<noteq> original \<longrightarrow> g_name g \<noteq> g_name new \<and> g_key g \<noteq> g_key new"
  shows "valid_server_config c' \<and> map t_name (sc_tunnels c') = map t_name (sc_tunnels c)
    \<and> list_all2 (\<lambda>t t'. t_group t' = (if t_group t = original then g_name new else t_group t)) (sc_tunnels c) (sc_tunnels c')"
proof -
  let ?f = "\<lambda>t. if t_group t = original then t\<lparr>t_group := g_name new\<rparr> else t"
  obtain gs where gs: "change_first (\<lambda>g. g_name g = original) (\<lambda>_. new) (sc_groups c) = Some gs"
    and c': "c' = c\<lparr>sc_groups := gs, sc_tunnels := map ?f (sc_tunnels c)\<rparr>"
  proof -
    from change obtain gs where "change_first (\<lambda>g. g_name g = original) (\<lambda>_. new) (sc_groups c) = Some gs"
      "c' = c\<lparr>sc_groups := gs, sc_tunnels := (if original \<noteq> g_name new then map ?f (sc_tunnels c) else sc_tunnels c)\<rparr>"
      by (auto simp: update_group_change_def split: option.splits)
    moreover have "map ?f (sc_tunnels c) = sc_tunnels c" if "original = g_name new" using that by (auto intro!: map_idI)
    ultimately show thesis using that by auto
  qed
  from change_first_Some[OF gs] obtain as x bs where split: "sc_groups c = as @ x # bs" "gs = as @ new # bs" "g_name x = original" by blast
  note v = valid[unfolded valid_server_config_def]
  have other: "g_name g \<noteq> original" if "g \<in> set as \<union> set bs" for g
    using that v split(1) by (auto simp: split(3)[symmetric] image_iff dest: bspec)
  then have others: "g_name g \<noteq> original" "g_name g \<noteq> g_name new" "g_key g \<noteq> g_key new" if "g \<in> set as \<union> set bs" for g
    using that fresh split(1) by auto
  have "g_name new \<notin> g_name ` (set as \<union> set bs)" "g_key new \<notin> g_key ` (set as \<union> set bs)"
    using others by (metis imageE)+
  then have dn: "distinct (map g_name gs)" "distinct (map g_key gs)" using v by (auto simp: split)
  have in_groups: "t_group (?f t) \<in> g_name ` set gs" if "t \<in> set (sc_tunnels c)" for t
    using v that split by (auto simp: split)
  have count: "length (filter (\<lambda>u. t_group u = g) (map ?f (sc_tunnels c))) \<le> 256" for g
  proof -
    let ?h = "if g = g_name new then original else g"
    have no_new: "t_group t \<noteq> g_name new" if "t \<in> set (sc_tunnels c)" "g_name new \<noteq> original" for t
      using v that split others by (auto simp: split)
    have "length (filter (\<lambda>u. t_group u = g) (map ?f (sc_tunnels c))) \<le> length (filter (\<lambda>u. t_group u = ?h) (sc_tunnels c))"
      using no_new by (auto simp: filter_map comp_def intro!: length_filter_mono)
    also have "\<dots> \<le> 256"
    proof (cases "\<exists>t \<in> set (sc_tunnels c). t_group t = ?h")
      case True
      then obtain t where t: "t \<in> set (sc_tunnels c)" "t_group t = ?h" by blast
      from v t(1) have "length (filter (\<lambda>u. t_group u = t_group t) (sc_tunnels c)) \<le> 256" by blast
      then show ?thesis by (simp only: t(2))
    next
      case False
      then have "filter (\<lambda>u. t_group u = ?h) (sc_tunnels c) = []" by (auto simp: filter_empty_conv)
      then show ?thesis by simp
    qed
    finally show ?thesis .
  qed
  have same: "valid_tunnel (?f t) = valid_tunnel t" "t_name (?f t) = t_name t" "t_bind (?f t) = t_bind t" "t_kind (?f t) = t_kind t" for t
    by (auto simp: valid_tunnel_def)
  have maps: "map t_name (map ?f ts) = map t_name ts" "map t_bind (filter (\<lambda>t. t_kind t = Udp) (map ?f ts)) = map t_bind (filter (\<lambda>t. t_kind t = Udp) ts)"
    "map t_bind (filter (\<lambda>t. t_kind t \<noteq> Udp) (map ?f ts)) = map t_bind (filter (\<lambda>t. t_kind t \<noteq> Udp) ts)" for ts
    by (induction ts) auto
  have ts: "\<forall>t \<in> set (map ?f (sc_tunnels c)). valid_tunnel t \<and> t_group t \<in> g_name ` set gs
      \<and> length (filter (\<lambda>u. t_group u = t_group t) (map ?f (sc_tunnels c))) \<le> 256"
  proof
    fix u assume "u \<in> set (map ?f (sc_tunnels c))"
    then obtain t where t: "t \<in> set (sc_tunnels c)" and u: "u = ?f t" by auto
    from v t have "valid_tunnel t" by blast
    then show "valid_tunnel u \<and> t_group u \<in> g_name ` set gs
      \<and> length (filter (\<lambda>w. t_group w = t_group u) (map ?f (sc_tunnels c))) \<le> 256"
      unfolding u using same(1) in_groups[OF t] count by (intro conjI) blast+
  qed
  have gs_ok: "length gs \<le> 256" "\<forall>g \<in> set gs. valid_name (g_name g) \<and> valid_group_key (g_key g)"
    using v new by (auto simp: split)
  have parts: "sc_groups c' = gs" "sc_tunnels c' = map ?f (sc_tunnels c)" by (simp_all add: c')
  have "valid_server_config c'"
    unfolding valid_server_config_def parts maps length_map using v dn gs_ok ts by blast
  then show ?thesis by (auto simp: c' list_all2_conv_all_nth)
qed

lemma delete_acme_valid:
  assumes "valid_proxy_config pu d" "delete_acme_change i d = Inr d'"
  shows "valid_proxy_config pu d'"
proof -
  have d': "d' = d\<lparr>pc_acme_accounts := filter (\<lambda>a. aa_id a \<noteq> i) (pc_acme_accounts d)\<rparr>"
    and unused: "\<forall>x \<in> set (pc_certificates d). ce_acme_account_id x \<noteq> i"
    using assms(2) by (auto simp: delete_acme_change_def res_simps list_ex_iff split: if_splits dest!: remove_named_Inr)
  have "valid_certificate (set (map aa_id (filter (\<lambda>a. aa_id a \<noteq> i) as))) D x"
    if "valid_certificate (set (map aa_id as)) D x" "ce_acme_account_id x \<noteq> i" for as :: "AcmeAccountConfig list" and D x
    using that by (auto simp: valid_certificate_def)
  with assms(1) unused show ?thesis unfolding valid_proxy_config_def d'
    by (auto simp: list_all_iff simp del: set_map intro: distinct_map_filter length_filter_bound)
qed

lemma delete_dns_valid:
  assumes "valid_proxy_config pu d" "delete_dns_change i d = Inr d'"
  shows "valid_proxy_config pu d'"
proof -
  have d': "d' = d\<lparr>pc_dns_accounts := filter (\<lambda>a. da_id a \<noteq> i) (pc_dns_accounts d)\<rparr>"
    and unused: "\<forall>x \<in> set (pc_certificates d). ce_validation x \<noteq> Some (DnsAccount i)"
    using assms(2) by (auto simp: delete_dns_change_def res_simps list_ex_iff split: if_splits dest!: remove_named_Inr)
  have "challenge_ok (set (map da_id (filter (\<lambda>a. da_id a \<noteq> i) (pc_dns_accounts d)))) x"
    if "challenge_ok (set (map da_id (pc_dns_accounts d))) x" "ce_validation x \<noteq> Some (DnsAccount i)" for x
    using that by (auto simp: challenge_ok_def split: option.splits CertificateValidation.splits)
  with assms(1) unused show ?thesis unfolding valid_proxy_config_def d'
    by (auto simp: list_all_iff valid_certificate_def intro: distinct_map_filter length_filter_bound)
qed

lemma distinct_concat_filter: "distinct (concat (map f xs)) \<Longrightarrow> distinct (concat (map f (filter P xs)))"
  by (induction xs) auto

lemma covers_fewer: "covers cs x host \<Longrightarrow> covers (filter P cs) x host"
  by (auto simp: covers_def lists_domain_def list_ex_iff)

lemma delete_certificate_valid:
  assumes "valid_proxy_config pu d" "delete_certificate_change i d = Inr d'"
  shows "valid_proxy_config pu d'"
proof -
  have d': "d' = d\<lparr>pc_certificates := filter (\<lambda>x. ce_id x \<noteq> i) (pc_certificates d)\<rparr>"
    and unused: "\<forall>r \<in> set (pc_routes d). rc_certificate_id r \<noteq> Some i"
    using assms(2) by (auto simp: delete_certificate_change_def res_simps list_ex_iff split: if_splits dest!: remove_named_Inr)
  have "valid_route pu (filter (\<lambda>x. ce_id x \<noteq> i) cs) r" if "valid_route pu cs r" "rc_certificate_id r \<noteq> Some i" for cs r
    using that by (auto simp: valid_route_def list_ex_iff covers_fewer split: option.splits)
  with assms(1) unused show ?thesis unfolding valid_proxy_config_def d'
    by (auto simp: list_all_iff intro: distinct_map_filter length_filter_bound distinct_concat_filter)
qed

lemma delete_route_valid:
  assumes "valid_proxy_config pu d" "delete_route_change name d = Inr d'"
  shows "valid_proxy_config pu d'"
proof -
  have d': "d' = d\<lparr>pc_routes := filter (\<lambda>r. rc_name r \<noteq> name) (pc_routes d)\<rparr>"
    using assms(2) by (auto simp: delete_route_change_def res_simps dest!: remove_named_Inr)
  show ?thesis using assms(1) unfolding valid_proxy_config_def d'
    by (auto simp: list_all_iff intro: distinct_map_filter length_filter_bound)
qed

text \<open>
  C33: No delete leaves a dangling reference. A deleted group takes its tunnels along, a deleted
  tunnel is gone, an account or a certificate that is deleted was not in use, and the resulting
  configuration still passes validation; a group that gets a fresh name and key keeps its tunnels,
  which follow it to the new name. So none of these requests can be refused by the validation of
  the rewritten file.
\<close>

theorem deletes_keep_valid:
  assumes "valid_server_config c" "valid_proxy_config pu d"
  shows "(\<forall>c'. delete_group_change name c = Inr c' \<longrightarrow>
            valid_server_config c' \<and> name \<notin> g_name ` set (sc_groups c') \<and> list_all (\<lambda>t. t_group t \<noteq> name) (sc_tunnels c'))
    \<and> (\<forall>c'. delete_tunnel_change name c = Inr c' \<longrightarrow> valid_server_config c' \<and> name \<notin> t_name ` set (sc_tunnels c'))
    \<and> (\<forall>new c'. update_group_change name new c = Inr c' \<and> valid_name (g_name new) \<and> valid_group_key (g_key new)
          \<and> (\<forall>g \<in> set (sc_groups c). g_name g \<noteq> name \<longrightarrow> g_name g \<noteq> g_name new \<and> g_key g \<noteq> g_key new) \<longrightarrow>
            valid_server_config c' \<and> map t_name (sc_tunnels c') = map t_name (sc_tunnels c)
            \<and> list_all2 (\<lambda>t t'. t_group t' = (if t_group t = name then g_name new else t_group t)) (sc_tunnels c) (sc_tunnels c'))
    \<and> (\<forall>d'. delete_acme_change i d = Inr d' \<or> delete_dns_change i d = Inr d' \<or> delete_certificate_change i d = Inr d'
          \<or> delete_route_change name d = Inr d' \<longrightarrow> valid_proxy_config pu d')"
proof (intro conjI allI impI)
  show "valid_proxy_config pu d'" if "delete_acme_change i d = Inr d' \<or> delete_dns_change i d = Inr d' \<or> delete_certificate_change i d = Inr d'
      \<or> delete_route_change name d = Inr d'" for d'
    using that by (blast intro: delete_acme_valid delete_dns_valid delete_certificate_valid delete_route_valid assms(2))
qed (auto dest: delete_group_valid[OF assms(1)] delete_tunnel_valid[OF assms(1)] rename_group_valid[OF assms(1)])

definition sample_stored_server :: ServerConfig where
  "sample_stored_server =
     \<lparr>sc_quic = \<lparr>q_bind = SocketAddrV4 0 443, q_certificate = Path True [''cert''], q_private_key = Path True [''key'']\<rparr>,
      sc_groups = [\<lparr>g_name = ''team'', g_key = replicate 32 CHR ''k''\<rparr>], sc_tunnels = [sample_tunnel]\<rparr>"

lemma sample_stored_server_valid: "valid_server_config sample_stored_server"
proof -
  have "valid_name ''team''" "valid_group_key (replicate 32 CHR ''k'')" by code_simp+
  then show ?thesis using sample_tunnel_valid
    by (simp add: valid_server_config_def sample_stored_server_def) (simp add: sample_tunnel_def)
qed

theorem deletes_keep_valid_witness:
  "\<exists>c' d'. delete_group_change ''team'' sample_stored_server = Inr c' \<and> valid_server_config c' \<and> sc_tunnels c' = []
    \<and> delete_certificate_change ''site'' sample_tls_config = Inl (ResourceConflict ''a route uses the certificate'')
    \<and> delete_route_change ''root'' sample_tls_config = Inr d' \<and> valid_proxy_config (\<lambda>_. Some sample_uri) d'"
proof -
  obtain c' where c': "delete_group_change ''team'' sample_stored_server = Inr c'" "sc_tunnels c' = []"
    by (simp add: delete_group_change_def remove_named_def sample_stored_server_def sample_tunnel_def)
  obtain d' where d': "delete_route_change ''root'' sample_tls_config = Inr d'"
    by (simp add: delete_route_change_def remove_named_def sample_tls_config_def)
  have "delete_certificate_change ''site'' sample_tls_config = Inl (ResourceConflict ''a route uses the certificate'')"
    by (simp add: delete_certificate_change_def sample_tls_config_def)
  with c' d' show ?thesis
    using deletes_keep_valid[OF sample_stored_server_valid sample_tls_config_valid, of "''team''"]
      deletes_keep_valid[OF sample_stored_server_valid sample_tls_config_valid, of "''root''"] by blast
qed

end
