(* ===== verification/Control_Api.thy ===== *)
theory Control_Api
  imports Config_Store Tunnel_Runtime
begin

text \<open>
  \<open>gaterust-control/src/api.rs\<close> and \<open>lib.rs\<close>: the HTTP interface of the console, over the login service
  (\<open>Control_Auth\<close>), the store (\<open>Config_Store\<close>), the tunnel runtime and the certificate manager. A request
  is its method, the decoded segments of its path, the address of the peer, the \<open>Authorization\<close> header and
  the body. What \<open>axum\<close> and \<open>serde\<close> do is a parameter: the decoding of bodies and path
  segments, with the status of their rejection.
\<close>

section \<open>Requests and responses\<close>

datatype http_method = GET | POST | PUT | DELETE

record api_request =
  aq_method :: http_method
  aq_path :: "string list"
  aq_address :: IpAddr
  aq_authorization :: "string option"
  aq_body :: bytes

datatype api_body =
  NoBody
| ErrorBody string
| LoginBody string nat
| SnapshotBody "ServerConfig option" "ProxyConfigView option"
| EventsBody Dashboard
| TunnelConfigBody ServerConfig
| ProxyConfigBody ProxyConfigView
| KeyBody string
| TunnelRuntimeBody TunnelRuntimeSnapshot
| ProxyRuntimeBody "CertificateRuntimeStatus list"
| ClientConfigBody string

record api_response =
  ar_status :: nat
  ar_token :: "string option" \<comment> \<open>\<open>REFRESHED_TOKEN_HEADER\<close>\<close>
  ar_body :: api_body

record ClientConfigRequest =
  cq_group :: string
  cq_server_address :: string
  cq_server_name :: "string option"
  cq_ca_certificate :: "path option"
  cq_services :: "ClientServiceConfig list"

record ApiState =
  ap_auth :: AuthInner
  ap_store :: StoreInner
  ap_tunnel :: "TunnelRuntime option"
  ap_proxy :: "manager option"

type_synonym 'a decoder = "bytes \<Rightarrow> (nat, 'a) res"

record api_env =
  an_auth :: login_env
  an_store :: store_env
  an_login :: "(string \<times> string) decoder"
  an_quic :: "ServerQuicConfig decoder"
  an_group :: "GroupConfig decoder"
  an_tunnel :: "ServerTunnelConfig decoder"
  an_listener :: "ProxyListenerConfig decoder"
  an_acme :: "AcmeAccountRequest decoder"
  an_dns :: "DnsAccountRequest decoder"
  an_certificate :: "CertificateConfig decoder"
  an_route :: "RouteConfig decoder"
  an_client :: "ClientConfigRequest decoder"
  an_u64 :: "string \<Rightarrow> (nat, u64) res"
  an_dns_test :: "DnsAccountConfig \<Rightarrow> (string, unit) res"
  an_header_value :: "string \<Rightarrow> bool"
  an_to_toml :: "ClientConfig \<Rightarrow> string option"
  an_key :: string
  an_begun :: nat
  an_now :: nat
  an_unix :: "nat option"
  an_joined :: bool
  an_clock :: nat \<comment> \<open>the clock of the token library\<close>

definition MAX_API_BODY_BYTES :: nat where "MAX_API_BODY_BYTES = 512 * 1024"

definition api_error :: "nat \<Rightarrow> string \<Rightarrow> api_response" where
  "api_error status message = \<lparr>ar_status = status, ar_token = None, ar_body = ErrorBody message\<rparr>"

definition api_ok :: "nat \<Rightarrow> api_body \<Rightarrow> api_response" where
  "api_ok status body = \<lparr>ar_status = status, ar_token = None, ar_body = body\<rparr>"

text \<open>\<open>ApiError::from_control\<close> and \<open>saved\<close>.\<close>

definition from_control :: "ControlError \<Rightarrow> api_response" where
  "from_control e =
     api_error
       (case e of
          ResourceNotFound _ _ \<Rightarrow> 404
        | ResourceConflict _ \<Rightarrow> 409
        | TunnelRuntimeApply _ \<Rightarrow> 409
        | ProxyRuntimeApply _ \<Rightarrow> 409
        | _ \<Rightarrow> 400) ''configuration request failed''"

definition saved :: "('a \<Rightarrow> api_body) \<Rightarrow> (ControlError, 'a) res \<Rightarrow> api_response" where
  "saved body result = (case result of Inl e \<Rightarrow> from_control e | Inr x \<Rightarrow> api_ok 200 (body x))"

text \<open>The \<open>Json\<close> extractor under \<open>DefaultBodyLimit\<close>: a handler runs only with a decoded body.\<close>

definition with_body :: "'a decoder \<Rightarrow> api_request \<Rightarrow> ApiState \<Rightarrow> ('a \<Rightarrow> api_response \<times> ApiState) \<Rightarrow> api_response \<times> ApiState" where
  "with_body decode rq st handler =
     (if length (aq_body rq) > MAX_API_BODY_BYTES then (api_error 413 ''body too large'', st)
      else case decode (aq_body rq) of Inl status \<Rightarrow> (api_error status ''invalid body'', st) | Inr x \<Rightarrow> handler x)"

section \<open>The handlers\<close>

definition api_login :: "api_env \<Rightarrow> api_request \<Rightarrow> ApiState \<Rightarrow> api_response \<times> ApiState" where
  "api_login env rq st =
     with_body (an_login env) rq st (\<lambda>(username, password).
       case login (an_auth env)
              \<lparr>lg_begun = an_begun env, lg_now = an_now env, lg_unix = an_unix env, lg_joined = an_joined env,
               lg_address = aq_address rq, lg_username = username, lg_password = password\<rparr> (ap_auth st) of
         (result, auth) \<Rightarrow>
           ((case result of
               Inr token \<Rightarrow> api_ok 200 (LoginBody (tk_value token) (tk_expires_at token))
             | Inl InvalidCredentials \<Rightarrow> api_error 401 ''wrong user name or password''
             | Inl RateLimited \<Rightarrow> api_error 429 ''too many attempts''
             | Inl Internal \<Rightarrow> api_error 500 ''authentication is unavailable''), st\<lparr>ap_auth := auth\<rparr>))"

definition bearer_token :: "api_request \<Rightarrow> string option" where
  "bearer_token rq = Option.bind (aq_authorization rq) (strip_prefix ''Bearer '')"

text \<open>\<open>require_auth\<close>: the time at which the token was issued, when it is valid.\<close>

definition require_auth :: "api_env \<Rightarrow> api_request \<Rightarrow> ApiState \<Rightarrow> nat option" where
  "require_auth env rq st = Option.bind (bearer_token rq) (\<lambda>token. verify_token (an_auth env) (an_clock env) token (ap_auth st))"

definition api_session :: "api_env \<Rightarrow> nat \<Rightarrow> ApiState \<Rightarrow> api_response" where
  "api_session env issued_at st =
     (case refresh_token (an_auth env) (an_unix env) issued_at (ap_auth st) of
        Inl _ \<Rightarrow> api_error 500 ''authentication is unavailable''
      | Inr None \<Rightarrow> api_ok 204 NoBody
      | Inr (Some token) \<Rightarrow>
          if an_header_value env (tk_value token) then (api_ok 204 NoBody)\<lparr>ar_token := Some (tk_value token)\<rparr>
          else api_error 500 ''authentication is unavailable'')"

definition api_get_config :: "ApiState \<Rightarrow> api_response" where
  "api_get_config st = api_ok 200 (SnapshotBody (sn_tunnel (ap_store st)) (sn_proxy (ap_store st)))"

text \<open>The first event of the stream; every change of the dashboard sends a further one.\<close>

definition api_events :: "ApiState \<Rightarrow> api_response" where
  "api_events st = api_ok 200 (EventsBody (sn_dashboard (ap_store st)))"

definition tunnel_change :: "api_env \<Rightarrow> (ServerConfig \<Rightarrow> (ControlError, ServerConfig) res) \<Rightarrow> ApiState \<Rightarrow> api_response \<times> ApiState" where
  "tunnel_change env change st =
     (case mutate_tunnel (an_store env) change (ap_store st) of
        (result, store) \<Rightarrow> (saved TunnelConfigBody result, st\<lparr>ap_store := store\<rparr>))"

definition proxy_change :: "(StoreInner \<Rightarrow> (ControlError, ProxyConfigView) res \<times> StoreInner) \<Rightarrow> ApiState \<Rightarrow> api_response \<times> ApiState" where
  "proxy_change run st =
     (case run (ap_store st) of (result, store) \<Rightarrow> (saved ProxyConfigBody result, st\<lparr>ap_store := store\<rparr>))"

definition api_set_tunnel_quic :: "api_env \<Rightarrow> api_request \<Rightarrow> ApiState \<Rightarrow> api_response \<times> ApiState" where
  "api_set_tunnel_quic env rq st = with_body (an_quic env) rq st (\<lambda>x. tunnel_change env (set_quic_change x) st)"

definition api_create_group :: "api_env \<Rightarrow> api_request \<Rightarrow> ApiState \<Rightarrow> api_response \<times> ApiState" where
  "api_create_group env rq st = with_body (an_group env) rq st (\<lambda>x. tunnel_change env (create_group_change x) st)"

definition api_update_group :: "api_env \<Rightarrow> string \<Rightarrow> api_request \<Rightarrow> ApiState \<Rightarrow> api_response \<times> ApiState" where
  "api_update_group env name rq st = with_body (an_group env) rq st (\<lambda>x. tunnel_change env (update_group_change name x) st)"

definition api_delete_group :: "api_env \<Rightarrow> string \<Rightarrow> ApiState \<Rightarrow> api_response \<times> ApiState" where
  "api_delete_group env name st = tunnel_change env (delete_group_change name) st"

definition api_create_tunnel :: "api_env \<Rightarrow> api_request \<Rightarrow> ApiState \<Rightarrow> api_response \<times> ApiState" where
  "api_create_tunnel env rq st = with_body (an_tunnel env) rq st (\<lambda>x. tunnel_change env (create_tunnel_change x) st)"

definition api_update_tunnel :: "api_env \<Rightarrow> string \<Rightarrow> api_request \<Rightarrow> ApiState \<Rightarrow> api_response \<times> ApiState" where
  "api_update_tunnel env name rq st = with_body (an_tunnel env) rq st (\<lambda>x. tunnel_change env (update_tunnel_change name x) st)"

definition api_delete_tunnel :: "api_env \<Rightarrow> string \<Rightarrow> ApiState \<Rightarrow> api_response \<times> ApiState" where
  "api_delete_tunnel env name st = tunnel_change env (delete_tunnel_change name) st"

definition api_set_proxy_listener :: "api_env \<Rightarrow> api_request \<Rightarrow> ApiState \<Rightarrow> api_response \<times> ApiState" where
  "api_set_proxy_listener env rq st =
     with_body (an_listener env) rq st (\<lambda>x. proxy_change (mutate_proxy (an_store env) (set_listener_change x)) st)"

definition api_create_acme_account :: "api_env \<Rightarrow> api_request \<Rightarrow> ApiState \<Rightarrow> api_response \<times> ApiState" where
  "api_create_acme_account env rq st =
     with_body (an_acme env) rq st (\<lambda>x. proxy_change (mutate_proxy (an_store env) (create_acme_change x)) st)"

definition api_update_acme_account :: "api_env \<Rightarrow> string \<Rightarrow> api_request \<Rightarrow> ApiState \<Rightarrow> api_response \<times> ApiState" where
  "api_update_acme_account env i rq st =
     with_body (an_acme env) rq st (\<lambda>x. proxy_change (mutate_proxy (an_store env) (update_acme_change i x)) st)"

definition api_delete_acme_account :: "api_env \<Rightarrow> string \<Rightarrow> ApiState \<Rightarrow> api_response \<times> ApiState" where
  "api_delete_acme_account env i st = proxy_change (mutate_proxy (an_store env) (delete_acme_change i)) st"

definition api_create_dns_account :: "api_env \<Rightarrow> api_request \<Rightarrow> ApiState \<Rightarrow> api_response \<times> ApiState" where
  "api_create_dns_account env rq st =
     with_body (an_dns env) rq st (\<lambda>x. proxy_change (mutate_proxy (an_store env) (create_dns_change x)) st)"

definition api_update_dns_account :: "api_env \<Rightarrow> string \<Rightarrow> api_request \<Rightarrow> ApiState \<Rightarrow> api_response \<times> ApiState" where
  "api_update_dns_account env i rq st =
     with_body (an_dns env) rq st (\<lambda>x. proxy_change (mutate_proxy (an_store env) (update_dns_change i x)) st)"

definition api_delete_dns_account :: "api_env \<Rightarrow> string \<Rightarrow> ApiState \<Rightarrow> api_response \<times> ApiState" where
  "api_delete_dns_account env i st = proxy_change (mutate_proxy (an_store env) (delete_dns_change i)) st"

definition api_create_certificate :: "api_env \<Rightarrow> api_request \<Rightarrow> ApiState \<Rightarrow> api_response \<times> ApiState" where
  "api_create_certificate env rq st =
     with_body (an_certificate env) rq st (\<lambda>x. proxy_change (create_certificate (an_store env) x) st)"

definition api_update_certificate :: "api_env \<Rightarrow> string \<Rightarrow> api_request \<Rightarrow> ApiState \<Rightarrow> api_response \<times> ApiState" where
  "api_update_certificate env i rq st =
     with_body (an_certificate env) rq st (\<lambda>x. proxy_change (update_certificate (an_store env) i x) st)"

definition api_delete_certificate :: "api_env \<Rightarrow> string \<Rightarrow> ApiState \<Rightarrow> api_response \<times> ApiState" where
  "api_delete_certificate env i st = proxy_change (mutate_proxy (an_store env) (delete_certificate_change i)) st"

definition api_create_route :: "api_env \<Rightarrow> api_request \<Rightarrow> ApiState \<Rightarrow> api_response \<times> ApiState" where
  "api_create_route env rq st =
     with_body (an_route env) rq st (\<lambda>x. proxy_change (mutate_proxy (an_store env) (create_route_change x)) st)"

definition api_update_route :: "api_env \<Rightarrow> string \<Rightarrow> api_request \<Rightarrow> ApiState \<Rightarrow> api_response \<times> ApiState" where
  "api_update_route env name rq st =
     with_body (an_route env) rq st (\<lambda>x. proxy_change (mutate_proxy (an_store env) (update_route_change name x)) st)"

definition api_delete_route :: "api_env \<Rightarrow> string \<Rightarrow> ApiState \<Rightarrow> api_response \<times> ApiState" where
  "api_delete_route env name st = proxy_change (mutate_proxy (an_store env) (delete_route_change name)) st"

definition api_test_dns_account :: "api_env \<Rightarrow> string \<Rightarrow> ApiState \<Rightarrow> api_response" where
  "api_test_dns_account env i st =
     (case dns_account (an_store env) i (ap_store st) of
        Inl e \<Rightarrow> from_control e
      | Inr account \<Rightarrow>
          if ap_proxy st = None then api_error 409 ''the proxy is not running''
          else case an_dns_test env account of Inl e \<Rightarrow> api_error 502 e | Inr _ \<Rightarrow> api_ok 204 NoBody)"

text \<open>\<open>issue_certificate\<close> and \<open>continue_certificate\<close>: the manager answers the command.\<close>

definition certificate_command :: "(manager \<Rightarrow> (ProxyError, unit) res \<times> manager) \<Rightarrow> ApiState \<Rightarrow> api_response \<times> ApiState" where
  "certificate_command command st =
     (case ap_proxy st of
        None \<Rightarrow> (api_error 409 ''the proxy is not running'', st)
      | Some m \<Rightarrow>
          (case command m of
             (result, m) \<Rightarrow>
               ((case result of Inl _ \<Rightarrow> api_error 409 ''the certificate cannot be issued'' | Inr _ \<Rightarrow> api_ok 202 NoBody),
                st\<lparr>ap_proxy := Some m\<rparr>)))"

definition api_issue_certificate :: "string \<Rightarrow> ApiState \<Rightarrow> api_response \<times> ApiState" where
  "api_issue_certificate i = certificate_command (start_issue i False)"

definition api_continue_certificate :: "string \<Rightarrow> ApiState \<Rightarrow> api_response \<times> ApiState" where
  "api_continue_certificate i = certificate_command (start_continue i)"

definition api_proxy_runtime :: "ApiState \<Rightarrow> api_response" where
  "api_proxy_runtime st =
     (case ap_proxy st of None \<Rightarrow> api_error 409 ''the proxy is not running'' | Some m \<Rightarrow> api_ok 200 (ProxyRuntimeBody (mg_snapshot m)))"

definition api_generate_key :: "api_env \<Rightarrow> api_response" where
  "api_generate_key env = api_ok 200 (KeyBody (an_key env))"

definition api_tunnel_runtime :: "ApiState \<Rightarrow> api_response" where
  "api_tunnel_runtime st =
     (case ap_tunnel st of None \<Rightarrow> api_error 409 ''the tunnel is not running'' | Some rt \<Rightarrow> api_ok 200 (TunnelRuntimeBody (snapshot rt)))"

definition api_disconnect_tunnel :: "api_env \<Rightarrow> string \<Rightarrow> string \<Rightarrow> ApiState \<Rightarrow> api_response \<times> ApiState" where
  "api_disconnect_tunnel env session name st =
     (case an_u64 env session of
        Inl status \<Rightarrow> (api_error status ''invalid session id'', st)
      | Inr session_id \<Rightarrow>
          (case ap_tunnel st of
             None \<Rightarrow> (api_error 409 ''the tunnel is not running'', st)
           | Some rt \<Rightarrow>
               (case disconnect_tunnel session_id name rt of
                  (result, rt) \<Rightarrow>
                    ((case result of
                        Inr _ \<Rightarrow> api_ok 204 NoBody
                      | Inl SessionNotFound \<Rightarrow> api_error 404 ''no such session''
                      | Inl TunnelNotFound \<Rightarrow> api_error 404 ''no such tunnel''
                      | Inl NotOwnedBySession \<Rightarrow> api_error 409 ''the owner of the tunnel has changed''),
                     st\<lparr>ap_tunnel := Some rt\<rparr>))))"

definition api_generate_client_config :: "api_env \<Rightarrow> api_request \<Rightarrow> ApiState \<Rightarrow> api_response \<times> ApiState" where
  "api_generate_client_config env rq st =
     with_body (an_client env) rq st (\<lambda>q.
       ((case sn_tunnel (ap_store st) of
           None \<Rightarrow> api_error 409 ''no tunnel is configured''
         | Some tunnel \<Rightarrow>
             (case List.find (\<lambda>g. g_name g = cq_group q) (sc_groups tunnel) of
                None \<Rightarrow> api_error 400 ''no such group''
              | Some g \<Rightarrow>
                  let config = \<lparr>cc_key = g_key g,
                                cc_server = \<lparr>cs_address = cq_server_address q, cs_name = cq_server_name q, cs_ca_certificate = cq_ca_certificate q\<rparr>,
                                cc_services = cq_services q\<rparr> in
                  if \<not> is_ok (client_validate config) then api_error 400 ''invalid client configuration''
                  else case an_to_toml env config of
                    None \<Rightarrow> api_error 500 ''the client configuration cannot be written''
                  | Some toml \<Rightarrow> api_ok 200 (ClientConfigBody toml))), st))"

section \<open>The router\<close>

text \<open>A handler gets the path parameters and the time at which the token of the request was issued.\<close>

datatype segment = Lit string | Param

type_synonym handler = "string list \<Rightarrow> nat \<Rightarrow> api_request \<Rightarrow> ApiState \<Rightarrow> api_response \<times> ApiState"

fun match_route :: "segment list \<Rightarrow> string list \<Rightarrow> string list option" where
  "match_route [] [] = Some []"
| "match_route (Lit a # ps) (b # bs) = (if a = b then match_route ps bs else None)"
| "match_route (Param # ps) (b # bs) = map_option ((#) b) (match_route ps bs)"
| "match_route _ _ = None"

definition no_params :: "(api_request \<Rightarrow> ApiState \<Rightarrow> api_response \<times> ApiState) \<Rightarrow> handler" where
  "no_params h params issued_at = h"

definition one_param :: "(string \<Rightarrow> api_request \<Rightarrow> ApiState \<Rightarrow> api_response \<times> ApiState) \<Rightarrow> handler" where
  "one_param h params issued_at = h (hd params)"

definition reading :: "(ApiState \<Rightarrow> api_response) \<Rightarrow> api_request \<Rightarrow> ApiState \<Rightarrow> api_response \<times> ApiState" where
  "reading f rq st = (f st, st)"

definition tunnel_routes :: "api_env \<Rightarrow> (segment list \<times> (http_method \<times> handler) list) list" where
  "tunnel_routes env =
     [([Lit ''config'', Lit ''tunnel'', Lit ''quic''], [(PUT, no_params (api_set_tunnel_quic env))]),
      ([Lit ''config'', Lit ''tunnel'', Lit ''groups''], [(POST, no_params (api_create_group env))]),
      ([Lit ''config'', Lit ''tunnel'', Lit ''groups'', Param],
         [(PUT, one_param (api_update_group env)), (DELETE, one_param (\<lambda>n _. api_delete_group env n))]),
      ([Lit ''config'', Lit ''tunnel'', Lit ''tunnels''], [(POST, no_params (api_create_tunnel env))]),
      ([Lit ''config'', Lit ''tunnel'', Lit ''tunnels'', Param],
         [(PUT, one_param (api_update_tunnel env)), (DELETE, one_param (\<lambda>n _. api_delete_tunnel env n))]),
      ([Lit ''groups'', Lit ''key''], [(POST, no_params (reading (\<lambda>_. api_generate_key env)))]),
      ([Lit ''tunnel'', Lit ''runtime''], [(GET, no_params (reading api_tunnel_runtime))]),
      ([Lit ''tunnel'', Lit ''sessions'', Param, Lit ''tunnels'', Param],
         [(DELETE, \<lambda>params _ _. api_disconnect_tunnel env (params ! 0) (params ! 1))]),
      ([Lit ''client-config''], [(POST, no_params (api_generate_client_config env))])]"

definition proxy_routes :: "api_env \<Rightarrow> (segment list \<times> (http_method \<times> handler) list) list" where
  "proxy_routes env =
     [([Lit ''config'', Lit ''proxy'', Lit ''listener''], [(PUT, no_params (api_set_proxy_listener env))]),
      ([Lit ''config'', Lit ''proxy'', Lit ''acme-accounts''], [(POST, no_params (api_create_acme_account env))]),
      ([Lit ''config'', Lit ''proxy'', Lit ''acme-accounts'', Param],
         [(PUT, one_param (api_update_acme_account env)), (DELETE, one_param (\<lambda>i _. api_delete_acme_account env i))]),
      ([Lit ''config'', Lit ''proxy'', Lit ''dns-accounts''], [(POST, no_params (api_create_dns_account env))]),
      ([Lit ''config'', Lit ''proxy'', Lit ''dns-accounts'', Param],
         [(PUT, one_param (api_update_dns_account env)), (DELETE, one_param (\<lambda>i _. api_delete_dns_account env i))]),
      ([Lit ''config'', Lit ''proxy'', Lit ''dns-accounts'', Param, Lit ''test''], [(POST, one_param (\<lambda>i. reading (api_test_dns_account env i)))]),
      ([Lit ''config'', Lit ''proxy'', Lit ''certificates''], [(POST, no_params (api_create_certificate env))]),
      ([Lit ''config'', Lit ''proxy'', Lit ''certificates'', Param],
         [(PUT, one_param (api_update_certificate env)), (DELETE, one_param (\<lambda>i _. api_delete_certificate env i))]),
      ([Lit ''proxy'', Lit ''certificates'', Param, Lit ''issue''], [(POST, one_param (\<lambda>i _. api_issue_certificate i))]),
      ([Lit ''proxy'', Lit ''certificates'', Param, Lit ''continue''], [(POST, one_param (\<lambda>i _. api_continue_certificate i))]),
      ([Lit ''proxy'', Lit ''runtime''], [(GET, no_params (reading api_proxy_runtime))]),
      ([Lit ''config'', Lit ''proxy'', Lit ''routes''], [(POST, no_params (api_create_route env))]),
      ([Lit ''config'', Lit ''proxy'', Lit ''routes'', Param],
         [(PUT, one_param (api_update_route env)), (DELETE, one_param (\<lambda>n _. api_delete_route env n))])]"

definition protected_routes :: "api_env \<Rightarrow> (segment list \<times> (http_method \<times> handler) list) list" where
  "protected_routes env =
     [([Lit ''config''], [(GET, no_params (reading api_get_config))]),
      ([Lit ''events''], [(GET, no_params (reading api_events))]),
      ([Lit ''auth'', Lit ''session''], [(GET, \<lambda>params issued_at. reading (api_session env issued_at))])]
     @ tunnel_routes env @ proxy_routes env"

primrec find_route :: "(segment list \<times> 'h) list \<Rightarrow> string list \<Rightarrow> (string list \<times> 'h) option" where
  "find_route [] path = None"
| "find_route (r # rs) path = (case match_route (fst r) path of Some params \<Rightarrow> Some (params, snd r) | None \<Rightarrow> find_route rs path)"

text \<open>
  The login is outside the protected router. The authentication layer runs for a path and a method
  that have a handler; it decides before the handler sees the request.
\<close>

definition serve_api :: "api_env \<Rightarrow> api_request \<Rightarrow> ApiState \<Rightarrow> api_response \<times> ApiState" where
  "serve_api env rq st =
     (if aq_path rq = [''api'', ''auth'', ''login''] then
        if aq_method rq = POST then api_login env rq st else (api_error 405 ''method not allowed'', st)
      else case aq_path rq of
        [] \<Rightarrow> (api_error 404 ''not found'', st)
      | first # rest \<Rightarrow>
          if first \<noteq> ''api'' then (api_error 404 ''not found'', st)
          else case find_route (protected_routes env) rest of
            None \<Rightarrow> (api_error 404 ''not found'', st)
          | Some (params, methods) \<Rightarrow>
              (case map_of methods (aq_method rq) of
                 None \<Rightarrow> (api_error 405 ''method not allowed'', st)
               | Some h \<Rightarrow>
                   (case require_auth env rq st of
                      None \<Rightarrow> (api_error 401 ''the login has expired'', st)
                    | Some issued_at \<Rightarrow> h params issued_at rq st)))"

section \<open>Watching the configuration files\<close>

text \<open>
  \<open>watch_configs\<close>: the callback queues the kind of each configuration file among the changed paths;
  when the queue of 16 is full the change is dropped. \<open>reload_changes\<close> is the task that reads the queue.
\<close>

definition WATCH_CAPACITY :: nat where "WATCH_CAPACITY = 16"

definition queue_changes :: "(ConfigKind \<times> path) list \<Rightarrow> path list \<Rightarrow> ConfigKind list \<Rightarrow> ConfigKind list" where
  "queue_changes watched changed queue =
     fold (\<lambda>(kind, p) q. if p \<in> set changed \<and> length q < WATCH_CAPACITY then q @ [kind] else q) watched queue"

definition watched_paths :: "StoreInner \<Rightarrow> (ConfigKind \<times> path) list" where
  "watched_paths s = [(TunnelKindConfig, sn_tunnel_path s), (ProxyKindConfig, sn_proxy_path s)]"

primrec reload_changes :: "store_env \<Rightarrow> ConfigKind list \<Rightarrow> StoreInner \<Rightarrow> StoreInner" where
  "reload_changes env [] s = s"
| "reload_changes env (kind # queue) s = reload_changes env queue (store_reload env kind s)"

text \<open>A full queue of changes of one file drops a change of the other, which is then not reloaded.\<close>

lemma full_queue_loses_change:
  "queue_changes [(TunnelKindConfig, Path True [''t'']), (ProxyKindConfig, Path True [''p''])] [Path True [''t'']] (replicate 16 ProxyKindConfig)
   = replicate 16 ProxyKindConfig"
  by (simp add: queue_changes_def WATCH_CAPACITY_def)

section \<open>What a request can do\<close>

definition touches_one :: "ApiState \<Rightarrow> ApiState \<Rightarrow> bool" where
  "touches_one st st' \<longleftrightarrow> (\<exists>x. st' = st\<lparr>ap_store := x\<rparr>) \<or> (\<exists>x. st' = st\<lparr>ap_tunnel := x\<rparr>) \<or> (\<exists>x. st' = st\<lparr>ap_proxy := x\<rparr>)"

definition safe_handler :: "http_method \<Rightarrow> handler \<Rightarrow> bool" where
  "safe_handler m h \<longleftrightarrow> (\<forall>params issued_at rq st. touches_one st (snd (h params issued_at rq st)) \<and> (m = GET \<longrightarrow> snd (h params issued_at rq st) = st))"

lemma touches_one_refl [simp]: "touches_one st st"
  by (auto simp: touches_one_def intro: exI[of _ "ap_store st"])

lemma touches_body: "(\<And>x. touches_one st (snd (f x))) \<Longrightarrow> touches_one st (snd (with_body dec rq st f))"
  by (auto simp: with_body_def split: sum.split)

lemma touches_tunnel_change: "touches_one st (snd (tunnel_change env change st))"
  by (auto simp: tunnel_change_def touches_one_def split: prod.split)

lemma touches_proxy_change: "touches_one st (snd (proxy_change run st))"
  by (auto simp: proxy_change_def touches_one_def split: prod.split)

lemma touches_certificate_command: "touches_one st (snd (certificate_command c st))"
  by (cases "ap_proxy st") (auto simp: certificate_command_def split: prod.split, auto simp: touches_one_def)

lemma touches_disconnect: "touches_one st (snd (api_disconnect_tunnel env sid n st))"
  by (auto simp: api_disconnect_tunnel_def split: prod.split option.split sum.split) (auto simp: touches_one_def)

lemma touches_client_config: "touches_one st (snd (api_generate_client_config env rq st))"
  unfolding api_generate_client_config_def by (rule touches_body) simp

lemmas touches_handlers = touches_body touches_tunnel_change touches_proxy_change touches_certificate_command touches_disconnect touches_client_config

lemma safe_tunnel_routes: "r \<in> set (tunnel_routes env) \<Longrightarrow> (m, h) \<in> set (snd r) \<Longrightarrow> safe_handler m h"
  unfolding tunnel_routes_def safe_handler_def
  by (auto simp: no_params_def one_param_def reading_def api_set_tunnel_quic_def api_create_group_def api_update_group_def api_delete_group_def
      api_create_tunnel_def api_update_tunnel_def api_delete_tunnel_def intro!: touches_handlers)

lemma safe_proxy_routes: "r \<in> set (proxy_routes env) \<Longrightarrow> (m, h) \<in> set (snd r) \<Longrightarrow> safe_handler m h"
  unfolding proxy_routes_def safe_handler_def
  by (auto simp: no_params_def one_param_def reading_def api_set_proxy_listener_def api_create_acme_account_def api_update_acme_account_def
      api_delete_acme_account_def api_create_dns_account_def api_update_dns_account_def api_delete_dns_account_def
      api_create_certificate_def api_update_certificate_def api_delete_certificate_def api_create_route_def api_update_route_def
      api_delete_route_def api_issue_certificate_def api_continue_certificate_def intro!: touches_handlers)

lemma safe_routes:
  assumes "r \<in> set (protected_routes env)" "(m, h) \<in> set (snd r)"
  shows "safe_handler m h"
proof -
  have reads: "safe_handler m (no_params (reading f))" "safe_handler m (\<lambda>params issued_at. reading (g issued_at))" for f g
    by (auto simp: safe_handler_def no_params_def reading_def)
  from assms(1) consider "r \<in> set (tunnel_routes env)" | "r \<in> set (proxy_routes env)"
    | "r = ([Lit ''config''], [(GET, no_params (reading api_get_config))])" | "r = ([Lit ''events''], [(GET, no_params (reading api_events))])"
    | "r = ([Lit ''auth'', Lit ''session''], [(GET, \<lambda>params issued_at. reading (api_session env issued_at))])"
    unfolding protected_routes_def by auto
  then show ?thesis
    by cases (use assms(2) reads safe_tunnel_routes safe_proxy_routes in auto)
qed

lemma find_route_Some: "find_route rs path = Some (params, ms) \<Longrightarrow> \<exists>r \<in> set rs. snd r = ms"
  by (induction rs) (auto split: option.splits)

text \<open>A login changes only the table of attempts, and yields a token only for the right name and password.\<close>

lemma login_keeps_secrets:
  assumes "login env l s = (r, s')"
  shows "au_username s' = au_username s \<and> au_password_hash s' = au_password_hash s \<and> au_secret s' = au_secret s \<and> au_token_ttl s' = au_token_ttl s
    \<and> (is_ok r \<longrightarrow> lg_username l = au_username s \<and> verify_login env (lg_password l) s)"
  using assms
  by (auto simp: login_def can_attempt_def finish_login_def record_login_failure_def Let_def is_ok_def verify_login_def
      split: if_splits prod.splits bool.splits)

lemma api_login_effect:
  assumes "api_login env rq st = (resp, st')"
  shows "(\<exists>a. st' = st\<lparr>ap_auth := a\<rparr> \<and> au_username a = au_username (ap_auth st) \<and> au_password_hash a = au_password_hash (ap_auth st)
       \<and> au_secret a = au_secret (ap_auth st) \<and> au_token_ttl a = au_token_ttl (ap_auth st))
    \<and> (\<forall>t e. ar_body resp = LoginBody t e \<longrightarrow>
         (\<exists>password. an_login env (aq_body rq) = Inr (au_username (ap_auth st), password) \<and> verify_login (an_auth env) password (ap_auth st)))"
proof (cases "MAX_API_BODY_BYTES < length (aq_body rq) \<or> (\<exists>e. an_login env (aq_body rq) = Inl e)")
  case True
  with assms have "st' = st" "\<exists>e. ar_body resp = ErrorBody e" by (auto simp: api_login_def with_body_def api_error_def split: if_splits)
  then show ?thesis by (auto intro!: exI[of _ "ap_auth st"])
next
  case False
  then obtain username password where body: "an_login env (aq_body rq) = Inr (username, password)" by (cases "an_login env (aq_body rq)") auto
  let ?l = "\<lparr>lg_begun = an_begun env, lg_now = an_now env, lg_unix = an_unix env, lg_joined = an_joined env,
               lg_address = aq_address rq, lg_username = username, lg_password = password\<rparr>"
  obtain r a where run: "login (an_auth env) ?l (ap_auth st) = (r, a)" by fastforce
  with assms False body have "st' = st\<lparr>ap_auth := a\<rparr>" "(\<exists>t e. ar_body resp = LoginBody t e) \<longrightarrow> is_ok r"
    by (auto simp: api_login_def with_body_def api_error_def api_ok_def is_ok_def split: sum.splits LoginError.splits)
  with login_keeps_secrets[OF run] body show ?thesis by auto
qed


text \<open>The deletion of a group without a token.\<close>

definition sample_api_env :: api_env where
  "sample_api_env =
     \<lparr>an_auth = sample_login_env, an_store = sample_store_env, an_login = (\<lambda>_. Inr (''admin'', ''wrong'')), an_quic = (\<lambda>_. Inl 422), an_group = (\<lambda>_. Inl 422),
      an_tunnel = (\<lambda>_. Inl 422), an_listener = (\<lambda>_. Inl 422), an_acme = (\<lambda>_. Inl 422), an_dns = (\<lambda>_. Inl 422), an_certificate = (\<lambda>_. Inl 422),
      an_route = (\<lambda>_. Inl 422), an_client = (\<lambda>_. Inl 422), an_u64 = (\<lambda>_. Inl 400), an_dns_test = (\<lambda>_. Inl ''refused''), an_header_value = (\<lambda>_. True),
      an_to_toml = (\<lambda>_. None), an_key = replicate 32 CHR ''k'', an_begun = 0, an_now = 0, an_unix = Some 0, an_joined = True, an_clock = 0\<rparr>"

definition sample_api_state :: ApiState where
  "sample_api_state = \<lparr>ap_auth = sample_auth, ap_store = sample_store, ap_tunnel = None, ap_proxy = None\<rparr>"


end
