(* ===== verification/Dns_Client.thy ===== *)
theory Dns_Client
  imports Proxy_Config
begin

text \<open>
  \<open>gaterust-proxy/src/dns.rs\<close>: the accounts at DNS providers through which the proxy publishes the
  TXT records of ACME challenges. The providers' services, HTTP and JSON are parameters. An
  \<open>async\<close> operation can be dropped at every \<open>await\<close>, by a cancellation or a timeout around it:
  the request that was under way may or may not have taken effect, and nothing after it runs.
\<close>

section \<open>Operations that can be dropped\<close>

datatype stop_reason = StopCancelled | StopTimeout

datatype 'a polled = Dropped stop_reason | Ready 'a

type_synonym ('w, 'a) pending = "'w \<Rightarrow> 'a polled \<times> 'w"

text \<open>Awaiting a \<open>Result\<close> and leaving with \<open>?\<close> when it is an error.\<close>

definition awaits :: "(ProxyError, 'a) res polled \<times> 'w \<Rightarrow> ('a \<Rightarrow> ('w, (ProxyError, 'b) res) pending) \<Rightarrow> (ProxyError, 'b) res polled \<times> 'w" where
  "awaits r f =
     (case r of
        (Dropped c, w) \<Rightarrow> (Dropped c, w)
      | (Ready (Inl e), w) \<Rightarrow> (Ready (Inl e), w)
      | (Ready (Inr x), w) \<Rightarrow> f x w)"

definition polled_map :: "('a \<Rightarrow> 'b) \<Rightarrow> 'a polled \<times> 'w \<Rightarrow> 'b polled \<times> 'w" where
  "polled_map f r = (case r of (Dropped c, w) \<Rightarrow> (Dropped c, w) | (Ready x, w) \<Rightarrow> (Ready (f x), w))"

section \<open>Names and zones\<close>

definition DNS_PAGE_SIZE :: u32 where "DNS_PAGE_SIZE = 100"
definition DNS_RECORD_TTL :: u32 where "DNS_RECORD_TTL = 600"

definition domain_belongs_to_zone :: "string \<Rightarrow> string \<Rightarrow> bool" where
  "domain_belongs_to_zone fqdn zone =
     (fqdn = zone \<or> (case strip_suffix zone fqdn of None \<Rightarrow> False | Some prefix \<Rightarrow> ends_with prefix CHR ''.''))"

definition relative_name :: "string \<Rightarrow> string \<Rightarrow> (ProxyError, string) res" where
  "relative_name fqdn zone =
     (if fqdn = zone then Inr ''@''
      else case Option.bind (strip_suffix zone fqdn) (strip_suffix ''.'') of
        None \<Rightarrow> Inl (Dns (fqdn @ '' is not in the zone '' @ zone))
      | Some name \<Rightarrow>
          if name = [] then Inl (Dns (fqdn @ '' is not in the zone '' @ zone)) else Inr name)"

definition required :: "string option \<Rightarrow> string \<Rightarrow> (ProxyError, string) res" where
  "required value field =
     (case value of
        Some v \<Rightarrow> if v \<noteq> [] then Inr v else Inl (InvalidConfig (''the DNS account lacks '' @ field))
      | None \<Rightarrow> Inl (InvalidConfig (''the DNS account lacks '' @ field)))"

definition credentials_valid :: "bool \<Rightarrow> (ProxyError, unit) res" where
  "credentials_valid ok = (if ok then Inr () else Inl (Dns ''the DNS credentials are invalid or lack permissions''))"

section \<open>The services\<close>

record GoDaddyRecord =
  gr_data :: string
  gr_ttl :: u32

datatype gd_method = Gd_Get | Gd_Put | Gd_Delete

text \<open>A request to the GoDaddy API; the path is given by its segments below \<open>GODADDY_API\<close>.\<close>

record gd_request =
  gq_method :: gd_method
  gq_path :: "string list"
  gq_query :: "(string \<times> string) list"
  gq_authorization :: string
  gq_body :: "bytes option"

datatype gd_answer = SendFailed string | Answered nat bytes

datatype ProviderCredentials =
    CredCloudflare string
  | CredAliyun string string
  | CredDnspod string string

record CreateDnsRecordRequest =
  cq_domain_id :: string
  cq_name :: string
  cq_ttl :: u32
  cq_text :: string
  cq_proxied :: "bool option"

text \<open>
  What the client calls: \<open>dn_send\<close> sends an HTTP request, \<open>dn_domains\<close>, \<open>dn_records\<close>, \<open>dn_json\<close> and
  \<open>dn_text\<close> read and write bodies, \<open>dn_permit\<close> waits for the account's \<open>mutation_gate\<close> and is false
  when that is closed. The others are the operations of the unified provider; \<open>dn_pages\<close> is the
  number of pages it delivers before the timeout around the operation strikes.
\<close>

record 'w dns_env =
  dn_send :: "gd_request \<Rightarrow> ('w, gd_answer) pending"
  dn_domains :: "bytes \<Rightarrow> (string, string list) res"
  dn_records :: "bytes \<Rightarrow> (string, GoDaddyRecord list) res"
  dn_json :: "GoDaddyRecord list \<Rightarrow> bytes"
  dn_text :: "bytes \<Rightarrow> string option"
  dn_permit :: "('w, bool) pending"
  dn_provider :: "ProviderCredentials \<Rightarrow> string option"
  dn_list :: "u32 \<Rightarrow> u32 \<Rightarrow> ('w, (string, (string \<times> string) list \<times> bool) res) pending"
  dn_create :: "CreateDnsRecordRequest \<Rightarrow> ('w, (string, string) res) pending"
  dn_delete :: "string \<Rightarrow> string \<Rightarrow> ('w, (string, unit) res) pending"
  dn_check :: "('w, (string, bool) res) pending"
  dn_pages :: nat

definition dns_result :: "(string, 'a) res \<Rightarrow> (ProxyError, 'a) res" where
  "dns_result r = (case r of Inl e \<Rightarrow> Inl (Dns e) | Inr x \<Rightarrow> Inr x)"

section \<open>The GoDaddy client\<close>

definition is_success :: "nat \<Rightarrow> bool" where
  "is_success status = (200 \<le> status \<and> status < 300)"

definition response_error :: "'w dns_env \<Rightarrow> nat \<Rightarrow> bytes \<Rightarrow> ProxyError" where
  "response_error env status body =
     Dns (''GoDaddy API: HTTP '' @ show_nat status @ '': ''
          @ (case dn_text env body of Some t \<Rightarrow> t | None \<Rightarrow> ''unreadable answer''))"

definition parse_response :: "'w dns_env \<Rightarrow> (bytes \<Rightarrow> (string, 'a) res) \<Rightarrow> nat \<Rightarrow> bytes \<Rightarrow> (ProxyError, 'a) res" where
  "parse_response env decode status body =
     (if \<not> is_success status then Inl (response_error env status body)
      else case decode body of
        Inl e \<Rightarrow> Inl (Dns (''unreadable answer of the GoDaddy API: '' @ e))
      | Inr x \<Rightarrow> Inr x)"

definition dns_http_error :: "string \<Rightarrow> ProxyError" where
  "dns_http_error e = Dns (''GoDaddy API request failed: '' @ e)"

text \<open>\<open>send().await\<close> with the error of the transport mapped, and what is made of the answer.\<close>

definition gd_exchange ::
  "'w dns_env \<Rightarrow> string \<Rightarrow> gd_method \<Rightarrow> string list \<Rightarrow> (string \<times> string) list \<Rightarrow> bytes option
     \<Rightarrow> (nat \<Rightarrow> bytes \<Rightarrow> (ProxyError, 'a) res) \<Rightarrow> ('w, (ProxyError, 'a) res) pending" where
  "gd_exchange env authorization method path query body receive w =
     polled_map (\<lambda>a. case a of SendFailed e \<Rightarrow> Inl (dns_http_error e) | Answered status content \<Rightarrow> receive status content)
       (dn_send env \<lparr>gq_method = method, gq_path = path, gq_query = query, gq_authorization = authorization, gq_body = body\<rparr> w)"

definition gd_request_json ::
  "'w dns_env \<Rightarrow> string \<Rightarrow> (bytes \<Rightarrow> (string, 'a) res) \<Rightarrow> string list \<Rightarrow> (string \<times> string) list \<Rightarrow> ('w, (ProxyError, 'a) res) pending" where
  "gd_request_json env authorization decode path query =
     gd_exchange env authorization Gd_Get path query None (parse_response env decode)"

definition request_empty ::
  "'w dns_env \<Rightarrow> string \<Rightarrow> gd_method \<Rightarrow> string list \<Rightarrow> bytes option \<Rightarrow> ('w, (ProxyError, unit) res) pending" where
  "request_empty env authorization method path body =
     gd_exchange env authorization method path [] body
       (\<lambda>status content. if is_success status then Inr () else Inl (response_error env status content))"

definition txt_path :: "string \<Rightarrow> string \<Rightarrow> string list" where
  "txt_path domain name = [''domains'', domain, ''records'', ''TXT'', name]"

definition get_txt :: "'w dns_env \<Rightarrow> string \<Rightarrow> string \<Rightarrow> string \<Rightarrow> ('w, (ProxyError, GoDaddyRecord list) res) pending" where
  "get_txt env authorization domain name =
     gd_exchange env authorization Gd_Get (txt_path domain name) [] None
       (\<lambda>status content. if status = 404 then Inr [] else parse_response env (dn_records env) status content)"

definition put_txt ::
  "'w dns_env \<Rightarrow> string \<Rightarrow> string \<Rightarrow> string \<Rightarrow> GoDaddyRecord list \<Rightarrow> ('w, (ProxyError, unit) res) pending" where
  "put_txt env authorization domain name records =
     request_empty env authorization Gd_Put (txt_path domain name) (Some (dn_json env records))"

definition find_zone :: "'w dns_env \<Rightarrow> string \<Rightarrow> string \<Rightarrow> ('w, (ProxyError, string) res) pending" where
  "find_zone env authorization fqdn w =
     awaits (gd_request_json env authorization (dn_domains env) [''domains''] [(''statuses'', ''ACTIVE''), (''limit'', ''1000'')] w)
       (\<lambda>domains w.
          (Ready (case max_by_key length (filter (domain_belongs_to_zone fqdn) domains) of
                    None \<Rightarrow> Inl (Dns (''no zone of the GoDaddy account holds '' @ fqdn))
                  | Some d \<Rightarrow> Inr d), w))"

definition acquire_mutation_permit :: "'w dns_env \<Rightarrow> ('w, (ProxyError, unit) res) pending" where
  "acquire_mutation_permit env w =
     polled_map (\<lambda>open. if open then Inr () else Inl (Dns ''the GoDaddy update channel is closed'')) (dn_permit env w)"

datatype DnsRecordHandle =
    UnifiedHandle string string
  | GoDaddyHandle string string string

definition godaddy_create_txt ::
  "'w dns_env \<Rightarrow> string \<Rightarrow> string \<Rightarrow> string \<Rightarrow> ('w, (ProxyError, DnsRecordHandle) res) pending" where
  "godaddy_create_txt env authorization fqdn value w =
     awaits (find_zone env authorization fqdn w) (\<lambda>domain w.
       case relative_name fqdn domain of
         Inl e \<Rightarrow> (Ready (Inl e), w)
       | Inr name \<Rightarrow>
           awaits (acquire_mutation_permit env w) (\<lambda>_ w.
           awaits (get_txt env authorization domain name w) (\<lambda>records w.
           awaits (put_txt env authorization domain name (records @ [\<lparr>gr_data = value, gr_ttl = DNS_RECORD_TTL\<rparr>]) w) (\<lambda>_ w.
             (Ready (Inr (GoDaddyHandle domain name value)), w)))))"

text \<open>\<open>Iterator::rposition\<close> followed by \<open>Vec::remove\<close>: \<open>None\<close> when no record has the value.\<close>

fun remove_last :: "string \<Rightarrow> GoDaddyRecord list \<Rightarrow> GoDaddyRecord list option" where
  "remove_last value [] = None"
| "remove_last value (r # rs) =
     (case remove_last value rs of
        Some rs' \<Rightarrow> Some (r # rs')
      | None \<Rightarrow> if gr_data r = value then Some rs else None)"

definition godaddy_delete_txt ::
  "'w dns_env \<Rightarrow> string \<Rightarrow> string \<Rightarrow> string \<Rightarrow> string \<Rightarrow> ('w, (ProxyError, unit) res) pending" where
  "godaddy_delete_txt env authorization domain name value w =
     awaits (acquire_mutation_permit env w) (\<lambda>_ w.
     awaits (get_txt env authorization domain name w) (\<lambda>records w.
       case remove_last value records of
         None \<Rightarrow> (Ready (Inr ()), w)
       | Some rest \<Rightarrow>
           if rest = [] then request_empty env authorization Gd_Delete (txt_path domain name) None w
           else put_txt env authorization domain name rest w))"

definition godaddy_validate_credentials :: "'w dns_env \<Rightarrow> string \<Rightarrow> ('w, (ProxyError, unit) res) pending" where
  "godaddy_validate_credentials env authorization w =
     awaits (gd_request_json env authorization (dn_domains env) [''domains''] [(''limit'', ''1'')] w) (\<lambda>_ w. (Ready (Inr ()), w))"

section \<open>The client\<close>

datatype DnsClient = UnifiedClient | GoDaddyClient string

definition dns_client_from_config :: "'w dns_env \<Rightarrow> DnsAccountConfig \<Rightarrow> (ProxyError, DnsClient) res" where
  "dns_client_from_config env config =
     (let create = (\<lambda>c. case dn_provider env c of Some e \<Rightarrow> Inl (Dns e) | None \<Rightarrow> Inr UnifiedClient)
      in case da_provider config of
           Cloudflare \<Rightarrow> res_bind (required (da_api_token config) ''api_token'') (\<lambda>token. create (CredCloudflare token))
         | Aliyun \<Rightarrow>
             res_bind (required (da_access_key config) ''access_key'') (\<lambda>a.
             res_bind (required (da_secret_key config) ''secret_key'') (\<lambda>s. create (CredAliyun a s)))
         | TencentCloud \<Rightarrow>
             res_bind (required (da_access_key config) ''access_key'') (\<lambda>a.
             res_bind (required (da_secret_key config) ''secret_key'') (\<lambda>s. create (CredDnspod a s)))
         | GoDaddy \<Rightarrow>
             res_bind (required (da_access_key config) ''access_key'') (\<lambda>a.
             res_bind (required (da_secret_key config) ''secret_key'') (\<lambda>s.
               Inr (GoDaddyClient (''sso-key '' @ a @ '':'' @ s)))))"

definition validate_credentials :: "'w dns_env \<Rightarrow> DnsClient \<Rightarrow> ('w, (ProxyError, unit) res) pending" where
  "validate_credentials env client w =
     (case client of
        UnifiedClient \<Rightarrow>
          awaits (polled_map dns_result (dn_check env w)) (\<lambda>ok w. (Ready (credentials_valid ok), w))
      | GoDaddyClient authorization \<Rightarrow> godaddy_validate_credentials env authorization w)"

text \<open>The best zone of one page, starting from the best one so far: the first longest wins.\<close>

definition better_zone :: "string \<Rightarrow> string \<times> string \<Rightarrow> (string \<times> string) option \<Rightarrow> (string \<times> string) option" where
  "better_zone fqdn zone best =
     (if domain_belongs_to_zone fqdn (snd zone)
         \<and> (case best of None \<Rightarrow> True | Some (_, current) \<Rightarrow> length current < length (snd zone))
      then Some zone else best)"

definition next_page :: "u32 \<Rightarrow> u32" where
  "next_page page = (if page = - 1 then page else page + 1)"

fun find_unified_zone ::
  "'w dns_env \<Rightarrow> string \<Rightarrow> nat \<Rightarrow> u32 \<Rightarrow> (string \<times> string) option \<Rightarrow> ('w, (ProxyError, string \<times> string) res) pending" where
  "find_unified_zone env fqdn 0 page best w = (Dropped StopTimeout, w)"
| "find_unified_zone env fqdn (Suc pages) page best w =
     awaits (polled_map dns_result (dn_list env page DNS_PAGE_SIZE w)) (\<lambda>(items, has_more) w.
       let best = fold (better_zone fqdn) items best
       in if has_more then find_unified_zone env fqdn pages (next_page page) best w
          else (Ready (case best of
                         None \<Rightarrow> Inl (Dns (''no zone of the DNS account holds '' @ fqdn))
                       | Some zone \<Rightarrow> Inr zone), w))"

definition create_txt :: "'w dns_env \<Rightarrow> DnsClient \<Rightarrow> string \<Rightarrow> string \<Rightarrow> ('w, (ProxyError, DnsRecordHandle) res) pending" where
  "create_txt env client fqdn value w =
     (case client of
        UnifiedClient \<Rightarrow>
          awaits (find_unified_zone env fqdn (dn_pages env) 1 None w) (\<lambda>(domain_id, zone) w.
            case relative_name fqdn zone of
              Inl e \<Rightarrow> (Ready (Inl e), w)
            | Inr name \<Rightarrow>
                awaits (polled_map dns_result (dn_create env
                    \<lparr>cq_domain_id = domain_id, cq_name = name, cq_ttl = DNS_RECORD_TTL, cq_text = value, cq_proxied = Some False\<rparr> w))
                  (\<lambda>record_id w. (Ready (Inr (UnifiedHandle domain_id record_id)), w)))
      | GoDaddyClient authorization \<Rightarrow> godaddy_create_txt env authorization fqdn value w)"

definition delete_txt :: "'w dns_env \<Rightarrow> DnsClient \<Rightarrow> DnsRecordHandle \<Rightarrow> ('w, (ProxyError, unit) res) pending" where
  "delete_txt env client handle w =
     (case (client, handle) of
        (UnifiedClient, UnifiedHandle domain_id record_id) \<Rightarrow> polled_map dns_result (dn_delete env record_id domain_id w)
      | (GoDaddyClient authorization, GoDaddyHandle domain name value) \<Rightarrow>
          godaddy_delete_txt env authorization domain name value w
      | _ \<Rightarrow> (Ready (Inl (Dns ''the record handle is of another account type'')), w))"

section \<open>Lemmas on awaiting\<close>

lemma awaits_cases:
  assumes "awaits x f = (r, w')"
  obtains (drop) c where "x = (Dropped c, w')" "r = Dropped c"
    | (err) e where "x = (Ready (Inl e), w')" "r = Ready (Inl e)"
    | (ok) y w where "x = (Ready (Inr y), w)" "f y w = (r, w')"
  using assms by (auto simp: awaits_def split: prod.splits polled.splits sum.splits)

lemma polled_map_cases:
  assumes "polled_map g x = (r, w')"
  obtains (drop) c where "x = (Dropped c, w')" "r = Dropped c" | (ready) y where "x = (Ready y, w')" "r = Ready (g y)"
  using assms by (auto simp: polled_map_def split: prod.splits polled.splits)

lemma awaits_Ready [simp]: "awaits (Ready (Inr x), w) f = f x w"
  by (simp add: awaits_def)

section \<open>Zones\<close>

lemma domain_belongs_iff: "domain_belongs_to_zone fqdn zone \<longleftrightarrow> fqdn = zone \<or> (\<exists>p. fqdn = p @ ''.'' @ zone)"
proof (cases "strip_suffix zone fqdn")
  case None
  then have "fqdn \<noteq> p @ zone" for p using strip_suffix_Some_iff[of zone fqdn p] by auto
  then have "fqdn \<noteq> p @ ''.'' @ zone" for p by (metis append_assoc)
  with None show ?thesis by (simp add: domain_belongs_to_zone_def)
next
  case (Some p)
  then have "fqdn = p @ zone" by (simp add: str_simps)
  with Some show ?thesis by (auto simp: domain_belongs_to_zone_def ends_with_iff)
qed

text \<open>The name under which a record is created is the one that gives the full name back.\<close>

lemma relative_name_Inr:
  "relative_name fqdn zone = Inr n \<longleftrightarrow> fqdn = zone \<and> n = ''@'' \<or> n \<noteq> [] \<and> fqdn = n @ ''.'' @ zone"
proof -
  have eq: "Option.bind (strip_suffix zone fqdn) (strip_suffix ''.'') = Some m \<longleftrightarrow> fqdn = m @ ''.'' @ zone" for m
    by (auto simp: bind_eq_Some_conv strip_suffix_Some_iff)
  have proper: "fqdn = zone \<Longrightarrow> fqdn \<noteq> m @ ''.'' @ zone" for m by (metis append_assoc append_self_conv2 list.distinct(1) snoc_eq_iff_butlast)
  show ?thesis
  proof (cases "Option.bind (strip_suffix zone fqdn) (strip_suffix ''.'')")
    case None
    with eq proper show ?thesis by (auto simp: relative_name_def)
  next
    case (Some m)
    with eq[of m] have "fqdn = m @ ''.'' @ zone" by simp
    with proper[of m] Some show ?thesis by (auto simp: relative_name_def)
  qed
qed

lemma fold_better_zone:
  assumes "\<And>z. best = Some z \<Longrightarrow> domain_belongs_to_zone fqdn (snd z)"
  shows "case fold (better_zone fqdn) items best of
      None \<Rightarrow> best = None \<and> (\<forall>z \<in> set items. \<not> domain_belongs_to_zone fqdn (snd z))
    | Some z \<Rightarrow> domain_belongs_to_zone fqdn (snd z) \<and> (z \<in> set items \<or> best = Some z)
        \<and> (\<forall>y \<in> set items. domain_belongs_to_zone fqdn (snd y) \<longrightarrow> length (snd y) \<le> length (snd z))
        \<and> (\<forall>y. best = Some y \<longrightarrow> length (snd y) \<le> length (snd z))"
  using assms
proof (induction items arbitrary: best)
  case Nil
  then show ?case by (cases best) auto
next
  case (Cons x xs)
  show ?case
  proof (cases "domain_belongs_to_zone fqdn (snd x)
      \<and> (case best of None \<Rightarrow> True | Some (_, current) \<Rightarrow> length current < length (snd x))")
    case True
    with Cons.IH[of "Some x"] show ?thesis
      by (cases best) (auto simp: better_zone_def split: option.splits)
  next
    case False
    with Cons.IH[of best] Cons.prems show ?thesis
      by (cases best) (auto simp: better_zone_def split: option.splits)
  qed
qed

section \<open>What the service promises\<close>

type_synonym dns_key = "string \<times> string"

definition requested_records :: "'w dns_env \<Rightarrow> gd_request \<Rightarrow> GoDaddyRecord list" where
  "requested_records env rq =
     (case gq_body rq of None \<Rightarrow> [] | Some b \<Rightarrow> (case dn_records env b of Inl _ \<Rightarrow> [] | Inr rs \<Rightarrow> rs))"

text \<open>
  The documented behaviour of the record API, for the records \<open>view\<close> shows: a \<open>GET\<close> changes nothing and
  answers with the records of the name, or with 404 when there are none; a \<open>PUT\<close> replaces the
  records of its name by the body and a \<open>DELETE\<close> removes them, and no others. When the answer
  is an error, is lost or is not waited for, the change may or may not have happened.
\<close>

definition godaddy_service :: "'w dns_env \<Rightarrow> ('w \<Rightarrow> dns_key \<Rightarrow> GoDaddyRecord list) \<Rightarrow> bool" where
  "godaddy_service env view =
     ((\<forall>rs. dn_records env (dn_json env rs) = Inr rs)
      \<and> (\<forall>rq w a w'. dn_send env rq w = (a, w') \<longrightarrow>
           (if gq_method rq = Gd_Get
            then view w' = view w
              \<and> (\<forall>d n status body. gq_path rq = txt_path d n \<and> a = Ready (Answered status body) \<longrightarrow>
                   (status = 404 \<longrightarrow> view w (d, n) = [])
                   \<and> (\<forall>rs. is_success status \<and> dn_records env body = Inr rs \<longrightarrow> rs = view w (d, n)))
            else \<forall>d n. gq_path rq = txt_path d n \<longrightarrow>
              (let written = (view w)((d, n) := requested_records env rq)
               in (view w' = view w \<or> view w' = written)
                  \<and> (\<forall>status body. a = Ready (Answered status body) \<and> is_success status \<longrightarrow> view w' = written)))))"

text \<open>
  The records with values of \<open>V\<close> are ours, the others belong to other parties. What happens while
  this client does not hold the gate leaves our records alone and changes the others as \<open>R\<close> allows.
\<close>

definition owned :: "string set \<Rightarrow> ('w \<Rightarrow> dns_key \<Rightarrow> GoDaddyRecord list) \<Rightarrow> 'w \<Rightarrow> dns_key \<Rightarrow> string multiset" where
  "owned V view w = (\<lambda>k. mset (filter (\<lambda>v. v \<in> V) (map gr_data (view w k))))"

definition foreign :: "string set \<Rightarrow> ('w \<Rightarrow> dns_key \<Rightarrow> GoDaddyRecord list) \<Rightarrow> 'w \<Rightarrow> dns_key \<Rightarrow> GoDaddyRecord list" where
  "foreign V view w = (\<lambda>k. filter (\<lambda>r. gr_data r \<notin> V) (view w k))"

type_synonym zone_change = "(dns_key \<Rightarrow> GoDaddyRecord list) \<Rightarrow> (dns_key \<Rightarrow> GoDaddyRecord list) \<Rightarrow> bool"

definition others_act :: "zone_change \<Rightarrow> string set \<Rightarrow> ('w \<Rightarrow> dns_key \<Rightarrow> GoDaddyRecord list) \<Rightarrow> 'w \<Rightarrow> 'w \<Rightarrow> bool" where
  "others_act R V view w w' =
     (owned V view w' = owned V view w \<and> R (foreign V view w) (foreign V view w'))"

lemma others_act_refl: "reflp R \<Longrightarrow> others_act R V view w w"
  by (simp add: others_act_def reflp_def)

lemma others_act_trans: "transp R \<Longrightarrow> others_act R V view w x \<Longrightarrow> others_act R V view x y \<Longrightarrow> others_act R V view w y"
  by (auto simp: others_act_def transp_def)

lemma same_view: "view w' = view w \<Longrightarrow> owned V view w' = owned V view w" "view w' = view w \<Longrightarrow> foreign V view w' = foreign V view w"
  by (simp_all add: owned_def foreign_def)

lemma same_acts: "reflp R \<Longrightarrow> view w' = view w \<Longrightarrow> others_act R V view w w'"
  by (simp add: others_act_def owned_def foreign_def reflp_def)

lemma service_get:
  assumes "godaddy_service env view" "dn_send env rq w = (a, w')" "gq_method rq = Gd_Get"
  shows "view w' = view w"
    and "gq_path rq = txt_path d n \<Longrightarrow> a = Ready (Answered 404 b) \<Longrightarrow> view w (d, n) = []"
    and "gq_path rq = txt_path d n \<Longrightarrow> a = Ready (Answered status b) \<Longrightarrow> is_success status
      \<Longrightarrow> dn_records env b = Inr rs \<Longrightarrow> rs = view w (d, n)"
  using assms unfolding godaddy_service_def by (metis, metis, metis)

lemma service_write:
  assumes "godaddy_service env view" "dn_send env rq w = (a, w')" "gq_method rq \<noteq> Gd_Get" "gq_path rq = txt_path d n"
  shows "view w' = view w \<or> view w' = (view w)((d, n) := requested_records env rq)"
    and "a = Ready (Answered status b) \<Longrightarrow> is_success status \<Longrightarrow> view w' = (view w)((d, n) := requested_records env rq)"
  using assms unfolding godaddy_service_def Let_def by (metis, metis)

lemma get_effect:
  assumes "godaddy_service env view" "gd_exchange env auth Gd_Get path query body receive w = (r, w')"
  shows "view w' = view w"
  using assms(2) unfolding gd_exchange_def
  by (cases rule: polled_map_cases) (auto dest: service_get(1)[OF assms(1)])

lemma find_zone_effect:
  assumes "godaddy_service env view" "find_zone env auth fqdn w = (r, w')"
  shows "view w' = view w"
  using assms(2) unfolding find_zone_def gd_request_json_def
  by (cases rule: awaits_cases) (auto dest: get_effect[OF assms(1)])

lemma get_txt_effect:
  assumes "godaddy_service env view" "get_txt env auth d n w = (r, w')"
  shows "view w' = view w" and "r = Ready (Inr rs) \<Longrightarrow> rs = view w (d, n)"
proof -
  show "view w' = view w" using assms(2) unfolding get_txt_def by (rule get_effect[OF assms(1)])
  show "rs = view w (d, n)" if "r = Ready (Inr rs)"
    using assms(2) unfolding get_txt_def gd_exchange_def
  proof (cases rule: polled_map_cases)
    case (ready a)
    with that obtain status b where a: "a = Answered status b" by (cases a) auto
    show ?thesis
    proof (cases "status = 404")
      case True
      with that ready a service_get(2)[OF assms(1) ready(1), of d n b] show ?thesis by simp
    next
      case False
      with that ready a have "is_success status" "dn_records env b = Inr rs"
        by (simp_all add: parse_response_def split: if_splits sum.splits)
      with service_get(3)[OF assms(1) ready(1), of d n status b rs] a show ?thesis by simp
    qed
  qed (use that in simp)
qed

lemma write_effect:
  assumes "godaddy_service env view" "request_empty env auth m (txt_path d n) body w = (r, w')" "m \<noteq> Gd_Get"
    and "new = requested_records env \<lparr>gq_method = m, gq_path = txt_path d n, gq_query = [], gq_authorization = auth, gq_body = body\<rparr>"
  shows "view w' = view w \<or> view w' = (view w)((d, n) := new)"
    and "r = Ready (Inr ()) \<Longrightarrow> view w' = (view w)((d, n) := new)"
proof -
  have send: "\<exists>a. dn_send env \<lparr>gq_method = m, gq_path = txt_path d n, gq_query = [], gq_authorization = auth, gq_body = body\<rparr> w = (a, w')
    \<and> (r = Ready (Inr ()) \<longrightarrow> (\<exists>status b. a = Ready (Answered status b) \<and> is_success status))"
    using assms(2) unfolding request_empty_def gd_exchange_def
    by (cases rule: polled_map_cases) (auto split: gd_answer.splits if_splits)
  then show "view w' = view w \<or> view w' = (view w)((d, n) := new)"
    using service_write(1)[OF assms(1)] assms(3,4) by fastforce
  show "view w' = (view w)((d, n) := new)" if "r = Ready (Inr ())"
    using send that service_write(2)[OF assms(1)] assms(3,4) by fastforce
qed

section \<open>The effect of creating and deleting a record\<close>

lemma owned_upd:
  "view w' = (view w)(k := rs) \<Longrightarrow> owned V view w' = (owned V view w)(k := mset (filter (\<lambda>v. v \<in> V) (map gr_data rs)))"
  "view w' = (view w)(k := rs) \<Longrightarrow> foreign V view w' = (foreign V view w)(k := filter (\<lambda>r. gr_data r \<notin> V) rs)"
  by (auto simp: owned_def foreign_def)

lemma put_effect:
  assumes "godaddy_service env view" "put_txt env auth d n rs w = (r, w')"
  shows "view w' = view w \<or> view w' = (view w)((d, n) := rs)"
    and "r = Ready (Inr ()) \<Longrightarrow> view w' = (view w)((d, n) := rs)"
proof -
  have "dn_records env (dn_json env rs) = Inr rs" using assms(1) by (simp add: godaddy_service_def)
  then have new: "rs = requested_records env \<lparr>gq_method = Gd_Put, gq_path = txt_path d n, gq_query = [],
      gq_authorization = auth, gq_body = Some (dn_json env rs)\<rparr>" by (simp add: requested_records_def)
  note w = write_effect[OF assms(1) assms(2)[unfolded put_txt_def] _ new]
  show "view w' = view w \<or> view w' = (view w)((d, n) := rs)" by (rule w(1)) simp
  show "r = Ready (Inr ()) \<Longrightarrow> view w' = (view w)((d, n) := rs)" by (rule w(2)) simp_all
qed

lemma remove_last_None: "remove_last v rs = None \<longleftrightarrow> v \<notin> set (map gr_data rs)"
  by (induction rs) (auto split: option.splits)

lemma remove_last_Some:
  "remove_last v rs = Some rest \<Longrightarrow> mset (map gr_data rs) = add_mset v (mset (map gr_data rest))
     \<and> filter (\<lambda>r. gr_data r \<noteq> v) rest = filter (\<lambda>r. gr_data r \<noteq> v) rs"
  by (induction rs arbitrary: rest) (auto split: option.splits if_splits simp: add_mset_commute)

lemma remove_last_parts:
  assumes "remove_last v rs = Some rest" "v \<in> V"
  shows "mset (filter (\<lambda>v. v \<in> V) (map gr_data rest)) = mset (filter (\<lambda>v. v \<in> V) (map gr_data rs)) - {#v#}"
    and "filter (\<lambda>r. gr_data r \<notin> V) rest = filter (\<lambda>r. gr_data r \<notin> V) rs"
proof -
  have "mset (filter (\<lambda>v. v \<in> V) (map gr_data rs)) = filter_mset (\<lambda>v. v \<in> V) (mset (map gr_data rs))"
    by (simp only: mset_filter)
  also have "\<dots> = add_mset v (filter_mset (\<lambda>v. v \<in> V) (mset (map gr_data rest)))"
    using remove_last_Some[OF assms(1)] assms(2) by simp
  finally show "mset (filter (\<lambda>v. v \<in> V) (map gr_data rest)) = mset (filter (\<lambda>v. v \<in> V) (map gr_data rs)) - {#v#}"
    by (simp only: mset_filter add_mset_remove_trivial)
  have "filter (\<lambda>r. gr_data r \<notin> V) xs = filter (\<lambda>r. gr_data r \<notin> V) (filter (\<lambda>r. gr_data r \<noteq> v) xs)" for xs
    using assms(2) by (auto simp: filter_filter intro!: filter_cong)
  then show "filter (\<lambda>r. gr_data r \<notin> V) rest = filter (\<lambda>r. gr_data r \<notin> V) rs"
    using remove_last_Some[OF assms(1)] by metis
qed

text \<open>Only the permit lets others act; \<open>gate_rely\<close> says what they do meanwhile.\<close>

definition gate_rely :: "zone_change \<Rightarrow> string set \<Rightarrow> ('w \<Rightarrow> dns_key \<Rightarrow> GoDaddyRecord list) \<Rightarrow> 'w dns_env \<Rightarrow> bool" where
  "gate_rely R V view env = (\<forall>w a w'. dn_permit env w = (a, w') \<longrightarrow> others_act R V view w w')"

definition account_contract ::
  "zone_change \<Rightarrow> string set \<Rightarrow> ('w \<Rightarrow> dns_key \<Rightarrow> GoDaddyRecord list) \<Rightarrow> 'w dns_env \<Rightarrow> bool" where
  "account_contract R V view env =
     (reflp R \<and> transp R \<and> godaddy_service env view \<and> gate_rely R V view env)"

lemma permit_effect:
  assumes "account_contract R V view env" "acquire_mutation_permit env w = (r, w')"
  shows "others_act R V view w w'"
  using assms(2) unfolding acquire_mutation_permit_def
  by (cases rule: polled_map_cases) (use assms(1) in \<open>auto simp: account_contract_def gate_rely_def\<close>)

definition writes_own ::
  "zone_change \<Rightarrow> string set \<Rightarrow> ('w \<Rightarrow> dns_key \<Rightarrow> GoDaddyRecord list) \<Rightarrow> dns_key \<Rightarrow> (string multiset \<Rightarrow> string multiset)
     \<Rightarrow> bool \<Rightarrow> 'w \<Rightarrow> 'w \<Rightarrow> bool" where
  "writes_own R V view k change certain w w' =
     (R (foreign V view w) (foreign V view w')
      \<and> (owned V view w' = (owned V view w)(k := change (owned V view w k))
         \<or> \<not> certain \<and> owned V view w' = owned V view w))"

lemma writes_own_acts:
  "others_act R V view w w' \<Longrightarrow> \<not> certain \<Longrightarrow> writes_own R V view k change certain w w'"
  by (simp add: writes_own_def others_act_def)

lemma writes_own_after:
  assumes "transp R" "others_act R V view w x" "writes_own R V view k change certain x y"
  shows "writes_own R V view k change certain w y"
  using assms by (auto simp: writes_own_def others_act_def transp_def)

text \<open>A write of the records that were read, with our part changed and the rest kept.\<close>

lemma write_own:
  assumes "reflp R" "view w' = view w \<or> view w' = (view w)(k := rs)" "certain \<Longrightarrow> view w' = (view w)(k := rs)"
    and "mset (filter (\<lambda>v. v \<in> V) (map gr_data rs)) = change (owned V view w k)"
    and "filter (\<lambda>r. gr_data r \<notin> V) rs = foreign V view w k"
  shows "writes_own R V view k change certain w w'"
proof -
  have upd: "owned V view w' = (owned V view w)(k := change (owned V view w k)) \<and> foreign V view w' = foreign V view w"
    if "view w' = (view w)(k := rs)"
    using owned_upd[OF that, of V] assms(4,5) by simp
  show ?thesis
  proof (cases "view w' = (view w)(k := rs)")
    case True
    with upd assms(1) show ?thesis by (simp add: writes_own_def reflp_def)
  next
    case False
    with assms(2,3) same_view[of view w' w V] assms(1) show ?thesis by (auto simp: writes_own_def reflp_def)
  qed
qed

lemma create_section:
  assumes "account_contract R V view env" "v \<in> V"
    and "awaits (get_txt env auth d n w) (\<lambda>records w.
           awaits (put_txt env auth d n (records @ [\<lparr>gr_data = v, gr_ttl = DNS_RECORD_TTL\<rparr>]) w) (\<lambda>_ w.
             (Ready (Inr (GoDaddyHandle d n v)), w))) = (r, w')"
  shows "writes_own R V view (d, n) (add_mset v) (\<exists>h. r = Ready (Inr h)) w w'
    \<and> (\<forall>h. r = Ready (Inr h) \<longrightarrow> h = GoDaddyHandle d n v)"
proof -
  have service: "godaddy_service env view" and R: "reflp R" using assms(1) by (simp_all add: account_contract_def)
  from assms(3) show ?thesis
  proof (cases rule: awaits_cases)
    case (drop c)
    then show ?thesis by (auto intro: writes_own_acts same_acts[OF R get_txt_effect(1)[OF service drop(1)]])
  next
    case (err e)
    then show ?thesis by (auto intro: writes_own_acts same_acts[OF R get_txt_effect(1)[OF service err(1)]])
  next
    case (ok rs x)
    let ?new = "rs @ [\<lparr>gr_data = v, gr_ttl = DNS_RECORD_TTL\<rparr>]"
    have x: "view x = view w" "rs = view w (d, n)" using get_txt_effect[OF service ok(1)] by simp_all
    from ok(2) obtain p where put: "put_txt env auth d n ?new x = (p, w')"
      and r: "(\<exists>h. r = Ready (Inr h)) \<longleftrightarrow> p = Ready (Inr ())" "\<And>h. r = Ready (Inr h) \<Longrightarrow> h = GoDaddyHandle d n v"
      by (cases rule: awaits_cases) auto
    have "mset (filter (\<lambda>v. v \<in> V) (map gr_data ?new)) = add_mset v (owned V view w (d, n))"
      "filter (\<lambda>r. gr_data r \<notin> V) ?new = foreign V view w (d, n)"
      using assms(2) unfolding x(2) by (simp_all add: owned_def foreign_def)
    then have "writes_own R V view (d, n) (add_mset v) (\<exists>h. r = Ready (Inr h)) w w'"
      by (intro write_own[OF R, where rs = ?new]) (simp_all only: r(1) put_effect[OF service put, unfolded x(1)])
    with r(2) show ?thesis by blast
  qed
qed

lemma create_effect:
  assumes "account_contract R V view env" "v \<in> V" "godaddy_create_txt env auth fqdn v w = (r, w')"
  shows "\<exists>k. writes_own R V view k (add_mset v) (\<exists>h. r = Ready (Inr h)) w w'
    \<and> (\<forall>h. r = Ready (Inr h) \<longrightarrow> h = GoDaddyHandle (fst k) (snd k) v)"
proof -
  have service: "godaddy_service env view" and R: "reflp R" "transp R" using assms(1) by (simp_all add: account_contract_def)
  note same = same_acts[OF R(1)]
  have fails: ?thesis if "others_act R V view w w'" "\<forall>h. r \<noteq> Ready (Inr h)"
    using that by (simp add: writes_own_def others_act_def)
  from assms(3) show ?thesis unfolding godaddy_create_txt_def
  proof (cases rule: awaits_cases)
    case (drop c)
    show ?thesis by (rule fails[OF same[OF find_zone_effect[OF service drop(1)]]]) (simp add: drop)
  next
    case (err e)
    show ?thesis by (rule fails[OF same[OF find_zone_effect[OF service err(1)]]]) (simp add: err)
  next
    case (ok d x)
    have x: "others_act R V view w x" by (rule same[OF find_zone_effect[OF service ok(1)]])
    show ?thesis
    proof (cases "relative_name fqdn d")
      case (Inl e)
      with ok(2) x show ?thesis by (intro fails) auto
    next
      case (Inr n)
      from ok(2)[unfolded Inr sum.case] show ?thesis
      proof (cases rule: awaits_cases)
        case (drop c)
        show ?thesis by (rule fails[OF others_act_trans[OF R(2) x permit_effect[OF assms(1) drop(1)]]]) (simp add: drop)
      next
        case (err e)
        show ?thesis by (rule fails[OF others_act_trans[OF R(2) x permit_effect[OF assms(1) err(1)]]]) (simp add: err)
      next
        case permit: (ok u y)
        from create_section[OF assms(1,2) permit(2)] writes_own_after[OF R(2) others_act_trans[OF R(2) x permit_effect[OF assms(1) permit(1)]]]
        show ?thesis by (intro exI[of _ "(d, n)"]) auto
      qed
    qed
  qed
qed

lemma delete_section:
  assumes "account_contract R V view env" "v \<in> V"
    and "awaits (get_txt env auth d n w) (\<lambda>records w.
           case remove_last v records of
             None \<Rightarrow> (Ready (Inr ()), w)
           | Some rest \<Rightarrow>
               if rest = [] then request_empty env auth Gd_Delete (txt_path d n) None w
               else put_txt env auth d n rest w) = (r, w')"
  shows "writes_own R V view (d, n) (\<lambda>m. m - {#v#}) (r = Ready (Inr ())) w w'"
proof -
  have service: "godaddy_service env view" and R: "reflp R" using assms(1) by (simp_all add: account_contract_def)
  note same = same_acts[OF R]
  from assms(3) show ?thesis
  proof (cases rule: awaits_cases)
    case (drop c)
    show ?thesis by (rule writes_own_acts[OF same[OF get_txt_effect(1)[OF service drop(1)]]]) (simp add: drop)
  next
    case (err e)
    show ?thesis by (rule writes_own_acts[OF same[OF get_txt_effect(1)[OF service err(1)]]]) (simp add: err)
  next
    case (ok rs x)
    have x: "view x = view w" "rs = view w (d, n)" using get_txt_effect[OF service ok(1)] by simp_all
    show ?thesis
    proof (cases "remove_last v rs")
      case None
      then have "v \<notin># owned V view w (d, n)" using x(2) by (simp add: remove_last_None owned_def)
      then have "owned V view w (d, n) - {#v#} = owned V view w (d, n)" by (simp add: diff_single_trivial)
      with None ok(2) same_view[OF x(1), of V] R show ?thesis by (simp add: writes_own_def reflp_def)
    next
      case (Some rest)
      note parts = remove_last_parts[OF Some assms(2)]
      have "view w' = view x \<or> view w' = (view x)((d, n) := rest)" "r = Ready (Inr ()) \<Longrightarrow> view w' = (view x)((d, n) := rest)"
        using ok(2) Some put_effect[OF service, of auth d n rest x r w']
          write_effect[OF service, of auth Gd_Delete d n None x r w' "[]"]
        by (auto simp: requested_records_def split: if_splits)
      with parts show ?thesis unfolding x
        by (intro write_own[OF R, where rs = rest]) (simp_all only: owned_def foreign_def)
    qed
  qed
qed

lemma delete_effect:
  assumes "account_contract R V view env" "v \<in> V" "godaddy_delete_txt env auth d n v w = (r, w')"
  shows "writes_own R V view (d, n) (\<lambda>m. m - {#v#}) (r = Ready (Inr ())) w w'"
proof -
  have R: "transp R" using assms(1) by (simp add: account_contract_def)
  from assms(3) show ?thesis unfolding godaddy_delete_txt_def
  proof (cases rule: awaits_cases)
    case (drop c)
    show ?thesis by (rule writes_own_acts[OF permit_effect[OF assms(1) drop(1)]]) (simp add: drop)
  next
    case (err e)
    show ?thesis by (rule writes_own_acts[OF permit_effect[OF assms(1) err(1)]]) (simp add: err)
  next
    case (ok u x)
    from writes_own_after[OF R permit_effect[OF assms(1) ok(1)] delete_section[OF assms(1,2) ok(2)]] show ?thesis .
  qed
qed

text \<open>An account whose service answers every request in time and without an error.\<close>

definition account_healthy :: "'w dns_env \<Rightarrow> bool" where
  "account_healthy env =
     ((\<forall>w. fst (dn_permit env w) = Ready True)
      \<and> (\<forall>rq w. case fst (dn_send env rq w) of
             Ready (Answered status b) \<Rightarrow>
               if gq_method rq = Gd_Get
               then status = 404 \<or> is_success status \<and> ((\<exists>d n. gq_path rq = txt_path d n) \<longrightarrow> is_ok (dn_records env b))
               else is_success status
           | _ \<Rightarrow> False))"

lemma healthy_send:
  assumes "account_healthy env"
  obtains status b w' where "dn_send env rq w = (Ready (Answered status b), w')"
    and "gq_method rq \<noteq> Gd_Get \<Longrightarrow> is_success status"
    and "gq_method rq = Gd_Get \<Longrightarrow> status = 404 \<or> is_success status \<and> ((\<exists>d n. gq_path rq = txt_path d n) \<longrightarrow> is_ok (dn_records env b))"
proof -
  obtain a w' where send: "dn_send env rq w = (a, w')" by fastforce
  with assms have "case a of Ready (Answered status b) \<Rightarrow>
               if gq_method rq = Gd_Get
               then status = 404 \<or> is_success status \<and> ((\<exists>d n. gq_path rq = txt_path d n) \<longrightarrow> is_ok (dn_records env b))
               else is_success status
           | _ \<Rightarrow> False"
    unfolding account_healthy_def by (elim conjE allE[where x = rq] allE[where x = w]) simp
  then obtain status b where "a = Ready (Answered status b)" "gq_method rq \<noteq> Gd_Get \<Longrightarrow> is_success status"
    "gq_method rq = Gd_Get \<Longrightarrow> status = 404 \<or> is_success status \<and> ((\<exists>d n. gq_path rq = txt_path d n) \<longrightarrow> is_ok (dn_records env b))"
    by (simp split: polled.splits gd_answer.splits if_splits)
  with send that show thesis by blast
qed

lemma healthy_permit: "account_healthy env \<Longrightarrow> \<exists>w'. acquire_mutation_permit env w = (Ready (Inr ()), w')"
proof -
  assume "account_healthy env"
  then have "fst (dn_permit env w) = Ready True" by (simp add: account_healthy_def)
  then show ?thesis by (cases "dn_permit env w") (simp add: acquire_mutation_permit_def polled_map_def)
qed

lemma healthy_get:
  assumes "account_healthy env"
  shows "\<exists>r w'. gd_exchange env auth Gd_Get path query body receive w = (Ready r, w')"
  by (rule healthy_send[OF assms, of "\<lparr>gq_method = Gd_Get, gq_path = path, gq_query = query, gq_authorization = auth, gq_body = body\<rparr>" w])
    (simp add: gd_exchange_def polled_map_def)

lemma healthy_get_txt:
  assumes "account_healthy env"
  shows "\<exists>rs w'. get_txt env auth d n w = (Ready (Inr rs), w')"
proof (rule healthy_send[OF assms, of "\<lparr>gq_method = Gd_Get, gq_path = txt_path d n, gq_query = [], gq_authorization = auth, gq_body = None\<rparr>" w])
  fix status b w'
  assume send: "dn_send env \<lparr>gq_method = Gd_Get, gq_path = txt_path d n, gq_query = [], gq_authorization = auth, gq_body = None\<rparr> w
      = (Ready (Answered status b), w')"
    and "gq_method \<lparr>gq_method = Gd_Get, gq_path = txt_path d n, gq_query = [], gq_authorization = auth, gq_body = None\<rparr> = Gd_Get
      \<Longrightarrow> status = 404 \<or> is_success status
        \<and> ((\<exists>d' n'. gq_path \<lparr>gq_method = Gd_Get, gq_path = txt_path d n, gq_query = [], gq_authorization = auth, gq_body = None\<rparr> = txt_path d' n')
           \<longrightarrow> is_ok (dn_records env b))"
  then have "status = 404 \<or> is_success status \<and> is_ok (dn_records env b)" by auto
  with send show ?thesis
    by (auto simp: get_txt_def gd_exchange_def polled_map_def parse_response_def is_ok_iff split: sum.splits)
qed

lemma healthy_write:
  assumes "account_healthy env" "m \<noteq> Gd_Get"
  shows "\<exists>w'. request_empty env auth m path body w = (Ready (Inr ()), w')"
  by (rule healthy_send[OF assms(1), of "\<lparr>gq_method = m, gq_path = path, gq_query = [], gq_authorization = auth, gq_body = body\<rparr>" w])
    (use assms(2) in \<open>simp add: request_empty_def gd_exchange_def polled_map_def\<close>)

lemma healthy_delete:
  assumes "account_healthy env" "godaddy_delete_txt env auth d n v w = (r, w')"
  shows "r = Ready (Inr ())"
proof -
  obtain x where x: "acquire_mutation_permit env w = (Ready (Inr ()), x)" using healthy_permit[OF assms(1)] by blast
  obtain rs y where y: "get_txt env auth d n x = (Ready (Inr rs), y)" using healthy_get_txt[OF assms(1)] by blast
  obtain z where "request_empty env auth Gd_Delete (txt_path d n) None y = (Ready (Inr ()), z)"
    using healthy_write[OF assms(1)] by (metis gd_method.distinct(3))
  moreover have "\<exists>z. put_txt env auth d n rest y = (Ready (Inr ()), z)" for rest
    unfolding put_txt_def by (rule healthy_write[OF assms(1)]) simp
  then obtain f where "put_txt env auth d n rest y = (Ready (Inr ()), f rest)" for rest by metis
  ultimately show ?thesis using assms(2) x y
    by (auto simp: godaddy_delete_txt_def split: option.splits if_splits)
qed

lemma healthy_create:
  assumes "account_healthy env" "account_contract R V view env" "godaddy_create_txt env auth fqdn v w = (r, w')"
  shows "(\<exists>h. r = Ready (Inr h)) \<or> (\<exists>e. r = Ready (Inl e)) \<and> others_act R V view w w'"
proof -
  have service: "godaddy_service env view" and R: "reflp R" using assms(2) by (simp_all add: account_contract_def)
  obtain p x where p: "gd_exchange env auth Gd_Get [''domains''] [(''statuses'', ''ACTIVE''), (''limit'', ''1000'')] None
      (parse_response env (dn_domains env)) w = (Ready p, x)" using healthy_get[OF assms(1)] by metis
  obtain z where z: "find_zone env auth fqdn w = (Ready z, x)"
    by (cases p) (simp_all add: find_zone_def gd_request_json_def awaits_def p)
  note x = same_acts[OF R find_zone_effect[OF service z]]
  show ?thesis
  proof (cases "\<exists>d n. z = Inr d \<and> relative_name fqdn d = Inr n")
    case False
    with z assms(3) x show ?thesis by (auto simp: godaddy_create_txt_def awaits_def split: sum.splits)
  next
    case True
    then obtain d n where d: "z = Inr d" "relative_name fqdn d = Inr n" by blast
    obtain y where "acquire_mutation_permit env x = (Ready (Inr ()), y)" using healthy_permit[OF assms(1)] by blast
    moreover obtain rs u where "get_txt env auth d n y = (Ready (Inr rs), u)" using healthy_get_txt[OF assms(1)] by blast
    moreover obtain q where "put_txt env auth d n (rs @ [\<lparr>gr_data = v, gr_ttl = DNS_RECORD_TTL\<rparr>]) u = (Ready (Inr ()), q)"
      unfolding put_txt_def using healthy_write[OF assms(1)] by (metis gd_method.distinct(1))
    ultimately show ?thesis using z d assms(3) by (auto simp: godaddy_create_txt_def)
  qed
qed

end
