(* ===== verification/Acme_Issue.thy ===== *)
theory Acme_Issue
  imports Certificate_Manager Dns_Client "HOL-Library.Countable"
begin

text \<open>
  \<open>gaterust-proxy/src/acme.rs\<close>: issuing a certificate. The ACME library, OpenSSL, base64 and the DNS
  resolver are parameters; accounts, orders and challenges are numbers they hand out. What the
  network and the other tasks do is a state of any type that the parameters pass on.
\<close>

section \<open>What the ACME library offers\<close>

datatype AuthorizationStatus = AuthValid | AuthPending | AuthOther string

record Authorization =
  az_status :: AuthorizationStatus
  az_identifier :: string
  az_dns01 :: "nat option"

datatype OrderStatus = OrderReady | OrderValid | OrderOther string

record AccountBuilder =
  ab_directory :: nat
  ab_private_key :: bytes
  ab_contact :: "string list"
  ab_terms_of_service_agreed :: bool
  ab_only_return_existing :: bool
  ab_external_account_binding :: "(string \<times> bytes) option"

datatype RData = TxtData "bytes list" | OtherData

text \<open>
  \<open>ax_gate\<close> waits for the account gate and is false when it is closed. \<open>ax_late\<close> is by how much the
  clock is ahead of the polling intervals that have passed, and \<open>ax_cleanup\<close> the order in which
  concurrent deletions happen. \<open>ax_decode True\<close> is base64 with padding.
\<close>

record 'x acme_env =
  ax_dns :: "'x dns_env"
  ax_cache :: cache_env
  ax_gate :: "('x, bool) pending"
  ax_key_of_pem :: "bytes \<Rightarrow> (string, bytes) res"
  ax_pem_of_key :: "bytes \<Rightarrow> (string, bytes) res"
  ax_generate :: "KeyAlgorithm \<Rightarrow> 'x \<Rightarrow> (string, bytes) res \<times> 'x"
  ax_decode :: "bool \<Rightarrow> string \<Rightarrow> bytes option"
  ax_hmac :: "bytes \<Rightarrow> (string, bytes) res"
  ax_directory :: "string \<Rightarrow> ('x, (string, nat) res) pending"
  ax_account :: "AccountBuilder \<Rightarrow> ('x, (string, nat) res) pending"
  ax_order :: "nat \<Rightarrow> string list \<Rightarrow> ('x, (string, nat) res) pending"
  ax_authorizations :: "nat \<Rightarrow> ('x, (string, Authorization list) res) pending"
  ax_key_authorization :: "nat \<Rightarrow> (string, string option) res"
  ax_validate :: "nat \<Rightarrow> ('x, (string, nat) res) pending"
  ax_challenge_done :: "nat \<Rightarrow> ('x, (string, bool \<times> string) res) pending"
  ax_order_ready :: "nat \<Rightarrow> ('x, (string, nat \<times> OrderStatus) res) pending"
  ax_finalize :: "nat \<Rightarrow> bytes \<Rightarrow> ('x, (string, nat) res) pending"
  ax_order_done :: "nat \<Rightarrow> ('x, (string, nat \<times> OrderStatus) res) pending"
  ax_certificate :: "nat \<Rightarrow> ('x, (string, bytes list option) res) pending"
  ax_to_pem :: "bytes \<Rightarrow> (string, bytes) res"
  ax_resolver :: "'x \<Rightarrow> string option"
  ax_lookup :: "string \<Rightarrow> ('x, RData list option) pending"
  ax_sleep :: "('x, unit) pending"
  ax_late :: "'x \<Rightarrow> nat"
  ax_cleanup :: "DnsRecordHandle list \<Rightarrow> DnsRecordHandle list"

definition DNS_PROPAGATION_TIMEOUT :: nat where "DNS_PROPAGATION_TIMEOUT = 5 * 60"
definition DNS_POLL_INTERVAL :: nat where "DNS_POLL_INTERVAL = 5"

definition acme_result :: "(string, 'a) res \<Rightarrow> (ProxyError, 'a) res" where
  "acme_result r = (case r of Inl e \<Rightarrow> Inl (Acme e) | Inr x \<Rightarrow> Inr x)"

text \<open>\<open>bounded(cancellation, operation, future).await?\<close>: the future runs to its end or is dropped.\<close>

definition bounded :: "string \<Rightarrow> (ProxyError, 'a) res polled \<times> 'x \<Rightarrow> (ProxyError, 'a) res \<times> 'x" where
  "bounded operation r =
     (case r of
        (Dropped StopCancelled, x) \<Rightarrow> (Inl (Acme (operation @ '': cancelled'')), x)
      | (Dropped StopTimeout, x) \<Rightarrow> (Inl (Acme (operation @ '': timed out'')), x)
      | (Ready v, x) \<Rightarrow> (v, x))"

definition acme_call :: "string \<Rightarrow> ('x, (string, 'a) res) pending \<Rightarrow> 'x \<Rightarrow> (ProxyError, 'a) res \<times> 'x" where
  "acme_call operation f x = bounded operation (polled_map acme_result (f x))"

section \<open>Challenges\<close>

fun collect_authorizations ::
  "'x acme_env \<Rightarrow> Authorization list \<Rightarrow> nat list \<Rightarrow> (string \<times> string) list \<Rightarrow> (ProxyError, nat list \<times> (string \<times> string) list) res" where
  "collect_authorizations env [] challenges records = Inr (challenges, records)"
| "collect_authorizations env (a # as) challenges records =
     (case az_status a of
        AuthValid \<Rightarrow> collect_authorizations env as challenges records
      | AuthOther status \<Rightarrow> Inl (Acme (''authorization of '' @ az_identifier a @ '' is '' @ status))
      | AuthPending \<Rightarrow>
          (case az_dns01 a of
             None \<Rightarrow> Inl (Acme ''the CA offers no DNS-01 challenge'')
           | Some challenge \<Rightarrow>
               res_bind (acme_result (ax_key_authorization env challenge)) (\<lambda>key.
                 case key of
                   None \<Rightarrow> Inl (Acme ''the DNS-01 challenge has no token'')
                 | Some value \<Rightarrow>
                     (let domain = (case strip_prefix ''*.'' (az_identifier a) of Some d \<Rightarrow> d | None \<Rightarrow> az_identifier a)
                      in collect_authorizations env as (challenges @ [challenge])
                           (records @ [(''_acme-challenge.'' @ domain, value)])))))"

definition collect_challenges ::
  "'x acme_env \<Rightarrow> nat \<Rightarrow> 'x \<Rightarrow> (ProxyError, nat list \<times> (string \<times> string) list) res \<times> 'x" where
  "collect_challenges env order x =
     fs_bind (acme_call ''reading the authorizations'' (ax_authorizations env order) x)
       (\<lambda>authorizations x. (collect_authorizations env authorizations [] [], x))"

fun validate_challenges :: "'x acme_env \<Rightarrow> nat list \<Rightarrow> 'x \<Rightarrow> (ProxyError, unit) res \<times> 'x" where
  "validate_challenges env [] x = (Inr (), x)"
| "validate_challenges env (c # cs) x =
     fs_bind (acme_call ''submitting the challenge'' (ax_validate env c) x) (\<lambda>c x.
     fs_bind (acme_call ''waiting for the validation'' (ax_challenge_done env c) x) (\<lambda>(valid, problem) x.
       if \<not> valid then (Inl (Acme (''DNS-01 validation failed: '' @ problem)), x)
       else validate_challenges env cs x))"

definition answer_matches :: "string \<Rightarrow> RData \<Rightarrow> bool" where
  "answer_matches value d = (case d of TxtData parts \<Rightarrow> concat parts = str_bytes value | OtherData \<Rightarrow> False)"

text \<open>The look-ups run concurrently; the first that fails ends them all.\<close>

fun lookup_records :: "'x acme_env \<Rightarrow> (string \<times> string) list \<Rightarrow> ('x, (ProxyError, bool) res) pending" where
  "lookup_records env [] x = (Ready (Inr True), x)"
| "lookup_records env ((name, value) # rs) x =
     (case ax_lookup env (name @ ''.'') x of
        (Dropped c, x) \<Rightarrow> (Dropped c, x)
      | (Ready None, x) \<Rightarrow> (Ready (Inr False), x)
      | (Ready (Some answers), x) \<Rightarrow>
          if list_ex (answer_matches value) answers then lookup_records env rs x else (Ready (Inr False), x))"

definition dns_records_visible :: "'x acme_env \<Rightarrow> (string \<times> string) list \<Rightarrow> ('x, (ProxyError, bool) res) pending" where
  "dns_records_visible env records x =
     (case ax_resolver env x of
        Some e \<Rightarrow> (Ready (Inl (Dns (''no DNS resolver: '' @ e))), x)
      | None \<Rightarrow> lookup_records env records x)"

text \<open>
  \<open>k\<close> is the number of polling intervals that have been slept. Every one takes at least
  \<open>DNS_POLL_INTERVAL\<close>, so the deadline passes after at most sixty of them.
\<close>

function wait_for_dns_records :: "'x acme_env \<Rightarrow> (string \<times> string) list \<Rightarrow> nat \<Rightarrow> 'x \<Rightarrow> (ProxyError, unit) res \<times> 'x" where
  "wait_for_dns_records env records k x =
     (case dns_records_visible env records x of
        (Dropped c, x) \<Rightarrow> (Inl (Acme ''the request was cancelled''), x)
      | (Ready (Inl e), x) \<Rightarrow> (Inl e, x)
      | (Ready (Inr visible), x) \<Rightarrow>
          if visible then (Inr (), x)
          else if DNS_PROPAGATION_TIMEOUT \<le> DNS_POLL_INTERVAL * k + ax_late env x
          then (Inl (Dns ''the TXT records did not propagate in time''), x)
          else (case ax_sleep env x of
                  (Dropped c, x) \<Rightarrow> (Inl (Acme ''the request was cancelled''), x)
                | (Ready _, x) \<Rightarrow> wait_for_dns_records env records (Suc k) x))"
  by pat_completeness auto
termination
  by (relation "measure (\<lambda>(env, records, k, x). DNS_PROPAGATION_TIMEOUT - k)")
     (auto simp: DNS_PROPAGATION_TIMEOUT_def DNS_POLL_INTERVAL_def)

definition verify_dns_records :: "'x acme_env \<Rightarrow> (string \<times> string) list \<Rightarrow> 'x \<Rightarrow> (ProxyError, unit) res \<times> 'x" where
  "verify_dns_records env records x =
     (case dns_records_visible env records x of
        (Dropped c, x) \<Rightarrow> (Inl (Acme ''the request was cancelled''), x)
      | (Ready (Inl e), x) \<Rightarrow> (Inl e, x)
      | (Ready (Inr visible), x) \<Rightarrow>
          (if visible then Inr () else Inl (Dns ''the public DNS does not show all TXT values yet''), x))"

section \<open>Automatic authorization\<close>

fun create_records ::
  "'x acme_env \<Rightarrow> DnsClient \<Rightarrow> (string \<times> string) list \<Rightarrow> DnsRecordHandle list \<Rightarrow> 'x
     \<Rightarrow> ((ProxyError, unit) res \<times> DnsRecordHandle list) \<times> 'x" where
  "create_records env client [] handles x = ((Inr (), handles), x)"
| "create_records env client ((name, value) # rs) handles x =
     (case bounded ''creating a DNS-01 record'' (create_txt (ax_dns env) client name value x) of
        (Inl e, x) \<Rightarrow> ((Inl e, handles), x)
      | (Inr h, x) \<Rightarrow> create_records env client rs (handles @ [h]) x)"

text \<open>A failed deletion is only logged; the timeout around all of them drops what is left.\<close>

fun delete_records :: "'x dns_env \<Rightarrow> DnsClient \<Rightarrow> DnsRecordHandle list \<Rightarrow> 'x \<Rightarrow> 'x" where
  "delete_records env client [] x = x"
| "delete_records env client (h # hs) x =
     (case delete_txt env client h x of
        (Dropped c, x) \<Rightarrow> x
      | (Ready _, x) \<Rightarrow> delete_records env client hs x)"

definition cleanup_records :: "'x acme_env \<Rightarrow> DnsClient \<Rightarrow> DnsRecordHandle list \<Rightarrow> 'x \<Rightarrow> 'x" where
  "cleanup_records env client handles = delete_records (ax_dns env) client (ax_cleanup env handles)"

definition authorize_automatically ::
  "'x acme_env \<Rightarrow> DnsClient \<Rightarrow> nat list \<Rightarrow> (string \<times> string) list \<Rightarrow> 'x \<Rightarrow> (ProxyError, unit) res \<times> 'x" where
  "authorize_automatically env client challenges records x =
     (case create_records env client records [] x of
        ((created, handles), x) \<Rightarrow>
          (case fs_bind (created, x) (\<lambda>_ x.
                fs_bind (wait_for_dns_records env records 0 x) (\<lambda>_. validate_challenges env challenges)) of
             (result, x) \<Rightarrow> (result, cleanup_records env client handles x)))"

section \<open>Accounts and certificates\<close>

record 'x issue_world =
  iw_fs :: fs_state
  iw_net :: 'x

definition on_net :: "('x \<Rightarrow> 'a \<times> 'x) \<Rightarrow> 'x issue_world \<Rightarrow> 'a \<times> 'x issue_world" where
  "on_net f w = (case f (iw_net w) of (r, x) \<Rightarrow> (r, w\<lparr>iw_net := x\<rparr>))"

definition on_fs :: "(fs_state \<Rightarrow> 'a \<times> fs_state) \<Rightarrow> 'x issue_world \<Rightarrow> 'a \<times> 'x issue_world" where
  "on_fs f w = (case f (iw_fs w) of (r, s) \<Rightarrow> (r, w\<lparr>iw_fs := s\<rparr>))"

definition generate_key :: "'x acme_env \<Rightarrow> KeyAlgorithm \<Rightarrow> 'x \<Rightarrow> (ProxyError, bytes) res \<times> 'x" where
  "generate_key env algorithm x = (case ax_generate env algorithm x of (r, x) \<Rightarrow> (acme_result r, x))"

definition decode_eab_hmac :: "'x acme_env \<Rightarrow> string \<Rightarrow> (ProxyError, bytes) res" where
  "decode_eab_hmac env encoded =
     (case ax_decode env False encoded of
        Some key \<Rightarrow> Inr key
      | None \<Rightarrow>
          (case ax_decode env True encoded of
             Some key \<Rightarrow> Inr key
           | None \<Rightarrow> Inl (InvalidConfig ''the Google EAB HMAC key is not Base64URL'')))"

text \<open>The key of the account: the cached one, or a new one that is stored before it is used.\<close>

definition account_key ::
  "'x acme_env \<Rightarrow> path \<Rightarrow> AcmeAccountConfig \<Rightarrow> 'x issue_world \<Rightarrow> (ProxyError, bytes \<times> bool) res \<times> 'x issue_world" where
  "account_key env root config w =
     (let dir = account_directory root (aa_id config)
      in case load_private_key (ax_cache env) (fs_files (iw_fs w)) dir config of
           Inl e \<Rightarrow> (Inl e, w)
         | Inr (Some (pem, registered)) \<Rightarrow>
             (res_bind (acme_result (ax_key_of_pem env pem)) (\<lambda>key. Inr (key, registered)), w)
         | Inr None \<Rightarrow>
             fs_bind (on_net (generate_key env (aa_key_algorithm config)) w) (\<lambda>key w.
             case acme_result (ax_pem_of_key env key) of
               Inl e \<Rightarrow> (Inl e, w)
             | Inr pem \<Rightarrow>
                 fs_bind (on_fs (store_private_key (ax_cache env) dir config pem False) w) (\<lambda>_ w. (Inr (key, False), w))))"

definition account_binding ::
  "'x acme_env \<Rightarrow> AcmeAccountConfig \<Rightarrow> bool \<Rightarrow> (ProxyError, (string \<times> bytes) option) res" where
  "account_binding env config registered =
     (if registered \<or> aa_provider config \<noteq> GoogleCloud then Inr None
      else case aa_eab_key_id config of
        None \<Rightarrow> Inl (InvalidConfig (''ACME account '' @ aa_name config @ '' lacks the EAB key id''))
      | Some key_id \<Rightarrow>
          (case aa_eab_hmac_key config of
             None \<Rightarrow> Inl (InvalidConfig (''ACME account '' @ aa_name config @ '' lacks the EAB HMAC key''))
           | Some encoded \<Rightarrow>
               res_bind (decode_eab_hmac env encoded) (\<lambda>key.
               res_bind (acme_result (ax_hmac env key)) (\<lambda>hmac. Inr (Some (key_id, hmac))))))"

definition load_account ::
  "'x acme_env \<Rightarrow> path \<Rightarrow> AcmeAccountConfig \<Rightarrow> 'x issue_world \<Rightarrow> (ProxyError, nat) res \<times> 'x issue_world" where
  "load_account env root config w =
     (case on_net (ax_gate env) w of
        (Dropped c, w) \<Rightarrow> (Inl (Acme ''cancelled while waiting for the account''), w)
      | (Ready False, w) \<Rightarrow> (Inl (Acme ''the account channel is closed''), w)
      | (Ready True, w) \<Rightarrow>
          fs_bind (account_key env root config w) (\<lambda>(private_key, registered) w.
          fs_bind (on_net (acme_call ''reading the ACME directory'' (ax_directory env (directory_url config))) w) (\<lambda>directory w.
          case account_binding env config registered of
            Inl e \<Rightarrow> (Inl e, w)
          | Inr binding \<Rightarrow>
              fs_bind (on_net (acme_call ''creating or recovering the account'' (ax_account env
                  \<lparr>ab_directory = directory, ab_private_key = private_key, ab_contact = [''mailto:'' @ aa_email config],
                   ab_terms_of_service_agreed = True, ab_only_return_existing = registered,
                   ab_external_account_binding = binding\<rparr>)) w) (\<lambda>account w.
              if registered then (Inr account, w)
              else case acme_result (ax_pem_of_key env private_key) of
                Inl e \<Rightarrow> (Inl e, w)
              | Inr pem \<Rightarrow>
                  fs_bind (on_fs (store_private_key (ax_cache env) (account_directory root (aa_id config)) config pem True) w)
                    (\<lambda>_ w. (Inr account, w))))))"

definition finalize ::
  "'x acme_env \<Rightarrow> path \<Rightarrow> IssuanceRequest \<Rightarrow> nat \<Rightarrow> 'x issue_world \<Rightarrow> (ProxyError, IssuedCertificate) res \<times> 'x issue_world" where
  "finalize env root rq order w =
     fs_bind (on_net (acme_call ''waiting for the order'' (ax_order_ready env order)) w) (\<lambda>(order, status) w.
     if status \<noteq> OrderReady then (Inl (Acme ''the order is not ready''), w)
     else fs_bind (on_net (generate_key env (aa_key_algorithm (iq_account rq))) w) (\<lambda>private_key w.
     fs_bind (on_net (acme_call ''submitting the certificate request'' (ax_finalize env order private_key)) w) (\<lambda>order w.
     fs_bind (on_net (acme_call ''waiting for the certificate'' (ax_order_done env order)) w) (\<lambda>(order, status) w.
     if status \<noteq> OrderValid then (Inl (Acme ''the order was not fulfilled''), w)
     else fs_bind (on_net (acme_call ''downloading the chain'' (ax_certificate env order)) w) (\<lambda>chain w.
     case chain of
       None \<Rightarrow> (Inl (Acme ''the order has no chain''), w)
     | Some certificates \<Rightarrow>
         (case res_bind (res_map (\<lambda>c. acme_result (ax_to_pem env c)) certificates) (\<lambda>pems.
               res_bind (acme_result (ax_pem_of_key env private_key)) (\<lambda>key_pem. Inr (concat pems, key_pem))) of
            Inl e \<Rightarrow> (Inl e, w)
          | Inr (certificate_pem, private_key_pem) \<Rightarrow>
              fs_bind (on_fs (store_certificate (ax_cache env) root (iq_certificate rq) certificate_pem private_key_pem) w)
                (\<lambda>expires_at w.
                   (Inr \<lparr>ic_certificate_pem = certificate_pem, ic_private_key_pem = private_key_pem,
                         ic_expires_at = expires_at\<rparr>, w))))))))"

definition begin_issue ::
  "'x acme_env \<Rightarrow> path \<Rightarrow> IssuanceRequest \<Rightarrow> 'x issue_world \<Rightarrow> (ProxyError, IssueResult) res \<times> 'x issue_world" where
  "begin_issue env root rq w =
     fs_bind (load_account env root (iq_account rq) w) (\<lambda>account w.
     fs_bind (on_net (acme_call ''creating the order'' (ax_order env account (ce_domains (iq_certificate rq)))) w) (\<lambda>order w.
     fs_bind (on_net (collect_challenges env order) w) (\<lambda>(challenges, records) w.
     case ce_validation (iq_certificate rq) of
       Some (DnsAccount _) \<Rightarrow>
         (case iq_dns_account rq of
            None \<Rightarrow> (Inl (InvalidConfig ''the DNS account of the certificate does not exist''), w)
          | Some dns_config \<Rightarrow>
              (case dns_client_from_config (ax_dns env) dns_config of
                 Inl e \<Rightarrow> (Inl e, w)
               | Inr dns \<Rightarrow>
                   fs_bind (on_net (authorize_automatically env dns challenges records) w) (\<lambda>_ w.
                   fs_bind (finalize env root rq order w) (\<lambda>issued w. (Inr (Issued issued), w)))))
     | Some Manual \<Rightarrow>
         (Inr (Waiting \<lparr>mo_request = rq, mo_order = order, mo_challenges = challenges, mo_records = records\<rparr>), w)
     | None \<Rightarrow> (Inl (InvalidConfig ''a certificate to be migrated cannot be issued''), w))))"

definition continue_manual ::
  "'x acme_env \<Rightarrow> path \<Rightarrow> ManualOrder \<Rightarrow> 'x issue_world \<Rightarrow> (ProxyError, IssuedCertificate) res \<times> 'x issue_world" where
  "continue_manual env root order w =
     fs_bind (on_net (validate_challenges env (mo_challenges order)) w) (\<lambda>_ w.
       finalize env root (mo_request order) (mo_order order) w)"

definition verify_manual :: "'x acme_env \<Rightarrow> ManualOrder \<Rightarrow> 'x issue_world \<Rightarrow> (ProxyError, unit) res \<times> 'x issue_world" where
  "verify_manual env order = on_net (verify_dns_records env (mo_records order))"

section \<open>The records an authorization leaves behind\<close>

definition handle_values :: "dns_key \<Rightarrow> DnsRecordHandle \<Rightarrow> string multiset" where
  "handle_values k h = (case h of GoDaddyHandle d n v \<Rightarrow> if (d, n) = k then {#v#} else {#} | UnifiedHandle _ _ \<Rightarrow> {#})"

definition handles_load :: "DnsRecordHandle list \<Rightarrow> dns_key \<Rightarrow> string multiset" where
  "handles_load hs k = sum_list (map (handle_values k) hs)"

definition handle_ok :: "string set \<Rightarrow> DnsRecordHandle \<Rightarrow> bool" where
  "handle_ok V h = (case h of GoDaddyHandle d n v \<Rightarrow> v \<in> V | UnifiedHandle _ _ \<Rightarrow> False)"

lemma handles_load_simps [simp]:
  "handles_load [] k = {#}" "handles_load (h # hs) k = handle_values k h + handles_load hs k"
  "handle_values k (GoDaddyHandle (fst l) (snd l) v) = (if l = k then {#v#} else {#})"
  "handle_values k (GoDaddyHandle d n v) = (if (d, n) = k then {#v#} else {#})"
  by (simp_all add: handles_load_def handle_values_def)

lemma handle_ok_simps [simp]: "handle_ok V (GoDaddyHandle d n v) \<longleftrightarrow> v \<in> V" "\<not> handle_ok V (UnifiedHandle i j)"
  by (simp_all add: handle_ok_def)

lemma handles_load_mset: "mset hs = mset hs' \<Longrightarrow> handles_load hs k = handles_load hs' k"
  unfolding handles_load_def by (metis mset_map sum_mset_sum_list)

lemma subset_add_mset: "A \<subseteq># B \<Longrightarrow> A \<subseteq># add_mset v B"
  by (metis add_mset_add_single mset_subset_eq_add_left subset_mset.order_trans)

lemma bounded_cases:
  assumes "bounded operation p = (r, x')"
  obtains (ready) "p = (Ready r, x')" | (drop) c e where "p = (Dropped c, x')" "r = Inl e"
  using assms by (auto simp: bounded_def split: prod.splits polled.splits stop_reason.splits)

lemma create_records_effect:
  assumes "account_contract R V view (ax_dns env)" "snd ` set rs \<subseteq> V"
    and "create_records env (GoDaddyClient auth) rs hs x = ((r, hs'), y)"
  shows "\<exists>new extra. hs' = hs @ new \<and> list_all (handle_ok V) new \<and> R (foreign V view x) (foreign V view y)
    \<and> (\<forall>k. owned V view y k = owned V view x k + handles_load new k + extra k
           \<and> handles_load new k + extra k \<subseteq># mset (map snd rs))
    \<and> (r = Inr () \<or> account_healthy (ax_dns env) \<longrightarrow> extra = (\<lambda>_. {#}))"
  using assms(2,3)
proof (induction rs arbitrary: hs x)
  case Nil
  then show ?case using assms(1) by (intro exI[of _ "[]"] exI[of _ "\<lambda>_. {#}"]) (auto simp: account_contract_def reflp_def)
next
  case (Cons nv rs)
  obtain n v where nv: "nv = (n, v)" by (cases nv)
  with Cons.prems have v: "v \<in> V" by auto
  obtain p x1 where p: "create_txt (ax_dns env) (GoDaddyClient auth) n v x = (p, x1)" by fastforce
  then have gd: "godaddy_create_txt (ax_dns env) auth n v x = (p, x1)" by (simp add: create_txt_def)
  obtain k where k: "writes_own R V view k (add_mset v) (\<exists>h. p = Ready (Inr h)) x x1"
    "\<And>h. p = Ready (Inr h) \<Longrightarrow> h = GoDaddyHandle (fst k) (snd k) v"
    using create_effect[OF assms(1) v gd] by blast
  show ?case
  proof (cases "\<exists>h. p = Ready (Inr h)")
    case True
    then obtain h where h: "p = Ready (Inr h)" by blast
    with k(2) have hk: "h = GoDaddyHandle (fst k) (snd k) v" by blast
    have x1: "owned V view x1 = (owned V view x)(k := add_mset v (owned V view x k))" "R (foreign V view x) (foreign V view x1)"
      using k(1) h by (simp_all add: writes_own_def)
    from Cons.prems(2) nv p h have "create_records env (GoDaddyClient auth) rs (hs @ [h]) x1 = ((r, hs'), y)"
      by (simp add: bounded_def)
    from Cons.IH[OF _ this] Cons.prems(1) obtain new extra where IH: "hs' = (hs @ [h]) @ new" "list_all (handle_ok V) new"
      "R (foreign V view x1) (foreign V view y)"
      "\<And>k. owned V view y k = owned V view x1 k + handles_load new k + extra k"
      "\<And>k. handles_load new k + extra k \<subseteq># mset (map snd rs)"
      "r = Inr () \<or> account_healthy (ax_dns env) \<longrightarrow> extra = (\<lambda>_. {#})" by auto
    have "R (foreign V view x) (foreign V view y)"
      using x1(2) IH(3) assms(1) by (auto simp: account_contract_def transp_def)
    moreover have "handles_load (h # new) l + extra l \<subseteq># mset (map snd (nv # rs))" for l
      using IH(5)[of l] by (auto simp: hk nv intro: subset_mset.le_imp_diff_is_add subset_mset.order_trans[OF IH(5)])
    ultimately show ?thesis using IH x1(1) v hk
      by (intro exI[of _ "h # new"] exI[of _ extra]) auto
  next
    case False
    then have y: "y = x1" "hs' = hs" "r \<noteq> Inr ()" using Cons.prems(2) nv p
      by (auto simp: bounded_def split: polled.splits stop_reason.splits sum.splits)
    let ?extra = "\<lambda>l. if owned V view x1 = owned V view x then {#} else if l = k then {#v#} else {#}"
    have "account_healthy (ax_dns env) \<Longrightarrow> owned V view x1 = owned V view x"
      using healthy_create[OF _ assms(1) gd] False by (auto simp: others_act_def)
    with k(1) y False show ?thesis
      by (intro exI[of _ "[]"] exI[of _ ?extra]) (auto simp: writes_own_def nv)
  qed
qed

lemma delete_records_effect:
  assumes "account_contract R V view env" "list_all (handle_ok V) hs"
    and "\<And>k. owned V view x k = base k + handles_load hs k"
    and "delete_records env (GoDaddyClient auth) hs x = y"
  shows "\<exists>rest. R (foreign V view x) (foreign V view y)
    \<and> (\<forall>k. owned V view y k = base k + rest k \<and> rest k \<subseteq># handles_load hs k)
    \<and> (account_healthy env \<longrightarrow> rest = (\<lambda>_. {#}))"
  using assms(2-)
proof (induction hs arbitrary: x base)
  case Nil
  then show ?case using assms(1) by (intro exI[of _ "\<lambda>_. {#}"]) (auto simp: account_contract_def reflp_def)
next
  case (Cons h hs)
  from Cons.prems(1) obtain d n v where h: "h = GoDaddyHandle d n v" "v \<in> V"
    by (cases h) auto
  obtain p x1 where p: "delete_txt env (GoDaddyClient auth) h x = (p, x1)" by fastforce
  then have gd: "godaddy_delete_txt env auth d n v x = (p, x1)" by (simp add: delete_txt_def h(1))
  note D = delete_effect[OF assms(1) h(2) gd]
  let ?kept = "owned V view x1 = owned V view x"
  let ?base = "\<lambda>l. if ?kept \<and> l = (d, n) then add_mset v (base l) else base l"
  have x1: "owned V view x1 l = ?base l + handles_load hs l" for l
    using D Cons.prems(2)[of l] by (auto simp: writes_own_def h(1))
  have R: "R (foreign V view x) (foreign V view x1)" using D by (simp add: writes_own_def)
  have healthy: "\<not> ?kept \<and> p = Ready (Inr ())" if "account_healthy env"
  proof -
    have "p = Ready (Inr ())" by (rule healthy_delete[OF that gd])
    with D have "owned V view x1 (d, n) = owned V view x (d, n) - {#v#}" by (simp add: writes_own_def)
    with \<open>p = Ready (Inr ())\<close> Cons.prems(2)[of "(d, n)"] h(1) show ?thesis by auto
  qed
  have "\<exists>rest. R (foreign V view x1) (foreign V view y)
      \<and> (\<forall>k. owned V view y k = ?base k + rest k \<and> rest k \<subseteq># handles_load hs k) \<and> (account_healthy env \<longrightarrow> rest = (\<lambda>_. {#}))"
  proof (cases p)
    case (Dropped c)
    then have "y = x1" using Cons.prems(3) p by simp
    then show ?thesis using x1 assms(1) healthy Dropped
      by (intro exI[of _ "handles_load hs"]) (auto simp: account_contract_def reflp_def)
  next
    case (Ready q)
    then have "delete_records env (GoDaddyClient auth) hs x1 = y" using Cons.prems(3) p by simp
    from Cons.IH[OF _ _ this, of ?base] x1 Cons.prems(1) show ?thesis by simp
  qed
  then obtain rest where rest: "R (foreign V view x1) (foreign V view y)
      \<and> (\<forall>k. owned V view y k = ?base k + rest k \<and> rest k \<subseteq># handles_load hs k) \<and> (account_healthy env \<longrightarrow> rest = (\<lambda>_. {#}))" ..
  have "R (foreign V view x) (foreign V view y)"
    using R rest assms(1) by (auto simp: account_contract_def transp_def)
  with rest healthy show ?case
    by (intro exI[of _ "\<lambda>l. if ?kept \<and> l = (d, n) then add_mset v (rest l) else rest l"]) (auto simp: h(1) intro: subset_add_mset)
qed

text \<open>The other calls of an authorization only let others act.\<close>

definition issue_rely :: "zone_change \<Rightarrow> string set \<Rightarrow> ('x \<Rightarrow> dns_key \<Rightarrow> GoDaddyRecord list) \<Rightarrow> 'x acme_env \<Rightarrow> bool" where
  "issue_rely R V view env =
     ((\<forall>n x a x'. ax_lookup env n x = (a, x') \<longrightarrow> others_act R V view x x')
      \<and> (\<forall>x a x'. ax_sleep env x = (a, x') \<longrightarrow> others_act R V view x x')
      \<and> (\<forall>c x a x'. ax_validate env c x = (a, x') \<longrightarrow> others_act R V view x x')
      \<and> (\<forall>c x a x'. ax_challenge_done env c x = (a, x') \<longrightarrow> others_act R V view x x'))"

lemma lookup_acts:
  assumes "reflp R" "transp R" "issue_rely R V view env" "lookup_records env rs x = (a, x')"
  shows "others_act R V view x x'"
  using assms(4)
proof (induction rs arbitrary: x)
  case Nil
  with assms(1) show ?case by (simp add: others_act_refl)
next
  case (Cons nv rs)
  obtain n v where nv: "nv = (n, v)" by (cases nv)
  obtain q y where q: "ax_lookup env (n @ ''.'') x = (q, y)" by fastforce
  with assms(3) have y: "others_act R V view x y" by (auto simp: issue_rely_def)
  show ?case
  proof (cases "\<exists>as. q = Ready (Some as) \<and> list_ex (answer_matches v) as")
    case True
    with Cons.prems nv q have "lookup_records env rs y = (a, x')" by auto
    from others_act_trans[OF assms(2) y Cons.IH[OF this]] show ?thesis .
  next
    case False
    with Cons.prems nv q have "x' = y" by (auto split: polled.splits option.splits if_splits)
    with y show ?thesis by simp
  qed
qed

lemma visible_acts:
  assumes "reflp R" "transp R" "issue_rely R V view env" "dns_records_visible env rs x = (a, x')"
  shows "others_act R V view x x'"
  using assms(4) lookup_acts[OF assms(1-3)] others_act_refl[OF assms(1)]
  by (auto simp: dns_records_visible_def split: option.splits)

declare wait_for_dns_records.simps [simp del]

lemma wait_effect:
  assumes "reflp R" "transp R" "issue_rely R V view env" "wait_for_dns_records env rs k x = (r, x')"
  shows "others_act R V view x x' \<and> (r = Inr () \<longrightarrow> (\<exists>y. dns_records_visible env rs y = (Ready (Inr True), x')))"
  using assms(4)
proof (induction "DNS_PROPAGATION_TIMEOUT - k" arbitrary: k x rule: less_induct)
  case less
  obtain a y where v: "dns_records_visible env rs x = (a, y)" by fastforce
  note y = visible_acts[OF assms(1-3) v]
  let ?late = "DNS_PROPAGATION_TIMEOUT \<le> DNS_POLL_INTERVAL * k + ax_late env y"
  show ?case
  proof (cases "a = Ready (Inr False) \<and> \<not> ?late")
    case True
    obtain c z where c: "ax_sleep env y = (c, z)" by fastforce
    with assms(3) others_act_trans[OF assms(2) y] have z: "others_act R V view x z" by (auto simp: issue_rely_def)
    show ?thesis
    proof (cases c)
      case (Dropped d)
      with less.prems v True c z show ?thesis by (auto simp: wait_for_dns_records.simps[of env rs k x])
    next
      case (Ready u)
      with less.prems v True c have again: "wait_for_dns_records env rs (Suc k) z = (r, x')"
        by (simp add: wait_for_dns_records.simps[of env rs k x])
      have "DNS_PROPAGATION_TIMEOUT - Suc k < DNS_PROPAGATION_TIMEOUT - k"
        using conjunct2[OF True] unfolding DNS_PROPAGATION_TIMEOUT_def DNS_POLL_INTERVAL_def by linarith
      from less.hyps[OF this again] others_act_trans[OF assms(2) z] show ?thesis by blast
    qed
  next
    case False
    with less.prems v have "x' = y" "r = Inr () \<longrightarrow> a = Ready (Inr True)"
      by (auto simp: wait_for_dns_records.simps[of env rs k x] split: polled.splits sum.splits if_splits)
    with y v show ?thesis by blast
  qed
qed

lemma acme_call_acts:
  assumes "acme_call operation f x = (r, x')" "\<And>a y. f x = (a, y) \<Longrightarrow> others_act R V view x y"
  shows "others_act R V view x x'"
  using assms by (cases "f x") (auto simp: acme_call_def bounded_def polled_map_def split: polled.splits stop_reason.splits)

lemma validate_acts:
  assumes "reflp R" "transp R" "issue_rely R V view env" "validate_challenges env cs x = (r, x')"
  shows "others_act R V view x x'"
  using assms(4)
proof (induction cs arbitrary: x)
  case Nil
  with assms(1) show ?case by (simp add: others_act_refl)
next
  case (Cons c cs)
  have validate: "others_act R V view x y" if "acme_call m (ax_validate env c) x = (a, y)" for m a y
    using acme_call_acts[OF that] assms(3) by (auto simp: issue_rely_def)
  from Cons.prems show ?case unfolding validate_challenges.simps
  proof (cases rule: fs_bind_cases)
    case (err e)
    with validate show ?thesis by blast
  next
    case (ok c' y)
    have finished: "others_act R V view y z" if "acme_call m (ax_challenge_done env c') y = (a, z)" for m a z
      using acme_call_acts[OF that] assms(3) by (auto simp: issue_rely_def)
    note y = validate[OF ok(1)]
    from ok(2) show ?thesis
    proof (cases rule: fs_bind_cases)
      case (err e)
      with others_act_trans[OF assms(2) y finished] show ?thesis by blast
    next
      case waited: (ok vp z)
      note z = others_act_trans[OF assms(2) y finished[OF waited(1)]]
      show ?thesis
      proof (cases "fst vp")
        case True
        with waited(2) have "validate_challenges env cs z = (r, x')" by (cases vp) simp
        from others_act_trans[OF assms(2) z Cons.IH[OF this]] show ?thesis .
      next
        case False
        with waited(2) z show ?thesis by (cases vp) simp
      qed
    qed
  qed
qed

lemma authorization_steps:
  assumes "reflp R" "transp R" "issue_rely R V view env"
    and "fs_bind (created, x) (\<lambda>_ x. fs_bind (wait_for_dns_records env rs 0 x) (\<lambda>_. validate_challenges env cs)) = (r, x')"
  shows "others_act R V view x x'
    \<and> (r = Inr () \<longrightarrow> created = Inr ()
         \<and> (\<exists>y z. dns_records_visible env rs y = (Ready (Inr True), z) \<and> validate_challenges env cs z = (Inr (), x')))"
  using assms(4)
proof (cases rule: fs_bind_cases)
  case (err e)
  with assms(1) show ?thesis by (auto simp: others_act_refl)
next
  case (ok u y)
  from ok(2) show ?thesis
  proof (cases rule: fs_bind_cases)
    case (err e)
    with ok wait_effect[OF assms(1-3) err(1)] show ?thesis by auto
  next
    case waited: (ok v z)
    note w = wait_effect[OF assms(1-3) waited(1)]
    note validate = validate_acts[OF assms(1-3) waited(2)]
    have "others_act R V view y x'" by (rule others_act_trans[OF assms(2) conjunct1[OF w] validate])
    moreover have "created = Inr ()" "y = x" using ok(1) by simp_all
    moreover obtain q where "dns_records_visible env rs q = (Ready (Inr True), z)" using w by auto
    ultimately show ?thesis using waited(2) by blast
  qed
qed


text \<open>A service that keeps its records in a table and always answers, with one record to publish.\<close>

definition sample_json :: "GoDaddyRecord list \<Rightarrow> bytes" where
  "sample_json rs = replicate (to_nat (map (\<lambda>r. (gr_data r, unat (gr_ttl r))) rs)) 0"

definition sample_records :: "bytes \<Rightarrow> (string, GoDaddyRecord list) res" where
  "sample_records b = Inr (map (\<lambda>(d, t). \<lparr>gr_data = d, gr_ttl = of_nat t\<rparr>) (from_nat (length b)))"

definition sample_send :: "gd_request \<Rightarrow> (dns_key \<Rightarrow> GoDaddyRecord list, gd_answer) pending" where
  "sample_send rq x =
     (case gq_path rq of
        [a, d, b, c, n] \<Rightarrow>
          if gq_method rq = Gd_Get then (Ready (Answered 200 (sample_json (x (d, n)))), x)
          else (Ready (Answered 200 []),
                x((d, n) := (case gq_body rq of None \<Rightarrow> [] | Some bs \<Rightarrow> (case sample_records bs of Inl _ \<Rightarrow> [] | Inr rs \<Rightarrow> rs))))
      | _ \<Rightarrow> (Ready (Answered 200 []), x))"

definition sample_dns_env :: "(dns_key \<Rightarrow> GoDaddyRecord list) dns_env" where
  "sample_dns_env =
     \<lparr>dn_send = sample_send, dn_domains = (\<lambda>_. Inr [''example.com'']), dn_records = sample_records, dn_json = sample_json,
      dn_text = (\<lambda>_. None), dn_permit = (\<lambda>x. (Ready True, x)), dn_provider = (\<lambda>_. None),
      dn_list = (\<lambda>_ _ x. (Ready (Inl ''unused''), x)), dn_create = (\<lambda>_ x. (Ready (Inl ''unused''), x)),
      dn_delete = (\<lambda>_ _ x. (Ready (Inl ''unused''), x)), dn_check = (\<lambda>x. (Ready (Inr True), x)), dn_pages = 1\<rparr>"

definition sample_acme_env :: "(dns_key \<Rightarrow> GoDaddyRecord list) acme_env" where
  "sample_acme_env =
     \<lparr>ax_dns = sample_dns_env, ax_cache = sample_cache_env, ax_gate = (\<lambda>x. (Ready True, x)),
      ax_key_of_pem = Inr, ax_pem_of_key = Inr, ax_generate = (\<lambda>_ x. (Inr [7], x)), ax_decode = (\<lambda>_ _. None), ax_hmac = Inr,
      ax_directory = (\<lambda>_ x. (Ready (Inr 0), x)), ax_account = (\<lambda>_ x. (Ready (Inr 0), x)),
      ax_order = (\<lambda>_ _ x. (Ready (Inr 0), x)), ax_authorizations = (\<lambda>_ x. (Ready (Inr []), x)),
      ax_key_authorization = (\<lambda>_. Inr (Some ''proof'')), ax_validate = (\<lambda>c x. (Ready (Inr c), x)),
      ax_challenge_done = (\<lambda>_ x. (Ready (Inr (True, [])), x)), ax_order_ready = (\<lambda>n x. (Ready (Inr (n, OrderReady)), x)),
      ax_finalize = (\<lambda>n _ x. (Ready (Inr n), x)), ax_order_done = (\<lambda>n x. (Ready (Inr (n, OrderValid)), x)),
      ax_certificate = (\<lambda>_ x. (Ready (Inr (Some [])), x)), ax_to_pem = Inr, ax_resolver = (\<lambda>_. None),
      ax_lookup = (\<lambda>_ x. (Ready (Some [TxtData [str_bytes ''proof'']]), x)), ax_sleep = (\<lambda>x. (Ready (), x)),
      ax_late = (\<lambda>_. 0), ax_cleanup = rev\<rparr>"

lemma sample_json_inverse: "sample_records (sample_json rs) = Inr rs"
  by (induction rs) (simp_all add: sample_records_def sample_json_def comp_def)

lemma sample_dns_sel:
  "dn_send sample_dns_env = sample_send" "dn_records sample_dns_env = sample_records" "is_ok (sample_records b)"
  "requested_records sample_dns_env rq =
     (case gq_body rq of None \<Rightarrow> [] | Some bs \<Rightarrow> (case sample_records bs of Inl _ \<Rightarrow> [] | Inr rs \<Rightarrow> rs))"
  by (simp_all add: sample_dns_env_def requested_records_def sample_records_def is_ok_def split: option.split)

lemma sample_contract: "account_contract (=) V (\<lambda>x. x) sample_dns_env"
proof -
  have "godaddy_service sample_dns_env (\<lambda>x. x)"
    unfolding godaddy_service_def
  proof (intro conjI allI impI)
    fix rq :: gd_request and w a w'
    assume "dn_send sample_dns_env rq w = (a, w')"
    then show "if gq_method rq = Gd_Get
        then w' = w \<and> (\<forall>d n status body. gq_path rq = txt_path d n \<and> a = Ready (Answered status body) \<longrightarrow>
               (status = 404 \<longrightarrow> w (d, n) = [])
               \<and> (\<forall>rs. is_success status \<and> dn_records sample_dns_env body = Inr rs \<longrightarrow> rs = w (d, n)))
        else \<forall>d n. gq_path rq = txt_path d n \<longrightarrow>
          (let written = w((d, n) := requested_records sample_dns_env rq)
           in (w' = w \<or> w' = written)
              \<and> (\<forall>status body. a = Ready (Answered status body) \<and> is_success status \<longrightarrow> w' = written))"
      by (auto simp: sample_dns_sel sample_send_def txt_path_def sample_json_inverse Let_def split: list.splits if_splits)
  qed (simp add: sample_dns_env_def sample_json_inverse)
  moreover have "gate_rely (=) V (\<lambda>x. x) sample_dns_env"
    by (simp add: gate_rely_def sample_dns_env_def others_act_def)
  ultimately show ?thesis by (simp add: account_contract_def reflp_def transp_def)
qed

lemma sample_healthy: "account_healthy sample_dns_env"
  by (auto simp: account_healthy_def sample_dns_sel sample_send_def is_success_def split: list.splits)
     (simp add: sample_dns_env_def)


text \<open>
  A creation that is dropped after its \<open>PUT\<close> has reached the service returns no handle: its record
  stays, although the request was cancelled and the account is otherwise healthy.
\<close>

definition cancelled_acme_env :: "(dns_key \<Rightarrow> GoDaddyRecord list) acme_env" where
  "cancelled_acme_env =
     sample_acme_env\<lparr>ax_dns := sample_dns_env\<lparr>dn_send := (\<lambda>rq x.
       if gq_method rq = Gd_Put then (Dropped StopCancelled, snd (sample_send rq x)) else sample_send rq x)\<rparr>\<rparr>"

lemma cancelled_creation_leaves_record:
  "case authorize_automatically cancelled_acme_env (GoDaddyClient ''sso-key a:b'') [3]
          [(''_acme-challenge.example.com'', ''proof'')] (\<lambda>_. []) of
     (r, x') \<Rightarrow> r = Inl (Acme ''creating a DNS-01 record: cancelled'')
       \<and> x' (''example.com'', ''_acme-challenge'') = [\<lparr>gr_data = ''proof'', gr_ttl = 600\<rparr>]"
proof -
  have zone: "domain_belongs_to_zone ''_acme-challenge.example.com'' ''example.com''"
    "relative_name ''_acme-challenge.example.com'' ''example.com'' = Inr ''_acme-challenge''"
    by (simp_all add: domain_belongs_iff relative_name_Inr)
  then show ?thesis
    by (simp add: authorize_automatically_def cancelled_acme_env_def sample_acme_env_def create_txt_def godaddy_create_txt_def
        find_zone_def gd_request_json_def gd_exchange_def polled_map_def parse_response_def is_success_def sample_dns_env_def
        max_by_key_def acquire_mutation_permit_def get_txt_def put_txt_def request_empty_def awaits_def bounded_def
        sample_send_def txt_path_def sample_json_inverse fs_bind_def cleanup_records_def DNS_RECORD_TTL_def)
qed

section \<open>Issued certificates\<close>

lemma fs_bind_Inr: "fs_bind x f = (Inr y, s') \<longleftrightarrow> (\<exists>z t. x = (Inr z, t) \<and> f z t = (Inr y, s'))"
  by (auto simp: fs_bind_def split: prod.splits sum.splits)

lemma finalize_stored:
  assumes "finalize env root rq order w = (Inr c, w')"
  shows "\<exists>s. store_certificate (ax_cache env) root (iq_certificate rq) (ic_certificate_pem c) (ic_private_key_pem c) s
    = (Inr (ic_expires_at c), iw_fs w')"
  using assms unfolding finalize_def fs_bind_def on_fs_def
  by (auto split: prod.splits sum.splits if_splits option.splits)

text \<open>
  A certificate that is reported as issued has been stored in the cache, and the automatic way
  there went through an authorization that succeeded.
\<close>

theorem begin_issue_issued:
  assumes "begin_issue env root rq w = (Inr (Issued c), w')"
  shows "(\<exists>s. store_certificate (ax_cache env) root (iq_certificate rq) (ic_certificate_pem c) (ic_private_key_pem c) s
      = (Inr (ic_expires_at c), iw_fs w'))
    \<and> (\<exists>dns challenges records x x'. authorize_automatically env dns challenges records x = (Inr (), x'))"
proof -
  obtain account t order u cr v where steps: "on_net (collect_challenges env order) u = (Inr cr, v)"
    "(case ce_validation (iq_certificate rq) of
       Some (DnsAccount _) \<Rightarrow>
         (case iq_dns_account rq of
            None \<Rightarrow> (Inl (InvalidConfig ''the DNS account of the certificate does not exist''), v)
          | Some dns_config \<Rightarrow>
              (case dns_client_from_config (ax_dns env) dns_config of
                 Inl e \<Rightarrow> (Inl e, v)
               | Inr dns \<Rightarrow>
                   fs_bind (on_net (authorize_automatically env dns (fst cr) (snd cr)) v) (\<lambda>_ w.
                   fs_bind (finalize env root rq order w) (\<lambda>issued w. (Inr (Issued issued), w)))))
     | Some Manual \<Rightarrow>
         (Inr (Waiting \<lparr>mo_request = rq, mo_order = order, mo_challenges = fst cr, mo_records = snd cr\<rparr>), v)
     | None \<Rightarrow> (Inl (InvalidConfig ''a certificate to be migrated cannot be issued''), v)) = (Inr (Issued c), w')"
    using assms unfolding begin_issue_def fs_bind_Inr by (auto simp: case_prod_unfold)
  from steps(2) obtain dns x where "on_net (authorize_automatically env dns (fst cr) (snd cr)) v = (Inr (), x)"
    "finalize env root rq order x = (Inr c, w')"
    by (cases "ce_validation (iq_certificate rq)"; cases "the (ce_validation (iq_certificate rq))")
       (auto simp: fs_bind_Inr split: option.splits sum.splits)
  moreover from this(1) obtain y where "authorize_automatically env dns (fst cr) (snd cr) (iw_net v) = (Inr (), y)"
    by (auto simp: on_net_def split: prod.splits)
  ultimately show ?thesis using finalize_stored by blast
qed

text \<open>
  The key of an ACME account is on disk before the CA sees it, and later attempts find it there: a crash or a
  failure after the registration does not lose the account.
\<close>

abbreviation account_file :: "path \<Rightarrow> string \<Rightarrow> string \<Rightarrow> path" where
  "account_file root i f \<equiv> path_join (account_directory root i) (Path False [f])"

lemma account_file_eq: "account_file root i f = Path (has_root root) (components root @ [''accounts'', i, f])"
  by (simp add: account_directory_def path_join_def)

lemma account_temporary_eq:
  assumes "f \<noteq> ''.''" "f \<noteq> ''..''"
  shows "temporary_path suffix (account_file root i f) =
    Path (has_root root) (components root @ [''accounts'', i, file_stem f @ ''.tmp-'' @ suffix])"
  using assms
  by (simp add: temporary_path_def account_file_eq path_with_extension_def path_file_name_def path_with_file_name_def
      butlast_append)

lemma account_stems: "file_stem ''private-key.pem'' = ''private-key''" "file_stem ''metadata-v1.json'' = ''metadata-v1''"
  by code_simp+

lemma store_private_key_files:
  assumes "store_private_key env (account_directory root i) config key registered s = (Inr u, s')"
  shows "fs_files s' (account_file root i ''private-key.pem'') = Some key"
    and "\<exists>b. ca_account_json env \<lparr>am_directory_url = directory_url config, am_key_algorithm = aa_key_algorithm config,
            am_registered = registered\<rparr> = Inr b \<and> fs_files s' (account_file root i ''metadata-v1.json'') = Some b"
proof -
  let ?k = "account_file root i ''private-key.pem''" and ?m = "account_file root i ''metadata-v1.json''"
  from assms obtain x t b where 1: "atomic_write (ca_suffix env 0) ?k key s = (Inr x, t)"
    and b: "ca_account_json env \<lparr>am_directory_url = directory_url config, am_key_algorithm = aa_key_algorithm config,
            am_registered = registered\<rparr> = Inr b" and 2: "atomic_write (ca_suffix env 1) ?m b t = (Inr u, s')"
    by (auto simp: store_private_key_def fs_bind_Inr json_result_def split: sum.splits)
  have t: "temporary_path (ca_suffix env 0) ?k \<noteq> ?k" "temporary_path (ca_suffix env 1) ?m \<noteq> ?m"
    "?k \<notin> {temporary_path (ca_suffix env 0) ?k}" "?k \<noteq> temporary_path (ca_suffix env 1) ?m" "?k \<noteq> ?m"
    by (simp_all add: account_temporary_eq account_stems) (simp_all add: account_file_eq)
  have "fs_files t ?k = Some key" using atomic_write_effect[OF 1 t(1)] t(3) by (simp add: agree_def)
  then show "fs_files s' ?k = Some key" using atomic_write_effect[OF 2 t(2)] t(4,5) by (simp add: agree_def)
  have "fs_files s' ?m = Some b" using atomic_write_effect[OF 2 t(2)] t(2) by (auto simp: agree_def)
  with b show "\<exists>b. ca_account_json env \<lparr>am_directory_url = directory_url config, am_key_algorithm = aa_key_algorithm config,
            am_registered = registered\<rparr> = Inr b \<and> fs_files s' ?m = Some b" by blast
qed

theorem account_key_stored:
  assumes "account_key env root config w = (Inr (key, registered), w')"
    and "ca_read_error (ax_cache env) = (\<lambda>_. None)"
    and "\<And>m b. ca_account_json (ax_cache env) m = Inr b \<Longrightarrow> ca_account_parse (ax_cache env) b = Inr m"
    and "\<And>k pem. ax_pem_of_key env k = Inr pem \<Longrightarrow> ax_key_of_pem env pem = Inr k"
  shows "\<exists>pem. load_private_key (ax_cache env) (fs_files (iw_fs w')) (account_directory root (aa_id config)) config
      = Inr (Some (pem, registered)) \<and> ax_key_of_pem env pem = Inr key"
proof (cases "load_private_key (ax_cache env) (fs_files (iw_fs w)) (account_directory root (aa_id config)) config")
  case (Inl e)
  with assms(1) show ?thesis by (simp add: account_key_def Let_def)
next
  case (Inr found)
  show ?thesis
  proof (cases found)
    case (Some pr)
    with assms(1) Inr show ?thesis
      by (cases pr) (auto simp: account_key_def Let_def acme_result_def split: sum.splits)
  next
    case None
    let ?store = "\<lambda>pem. store_private_key (ax_cache env) (account_directory root (aa_id config)) config pem False"
    from assms(1) Inr None obtain k t where stored: "(case acme_result (ax_pem_of_key env k) of
        Inl e \<Rightarrow> (Inl e, t) | Inr pem \<Rightarrow> fs_bind (on_fs (?store pem) t) (\<lambda>_ w. (Inr (k, False), w))) = (Inr (key, registered), w')"
      by (auto simp: account_key_def Let_def fs_bind_Inr)
    then obtain pem where pem: "ax_pem_of_key env k = Inr pem" by (cases "ax_pem_of_key env k") (auto simp: acme_result_def)
    with stored obtain u where run: "on_fs (?store pem) t = (Inr u, w')" and keys: "k = key" "\<not> registered"
      by (auto simp: acme_result_def fs_bind_Inr)
    note pem = pem[unfolded keys(1)] and reg = keys(2)
    from run have run: "?store pem (iw_fs t) = (Inr u, iw_fs w')" by (auto simp: on_fs_def split: prod.splits)
    from store_private_key_files[OF run] assms(2,3) reg have
      "load_private_key (ax_cache env) (fs_files (iw_fs w')) (account_directory root (aa_id config)) config = Inr (Some (pem, registered))"
      by (auto simp: load_private_key_def read_optional_def json_result_def)
    with assms(4)[OF pem] show ?thesis by blast
  qed
qed

end
