(* ===== verification/Client_Login.thy ===== *)
theory Client_Login
  imports Config_Store Client_Session
begin

text \<open>
  \<open>gaterust-client\<close>: \<open>paths.rs\<close>, \<open>trust.rs\<close> and the login of \<open>lib.rs\<close>, with \<open>ClientConfig::ensure_exists\<close> of the
  tunnel crate. A login reads the configuration, fetches the certificate of the server, writes it
  to a candidate file, verifies the credentials and only then saves the configuration and
  removes the certificate it replaces. The file system is that of \<open>Certificate_Cache\<close>, with
  faults and a log of the states a crash can leave.

  Parameters are the environment variables, the TOML reader and writer, the atomic writer of the
  \<open>atomic_write_file\<close> crate, the two network operations (\<open>fetch_server_certificate\<close> and
  \<open>verify_client_credentials\<close>), the random file name, and what the login sees of its cancellation token
  and its deadline each time it looks.
\<close>

section \<open>Errors and paths\<close>

datatype ClientError =
  ConfigDirectoryUnavailable
| RuntimeUnavailable
| InvalidOperation string
| LoginTimeout
| LoginCancelled
| ShutdownTimeout
| TunnelFailed TunnelError

text \<open>\<open>environment_directory\<close>; the variable holds a path.\<close>

definition environment_directory :: "(string \<Rightarrow> path option) \<Rightarrow> string \<Rightarrow> (ClientError, path) res" where
  "environment_directory var name =
     (case var name of
        Some p \<Rightarrow> if p = Path False [] then Inl ConfigDirectoryUnavailable else Inr p
      | None \<Rightarrow> Inl ConfigDirectoryUnavailable)"

definition default_config_path :: "(string \<Rightarrow> path option) \<Rightarrow> (ClientError, path) res" where
  "default_config_path var =
     (case environment_directory var ''XDG_CONFIG_HOME'' of
        Inr p \<Rightarrow> Inr (path_join p (Path False [''gaterust'', ''client.toml'']))
      | Inl _ \<Rightarrow>
          res_bind (environment_directory var ''HOME'') (\<lambda>p.
            Inr (path_join p (Path False [''.config'', ''gaterust'', ''client.toml'']))))"

definition client_config_path :: "(string \<Rightarrow> path option) \<Rightarrow> path option \<Rightarrow> (ClientError, path) res" where
  "client_config_path var explicit = (case explicit of None \<Rightarrow> default_config_path var | Some p \<Rightarrow> Inr p)"

text \<open>\<open>config_parent\<close> of \<open>trust.rs\<close> and of the tunnel crate's \<open>config.rs\<close>.\<close>

definition config_parent :: "path \<Rightarrow> path" where
  "config_parent p =
     (case path_parent p of
        None \<Rightarrow> current_dir
      | Some q \<Rightarrow> if q = Path False [] then current_dir else q)"

text \<open>
  \<open>ClientConfig::ensure_exists\<close>. \<open>exists_error\<close> gives the failures of \<open>try_exists\<close>. The result tells whether
  the file was created.
\<close>

definition ensure_exists ::
  "(path \<Rightarrow> io_error option) \<Rightarrow> (ClientConfig \<Rightarrow> string option) \<Rightarrow> string \<Rightarrow> path \<Rightarrow> fs_state \<Rightarrow> (TunnelError, bool) res \<times> fs_state" where
  "ensure_exists exists_error to_str key p s =
     (case exists_error p of
        Some e \<Rightarrow> (Inl (WriteConfig p e), s)
      | None \<Rightarrow>
          if fs_files s p \<noteq> None then (Inr False, s)
          else case to_str (client_initial key) of
            None \<Rightarrow> (Inl (SerializeConfig p), s)
          | Some content \<Rightarrow>
              (case fs_neutral s of
                 (Inl e, s) \<Rightarrow> (Inl (WriteConfig p e), s)
               | (Inr _, s) \<Rightarrow>
                   (case fs_create_new p s of
                      (Inl AlreadyExists, s) \<Rightarrow> (Inr False, s)
                    | (Inl e, s) \<Rightarrow> (Inl (WriteConfig p e), s)
                    | (Inr _, s) \<Rightarrow>
                        (case fs_bind (fs_write p (str_bytes content) s) (\<lambda>_. fs_neutral) of
                           (Inl e, s) \<Rightarrow> (Inl (WriteConfig p e), snd (fs_remove p s))
                         | (Inr _, s) \<Rightarrow> (Inr True, s)))))"

definition prepare_config_path ::
  "(string \<Rightarrow> path option) \<Rightarrow> (path \<Rightarrow> io_error option) \<Rightarrow> (ClientConfig \<Rightarrow> string option) \<Rightarrow> string \<Rightarrow> path option \<Rightarrow> fs_state
     \<Rightarrow> (ClientError, path) res \<times> fs_state" where
  "prepare_config_path var exists_error to_str key explicit s =
     (case client_config_path var explicit of
        Inl e \<Rightarrow> (Inl e, s)
      | Inr p \<Rightarrow>
          (case ensure_exists exists_error to_str key p s of
             (Inl e, s) \<Rightarrow> (Inl (TunnelFailed e), s)
           | (Inr _, s) \<Rightarrow> (Inr p, s)))"

section \<open>The certificate of the server\<close>

record ServerCertificate =
  sv_server_name :: string
  sv_pem :: bytes

record PreparedTrust =
  pt_path :: path
  pt_replaced :: "path option"
  pt_committed :: bool

text \<open>\<open>commit\<close> removes the replaced certificate; a failure is logged. Dropping an uncommitted one removes the candidate.\<close>

definition trust_drop :: "PreparedTrust \<Rightarrow> fs_state \<Rightarrow> fs_state" where
  "trust_drop t s = (if pt_committed t then s else snd (fs_remove (pt_path t) s))"

definition trust_commit :: "PreparedTrust \<Rightarrow> fs_state \<Rightarrow> fs_state" where
  "trust_commit t s =
     trust_drop (t\<lparr>pt_committed := True, pt_replaced := None\<rparr>)
       (case pt_replaced t of None \<Rightarrow> s | Some p \<Rightarrow> snd (fs_remove p s))"

definition is_ascii_hexdigit :: "char \<Rightarrow> bool" where
  "is_ascii_hexdigit c = (is_ascii_digit c \<or> 65 \<le> (of_char c :: nat) \<and> (of_char c :: nat) \<le> 70 \<or> 97 \<le> (of_char c :: nat) \<and> (of_char c :: nat) \<le> 102)"

definition managed_certificate_path :: "ClientConfig \<Rightarrow> path \<Rightarrow> path option" where
  "managed_certificate_path config config_path =
     Option.bind (cs_ca_certificate (cc_server config)) (\<lambda>configured.
       if (case path_parent configured of None \<Rightarrow> False | Some q \<Rightarrow> q \<noteq> Path False []) then None
       else
         Option.bind (path_file_name configured) (\<lambda>name.
         Option.bind (strip_prefix ''server-'' name) (\<lambda>rest.
         Option.bind (strip_suffix ''.pem'' rest) (\<lambda>suffix.
           if length suffix = 16 \<and> list_all is_ascii_hexdigit suffix
           then Some (path_join (config_parent config_path) configured) else None))))"

definition candidate_name :: "string \<Rightarrow> path" where
  "candidate_name random = Path False [''server-'' @ random @ ''.pem'']"

definition write_candidate_certificate ::
  "string \<Rightarrow> path \<Rightarrow> bytes \<Rightarrow> path option \<Rightarrow> fs_state \<Rightarrow> (TunnelError, PreparedTrust \<times> path) res \<times> fs_state" where
  "write_candidate_certificate random parent content replaced s =
     (case fs_neutral s of
        (Inl e, s) \<Rightarrow> (Inl (WriteConfig parent e), s)
      | (Inr _, s) \<Rightarrow>
          let file_name = candidate_name random; p = path_join parent file_name in
          case fs_bind (fs_create_new p s) (\<lambda>_ s. fs_bind (fs_write p content s) (\<lambda>_ s. fs_bind (fs_neutral s) (\<lambda>_. fs_neutral))) of
            (Inl e, s) \<Rightarrow> (Inl (WriteConfig p e), snd (fs_remove p s))
          | (Inr _, s) \<Rightarrow> (Inr (\<lparr>pt_path = p, pt_replaced = replaced, pt_committed = False\<rparr>, file_name), s))"

section \<open>The login\<close>

record login_world =
  lw_cancelled :: "nat \<Rightarrow> bool"
  lw_expired :: "nat \<Rightarrow> bool"
  lw_read_error :: "path \<Rightarrow> io_error option"
  lw_from_str :: "string \<Rightarrow> ClientConfig option"
  lw_to_str :: "ClientConfig \<Rightarrow> string option"
  lw_write :: "path \<Rightarrow> string \<Rightarrow> fs_state \<Rightarrow> (io_error, unit) res \<times> fs_state"
  lw_random :: string
  lw_fetch :: "string \<Rightarrow> string \<Rightarrow> (TunnelError, ServerCertificate) res"
  lw_verify :: "ClientConfig \<Rightarrow> (TunnelError, unit) res"

text \<open>The \<open>k\<close>-th look at the cancellation token and at the clock.\<close>

definition check_login_state :: "login_world \<Rightarrow> nat \<Rightarrow> (ClientError, unit) res" where
  "check_login_state w k =
     (if lw_cancelled w k then Inl LoginCancelled else if lw_expired w k then Inl LoginTimeout else Inr ())"

text \<open>\<open>run_login_step\<close>: the biased \<open>select!\<close> looks at the token first, then at the operation with its deadline.\<close>

definition run_login_step :: "login_world \<Rightarrow> nat \<Rightarrow> (TunnelError, 'a) res \<Rightarrow> (ClientError, 'a) res" where
  "run_login_step w k operation =
     (if lw_cancelled w k then Inl LoginCancelled
      else if lw_expired w k then Inl LoginTimeout
      else case operation of Inl e \<Rightarrow> Inl (TunnelFailed e) | Inr x \<Rightarrow> Inr x)"

definition trust_prepare ::
  "login_world \<Rightarrow> nat \<Rightarrow> ClientConfig \<Rightarrow> path \<Rightarrow> path option \<Rightarrow> fs_state \<Rightarrow> (ClientError, PreparedTrust \<times> ClientConfig) res \<times> fs_state" where
  "trust_prepare w k config config_path replaced s =
     (case run_login_step w k (lw_fetch w (cs_address (cc_server config)) (cc_key config)) of
        Inl e \<Rightarrow> (Inl e, s)
      | Inr certificate \<Rightarrow>
          (case write_candidate_certificate (lw_random w) (config_parent config_path) (sv_pem certificate) replaced s of
             (Inl e, s) \<Rightarrow> (Inl (TunnelFailed e), s)
           | (Inr (prepared, file_name), s) \<Rightarrow>
               (Inr (prepared, config\<lparr>cc_server := (cc_server config)\<lparr>cs_name := Some (sv_server_name certificate),
                                                                     cs_ca_certificate := Some file_name\<rparr>\<rparr>), s)))"

text \<open>The part after the candidate is written: every error drops it, saving the configuration commits it.\<close>

definition login_commit ::
  "login_world \<Rightarrow> path \<Rightarrow> PreparedTrust \<Rightarrow> ClientConfig \<Rightarrow> fs_state \<Rightarrow> (ClientError, ClientConfig) res \<times> fs_state" where
  "login_commit w config_path prepared config s =
     (case res_bind (check_login_state w 3) (\<lambda>_.
           res_bind (case client_resolved config config_path of Inl e \<Rightarrow> Inl (TunnelFailed e) | Inr c \<Rightarrow> Inr c) (\<lambda>runtime_config.
           res_bind (run_login_step w 4 (lw_verify w runtime_config)) (\<lambda>_.
           check_login_state w 5))) of
        Inl e \<Rightarrow> (Inl e, trust_drop prepared s)
      | Inr _ \<Rightarrow>
          (case client_save (lw_to_str w) (lw_write w) config config_path s of
             (Inl e, s) \<Rightarrow> (Inl (TunnelFailed e), trust_drop prepared s)
           | (Inr _, s) \<Rightarrow> (Inr config, trust_commit prepared s)))"

text \<open>The configuration that a login tries: the given address and key, no services.\<close>

definition login_config :: "string \<Rightarrow> string \<Rightarrow> ClientConfig \<Rightarrow> ClientConfig" where
  "login_config address key config =
     config\<lparr>cc_server := (cc_server config)\<lparr>cs_address := trim address, cs_name := None, cs_ca_certificate := None\<rparr>,
            cc_key := key, cc_services := []\<rparr>"

definition login_inner ::
  "login_world \<Rightarrow> path \<Rightarrow> string \<Rightarrow> string \<Rightarrow> fs_state \<Rightarrow> (ClientError, ClientConfig) res \<times> fs_state" where
  "login_inner w config_path address key s =
     (case res_bind (check_login_state w 0) (\<lambda>_.
           res_bind (case parse_config (lw_from_str w) (read_files (lw_read_error w) (fs_files s)) config_path of
                       Inl e \<Rightarrow> Inl (TunnelFailed e) | Inr c \<Rightarrow> Inr c) (\<lambda>stored.
           res_bind (check_login_state w 1) (\<lambda>_.
           let config = login_config address key stored in
           res_bind (case client_validate config of Inl e \<Rightarrow> Inl (TunnelFailed e) | Inr _ \<Rightarrow> Inr ()) (\<lambda>_.
           Inr (managed_certificate_path stored config_path, config))))) of
        Inl e \<Rightarrow> (Inl e, s)
      | Inr (replaced, config) \<Rightarrow>
          (case trust_prepare w 2 config config_path replaced s of
             (Inl e, s) \<Rightarrow> (Inl e, s)
           | (Inr (prepared, config), s) \<Rightarrow> login_commit w config_path prepared config s))"

section \<open>What a login leaves behind\<close>

text \<open>
  The documented behaviour of the atomic writer: up to temporary files \<open>T\<close> of its own, the target
  has its old content until the whole new content is in place, and its old content when the
  writer reports an error.
\<close>

definition atomic_writer :: "path set \<Rightarrow> (path \<Rightarrow> string \<Rightarrow> fs_state \<Rightarrow> (io_error, unit) res \<times> fs_state) \<Rightarrow> bool" where
  "atomic_writer T write \<longleftrightarrow>
     (\<forall>p content s r s'. write p content s = (r, s') \<longrightarrow>
        (if is_ok r then logs (old_or_new T (fs_files s) p (str_bytes content)) s s'
                         \<and> agree T (fs_files s') ((fs_files s)(p := Some (str_bytes content)))
         else logs (\<lambda>fs. agree T fs (fs_files s)) s s' \<and> agree T (fs_files s') (fs_files s)))"

text \<open>A run of operations that touches only the files \<open>T\<close>.\<close>

definition touches :: "path set \<Rightarrow> fs_state \<Rightarrow> fs_state \<Rightarrow> bool" where
  "touches T s s' \<longleftrightarrow> agree T (fs_files s') (fs_files s) \<and> logs (\<lambda>fs. agree T fs (fs_files s)) s s'"

lemma touches_refl [simp]: "touches T s s"
  by (simp add: touches_def)

lemma touches_trans: "touches T s t \<Longrightarrow> touches T t u \<Longrightarrow> touches T s u"
  unfolding touches_def by (auto intro: agree_trans elim!: logs_trans logs_mono)

lemma touches_neutral: "fs_neutral s = (r, s') \<Longrightarrow> touches T s s'"
  using fs_neutral_effect[of s r s'] by (auto simp: touches_def elim!: logs_mono)

lemma touches_write: "fs_write p content s = (r, s') \<Longrightarrow> touches {p} s s'"
  using fs_write_effect by (simp add: touches_def)

lemma touches_create: "fs_create_new p s = (r, s') \<Longrightarrow> touches {p} s s'"
  using touches_write by (auto simp: fs_create_new_def split: if_splits)

lemma touches_remove: "touches {p} s (snd (fs_remove p s))"
  using fs_remove_effect by (simp add: touches_def)

lemma touches_bind:
  assumes "fs_bind x f = (r, s')" "touches T s (snd x)" "\<And>y t. x = (Inr y, t) \<Longrightarrow> touches T t (snd (f y t))"
  shows "touches T s s'"
  using assms(1)
proof (cases rule: fs_bind_cases)
  case (err e)
  with assms(2) show ?thesis by simp
next
  case (ok y t)
  with assms(2) assms(3)[OF ok(1)] show ?thesis by (auto intro: touches_trans)
qed

text \<open>Writing the new file and flushing it.\<close>

lemma flush_effect:
  assumes "fs_bind (fs_neutral s) (\<lambda>_. fs_neutral) = (r, s')"
  shows "touches T s s' \<and> fs_files s' = fs_files s"
  using assms
proof (cases rule: fs_bind_cases)
  case (err e)
  then show ?thesis using touches_neutral fs_neutral_effect by blast
next
  case (ok y t)
  then show ?thesis using touches_neutral[of s _ t T] touches_neutral[of t _ s' T] fs_neutral_effect[of s _ t] fs_neutral_effect[of t _ s']
    by (auto intro: touches_trans)
qed

lemma write_flush_effect:
  assumes "fs_bind (fs_write p content s) (\<lambda>_ s. fs_bind (fs_neutral s) (\<lambda>_. fs_neutral)) = (r, s')"
  shows "touches {p} s s' \<and> (is_ok r \<longrightarrow> fs_files s' p = Some content)"
  using assms
proof (cases rule: fs_bind_cases)
  case (err e)
  then show ?thesis using touches_write[OF err(1)] by (simp add: is_ok_def)
next
  case (ok y t)
  from flush_effect[OF ok(2), of "{p}"] touches_write[OF ok(1)] fs_write_effect[OF ok(1)] show ?thesis
    by (auto simp: is_ok_def intro: touches_trans)
qed

lemma create_write_effect:
  assumes "fs_bind (fs_create_new p s) (\<lambda>_ s. fs_bind (fs_write p content s) (\<lambda>_ s. fs_bind (fs_neutral s) (\<lambda>_. fs_neutral))) = (r, s')"
  shows "touches {p} s s' \<and> (is_ok r \<longrightarrow> fs_files s' p = Some content)"
  using assms
proof (cases rule: fs_bind_cases)
  case (err e)
  then show ?thesis using touches_create[OF err(1)] by (simp add: is_ok_def)
next
  case (ok y t)
  from write_flush_effect[OF ok(2)] touches_create[OF ok(1)] show ?thesis by (auto intro: touches_trans)
qed

lemma write_candidate_effect:
  assumes run: "write_candidate_certificate random parent content replaced s = (r, s')"
    and p: "p = path_join parent (candidate_name random)"
  shows "touches {p} s s' \<and> (\<forall>t f. r = Inr (t, f) \<longrightarrow>
       t = \<lparr>pt_path = p, pt_replaced = replaced, pt_committed = False\<rparr> \<and> f = candidate_name random \<and> fs_files s' p = Some content)"
proof -
  obtain r1 s1 where 1: "fs_neutral s = (r1, s1)" by fastforce
  note t1 = touches_neutral[OF 1, of "{p}"]
  show ?thesis
  proof (cases r1)
    case (Inl e)
    with run 1 t1 show ?thesis by (auto simp: write_candidate_certificate_def)
  next
    case (Inr u)
    obtain r2 s2 where 2: "fs_bind (fs_create_new p s1) (\<lambda>_ s. fs_bind (fs_write p content s) (\<lambda>_ s. fs_bind (fs_neutral s) (\<lambda>_. fs_neutral))) = (r2, s2)"
      by fastforce
    note t2 = create_write_effect[OF 2]
    show ?thesis
    proof (cases r2)
      case (Inl e)
      with run 1 2 Inr p have "r = Inl (WriteConfig p e)" "s' = snd (fs_remove p s2)"
        by (simp_all add: write_candidate_certificate_def Let_def)
      with t1 t2 touches_remove[of p s2] show ?thesis by (auto intro: touches_trans)
    next
      case ok: (Inr u2)
      with run 1 2 Inr p have "r = Inr (\<lparr>pt_path = p, pt_replaced = replaced, pt_committed = False\<rparr>, candidate_name random)" "s' = s2"
        by (simp_all add: write_candidate_certificate_def Let_def)
      with t1 t2 ok show ?thesis by (auto simp: is_ok_def intro: touches_trans)
    qed
  qed
qed

definition candidate_path :: "login_world \<Rightarrow> path \<Rightarrow> path" where
  "candidate_path w config_path = path_join (config_parent config_path) (candidate_name (lw_random w))"

text \<open>
  What a crash may find: everything as before but for the candidate, or the new configuration
  together with the certificate it names.
\<close>

definition login_consistent :: "path set \<Rightarrow> path option \<Rightarrow> path \<Rightarrow> path \<Rightarrow> bytes \<Rightarrow> bytes \<Rightarrow> files \<Rightarrow> files \<Rightarrow> bool" where
  "login_consistent T replaced config_path candidate new pem old fs \<longleftrightarrow>
     agree ({candidate} \<union> T) fs old
     \<or> fs config_path = Some new \<and> fs candidate = Some pem \<and> agree ({candidate, config_path} \<union> set_option replaced \<union> T) fs old"

lemma touches_mono: "touches T s s' \<Longrightarrow> T \<subseteq> U \<Longrightarrow> touches U s s'"
  by (auto simp: touches_def agree_def elim!: logs_mono)

text \<open>The prefix of the login that does not write, as a function of what it reads.\<close>

lemma login_inner_cases:
  assumes "login_inner w config_path address key s = (r, s')"
  obtains (early) e where "r = Inl e" "s' = s"
  | (started) stored config where "parse_config (lw_from_str w) (read_files (lw_read_error w) (fs_files s)) config_path = Inr stored"
      "config = login_config address key stored" "client_validate config = Inr ()" "\<forall>k \<le> 1. \<not> lw_cancelled w k \<and> \<not> lw_expired w k"
      "(case trust_prepare w 2 config config_path (managed_certificate_path stored config_path) s of
          (Inl e, s) \<Rightarrow> (Inl e, s)
        | (Inr (prepared, config), s) \<Rightarrow> login_commit w config_path prepared config s) = (r, s')"
proof (cases "parse_config (lw_from_str w) (read_files (lw_read_error w) (fs_files s)) config_path")
  case (Inl e)
  with assms that(1) show thesis by (auto simp: login_inner_def check_login_state_def res_bind_def split: if_splits)
next
  case (Inr stored)
  show thesis
  proof (cases "check_login_state w 0 = Inr () \<and> check_login_state w 1 = Inr () \<and> client_validate (login_config address key stored) = Inr ()")
    case True
    then have "\<forall>k \<le> 1. \<not> lw_cancelled w k \<and> \<not> lw_expired w k"
      by (auto simp: check_login_state_def le_Suc_eq split: if_splits)
    with True Inr assms that(2)[OF Inr refl] show thesis by (simp add: login_inner_def res_bind_def Let_def)
  next
    case False
    with Inr assms show thesis
      by (intro that(1)[of "projl r"])
        (auto simp: login_inner_def res_bind_def Let_def split: sum.splits)
  qed
qed

lemma trust_prepare_effect:
  assumes "trust_prepare w k config config_path replaced s = (r, s')"
  shows "touches {candidate_path w config_path} s s'
    \<and> (\<forall>t c. r = Inr (t, c) \<longrightarrow> \<not> lw_cancelled w k \<and> \<not> lw_expired w k
         \<and> (\<exists>cert. lw_fetch w (cs_address (cc_server config)) (cc_key config) = Inr cert
              \<and> fs_files s' (candidate_path w config_path) = Some (sv_pem cert)
              \<and> t = \<lparr>pt_path = candidate_path w config_path, pt_replaced = replaced, pt_committed = False\<rparr>
              \<and> c = config\<lparr>cc_server := (cc_server config)\<lparr>cs_name := Some (sv_server_name cert),
                                                               cs_ca_certificate := Some (candidate_name (lw_random w))\<rparr>\<rparr>))"
proof (cases "run_login_step w k (lw_fetch w (cs_address (cc_server config)) (cc_key config))")
  case (Inl e)
  with assms show ?thesis by (auto simp: trust_prepare_def)
next
  case (Inr cert)
  then have step: "\<not> lw_cancelled w k" "\<not> lw_expired w k" "lw_fetch w (cs_address (cc_server config)) (cc_key config) = Inr cert"
    by (auto simp: run_login_step_def split: if_splits sum.splits)
  obtain r1 s1 where 1: "write_candidate_certificate (lw_random w) (config_parent config_path) (sv_pem cert) replaced s = (r1, s1)" by fastforce
  note effect = write_candidate_effect[OF 1 candidate_path_def]
  show ?thesis
  proof (cases r1)
    case (Inl e)
    with assms Inr 1 effect show ?thesis by (auto simp: trust_prepare_def)
  next
    case ok: (Inr tf)
    obtain t f where tf: "tf = (t, f)" by fastforce
    with ok effect have tf': "t = \<lparr>pt_path = candidate_path w config_path, pt_replaced = replaced, pt_committed = False\<rparr>"
      "f = candidate_name (lw_random w)" "fs_files s1 (candidate_path w config_path) = Some (sv_pem cert)" by blast+
    from assms Inr 1 ok tf have "s' = s1" "r = Inr (t, config\<lparr>cc_server := (cc_server config)\<lparr>cs_name := Some (sv_server_name cert), cs_ca_certificate := Some f\<rparr>\<rparr>)"
      by (auto simp: trust_prepare_def)
    with effect tf' step show ?thesis by auto
  qed
qed

lemma touches_save:
  assumes "client_save to_str write c p s = (Inl e, s')" "atomic_writer T write"
  shows "touches T s s'"
proof -
  consider "s' = s" | content e' where "write p content s = (Inl e', s')"
    using assms(1) by (auto simp: client_save_def write_client_config_def split: sum.splits option.splits prod.splits)
  then show ?thesis
  proof cases
    case 2
    with assms(2) have "if is_ok (Inl e' :: (io_error, unit) res) then logs (old_or_new T (fs_files s) p (str_bytes content)) s s'
        \<and> agree T (fs_files s') ((fs_files s)(p := Some (str_bytes content)))
      else logs (\<lambda>fs. agree T fs (fs_files s)) s s' \<and> agree T (fs_files s') (fs_files s)"
      unfolding atomic_writer_def by blast
    then show ?thesis by (simp add: is_ok_def touches_def)
  qed simp
qed

lemma save_effect:
  assumes "client_save to_str write c p s = (Inr u, s')" "atomic_writer T write"
  shows "\<exists>content. to_str c = Some content \<and> logs (old_or_new T (fs_files s) p (str_bytes content)) s s'
    \<and> agree T (fs_files s') ((fs_files s)(p := Some (str_bytes content)))"
proof -
  from assms(1) obtain content u' where "to_str c = Some content" "write p content s = (Inr u', s')"
    by (auto simp: client_save_def write_client_config_def split: sum.splits option.splits prod.splits)
  moreover from this(2) assms(2) have "if is_ok (Inr u' :: (io_error, unit) res) then logs (old_or_new T (fs_files s) p (str_bytes content)) s s'
        \<and> agree T (fs_files s') ((fs_files s)(p := Some (str_bytes content)))
      else logs (\<lambda>fs. agree T fs (fs_files s)) s s' \<and> agree T (fs_files s') (fs_files s)"
    unfolding atomic_writer_def by blast
  ultimately show ?thesis by (simp add: is_ok_def)
qed

text \<open>Dropping the candidate, and removing the replaced certificate after the commit.\<close>

lemma trust_drop_effect: "t = \<lparr>pt_path = p, pt_replaced = replaced, pt_committed = False\<rparr> \<Longrightarrow> touches {p} s (trust_drop t s)"
  using touches_remove by (simp add: trust_drop_def)

lemma trust_commit_effect:
  assumes "t = \<lparr>pt_path = p, pt_replaced = replaced, pt_committed = False\<rparr>"
  shows "touches (set_option replaced) s (trust_commit t s)"
  using touches_remove by (auto simp: assms trust_commit_def trust_drop_def split: option.split)

lemma login_commit_error:
  assumes run: "login_commit w config_path t c s = (Inl e, s')" and writer: "atomic_writer T (lw_write w)"
    and t: "t = \<lparr>pt_path = cand, pt_replaced = replaced, pt_committed = False\<rparr>"
  shows "touches ({cand} \<union> T) s s'"
proof -
  have dropped: "touches ({cand} \<union> T) x (trust_drop t x)" for x by (rule touches_mono[OF trust_drop_effect[OF t]]) simp
  from run consider "s' = trust_drop t s" | e1 s1 where "client_save (lw_to_str w) (lw_write w) c config_path s = (Inl e1, s1)" "s' = trust_drop t s1"
    by (auto simp: login_commit_def split: sum.splits prod.splits)
  then show ?thesis
  proof cases
    case 2
    from touches_mono[OF touches_save[OF 2(1) writer], of "{cand} \<union> T"] dropped[of s1] 2(2) show ?thesis
      by (auto intro: touches_trans)
  qed (use dropped in simp)
qed

lemma login_commit_ok:
  assumes run: "login_commit w P t c s = (Inr c', s')" and writer: "atomic_writer T (lw_write w)"
    and t: "t = \<lparr>pt_path = cand, pt_replaced = replaced, pt_committed = False\<rparr>"
    and distinct: "cand \<notin> T" "P \<notin> T" "cand \<noteq> P" "cand \<notin> set_option replaced" "P \<notin> set_option replaced"
    and pem: "fs_files s cand = Some pem"
  shows "c' = c \<and> (\<forall>k \<in> {3, 4, 5}. \<not> lw_cancelled w k \<and> \<not> lw_expired w k)
    \<and> (\<exists>toml d. lw_to_str w c = Some toml \<and> client_resolved c P = Inr d \<and> lw_verify w d = Inr ()
         \<and> login_consistent T replaced P cand (str_bytes toml) pem (fs_files s) (fs_files s')
         \<and> fs_files s' P = Some (str_bytes toml) \<and> fs_files s' cand = Some pem
         \<and> logs (login_consistent T replaced P cand (str_bytes toml) pem (fs_files s)) s s')"
proof -
  from run obtain d s1 where d: "client_resolved c P = Inr d" "lw_verify w d = Inr ()"
    and checks: "\<forall>k \<in> {3, 4, 5}. \<not> lw_cancelled w k \<and> \<not> lw_expired w k"
    and save: "client_save (lw_to_str w) (lw_write w) c P s = (Inr (), s1)" and s': "s' = trust_commit t s1" "c' = c"
    by (auto simp: login_commit_def res_bind_def check_login_state_def run_login_step_def split: sum.splits prod.splits if_splits)
  from save_effect[OF save writer] obtain toml where toml: "lw_to_str w c = Some toml"
    and written: "logs (old_or_new T (fs_files s) P (str_bytes toml)) s s1" "agree T (fs_files s1) ((fs_files s)(P := Some (str_bytes toml)))" by blast
  let ?ok = "login_consistent T replaced P cand (str_bytes toml) pem (fs_files s)"
  have new: "fs P = Some (str_bytes toml) \<and> fs cand = Some pem \<and> agree ({cand, P} \<union> set_option replaced \<union> T) fs (fs_files s)"
    if "agree (T \<union> set_option replaced) fs ((fs_files s)(P := Some (str_bytes toml)))" for fs
    using that distinct pem by (auto simp: agree_def)
  have "logs ?ok s s1"
    using written(1)
    by (rule logs_mono) (use new in \<open>auto simp: old_or_new_def login_consistent_def intro: agree_mono\<close>)
  moreover have "touches (set_option replaced) s1 s'" using trust_commit_effect[OF t] s' by simp
  then have "agree (set_option replaced) (fs_files s') (fs_files s1)" "logs (\<lambda>fs. agree (set_option replaced) fs (fs_files s1)) s1 s'"
    by (simp_all add: touches_def)
  moreover have after: "agree (T \<union> set_option replaced) fs ((fs_files s)(P := Some (str_bytes toml)))"
    if "agree (set_option replaced) fs (fs_files s1)" for fs
    using that written(2) by (auto simp: agree_def)
  ultimately have "logs ?ok s s'" "?ok (fs_files s')"
    using new by (auto simp: login_consistent_def intro: logs_trans elim!: logs_mono)
  with new[OF after] \<open>agree (set_option replaced) (fs_files s') (fs_files s1)\<close> d checks toml s' show ?thesis by blast
qed

lemma touches_logs_trans:
  assumes "touches T s t" "logs P t u" "\<And>fs. agree T fs (fs_files s) \<Longrightarrow> P fs"
  shows "logs P s u"
proof -
  from assms(1) have "logs (\<lambda>fs. agree T fs (fs_files s)) s t" by (simp add: touches_def)
  then have "logs P s t" by (rule logs_mono) (rule assms(3))
  then show ?thesis using assms(2) by (rule logs_trans)
qed

lemma login_consistent_agree:
  "login_consistent T R P cand new pem old fs \<Longrightarrow> agree {cand} old old' \<Longrightarrow> login_consistent T R P cand new pem old' fs"
  unfolding login_consistent_def agree_def by auto

text \<open>
  C35: A login is all or nothing. When it fails, is cancelled or times out, at any point and with any
  file operation failing, all files but the candidate certificate are as before, at every moment.
  When it succeeds, it was neither cancelled nor late, the credentials were verified against the
  certificate that was fetched, the configuration file holds the returned configuration, and the
  certificate it names is in place. A crash in between finds either the old state or the new
  configuration with its certificate: no configuration ever names a certificate that is missing.
\<close>

theorem login_all_or_nothing:
  assumes run: "login_inner w P address key s = (r, s')"
    and writer: "atomic_writer T (lw_write w)"
    and dir: "path_parent P \<noteq> None" "path_parent P \<noteq> Some (Path False [])"
    and cand: "cand = candidate_path w P" "cand \<notin> T" "P \<notin> T" "cand \<noteq> P"
    and fresh: "\<And>c. parse_config (lw_from_str w) (read_files (lw_read_error w) (fs_files s)) P = Inr c
      \<Longrightarrow> managed_certificate_path c P \<notin> {Some cand, Some P}"
  shows "case r of
     Inl e \<Rightarrow> touches ({cand} \<union> T) s s'
   | Inr c \<Rightarrow> (\<forall>k \<le> 5. \<not> lw_cancelled w k \<and> \<not> lw_expired w k)
       \<and> (\<exists>stored cert d content. parse_config (lw_from_str w) (read_files (lw_read_error w) (fs_files s)) P = Inr stored
            \<and> lw_fetch w (trim address) key = Inr cert
            \<and> c = (login_config address key stored)\<lparr>cc_server := \<lparr>cs_address = trim address, cs_name = Some (sv_server_name cert),
                                                                    cs_ca_certificate = Some (candidate_name (lw_random w))\<rparr>\<rparr>
            \<and> client_resolved c P = Inr d \<and> cs_ca_certificate (cc_server d) = Some cand \<and> lw_verify w d = Inr ()
            \<and> lw_to_str w c = Some content \<and> fs_files s' P = Some (str_bytes content) \<and> fs_files s' cand = Some (sv_pem cert)
            \<and> logs (login_consistent T (managed_certificate_path stored P) P cand (str_bytes content) (sv_pem cert) (fs_files s)) s s')"
  using run
proof (cases rule: login_inner_cases)
  case (early e)
  then show ?thesis by simp
next
  case (started stored config)
  let ?R = "managed_certificate_path stored P"
  have looks: "\<not> lw_cancelled w 0" "\<not> lw_expired w 0" "\<not> lw_cancelled w 1" "\<not> lw_expired w 1" using started(4) by auto
  obtain r1 s1 where 1: "trust_prepare w 2 config P ?R s = (r1, s1)" by fastforce
  note prepared = trust_prepare_effect[OF 1, folded cand(1)]
  show ?thesis
  proof (cases r1)
    case (Inl e)
    with started(5) 1 prepared show ?thesis by (auto intro: touches_mono)
  next
    case (Inr tc)
    obtain t c where "tc = (t, c)" by fastforce
    with Inr prepared obtain cert where cert: "lw_fetch w (trim address) key = Inr cert" "fs_files s1 cand = Some (sv_pem cert)"
      and t: "t = \<lparr>pt_path = cand, pt_replaced = ?R, pt_committed = False\<rparr>"
      and c: "c = (login_config address key stored)\<lparr>cc_server := \<lparr>cs_address = trim address, cs_name = Some (sv_server_name cert),
                                                                  cs_ca_certificate = Some (candidate_name (lw_random w))\<rparr>\<rparr>"
      and looks2: "\<not> lw_cancelled w 2" "\<not> lw_expired w 2" and touched: "touches {cand} s s1"
      by (auto simp: started(2) login_config_def)
    have commit: "login_commit w P t c s1 = (r, s')" using started(5) 1 Inr \<open>tc = (t, c)\<close> by simp
    show ?thesis
    proof (cases r)
      case (Inl e)
      with login_commit_error[OF commit[unfolded Inl] writer t] touched show ?thesis
        by (auto intro: touches_trans touches_mono)
    next
      case ok: (Inr c')
      have apart: "cand \<notin> set_option ?R" "P \<notin> set_option ?R" using fresh[OF started(1)] by auto
      from login_commit_ok[OF commit[unfolded ok] writer t cand(2,3,4) apart cert(2)] obtain content d where
        c': "c' = c" "\<forall>k \<in> {3, 4, 5}. \<not> lw_cancelled w k \<and> \<not> lw_expired w k"
        and d: "lw_to_str w c = Some content" "client_resolved c P = Inr d" "lw_verify w d = Inr ()"
        and files: "fs_files s' P = Some (str_bytes content)" "fs_files s' cand = Some (sv_pem cert)"
        and log: "logs (login_consistent T ?R P cand (str_bytes content) (sv_pem cert) (fs_files s1)) s1 s'" by blast
      have agree: "agree {cand} (fs_files s1) (fs_files s)" using touched by (simp add: touches_def)
      have "logs (login_consistent T ?R P cand (str_bytes content) (sv_pem cert) (fs_files s)) s s'"
      proof (rule touches_logs_trans[OF touched logs_mono[OF log]])
        show "login_consistent T ?R P cand (str_bytes content) (sv_pem cert) (fs_files s) fs" if "agree {cand} fs (fs_files s)" for fs
          using that by (auto simp: login_consistent_def intro: agree_mono)
      qed (rule login_consistent_agree[OF _ agree])
      moreover have "cs_ca_certificate (cc_server d) = Some cand"
        using d(2) dir cand(1)
        by (auto simp: client_resolved_def c res_simps candidate_path_def config_parent_def resolve_path_def candidate_name_def is_relative_def
            split: option.splits)
      moreover have "\<forall>k \<le> 5. \<not> lw_cancelled w k \<and> \<not> lw_expired w k"
        using looks looks2 c'(2) by (auto simp: le_Suc_eq numeral_eq_Suc)
      ultimately show ?thesis using ok c' c cert started(1) d files by auto
    qed
  qed
qed

text \<open>A first login next to an empty configuration, without faults.\<close>

definition sample_login :: login_world where
  "sample_login =
     \<lparr>lw_cancelled = (\<lambda>_. False), lw_expired = (\<lambda>_. False), lw_read_error = (\<lambda>_. None), lw_from_str = (\<lambda>_. Some (client_initial ''k'')),
      lw_to_str = (\<lambda>_. Some ''toml''), lw_write = (\<lambda>p content s. (Inr (), s\<lparr>fs_files := (fs_files s)(p := Some (str_bytes content))\<rparr>)),
      lw_random = ''0011223344556677'', lw_fetch = (\<lambda>_ _. Inr \<lparr>sv_server_name = ''a'', sv_pem = [1, 2]\<rparr>), lw_verify = (\<lambda>_. Inr ())\<rparr>"

definition sample_client_files :: fs_state where
  "sample_client_files = \<lparr>fs_files = [Path True [''c'', ''client.toml''] \<mapsto> []], fs_ops = 0, fs_faults = (\<lambda>_. None), fs_log = []\<rparr>"

lemma sample_writer: "atomic_writer {} (lw_write sample_login)"
  by (auto simp: atomic_writer_def sample_login_def is_ok_def logs_def)

lemma sample_login_succeeds:
  "is_ok (fst (login_inner sample_login (Path True [''c'', ''client.toml'']) ''a:1'' (replicate 32 CHR ''k'') sample_client_files))"
proof -
  have tried: "login_config ''a:1'' (replicate 32 CHR ''k'') (client_initial ''k'') =
      \<lparr>cc_key = replicate 32 CHR ''k'', cc_server = \<lparr>cs_address = ''a:1'', cs_name = None, cs_ca_certificate = None\<rparr>, cc_services = []\<rparr>"
    by code_simp
  have valid: "client_validate \<lparr>cc_key = replicate 32 CHR ''k'', cc_server = \<lparr>cs_address = ''a:1'', cs_name = None, cs_ca_certificate = None\<rparr>, cc_services = []\<rparr> = Inr ()"
    "client_validate \<lparr>cc_key = replicate 32 CHR ''k'', cc_server = \<lparr>cs_address = ''a:1'', cs_name = Some ''a'',
        cs_ca_certificate = Some (Path False [''server-0011223344556677.pem''])\<rparr>, cc_services = []\<rparr> = Inr ()"
    by code_simp+
  show ?thesis
    by (simp add: login_inner_def tried valid sample_login_def sample_client_files_def check_login_state_def res_bind_def parse_config_def
        read_files_def trust_prepare_def run_login_step_def write_candidate_certificate_def fs_neutral_def fs_op_def fs_bind_def is_ok_def
        fs_create_new_def fs_write_def candidate_name_def config_parent_def path_parent_def path_join_def login_commit_def client_resolved_def
        client_save_def write_client_config_def Let_def)
qed

theorem login_all_or_nothing_witness:
  "\<exists>c s'. login_inner sample_login (Path True [''c'', ''client.toml'']) ''a:1'' (replicate 32 CHR ''k'') sample_client_files = (Inr c, s')
     \<and> fs_files s' (Path True [''c'', ''server-0011223344556677.pem'']) = Some [1, 2]"
proof -
  let ?P = "Path True [''c'', ''client.toml'']" let ?login = "login_inner sample_login ?P ''a:1'' (replicate 32 CHR ''k'') sample_client_files"
  have cand: "candidate_path sample_login ?P = Path True [''c'', ''server-0011223344556677.pem'']"
    by (simp add: candidate_path_def config_parent_def path_parent_def path_join_def candidate_name_def sample_login_def)
  obtain r s' where run: "?login = (r, s')" by fastforce
  from sample_login_succeeds run have ok: "\<exists>c. r = Inr c" by (auto simp: is_ok_def split: sum.splits)
  then obtain c where c: "r = Inr c" by blast
  have dir: "path_parent ?P \<noteq> None" "path_parent ?P \<noteq> Some (Path False [])" by (simp_all add: path_parent_def)
  have fresh: "managed_certificate_path c ?P \<notin> {Some (candidate_path sample_login ?P), Some ?P}"
    if "parse_config (lw_from_str sample_login) (read_files (lw_read_error sample_login) (fs_files sample_client_files)) ?P = Inr c" for c
    using that by (auto simp: parse_config_def sample_login_def read_files_def sample_client_files_def managed_certificate_path_def client_initial_def)
  have pem: "sv_pem cert = [1, 2]" if "lw_fetch sample_login a k = Inr cert" for a k cert
    using that by (auto simp: sample_login_def)
  from login_all_or_nothing[OF run sample_writer dir refl _ _ _ fresh, unfolded c cand]
  obtain cert a k where "lw_fetch sample_login a k = Inr cert" "fs_files s' (Path True [''c'', ''server-0011223344556677.pem'']) = Some (sv_pem cert)"
    by auto
  with pem c run show ?thesis by auto
qed

end
