(* ===== verification/Client_Runtime.thy ===== *)
theory Client_Runtime
  imports Client_Login
begin

text \<open>
  \<open>gaterust-client/src/lib.rs\<close>: the runtime behind the desktop client. The first part is the selection
  of tunnels to enable; the second the life cycle of the runtime: logins, of which one runs at a
  time, the background task, which is started by the first successful login, and shutdown. The
  calls of the user interface run concurrently; each critical section of the source is one step.
\<close>

section \<open>Choosing tunnels\<close>

definition select_service :: "ClientTunnel \<Rightarrow> (ClientError, ClientServiceConfig) res" where
  "select_service t =
     (if ct_state t = Occupied then Inl (InvalidOperation (''occupied: '' @ ct_name t))
      else if ct_kind t = Socks5 then Inr \<lparr>s_name = ct_name t, s_kind = ct_kind t, s_target = None\<rparr>
      else case local_target t of
        None \<Rightarrow> Inl (InvalidOperation (''no local port: '' @ ct_name t))
      | Some target \<Rightarrow> Inr \<lparr>s_name = ct_name t, s_kind = ct_kind t, s_target = Some target\<rparr>)"

definition services_for_selection :: "ClientTunnel list \<Rightarrow> string list \<Rightarrow> (ClientError, ClientServiceConfig list) res" where
  "services_for_selection tunnels names =
     (let requested = remdups names in
      if requested = [] then Inl (InvalidOperation ''choose at least one tunnel'')
      else if length requested > MAX_CLIENT_SERVICES then Inl (InvalidOperation ''too many tunnels'')
      else res_bind (res_map select_service (filter (\<lambda>t. ct_name t \<in> set requested) tunnels)) (\<lambda>services.
        if length services \<noteq> length requested then Inl (InvalidOperation ''not offered by the server'')
        else Inr (sort_key s_name services)))"

definition enabled_names :: "ClientTunnel list \<Rightarrow> string list" where
  "enabled_names tunnels = map ct_name (filter (\<lambda>t. ct_state t = Enabled) tunnels)"

definition services_for_enable :: "ClientTunnel list \<Rightarrow> string list \<Rightarrow> (ClientError, ClientServiceConfig list) res" where
  "services_for_enable tunnels names = services_for_selection tunnels (names @ enabled_names tunnels)"

text \<open>\<open>enable_tunnels\<close> and \<open>disable_tunnels\<close>; \<open>update\<close> is the controller's \<open>update_services\<close>, \<open>status\<close> and \<open>later\<close> the status before and after.\<close>

definition enable_tunnels ::
  "ClientStatus \<Rightarrow> ClientStatus \<Rightarrow> (ClientServiceConfig list \<Rightarrow> (TunnelError, ClientTunnel list) res) \<Rightarrow> string list \<Rightarrow> (ClientError, ClientStatus) res" where
  "enable_tunnels status later update names =
     (case status of
        Online _ _ tunnels \<Rightarrow>
          res_bind (services_for_enable tunnels names) (\<lambda>services.
            case update services of
              Inl e \<Rightarrow> Inl (TunnelFailed e)
            | Inr applied \<Rightarrow>
                let failed = sort (remdups (filter (\<lambda>n. n \<notin> set (enabled_names applied)) (map s_name services)))
                in if failed \<noteq> [] then Inl (InvalidOperation (concat failed)) else Inr later)
      | _ \<Rightarrow> Inl (InvalidOperation ''not logged in''))"

definition disable_tunnels ::
  "ClientStatus \<Rightarrow> (ClientServiceConfig list \<Rightarrow> (TunnelError, ClientTunnel list) res) \<Rightarrow> (ClientError, ClientStatus) res" where
  "disable_tunnels later update =
     (case update [] of
        Inl e \<Rightarrow> Inl (TunnelFailed e)
      | Inr applied \<Rightarrow> if list_ex (\<lambda>t. ct_state t = Enabled) applied then Inl (InvalidOperation ''still enabled'') else Inr later)"

text \<open>\<open>save_config\<close>: the blocking task saves and hands the configuration back.\<close>

definition save_config ::
  "(ClientConfig \<Rightarrow> string option) \<Rightarrow> (path \<Rightarrow> string \<Rightarrow> 's \<Rightarrow> (io_error, unit) res \<times> 's) \<Rightarrow> path \<Rightarrow> ClientConfig \<Rightarrow> 's
     \<Rightarrow> (ClientError, ClientConfig) res \<times> 's" where
  "save_config to_str write config_path config fs =
     (case client_save to_str write config config_path fs of
        (Inl e, fs') \<Rightarrow> (Inl (TunnelFailed e), fs')
      | (Inr _, fs') \<Rightarrow> (Inr config, fs'))"

section \<open>Lemmas on the selection\<close>

definition selectable :: "ClientTunnel \<Rightarrow> bool" where
  "selectable t \<longleftrightarrow> ct_state t \<noteq> Occupied \<and> (ct_kind t = Socks5 \<or> local_target t \<noteq> None)"

definition service_of :: "ClientTunnel \<Rightarrow> ClientServiceConfig" where
  "service_of t = \<lparr>s_name = ct_name t, s_kind = ct_kind t, s_target = (if ct_kind t = Socks5 then None else local_target t)\<rparr>"

lemma select_service_Inr: "select_service t = Inr s \<longleftrightarrow> selectable t \<and> s = service_of t"
  by (auto simp: select_service_def selectable_def service_of_def split: option.splits)

lemma res_map_select: "res_map select_service ts = Inr ss \<longleftrightarrow> list_all selectable ts \<and> ss = map service_of ts"
  by (induction ts arbitrary: ss) (auto simp: res_simps select_service_Inr)

lemma selection_Inr:
  "services_for_selection ts names = Inr ss \<longleftrightarrow>
     names \<noteq> [] \<and> card (set names) \<le> 256 \<and> (\<forall>t \<in> set ts. ct_name t \<in> set names \<longrightarrow> selectable t)
     \<and> length (filter (\<lambda>t. ct_name t \<in> set names) ts) = card (set names)
     \<and> ss = sort_key s_name (map service_of (filter (\<lambda>t. ct_name t \<in> set names) ts))"
  by (auto simp: services_for_selection_def Let_def res_simps res_map_select list_all_iff MAX_CLIENT_SERVICES_def
      length_remdups_card_conv not_less split: if_splits)

lemma offered_card:
  assumes "distinct (map f ts)" "finite N"
  shows "length (filter (\<lambda>t. f t \<in> N) ts) = card N \<longleftrightarrow> N \<subseteq> f ` set ts"
proof -
  have "length (filter (\<lambda>t. f t \<in> N) ts) = card (f ` set ts \<inter> N)"
  proof -
    have "length (filter (\<lambda>t. f t \<in> N) ts) = length (map f (filter (\<lambda>t. f t \<in> N) ts))" by simp
    also have "\<dots> = card (set (map f (filter (\<lambda>t. f t \<in> N) ts)))"
      using assms(1) by (intro distinct_card[symmetric]) (simp add: distinct_map_filter)
    also have "set (map f (filter (\<lambda>t. f t \<in> N) ts)) = f ` set ts \<inter> N" by auto
    finally show ?thesis .
  qed
  moreover have "card (f ` set ts \<inter> N) = card N \<longleftrightarrow> f ` set ts \<inter> N = N"
    using assms(2) by (metis card_subset_eq inf_le2)
  ultimately show ?thesis by auto
qed

lemma service_of_valid: "valid_name (ct_name t) \<Longrightarrow> selectable t \<Longrightarrow> valid_client_service (service_of t)"
  by (auto simp: valid_client_service_def service_of_def selectable_def local_target_def Let_def split: option.splits if_splits)

text \<open>The selection over a catalogue with distinct names.\<close>

lemma enable_Inr:
  assumes cat: "distinct (map ct_name ts)" and wanted: "wanted = set names \<union> set (enabled_names ts)"
  shows "services_for_enable ts names = Inr ss \<longleftrightarrow>
     wanted \<noteq> {} \<and> card wanted \<le> 256 \<and> (\<forall>t \<in> set ts. ct_name t \<in> wanted \<longrightarrow> selectable t) \<and> wanted \<subseteq> ct_name ` set ts
     \<and> ss = sort_key s_name (map service_of (filter (\<lambda>t. ct_name t \<in> wanted) ts))"
proof -
  have set_names: "set (names @ enabled_names ts) = wanted" and fin: "finite wanted" and empty: "names @ enabled_names ts = [] \<longleftrightarrow> wanted = {}"
    using wanted by auto
  show ?thesis unfolding services_for_enable_def selection_Inr set_names empty offered_card[OF cat fin] by blast
qed

lemma selectable_iff:
  assumes "distinct (map ct_name ts)"
  shows "(\<forall>t \<in> set ts. ct_name t \<in> W \<longrightarrow> selectable t) \<and> W \<subseteq> ct_name ` set ts \<longleftrightarrow> (\<forall>n \<in> W. \<exists>t \<in> set ts. ct_name t = n \<and> selectable t)"
proof
  assume "(\<forall>t \<in> set ts. ct_name t \<in> W \<longrightarrow> selectable t) \<and> W \<subseteq> ct_name ` set ts"
  then show "\<forall>n \<in> W. \<exists>t \<in> set ts. ct_name t = n \<and> selectable t" by blast
next
  assume R: "\<forall>n \<in> W. \<exists>t \<in> set ts. ct_name t = n \<and> selectable t"
  have "selectable t" if "t \<in> set ts" "ct_name t \<in> W" for t
  proof -
    from R that(2) obtain u where "u \<in> set ts" "ct_name u = ct_name t" "selectable u" by blast
    with that(1) assms show ?thesis by (auto simp: distinct_map dest: inj_onD)
  qed
  moreover have "n \<in> ct_name ` set ts" if "n \<in> W" for n using R that by (metis imageI)
  ultimately show "(\<forall>t \<in> set ts. ct_name t \<in> W \<longrightarrow> selectable t) \<and> W \<subseteq> ct_name ` set ts" by blast
qed

lemma enable_services_valid:
  assumes cat: "distinct (map ct_name ts)" "\<forall>t \<in> set ts. valid_name (ct_name t)"
    and wanted: "wanted = set names \<union> set (enabled_names ts)" and run: "services_for_enable ts names = Inr ss"
  shows "sorted (map s_name ss) \<and> set ss = service_of ` {t \<in> set ts. ct_name t \<in> wanted} \<and> s_name ` set ss = wanted
    \<and> validate_client_services ss = Inr ()"
proof -
  from run have ss: "ss = sort_key s_name (map service_of (filter (\<lambda>t. ct_name t \<in> wanted) ts))" and sub: "wanted \<subseteq> ct_name ` set ts"
    and sel: "\<forall>t \<in> set ts. ct_name t \<in> wanted \<longrightarrow> selectable t" and bound: "card wanted \<le> 256"
    by (auto simp: enable_Inr[OF cat(1) wanted])
  have len: "length ss = card wanted"
    using sub wanted offered_card[OF cat(1), of wanted] by (simp add: ss)
  have name: "s_name (service_of t) = ct_name t" for t by (simp add: service_of_def)
  have "distinct (map s_name ss)"
    unfolding ss distinct_map_sort_key using cat(1) by (simp add: comp_def name distinct_map_filter)
  moreover have "\<forall>x \<in> set ss. valid_client_service x" using sel cat(2) by (auto simp: ss service_of_valid)
  ultimately have "validate_client_services ss = Inr ()" using bound len by (simp add: validate_client_services_iff)
  moreover have "s_name ` set ss = wanted"
  proof -
    have "s_name ` set ss = ct_name ` {t \<in> set ts. ct_name t \<in> wanted}" by (simp add: ss image_image name)
    also have "\<dots> = ct_name ` set ts \<inter> wanted" by auto
    also have "\<dots> = wanted" using sub by (rule Int_absorb1)
    finally show ?thesis .
  qed
  ultimately show ?thesis by (simp add: ss)
qed

lemma enable_tunnels_ok:
  assumes "enable_tunnels (Online device session ts) later update names = Inr st"
  obtains ss after where "services_for_enable ts names = Inr ss" "update ss = Inr after"
    "\<forall>n \<in> s_name ` set ss. n \<in> set (enabled_names after)"
proof -
  from assms obtain ss where ss: "services_for_enable ts names = Inr ss" by (auto simp: enable_tunnels_def res_simps)
  show thesis
  proof (cases "update ss")
    case (Inl e)
    with assms ss show thesis by (simp add: enable_tunnels_def)
  next
    case (Inr after)
    with assms ss have "sort (remdups (filter (\<lambda>n. n \<notin> set (enabled_names after)) (map s_name ss))) = []"
      by (simp add: enable_tunnels_def Let_def split: if_splits)
    from arg_cong[OF this, of set] have "\<forall>n \<in> s_name ` set ss. n \<in> set (enabled_names after)" by auto
    with ss Inr that show thesis by auto
  qed
qed

text \<open>
  C37: Enabling tunnels. With the catalogue of a server (distinct, valid names) the request is accepted exactly
  when something is chosen, at most 256 tunnels are enabled afterwards, and each chosen or already
  enabled tunnel is offered, free for this client and has a local port. The services that are
  then declared are exactly those tunnels, sorted, and pass the checks of the controller; the call
  succeeds only when the server confirms every one of them.
\<close>

theorem enable_selection_exact:
  assumes cat: "distinct (map ct_name ts)" "\<forall>t \<in> set ts. valid_name (ct_name t)"
    and wanted: "wanted = set names \<union> set (enabled_names ts)"
  shows "((\<exists>ss. services_for_enable ts names = Inr ss) \<longleftrightarrow>
       wanted \<noteq> {} \<and> card wanted \<le> 256 \<and> (\<forall>n \<in> wanted. \<exists>t \<in> set ts. ct_name t = n \<and> ct_state t \<noteq> Occupied \<and> (ct_kind t = Socks5 \<or> local_target t \<noteq> None)))
    \<and> (\<forall>ss. services_for_enable ts names = Inr ss \<longrightarrow>
         sorted (map s_name ss) \<and> set ss = service_of ` {t \<in> set ts. ct_name t \<in> wanted} \<and> s_name ` set ss = wanted
         \<and> validate_client_services ss = Inr ())
    \<and> (\<forall>device session later update st. enable_tunnels (Online device session ts) later update names = Inr st \<longrightarrow>
         (\<exists>ss after. services_for_enable ts names = Inr ss \<and> update ss = Inr after \<and> wanted \<subseteq> set (enabled_names after)))"
proof (intro conjI allI impI)
  show "(\<exists>ss. services_for_enable ts names = Inr ss) \<longleftrightarrow>
       wanted \<noteq> {} \<and> card wanted \<le> 256 \<and> (\<forall>n \<in> wanted. \<exists>t \<in> set ts. ct_name t = n \<and> ct_state t \<noteq> Occupied \<and> (ct_kind t = Socks5 \<or> local_target t \<noteq> None))"
    using selectable_iff[OF cat(1), of wanted] unfolding enable_Inr[OF cat(1) wanted] selectable_def by blast
next
  fix device session later update st assume "enable_tunnels (Online device session ts) later update names = Inr st"
  then obtain ss after where "services_for_enable ts names = Inr ss" "update ss = Inr after"
    "\<forall>n \<in> s_name ` set ss. n \<in> set (enabled_names after)" by (rule enable_tunnels_ok)
  with enable_services_valid[OF cat wanted] show "\<exists>ss after. services_for_enable ts names = Inr ss \<and> update ss = Inr after \<and> wanted \<subseteq> set (enabled_names after)"
    by blast
qed (use enable_services_valid[OF cat wanted] in blast)+

definition sample_catalog :: "ClientTunnel list" where
  "sample_catalog =
     [\<lparr>ct_name = ''a'', ct_kind = Socks5, ct_server_port = 1080, ct_local_ip = None, ct_local_port = None, ct_state = Enabled\<rparr>,
      \<lparr>ct_name = ''b'', ct_kind = Socks5, ct_server_port = 1081, ct_local_ip = None, ct_local_port = None, ct_state = ClientTunnelState.Idle\<rparr>]"

theorem enable_selection_exact_witness:
  "\<exists>ss. services_for_enable sample_catalog [''b''] = Inr ss \<and> s_name ` set ss = {''a'', ''b''} \<and> validate_client_services ss = Inr ()"
proof -
  have names: "valid_name ''a''" "valid_name ''b''" by code_simp+
  have cat: "distinct (map ct_name sample_catalog)" "\<forall>t \<in> set sample_catalog. valid_name (ct_name t)"
    using names by (simp_all add: sample_catalog_def)
  have wanted: "{''a'', ''b''} = set [''b''] \<union> set (enabled_names sample_catalog)" by (auto simp: enabled_names_def sample_catalog_def)
  have "\<forall>n \<in> {''a'', ''b''}. \<exists>t \<in> set sample_catalog. ct_name t = n \<and> ct_state t \<noteq> Occupied \<and> (ct_kind t = Socks5 \<or> local_target t \<noteq> None)"
    by (simp add: sample_catalog_def)
  with enable_selection_exact[OF cat wanted] show ?thesis by fastforce
qed

text \<open>A configuration that was not saved changes no file but temporary ones; a saved one is valid and is in its file.\<close>

lemma save_config_effect:
  assumes "save_config to_str write p c s = (r, s')" "atomic_writer T write"
  shows "case r of
       Inl _ \<Rightarrow> touches T s s'
     | Inr c' \<Rightarrow> c' = c \<and> client_validate c = Inr ()
         \<and> (\<exists>content. to_str c = Some content \<and> agree T (fs_files s') ((fs_files s)(p := Some (str_bytes content))))"
proof -
  obtain q s1 where q: "client_save to_str write c p s = (q, s1)" by fastforce
  show ?thesis
  proof (cases q)
    case (Inl e)
    with assms q touches_save[OF _ assms(2)] show ?thesis by (auto simp: save_config_def)
  next
    case (Inr u)
    with q have ok: "client_save to_str write c p s = (Inr u, s1)" by simp
    then have "client_validate c = Inr ()" by (auto simp: client_save_def split: sum.splits)
    moreover have "r = Inr c" "s' = s1" using assms(1) ok by (simp_all add: save_config_def)
    ultimately show ?thesis using save_effect[OF ok assms(2)] by auto
  qed
qed

section \<open>The life of the runtime\<close>

text \<open>
  A login operation has a cancellation token and a token for its completion. \<open>cr_commands\<close> tells whether
  the receiver of the commands is still there to be given to the background task, \<open>cr_handle\<close> whether
  the handle of the task is in its mutex, and \<open>cr_task\<close> is the task itself.
\<close>

record LoginOperation =
  lo_cancelled :: bool
  lo_completed :: bool

datatype task_state = NotStarted | Running | Finished

text \<open>
  Where a call of \<open>login_with_timeout\<close> or of \<open>shutdown_with_timeout\<close> is: in \<open>login_inner\<close>, before \<open>activate\<close>,
  before \<open>finish_login\<close>, returned; after \<open>shutdown.cancel()\<close>, with the login it found, waiting with that
  login and whether it took the handle, returned (took the handle, in time).
\<close>

datatype client_call =
  LoginInner nat
| LoginActivate nat
| LoginFinish nat bool
| LoginReturned bool
| ShutdownStarted
| ShutdownLogin "nat option"
| ShutdownWaits "nat option" bool
| ShutdownReturned bool bool

record ClientRuntime =
  cr_shutdown :: bool
  cr_login :: "nat option"
  cr_operations :: "LoginOperation list"
  cr_commands :: bool
  cr_handle :: bool
  cr_task :: task_state
  cr_calls :: "client_call list"

definition client_runtime_start :: ClientRuntime where
  "client_runtime_start =
     \<lparr>cr_shutdown = False, cr_login = None, cr_operations = [], cr_commands = True, cr_handle = False, cr_task = NotStarted, cr_calls = []\<rparr>"

definition begin_login :: "ClientRuntime \<Rightarrow> ClientRuntime" where
  "begin_login r =
     (if cr_login r \<noteq> None then r
      else let i = length (cr_operations r) in
        r\<lparr>cr_login := Some i, cr_operations := cr_operations r @ [\<lparr>lo_cancelled = False, lo_completed = False\<rparr>],
          cr_calls := cr_calls r @ [LoginInner i]\<rparr>)"

definition activate :: "ClientRuntime \<Rightarrow> ClientRuntime" where
  "activate r =
     (if cr_handle r \<or> cr_shutdown r \<or> \<not> cr_commands r then r
      else r\<lparr>cr_commands := False, cr_handle := True, cr_task := Running\<rparr>)"

definition finish_client_login :: "nat \<Rightarrow> ClientRuntime \<Rightarrow> ClientRuntime" where
  "finish_client_login i r = r\<lparr>cr_login := None, cr_operations := (cr_operations r)[i := (cr_operations r ! i)\<lparr>lo_completed := True\<rparr>]\<rparr>"

definition cancel_operation :: "nat option \<Rightarrow> ClientRuntime \<Rightarrow> ClientRuntime" where
  "cancel_operation op r =
     (case op of None \<Rightarrow> r
      | Some i \<Rightarrow> r\<lparr>cr_operations := (cr_operations r)[i := (cr_operations r ! i)\<lparr>lo_cancelled := True\<rparr>]\<rparr>)"

definition operation_completed :: "nat option \<Rightarrow> ClientRuntime \<Rightarrow> bool" where
  "operation_completed op r = (case op of None \<Rightarrow> True | Some i \<Rightarrow> lo_completed (cr_operations r ! i))"

text \<open>
  One step of call \<open>k\<close>: \<open>ok\<close> is the result of \<open>login_inner\<close>, and for a shutdown that waits whether everything
  ended in time. The task is aborted by the timeout.
\<close>

definition client_call_step :: "nat \<Rightarrow> bool \<Rightarrow> ClientRuntime \<Rightarrow> ClientRuntime" where
  "client_call_step k ok r =
     (let goto = (\<lambda>c r. r\<lparr>cr_calls := (cr_calls r)[k := c]\<rparr>) in
      if length (cr_calls r) \<le> k then r
      else case cr_calls r ! k of
        LoginInner i \<Rightarrow> goto (if ok then LoginActivate i else LoginFinish i False) r
      | LoginActivate i \<Rightarrow> goto (LoginFinish i True) (activate r)
      | LoginFinish i result \<Rightarrow> goto (LoginReturned result) (finish_client_login i r)
      | LoginReturned _ \<Rightarrow> r
      | ShutdownStarted \<Rightarrow> goto (ShutdownLogin (cr_login r)) (cancel_operation (cr_login r) r)
      | ShutdownLogin op \<Rightarrow> goto (ShutdownWaits op (cr_handle r)) (r\<lparr>cr_handle := False\<rparr>)
      | ShutdownWaits op took \<Rightarrow>
          if ok then if operation_completed op r \<and> (took \<longrightarrow> cr_task r = Finished) then goto (ShutdownReturned took True) r else r
          else goto (ShutdownReturned took False) (if took then r\<lparr>cr_task := Finished\<rparr> else r)
      | ShutdownReturned _ _ \<Rightarrow> r)"

definition begin_shutdown :: "ClientRuntime \<Rightarrow> ClientRuntime" where
  "begin_shutdown r = r\<lparr>cr_shutdown := True, cr_calls := cr_calls r @ [ShutdownStarted]\<rparr>"

text \<open>\<open>cancel_login\<close> up to its wait for the completion.\<close>

definition cancel_login :: "ClientRuntime \<Rightarrow> ClientRuntime" where
  "cancel_login r = cancel_operation (cr_login r) r"

inductive client_runtime_step :: "ClientRuntime \<Rightarrow> ClientRuntime \<Rightarrow> bool" where
  step_login: "client_runtime_step r (begin_login r)"
| step_shutdown: "client_runtime_step r (begin_shutdown r)"
| step_cancel: "client_runtime_step r (cancel_login r)"
| step_call: "client_runtime_step r (client_call_step k ok r)"
| step_task_ends: "cr_task r = Running \<Longrightarrow> client_runtime_step r (r\<lparr>cr_task := Finished\<rparr>)"

abbreviation "client_runs \<equiv> client_runtime_step\<^sup>*\<^sup>*"

text \<open>The login operation that a call is working on.\<close>

fun works_on :: "client_call \<Rightarrow> nat list" where
  "works_on (LoginInner i) = [i]"
| "works_on (LoginActivate i) = [i]"
| "works_on (LoginFinish i _) = [i]"
| "works_on _ = []"

fun took_task :: "client_call \<Rightarrow> bool" where
  "took_task (ShutdownWaits _ took) = took"
| "took_task (ShutdownReturned took _) = took"
| "took_task _ = False"

fun is_shutdown_call :: "client_call \<Rightarrow> bool" where
  "is_shutdown_call (LoginInner _) = False"
| "is_shutdown_call (LoginActivate _) = False"
| "is_shutdown_call (LoginFinish _ _) = False"
| "is_shutdown_call (LoginReturned _) = False"
| "is_shutdown_call _ = True"

definition working :: "ClientRuntime \<Rightarrow> nat list" where
  "working r = concat (map works_on (cr_calls r))"

definition task_inv :: "ClientRuntime \<Rightarrow> bool" where
  "task_inv r \<longleftrightarrow>
     (cr_commands r \<longleftrightarrow> cr_task r = NotStarted)
     \<and> (cr_handle r \<longrightarrow> cr_task r \<noteq> NotStarted)
     \<and> (\<forall>c \<in> set (cr_calls r). took_task c \<longrightarrow> cr_task r \<noteq> NotStarted \<and> \<not> cr_handle r)
     \<and> (\<forall>c \<in> set (cr_calls r). \<forall>ok. c = ShutdownReturned True ok \<longrightarrow> cr_task r = Finished)
     \<and> (list_ex is_shutdown_call (cr_calls r) \<longrightarrow> cr_shutdown r)
     \<and> (cr_task r = Running \<longrightarrow> cr_handle r \<or> list_ex took_task (cr_calls r))"

definition runtime_inv :: "ClientRuntime \<Rightarrow> bool" where
  "runtime_inv r \<longleftrightarrow> working r = (case cr_login r of None \<Rightarrow> [] | Some i \<Rightarrow> [i]) \<and> task_inv r"

lemma concat_update_same: "f c = f (xs ! k) \<Longrightarrow> concat (map f (xs[k := c])) = concat (map f xs)"
proof (cases "k < length xs")
  case True
  assume "f c = f (xs ! k)"
  then have "map f (xs[k := c]) = map f xs" using True by (metis list_update_id map_update)
  then show ?thesis by simp
qed (simp add: not_less list_update_beyond)

lemma concat_update_removes:
  assumes "k < length xs" "concat (map f xs) = [i]" "f (xs ! k) \<noteq> []" "f c = []"
  shows "concat (map f (xs[k := c])) = []"
proof -
  have "concat (map f xs) = concat (map f (take k xs)) @ f (xs ! k) @ concat (map f (drop (Suc k) xs))"
    using arg_cong[OF id_take_nth_drop[OF assms(1)], of "\<lambda>ys. concat (map f ys)"] by simp
  with assms have "concat (map f (take k xs)) = [] \<and> concat (map f (drop (Suc k) xs)) = []"
    by (cases "concat (map f (take k xs))") (auto simp: append_eq_Cons_conv Cons_eq_append_conv)
  with assms(1,4) show ?thesis by (simp add: upd_conv_take_nth_drop)
qed

lemma inv_begin_login: "runtime_inv r \<Longrightarrow> runtime_inv (begin_login r)"
  by (auto simp: begin_login_def runtime_inv_def task_inv_def working_def Let_def)

lemma inv_begin_shutdown: "runtime_inv r \<Longrightarrow> runtime_inv (begin_shutdown r)"
  by (auto simp: begin_shutdown_def runtime_inv_def task_inv_def working_def)

lemma inv_cancel: "runtime_inv r \<Longrightarrow> runtime_inv (cancel_operation op r)"
  by (auto simp: cancel_operation_def runtime_inv_def task_inv_def working_def split: option.split)

lemma inv_task_ends: "runtime_inv r \<Longrightarrow> cr_task r = Running \<Longrightarrow> runtime_inv (r\<lparr>cr_task := Finished\<rparr>)"
  by (auto simp: runtime_inv_def task_inv_def working_def)

lemma list_ex_update_same:
  assumes "k < length xs" "P c = P (xs ! k)"
  shows "list_ex P (xs[k := c]) = list_ex P xs"
proof -
  have "map P (xs[k := c]) = map P xs" using assms by (intro nth_equalityI) (auto simp: nth_list_update)
  then have "list_ex (\<lambda>b. b) (map P (xs[k := c])) = list_ex (\<lambda>b. b) (map P xs)" by simp
  then show ?thesis by (simp add: list_ex_iff)
qed

lemma task_inv_goto:
  assumes "task_inv r" "k < length (cr_calls r)" "took_task c = took_task (cr_calls r ! k)"
    "is_shutdown_call c = is_shutdown_call (cr_calls r ! k)" "\<And>ok. c = ShutdownReturned True ok \<Longrightarrow> cr_task r = Finished"
  shows "task_inv (r\<lparr>cr_calls := (cr_calls r)[k := c]\<rparr>)"
proof -
  let ?cs = "(cr_calls r)[k := c]"
  have mem: "x \<in> set (cr_calls r) \<or> x = c" if "x \<in> set ?cs" for x using that by (auto dest!: subsetD[OF set_update_subset_insert])
  have "cr_calls r ! k \<in> set (cr_calls r)" using assms(2) by simp
  then have "took_task c \<longrightarrow> cr_task r \<noteq> NotStarted \<and> \<not> cr_handle r" using assms(1,3) unfolding task_inv_def by blast
  then have "\<forall>x \<in> set ?cs. took_task x \<longrightarrow> cr_task r \<noteq> NotStarted \<and> \<not> cr_handle r"
    using assms(1) mem unfolding task_inv_def by blast
  moreover have "\<forall>x \<in> set ?cs. \<forall>ok. x = ShutdownReturned True ok \<longrightarrow> cr_task r = Finished"
    using assms(1,5) mem unfolding task_inv_def by blast
  ultimately show ?thesis
    using assms(1) list_ex_update_same[of k "cr_calls r" took_task c] list_ex_update_same[of k "cr_calls r" is_shutdown_call c] assms(2-4)
    by (simp add: task_inv_def)
qed

lemma inv_goto:
  assumes "runtime_inv r" "k < length (cr_calls r)" "works_on c = works_on (cr_calls r ! k)" "took_task c = took_task (cr_calls r ! k)"
    "is_shutdown_call c = is_shutdown_call (cr_calls r ! k)" "\<And>ok. c = ShutdownReturned True ok \<Longrightarrow> cr_task r = Finished"
  shows "runtime_inv (r\<lparr>cr_calls := (cr_calls r)[k := c]\<rparr>)"
  using assms task_inv_goto[of r k c] concat_update_same[of works_on c "cr_calls r" k]
  by (simp add: runtime_inv_def working_def)

lemma inv_activate: "runtime_inv r \<Longrightarrow> runtime_inv (activate r)"
  by (auto simp: activate_def runtime_inv_def task_inv_def working_def)

lemma inv_finish:
  assumes inv: "runtime_inv r" and k: "k < length (cr_calls r)" "cr_calls r ! k = LoginFinish i ok"
  shows "runtime_inv ((finish_client_login i r)\<lparr>cr_calls := (cr_calls r)[k := LoginReturned ok]\<rparr>)"
proof -
  have "LoginFinish i ok \<in> set (cr_calls r)" using nth_mem[OF k(1)] k(2) by simp
  then have "i \<in> set (concat (map works_on (cr_calls r)))" by (auto intro!: bexI[of _ "LoginFinish i ok"])
  with inv have "concat (map works_on (cr_calls r)) = [i]" by (auto simp: runtime_inv_def working_def split: option.splits)
  with k concat_update_removes[of k "cr_calls r" works_on i "LoginReturned ok"] have "concat (map works_on ((cr_calls r)[k := LoginReturned ok])) = []" by simp
  moreover have "task_inv (r\<lparr>cr_calls := (cr_calls r)[k := LoginReturned ok]\<rparr>)"
    using inv k by (intro task_inv_goto) (simp_all add: runtime_inv_def)
  ultimately show ?thesis by (simp add: runtime_inv_def working_def finish_client_login_def task_inv_def)
qed

lemma inv_take:
  assumes inv: "runtime_inv r" and k: "k < length (cr_calls r)" "cr_calls r ! k = ShutdownLogin op"
  shows "runtime_inv (r\<lparr>cr_handle := False, cr_calls := (cr_calls r)[k := ShutdownWaits op (cr_handle r)]\<rparr>)"
proof -
  let ?c = "ShutdownWaits op (cr_handle r)"
  have mem: "x \<in> set (cr_calls r) \<or> x = ?c" if "x \<in> set ((cr_calls r)[k := ?c])" for x
    using that by (auto dest!: subsetD[OF set_update_subset_insert])
  have "concat (map works_on ((cr_calls r)[k := ?c])) = concat (map works_on (cr_calls r))" using k by (intro concat_update_same) simp
  moreover have "list_ex took_task ((cr_calls r)[k := ?c])" if "cr_handle r \<or> list_ex took_task (cr_calls r)"
  proof (cases "cr_handle r")
    case True
    with k show ?thesis by (auto simp: list_ex_iff set_update_memI intro!: bexI[of _ ?c])
  next
    case False
    with that k list_ex_update_same[of k "cr_calls r" took_task ?c] show ?thesis by simp
  qed
  moreover have "\<forall>x \<in> set ((cr_calls r)[k := ?c]). took_task x \<longrightarrow> cr_task r \<noteq> NotStarted"
    using inv mem unfolding runtime_inv_def task_inv_def by (metis took_task.simps(1))
  moreover have "\<forall>x \<in> set ((cr_calls r)[k := ?c]). \<forall>ok. x = ShutdownReturned True ok \<longrightarrow> cr_task r = Finished"
    using inv mem unfolding runtime_inv_def task_inv_def by blast
  ultimately show ?thesis
    using inv k list_ex_update_same[of k "cr_calls r" is_shutdown_call ?c]
    by (simp add: runtime_inv_def task_inv_def working_def)
qed

lemma inv_call_step:
  assumes "runtime_inv r"
  shows "runtime_inv (client_call_step k ok r)"
proof (cases "k < length (cr_calls r)")
  case k: True
  have same: "cr_calls (activate r) = cr_calls r" "cr_calls (cancel_operation op r) = cr_calls r" for op
    by (simp_all add: activate_def cancel_operation_def split: option.split)
  show ?thesis
  proof (cases "cr_calls r ! k")
    case (LoginInner i)
    with k assms show ?thesis by (auto simp: client_call_step_def Let_def intro!: inv_goto)
  next
    case (LoginActivate i)
    with k inv_goto[OF inv_activate[OF assms], of k "LoginFinish i True"] show ?thesis
      by (simp add: client_call_step_def Let_def same)
  next
    case (LoginFinish i result)
    with k inv_finish[OF assms k LoginFinish] show ?thesis by (simp add: client_call_step_def Let_def finish_client_login_def)
  next
    case ShutdownStarted
    with k inv_goto[OF inv_cancel[OF assms], of k "cr_login r" "ShutdownLogin (cr_login r)"] show ?thesis
      by (simp add: client_call_step_def Let_def same)
  next
    case (ShutdownLogin op)
    with k inv_take[OF assms k ShutdownLogin] show ?thesis by (simp add: client_call_step_def Let_def)
  next
    case (ShutdownWaits op took)
    have "took_task (cr_calls r ! k) \<longrightarrow> cr_task r \<noteq> NotStarted" using assms nth_mem[OF k] unfolding runtime_inv_def task_inv_def by blast
    with assms ShutdownWaits have "runtime_inv (if took then r\<lparr>cr_task := Finished\<rparr> else r)"
      by (auto simp: runtime_inv_def task_inv_def working_def)
    from inv_goto[OF this, of k "ShutdownReturned took False"] k ShutdownWaits
      inv_goto[OF assms k, of "ShutdownReturned took True"] assms show ?thesis
      by (cases took) (auto simp: client_call_step_def Let_def)
  qed (use assms k in \<open>simp_all add: client_call_step_def Let_def\<close>)
qed (use assms in \<open>simp add: client_call_step_def\<close>)

lemma inv_step: "client_runtime_step r r' \<Longrightarrow> runtime_inv r \<Longrightarrow> runtime_inv r'"
  by (induction rule: client_runtime_step.induct)
    (simp_all add: inv_begin_login inv_begin_shutdown inv_cancel inv_call_step inv_task_ends cancel_login_def)

lemma inv_runs: "client_runs r r' \<Longrightarrow> runtime_inv r \<Longrightarrow> runtime_inv r'"
  by (induction rule: rtranclp_induct) (auto intro: inv_step)

lemma inv_start: "runtime_inv client_runtime_start"
  by (simp add: runtime_inv_def task_inv_def client_runtime_start_def working_def)

lemma set_update_other: "x \<in> set xs \<Longrightarrow> x \<noteq> xs ! k \<Longrightarrow> x \<in> set (xs[k := c])"
  by (metis in_set_conv_nth length_list_update nth_list_update_neq)

lemma returned_stays_step:
  "client_runtime_step r r' \<Longrightarrow> ShutdownReturned took ok \<in> set (cr_calls r) \<Longrightarrow> ShutdownReturned took ok \<in> set (cr_calls r')"
proof (induction rule: client_runtime_step.induct)
  case (step_call r k ok')
  have same: "cr_calls (activate r) = cr_calls r" "cr_calls (cancel_operation op r) = cr_calls r" "cr_calls (finish_client_login i r) = cr_calls r" for op i
    by (simp_all add: activate_def cancel_operation_def finish_client_login_def split: option.split)
  from step_call show ?case
    by (cases "cr_calls r ! k") (auto simp: client_call_step_def Let_def same set_update_other)
qed (auto simp: begin_login_def begin_shutdown_def cancel_login_def cancel_operation_def Let_def split: option.split)

lemma returned_stays:
  "client_runs r r' \<Longrightarrow> ShutdownReturned took ok \<in> set (cr_calls r) \<Longrightarrow> ShutdownReturned took ok \<in> set (cr_calls r')"
  by (induction rule: rtranclp_induct) (auto intro: returned_stays_step)

lemma not_started_stays_step:
  "client_runtime_step r r' \<Longrightarrow> runtime_inv r \<Longrightarrow> cr_shutdown r \<and> cr_task r = NotStarted \<Longrightarrow> cr_shutdown r' \<and> cr_task r' = NotStarted"
proof (induction rule: client_runtime_step.induct)
  case (step_call r k ok)
  show ?case
  proof (cases "k < length (cr_calls r)")
    case True
    with step_call have "\<not> took_task (cr_calls r ! k)" unfolding runtime_inv_def task_inv_def by (metis nth_mem)
    with step_call(2) show ?thesis
      by (cases "cr_calls r ! k")
        (simp_all add: client_call_step_def Let_def activate_def finish_client_login_def cancel_operation_def split: option.split)
  qed (use step_call in \<open>simp add: client_call_step_def\<close>)
qed (auto simp: begin_login_def begin_shutdown_def cancel_login_def cancel_operation_def Let_def split: option.split)

lemma not_started_stays:
  "client_runs r r' \<Longrightarrow> runtime_inv r \<Longrightarrow> cr_shutdown r \<and> cr_task r = NotStarted \<Longrightarrow> cr_task r' = NotStarted"
proof -
  have "client_runs r r' \<Longrightarrow> runtime_inv r \<Longrightarrow> cr_shutdown r \<and> cr_task r = NotStarted
    \<Longrightarrow> runtime_inv r' \<and> cr_shutdown r' \<and> cr_task r' = NotStarted"
    by (induction rule: rtranclp_induct) (auto intro: inv_step dest: not_started_stays_step)
  then show "client_runs r r' \<Longrightarrow> runtime_inv r \<Longrightarrow> cr_shutdown r \<and> cr_task r = NotStarted \<Longrightarrow> cr_task r' = NotStarted" by blast
qed


text \<open>A login that starts the task and a shutdown that gives up waiting for it.\<close>

definition sample_logged_in :: ClientRuntime where
  "sample_logged_in = client_call_step 0 True (client_call_step 0 True (client_call_step 0 True (begin_login client_runtime_start)))"

definition sample_stopped :: ClientRuntime where
  "sample_stopped = client_call_step 1 False (client_call_step 1 True (client_call_step 1 True (begin_shutdown sample_logged_in)))"

lemma client_runs_snoc:
  "client_runs a r \<Longrightarrow> client_runs a (client_call_step k ok r)" "client_runs a r \<Longrightarrow> client_runs a (begin_login r)"
  "client_runs a r \<Longrightarrow> client_runs a (begin_shutdown r)"
  by (erule rtranclp.rtrancl_into_rtrancl, rule client_runtime_step.intros)+

lemma sample_logged_in_run: "client_runs client_runtime_start sample_logged_in"
  unfolding sample_logged_in_def by (intro client_runs_snoc rtranclp.rtrancl_refl)

lemma sample_stopped_run: "client_runs sample_logged_in sample_stopped"
  unfolding sample_stopped_def by (intro client_runs_snoc rtranclp.rtrancl_refl)

lemmas client_runtime_eval = client_call_step_def begin_login_def begin_shutdown_def client_runtime_start_def activate_def finish_client_login_def
  cancel_operation_def operation_completed_def Let_def

lemma sample_client_eval:
  "cr_task sample_logged_in = Running" "cr_login sample_logged_in = None" "cr_calls sample_stopped = [LoginReturned True, ShutdownReturned True False]"
  by (simp_all add: sample_logged_in_def sample_stopped_def client_runtime_eval)


text \<open>
  Only the shutdown that took the handle waits for the task: a second call that runs at the same
  time returns successfully while the task is still running.
\<close>

definition sample_second_shutdown :: ClientRuntime where
  "sample_second_shutdown =
     client_call_step 2 True (client_call_step 2 True (client_call_step 2 True (begin_shutdown
       (client_call_step 1 True (client_call_step 1 True (begin_shutdown sample_logged_in))))))"

lemma second_shutdown_returns_early:
  "client_runs client_runtime_start sample_second_shutdown \<and> cr_task sample_second_shutdown = Running
   \<and> ShutdownReturned False True \<in> set (cr_calls sample_second_shutdown)"
proof
  have "client_runs sample_logged_in sample_second_shutdown"
    unfolding sample_second_shutdown_def
    by (intro client_runs_snoc rtranclp.rtrancl_refl)
  with sample_logged_in_run show "client_runs client_runtime_start sample_second_shutdown" by (rule rtranclp_trans)
qed (simp add: sample_second_shutdown_def sample_logged_in_def client_runtime_eval)

end
