(* ===== verification/Desktop_Client.thy ===== *)
theory Desktop_Client
  imports Client_Runtime
begin

text \<open>
  \<open>client/src-tauri/src\<close>: the desktop client around the client runtime. \<open>instance.rs\<close> makes sure that
  one user runs one client: a process holds the instance lock while it runs, and a later one asks it
  through a file to show its window, or to make way for another build. The operating system's
  file locks and files are the shared state; processes interleave at every file operation, can
  fail at each, and can be killed at any time, which releases their locks.
\<close>

section \<open>\<open>instance.rs\<close>: requests\<close>

definition is_build_id :: "string \<Rightarrow> bool" where
  "is_build_id s = (length s = 64 \<and> list_all is_ascii_hexdigit s)"

datatype RequestAction = FocusWindow | ReplaceInstance string

definition read_instance_request :: "io_error option \<Rightarrow> string option \<Rightarrow> string \<Rightarrow> (io_error, RequestAction option) res" where
  "read_instance_request io file current_build_id =
     (case io of
        Some e \<Rightarrow> if e = NotFound then Inr None else Inl e
      | None \<Rightarrow>
          (case file of
             None \<Rightarrow> Inr None
           | Some request \<Rightarrow>
               (let build_id = trim request
                in if \<not> is_build_id build_id then Inl (OtherIo ''the build id of the request is invalid'')
                   else if build_id = current_build_id then Inr (Some FocusWindow)
                   else Inr (Some (ReplaceInstance build_id)))))"

section \<open>\<open>instance.rs\<close>: acquiring the instance\<close>

datatype instance_exit = ExitExisting | ExitFailed io_error | ExitReplaced string | ExitKilled

text \<open>
  Where a process is. \<open>Launching\<close> to \<open>FirstTry\<close> is the beginning of \<open>acquire_in\<close>, \<open>RequestLocking\<close> the
  loop of \<open>lock_until\<close>, \<open>RemovingOld\<close> to \<open>RenamingRequest\<close> is \<open>write_request\<close>, the \<open>Poll\<close> states are the
  last loop. \<open>Clearing\<close> removes the request before the process becomes primary; \<open>Monitoring\<close> and
  \<open>Acknowledging\<close> are the monitor thread of a primary instance, and \<open>Leaving\<close> is the orderly shutdown
  after \<open>application.exit\<close>, at the end of which the process gives up its lock.
\<close>

datatype instance_pc =
    Launching | Opening | FirstTry | OpeningRequest | RequestLocking | SecondTry
  | RemovingOld | WritingTemporary | RenamingRequest
  | PollLock | PollFile | PollClock | TimingOut
  | Clearing | Monitoring | Acknowledging | Leaving string
  | Exited instance_exit

text \<open>What happened, for the statements: who wrote and who removed a request, and why an instance left.\<close>

datatype instance_event = Wrote nat | Cleared nat bool | Focused nat | GaveWay nat string

record instance_state =
  in_build :: "nat \<Rightarrow> string"
  in_pc :: "nat \<Rightarrow> instance_pc"
  in_lock :: "nat option"
  in_request_lock :: "nat option"
  in_request :: "string option"
  in_temporary :: "nat \<Rightarrow> string option"
  in_log :: "instance_event list"

definition instance_goto :: "nat \<Rightarrow> instance_pc \<Rightarrow> instance_state \<Rightarrow> instance_state" where
  "instance_goto p pc s = s\<lparr>in_pc := (in_pc s)(p := pc)\<rparr>"

definition instance_log :: "instance_event \<Rightarrow> instance_state \<Rightarrow> instance_state" where
  "instance_log e s = s\<lparr>in_log := in_log s @ [e]\<rparr>"

definition drop_lock :: "nat \<Rightarrow> nat option \<Rightarrow> nat option" where
  "drop_lock p holder = (if holder = Some p then None else holder)"

text \<open>The process ends: its files are closed and with them its locks.\<close>

definition leave_instance :: "nat \<Rightarrow> instance_exit \<Rightarrow> instance_state \<Rightarrow> instance_state" where
  "leave_instance p e s =
     instance_goto p (Exited e)
       (s\<lparr>in_lock := drop_lock p (in_lock s), in_request_lock := drop_lock p (in_request_lock s)\<rparr>)"

definition instance_try_lock :: "nat \<Rightarrow> io_error option \<Rightarrow> instance_state \<Rightarrow> (io_error, bool) res \<times> instance_state" where
  "instance_try_lock p io s =
     (case io of
        Some e \<Rightarrow> (Inl e, s)
      | None \<Rightarrow> if in_lock s = None then (Inr True, s\<lparr>in_lock := Some p\<rparr>) else (Inr False, s))"

definition request_try_lock :: "nat \<Rightarrow> io_error option \<Rightarrow> instance_state \<Rightarrow> (io_error, bool) res \<times> instance_state" where
  "request_try_lock p io s =
     (case io of
        Some e \<Rightarrow> (Inl e, s)
      | None \<Rightarrow> if in_request_lock s = None then (Inr True, s\<lparr>in_request_lock := Some p\<rparr>) else (Inr False, s))"

definition remove_request :: "nat \<Rightarrow> io_error option \<Rightarrow> instance_state \<Rightarrow> (io_error, unit) res \<times> instance_state" where
  "remove_request p io s =
     (case io of
        Some e \<Rightarrow> (if e = NotFound then Inr () else Inl e, s)
      | None \<Rightarrow>
          (Inr (), if in_request s = None then s
                   else instance_log (Cleared p (in_lock s = Some p)) (s\<lparr>in_request := None\<rparr>)))"

text \<open>One operation that sends the process to its exit when it fails.\<close>

definition or_exit :: "nat \<Rightarrow> (io_error, 'a) res \<times> instance_state \<Rightarrow> ('a \<Rightarrow> instance_state \<Rightarrow> instance_state) \<Rightarrow> instance_state" where
  "or_exit p r f = (case r of (Inl e, s) \<Rightarrow> leave_instance p (ExitFailed e) s | (Inr x, s) \<Rightarrow> f x s)"

definition plain_op :: "io_error option \<Rightarrow> instance_state \<Rightarrow> (io_error, unit) res \<times> instance_state" where
  "plain_op io s = (case io of Some e \<Rightarrow> (Inl e, s) | None \<Rightarrow> (Inr (), s))"

text \<open>\<open>lock_until\<close>: one turn of its loop.\<close>

definition lock_until_step :: "nat \<Rightarrow> io_error option \<Rightarrow> bool \<Rightarrow> instance_state \<Rightarrow> instance_state" where
  "lock_until_step p io late s =
     or_exit p (request_try_lock p io s) (\<lambda>locked s.
       if locked then instance_goto p SecondTry s
       else if late then leave_instance p (ExitFailed (OtherIo ''timed out waiting for the request lock'')) s
       else s)"

text \<open>
  \<open>write_request\<close>: the old request is removed, the new one written to a temporary file and renamed. A
  failed or interrupted write leaves a temporary file that nobody reads.
\<close>

definition write_request_step :: "nat \<Rightarrow> io_error option \<Rightarrow> instance_state \<Rightarrow> instance_state" where
  "write_request_step p io s =
     (case in_pc s p of
        RemovingOld \<Rightarrow> or_exit p (remove_request p io s) (\<lambda>_. instance_goto p WritingTemporary)
      | WritingTemporary \<Rightarrow>
          or_exit p (plain_op io s) (\<lambda>_ s.
            instance_goto p RenamingRequest (s\<lparr>in_temporary := (in_temporary s)(p := Some (in_build s p))\<rparr>))
      | RenamingRequest \<Rightarrow>
          (case io of
             Some e \<Rightarrow> leave_instance p (ExitFailed e) (s\<lparr>in_temporary := (in_temporary s)(p := None)\<rparr>)
           | None \<Rightarrow>
               instance_goto p PollLock (instance_log (Wrote p)
                 (s\<lparr>in_request := in_temporary s p, in_temporary := (in_temporary s)(p := None)\<rparr>)))
      | _ \<Rightarrow> s)"

text \<open>\<open>acquire_in\<close>: one step of the process \<open>p\<close>; \<open>io\<close> is the failure of its operation, \<open>late\<close> what the clock says.\<close>

definition acquire_in_step :: "nat \<Rightarrow> io_error option \<Rightarrow> bool \<Rightarrow> instance_state \<Rightarrow> instance_state" where
  "acquire_in_step p io late s =
     (case in_pc s p of
        Launching \<Rightarrow>
          if is_build_id (in_build s p) then instance_goto p Opening s
          else leave_instance p (ExitFailed (OtherIo ''the build id is invalid'')) s
      | Opening \<Rightarrow> or_exit p (plain_op io s) (\<lambda>_. instance_goto p FirstTry)
      | FirstTry \<Rightarrow>
          or_exit p (instance_try_lock p io s) (\<lambda>locked. instance_goto p (if locked then Clearing else OpeningRequest))
      | OpeningRequest \<Rightarrow> or_exit p (plain_op io s) (\<lambda>_. instance_goto p RequestLocking)
      | RequestLocking \<Rightarrow> lock_until_step p io late s
      | SecondTry \<Rightarrow>
          or_exit p (instance_try_lock p io s) (\<lambda>locked. instance_goto p (if locked then Clearing else RemovingOld))
      | RemovingOld \<Rightarrow> write_request_step p io s
      | WritingTemporary \<Rightarrow> write_request_step p io s
      | RenamingRequest \<Rightarrow> write_request_step p io s
      | PollLock \<Rightarrow>
          or_exit p (instance_try_lock p io s) (\<lambda>locked. instance_goto p (if locked then Clearing else PollFile))
      | PollFile \<Rightarrow>
          or_exit p (plain_op io s) (\<lambda>_ s.
            if in_request s = None then leave_instance p ExitExisting s else instance_goto p PollClock s)
      | PollClock \<Rightarrow> instance_goto p (if late then TimingOut else PollLock) s
      | TimingOut \<Rightarrow>
          or_exit p (remove_request p io s) (\<lambda>_. leave_instance p (ExitFailed (OtherIo ''timed out waiting for the old build'')))
      | Clearing \<Rightarrow>
          or_exit p (remove_request p io s) (\<lambda>_ s.
            instance_goto p Monitoring (s\<lparr>in_request_lock := drop_lock p (in_request_lock s)\<rparr>))
      | _ \<Rightarrow> s)"

text \<open>\<open>monitor_requests\<close> and \<open>process_request\<close>: one look at the request file.\<close>

definition process_request_step :: "nat \<Rightarrow> io_error option \<Rightarrow> instance_state \<Rightarrow> instance_state" where
  "process_request_step p io s =
     (case in_pc s p of
        Monitoring \<Rightarrow>
          (case read_instance_request io (in_request s) (in_build s p) of
             Inr None \<Rightarrow> s
           | Inr (Some FocusWindow) \<Rightarrow> instance_goto p Acknowledging (instance_log (Focused p) s)
           | Inr (Some (ReplaceInstance b)) \<Rightarrow> instance_goto p (Leaving b) (instance_log (GaveWay p b) s)
           | Inl _ \<Rightarrow> instance_goto p Acknowledging s)
      | Acknowledging \<Rightarrow> instance_goto p Monitoring (snd (remove_request p io s))
      | Leaving b \<Rightarrow> leave_instance p (ExitReplaced b) s
      | _ \<Rightarrow> s)"

definition is_primary :: "instance_pc \<Rightarrow> bool" where
  "is_primary pc = (case pc of Clearing \<Rightarrow> True | Monitoring \<Rightarrow> True | Acknowledging \<Rightarrow> True | Leaving _ \<Rightarrow> True | _ \<Rightarrow> False)"

datatype instance_action = RunInstance nat "io_error option" bool | KillInstance nat

fun instance_act :: "instance_action \<Rightarrow> instance_state \<Rightarrow> instance_state" where
  "instance_act (RunInstance p io late) s =
     (if is_primary (in_pc s p) \<and> in_pc s p \<noteq> Clearing then process_request_step p io s else acquire_in_step p io late s)"
| "instance_act (KillInstance p) s = (case in_pc s p of Exited _ \<Rightarrow> s | _ \<Rightarrow> leave_instance p ExitKilled s)"

definition instance_start :: "(nat \<Rightarrow> string) \<Rightarrow> instance_state" where
  "instance_start builds =
     \<lparr>in_build = builds, in_pc = (\<lambda>_. Launching), in_lock = None, in_request_lock = None, in_request = None,
      in_temporary = (\<lambda>_. None), in_log = []\<rparr>"

inductive instance_reachable :: "(nat \<Rightarrow> string) \<Rightarrow> instance_state \<Rightarrow> bool" for builds where
  launched: "instance_reachable builds (instance_start builds)"
| acted: "instance_reachable builds s \<Longrightarrow> instance_reachable builds (instance_act a s)"

section \<open>\<open>instance.rs\<close>: the invariant\<close>

definition is_requesting :: "instance_pc \<Rightarrow> bool" where
  "is_requesting pc = (pc \<in> {SecondTry, RemovingOld, WritingTemporary, RenamingRequest, PollLock, PollFile, PollClock, TimingOut})"

definition is_polling :: "instance_pc \<Rightarrow> bool" where
  "is_polling pc = (pc \<in> {PollLock, PollFile, PollClock, TimingOut})"

text \<open>The request of \<open>q\<close> was written and then removed by another process that held the instance lock.\<close>

definition answered :: "instance_event list \<Rightarrow> nat \<Rightarrow> bool" where
  "answered log q = (\<exists>pre post r. log = pre @ Wrote q # post \<and> r \<noteq> q \<and> Cleared r True \<in> set post)"

definition locks_ok :: "instance_state \<Rightarrow> bool" where
  "locks_ok s =
     ((\<forall>q. is_primary (in_pc s q) \<longleftrightarrow> in_lock s = Some q)
      \<and> (\<forall>q. is_requesting (in_pc s q) \<longrightarrow> in_request_lock s = Some q))"

definition builds_ok :: "instance_state \<Rightarrow> bool" where
  "builds_ok s =
     ((\<forall>q. is_requesting (in_pc s q) \<or> in_pc s q \<in> {Opening, FirstTry, OpeningRequest, RequestLocking} \<longrightarrow> is_build_id (in_build s q))
      \<and> (\<forall>q. in_pc s q = RenamingRequest \<longrightarrow> in_temporary s q = Some (in_build s q)))"

definition request_ok :: "instance_state \<Rightarrow> bool" where
  "request_ok s = (\<forall>b. in_request s = Some b \<longrightarrow> is_build_id b \<and> (\<exists>r. Wrote r \<in> set (in_log s) \<and> in_build s r = b))"

definition poll_ok :: "instance_state \<Rightarrow> nat \<Rightarrow> bool" where
  "poll_ok s q =
     (Wrote q \<in> set (in_log s)
      \<and> (if in_request s = None then answered (in_log s) q else in_request s = Some (in_build s q)))"

definition polls_ok :: "nat set \<Rightarrow> instance_state \<Rightarrow> bool" where
  "polls_ok X s = (\<forall>q. is_polling (in_pc s q) \<and> q \<notin> X \<longrightarrow> poll_ok s q)"

definition exits_ok :: "instance_state \<Rightarrow> bool" where
  "exits_ok s =
     ((\<forall>q. in_pc s q = Exited ExitExisting \<longrightarrow> answered (in_log s) q)
      \<and> (\<forall>q b. GaveWay q b \<in> set (in_log s) \<longrightarrow> b \<noteq> in_build s q \<and> (\<exists>r. Wrote r \<in> set (in_log s) \<and> in_build s r = b)))"

definition instance_inv :: "nat set \<Rightarrow> instance_state \<Rightarrow> bool" where
  "instance_inv X s = (locks_ok s \<and> builds_ok s \<and> request_ok s \<and> polls_ok X s \<and> exits_ok s)"

lemma instance_invD:
  assumes "instance_inv X s"
  shows "locks_ok s" "builds_ok s" "request_ok s" "polls_ok X s" "exits_ok s"
  using assms by (simp_all add: instance_inv_def)

lemma primary_simps [simp]:
  "is_primary Clearing" "is_primary Monitoring" "is_primary Acknowledging" "is_primary (Leaving b)"
  "\<not> is_primary Launching" "\<not> is_primary Opening" "\<not> is_primary FirstTry" "\<not> is_primary OpeningRequest" "\<not> is_primary RequestLocking"
  "\<not> is_primary SecondTry" "\<not> is_primary RemovingOld" "\<not> is_primary WritingTemporary" "\<not> is_primary RenamingRequest"
  "\<not> is_primary PollLock" "\<not> is_primary PollFile" "\<not> is_primary PollClock" "\<not> is_primary TimingOut" "\<not> is_primary (Exited e)"
  by (simp_all add: is_primary_def)

lemma polling_requests: "is_polling pc \<Longrightarrow> is_requesting pc"
  by (auto simp: is_polling_def is_requesting_def)

lemma answered_append:
  assumes "answered log q"
  shows "answered (log @ es) q"
proof -
  from assms obtain pre post r where "log = pre @ Wrote q # post" "r \<noteq> q" "Cleared r True \<in> set post"
    unfolding answered_def by blast
  then show ?thesis unfolding answered_def by (intro exI[of _ pre] exI[of _ "post @ es"] exI[of _ r]) simp
qed

lemma answered_cleared:
  assumes "Wrote q \<in> set log" "r \<noteq> q"
  shows "answered (log @ [Cleared r True]) q"
proof -
  from assms(1) obtain pre post where "log = pre @ Wrote q # post" by (metis split_list)
  with assms(2) show ?thesis unfolding answered_def
    by (intro exI[of _ pre] exI[of _ "post @ [Cleared r True]"] exI[of _ r]) simp
qed

lemma requester_unique:
  "instance_inv X s \<Longrightarrow> is_requesting (in_pc s p) \<Longrightarrow> is_requesting (in_pc s q) \<Longrightarrow> q = p"
  unfolding instance_inv_def locks_ok_def by (metis option.inject)

lemma instance_goto_inv:
  assumes "instance_inv X s" "is_primary pc = is_primary (in_pc s p)" "is_requesting pc \<Longrightarrow> in_request_lock s = Some p"
    and "is_requesting pc \<or> pc \<in> {Opening, FirstTry, OpeningRequest, RequestLocking} \<Longrightarrow> is_build_id (in_build s p)"
    and "pc = RenamingRequest \<Longrightarrow> in_temporary s p = Some (in_build s p)"
    and "is_polling pc \<Longrightarrow> is_polling (in_pc s p) \<and> p \<notin> X" "pc \<noteq> Exited ExitExisting"
    and "\<And>q. q \<in> X \<Longrightarrow> q = p"
  shows "instance_inv {} (instance_goto p pc s)"
proof -
  note I = instance_invD[OF assms(1)]
  have "is_primary (in_pc (instance_goto p pc s) q) \<longleftrightarrow> in_lock (instance_goto p pc s) = Some q"
    "is_requesting (in_pc (instance_goto p pc s) q) \<Longrightarrow> in_request_lock (instance_goto p pc s) = Some q" for q
    using I(1) assms(2,3) by (cases "q = p"; simp add: locks_ok_def instance_goto_def)+
  then have "locks_ok (instance_goto p pc s)" by (simp add: locks_ok_def)
  moreover have "builds_ok (instance_goto p pc s)" using I(2) assms(4,5) by (simp add: builds_ok_def instance_goto_def)
  moreover have "request_ok (instance_goto p pc s)" using I(3) by (simp add: request_ok_def instance_goto_def)
  moreover have "poll_ok (instance_goto p pc s) q" if "is_polling (in_pc (instance_goto p pc s) q)" for q
  proof -
    have "is_polling (in_pc s q) \<and> q \<notin> X" using that assms(6,8) by (cases "q = p") (auto simp: instance_goto_def)
    with I(4) show ?thesis by (simp add: polls_ok_def poll_ok_def instance_goto_def)
  qed
  then have "polls_ok {} (instance_goto p pc s)" by (simp add: polls_ok_def)
  moreover have "exits_ok (instance_goto p pc s)" using I(5) assms(7) by (simp add: exits_ok_def instance_goto_def)
  ultimately show ?thesis by (simp add: instance_inv_def)
qed

lemma inv_leave:
  assumes "instance_inv X s" "e = ExitExisting \<Longrightarrow> answered (in_log s) p" "\<And>q. q \<in> X \<Longrightarrow> q = p"
  shows "instance_inv {} (leave_instance p e s)"
proof -
  let ?s = "leave_instance p e s"
  have pc: "is_requesting (Exited e) = False" "is_polling (Exited e) = False" by (simp_all add: is_requesting_def is_polling_def)
  note I = instance_invD[OF assms(1)]
  have "is_primary (in_pc ?s q) \<longleftrightarrow> in_lock ?s = Some q" "is_requesting (in_pc ?s q) \<Longrightarrow> in_request_lock ?s = Some q" for q
    using I(1) by (cases "q = p"; simp add: locks_ok_def leave_instance_def instance_goto_def drop_lock_def pc)+
  then have "locks_ok ?s" by (simp add: locks_ok_def)
  moreover have "builds_ok ?s" using I(2) by (simp add: builds_ok_def leave_instance_def instance_goto_def pc)
  moreover have "request_ok ?s" using I(3) by (simp add: request_ok_def leave_instance_def instance_goto_def)
  moreover have "poll_ok ?s q" if "is_polling (in_pc ?s q)" for q
  proof -
    have "is_polling (in_pc s q) \<and> q \<notin> X" using that assms(3) by (cases "q = p") (auto simp: leave_instance_def instance_goto_def pc)
    with I(4) show ?thesis by (simp add: polls_ok_def poll_ok_def leave_instance_def instance_goto_def)
  qed
  then have "polls_ok {} ?s" by (simp add: polls_ok_def)
  moreover have "exits_ok ?s" using I(5) assms(2) by (simp add: exits_ok_def leave_instance_def instance_goto_def)
  ultimately show ?thesis by (simp add: instance_inv_def)
qed

lemma inv_remove:
  assumes "instance_inv {} s" "remove_request p io s = (r, s')" "is_primary (in_pc s p) \<or> is_requesting (in_pc s p)"
  shows "instance_inv {p} s' \<and> in_pc s' = in_pc s \<and> in_build s' = in_build s \<and> in_request_lock s' = in_request_lock s \<and> in_temporary s' = in_temporary s"
proof (cases "s' = s")
  case True
  with assms(1) show ?thesis by (auto simp: instance_inv_def polls_ok_def)
next
  case False
  with assms(2) have s': "s' = instance_log (Cleared p (in_lock s = Some p)) (s\<lparr>in_request := None\<rparr>)"
    by (auto simp: remove_request_def split: option.splits if_splits)
  have "answered (in_log s') q" if "is_polling (in_pc s q)" "q \<noteq> p" for q
  proof -
    have "\<not> is_requesting (in_pc s p)" using requester_unique[OF assms(1)] polling_requests that by blast
    with assms(1,3) have "in_lock s = Some p" by (auto simp: instance_inv_def locks_ok_def)
    moreover have "Wrote q \<in> set (in_log s)" using assms(1) that by (simp add: instance_inv_def polls_ok_def poll_ok_def)
    ultimately show ?thesis using that(2) by (simp add: s' instance_log_def answered_cleared)
  qed
  then have "polls_ok {p} s'" using assms(1) by (simp add: s' instance_inv_def polls_ok_def poll_ok_def instance_log_def)
  moreover have "locks_ok s' \<and> builds_ok s' \<and> request_ok s'"
    using assms(1) by (simp add: s' instance_inv_def locks_ok_def builds_ok_def request_ok_def instance_log_def)
  moreover have "exits_ok s'"
    using assms(1) by (auto simp: s' instance_inv_def exits_ok_def instance_log_def answered_append)
  ultimately show ?thesis by (simp add: instance_inv_def s' instance_log_def)
qed

lemma not_holding: "\<not> is_requesting Clearing" "\<not> is_polling Clearing" "\<not> is_requesting Monitoring" "\<not> is_polling Monitoring"
  "\<not> is_polling SecondTry" "is_requesting SecondTry" "\<not> is_polling RenamingRequest"
  by (simp_all add: is_requesting_def is_polling_def)

lemma inv_take_lock:
  assumes "instance_inv {} s" "in_lock s = None"
  shows "instance_inv {} (instance_goto p Clearing (s\<lparr>in_lock := Some p\<rparr>))"
proof -
  let ?s = "instance_goto p Clearing (s\<lparr>in_lock := Some p\<rparr>)"
  note I = instance_invD[OF assms(1)]
  have "is_primary (in_pc ?s q) \<longleftrightarrow> in_lock ?s = Some q" "is_requesting (in_pc ?s q) \<Longrightarrow> in_request_lock ?s = Some q" for q
    using I(1) assms(2) by (cases "q = p"; simp add: locks_ok_def instance_goto_def not_holding)+
  then have "locks_ok ?s" by (simp add: locks_ok_def)
  moreover have "builds_ok ?s" using I(2) by (simp add: builds_ok_def instance_goto_def not_holding)
  moreover have "request_ok ?s" using I(3) by (simp add: request_ok_def instance_goto_def)
  moreover have "polls_ok {} ?s" using I(4) by (simp add: polls_ok_def poll_ok_def instance_goto_def not_holding)
  moreover have "exits_ok ?s" using I(5) by (simp add: exits_ok_def instance_goto_def)
  ultimately show ?thesis by (simp add: instance_inv_def)
qed

lemma inv_take_request_lock:
  assumes "instance_inv {} s" "in_request_lock s = None" "in_pc s p = RequestLocking"
  shows "instance_inv {} (instance_goto p SecondTry (s\<lparr>in_request_lock := Some p\<rparr>))"
proof -
  let ?s = "instance_goto p SecondTry (s\<lparr>in_request_lock := Some p\<rparr>)"
  note I = instance_invD[OF assms(1)]
  have lock: "in_lock s \<noteq> Some p" using I(1) assms(3) by (metis locks_ok_def primary_simps(9))
  have "is_primary (in_pc ?s q) \<longleftrightarrow> in_lock ?s = Some q" "is_requesting (in_pc ?s q) \<Longrightarrow> in_request_lock ?s = Some q" for q
    using I(1) assms(2) lock by (cases "q = p"; simp add: locks_ok_def instance_goto_def)+
  then have "locks_ok ?s" by (simp add: locks_ok_def)
  moreover have "builds_ok ?s" using I(2) assms(3) by (simp add: builds_ok_def instance_goto_def)
  moreover have "request_ok ?s" using I(3) by (simp add: request_ok_def instance_goto_def)
  moreover have "polls_ok {} ?s" using I(4) by (simp add: polls_ok_def poll_ok_def instance_goto_def not_holding)
  moreover have "exits_ok ?s" using I(5) by (simp add: exits_ok_def instance_goto_def)
  ultimately show ?thesis by (simp add: instance_inv_def)
qed

lemma inv_temporary:
  assumes "instance_inv X s" "in_pc s p \<noteq> RenamingRequest"
  shows "instance_inv X (s\<lparr>in_temporary := (in_temporary s)(p := t)\<rparr>)"
  using assms by (auto simp: instance_inv_def locks_ok_def builds_ok_def request_ok_def polls_ok_def poll_ok_def exits_ok_def)

lemma inv_rename:
  assumes "instance_inv {} s" "in_pc s p = RenamingRequest"
  shows "instance_inv {} (instance_goto p PollLock (instance_log (Wrote p)
           (s\<lparr>in_request := in_temporary s p, in_temporary := (in_temporary s)(p := None)\<rparr>)))" (is "instance_inv {} ?s")
proof -
  note I = instance_invD[OF assms(1)]
  have p: "is_requesting (in_pc s p)" "in_temporary s p = Some (in_build s p)" "is_build_id (in_build s p)"
    using I(2) assms(2) by (simp_all add: builds_ok_def is_requesting_def)
  have lock: "in_lock s \<noteq> Some p" using I(1) assms(2) by (metis locks_ok_def primary_simps(13))
  have other: "\<not> is_polling (in_pc s q)" if "q \<noteq> p" for q
    using requester_unique[OF assms(1) p(1)] polling_requests that by blast
  have "is_primary (in_pc ?s q) \<longleftrightarrow> in_lock ?s = Some q" "is_requesting (in_pc ?s q) \<Longrightarrow> in_request_lock ?s = Some q" for q
    using I(1) p(1) lock by (cases "q = p"; simp add: locks_ok_def instance_goto_def instance_log_def)+
  then have "locks_ok ?s" by (simp add: locks_ok_def)
  moreover have "builds_ok ?s" using I(2) p(3) by (simp add: builds_ok_def instance_goto_def instance_log_def)
  moreover have "request_ok ?s" using p(2,3) by (auto simp: request_ok_def instance_goto_def instance_log_def)
  moreover have "polls_ok {} ?s" using other p(2) by (auto simp: polls_ok_def poll_ok_def instance_goto_def instance_log_def)
  moreover have "exits_ok ?s"
    using I(5) by (auto simp: exits_ok_def instance_goto_def instance_log_def answered_append) blast
  ultimately show ?thesis by (simp add: instance_inv_def)
qed

lemma inv_request_unlock:
  assumes "instance_inv X s" "\<not> is_requesting (in_pc s p)"
  shows "instance_inv X (s\<lparr>in_request_lock := drop_lock p (in_request_lock s)\<rparr>)"
proof -
  note I = instance_invD[OF assms(1)]
  have "is_requesting (in_pc s q) \<Longrightarrow> drop_lock p (in_request_lock s) = Some q" for q
    using I(1) assms(2) by (cases "q = p"; simp add: locks_ok_def drop_lock_def)
  then have "locks_ok (s\<lparr>in_request_lock := drop_lock p (in_request_lock s)\<rparr>)" using I(1) by (simp add: locks_ok_def)
  with I(2-) show ?thesis by (simp add: instance_inv_def builds_ok_def request_ok_def polls_ok_def poll_ok_def exits_ok_def)
qed

lemma inv_log:
  assumes "instance_inv X s" "\<And>q b. e = GaveWay q b \<Longrightarrow> b \<noteq> in_build s q \<and> (\<exists>r. Wrote r \<in> set (in_log s) \<and> in_build s r = b)"
  shows "instance_inv X (instance_log e s)"
proof -
  note I = instance_invD[OF assms(1)]
  have "poll_ok (instance_log e s) q" if "poll_ok s q" for q
    using that by (auto simp: poll_ok_def instance_log_def answered_append)
  then have "polls_ok X (instance_log e s)" using I(4) by (simp add: polls_ok_def instance_log_def)
  moreover have "locks_ok (instance_log e s)" "builds_ok (instance_log e s)" using I(1,2) by (simp_all add: locks_ok_def builds_ok_def instance_log_def)
  moreover have "request_ok (instance_log e s)" using I(3) by (auto simp: request_ok_def instance_log_def)
  moreover have "exits_ok (instance_log e s)"
    using I(5) assms(2) by (auto simp: exits_ok_def instance_log_def answered_append) blast
  ultimately show ?thesis by (simp add: instance_inv_def)
qed

lemma inv_or_exit:
  assumes "\<And>e t. r = (Inl e, t) \<Longrightarrow> \<exists>X. instance_inv X t \<and> (\<forall>q \<in> X. q = p)" "\<And>x t. r = (Inr x, t) \<Longrightarrow> instance_inv {} (f x t)"
  shows "instance_inv {} (or_exit p r f)"
proof (cases r)
  case (Pair x t)
  then show ?thesis using assms by (cases x) (auto simp: or_exit_def intro: inv_leave)
qed

lemma inv_plain:
  assumes "instance_inv {} s" "instance_inv {} (f () s)"
  shows "instance_inv {} (or_exit p (plain_op io s) f)"
  by (rule inv_or_exit) (use assms in \<open>auto simp: plain_op_def split: option.splits\<close>)

lemma inv_try:
  assumes "instance_inv {} s" "instance_inv {} (instance_goto p pc s)"
  shows "instance_inv {} (or_exit p (instance_try_lock p io s) (\<lambda>locked. instance_goto p (if locked then Clearing else pc)))"
  by (rule inv_or_exit) (use assms inv_take_lock in \<open>auto simp: instance_try_lock_def split: option.splits if_splits\<close>)

lemma inv_after_remove:
  assumes "instance_inv {} s" "is_primary (in_pc s p) \<or> is_requesting (in_pc s p)"
    and "\<And>t. instance_inv {p} t \<Longrightarrow> in_pc t = in_pc s \<Longrightarrow> in_build t = in_build s \<Longrightarrow> in_request_lock t = in_request_lock s
      \<Longrightarrow> instance_inv {} (f () t)"
  shows "instance_inv {} (or_exit p (remove_request p io s) f)"
proof (rule inv_or_exit)
  fix e t
  assume "remove_request p io s = (Inl e, t)"
  from inv_remove[OF assms(1) this assms(2)] show "\<exists>X. instance_inv X t \<and> (\<forall>q \<in> X. q = p)"
    by (intro exI[of _ "{p}"]) simp
next
  fix x t
  assume "remove_request p io s = (Inr x, t)"
  from inv_remove[OF assms(1) this assms(2)] assms(3)[of t] show "instance_inv {} (f x t)" by simp
qed

lemma acquire_inv:
  assumes "instance_inv {} s"
  shows "instance_inv {} (acquire_in_step p io late s)"
proof -
  note I = instance_invD[OF assms]
  have req: "in_request_lock s = Some p" if "is_requesting (in_pc s p)" using I(1) that by (simp add: locks_ok_def)
  have build: "is_build_id (in_build s p)"
    if "is_requesting (in_pc s p) \<or> in_pc s p \<in> {Opening, FirstTry, OpeningRequest, RequestLocking}"
    using I(2) that unfolding builds_ok_def by blast
  note sets = is_requesting_def is_polling_def
  show ?thesis
  proof (cases "in_pc s p")
    case Launching
    then show ?thesis unfolding acquire_in_step_def
      by (auto simp: sets intro!: instance_goto_inv[OF assms] inv_leave[OF assms])
  next
    case Opening
    then show ?thesis unfolding acquire_in_step_def
      by (auto simp: sets intro!: inv_plain[OF assms] instance_goto_inv[OF assms] build)
  next
    case FirstTry
    then show ?thesis unfolding acquire_in_step_def
      by (auto simp: sets intro!: inv_try[OF assms] instance_goto_inv[OF assms] build)
  next
    case OpeningRequest
    then show ?thesis unfolding acquire_in_step_def
      by (auto simp: sets intro!: inv_plain[OF assms] instance_goto_inv[OF assms] build)
  next
    case RequestLocking
    show ?thesis unfolding acquire_in_step_def RequestLocking instance_pc.case lock_until_step_def
      by (rule inv_or_exit) (use assms inv_take_request_lock[OF assms _ RequestLocking] inv_leave[OF assms] in
          \<open>auto simp: request_try_lock_def split: option.splits if_splits\<close>)
  next
    case SecondTry
    then show ?thesis unfolding acquire_in_step_def
      by (auto simp: sets intro!: inv_try[OF assms] instance_goto_inv[OF assms] build req)
  next
    case RemovingOld
    then show ?thesis unfolding acquire_in_step_def write_request_step_def
      by (auto simp: sets req build intro!: inv_after_remove[OF assms] instance_goto_inv)
  next
    case WritingTemporary
    then show ?thesis unfolding acquire_in_step_def write_request_step_def
      by (auto simp: sets intro!: inv_plain[OF assms] instance_goto_inv[OF inv_temporary[OF assms]] build req)
  next
    case RenamingRequest
    show ?thesis
    proof (cases io)
      case None
      with inv_rename[OF assms RenamingRequest] RenamingRequest show ?thesis by (simp add: acquire_in_step_def write_request_step_def)
    next
      case (Some e)
      have swap: "leave_instance p x (s\<lparr>in_temporary := t\<rparr>) = (leave_instance p x s)\<lparr>in_temporary := t\<rparr>" for x t
        by (simp add: leave_instance_def instance_goto_def)
      have "instance_inv {} (leave_instance p (ExitFailed e) s)" by (rule inv_leave[OF assms]) simp_all
      then have "instance_inv {} ((leave_instance p (ExitFailed e) s)\<lparr>in_temporary := (in_temporary (leave_instance p (ExitFailed e) s))(p := None)\<rparr>)"
        by (rule inv_temporary) (simp add: leave_instance_def instance_goto_def)
      then show ?thesis using Some RenamingRequest
        by (simp add: acquire_in_step_def write_request_step_def swap) (simp add: leave_instance_def instance_goto_def)
    qed
  next
    case PollLock
    then show ?thesis unfolding acquire_in_step_def
      by (auto simp: sets intro!: inv_try[OF assms] instance_goto_inv[OF assms] build req)
  next
    case PollFile
    have "answered (in_log s) p" if "in_request s = None"
      using I(4) PollFile that by (simp add: polls_ok_def poll_ok_def is_polling_def)
    then show ?thesis using PollFile unfolding acquire_in_step_def
      by (auto simp: sets intro!: inv_plain[OF assms] instance_goto_inv[OF assms] inv_leave[OF assms] build req)
  next
    case PollClock
    then show ?thesis unfolding acquire_in_step_def
      by (auto simp: sets intro!: instance_goto_inv[OF assms] build req)
  next
    case TimingOut
    then show ?thesis unfolding acquire_in_step_def
      by (auto simp: sets intro!: inv_after_remove[OF assms] inv_leave)
  next
    case Clearing
    then show ?thesis unfolding acquire_in_step_def
      by (auto simp: sets intro!: inv_after_remove[OF assms] instance_goto_inv[OF inv_request_unlock])
  qed (use assms in \<open>simp_all add: acquire_in_step_def\<close>)
qed

lemma trim_build_id:
  assumes "is_build_id b"
  shows "trim b = b"
proof (rule trim_id)
  have "list_all (\<lambda>c. \<not> is_ascii_hexdigit c) (concat white_space)" by code_simp
  then show "set b \<inter> ws_bytes = {}" using assms by (auto simp: is_build_id_def ws_bytes_def list_all_iff)
qed

lemma read_request_replace:
  assumes "request_ok s" "read_instance_request io (in_request s) build = Inr (Some (ReplaceInstance b))"
  shows "b \<noteq> build \<and> (\<exists>r. Wrote r \<in> set (in_log s) \<and> in_build s r = b)"
proof -
  from assms(2) obtain c where c: "in_request s = Some c" "b = trim c" "b \<noteq> build"
    by (auto simp: read_instance_request_def Let_def split: option.splits if_splits)
  with assms(1) have "is_build_id c" "\<exists>r. Wrote r \<in> set (in_log s) \<and> in_build s r = c" by (simp_all add: request_ok_def)
  with c show ?thesis by (simp add: trim_build_id)
qed

lemma process_inv:
  assumes "instance_inv {} s"
  shows "instance_inv {} (process_request_step p io s)"
proof -
  note I = instance_invD[OF assms]
  note sets = is_requesting_def is_polling_def
  show ?thesis
  proof (cases "in_pc s p")
    case Monitoring
    consider (none) "read_instance_request io (in_request s) (in_build s p) = Inr None"
      | (focus) "read_instance_request io (in_request s) (in_build s p) = Inr (Some FocusWindow)"
      | (replace) b where "read_instance_request io (in_request s) (in_build s p) = Inr (Some (ReplaceInstance b))"
      | (bad) e where "read_instance_request io (in_request s) (in_build s p) = Inl e"
      by (metis RequestAction.exhaust not_None_eq sum.exhaust)
    then show ?thesis
    proof cases
      case none
      with assms Monitoring show ?thesis by (simp add: process_request_step_def)
    next
      case focus
      have "instance_inv {} (instance_goto p Acknowledging (instance_log (Focused p) s))"
        using Monitoring by (intro instance_goto_inv[OF inv_log[OF assms]]) (simp_all add: sets instance_log_def)
      with focus Monitoring show ?thesis by (simp add: process_request_step_def)
    next
      case replace
      have "instance_inv {} (instance_log (GaveWay p b) s)"
        using read_request_replace[OF I(3) replace] by (intro inv_log[OF assms]) simp
      then have "instance_inv {} (instance_goto p (Leaving b) (instance_log (GaveWay p b) s))"
        using Monitoring by (intro instance_goto_inv[where X = "{}"]) (simp_all add: sets instance_log_def)
      with replace Monitoring show ?thesis by (simp add: process_request_step_def)
    next
      case bad
      have "instance_inv {} (instance_goto p Acknowledging s)"
        using Monitoring by (intro instance_goto_inv[OF assms]) (simp_all add: sets)
      with bad Monitoring show ?thesis by (simp add: process_request_step_def)
    qed
  next
    case Acknowledging
    obtain r t where r: "remove_request p io s = (r, t)" by fastforce
    with inv_remove[OF assms r] Acknowledging have "instance_inv {} (instance_goto p Monitoring t)"
      by (intro instance_goto_inv[of "{p}"]) (auto simp: sets)
    with r Acknowledging show ?thesis by (simp add: process_request_step_def)
  next
    case (Leaving b)
    with inv_leave[OF assms, of "ExitReplaced b" p] show ?thesis by (simp add: process_request_step_def)
  qed (use assms in \<open>simp_all add: process_request_step_def\<close>)
qed

lemma build_simps [simp]:
  "in_build (instance_goto p pc s) = in_build s" "in_build (leave_instance p e s) = in_build s" "in_build (instance_log ev s) = in_build s"
  "in_build (snd (instance_try_lock p io s)) = in_build s" "in_build (snd (request_try_lock p io s)) = in_build s"
  "in_build (snd (remove_request p io s)) = in_build s" "in_build (snd (plain_op io s)) = in_build s"
  by (simp_all add: instance_goto_def leave_instance_def instance_log_def instance_try_lock_def request_try_lock_def
      remove_request_def plain_op_def split: option.split)

lemma build_or_exit:
  assumes "in_build (snd r) = B" "\<And>x t. in_build (f x t) = in_build t"
  shows "in_build (or_exit p r f) = B"
proof (cases r)
  case (Pair x t)
  with assms show ?thesis by (cases x) (simp_all add: or_exit_def)
qed

lemma build_act: "in_build (instance_act a s) = in_build s"
proof (cases a)
  case (RunInstance p io late)
  have "in_build (acquire_in_step p io late s) = in_build s"
    by (cases "in_pc s p") (auto simp: acquire_in_step_def write_request_step_def lock_until_step_def intro!: build_or_exit split: option.split)
  moreover have "in_build (process_request_step p io s) = in_build s"
    by (cases "in_pc s p") (auto simp: process_request_step_def split: option.split sum.split RequestAction.split)
  ultimately show ?thesis using RunInstance by simp
next
  case (KillInstance p)
  then show ?thesis by (simp split: instance_pc.split)
qed

lemma instance_reachable_inv: "instance_reachable builds s \<Longrightarrow> instance_inv {} s \<and> in_build s = builds"
proof (induction rule: instance_reachable.induct)
  case launched
  show ?case
    by (simp add: instance_start_def instance_inv_def locks_ok_def builds_ok_def request_ok_def polls_ok_def exits_ok_def
        is_requesting_def is_polling_def)
next
  case (acted s a)
  have "in_build (instance_act a s) = in_build s" by (rule build_act)
  moreover have "instance_inv {} (instance_act a s)"
    using acted.IH acquire_inv process_inv inv_leave[of "{}" s ExitKilled]
    by (cases a) (auto split: instance_pc.splits)
  ultimately show ?case using acted.IH by simp
qed


text \<open>An old build runs, a new one starts, asks it to leave and becomes the primary instance.\<close>

definition sample_builds :: "nat \<Rightarrow> string" where
  "sample_builds p = replicate 64 (if p = 2 then CHR ''b'' else CHR ''a'')"

definition instance_run :: "instance_action list \<Rightarrow> instance_state \<Rightarrow> instance_state" where
  "instance_run acts s = fold instance_act acts s"

abbreviation instance_turns :: "nat \<Rightarrow> nat \<Rightarrow> instance_action list" where
  "instance_turns n p \<equiv> replicate n (RunInstance p None False)"

lemma instance_run_reachable:
  assumes "instance_reachable builds s"
  shows "instance_reachable builds (instance_run acts s)"
  using assms unfolding instance_run_def by (induction acts arbitrary: s) (auto intro: instance_reachable.acted)

definition sample_handover :: instance_state where
  "sample_handover =
     instance_run (instance_turns 4 0 @ instance_turns 9 2 @ instance_turns 2 0 @ instance_turns 2 2) (instance_start sample_builds)"

lemma sample_build_ids: "is_build_id (sample_builds p)"
  unfolding is_build_id_def sample_builds_def by (cases "p = 2") (simp_all, code_simp+)

lemma sample_requests:
  "sample_builds 2 \<noteq> sample_builds 0" "sample_builds 3 = sample_builds 0"
  "read_instance_request None None b = Inr None"
  "read_instance_request None (Some (sample_builds 2)) (sample_builds 0) = Inr (Some (ReplaceInstance (sample_builds 2)))"
  "read_instance_request None (Some (sample_builds 0)) (sample_builds 0) = Inr (Some FocusWindow)"
proof -
  show differ: "sample_builds 2 \<noteq> sample_builds 0" "sample_builds 3 = sample_builds 0" by (simp_all add: sample_builds_def)
  show "read_instance_request None None b = Inr None"
    "read_instance_request None (Some (sample_builds 2)) (sample_builds 0) = Inr (Some (ReplaceInstance (sample_builds 2)))"
    "read_instance_request None (Some (sample_builds 0)) (sample_builds 0) = Inr (Some FocusWindow)"
    using differ by (simp_all add: read_instance_request_def trim_build_id[OF sample_build_ids] sample_build_ids)
qed

lemma replicate_turns: "replicate (numeral k) x = x # replicate (pred_numeral k) x"
  by (simp add: numeral_eq_Suc)

lemmas instance_eval = instance_run_def instance_start_def acquire_in_step_def write_request_step_def lock_until_step_def process_request_step_def or_exit_def
  plain_op_def instance_try_lock_def request_try_lock_def remove_request_def instance_goto_def instance_log_def
  leave_instance_def drop_lock_def sample_build_ids sample_requests replicate_turns

lemma sample_handover_eval:
  "in_pc sample_handover 2 = Monitoring \<and> in_pc sample_handover 0 = Exited (ExitReplaced (sample_builds 2))
   \<and> GaveWay 0 (sample_builds 2) \<in> set (in_log sample_handover)"
  unfolding sample_handover_def by (simp add: instance_eval)


text \<open>
  The acknowledgement names no request. Process 3, of the running build 0, asks for its window and
  times out after the monitor has read its request but before it removes the file; process 2 of
  another build writes its own request, which the monitor then removes. Process 2 takes that for an answer
  and leaves, although nobody asked the running build to give way.
\<close>

lemma stale_acknowledgement:
  defines "s \<equiv> instance_run
     (instance_turns 5 0 @ instance_turns 11 3 @ [RunInstance 0 None False]
      @ [RunInstance 3 None True, RunInstance 3 None False] @ instance_turns 9 2
      @ [RunInstance 0 None False] @ instance_turns 2 2) (instance_start sample_builds)"
  shows "in_pc s 2 = Exited ExitExisting \<and> in_pc s 0 = Monitoring
    \<and> GaveWay 0 (sample_builds 2) \<notin> set (in_log s) \<and> Cleared 0 True \<in> set (in_log s)"
  unfolding s_def by (simp add: instance_eval)

section \<open>\<open>browser_data.rs\<close>: data of older builds\<close>

text \<open>
  The entries of the data directory as \<open>read_dir\<close> yields them: an error, a name that is not UTF-8
  or a name. \<open>remove\<close> is the failure of removing an entry, a file or a directory.
\<close>

definition cleanup_entry ::
  "(string \<Rightarrow> io_error option) \<Rightarrow> string \<Rightarrow> (io_error, string option) res \<Rightarrow> string set \<Rightarrow> string set" where
  "cleanup_entry remove current_build_id entry names =
     (case entry of
        Inl _ \<Rightarrow> names
      | Inr None \<Rightarrow> names
      | Inr (Some name) \<Rightarrow>
          if name = current_build_id \<or> \<not> is_build_id name then names
          else (case remove name of None \<Rightarrow> names - {name} | Some _ \<Rightarrow> names))"

definition cleanup_stale_builds ::
  "(string \<Rightarrow> io_error option) \<Rightarrow> (io_error, (io_error, string option) res list) res \<Rightarrow> string \<Rightarrow> string set \<Rightarrow> string set" where
  "cleanup_stale_builds remove listing current_build_id names =
     (case listing of Inl _ \<Rightarrow> names | Inr es \<Rightarrow> fold (cleanup_entry remove current_build_id) es names)"

text \<open>Exactly the listed data of other builds goes, unless its removal fails.\<close>

lemma cleanup_stale_builds_exact:
  "cleanup_stale_builds remove (Inr es) current names =
     names - {n. Inr (Some n) \<in> set es \<and> n \<noteq> current \<and> is_build_id n \<and> remove n = None}"
proof -
  have "fold (cleanup_entry remove current) es names =
     names - {n. Inr (Some n) \<in> set es \<and> n \<noteq> current \<and> is_build_id n \<and> remove n = None}"
  proof (induction es arbitrary: names)
    case (Cons e es)
    show ?case
      by (simp only: fold_Cons comp_apply Cons.IH) (auto simp: cleanup_entry_def split: sum.splits option.splits if_splits)
  qed simp
  then show ?thesis by (simp add: cleanup_stale_builds_def)
qed

section \<open>\<open>lib.rs\<close> and \<open>commands.rs\<close>\<close>

fun config_path_from_iter :: "string list \<Rightarrow> string option" where
  "config_path_from_iter [] = None"
| "config_path_from_iter (argument # arguments) =
     (if argument = ''--config'' \<or> argument = ''-c''
      then (case arguments of
              [] \<Rightarrow> None
            | v # _ \<Rightarrow> if v \<noteq> [] \<and> take 1 v \<noteq> ''-'' then Some v else None)
      else config_path_from_iter arguments)"

definition config_path_from_arguments :: "string option \<Rightarrow> string list \<Rightarrow> string option" where
  "config_path_from_arguments variable arguments =
     (case variable of
        Some v \<Rightarrow> if v \<noteq> [] then Some v else config_path_from_iter (drop 1 arguments)
      | None \<Rightarrow> config_path_from_iter (drop 1 arguments))"

record StatusResponse =
  sr_state :: string
  sr_message :: "string option"
  sr_server :: "string option"
  sr_device_id :: "string option"
  sr_retry_seconds :: "nat option"
  sr_tunnels :: "ClientTunnel list"

definition status_response_new :: "string \<Rightarrow> StatusResponse" where
  "status_response_new state =
     \<lparr>sr_state = state, sr_message = None, sr_server = None, sr_device_id = None, sr_retry_seconds = None, sr_tunnels = []\<rparr>"

definition status_response :: "ClientStatus \<Rightarrow> StatusResponse" where
  "status_response status =
     (case status of
        Starting \<Rightarrow> status_response_new ''starting''
      | StatusUnconfigured reason \<Rightarrow> (status_response_new ''unconfigured'')\<lparr>sr_message := Some reason\<rparr>
      | Connecting server \<Rightarrow> (status_response_new ''connecting'')\<lparr>sr_server := Some server\<rparr>
      | Online server device_id tunnels \<Rightarrow>
          (status_response_new ''online'')\<lparr>sr_server := Some server, sr_device_id := Some device_id, sr_tunnels := tunnels\<rparr>
      | Reconnecting err retry_seconds \<Rightarrow>
          (status_response_new ''reconnecting'')\<lparr>sr_message := Some err, sr_retry_seconds := Some retry_seconds\<rparr>
      | Stopped reason \<Rightarrow> (status_response_new ''stopped'')\<lparr>sr_message := reason\<rparr>)"

text \<open>The answer keeps the whole status: two different ones never look the same.\<close>

lemma status_response_inj: "status_response a = status_response b \<Longrightarrow> a = b"
  by (auto simp: status_response_def status_response_new_def split: ClientStatus.splits)

text \<open>An explicit configuration path is found wherever the option stands.\<close>

lemma config_path_found:
  assumes "''--config'' \<notin> set before" "''-c'' \<notin> set before" "opt \<in> {''--config'', ''-c''}" "v \<noteq> []" "take 1 v \<noteq> ''-''"
  shows "config_path_from_iter (before @ opt # v # after) = Some v"
  using assms by (induction before) auto

end
