(* ===== verification/Server_Certificate.thy ===== *)
theory Server_Certificate
  imports Client_Session Client_Login Bootstrap
begin

text \<open>
  \<open>gaterust-tunnel/src/certificate.rs\<close>, the parts of \<open>tls.rs\<close> that read certificates, and the functions of \<open>client.rs\<close> that
  fetch a server's certificate and verify credentials: which name of a certificate a client asks for,
  and when it accepts a certificate for a server it does not know yet. The X.509 parser, PEM and
  the TLS connection are parameters.
\<close>

section \<open>Names of a certificate\<close>

datatype GeneralName = DNSName string | IPAddress bytes | OtherName

text \<open>
  What the parser finds: \<open>None\<close> for an extension that cannot be parsed, \<open>Some None\<close> for an absent one.
\<close>

record X509Certificate =
  x5_basic_constraints_ca :: "bool option option"
  x5_subject_alternative_name :: "GeneralName list option option"

record x509_env =
  xe_parse :: "bytes \<Rightarrow> X509Certificate option"
  xe_pem_encode :: "bytes list \<Rightarrow> bytes"
  xe_pem_certs :: "string \<Rightarrow> (io_error, bytes) res list"
  xe_private_key :: "string \<Rightarrow> (io_error, bytes option) res"

definition eq_ignore_ascii_case :: "string \<Rightarrow> string \<Rightarrow> bool" where
  "eq_ignore_ascii_case a b = (to_ascii_lowercase a = to_ascii_lowercase b)"

text \<open>
  The slices of \<open>host\<close> are taken by bytes. \<open>get\<close> refuses an index inside a character, but then the
  bytes after it cannot equal the suffix either, because that begins with a whole character.
\<close>

definition dns_matches :: "string \<Rightarrow> string \<Rightarrow> bool" where
  "dns_matches pattern host =
     (if eq_ignore_ascii_case pattern host then True
      else case strip_prefix ''*.'' pattern of
        None \<Rightarrow> False
      | Some suffix \<Rightarrow>
          (let k = length host - length suffix
           in length host > length suffix
              \<and> eq_ignore_ascii_case (drop k host) suffix
              \<and> host ! (k - 1) = CHR ''.''
              \<and> CHR ''.'' \<notin> set (take (k - 1) host)))"

definition ip_from_san :: "bytes \<Rightarrow> IpAddr option" where
  "ip_from_san raw =
     (if length raw = 4 then Some (V4 (of_nat (foldl (\<lambda>n b. n * 256 + unat b) 0 raw)))
      else if length raw = 16 then Some (V6 (of_nat (foldl (\<lambda>n b. n * 256 + unat b) 0 raw)))
      else None)"

text \<open>Whether a name covers the host of the configured address.\<close>

definition san_matches :: "string \<Rightarrow> IpAddr option \<Rightarrow> GeneralName \<Rightarrow> bool" where
  "san_matches host ip name =
     (case name of
        DNSName dns \<Rightarrow> dns_matches dns host
      | IPAddress raw \<Rightarrow> (case ip_from_san raw of None \<Rightarrow> False | Some a \<Rightarrow> Some a = ip)
      | OtherName \<Rightarrow> False)"

fun find_map :: "('a \<Rightarrow> 'b option) \<Rightarrow> 'a list \<Rightarrow> 'b option" where
  "find_map f [] = None"
| "find_map f (x # xs) = (case f x of Some y \<Rightarrow> Some y | None \<Rightarrow> find_map f xs)"

definition concrete_dns :: "GeneralName \<Rightarrow> string option" where
  "concrete_dns name = (case name of DNSName dns \<Rightarrow> if CHR ''*'' \<in> set dns then None else Some dns | _ \<Rightarrow> None)"

definition concrete_ip :: "GeneralName \<Rightarrow> string option" where
  "concrete_ip name = (case name of IPAddress raw \<Rightarrow> map_option show_ip (ip_from_san raw) | _ \<Rightarrow> None)"

definition server_name_from_der :: "x509_env \<Rightarrow> bytes \<Rightarrow> string \<Rightarrow> (TunnelError, string) res" where
  "server_name_from_der env der address =
     (case xe_parse env der of
        None \<Rightarrow> Inl (TunnelError.Tls ''unreadable leaf certificate'')
      | Some certificate \<Rightarrow>
          (case x5_subject_alternative_name certificate of
             None \<Rightarrow> Inl (TunnelError.Tls ''unreadable SAN'')
           | Some None \<Rightarrow> Inl (TunnelError.Tls ''no SAN'')
           | Some (Some names) \<Rightarrow>
               (case address_host address of
                  None \<Rightarrow> Inl (TunnelError.InvalidConfig ''the server address has no host'')
                | Some host \<Rightarrow>
                    if list_ex (san_matches host (parse_ip host)) names then Inr host
                    else (case find_map concrete_dns names of
                            Some dns \<Rightarrow> Inr dns
                          | None \<Rightarrow>
                              (case find_map concrete_ip names of
                                 Some ip \<Rightarrow> Inr ip
                               | None \<Rightarrow> Inl (TunnelError.Tls ''no usable SAN''))))))"

definition validate_server_leaf :: "x509_env \<Rightarrow> bytes \<Rightarrow> (TunnelError, unit) res" where
  "validate_server_leaf env der =
     (case xe_parse env der of
        None \<Rightarrow> Inl (TunnelError.Tls ''unreadable leaf certificate'')
      | Some certificate \<Rightarrow>
          (case x5_basic_constraints_ca certificate of
             None \<Rightarrow> Inl (TunnelError.Tls ''unreadable basic constraints'')
           | Some (Some True) \<Rightarrow> Inl ServerCertificateIsCa
           | _ \<Rightarrow> Inr ()))"

definition MAX_CERTIFICATE_CHAIN_LENGTH :: nat where "MAX_CERTIFICATE_CHAIN_LENGTH = 16"

definition certificate_from_chain :: "x509_env \<Rightarrow> bytes list \<Rightarrow> string \<Rightarrow> (TunnelError, ServerCertificate) res" where
  "certificate_from_chain env certificates address =
     (if certificates = [] \<or> length certificates > MAX_CERTIFICATE_CHAIN_LENGTH
      then Inl (TunnelError.Protocol ''invalid length of the certificate chain'')
      else res_bind (validate_server_leaf env (certificates ! 0)) (\<lambda>_.
           res_bind (server_name_from_der env (certificates ! 0) address) (\<lambda>name.
           Inr \<lparr>sv_server_name = name, sv_pem = xe_pem_encode env certificates\<rparr>)))"

definition server_name_from_pem :: "x509_env \<Rightarrow> string \<Rightarrow> string \<Rightarrow> (TunnelError, string) res" where
  "server_name_from_pem env content address =
     (case xe_pem_certs env content of
        [] \<Rightarrow> Inl (TunnelError.Tls ''server.pem holds no certificate'')
      | Inl e # _ \<Rightarrow> Inl (TunnelError.Io e)
      | Inr certificate # _ \<Rightarrow>
          res_bind (validate_server_leaf env certificate) (\<lambda>_. server_name_from_der env certificate address))"

section \<open>Reading certificates: \<open>tls.rs\<close>\<close>

definition read_certificates :: "x509_env \<Rightarrow> fs \<Rightarrow> path \<Rightarrow> (TunnelError, bytes list) res" where
  "read_certificates env fs p =
     (case fs p of
        Inl e \<Rightarrow> Inl (TunnelError.ReadConfig p e)
      | Inr content \<Rightarrow>
          (case res_map (\<lambda>r. r) (xe_pem_certs env content) of
             Inl e \<Rightarrow> Inl (TunnelError.Io e)
           | Inr [] \<Rightarrow> Inl (TunnelError.Tls ''the file holds no certificate'')
           | Inr certificates \<Rightarrow> Inr certificates))"

definition read_private_key :: "x509_env \<Rightarrow> fs \<Rightarrow> path \<Rightarrow> (TunnelError, bytes) res" where
  "read_private_key env fs p =
     (case fs p of
        Inl e \<Rightarrow> Inl (TunnelError.ReadConfig p e)
      | Inr content \<Rightarrow>
          (case xe_private_key env content of
             Inl e \<Rightarrow> Inl (TunnelError.Io e)
           | Inr None \<Rightarrow> Inl (TunnelError.Tls ''the file holds no private key'')
           | Inr (Some key) \<Rightarrow> Inr key))"

text \<open>\<open>with_single_cert\<close> is rustls; its verdict is the parameter \<open>accept\<close>.\<close>

definition build_server_config ::
  "x509_env \<Rightarrow> (bytes list \<Rightarrow> bytes \<Rightarrow> string option) \<Rightarrow> fs \<Rightarrow> ServerQuicConfig \<Rightarrow> (TunnelError, bytes list \<times> bytes \<times> bytes) res" where
  "build_server_config env accept fs config =
     res_bind (read_certificates env fs (q_certificate config)) (\<lambda>certificates.
     case certificates of
       [] \<Rightarrow> Inl (TunnelError.Tls ''no leaf certificate'')
     | certificate # _ \<Rightarrow>
         res_bind (validate_server_leaf env certificate) (\<lambda>_.
         res_bind (read_private_key env fs (q_private_key config)) (\<lambda>key.
         case accept certificates key of
           Some e \<Rightarrow> Inl (TunnelError.Tls e)
         | None \<Rightarrow> Inr (certificates, key, certificate))))"

section \<open>Fetching a certificate: \<open>client.rs\<close>\<close>

text \<open>
  One attempt of \<open>bootstrap_at_address\<close>: the chain the TLS peer has shown, \<open>None\<close> when there is none, the client's nonce, and
  what the peer answers to the request it is sent.
\<close>

record bootstrap_io =
  bi_connect :: "(TunnelError, bytes list option) res"
  bi_nonce :: bytes
  bi_open :: "(TunnelError, unit) res"
  bi_write :: "(TunnelError, unit) res"
  bi_response :: "CertificateBootstrapRequest \<Rightarrow> (TunnelError, ServerHandshake) res"

definition bootstrap_at_address ::
  "x509_env \<Rightarrow> crypto \<Rightarrow> string \<Rightarrow> string \<Rightarrow> bootstrap_io \<Rightarrow> (TunnelError, ServerCertificate) res" where
  "bootstrap_at_address env c address key io =
     res_bind (bi_connect io) (\<lambda>identity.
     case identity of
       None \<Rightarrow> Inl (TunnelError.Tls ''the connection has no certificate'')
     | Some [] \<Rightarrow> Inl (TunnelError.Tls ''the server shows no leaf certificate'')
     | Some (certificate # rest) \<Rightarrow>
         res_bind (bootstrap_request c (str_bytes key) (bi_nonce io) certificate) (\<lambda>req.
         res_bind (bi_open io) (\<lambda>_.
         res_bind (bi_write io) (\<lambda>_.
         res_bind (bi_response io req) (\<lambda>response.
         res_bind (check_bootstrap c (str_bytes key) (bi_nonce io) certificate response) (\<lambda>_.
         certificate_from_chain env (certificate # rest) address))))))"

text \<open>\<open>completion\<close> is the order in which the concurrent attempts end.\<close>

definition fetch_server_certificate ::
  "x509_env \<Rightarrow> crypto \<Rightarrow> (io_error, SocketAddr list) res \<Rightarrow> (SocketAddr list \<Rightarrow> SocketAddr list) \<Rightarrow> (SocketAddr \<Rightarrow> bootstrap_io)
     \<Rightarrow> string \<Rightarrow> string \<Rightarrow> (TunnelError, ServerCertificate) res" where
  "fetch_server_certificate env c looked_up completion io address key =
     res_bind (validate_group_key key) (\<lambda>_.
     (let config = \<lparr>cc_key = key, cc_server = \<lparr>cs_address = address, cs_name = None, cs_ca_certificate = None\<rparr>, cc_services = []\<rparr>
      in res_bind (client_validate config) (\<lambda>_.
         res_bind (server_name config) (\<lambda>_.
         res_bind (resolve_addresses looked_up) (\<lambda>addresses.
         try_addresses (\<lambda>a. bootstrap_at_address env c address key (io a)) (completion addresses))))))"

text \<open>\<open>verify_client_credentials\<close>: a connection with the stored trust, and one authentication under a random device id.\<close>

definition verify_client_credentials ::
  "(TunnelError, unit) res \<Rightarrow> ConnectionError option \<Rightarrow> handshake_io \<Rightarrow> ClientConfig \<Rightarrow> (TunnelError, ClientTunnel list) res" where
  "verify_client_credentials connected close_reason io config =
     res_bind (client_validate config) (\<lambda>_.
     res_bind connected (\<lambda>_.
     res_bind (client_authenticate close_reason io) (\<lambda>r.
     case r of
       AuthAccepted tunnels \<Rightarrow> Inr tunnels
     | AuthDeviceIdConflict \<Rightarrow> Inl (TunnelError.Protocol ''conflict of the temporary device id''))))"

section \<open>Lemmas\<close>

lemma lower_append: "to_ascii_lowercase (a @ b) = to_ascii_lowercase a @ to_ascii_lowercase b"
  by (simp add: to_ascii_lowercase_def)

text \<open>A wildcard stands for one label; everything else is equal up to the case of ASCII letters.\<close>

lemma dns_matches_iff:
  "dns_matches pattern host \<longleftrightarrow>
     eq_ignore_ascii_case pattern host
     \<or> (\<exists>suffix label rest. pattern = ''*.'' @ suffix \<and> host = label @ ''.'' @ rest \<and> CHR ''.'' \<notin> set label
          \<and> eq_ignore_ascii_case rest suffix)"
proof (cases "eq_ignore_ascii_case pattern host")
  case False
  show ?thesis
  proof
    assume "dns_matches pattern host"
    with False obtain suffix where s: "pattern = ''*.'' @ suffix" "length host > length suffix"
      "eq_ignore_ascii_case (drop (length host - length suffix) host) suffix"
      "host ! (length host - length suffix - 1) = CHR ''.''" "CHR ''.'' \<notin> set (take (length host - length suffix - 1) host)"
      by (auto simp: dns_matches_def Let_def str_simps split: option.splits)
    let ?k = "length host - length suffix"
    have "Suc (?k - 1) = ?k" using s(2) by simp
    then have "host = take (?k - 1) host @ host ! (?k - 1) # drop ?k host"
      using id_take_nth_drop[of "?k - 1" host] s(2) by simp
    with s show "eq_ignore_ascii_case pattern host \<or> (\<exists>suffix label rest. pattern = ''*.'' @ suffix \<and> host = label @ ''.'' @ rest
        \<and> CHR ''.'' \<notin> set label \<and> eq_ignore_ascii_case rest suffix)"
      by (intro disjI2 exI[of _ suffix] exI[of _ "take (?k - 1) host"] exI[of _ "drop ?k host"]) simp
  next
    assume "eq_ignore_ascii_case pattern host \<or> (\<exists>suffix label rest. pattern = ''*.'' @ suffix \<and> host = label @ ''.'' @ rest
        \<and> CHR ''.'' \<notin> set label \<and> eq_ignore_ascii_case rest suffix)"
    with False obtain suffix label rest where s: "pattern = ''*.'' @ suffix" "host = label @ ''.'' @ rest" "CHR ''.'' \<notin> set label"
      "eq_ignore_ascii_case rest suffix" by blast
    have len: "length rest = length suffix"
      using arg_cong[OF s(4)[unfolded eq_ignore_ascii_case_def], of length] by (simp add: to_ascii_lowercase_def)
    then have "length host - length suffix = Suc (length label)" using s(2) by simp
    moreover have "strip_prefix ''*.'' pattern = Some suffix" by (simp add: s(1) strip_prefix_def)
    ultimately show "dns_matches pattern host"
      using s len by (simp add: dns_matches_def Let_def nth_append)
  qed
qed (simp add: dns_matches_def)

lemma find_map_Some: "find_map f xs = Some y \<Longrightarrow> \<exists>x \<in> set xs. f x = Some y"
  by (induction xs) (auto split: option.splits)

lemma try_results_Inr: "try_results e rs = Inr v \<Longrightarrow> Inr v \<in> set rs"
  by (induction rs arbitrary: e) (auto split: sum.splits TunnelError.splits)

text \<open>The name a client is told to ask for is the host of the address, when the certificate covers it, or else a name of the certificate.\<close>

lemma server_name_covered:
  assumes "server_name_from_der env der address = Inr n"
  shows "\<exists>certificate names host. xe_parse env der = Some certificate \<and> x5_subject_alternative_name certificate = Some (Some names)
    \<and> address_host address = Some host
    \<and> (if list_ex (san_matches host (parse_ip host)) names then n = host
       else (\<exists>name \<in> set names. concrete_dns name = Some n \<or> concrete_ip name = Some n))"
proof -
  from assms obtain certificate names host where "xe_parse env der = Some certificate"
    "x5_subject_alternative_name certificate = Some (Some names)" "address_host address = Some host"
    by (auto simp: server_name_from_der_def split: option.splits)
  with assms show ?thesis
    by (auto simp: server_name_from_der_def split: if_splits option.splits dest!: find_map_Some)
qed

text \<open>
  A certificate is accepted only from a peer that has proved, for this very certificate and this client's
  nonce, that it holds the group key; the leaf is no CA certificate.
\<close>

theorem fetched_certificate_proven:
  assumes "fetch_server_certificate env c looked_up completion io address key = Inr cert"
    and "\<And>as. set (completion as) \<subseteq> set as"
  shows "\<exists>addresses a leaf rest sn p. resolve_addresses looked_up = Inr addresses \<and> a \<in> set addresses
    \<and> bi_connect (io a) = Inr (Some (leaf # rest))
    \<and> verify_server_proof c (str_bytes key) PROTOCOL_VERSION (bi_nonce (io a)) sn leaf p
    \<and> validate_server_leaf env leaf = Inr () \<and> server_name_from_der env leaf address = Inr (sv_server_name cert)
    \<and> sv_pem cert = xe_pem_encode env (leaf # rest) \<and> length (leaf # rest) \<le> MAX_CERTIFICATE_CHAIN_LENGTH"
proof -
  from assms(1) obtain addresses where addresses: "resolve_addresses looked_up = Inr addresses"
    "try_addresses (\<lambda>a. bootstrap_at_address env c address key (io a)) (completion addresses) = Inr cert"
    by (auto simp: fetch_server_certificate_def Let_def res_bind_Inr_iff)
  then obtain a where a: "a \<in> set addresses" "bootstrap_at_address env c address key (io a) = Inr cert"
    using assms(2)[of addresses] try_results_Inr by (fastforce simp: try_addresses_def)
  from a(2) obtain identity where "bi_connect (io a) = Inr identity"
    by (auto simp: bootstrap_at_address_def res_bind_Inr_iff)
  with a(2) obtain leaf rest where shown: "bi_connect (io a) = Inr (Some (leaf # rest))"
    by (cases identity; cases "the identity") (auto simp: bootstrap_at_address_def)
  with a(2) obtain response where
    check: "check_bootstrap c (str_bytes key) (bi_nonce (io a)) leaf response = Inr ()"
    and "certificate_from_chain env (leaf # rest) address = Inr cert"
    by (auto simp: bootstrap_at_address_def res_bind_Inr_iff)
  moreover from check obtain sn p where "verify_server_proof c (str_bytes key) PROTOCOL_VERSION (bi_nonce (io a)) sn leaf p"
    by (auto simp: check_bootstrap_def split: ServerHandshake.splits CertificateBootstrapResponse.splits if_splits)
  ultimately show ?thesis using addresses(1) a(1) shown
    by (fastforce simp: certificate_from_chain_def res_bind_Inr_iff split: if_splits)
qed

end
