(* ===== verification/Server_Process.thy ===== *)
theory Server_Process
  imports Server_Certificate
begin

text \<open>
  \<open>gaterust-server/src/main.rs\<close>, \<open>gaterust-tunnel/src/lib.rs\<close> and the two \<open>watcher.rs\<close>: the server process
  that runs the modules together, the check of their configurations, and how a change of a
  configuration file reaches a module.
\<close>

section \<open>Watching a configuration file\<close>

datatype EventKind = EventCreate | EventModify | EventRemove | EventOther

record notify_event =
  ne_kind :: EventKind
  ne_paths :: "path list"

definition watched_directory :: "path \<Rightarrow> path" where
  "watched_directory p =
     (case path_parent p of
        Some parent \<Rightarrow> if parent = Path False [] then Path False [''.''] else parent
      | None \<Rightarrow> Path False [''.''])"

definition relevant_event :: "string \<Rightarrow> notify_event \<Rightarrow> bool" where
  "relevant_event file_name e =
     (ne_kind e \<noteq> EventOther \<and> list_ex (\<lambda>p. path_file_name p = Some file_name) (ne_paths e))"

text \<open>
  The callback of the watcher. The channel holds one message: \<open>try_send\<close> on a full one changes
  nothing. \<open>full\<close> says whether a message is waiting.
\<close>

definition watcher_callback :: "string \<Rightarrow> (string, notify_event) res \<Rightarrow> bool \<Rightarrow> bool" where
  "watcher_callback file_name event full =
     (case event of Inl _ \<Rightarrow> full | Inr e \<Rightarrow> if relevant_event file_name e then True else full)"

text \<open>What the receiver sees: a message, \<open>CHANGE_QUIET_PERIOD\<close> without one, or the closed channel.\<close>

datatype arrival = ArrivedChange | ArrivedQuiet | ArrivedClosed

fun settle_changes :: "arrival list \<Rightarrow> (bool \<times> arrival list) option" where
  "settle_changes [] = None"
| "settle_changes (ArrivedChange # as) = settle_changes as"
| "settle_changes (ArrivedQuiet # as) = Some (True, as)"
| "settle_changes (ArrivedClosed # as) = Some (True, ArrivedClosed # as)"

text \<open>\<open>changed\<close> of the tunnel's watcher; \<open>None\<close> while it waits.\<close>

fun watcher_changed :: "arrival list \<Rightarrow> (bool \<times> arrival list) option" where
  "watcher_changed [] = None"
| "watcher_changed (ArrivedQuiet # as) = watcher_changed as"
| "watcher_changed (ArrivedChange # as) = settle_changes as"
| "watcher_changed (ArrivedClosed # as) = Some (False, ArrivedClosed # as)"

text \<open>\<open>changed\<close> of the proxy's watcher, which does not wait for a quiet period.\<close>

fun proxy_watcher_changed :: "arrival list \<Rightarrow> (bool \<times> arrival list) option" where
  "proxy_watcher_changed [] = None"
| "proxy_watcher_changed (ArrivedQuiet # as) = proxy_watcher_changed as"
| "proxy_watcher_changed (ArrivedChange # as) = Some (True, as)"
| "proxy_watcher_changed (ArrivedClosed # as) = Some (False, ArrivedClosed # as)"

text \<open>A burst of events, as an atomic replacement makes it, is one change to the tunnel and several to the proxy.\<close>

lemma settle_burst: "settle_changes (replicate m ArrivedChange @ ArrivedQuiet # rest) = Some (True, rest)"
  by (induction m) simp_all

lemma watcher_burst:
  "watcher_changed (replicate n ArrivedQuiet @ replicate (Suc m) ArrivedChange @ ArrivedQuiet # rest) = Some (True, rest)"
  by (induction n) (simp_all add: settle_burst)

lemma proxy_watcher_burst:
  "proxy_watcher_changed (replicate n ArrivedQuiet @ ArrivedChange # rest) = Some (True, rest)"
  by (induction n) simp_all

text \<open>No relevant event is lost: after it a message waits, whatever came before or after.\<close>

lemma watcher_callback_full: "watcher_callback f event True"
  by (cases event) (simp_all add: watcher_callback_def)

lemma watcher_stays_full: "full \<Longrightarrow> fold (watcher_callback f) es full"
  by (induction es arbitrary: full) (simp_all add: watcher_callback_full)

lemma watcher_keeps_change:
  assumes "Inr e \<in> set es" "relevant_event f e"
  shows "fold (watcher_callback f) es full"
proof -
  from assms(1) obtain a b where es: "es = a @ Inr e # b" by (metis split_list)
  show ?thesis using assms(2) by (simp add: es watcher_stays_full watcher_callback_def[of f "Inr e"])
qed

section \<open>The server process\<close>

definition check_server_config ::
  "x509_env \<Rightarrow> (bytes list \<Rightarrow> bytes \<Rightarrow> string option) \<Rightarrow> (string \<Rightarrow> ServerConfig option) \<Rightarrow> fs \<Rightarrow> path \<Rightarrow> (TunnelError, unit) res" where
  "check_server_config env accept from_toml fs p =
     res_bind (server_load from_toml fs p) (\<lambda>config.
     res_bind (build_server_config env accept fs (sc_quic config)) (\<lambda>_. Inr ()))"

text \<open>The modules of a build with all features; \<open>tunnel\<close>, \<open>proxy\<close> and \<open>web\<close> are the results of their own checks.\<close>

definition server_check_config ::
  "bool \<Rightarrow> bool \<Rightarrow> bool \<Rightarrow> (string, unit) res \<Rightarrow> (string, unit) res \<Rightarrow> (string, unit) res \<Rightarrow> (string, unit) res" where
  "server_check_config enable_tunnel enable_proxy enable_web tunnel proxy web =
     res_bind (if enable_tunnel then (case tunnel of Inl e \<Rightarrow> Inl (''tunnel module: '' @ e) | Inr _ \<Rightarrow> Inr 1) else Inr 0) (\<lambda>enabled.
     res_bind (if enable_proxy then (case proxy of Inl e \<Rightarrow> Inl (''proxy module: '' @ e) | Inr _ \<Rightarrow> Inr (enabled + 1)) else Inr enabled) (\<lambda>enabled.
     res_bind (if enable_web then (case web of Inl e \<Rightarrow> Inl (''web module: '' @ e) | Inr _ \<Rightarrow> Inr (enabled + 1)) else Inr enabled) (\<lambda>enabled.
       if enabled = (0 :: nat) then Inl ''no module is enabled'' else Inr ())))"

datatype module_end = ModuleEnded | ModuleFailed string | ModulePanicked string

definition module_error :: "module_end \<Rightarrow> string option" where
  "module_error e =
     (case e of ModuleEnded \<Rightarrow> None | ModuleFailed m \<Rightarrow> Some m | ModulePanicked m \<Rightarrow> Some (''a module task ended abnormally: '' @ m))"

text \<open>\<open>while let Some(result) = tasks.join_next().await\<close>: the first error stays.\<close>

definition join_module :: "module_end \<Rightarrow> string option \<Rightarrow> string option" where
  "join_module e failure = (case failure of None \<Rightarrow> module_error e | Some f \<Rightarrow> Some f)"

text \<open>
  \<open>run\<close>: \<open>signal\<close> is the outcome of \<open>ctrl_c\<close> when that came before any module ended, \<open>ends\<close> are the ends of the
  modules in their order. The second component says whether the modules were told to stop.
\<close>

definition run_server_process :: "(string, unit) res option \<Rightarrow> module_end list \<Rightarrow> (string, unit) res \<times> bool" where
  "run_server_process signal ends =
     (if ends = [] then (Inl ''no module is enabled'', False)
      else case signal of
        Some (Inl e) \<Rightarrow> (Inl (''cannot listen for the exit signal: '' @ e), False)
      | Some (Inr _) \<Rightarrow> (case fold join_module ends None of None \<Rightarrow> Inr () | Some f \<Rightarrow> Inl f, True)
      | None \<Rightarrow> (case fold join_module (tl ends) (module_error (hd ends)) of None \<Rightarrow> Inr () | Some f \<Rightarrow> Inl f, True))"

lemma server_check_config_iff:
  "server_check_config t p w rt rp rw = Inr () \<longleftrightarrow>
     (t \<or> p \<or> w) \<and> (t \<longrightarrow> rt = Inr ()) \<and> (p \<longrightarrow> rp = Inr ()) \<and> (w \<longrightarrow> rw = Inr ())"
  by (cases t; cases p; cases w; cases rt; cases rp; cases rw) (simp_all add: server_check_config_def)

lemma join_modules: "fold join_module ends failure = (case failure of Some f \<Rightarrow> Some f | None \<Rightarrow> find_map module_error ends)"
  by (induction ends arbitrary: failure) (auto simp: join_module_def split: option.splits)

text \<open>
  The process reports the error of the first module that failed, and success exactly when none
  did; whichever way the end began, the remaining modules were told to stop.
\<close>

theorem run_server_process_result:
  assumes "ends \<noteq> []" "\<And>e. signal \<noteq> Some (Inl e)"
  shows "run_server_process signal ends = (case find_map module_error ends of None \<Rightarrow> Inr () | Some f \<Rightarrow> Inl f, True)"
proof -
  obtain e es where ends: "ends = e # es" using assms(1) by (cases ends) auto
  show ?thesis
  proof (cases signal)
    case None
    then show ?thesis by (simp add: run_server_process_def ends join_modules split: option.split)
  next
    case (Some s)
    with assms(2) obtain u where "s = Inr u" by (cases s) auto
    with Some show ?thesis by (simp add: run_server_process_def ends join_modules join_module_def split: option.split)
  qed
qed

end
