(* ===== verification/Spec2Isabelle.thy ===== *)
theory Spec2Isabelle
  imports Listener_Manager Control_Link Udp_Listener Relay Proxy_Server Connection_Limit Control_Api Acme_Issue Desktop_Client Server_Process
begin

text \<open>
  GateRust: a verification library for the tunnel, the reverse proxy, the console and the clients.

  \<^bold>\<open>The program.\<close> GateRust is one server process with three modules, each of which may be switched
  off, and a client.
  \<^item> The tunnel (\<open>src/crates/gaterust-tunnel\<close>) lets clients behind a firewall offer local services
    on public ports of the server. A client keeps one QUIC connection; on its first stream it
    authenticates with the key of its group and declares services, and the server owns the public
    listeners and opens a stream or a UDP session to the client that holds a tunnel.
  \<^item> The proxy (\<open>src/crates/gaterust-proxy\<close>) terminates TLS, routes requests by host and path, and
    obtains and renews its certificates through ACME with DNS records.
  \<^item> The console (\<open>src/crates/gaterust-control\<close>) is an HTTP API behind a login that edits the two
    configuration files and waits until the running modules have applied them.
  \<^item> The client library (\<open>src/crates/gaterust-client\<close>) performs the login at a server and runs the
    tunnel client; the desktop client (\<open>src/client/src-tauri\<close>) is a window around it.
  The parts meet at a few places: the runtime objects of tunnel and proxy, through which modules
  report what they have applied and the console waits for it; the configuration files, which the
  console replaces and the modules watch; the control connection between the two ends of a tunnel.

  \<^bold>\<open>Foundations.\<close> \<open>Prelude\<close> has the result type, the early-exit loops, strings as UTF-8 bytes and the
  collections of rewrite rules; \<open>Hash_Map\<close> models \<open>HashMap\<close> as an association list in iteration order
  behind the contract \<open>map_contract\<close>; \<open>Std_Lib\<close> has addresses, paths and their parsers; \<open>Tunnel_Base\<close>
  the errors and close codes (\<open>error.rs\<close>, \<open>close.rs\<close>). Every \<open>Err\<close>, panic and early return is a value.

  \<^bold>\<open>The tunnel crate.\<close>
  \<^item> \<open>Tunnel_Config\<close> (\<open>config.rs\<close>): validation accepts exactly the configurations of a declarative
    description; loading, saving and resetting.
  \<^item> \<open>Protocol\<close> (\<open>protocol.rs\<close>): frames and datagrams survive the channel, over the contract
    \<open>framed_channel\<close>, whatever follows in the stream and however the writes are cut.
  \<^item> \<open>Rate_Limit\<close> and \<open>Relay\<close> (\<open>rate_limit.rs\<close>, \<open>relay.rs\<close>): the limiter bounds the bytes in any window; the
    two copy loops over one limiter hand on exactly what was read.
  \<^item> \<open>Admission\<close> (\<open>resource.rs\<close> and \<open>PeerAdmission\<close> of \<open>server/mod.rs\<close>): budgets and admission are instances of
    the contract \<open>permit_pool\<close>: no permit is lost, none is handed out twice.
  \<^item> \<open>Tunnel_Runtime\<close> (\<open>runtime.rs\<close>): the shared table of sessions with its invariant; every operation
    preserves it; what registration, updates, revocation and the catalogue do; that waiting for
    a configuration revision ends.
  \<^item> \<open>Listener_Manager\<close> (\<open>ListenerManager\<close> and \<open>reload_server\<close> of \<open>server/mod.rs\<close>, \<open>endpoint.rs\<close>): a reload applies
    everything or leaves the old listeners in place.
  \<^item> \<open>Server_Session\<close> (sessions of \<open>server/mod.rs\<close>), \<open>Bootstrap\<close> (\<open>bootstrap.rs\<close>), \<open>Identity\<close> (\<open>identity.rs\<close>),
    \<open>Client_Session\<close> (\<open>client.rs\<close>, \<open>client_control.rs\<close>), and \<open>Control_Link\<close>, which composes client, server and a FIFO
    channel into one transition system: admission is sound, sessions clean up on every path, and in
    every reachable state without a pending request the client serves each tunnel the server routes to it.
  \<^item> \<open>Public_Stream\<close> (\<open>stream.rs\<close>, \<open>socks5.rs\<close>) and \<open>Udp_Listener\<close> (\<open>udp.rs\<close>): public connections and
    datagrams with the accounting of their permits on every path.
  \<^item> \<open>Server_Certificate\<close> (\<open>certificate.rs\<close>, \<open>tls.rs\<close>, certificate functions of \<open>client.rs\<close>): a fetched certificate
    was proven with the group key by the peer that showed it.

  \<^bold>\<open>The proxy crate.\<close>
  \<^item> \<open>Proxy_Config\<close> (\<open>config.rs\<close>, \<open>error.rs\<close>) and \<open>Router\<close> (\<open>router.rs\<close>): exact validation; the
    table refines a specification by host match and longest path prefix.
  \<^item> \<open>Certificate_Cache\<close> (\<open>cache.rs\<close>): a crash at any point leaves the old or the new certificate whole.
  \<^item> \<open>Certificate_Manager\<close> (\<open>runtime.rs\<close>, \<open>tls.rs\<close>): the TLS table follows the configuration through all
    commands and task results.
  \<^item> \<open>Dns_Client\<close> and \<open>Acme_Issue\<close> (\<open>dns.rs\<close>, \<open>acme.rs\<close>): DNS-01 authorization destroys no foreign record and
    cleans up, also when it is cancelled between two awaits.
  \<^item> \<open>Proxy_Service\<close> (\<open>proxy.rs\<close>), \<open>Proxy_Server\<close> (\<open>listener.rs\<close>, \<open>server.rs\<close>), \<open>Connection_Limit\<close>
    (\<open>connection.rs\<close>): outcome of a request, reload with roll-back, the limit under all interleavings.

  \<^bold>\<open>The console, the clients and the process.\<close>
  \<^item> \<open>Control_Auth\<close> (\<open>auth.rs\<close>, \<open>config.rs\<close>), \<open>Config_Store\<close> (\<open>store.rs\<close>, \<open>api_model.rs\<close> of the proxy),
    \<open>Control_Api\<close> (\<open>api.rs\<close>, \<open>lib.rs\<close>): bound on password attempts, atomic edits over the contract
    \<open>config_format\<close> of the two file formats, authorisation of every route.
  \<^item> \<open>Client_Login\<close> and \<open>Client_Runtime\<close> (\<open>lib.rs\<close>, \<open>trust.rs\<close>, \<open>paths.rs\<close>): a login commits or changes
    nothing; the life cycle of the background task; the selection of tunnels.
  \<^item> \<open>Desktop_Client\<close> (\<open>instance.rs\<close>, \<open>browser_data.rs\<close>, \<open>commands.rs\<close>, \<open>lib.rs\<close>): hand-over between instances.
  \<^item> \<open>Server_Process\<close> (\<open>gaterust-server/src/main.rs\<close>, the watchers): file changes reach a module; the
    process reports the first module error.

  \<^bold>\<open>Concurrency.\<close> A component whose tasks interleave is a step relation with one step per critical
  section or atomic access of the source (\<open>Control_Link\<close>, \<open>Connection_Limit\<close>, \<open>Client_Runtime\<close>,
  \<open>Desktop_Client\<close>, \<open>Control_Auth\<close>), and its properties are invariants of all reachable states. Where one
  task owns the state, a handler is a function and the branches of \<open>select!\<close> are events. A future that is
  dropped at an await is a result of its own (\<open>polled\<close> in \<open>Dns_Client\<close>).

  \<^bold>\<open>Parameters.\<close> Code outside the repository is an argument of the definitions that use it: TOML and
  JSON, SHA-256 and HMAC, Argon2 and JWT, X.509, PEM and rustls, quinn, hyper, the ACME library, the DNS
  providers and the resolver, the operating system's sockets, locks, clock and random source. What is
  relied on is a named hypothesis of the theorem (an encoder that its decoder inverts, an atomic
  writer, a DNS account that behaves as documented), and a witness instantiates it. The texts of error
  messages are abbreviated where nothing depends on them.

  \<^bold>\<open>Bounds.\<close> Recursion is structural or has a measure. Two loops run against an environment: the
  search for a zone takes at most \<open>dn_pages\<close> pages, the number the enclosing time limit allows, and the
  search past it is the dropped future the limit produces; the wait for DNS records polls
  \<open>DNS_PROPAGATION_TIMEOUT / DNS_POLL_INTERVAL\<close> times, as the source does. Reading a
  changed client configuration ends after eleven attempts, which is proved. The retry loop of the client and
  the wait for a configuration run over a given sequence of events, and that the wait returns is proved
  for sequences in which the awaited event occurs. Words keep their width where the code can wrap.

  \<^bold>\<open>Deviations the model shows.\<close> Lemmas of the component theories exhibit executions in which the code
  does not do what it means to: \<open>abandoned_read_fails\<close> (\<open>Protocol\<close>), \<open>stale_service_map\<close> (\<open>Client_Session\<close>),
  \<open>ended_session_drops\<close> (\<open>Udp_Listener\<close>), \<open>switching_answer_stripped\<close> and \<open>second_connection_line_kept\<close>
  (\<open>Proxy_Service\<close>), \<open>dead_listeners_reported_applied\<close> (\<open>Proxy_Server\<close>), \<open>panicked_task_blocks\<close>
  (\<open>Certificate_Manager\<close>), \<open>cancelled_creation_leaves_record\<close> (\<open>Acme_Issue\<close>), \<open>parallel_guesses_all_checked\<close>
  (\<open>Control_Auth\<close>), \<open>full_queue_loses_change\<close> (\<open>Control_Api\<close>), \<open>second_shutdown_returns_early\<close>
  (\<open>Client_Runtime\<close>) and \<open>stale_acknowledgement\<close> (\<open>Desktop_Client\<close>).

  \<^bold>\<open>Not modelled.\<close> The outer functions that start tasks, signal handlers and watchers (\<open>run_server\<close>,
  \<open>run_proxy\<close>, \<open>run_client\<close> and their variants): they only wire modelled operations together. The
  construction of rustls and quinn configuration objects and transport parameters, the poll functions
  that forward to quinn, the operating system's side of file watching, file permissions, axum
  extractors and layers, the live update stream and static files, serving a connection with hyper: calls of
  libraries without logic of the program. Argument parsing, logging, window handling, the data
  migration of the macOS web view and build scripts: glue. The vendored quinn, the web interface and
  the tests are not part of the program's own Rust code.
\<close>

end
